(* ===== verification/Prelude.thy ===== *)
theory Prelude
  imports Main "HOL-Library.AList" "HOL-Library.Sublist"
begin

text \<open>
  Shared vocabulary of the development: Python strings, insertion-ordered dictionaries,
  exceptions with the class hierarchy that \<open>except\<close> clauses test, and the lemma
  collections the components use.

  A Python \<open>str\<close> is an Isabelle \<open>string\<close> whose characters stand for the code points
  0 to 255 (ASCII and Latin-1).  On that range lower-casing, the white-space test and the
  length of the UTF-8 encoding are written out exactly; code points above 255 are outside
  the model.
\<close>

section \<open>Lemma collections\<close>

named_theorems pystr_simps \<open>facts about Python string operations\<close>
named_theorems dict_simps \<open>facts about insertion-ordered dictionaries\<close>

section \<open>Characters\<close>

definition is_space :: "char \<Rightarrow> bool" where
  "is_space c = (let n = of_char c :: nat in
     (9 \<le> n \<and> n \<le> 13) \<or> (28 \<le> n \<and> n \<le> 32) \<or> n = 133 \<or> n = 160)"

definition lower_char :: "char \<Rightarrow> char" where
  "lower_char c = (let n = of_char c :: nat in
     if (65 \<le> n \<and> n \<le> 90) \<or> (192 \<le> n \<and> n \<le> 222 \<and> n \<noteq> 215)
     then char_of (n + 32) else c)"

definition utf8_width :: "char \<Rightarrow> nat" where
  "utf8_width c = (if (of_char c :: nat) < 128 then 1 else 2)"

lemma of_char_lower_char:
  "(of_char (lower_char c) :: nat) =
     (let n = of_char c in
      if (65 \<le> n \<and> n \<le> 90) \<or> (192 \<le> n \<and> n \<le> 222 \<and> n \<noteq> 215) then n + 32 else n)"
proof -
  have "(of_char c :: nat) < 256" by simp
  then show ?thesis by (auto simp: lower_char_def Let_def)
qed

lemma lower_char_idem [simp]: "lower_char (lower_char c) = lower_char c"
proof -
  have "(of_char (lower_char (lower_char c)) :: nat) = of_char (lower_char c)"
    by (auto simp: of_char_lower_char Let_def)
  then show ?thesis by simp
qed

lemma is_space_lower_char [simp]: "is_space (lower_char c) = is_space c"
  by (auto simp: is_space_def of_char_lower_char Let_def)

section \<open>Strings\<close>

definition py_lower :: "string \<Rightarrow> string" where
  "py_lower = map lower_char"

definition lstrip :: "string \<Rightarrow> string" where
  "lstrip = dropWhile is_space"

definition rstrip :: "string \<Rightarrow> string" where
  "rstrip s = rev (dropWhile is_space (rev s))"

definition strip :: "string \<Rightarrow> string" where
  "strip s = rstrip (lstrip s)"

definition utf8_len :: "string \<Rightarrow> nat" where
  "utf8_len s = sum_list (map utf8_width s)"

text \<open>\<open>s.replace(c, r)\<close> for a one-character pattern.\<close>

definition replace_char :: "char \<Rightarrow> string \<Rightarrow> string \<Rightarrow> string" where
  "replace_char c r s = concat (map (\<lambda>x. if x = c then r else [x]) s)"

text \<open>\<open>s.startswith(p)\<close>, \<open>s.endswith(p)\<close>, \<open>p in s\<close>, \<open>s.find(p)\<close>.\<close>

definition starts_with :: "string \<Rightarrow> string \<Rightarrow> bool" where
  "starts_with s p = prefix p s"

definition ends_with :: "string \<Rightarrow> string \<Rightarrow> bool" where
  "ends_with s p = suffix p s"

fun find_sub :: "string \<Rightarrow> string \<Rightarrow> nat option" where
  "find_sub p [] = (if p = [] then Some 0 else None)"
| "find_sub p (c # cs) =
     (if prefix p (c # cs) then Some 0 else map_option Suc (find_sub p cs))"

definition contains :: "string \<Rightarrow> string \<Rightarrow> bool" where
  "contains s p = (find_sub p s \<noteq> None)"

text \<open>\<open>sep.join(xs)\<close> and \<open>s.split(sep)\<close> for a non-empty separator.\<close>

fun py_join :: "string \<Rightarrow> string list \<Rightarrow> string" where
  "py_join sep [] = []"
| "py_join sep [x] = x"
| "py_join sep (x # y # ys) = x @ sep @ py_join sep (y # ys)"

lemma find_sub_bound: "find_sub p s = Some i \<Longrightarrow> i + length p \<le> length s"
  by (induction s arbitrary: i) (auto split: if_splits dest: prefix_length_le)

function py_split :: "string \<Rightarrow> string \<Rightarrow> string list" where
  "py_split sep s =
     (if sep = [] then [s]
      else case find_sub sep s of
             None \<Rightarrow> [s]
           | Some i \<Rightarrow> take i s # py_split sep (drop (i + length sep) s))"
  by pat_completeness auto
termination
proof (relation "measure (\<lambda>(sep, s). length s)")
  fix sep s :: string and i
  assume "sep \<noteq> []" "find_sub sep s = Some i"
  then have "0 < length sep" "i + length sep \<le> length s" by (auto dest: find_sub_bound)
  then show "((sep, drop (i + length sep) s), (sep, s)) \<in> measure (\<lambda>(sep, s). length s)"
    by (simp del: length_greater_0_conv)
qed simp

declare py_split.simps [simp del]

text \<open>\<open>s.replace(old, new)\<close> for a non-empty pattern.\<close>

definition py_replace :: "string \<Rightarrow> string \<Rightarrow> string \<Rightarrow> string" where
  "py_replace old new s = py_join new (py_split old s)"

lemma length_lstrip: "length (lstrip s) \<le> length s"
  by (simp add: lstrip_def length_dropWhile_le)

text \<open>\<open>s.split()\<close>: the maximal runs of non-white-space characters.\<close>

function py_words :: "string \<Rightarrow> string list" where
  "py_words s = (let t = lstrip s in
     if t = [] then []
     else takeWhile (\<lambda>c. \<not> is_space c) t # py_words (dropWhile (\<lambda>c. \<not> is_space c) t))"
  by pat_completeness auto

termination
proof (relation "measure length")
  fix s t :: string
  assume "t = lstrip s" "t \<noteq> []"
  then obtain c cs where t: "t = c # cs" and "\<not> is_space c"
    by (metis hd_dropWhile list.exhaust_sel lstrip_def)
  then have "length (dropWhile (\<lambda>c. \<not> is_space c) t) \<le> length cs"
    by (simp add: length_dropWhile_le)
  then show "(dropWhile (\<lambda>c. \<not> is_space c) t, s) \<in> measure length"
    using t length_lstrip [of s] \<open>t = lstrip s\<close> by simp
qed simp

declare py_words.simps [simp del]

text \<open>\<open>s.split(c, 1)\<close> on one character: the text before and after its first occurrence.\<close>

definition before_char :: "char \<Rightarrow> string \<Rightarrow> string" where
  "before_char c s = takeWhile (\<lambda>x. x \<noteq> c) s"

definition after_char :: "char \<Rightarrow> string \<Rightarrow> string" where
  "after_char c s = drop 1 (dropWhile (\<lambda>x. x \<noteq> c) s)"

text \<open>Text in single quotes, as the messages print values.\<close>

definition quoted :: "string \<Rightarrow> string" where
  "quoted s = CHR 0x27 # s @ [CHR 0x27]"

subsection \<open>Lemmas on strings\<close>

lemma py_lower_simps [simp]:
  "py_lower [] = []"
  "py_lower (c # s) = lower_char c # py_lower s"
  "py_lower (s @ t) = py_lower s @ py_lower t"
  by (simp_all add: py_lower_def)

lemma py_lower_idem [simp]: "py_lower (py_lower s) = py_lower s"
  by (simp add: py_lower_def)

lemma length_py_lower [simp]: "length (py_lower s) = length s"
  by (simp add: py_lower_def)

lemma dropWhile_space_lower: "dropWhile is_space (py_lower s) = py_lower (dropWhile is_space s)"
  by (induction s) auto

lemma lstrip_lower [simp]: "lstrip (py_lower s) = py_lower (lstrip s)"
  by (simp add: lstrip_def dropWhile_space_lower)

lemma rstrip_lower [simp]: "rstrip (py_lower s) = py_lower (rstrip s)"
  using dropWhile_space_lower [of "rev s"] by (simp add: rstrip_def py_lower_def rev_map)

lemma strip_lower [simp]: "strip (py_lower s) = py_lower (strip s)"
  by (simp add: strip_def)

lemma rstrip_idem [simp]: "rstrip (rstrip s) = rstrip s"
  by (simp add: rstrip_def)

lemma rstrip_eq_takeWhile_like: "\<exists>t. s = rstrip s @ t \<and> (\<forall>c \<in> set t. is_space c)"
proof -
  have "rev (dropWhile is_space (rev s)) @ rev (takeWhile is_space (rev s))
      = rev (takeWhile is_space (rev s) @ dropWhile is_space (rev s))"
    by (rule rev_append [symmetric])
  then have eq: "s = rstrip s @ rev (takeWhile is_space (rev s))"
    by (simp add: rstrip_def)
  moreover have "\<forall>c \<in> set (rev (takeWhile is_space (rev s))). is_space c"
    by (auto dest: set_takeWhileD)
  ultimately show ?thesis using eq by blast
qed

lemma lstrip_rstrip_id:
  assumes "lstrip s = s" shows "lstrip (rstrip s) = rstrip s"
proof (cases "rstrip s")
  case Nil
  then show ?thesis by (simp add: lstrip_def)
next
  case (Cons c cs)
  obtain t where "s = rstrip s @ t" using rstrip_eq_takeWhile_like by blast
  with Cons have "s = c # cs @ t" by simp
  with assms have "\<not> is_space c"
    by (metis dropWhile_eq_self_iff list.discI list.sel(1) lstrip_def)
  with Cons show ?thesis by (simp add: lstrip_def)
qed

lemma lstrip_idem [simp]: "lstrip (lstrip s) = lstrip s"
  by (simp add: lstrip_def)

lemma lstrip_strip [simp]: "lstrip (strip s) = strip s"
  by (simp add: strip_def lstrip_rstrip_id)

lemma strip_idem [simp]: "strip (strip s) = strip s"
proof -
  have "strip (strip s) = rstrip (lstrip (strip s))" by (simp add: strip_def)
  also have "\<dots> = rstrip (strip s)" by simp
  also have "\<dots> = strip s" by (simp add: strip_def)
  finally show ?thesis .
qed

lemma strip_Nil [simp]: "strip [] = []"
  by (simp add: strip_def lstrip_def rstrip_def)

lemma length_strip: "length (strip s) \<le> length s"
  by (metis (no_types, lifting) dual_order.trans length_dropWhile_le length_lstrip length_rev
      rstrip_def strip_def)

lemma set_strip: "set (strip s) \<subseteq> set s"
  by (auto simp: strip_def rstrip_def lstrip_def dest!: set_dropWhileD)

lemma strip_hd_not_space: "strip s = c # t \<Longrightarrow> \<not> is_space c"
  by (metis dropWhile_eq_self_iff list.discI list.sel(1) lstrip_def lstrip_strip)

lemma find_sub_Some:
  "find_sub p s = Some i \<Longrightarrow> s = take i s @ p @ drop (i + length p) s"
proof (induction s arbitrary: i)
  case Nil
  then show ?case by (auto split: if_splits)
next
  case (Cons c cs)
  show ?case
  proof (cases "prefix p (c # cs)")
    case True
    with Cons.prems have "i = 0" by simp
    with True show ?thesis by (metis append_take_drop_id append_Nil plus_nat.add_0
          prefix_def append_eq_conv_conj take0)
  next
    case False
    with Cons.prems obtain j where "find_sub p cs = Some j" "i = Suc j" by auto
    with Cons.IH show ?thesis by simp
  qed
qed

lemma find_sub_None_iff: "find_sub p s = None \<longleftrightarrow> \<not> sublist p s"
proof (induction s)
  case Nil
  then show ?case by simp
next
  case (Cons c cs)
  then show ?case by (auto simp: sublist_Cons_right)
qed

lemma contains_iff: "contains s p \<longleftrightarrow> sublist p s"
  by (auto simp: contains_def find_sub_None_iff)

lemma py_split_not_Nil [simp]: "py_split sep s \<noteq> []"
  by (subst py_split.simps) (simp split: option.split)

lemma py_join_Cons: "xs \<noteq> [] \<Longrightarrow> py_join sep (x # xs) = x @ sep @ py_join sep xs"
  by (cases xs) auto

lemma py_join_split: "py_join sep (py_split sep s) = s"
proof (induction sep s rule: py_split.induct)
  case (1 sep s)
  show ?case
  proof (cases "sep = [] \<or> find_sub sep s = None")
    case True
    then show ?thesis by (subst py_split.simps) auto
  next
    case False
    then obtain i where i: "find_sub sep s = Some i" and sep: "sep \<noteq> []" by auto
    have "py_split sep s = take i s # py_split sep (drop (i + length sep) s)"
      by (subst py_split.simps) (simp add: i sep)
    then have "py_join sep (py_split sep s) = take i s @ sep @ drop (i + length sep) s"
      using "1.IH" [OF sep i] by (simp add: py_join_Cons)
    with find_sub_Some [OF i] show ?thesis by simp
  qed
qed

lemma set_replace_char: "set r \<subseteq> A \<Longrightarrow> set s - {c} \<subseteq> A \<Longrightarrow> set (replace_char c r s) \<subseteq> A"
  by (auto simp: replace_char_def split: if_splits)

lemma replace_char_simps [simp]:
  "replace_char c r [] = []"
  "replace_char c r (x # s) = (if x = c then r else [x]) @ replace_char c r s"
  "replace_char c r (s @ t) = replace_char c r s @ replace_char c r t"
  by (simp_all add: replace_char_def)

lemma replace_char_absent: "c \<notin> set s \<Longrightarrow> replace_char c r s = s"
  by (induction s) auto

lemma utf8_len_simps [simp]:
  "utf8_len [] = 0"
  "utf8_len (c # s) = utf8_width c + utf8_len s"
  "utf8_len (s @ t) = utf8_len s + utf8_len t"
  by (simp_all add: utf8_len_def)

lemma utf8_len_bounds: "length s \<le> utf8_len s \<and> utf8_len s \<le> 2 * length s"
  by (induction s) (auto simp: utf8_width_def)

lemma before_after_char:
  "c \<in> set s \<Longrightarrow> s = before_char c s @ c # after_char c s"
proof -
  assume "c \<in> set s"
  then show ?thesis
    by (induction s) (auto simp: before_char_def after_char_def)
qed

lemma not_in_before_char: "c \<notin> set (before_char c s)"
  by (auto simp: before_char_def dest: set_takeWhileD)

section \<open>Insertion-ordered dictionaries\<close>

text \<open>
  A Python \<open>dict\<close> is an association list with distinct keys, in insertion order:
  assignment to a present key keeps its place (\<open>AList.update\<close>), a new key goes to the
  end, \<open>del d[k]\<close> and \<open>pop(k, None)\<close> are \<open>AList.delete\<close>.
\<close>

type_synonym ('k, 'v) dict = "('k \<times> 'v) list"

abbreviation dget :: "('k, 'v) dict \<Rightarrow> 'k \<Rightarrow> 'v option" where
  "dget d k \<equiv> map_of d k"

abbreviation dset :: "'k \<Rightarrow> 'v \<Rightarrow> ('k, 'v) dict \<Rightarrow> ('k, 'v) dict" where
  "dset \<equiv> AList.update"

abbreviation ddel :: "'k \<Rightarrow> ('k, 'v) dict \<Rightarrow> ('k, 'v) dict" where
  "ddel \<equiv> AList.delete"

abbreviation dkeys :: "('k, 'v) dict \<Rightarrow> 'k list" where
  "dkeys d \<equiv> map fst d"

definition dhas :: "('k, 'v) dict \<Rightarrow> 'k \<Rightarrow> bool" where
  "dhas d k = (map_of d k \<noteq> None)"

text \<open>\<open>{**d, **e}\<close>: the entries of \<open>e\<close> assigned over \<open>d\<close>, in order.\<close>

definition dmerge :: "('k, 'v) dict \<Rightarrow> ('k, 'v) dict \<Rightarrow> ('k, 'v) dict" where
  "dmerge d e = fold (\<lambda>(k, v). dset k v) e d"

lemma dhas_iff: "dhas d k \<longleftrightarrow> k \<in> fst ` set d"
  by (simp add: dhas_def map_of_eq_None_iff)

lemma dget_dset [dict_simps]: "dget (dset k v d) k' = (if k' = k then Some v else dget d k')"
  by (simp add: update_conv)

lemma dget_ddel [dict_simps]: "dget (ddel k d) k' = (if k' = k then None else dget d k')"
  by (simp add: delete_conv')

lemma dhas_dset [dict_simps]: "dhas (dset k v d) k' \<longleftrightarrow> k' = k \<or> dhas d k'"
  by (simp add: dhas_def dget_dset)

lemma dhas_ddel [dict_simps]: "dhas (ddel k d) k' \<longleftrightarrow> k' \<noteq> k \<and> dhas d k'"
  by (simp add: dhas_def dget_ddel)

lemma dset_new: "\<not> dhas d k \<Longrightarrow> dset k v d = d @ [(k, v)]"
  by (induction d) (auto simp: dhas_def split: if_splits)

lemma length_dset: "length (dset k v d) = (if dhas d k then length d else Suc (length d))"
  by (induction d) (auto simp: dhas_def)

lemma distinct_dkeys_dset [dict_simps]: "distinct (dkeys d) \<Longrightarrow> distinct (dkeys (dset k v d))"
  by (rule distinct_update)

lemma distinct_dkeys_ddel [dict_simps]: "distinct (dkeys d) \<Longrightarrow> distinct (dkeys (ddel k d))"
  by (rule distinct_delete)

lemma set_dkeys_dset [dict_simps]: "set (dkeys (dset k v d)) = insert k (set (dkeys d))"
  by (simp add: dom_update)

lemma dget_dmerge: "distinct (dkeys e) \<Longrightarrow>
  dget (dmerge d e) k = (case dget e k of Some v \<Rightarrow> Some v | None \<Rightarrow> dget d k)"
proof (induction e arbitrary: d)
  case Nil
  then show ?case by (simp add: dmerge_def)
next
  case (Cons p e)
  obtain k' v where p: "p = (k', v)" by (cases p)
  have "dmerge d (p # e) = dmerge (dset k' v d) e" by (simp add: dmerge_def p)
  moreover have "distinct (dkeys e)" "k' \<notin> fst ` set e" using Cons.prems p by auto
  ultimately show ?case
    using Cons.IH [of "dset k' v d"] p
    by (cases "k = k'") (simp_all add: dget_dset map_of_eq_None_iff [symmetric] split: option.split)
qed

lemma dhas_dmerge: "distinct (dkeys e) \<Longrightarrow> dhas (dmerge d e) k \<longleftrightarrow> dhas d k \<or> dhas e k"
  by (auto simp: dhas_def dget_dmerge split: option.splits)

lemma distinct_dmerge: "distinct (dkeys d) \<Longrightarrow> distinct (dkeys (dmerge d e))"
  unfolding dmerge_def by (induction e arbitrary: d) (auto simp: dict_simps)

lemma dict_keys:
  "fst ` set (dset k v d) = insert k (fst ` set d)"
  "fst ` set (ddel k d) = fst ` set d - {k}"
  "distinct (dkeys d) \<Longrightarrow> distinct (dkeys (dset k v d))"
  "distinct (dkeys d) \<Longrightarrow> distinct (dkeys (ddel k d))"
  "length (ddel k d) \<le> length d"
proof -
  show "fst ` set (dset k v d) = insert k (fst ` set d)" using dom_update [of k v d] by simp
  show "fst ` set (ddel k d) = fst ` set d - {k}"
    using arg_cong [OF delete_keys [of k d], of set] by simp
  show "length (ddel k d) \<le> length d" by (rule length_delete_le)
qed (erule distinct_update distinct_delete)+

lemma distinct_keys_filter: "distinct (dkeys d) \<Longrightarrow> distinct (dkeys (filter P d))"
  by (induction d) auto

lemma fold_ddel: "fold (\<lambda>i. ddel (fst i)) xs js = filter (\<lambda>i. fst i \<notin> fst ` set xs) js"
proof (induction xs arbitrary: js)
  case (Cons x xs)
  have "ddel (fst x) js = filter (\<lambda>i. fst i \<noteq> fst x) js" by (induction js) auto
  with Cons show ?case by (simp add: conj_commute)
qed simp

lemma dget_filter_keys: "dget (filter (\<lambda>i. fst i \<notin> S) js) k = (if k \<in> S then None else dget js k)"
  by (induction js) auto

lemma dget_filter:
  "distinct (dkeys d) \<Longrightarrow> dget (filter P d) k = (case dget d k of None \<Rightarrow> None | Some v \<Rightarrow> if P (k, v) then Some v else None)"
  by (induction d) (auto simp: map_of_eq_None_iff split: option.splits)

section \<open>Exceptions\<close>

text \<open>
  The exceptions the modelled code raises or catches, with the part of Python's class
  hierarchy its \<open>except\<close> clauses rely on: \<open>FileNotFoundError\<close>, \<open>PermissionError\<close> and
  \<open>TimeoutError\<close> are \<open>OSError\<close>s, the project's \<open>WriteLockTimeoutError\<close> is a
  \<open>TimeoutError\<close>, and \<open>UnicodeDecodeError\<close> is a \<open>ValueError\<close>.
\<close>

datatype pyexn =
    ValueError string
  | UnicodeDecodeError
  | TypeError
  | AttributeError
  | KeyError
  | OverflowError
  | OSError
  | FileNotFoundError
  | PermissionError
  | TimeoutError
  | WriteLockTimeoutError
  | RuntimeError string
  | DaemonRequiredError
  | EnrichmentError string
  | EnrichmentConfigError string
  | MemoryError
  | OtherError

datatype exn_class =
    C_ValueError | C_UnicodeDecodeError | C_TypeError | C_KeyError | C_OSError
  | C_FileNotFoundError | C_PermissionError | C_TimeoutError | C_WriteLockTimeoutError
  | C_RuntimeError | C_DaemonRequiredError | C_EnrichmentError | C_EnrichmentConfigError
  | C_MemoryError | C_Exception

fun exn_classes :: "pyexn \<Rightarrow> exn_class list" where
  "exn_classes (ValueError _) = [C_ValueError]"
| "exn_classes UnicodeDecodeError = [C_ValueError, C_UnicodeDecodeError]"
| "exn_classes TypeError = [C_TypeError]"
| "exn_classes AttributeError = []"
| "exn_classes KeyError = [C_KeyError]"
| "exn_classes OverflowError = []"
| "exn_classes OSError = [C_OSError]"
| "exn_classes FileNotFoundError = [C_OSError, C_FileNotFoundError]"
| "exn_classes PermissionError = [C_OSError, C_PermissionError]"
| "exn_classes TimeoutError = [C_OSError, C_TimeoutError]"
| "exn_classes WriteLockTimeoutError = [C_OSError, C_TimeoutError, C_WriteLockTimeoutError]"
| "exn_classes (RuntimeError _) = [C_RuntimeError]"
| "exn_classes DaemonRequiredError = [C_RuntimeError, C_DaemonRequiredError]"
| "exn_classes (EnrichmentError _) = [C_RuntimeError, C_EnrichmentError]"
| "exn_classes (EnrichmentConfigError _) = [C_RuntimeError, C_EnrichmentError, C_EnrichmentConfigError]"
| "exn_classes MemoryError = [C_MemoryError]"
| "exn_classes OtherError = []"

definition isinstance :: "pyexn \<Rightarrow> exn_class \<Rightarrow> bool" where
  "isinstance e c = (c = C_Exception \<or> c \<in> set (exn_classes e))"

lemma isinstance_Exception [simp]: "isinstance e C_Exception"
  by (simp add: isinstance_def)

text \<open>A result is an exception (left) or a value (right).\<close>

type_synonym 'a result = "pyexn + 'a"

fun bind_result :: "'a result \<Rightarrow> ('a \<Rightarrow> 'b result) \<Rightarrow> 'b result" where
  "bind_result (Inl e) f = Inl e"
| "bind_result (Inr x) f = f x"

lemma bind_result_Inr [simp]:
  "bind_result r f = Inr y \<longleftrightarrow> (\<exists>x. r = Inr x \<and> f x = Inr y)"
  by (cases r) auto

lemma bind_result_Inl:
  "bind_result r f = Inl e \<longleftrightarrow> r = Inl e \<or> (\<exists>x. r = Inr x \<and> f x = Inl e)"
  by (cases r) auto

section \<open>Transition systems\<close>

text \<open>
  The interface of every concurrent component: an initial-state predicate, a step
  relation and a candidate invariant that holds initially and is kept by every step.
  The reachable states are closed under steps; the client lemma is that the invariant
  holds in all of them.
\<close>

inductive reachable :: "('s \<Rightarrow> bool) \<Rightarrow> ('s \<Rightarrow> 's \<Rightarrow> bool) \<Rightarrow> 's \<Rightarrow> bool"
  for init step where
  reach_init: "init s \<Longrightarrow> reachable init step s"
| reach_step: "reachable init step s \<Longrightarrow> step s t \<Longrightarrow> reachable init step t"

locale invariant_system =
  fixes init :: "'s \<Rightarrow> bool"
    and step :: "'s \<Rightarrow> 's \<Rightarrow> bool"
    and inv :: "'s \<Rightarrow> bool"
  assumes inv_init: "init s \<Longrightarrow> inv s"
    and inv_step: "inv s \<Longrightarrow> step s t \<Longrightarrow> inv t"
begin

lemma inv_reachable: "reachable init step s \<Longrightarrow> inv s"
  by (induction rule: reachable.induct) (auto intro: inv_init inv_step)

lemma inv_steps: "step\<^sup>*\<^sup>* s t \<Longrightarrow> inv s \<Longrightarrow> inv t"
  by (induction rule: rtranclp_induct) (auto intro: inv_step)

end

end
