(* ===== verification/Py_Values.thy ===== *)
theory Py_Values
  imports Prelude Complex_Main
begin

text \<open>
  The Python values that YAML front matter and JSON tool arguments are made of, with the
  parts of the language and its standard library the front matter code relies on: truth
  testing, \<open>type(v).__name__\<close>, decimal \<open>str(int)\<close>/\<open>int(str)\<close>, float/integer
  conversion with its rounding and its overflow, and float comparison.
  Library routines that are parsers of their own (\<open>float(str)\<close>, \<open>re.match\<close>,
  \<open>date.fromisoformat\<close>, \<open>uuid.UUID\<close>, \<open>urlparse\<close>, \<open>str\<close> of floats and
  containers) are the fields of a record \<open>pylib\<close> that the coercions take as argument.
\<close>

section \<open>Floats\<close>

text \<open>A finite float is its exact rational value.\<close>

datatype pyfloat = FNan | FPosInf | FNegInf | Fin rat

fun float_less :: "pyfloat \<Rightarrow> pyfloat \<Rightarrow> bool" where
  "float_less FNan _ = False"
| "float_less _ FNan = False"
| "float_less (Fin x) (Fin y) = (x < y)"
| "float_less (Fin _) FPosInf = True"
| "float_less (Fin _) FNegInf = False"
| "float_less FNegInf FNegInf = False"
| "float_less FNegInf _ = True"
| "float_less FPosInf _ = False"

text \<open>\<open>int(x)\<close> truncates; it raises for infinities (\<open>OverflowError\<close>) and NaN (\<open>ValueError\<close>).\<close>

fun int_of_float :: "pyfloat \<Rightarrow> int result" where
  "int_of_float FNan = Inl (ValueError ''cannot convert float NaN to integer'')"
| "int_of_float FPosInf = Inl OverflowError"
| "int_of_float FNegInf = Inl OverflowError"
| "int_of_float (Fin r) = Inr (if 0 \<le> r then \<lfloor>r\<rfloor> else \<lceil>r\<rceil>)"

fun bit_length :: "nat \<Rightarrow> nat" where
  "bit_length n = (if n = 0 then 0 else Suc (bit_length (n div 2)))"

declare bit_length.simps [simp del]

text \<open>
  \<open>float(n)\<close> for an integer: exact up to 53 significant bits, otherwise rounded half to
  even, and an \<open>OverflowError\<close> when the rounded value does not fit binary64.
\<close>

definition round_significand :: "nat \<Rightarrow> nat \<Rightarrow> nat" where
  "round_significand m sh = (let q = m div 2 ^ sh; r = m mod 2 ^ sh; half = 2 ^ (sh - 1) in
     if half < r \<or> (r = half \<and> odd q) then q + 1 else q)"

definition float_of_int :: "int \<Rightarrow> pyfloat result" where
  "float_of_int n = (let m = nat \<bar>n\<bar>; b = bit_length m in
     if b \<le> 53 then Inr (Fin (of_int n))
     else let v = round_significand m (b - 53) * 2 ^ (b - 53) in
       if 2 ^ 1024 \<le> v then Inl OverflowError
       else Inr (Fin (of_int (sgn n * int v))))"

text \<open>\<open>round(x, n)\<close>: to \<open>n\<close> decimals, halves to even.\<close>

definition round_half_even :: "rat \<Rightarrow> int" where
  "round_half_even x = (let q = \<lfloor>x\<rfloor>; r = x - of_int q in
     if 1 / 2 < r \<or> (r = 1 / 2 \<and> odd q) then q + 1 else q)"

definition py_round :: "nat \<Rightarrow> rat \<Rightarrow> rat" where
  "py_round n x = of_int (round_half_even (x * 10 ^ n)) / 10 ^ n"

section \<open>Values\<close>

text \<open>Dates and datetimes are given by their \<open>isoformat()\<close> text.\<close>

datatype pyval =
    PNone
  | PBool bool
  | PInt int
  | PFloat pyfloat
  | PStr string
  | PDate string
  | PDatetime string
  | PList "pyval list"
  | PTuple "pyval list"
  | PSet "pyval list"
  | PDict "(pyval \<times> pyval) list"

type_synonym frontmatter = "(pyval, pyval) dict"

fun truthy :: "pyval \<Rightarrow> bool" where
  "truthy PNone = False"
| "truthy (PBool b) = b"
| "truthy (PInt n) = (n \<noteq> 0)"
| "truthy (PFloat x) = (x \<noteq> Fin 0)"
| "truthy (PStr s) = (s \<noteq> [])"
| "truthy (PDate _) = True"
| "truthy (PDatetime _) = True"
| "truthy (PList xs) = (xs \<noteq> [])"
| "truthy (PTuple xs) = (xs \<noteq> [])"
| "truthy (PSet xs) = (xs \<noteq> [])"
| "truthy (PDict d) = (d \<noteq> [])"

fun type_name :: "pyval \<Rightarrow> string" where
  "type_name PNone = ''NoneType''"
| "type_name (PBool _) = ''bool''"
| "type_name (PInt _) = ''int''"
| "type_name (PFloat _) = ''float''"
| "type_name (PStr _) = ''str''"
| "type_name (PDate _) = ''date''"
| "type_name (PDatetime _) = ''datetime''"
| "type_name (PList _) = ''list''"
| "type_name (PTuple _) = ''tuple''"
| "type_name (PSet _) = ''set''"
| "type_name (PDict _) = ''dict''"

section \<open>Decimal integers\<close>

definition digit_char :: "nat \<Rightarrow> char" where
  "digit_char d = char_of (48 + d)"

definition is_digit :: "char \<Rightarrow> bool" where
  "is_digit c = (48 \<le> (of_char c :: nat) \<and> (of_char c :: nat) \<le> 57)"

definition digit_val :: "char \<Rightarrow> nat" where
  "digit_val c = of_char c - 48"

fun show_nat :: "nat \<Rightarrow> string" where
  "show_nat n = (if n < 10 then [digit_char n] else show_nat (n div 10) @ [digit_char (n mod 10)])"

declare show_nat.simps [simp del]

definition show_int :: "int \<Rightarrow> string" where
  "show_int n = (if n < 0 then CHR ''-'' # show_nat (nat (- n)) else show_nat (nat n))"

text \<open>
  \<open>int(s)\<close> for a stripped string: an optional sign, then digits with single underscores
  between them; more than 4300 digits are refused.
\<close>

fun parse_digits :: "nat \<Rightarrow> bool \<Rightarrow> string \<Rightarrow> nat option" where
  "parse_digits acc seen [] = (if seen then Some acc else None)"
| "parse_digits acc seen (c # cs) =
     (if is_digit c then parse_digits (10 * acc + digit_val c) True cs
      else if c = CHR ''_'' \<and> seen then parse_digits acc False cs
      else None)"

definition parse_nat :: "string \<Rightarrow> nat option" where
  "parse_nat s = (if 4300 < length (filter is_digit s) then None else parse_digits 0 False s)"

definition parse_int :: "string \<Rightarrow> int option" where
  "parse_int s = (case s of
     [] \<Rightarrow> None
   | c # cs \<Rightarrow>
       if c = CHR ''-'' then map_option (\<lambda>n. - int n) (parse_nat cs)
       else if c = CHR ''+'' then map_option int (parse_nat cs)
       else map_option int (parse_nat (c # cs)))"

subsection \<open>Printing and parsing integers\<close>

lemma digit_char_digit [simp]:
  "d < 10 \<Longrightarrow> is_digit (digit_char d)" "d < 10 \<Longrightarrow> digit_val (digit_char d) = d"
  by (simp_all add: is_digit_def digit_val_def digit_char_def)

lemma parse_digits_append:
  "(\<forall>c \<in> set s. is_digit c) \<Longrightarrow> s \<noteq> [] \<Longrightarrow>
   parse_digits acc seen (s @ t) = parse_digits (foldl (\<lambda>a c. 10 * a + digit_val c) acc s) True t"
proof (induction s arbitrary: acc seen)
  case Nil
  then show ?case by simp
next
  case (Cons c cs)
  then show ?case by (cases "cs = []") auto
qed

lemma show_nat_digits: "c \<in> set (show_nat n) \<Longrightarrow> is_digit c"
proof (induction n rule: show_nat.induct)
  case (1 n)
  then show ?case
    by (subst (asm) show_nat.simps) (auto split: if_splits)
qed

lemma show_nat_not_Nil [simp]: "show_nat n \<noteq> []"
  by (subst show_nat.simps) simp

lemma foldl_show_nat: "foldl (\<lambda>a c. 10 * a + digit_val c) 0 (show_nat n) = n"
proof (induction n rule: show_nat.induct)
  case (1 n)
  show ?case
  proof (cases "n < 10")
    case True
    then show ?thesis by (subst show_nat.simps) simp
  next
    case False
    with "1.IH" show ?thesis by (subst show_nat.simps) simp
  qed
qed

lemma parse_nat_show_nat:
  assumes "length (show_nat n) \<le> 4300" shows "parse_nat (show_nat n) = Some n"
proof -
  have "filter is_digit (show_nat n) = show_nat n"
    by (simp add: filter_id_conv show_nat_digits)
  moreover have "parse_digits 0 False (show_nat n @ []) = Some n"
    using parse_digits_append [of "show_nat n" 0 False "[]"] show_nat_digits foldl_show_nat by simp
  ultimately show ?thesis using assms by (simp add: parse_nat_def)
qed

lemma parse_int_show_int:
  assumes "length (show_nat (nat \<bar>n\<bar>)) \<le> 4300" shows "parse_int (show_int n) = Some n"
proof (cases "n < 0")
  case True
  with assms show ?thesis by (simp add: show_int_def parse_int_def parse_nat_show_nat)
next
  case False
  obtain c cs where c: "show_nat (nat n) = c # cs"
    using show_nat_not_Nil [of "nat n"] by (cases "show_nat (nat n)") auto
  then have "is_digit c" using show_nat_digits [of c "nat n"] by simp
  then have "c \<noteq> CHR ''-''" "c \<noteq> CHR ''+''" by (auto simp: is_digit_def)
  moreover have "parse_nat (c # cs) = Some (nat n)"
    using parse_nat_show_nat [of "nat n"] assms False c by simp
  ultimately show ?thesis using False c by (simp add: show_int_def parse_int_def)
qed

section \<open>Library parameters\<close>

record pylib =
  lib_str :: "pyval \<Rightarrow> string"
  lib_parse_float :: "string \<Rightarrow> pyfloat option"
  lib_re_match :: "string \<Rightarrow> string \<Rightarrow> bool option"
  lib_parse_date :: "string \<Rightarrow> string option"
  lib_parse_datetime :: "string \<Rightarrow> string option"
  lib_parse_uuid :: "string \<Rightarrow> string option"
  lib_urlparse :: "string \<Rightarrow> (string \<times> string) option"

text \<open>
  \<open>str(v)\<close>: concrete for strings, integers, booleans and \<open>None\<close>; the integer case
  raises above 4300 digits.  Floats and containers go through the library parameter.
\<close>

fun py_str :: "pylib \<Rightarrow> pyval \<Rightarrow> string result" where
  "py_str L PNone = Inr ''None''"
| "py_str L (PBool b) = Inr (if b then ''True'' else ''False'')"
| "py_str L (PInt n) =
     (if 4300 < length (show_nat (nat \<bar>n\<bar>)) then Inl (ValueError ''Exceeds the limit (4300 digits)'')
      else Inr (show_int n))"
| "py_str L (PStr s) = Inr s"
| "py_str L (PDate s) = Inr s"
| "py_str L v = Inr (lib_str L v)"

definition float_str :: "pylib \<Rightarrow> pyfloat \<Rightarrow> string" where
  "float_str L x = lib_str L (PFloat x)"

end
