(* ===== verification/Frontmatter_Schema.thy ===== *)
theory Frontmatter_Schema
  imports Py_Values
begin

text \<open>
  \<open>frontmatter/types.py\<close> and \<open>frontmatter/schema.py\<close>: field schemas, their model
  validator, and the schema configuration.  The string literals of the Pydantic
  \<open>Literal\<close> types are the constructors of a datatype each.
\<close>

datatype field_type =
    FT_string | FT_int | FT_float | FT_bool | FT_date | FT_datetime
  | FT_uuid | FT_url | FT_enum | FT_list

datatype on_missing = OM_auto | OM_suggest | OM_require | OM_ignore

datatype validation_mode = VM_strict | VM_lenient | VM_warn_only

datatype item_type = IT_string | IT_int | IT_float

fun field_type_name :: "field_type \<Rightarrow> string" where
  "field_type_name FT_string = ''string''"
| "field_type_name FT_int = ''int''"
| "field_type_name FT_float = ''float''"
| "field_type_name FT_bool = ''bool''"
| "field_type_name FT_date = ''date''"
| "field_type_name FT_datetime = ''datetime''"
| "field_type_name FT_uuid = ''uuid''"
| "field_type_name FT_url = ''url''"
| "field_type_name FT_enum = ''enum''"
| "field_type_name FT_list = ''list''"

record field_schema =
  fs_type :: field_type
  fs_on_missing :: on_missing
  fs_default :: pyval
  fs_min_length :: "int option"
  fs_max_length :: "int option"
  fs_pattern :: "string option"
  fs_values :: "string list option"
  fs_case_insensitive :: bool
  fs_item_type :: "item_type option"
  fs_min_items :: "int option"
  fs_max_items :: "int option"
  fs_minimum :: "pyfloat option"
  fs_maximum :: "pyfloat option"
  fs_aliases :: "string list"

text \<open>The defaults of the Pydantic fields, for a given type.\<close>

definition default_schema :: "field_type \<Rightarrow> field_schema" where
  "default_schema t =
     \<lparr>fs_type = t, fs_on_missing = OM_ignore, fs_default = PNone,
      fs_min_length = None, fs_max_length = None, fs_pattern = None,
      fs_values = None, fs_case_insensitive = True,
      fs_item_type = None, fs_min_items = None, fs_max_items = None,
      fs_minimum = None, fs_maximum = None, fs_aliases = []\<rparr>"

definition at_least :: "int \<Rightarrow> int option \<Rightarrow> bool" where
  "at_least b x = (case x of None \<Rightarrow> True | Some n \<Rightarrow> b \<le> n)"

text \<open>The \<open>ge\<close> bounds of the numeric fields and \<open>values_not_empty\<close>.\<close>

definition field_bounds_ok :: "field_schema \<Rightarrow> bool" where
  "field_bounds_ok s \<longleftrightarrow>
     at_least 0 (fs_min_length s) \<and> at_least 1 (fs_max_length s) \<and>
     at_least 0 (fs_min_items s) \<and> at_least 1 (fs_max_items s)"

definition values_not_empty :: "string list option \<Rightarrow> bool" where
  "values_not_empty v \<longleftrightarrow> v \<noteq> Some []"

text \<open>
  \<open>FieldSchema.validate_type_constraints\<close>, check by check in the source's order; a list
  schema without an item type gets \<open>string\<close>.
\<close>

definition validate_type_constraints :: "field_schema \<Rightarrow> field_schema result" where
  "validate_type_constraints s =
     (if fs_type s = FT_enum \<and> (fs_values s = None \<or> fs_values s = Some [])
      then Inl (ValueError (''type='' @ quoted ''enum'' @ '' requires '' @ quoted ''values''))
      else
        let s = (if fs_type s = FT_list \<and> fs_item_type s = None
                 then s\<lparr>fs_item_type := Some IT_string\<rparr> else s) in
        if fs_on_missing s = OM_auto \<and> fs_type s \<notin> {FT_uuid, FT_datetime}
        then Inl (ValueError (''on_missing='' @ quoted ''auto'' @ '' is supported only for ''
               @ quoted ''uuid'' @ '' and '' @ quoted ''datetime'' @ '', not ''
               @ quoted (field_type_name (fs_type s))))
        else if fs_type s \<notin> {FT_int, FT_float} \<and> (fs_minimum s \<noteq> None \<or> fs_maximum s \<noteq> None)
        then Inl (ValueError (''minimum/maximum apply only to '' @ quoted ''int''
               @ '' or '' @ quoted ''float'' @ '', not '' @ quoted (field_type_name (fs_type s))))
        else if fs_type s \<noteq> FT_string \<and> (fs_min_length s \<noteq> None \<or> fs_max_length s \<noteq> None)
        then Inl (ValueError (''min_length/max_length apply only to '' @ quoted ''string''
               @ '', not '' @ quoted (field_type_name (fs_type s))))
        else Inr s)"

text \<open>Constructing a \<open>FieldSchema\<close>: field validators first, then the model validator.\<close>

definition make_field_schema :: "field_schema \<Rightarrow> field_schema result" where
  "make_field_schema s =
     (if \<not> field_bounds_ok s then Inl (ValueError ''bound out of range'')
      else if \<not> values_not_empty (fs_values s)
      then Inl (ValueError ''values cannot be an empty list'')
      else validate_type_constraints s)"

record schema_config =
  sc_enabled :: bool
  sc_mode :: validation_mode
  sc_allow_extra :: bool
  sc_schema :: "(string, field_schema) dict"

text \<open>The well-formedness every constructed schema has.\<close>

definition schema_wf :: "field_schema \<Rightarrow> bool" where
  "schema_wf s \<longleftrightarrow>
     (fs_type s = FT_enum \<longrightarrow> (\<exists>v vs. fs_values s = Some (v # vs))) \<and>
     (fs_type s = FT_list \<longrightarrow> fs_item_type s \<noteq> None) \<and>
     (fs_on_missing s = OM_auto \<longrightarrow> fs_type s = FT_uuid \<or> fs_type s = FT_datetime) \<and>
     (fs_minimum s \<noteq> None \<or> fs_maximum s \<noteq> None \<longrightarrow> fs_type s = FT_int \<or> fs_type s = FT_float) \<and>
     (fs_min_length s \<noteq> None \<or> fs_max_length s \<noteq> None \<longrightarrow> fs_type s = FT_string)"

lemma values_cases: "v \<noteq> None \<Longrightarrow> v \<noteq> Some [] \<Longrightarrow> \<exists>x xs. v = Some (x # xs)"
  by (cases v) (auto simp: neq_Nil_conv)

lemma validate_type_constraints_wf:
  "validate_type_constraints s = Inr s' \<Longrightarrow> schema_wf s'"
  unfolding validate_type_constraints_def schema_wf_def Let_def
  using values_cases [of "fs_values s"] by (auto split: if_splits)

lemma make_field_schema_wf: "make_field_schema s = Inr s' \<Longrightarrow> schema_wf s'"
  by (auto simp: make_field_schema_def validate_type_constraints_wf split: if_splits)

end
