(* ===== verification/Coercion.thy ===== *)
theory Coercion
  imports Frontmatter_Schema
begin

text \<open>
  \<open>frontmatter/coercion.py\<close>: one definition per \<open>coerce_*\<close> function, each returning the
  coerced value with an optional warning, or the exception it raises.  An \<open>OverflowError\<close>
  is not a \<open>ValueError\<close>: where the source lets one escape, so does the model.
  In messages, integers are printed in full (the 4300 digit limit of \<open>str(int)\<close> is
  modelled where the printed text is the result, in \<open>coerce_string\<close> and \<open>coerce_enum\<close>);
  the text of a nested exception that a message quotes after a colon is left out.
\<close>

type_synonym coerced = "(pyval \<times> string option) result"

definition opt_check :: "'a option \<Rightarrow> ('a \<Rightarrow> bool) \<Rightarrow> bool" where
  "opt_check x bad = (case x of None \<Rightarrow> False | Some b \<Rightarrow> bad b)"

lemma opt_check_simps [simp]:
  "opt_check None bad = False" "opt_check (Some b) bad = bad b"
  by (simp_all add: opt_check_def)

section \<open>Strings\<close>

definition check_string :: "pylib \<Rightarrow> field_schema \<Rightarrow> string \<Rightarrow> string option \<Rightarrow> coerced" where
  "check_string L sch r w =
     (if opt_check (fs_min_length sch) (\<lambda>b. int (length r) < b)
      then Inl (ValueError (''String is too short: '' @ show_nat (length r) @ '' < ''
             @ show_int (the (fs_min_length sch))))
      else if opt_check (fs_max_length sch) (\<lambda>b. b < int (length r))
      then Inl (ValueError (''String is too long: '' @ show_nat (length r) @ '' > ''
             @ show_int (the (fs_max_length sch))))
      else case fs_pattern sch of
        None \<Rightarrow> Inr (PStr r, w)
      | Some p \<Rightarrow>
          (case lib_re_match L p r of
             None \<Rightarrow> Inl OtherError
           | Some True \<Rightarrow> Inr (PStr r, w)
           | Some False \<Rightarrow> Inl (ValueError (''String does not match pattern: '' @ p))))"

definition coerce_string :: "pylib \<Rightarrow> pyval \<Rightarrow> field_schema \<Rightarrow> coerced" where
  "coerce_string L v sch =
     (case v of
        PStr s \<Rightarrow> check_string L sch s None
      | _ \<Rightarrow> bind_result (py_str L v) (\<lambda>r.
          check_string L sch r (Some (''Converted from '' @ type_name v @ '' to string''))))"

section \<open>Numbers\<close>

definition check_int :: "pylib \<Rightarrow> field_schema \<Rightarrow> int \<Rightarrow> string option \<Rightarrow> coerced" where
  "check_int L sch r w =
     (if opt_check (fs_minimum sch) (\<lambda>b. float_less (Fin (of_int r)) b)
      then Inl (ValueError (''Value '' @ show_int r @ '' is below minimum ''
             @ float_str L (the (fs_minimum sch))))
      else if opt_check (fs_maximum sch) (\<lambda>b. float_less b (Fin (of_int r)))
      then Inl (ValueError (''Value '' @ show_int r @ '' is above maximum ''
             @ float_str L (the (fs_maximum sch))))
      else Inr (PInt r, w))"

text \<open>The fallback of the string case: a float literal, truncated.\<close>

definition int_of_float_text :: "pylib \<Rightarrow> string \<Rightarrow> (int \<times> string option) result" where
  "int_of_float_text L s =
     (let fail = Inl (ValueError (''Cannot convert '' @ quoted s @ '' to int'')) in
      case lib_parse_float L s of
        None \<Rightarrow> fail
      | Some x \<Rightarrow>
          (case int_of_float x of
             Inl _ \<Rightarrow> fail
           | Inr n \<Rightarrow> Inr (n, Some (''String '' @ quoted s @ '' converted to int '' @ show_int n))))"

definition coerce_int :: "pylib \<Rightarrow> pyval \<Rightarrow> field_schema \<Rightarrow> coerced" where
  "coerce_int L v sch =
     (case v of
        PBool b \<Rightarrow> check_int L sch (if b then 1 else 0) (Some ''Converted from bool to int'')
      | PInt n \<Rightarrow> check_int L sch n None
      | PFloat x \<Rightarrow>
          (case x of
             FNan \<Rightarrow> Inl (ValueError ''NaN cannot be converted to int'')
           | FPosInf \<Rightarrow> Inl (ValueError ''Infinity cannot be converted to int'')
           | FNegInf \<Rightarrow> Inl (ValueError ''Infinity cannot be converted to int'')
           | Fin r \<Rightarrow> bind_result (int_of_float x) (\<lambda>n.
               check_int L sch n
                 (if r \<noteq> of_int n
                  then Some (''Float truncated from '' @ float_str L x @ '' to '' @ show_int n)
                  else None)))
      | PStr s \<Rightarrow>
          (case parse_int (strip s) of
             Some n \<Rightarrow> check_int L sch n None
           | None \<Rightarrow> bind_result (int_of_float_text L (strip s)) (\<lambda>(n, w). check_int L sch n w))
      | _ \<Rightarrow> Inl (ValueError (''Type '' @ type_name v @ '' cannot be converted to int'')))"

definition check_float :: "pylib \<Rightarrow> field_schema \<Rightarrow> pyfloat \<Rightarrow> string option \<Rightarrow> coerced" where
  "check_float L sch r w =
     (if opt_check (fs_minimum sch) (\<lambda>b. float_less r b)
      then Inl (ValueError (''Value '' @ float_str L r @ '' is below minimum ''
             @ float_str L (the (fs_minimum sch))))
      else if opt_check (fs_maximum sch) (\<lambda>b. float_less b r)
      then Inl (ValueError (''Value '' @ float_str L r @ '' is above maximum ''
             @ float_str L (the (fs_maximum sch))))
      else Inr (PFloat r, w))"

definition coerce_float :: "pylib \<Rightarrow> pyval \<Rightarrow> field_schema \<Rightarrow> coerced" where
  "coerce_float L v sch =
     (case v of
        PBool b \<Rightarrow> check_float L sch (Fin (if b then 1 else 0)) (Some ''Converted from bool to float'')
      | PFloat x \<Rightarrow>
          (case x of
             FNan \<Rightarrow> Inl (ValueError ''NaN is not a valid frontmatter float'')
           | FPosInf \<Rightarrow> Inl (ValueError ''Infinity is not a valid frontmatter float'')
           | FNegInf \<Rightarrow> Inl (ValueError ''Infinity is not a valid frontmatter float'')
           | Fin r \<Rightarrow> check_float L sch x None)
      | PInt n \<Rightarrow> bind_result (float_of_int n) (\<lambda>x. check_float L sch x None)
      | PStr s \<Rightarrow>
          (let fail = Inl (ValueError (''Cannot convert '' @ quoted (strip s) @ '' to float'')) in
           case lib_parse_float L (strip s) of
             None \<Rightarrow> fail
           | Some (Fin r) \<Rightarrow> check_float L sch (Fin r)
               (Some (''String '' @ quoted (strip s) @ '' converted to float''))
           | Some _ \<Rightarrow> fail)
      | _ \<Rightarrow> Inl (ValueError (''Type '' @ type_name v @ '' cannot be converted to float'')))"

section \<open>Booleans\<close>

definition truthy_words :: "string list" where
  "truthy_words = [''true'', ''yes'', ''1'', ''on'', ''sim'', ''verdadeiro'']"

definition falsy_words :: "string list" where
  "falsy_words = [''false'', ''no'', ''0'', ''off'', ''nao'', ''n'' @ [CHR 0xE3] @ ''o'', ''falso'']"

definition coerce_bool :: "pylib \<Rightarrow> pyval \<Rightarrow> field_schema \<Rightarrow> coerced" where
  "coerce_bool L v sch =
     (case v of
        PBool b \<Rightarrow> Inr (PBool b, None)
      | PInt n \<Rightarrow>
          (let w = Some (''Int '' @ show_int n @ '' converted to bool'') in
           if n = 0 then Inr (PBool False, w)
           else if n = 1 then Inr (PBool True, w)
           else Inl (ValueError (''Int '' @ show_int n @ '' cannot be converted to bool (use 0 or 1)'')))
      | PStr s \<Rightarrow>
          (let low = py_lower (strip s) in
           if low \<in> set truthy_words
           then Inr (PBool True, Some (''String '' @ quoted s @ '' converted to True''))
           else if low \<in> set falsy_words
           then Inr (PBool False, Some (''String '' @ quoted s @ '' converted to False''))
           else Inl (ValueError (''String '' @ quoted s @ '' cannot be converted to bool. Use true/false, yes/no, sim/n''
                  @ [CHR 0xE3] @ ''o, or 1/0'')))
      | _ \<Rightarrow> Inl (ValueError (''Type '' @ type_name v @ '' cannot be converted to bool'')))"

section \<open>Dates\<close>

definition coerce_date :: "pylib \<Rightarrow> pyval \<Rightarrow> field_schema \<Rightarrow> coerced" where
  "coerce_date L v sch =
     (case v of
        PDate d \<Rightarrow> Inr (PStr d, None)
      | PDatetime d \<Rightarrow> Inr (PStr (take 10 d), Some ''Datetime truncated to date'')
      | PStr s \<Rightarrow>
          (let t = strip s in
           case lib_parse_date L (take 10 t) of
             None \<Rightarrow> Inl (ValueError (''String '' @ quoted t @ '' is not a valid date. Use YYYY-MM-DD''))
           | Some r \<Rightarrow>
               Inr (PStr r,
                 if 10 < length t
                 then Some (''Date truncated from '' @ quoted t @ '' to '' @ quoted r @ '' (extra content ignored)'')
                 else if t \<noteq> r
                 then Some (''Date normalized from '' @ quoted t @ '' to '' @ quoted r)
                 else None))
      | _ \<Rightarrow> Inl (ValueError (''Type '' @ type_name v @ '' cannot be converted to date'')))"

definition midnight :: string where
  "midnight = ''T00:00:00''"

definition coerce_datetime :: "pylib \<Rightarrow> pyval \<Rightarrow> field_schema \<Rightarrow> coerced" where
  "coerce_datetime L v sch =
     (case v of
        PDatetime d \<Rightarrow> Inr (PStr d, None)
      | PDate d \<Rightarrow> Inr (PStr (d @ midnight), Some ''Date expanded to datetime at 00:00:00'')
      | PStr s \<Rightarrow>
          (let t = strip s in
           case lib_parse_datetime L t of
             Some r \<Rightarrow> Inr (PStr r, None)
           | None \<Rightarrow>
               (case lib_parse_date L (take 10 t) of
                  Some r \<Rightarrow> Inr (PStr (r @ midnight),
                    Some (''String '' @ quoted t @ '' interpreted as a date and expanded to datetime''))
                | None \<Rightarrow> Inl (ValueError (''String '' @ quoted t
                    @ '' is not a valid datetime. Use ISO format (YYYY-MM-DDTHH:MM:SS)''))))
      | _ \<Rightarrow> Inl (ValueError (''Type '' @ type_name v @ '' cannot be converted to datetime'')))"

section \<open>Identifiers and URLs\<close>

definition coerce_uuid :: "pylib \<Rightarrow> pyval \<Rightarrow> field_schema \<Rightarrow> coerced" where
  "coerce_uuid L v sch =
     (case v of
        PStr s \<Rightarrow>
          (let t = strip s in
           case lib_parse_uuid L t of
             None \<Rightarrow> Inl (ValueError (''String '' @ quoted t @ '' is not a valid UUID''))
           | Some r \<Rightarrow> Inr (PStr r,
               if py_lower t \<noteq> r
               then Some (''UUID normalized from '' @ quoted t @ '' to '' @ quoted r) else None))
      | _ \<Rightarrow> Inl (ValueError (''Type '' @ type_name v @ '' cannot be converted to UUID'')))"

definition coerce_url :: "pylib \<Rightarrow> pyval \<Rightarrow> field_schema \<Rightarrow> coerced" where
  "coerce_url L v sch =
     (case v of
        PStr s \<Rightarrow>
          (let t = strip s in
           case lib_urlparse L t of
             None \<Rightarrow> Inl (ValueError ''Invalid URL'')
           | Some (scheme, netloc) \<Rightarrow>
               if scheme = [] then Inl (ValueError (''URL '' @ quoted t @ '' has no scheme (http/https)''))
               else if scheme \<notin> {''http'', ''https''}
               then Inl (ValueError (''URL '' @ quoted t @ '' has invalid scheme '' @ quoted scheme
                      @ ''. Use http or https''))
               else if netloc = [] then Inl (ValueError (''URL '' @ quoted t @ '' has no domain''))
               else Inr (PStr t, None))
      | _ \<Rightarrow> Inl (ValueError (''Type '' @ type_name v @ '' cannot be converted to URL'')))"

section \<open>Enumerations\<close>

fun find_allowed :: "string \<Rightarrow> string list \<Rightarrow> string option" where
  "find_allowed low [] = None"
| "find_allowed low (a # as) = (if py_lower a = low then Some a else find_allowed low as)"

definition not_allowed :: "pylib \<Rightarrow> string \<Rightarrow> string list \<Rightarrow> pyexn" where
  "not_allowed L v vs = ValueError (''Value '' @ quoted v @ '' is not in the allowed value list: ''
     @ lib_str L (PList (map PStr vs)))"

definition enum_lookup :: "pylib \<Rightarrow> field_schema \<Rightarrow> string list \<Rightarrow> string \<Rightarrow> string option \<Rightarrow> coerced" where
  "enum_lookup L sch vs v w =
     (if fs_case_insensitive sch then
        (case find_allowed (py_lower v) vs of
           Some a \<Rightarrow> Inr (PStr a,
             if a \<noteq> v then Some (''Enum normalized from '' @ quoted v @ '' to '' @ quoted a) else w)
         | None \<Rightarrow> Inl (not_allowed L v vs))
      else if v \<in> set vs then Inr (PStr v, w)
      else Inl (not_allowed L v vs))"

definition coerce_enum :: "pylib \<Rightarrow> pyval \<Rightarrow> field_schema \<Rightarrow> coerced" where
  "coerce_enum L v sch =
     (case fs_values sch of
        None \<Rightarrow> Inl (ValueError (''Enum schema has no '' @ quoted ''values'' @ '' definition''))
      | Some [] \<Rightarrow> Inl (ValueError (''Enum schema has no '' @ quoted ''values'' @ '' definition''))
      | Some vs \<Rightarrow>
          (case v of
             PStr s \<Rightarrow> enum_lookup L sch vs (strip s) None
           | _ \<Rightarrow> bind_result (py_str L v) (\<lambda>s. enum_lookup L sch vs (strip s)
               (Some (''Converted from '' @ type_name v @ '' to string for enum comparison'')))))"

section \<open>Lists\<close>

definition item_type_name :: "item_type \<Rightarrow> string" where
  "item_type_name t = (case t of IT_string \<Rightarrow> ''string'' | IT_int \<Rightarrow> ''int'' | IT_float \<Rightarrow> ''float'')"

fun coerce_item :: "pylib \<Rightarrow> item_type \<Rightarrow> pyval \<Rightarrow> pyval result" where
  "coerce_item L IT_string v = bind_result (py_str L v) (\<lambda>s. Inr (PStr s))"
| "coerce_item L IT_int v =
     (case v of
        PBool b \<Rightarrow> Inr (PInt (if b then 1 else 0))
      | PInt n \<Rightarrow> Inr (PInt n)
      | PFloat x \<Rightarrow> bind_result (int_of_float x) (\<lambda>n. Inr (PInt n))
      | PStr s \<Rightarrow> (case parse_int (strip s) of
                    Some n \<Rightarrow> Inr (PInt n) | None \<Rightarrow> Inl (ValueError ''invalid literal for int()''))
      | _ \<Rightarrow> Inl (ValueError ''Cannot convert to int''))"
| "coerce_item L IT_float v =
     (case v of
        PBool b \<Rightarrow> Inr (PFloat (Fin (if b then 1 else 0)))
      | PInt n \<Rightarrow> bind_result (float_of_int n) (\<lambda>x. Inr (PFloat x))
      | PFloat x \<Rightarrow> Inr (PFloat x)
      | PStr s \<Rightarrow> (case lib_parse_float L (strip s) of
                    Some x \<Rightarrow> Inr (PFloat x) | None \<Rightarrow> Inl (ValueError ''could not convert string to float''))
      | _ \<Rightarrow> Inl (ValueError ''Cannot convert to float''))"

text \<open>
  The item loop: a \<open>ValueError\<close> or \<open>TypeError\<close> is re-raised as a \<open>ValueError\<close> naming the
  index, any other exception propagates.
\<close>

fun coerce_items :: "pylib \<Rightarrow> item_type \<Rightarrow> nat \<Rightarrow> pyval list \<Rightarrow> pyval list result" where
  "coerce_items L t i [] = Inr []"
| "coerce_items L t i (v # vs) =
     (case coerce_item L t v of
        Inl e \<Rightarrow>
          if isinstance e C_ValueError \<or> isinstance e C_TypeError
          then Inl (ValueError (''List item '' @ show_nat i @ '' cannot be converted to '' @ item_type_name t))
          else Inl e
      | Inr x \<Rightarrow> bind_result (coerce_items L t (Suc i) vs) (\<lambda>xs. Inr (x # xs)))"

definition check_list :: "field_schema \<Rightarrow> pyval list \<Rightarrow> string option \<Rightarrow> coerced" where
  "check_list sch xs w =
     (if opt_check (fs_min_items sch) (\<lambda>b. int (length xs) < b)
      then Inl (ValueError (''List has '' @ show_nat (length xs) @ '' items; minimum is ''
             @ show_int (the (fs_min_items sch))))
      else if opt_check (fs_max_items sch) (\<lambda>b. b < int (length xs))
      then Inl (ValueError (''List has '' @ show_nat (length xs) @ '' items; maximum is ''
             @ show_int (the (fs_max_items sch))))
      else Inr (PList xs, w))"

definition csv_items :: "string \<Rightarrow> string list" where
  "csv_items s = map strip (filter (\<lambda>x. strip x \<noteq> []) (py_split '','' s))"

definition coerce_list :: "pylib \<Rightarrow> pyval \<Rightarrow> field_schema \<Rightarrow> coerced" where
  "coerce_list L v sch =
     (let t = (case fs_item_type sch of None \<Rightarrow> IT_string | Some t \<Rightarrow> t);
          run = (\<lambda>items w. bind_result (coerce_items L t 0 items) (\<lambda>xs. check_list sch xs w)) in
      case v of
        PList xs \<Rightarrow> run xs None
      | PTuple xs \<Rightarrow> run xs (Some (''Converted from tuple to list''))
      | PSet xs \<Rightarrow> run xs (Some (''Converted from set to list''))
      | PStr s \<Rightarrow> run (map PStr (csv_items s))
          (Some (''String converted to a list with '' @ show_nat (length (csv_items s)) @ '' items''))
      | _ \<Rightarrow> Inl (ValueError (''Type '' @ type_name v @ '' cannot be converted to a list'')))"

section \<open>Dispatch\<close>

text \<open>
  \<open>COERCION_FUNCTIONS\<close> has an entry for every member of the \<open>FieldType\<close> literal, so the
  "unsupported type" branch of \<open>coerce_value\<close> has no counterpart here.
\<close>

definition coerce_value :: "pylib \<Rightarrow> pyval \<Rightarrow> field_schema \<Rightarrow> coerced" where
  "coerce_value L v sch =
     (case fs_type sch of
        FT_string \<Rightarrow> coerce_string L v sch
      | FT_int \<Rightarrow> coerce_int L v sch
      | FT_float \<Rightarrow> coerce_float L v sch
      | FT_bool \<Rightarrow> coerce_bool L v sch
      | FT_date \<Rightarrow> coerce_date L v sch
      | FT_datetime \<Rightarrow> coerce_datetime L v sch
      | FT_uuid \<Rightarrow> coerce_uuid L v sch
      | FT_url \<Rightarrow> coerce_url L v sch
      | FT_enum \<Rightarrow> coerce_enum L v sch
      | FT_list \<Rightarrow> coerce_list L v sch)"

section \<open>What a coerced value satisfies\<close>

text \<open>
  The contract of a field: the normal form of its values.  \<open>coerce_value\<close> produces values
  in normal form and leaves values in normal form alone.
\<close>

definition string_ok :: "pylib \<Rightarrow> field_schema \<Rightarrow> string \<Rightarrow> bool" where
  "string_ok L sch s \<longleftrightarrow>
     \<not> opt_check (fs_min_length sch) (\<lambda>b. int (length s) < b) \<and>
     \<not> opt_check (fs_max_length sch) (\<lambda>b. b < int (length s)) \<and>
     (case fs_pattern sch of None \<Rightarrow> True | Some p \<Rightarrow> lib_re_match L p s = Some True)"

definition number_ok :: "field_schema \<Rightarrow> pyfloat \<Rightarrow> bool" where
  "number_ok sch x \<longleftrightarrow>
     \<not> opt_check (fs_minimum sch) (\<lambda>b. float_less x b) \<and>
     \<not> opt_check (fs_maximum sch) (\<lambda>b. float_less b x)"

definition date_text :: "pylib \<Rightarrow> string \<Rightarrow> bool" where
  "date_text L s \<longleftrightarrow> strip s = s \<and> length s = 10 \<and> lib_parse_date L s = Some s"

definition datetime_text :: "pylib \<Rightarrow> string \<Rightarrow> bool" where
  "datetime_text L s \<longleftrightarrow> strip s = s \<and> lib_parse_datetime L s = Some s"

definition uuid_text :: "pylib \<Rightarrow> string \<Rightarrow> bool" where
  "uuid_text L s \<longleftrightarrow> strip s = s \<and> py_lower s = s \<and> lib_parse_uuid L s = Some s"

definition url_text :: "pylib \<Rightarrow> string \<Rightarrow> bool" where
  "url_text L s \<longleftrightarrow> strip s = s \<and>
     (\<exists>scheme netloc. lib_urlparse L s = Some (scheme, netloc) \<and>
        (scheme = ''http'' \<or> scheme = ''https'') \<and> netloc \<noteq> [])"

definition enum_text :: "field_schema \<Rightarrow> string \<Rightarrow> bool" where
  "enum_text sch s \<longleftrightarrow> strip s = s \<and>
     (\<exists>vs. fs_values sch = Some vs \<and> s \<in> set vs \<and>
        (fs_case_insensitive sch \<longrightarrow> find_allowed (py_lower s) vs = Some s))"

fun item_ok :: "item_type \<Rightarrow> pyval \<Rightarrow> bool" where
  "item_ok IT_string v = (\<exists>s. v = PStr s)"
| "item_ok IT_int v = (\<exists>n. v = PInt n)"
| "item_ok IT_float v = (\<exists>x. v = PFloat x)"

definition list_ok :: "field_schema \<Rightarrow> pyval list \<Rightarrow> bool" where
  "list_ok sch xs \<longleftrightarrow>
     (\<forall>x \<in> set xs. item_ok (case fs_item_type sch of None \<Rightarrow> IT_string | Some t \<Rightarrow> t) x) \<and>
     \<not> opt_check (fs_min_items sch) (\<lambda>b. int (length xs) < b) \<and>
     \<not> opt_check (fs_max_items sch) (\<lambda>b. b < int (length xs))"

definition conforms :: "pylib \<Rightarrow> field_schema \<Rightarrow> pyval \<Rightarrow> bool" where
  "conforms L sch v \<longleftrightarrow>
     (case fs_type sch of
        FT_string \<Rightarrow> (\<exists>s. v = PStr s \<and> string_ok L sch s)
      | FT_int \<Rightarrow> (\<exists>n. v = PInt n \<and> number_ok sch (Fin (of_int n)))
      | FT_float \<Rightarrow> (\<exists>r. v = PFloat (Fin r) \<and> number_ok sch (Fin r))
      | FT_bool \<Rightarrow> (\<exists>b. v = PBool b)
      | FT_date \<Rightarrow> (\<exists>s. v = PStr s \<and> date_text L s)
      | FT_datetime \<Rightarrow> (\<exists>s. v = PStr s \<and> datetime_text L s)
      | FT_uuid \<Rightarrow> (\<exists>s. v = PStr s \<and> uuid_text L s)
      | FT_url \<Rightarrow> (\<exists>s. v = PStr s \<and> url_text L s)
      | FT_enum \<Rightarrow> (\<exists>s. v = PStr s \<and> enum_text sch s)
      | FT_list \<Rightarrow> (\<exists>xs. v = PList xs \<and> list_ok sch xs))"

text \<open>
  What the standard library documents: a parsed date, datetime or UUID is printed in a
  canonical form that parses to itself, a date followed by midnight is a datetime, and a
  date or datetime object prints in that form.
\<close>

definition lib_canonical :: "pylib \<Rightarrow> bool" where
  "lib_canonical L \<longleftrightarrow>
     (\<forall>s r. lib_parse_date L s = Some r \<longrightarrow> date_text L r \<and> datetime_text L (r @ midnight)) \<and>
     (\<forall>s r. lib_parse_datetime L s = Some r \<longrightarrow> datetime_text L r) \<and>
     (\<forall>s r. lib_parse_uuid L s = Some r \<longrightarrow> uuid_text L r)"

definition dates_canonical :: "pylib \<Rightarrow> pyval \<Rightarrow> bool" where
  "dates_canonical L v \<longleftrightarrow>
     (\<forall>d. v = PDate d \<longrightarrow> date_text L d \<and> datetime_text L (d @ midnight)) \<and>
     (\<forall>d. v = PDatetime d \<longrightarrow> date_text L (take 10 d) \<and> datetime_text L d)"

subsection \<open>Normal forms are produced\<close>

lemma strip_same_length:
  assumes "length (strip s) = length s" shows "strip s = s"
proof -
  have l: "length (lstrip s) \<le> length s" by (rule length_lstrip)
  have r: "length (rstrip t) \<le> length t" for t
    using length_dropWhile_le [of is_space "rev t"] by (simp add: rstrip_def)
  from assms l r [of "lstrip s"] have "length (lstrip s) = length s"
    by (simp add: strip_def)
  moreover have "s = takeWhile is_space s @ lstrip s" by (simp add: lstrip_def)
  ultimately have ls: "lstrip s = s"
    by (metis add_cancel_right_left append_Nil length_0_conv length_append)
  then have "length (rstrip s) = length s" using assms by (simp add: strip_def)
  moreover obtain t where "s = rstrip s @ t" using rstrip_eq_takeWhile_like by blast
  ultimately have "rstrip s = s"
    by (metis add_cancel_right_right append_Nil2 length_0_conv length_append)
  with ls show ?thesis by (simp add: strip_def)
qed

lemma strip_of_lower_eq:
  assumes "py_lower a = py_lower (strip s)" shows "strip a = a"
proof -
  have "py_lower (strip a) = strip (py_lower a)" by simp
  also have "\<dots> = py_lower a" using assms by (metis strip_idem strip_lower)
  finally have "length (strip a) = length a" by (metis length_py_lower)
  then show ?thesis by (rule strip_same_length)
qed

lemma find_allowed_Some:
  "find_allowed low vs = Some a \<Longrightarrow> a \<in> set vs \<and> py_lower a = low"
  by (induction vs) (auto split: if_splits)

lemma check_string_ok: "check_string L sch s w = Inr (v, w') \<Longrightarrow> v = PStr s \<and> string_ok L sch s"
  by (auto simp: check_string_def string_ok_def split: if_splits option.splits bool.splits)

lemma check_int_ok: "check_int L sch n w = Inr (v, w') \<Longrightarrow> v = PInt n \<and> number_ok sch (Fin (of_int n))"
  by (auto simp: check_int_def number_ok_def split: if_splits)

lemma check_float_ok: "check_float L sch x w = Inr (v, w') \<Longrightarrow> v = PFloat x \<and> number_ok sch x"
  by (auto simp: check_float_def number_ok_def split: if_splits)

lemma enum_lookup_ok:
  assumes "enum_lookup L sch vs (strip s) w = Inr (v, w')" "fs_values sch = Some vs"
  shows "\<exists>a. v = PStr a \<and> enum_text sch a"
proof (cases "fs_case_insensitive sch")
  case True
  with assms(1) obtain a where a: "find_allowed (py_lower (strip s)) vs = Some a" "v = PStr a"
    by (auto simp: enum_lookup_def split: option.splits)
  then have "a \<in> set vs" "py_lower a = py_lower (strip s)" by (auto dest: find_allowed_Some)
  with a assms(2) strip_of_lower_eq show ?thesis by (auto simp: enum_text_def)
next
  case False
  with assms show ?thesis by (auto simp: enum_lookup_def enum_text_def split: if_splits)
qed

lemma coerce_item_ok: "coerce_item L t v = Inr x \<Longrightarrow> item_ok t x"
  by (cases t) (auto split: pyval.splits option.splits)

lemma coerce_items_ok: "coerce_items L t i vs = Inr xs \<Longrightarrow> \<forall>x \<in> set xs. item_ok t x"
  by (induction vs arbitrary: i xs) (auto split: sum.splits if_splits dest: coerce_item_ok)

lemma check_list_ok:
  "check_list sch xs w = Inr (v, w') \<Longrightarrow>
   (\<forall>x \<in> set xs. item_ok (case fs_item_type sch of None \<Rightarrow> IT_string | Some t \<Rightarrow> t) x) \<Longrightarrow>
   v = PList xs \<and> list_ok sch xs"
  by (auto simp: check_list_def list_ok_def split: if_splits)

lemma float_of_int_finite: "float_of_int n = Inr x \<Longrightarrow> \<exists>r. x = Fin r"
  by (auto simp: float_of_int_def Let_def split: if_splits)

lemmas coerce_defs = coerce_string_def coerce_int_def coerce_float_def coerce_bool_def
  coerce_date_def coerce_datetime_def coerce_uuid_def coerce_url_def coerce_enum_def
  coerce_list_def

lemma coerce_string_conforms:
  "coerce_string L v sch = Inr (v', w) \<Longrightarrow> \<exists>s. v' = PStr s \<and> string_ok L sch s"
  by (auto simp: coerce_string_def split: pyval.splits dest!: check_string_ok)

lemma coerce_int_conforms:
  "coerce_int L v sch = Inr (v', w) \<Longrightarrow> \<exists>n. v' = PInt n \<and> number_ok sch (Fin (of_int n))"
  by (auto simp: coerce_int_def split: pyval.splits pyfloat.splits option.splits if_splits
           dest!: check_int_ok)

lemma coerce_float_conforms:
  "coerce_float L v sch = Inr (v', w) \<Longrightarrow> \<exists>r. v' = PFloat (Fin r) \<and> number_ok sch (Fin r)"
  by (auto simp: coerce_float_def Let_def split: pyval.splits pyfloat.splits option.splits if_splits
           dest!: check_float_ok dest: float_of_int_finite)

lemma coerce_enum_conforms:
  "coerce_enum L v sch = Inr (v', w) \<Longrightarrow> \<exists>s. v' = PStr s \<and> enum_text sch s"
  by (auto simp: coerce_enum_def split: option.splits list.splits pyval.splits
           dest!: enum_lookup_ok)

lemma coerce_list_conforms:
  "coerce_list L v sch = Inr (v', w) \<Longrightarrow> \<exists>xs. v' = PList xs \<and> list_ok sch xs"
  by (auto simp: coerce_list_def Let_def split: pyval.splits
           dest!: check_list_ok coerce_items_ok)

lemma coerce_value_conforms:
  assumes "coerce_value L v sch = Inr (v', w)" "lib_canonical L" "dates_canonical L v"
  shows "conforms L sch v'"
proof (cases "fs_type sch")
  case FT_string
  with assms(1) show ?thesis by (auto simp: coerce_value_def conforms_def dest: coerce_string_conforms)
next
  case FT_int
  with assms(1) show ?thesis by (auto simp: coerce_value_def conforms_def dest: coerce_int_conforms)
next
  case FT_float
  with assms(1) show ?thesis by (auto simp: coerce_value_def conforms_def dest: coerce_float_conforms)
next
  case FT_bool
  with assms(1) show ?thesis
    by (auto simp: coerce_value_def conforms_def coerce_bool_def Let_def
             split: pyval.splits if_splits)
next
  case FT_date
  with assms show ?thesis
    by (auto simp: coerce_value_def conforms_def coerce_date_def Let_def
                   lib_canonical_def dates_canonical_def
             split: pyval.splits option.splits)
next
  case FT_datetime
  with assms show ?thesis
    by (auto simp: coerce_value_def conforms_def coerce_datetime_def Let_def
                   lib_canonical_def dates_canonical_def
             split: pyval.splits option.splits)
next
  case FT_uuid
  with assms show ?thesis
    by (auto simp: coerce_value_def conforms_def coerce_uuid_def Let_def lib_canonical_def
             split: pyval.splits option.splits)
next
  case FT_url
  with assms(1) show ?thesis
    by (auto simp: coerce_value_def conforms_def coerce_url_def Let_def url_text_def
             split: pyval.splits option.splits if_splits)
next
  case FT_enum
  with assms(1) show ?thesis by (auto simp: coerce_value_def conforms_def dest: coerce_enum_conforms)
next
  case FT_list
  with assms(1) show ?thesis by (auto simp: coerce_value_def conforms_def dest: coerce_list_conforms)
qed

subsection \<open>Normal forms are left alone\<close>

lemma coerce_items_id: "\<forall>x \<in> set xs. item_ok t x \<Longrightarrow> coerce_items L t i xs = Inr xs"
  by (induction xs arbitrary: i) (cases t; auto)+

lemma coerce_value_fixpoint:
  assumes "conforms L sch v"
  shows "coerce_value L v sch = Inr (v, None)"
proof (cases "fs_type sch")
  case FT_string
  with assms show ?thesis
    by (auto simp: coerce_value_def conforms_def coerce_string_def check_string_def string_ok_def
             split: option.splits bool.splits)
next
  case FT_int
  with assms show ?thesis
    by (auto simp: coerce_value_def conforms_def coerce_int_def check_int_def number_ok_def)
next
  case FT_float
  with assms show ?thesis
    by (auto simp: coerce_value_def conforms_def coerce_float_def check_float_def number_ok_def)
next
  case FT_bool
  with assms show ?thesis by (auto simp: coerce_value_def conforms_def coerce_bool_def)
next
  case FT_date
  with assms show ?thesis
    by (auto simp: coerce_value_def conforms_def coerce_date_def date_text_def Let_def)
next
  case FT_datetime
  with assms show ?thesis
    by (auto simp: coerce_value_def conforms_def coerce_datetime_def datetime_text_def Let_def)
next
  case FT_uuid
  with assms show ?thesis
    by (auto simp: coerce_value_def conforms_def coerce_uuid_def uuid_text_def Let_def)
next
  case FT_url
  with assms show ?thesis
    by (auto simp: coerce_value_def conforms_def coerce_url_def url_text_def Let_def)
next
  case FT_enum
  with assms show ?thesis
    by (auto simp: coerce_value_def conforms_def coerce_enum_def enum_text_def enum_lookup_def
             split: list.splits)
next
  case FT_list
  with assms show ?thesis
    by (auto simp: coerce_value_def conforms_def coerce_list_def list_ok_def check_list_def
                   coerce_items_id Let_def)
qed

text \<open>A concrete library for the witnesses: it knows one date, one datetime and one UUID.\<close>

definition sample_uuid :: string where
  "sample_uuid = ''019c503c-08e7-707f-9441-f4e6c5d0dd61''"

definition sample_lib :: pylib where
  "sample_lib =
     \<lparr>lib_str = (\<lambda>_. ''?''),
      lib_parse_float = (\<lambda>s. if s = ''2.5'' then Some (Fin (5 / 2))
                            else if s = ''inf'' then Some FPosInf else None),
      lib_re_match = (\<lambda>p s. Some (prefix p s)),
      lib_parse_date = (\<lambda>s. if s = ''2026-01-02'' then Some s else None),
      lib_parse_datetime = (\<lambda>s. if s = ''2026-01-02T00:00:00'' then Some s else None),
      lib_parse_uuid = (\<lambda>s. if py_lower s = sample_uuid then Some sample_uuid else None),
      lib_urlparse = (\<lambda>s. if starts_with s ''https://'' then Some (''https'', drop 8 s)
                          else Some ([], []))\<rparr>"

lemma sample_strips:
  "strip ''2026-01-02'' = ''2026-01-02''"
  "strip ''2026-01-02T00:00:00'' = ''2026-01-02T00:00:00''"
  "strip sample_uuid = sample_uuid" "py_lower sample_uuid = sample_uuid"
  by code_simp+

lemma sample_lib_canonical: "lib_canonical sample_lib"
  using sample_strips
  by (simp add: lib_canonical_def sample_lib_def date_text_def datetime_text_def uuid_text_def
        midnight_def)

text \<open>C21. Coercing a front matter value to its field's type yields a value in the field's
  normal form (right type, within the length, range, pattern, enumeration and item
  constraints), and coercing the result again returns it unchanged and without a warning.
  The standard library's parsers are assumed to print what they parse canonically.\<close>

theorem coerce_value_idempotent:
  assumes "lib_canonical L" and "dates_canonical L v"
    and "coerce_value L v sch = Inr (v', w)"
  shows "conforms L sch v' \<and> coerce_value L v' sch = Inr (v', None)"
  using coerce_value_conforms [OF assms(3,1,2)] coerce_value_fixpoint by blast

theorem coerce_value_idempotent_witness:
  "coerce_value sample_lib (PStr '' 2.5 '') (default_schema FT_int) =
     Inr (PInt 2, Some (''String '' @ quoted ''2.5'' @ '' converted to int 2'')) \<and>
   coerce_value sample_lib (PInt 2) (default_schema FT_int) = Inr (PInt 2, None)"
proof -
  have run: "coerce_value sample_lib (PStr '' 2.5 '') (default_schema FT_int) =
     Inr (PInt 2, Some (''String '' @ quoted ''2.5'' @ '' converted to int 2''))"
    by code_simp
  have "dates_canonical sample_lib (PStr '' 2.5 '')" by (simp add: dates_canonical_def)
  from coerce_value_idempotent [OF sample_lib_canonical this run] run show ?thesis by simp
qed

section \<open>Exceptions\<close>

lemma check_int_error: "check_int L sch n w = Inl e \<Longrightarrow> isinstance e C_ValueError"
  by (auto simp: check_int_def isinstance_def split: if_splits)

lemma check_float_error: "check_float L sch x w = Inl e \<Longrightarrow> isinstance e C_ValueError"
  by (auto simp: check_float_def isinstance_def split: if_splits)

lemma check_list_error: "check_list sch xs w = Inl e \<Longrightarrow> isinstance e C_ValueError"
  by (auto simp: check_list_def isinstance_def split: if_splits)

lemma check_string_error:
  "check_string L sch s w = Inl e \<Longrightarrow> isinstance e C_ValueError \<or> e = OtherError"
  by (auto simp: check_string_def isinstance_def split: if_splits option.splits bool.splits)

lemma enum_lookup_error: "enum_lookup L sch vs s w = Inl e \<Longrightarrow> isinstance e C_ValueError"
  by (auto simp: enum_lookup_def not_allowed_def isinstance_def split: if_splits option.splits)

lemma py_str_error: "py_str L v = Inl e \<Longrightarrow> isinstance e C_ValueError"
  by (cases "(L, v)" rule: py_str.cases) (auto simp: isinstance_def split: if_splits)

lemma float_of_int_error: "float_of_int n = Inl e \<Longrightarrow> e = OverflowError"
  by (auto simp: float_of_int_def Let_def split: if_splits)

lemma int_of_float_error:
  "int_of_float x = Inl e \<Longrightarrow> isinstance e C_ValueError \<or> e = OverflowError"
  by (cases x) (auto simp: isinstance_def)

lemma coerce_item_error:
  "coerce_item L t v = Inl e \<Longrightarrow> isinstance e C_ValueError \<or> e = OverflowError"
  by (cases t) (auto simp: bind_result_Inl isinstance_def split: pyval.splits option.splits
                     dest!: int_of_float_error float_of_int_error py_str_error)

lemma coerce_items_error:
  "coerce_items L t i vs = Inl e \<Longrightarrow> isinstance e C_ValueError \<or> e = OverflowError"
proof (induction vs arbitrary: i)
  case Nil
  then show ?case by simp
next
  case (Cons v vs)
  show ?case
  proof (cases "coerce_item L t v")
    case (Inl e')
    with Cons.prems coerce_item_error [OF Inl] show ?thesis
      by (auto simp: isinstance_def split: if_splits)
  next
    case (Inr x)
    with Cons.prems Cons.IH show ?thesis by (auto simp: bind_result_Inl)
  qed
qed

lemma int_of_float_text_error: "int_of_float_text L s = Inl e \<Longrightarrow> isinstance e C_ValueError"
  by (auto simp: int_of_float_text_def isinstance_def Let_def split: option.splits sum.splits)

lemmas coerce_errors = check_int_error check_float_error check_list_error check_string_error
  enum_lookup_error py_str_error float_of_int_error int_of_float_text_error coerce_items_error

lemma coerce_int_error: "coerce_int L v sch = Inl e \<Longrightarrow> isinstance e C_ValueError"
  by (auto simp: coerce_int_def bind_result_Inl isinstance_def
           split: pyval.splits pyfloat.splits option.splits prod.splits dest!: coerce_errors)

lemma coerce_float_error:
  "coerce_float L v sch = Inl e \<Longrightarrow> isinstance e C_ValueError \<or> e = OverflowError"
  by (auto simp: coerce_float_def bind_result_Inl Let_def isinstance_def
           split: pyval.splits pyfloat.splits option.splits dest!: coerce_errors)

lemma coerce_string_error:
  "coerce_string L v sch = Inl e \<Longrightarrow> isinstance e C_ValueError \<or> e = OtherError"
  by (auto simp: coerce_string_def bind_result_Inl isinstance_def
           split: pyval.splits if_splits dest!: coerce_errors)

lemma coerce_enum_error: "coerce_enum L v sch = Inl e \<Longrightarrow> isinstance e C_ValueError"
  by (auto simp: coerce_enum_def bind_result_Inl isinstance_def
           split: pyval.splits option.splits list.splits if_splits dest!: coerce_errors)

lemma coerce_list_error:
  "coerce_list L v sch = Inl e \<Longrightarrow> isinstance e C_ValueError \<or> e = OverflowError"
  by (auto simp: coerce_list_def bind_result_Inl isinstance_def Let_def
           split: pyval.splits dest!: coerce_errors)

lemma coerce_value_error:
  assumes "coerce_value L v sch = Inl e"
  shows "isinstance e C_ValueError
    \<or> e = OverflowError \<and> fs_type sch \<in> {FT_float, FT_list}
    \<or> e = OtherError \<and> fs_type sch = FT_string"
proof (cases "fs_type sch")
  case FT_string
  with assms show ?thesis by (auto simp: coerce_value_def dest: coerce_string_error)
next
  case FT_int
  with assms show ?thesis by (auto simp: coerce_value_def dest: coerce_int_error)
next
  case FT_float
  with assms show ?thesis by (auto simp: coerce_value_def dest: coerce_float_error)
next
  case FT_enum
  with assms show ?thesis by (auto simp: coerce_value_def dest: coerce_enum_error)
next
  case FT_list
  with assms show ?thesis by (auto simp: coerce_value_def dest: coerce_list_error)
qed (use assms in \<open>auto simp: coerce_value_def coerce_bool_def coerce_date_def
      coerce_datetime_def coerce_uuid_def coerce_url_def isinstance_def Let_def
      split: pyval.splits option.splits if_splits prod.splits\<close>)

text \<open>The only exceptions that escape a coercion without being a \<open>ValueError\<close> are an
  \<open>OverflowError\<close> from a float or list field and the regular-expression error of a string
  field whose pattern is malformed.\<close>

theorem coerce_value_exceptions:
  assumes "coerce_value L v sch = Inl e"
  shows "isinstance e C_ValueError
    \<or> e = OverflowError \<and> fs_type sch \<in> {FT_float, FT_list}
    \<or> e = OtherError \<and> fs_type sch = FT_string"
  using coerce_value_error [OF assms] .

theorem coerce_value_exceptions_witness:
  "coerce_value sample_lib (PList [PInt 1, PFloat FPosInf])
       ((default_schema FT_list)\<lparr>fs_item_type := Some IT_int\<rparr>) = Inl OverflowError \<and>
   FT_list \<in> {FT_float, FT_list}"
proof -
  let ?s = "(default_schema FT_list)\<lparr>fs_item_type := Some IT_int\<rparr>"
  have run: "coerce_value sample_lib (PList [PInt 1, PFloat FPosInf]) ?s = Inl OverflowError"
    by code_simp
  from coerce_value_exceptions [OF run] run show ?thesis
    by (simp add: isinstance_def default_schema_def)
qed

lemma bit_length_power: "bit_length (2 ^ k) = Suc k"
proof (induction k)
  case 0
  then show ?case by (simp add: bit_length.simps)
next
  case (Suc k)
  then show ?case by (subst bit_length.simps) simp
qed

text \<open>Infinities inside an integer list and integers beyond the binary64 range are not
  reported as validation errors: the coercion raises \<open>OverflowError\<close>, which the validator's
  \<open>except ValueError\<close> does not catch.\<close>

theorem coerce_overflow_escapes:
  "coerce_value L (PList [PFloat FPosInf]) ((default_schema FT_list)\<lparr>fs_item_type := Some IT_int\<rparr>)
     = Inl OverflowError \<and>
   coerce_value L (PInt (2 ^ 1024)) (default_schema FT_float) = Inl OverflowError \<and>
   \<not> isinstance OverflowError C_ValueError"
proof -
  have "bit_length (2 ^ 1024) = 1025" using bit_length_power [of 1024] by simp
  then have "float_of_int (2 ^ 1024) = Inl OverflowError"
    by (simp add: float_of_int_def round_significand_def Let_def)
  then show ?thesis
    by (simp add: coerce_value_def coerce_float_def coerce_list_def default_schema_def
        isinstance_def Let_def)
qed

end
