(* ===== verification/Validator.thy ===== *)
theory Validator
  imports Coercion
begin

text \<open>
  \<open>frontmatter/validator.py\<close>: the alias map, alias resolution in dictionary order, the
  per-field processing of \<open>FrontmatterValidator.validate\<close>, the extra-field policy and the
  mode.  The generators of automatic values (UUIDv7 and the clock) are parameters, one
  value per field.
\<close>

record issue =
  is_field :: string
  is_message :: string
  is_code :: string
  is_value :: pyval

record validation_result =
  vr_valid :: bool
  vr_errors :: "issue list"
  vr_warnings :: "issue list"
  vr_suggestions :: "issue list"
  vr_auto :: frontmatter
  vr_data :: frontmatter

record valgen =
  gen_uuid :: "string \<Rightarrow> string"
  gen_now :: "string \<Rightarrow> string"

section \<open>Aliases\<close>

definition add_aliases :: "string \<times> field_schema \<Rightarrow> (string, string) dict \<Rightarrow> (string, string) dict" where
  "add_aliases f m = fold (\<lambda>a. dset (py_lower a) (fst f)) (fs_aliases (snd f))
     (dset (py_lower (fst f)) (fst f) m)"

definition build_alias_map :: "schema_config \<Rightarrow> (string, string) dict" where
  "build_alias_map cfg = fold add_aliases (sc_schema cfg) []"

record resolution =
  rs_data :: frontmatter
  rs_used :: "(string, string) dict"
  rs_conflicts :: "(string \<times> string \<times> pyval) list"

text \<open>
  One entry of \<open>_resolve_aliases\<close>; a key that is not a string has no \<open>lower\<close> method.
\<close>

definition resolve_entry :: "(string, string) dict \<Rightarrow> pyval \<times> pyval \<Rightarrow> resolution \<Rightarrow> resolution result" where
  "resolve_entry m kv st =
     (case fst kv of
        PStr key \<Rightarrow>
          (let low = py_lower key in
           case dget m low of
             Some canonical \<Rightarrow>
               if \<not> dhas (rs_data st) (PStr canonical) then
                 Inr (st\<lparr>rs_data := dset (PStr canonical) (snd kv) (rs_data st),
                         rs_used := (if low \<noteq> py_lower canonical
                                     then dset key canonical (rs_used st) else rs_used st)\<rparr>)
               else
                 Inr (if low \<noteq> py_lower canonical
                      then st\<lparr>rs_conflicts := rs_conflicts st @ [(key, canonical, snd kv)]\<rparr>
                      else st)
           | None \<Rightarrow> Inr (st\<lparr>rs_data := dset (PStr key) (snd kv) (rs_data st)\<rparr>))
      | _ \<Rightarrow> Inl AttributeError)"

fun resolve_entries :: "(string, string) dict \<Rightarrow> frontmatter \<Rightarrow> resolution \<Rightarrow> resolution result" where
  "resolve_entries m [] st = Inr st"
| "resolve_entries m (kv # d) st = bind_result (resolve_entry m kv st) (resolve_entries m d)"

definition resolve_aliases :: "schema_config \<Rightarrow> frontmatter \<Rightarrow> resolution result" where
  "resolve_aliases cfg data =
     resolve_entries (build_alias_map cfg) data \<lparr>rs_data = [], rs_used = [], rs_conflicts = []\<rparr>"

section \<open>Fields\<close>

definition auto_generate :: "valgen \<Rightarrow> string \<Rightarrow> field_schema \<Rightarrow> pyval result" where
  "auto_generate g name sch =
     (if fs_type sch = FT_uuid then Inr (PStr (gen_uuid g name))
      else if fs_type sch = FT_datetime then Inr (PStr (gen_now g name))
      else Inl (ValueError (''Automatic generation is not supported for ''
             @ quoted (field_type_name (fs_type sch)))))"

definition exn_text :: "pyexn \<Rightarrow> string" where
  "exn_text e = (case e of ValueError s \<Rightarrow> s | _ \<Rightarrow> [])"

definition add_error :: "issue \<Rightarrow> validation_result \<Rightarrow> validation_result" where
  "add_error i st = st\<lparr>vr_errors := vr_errors st @ [i]\<rparr>"

definition add_warning :: "issue \<Rightarrow> validation_result \<Rightarrow> validation_result" where
  "add_warning i st = st\<lparr>vr_warnings := vr_warnings st @ [i]\<rparr>"

definition put_data :: "string \<Rightarrow> pyval \<Rightarrow> validation_result \<Rightarrow> validation_result" where
  "put_data k v st = st\<lparr>vr_data := dset (PStr k) v (vr_data st)\<rparr>"

definition validate_present ::
  "pylib \<Rightarrow> string \<Rightarrow> field_schema \<Rightarrow> pyval \<Rightarrow> validation_result \<Rightarrow> validation_result result" where
  "validate_present L name sch v st =
     (case coerce_value L v sch of
        Inr (c, w) \<Rightarrow>
          Inr (let st = put_data name c st in
               case w of
                 None \<Rightarrow> st
               | Some msg \<Rightarrow> if msg = [] then st else
                   add_warning \<lparr>is_field = name, is_message = msg,
                                is_code = ''coercion_warning'', is_value = v\<rparr> st)
      | Inl e \<Rightarrow>
          if isinstance e C_ValueError
          then Inr (add_error \<lparr>is_field = name, is_message = exn_text e,
                               is_code = ''validation_error'', is_value = v\<rparr> st)
          else Inl e)"

definition validate_missing ::
  "valgen \<Rightarrow> string \<Rightarrow> field_schema \<Rightarrow> validation_result \<Rightarrow> validation_result" where
  "validate_missing g name sch st =
     (case fs_on_missing sch of
        OM_require \<Rightarrow>
          add_error \<lparr>is_field = name, is_message = ''Required field '' @ quoted name @ '' is missing'',
                     is_code = ''required_missing'', is_value = PNone\<rparr> st
      | OM_auto \<Rightarrow>
          (case auto_generate g name sch of
             Inr v \<Rightarrow> put_data name v (st\<lparr>vr_auto := dset (PStr name) v (vr_auto st)\<rparr>)
           | Inl e \<Rightarrow>
               add_error \<lparr>is_field = name,
                          is_message = ''Failed to generate a value automatically: '' @ exn_text e,
                          is_code = ''auto_generate_failed'', is_value = PNone\<rparr> st)
      | OM_suggest \<Rightarrow>
          (let st = st\<lparr>vr_suggestions := vr_suggestions st @
                 [\<lparr>is_field = name,
                   is_message = ''Suggestion: add field '' @ quoted name @ '' (type: ''
                     @ field_type_name (fs_type sch) @ '')'',
                   is_code = ''field_suggested'', is_value = fs_default sch\<rparr>]\<rparr> in
           if fs_default sch \<noteq> PNone then put_data name (fs_default sch) st else st)
      | OM_ignore \<Rightarrow> st)"

definition validate_field ::
  "pylib \<Rightarrow> valgen \<Rightarrow> frontmatter \<Rightarrow> string \<times> field_schema \<Rightarrow> validation_result \<Rightarrow> validation_result result" where
  "validate_field L g data f st =
     (case dget data (PStr (fst f)) of
        Some v \<Rightarrow> validate_present L (fst f) (snd f) v st
      | None \<Rightarrow> Inr (validate_missing g (fst f) (snd f) st))"

fun validate_fields ::
  "pylib \<Rightarrow> valgen \<Rightarrow> frontmatter \<Rightarrow> (string, field_schema) dict \<Rightarrow> validation_result
    \<Rightarrow> validation_result result" where
  "validate_fields L g data [] st = Inr st"
| "validate_fields L g data (f # fs) st =
     bind_result (validate_field L g data f st) (validate_fields L g data fs)"

section \<open>Extra fields, mode, and the whole validation\<close>

definition key_text :: "pyval \<Rightarrow> string" where
  "key_text k = (case k of PStr s \<Rightarrow> s | _ \<Rightarrow> [])"

definition validate_extra :: "schema_config \<Rightarrow> pyval \<times> pyval \<Rightarrow> validation_result \<Rightarrow> validation_result" where
  "validate_extra cfg kv st =
     (if \<not> dhas (sc_schema cfg) (key_text (fst kv)) \<and> \<not> dhas (vr_data st) (fst kv) then
        if sc_allow_extra cfg then st\<lparr>vr_data := dset (fst kv) (snd kv) (vr_data st)\<rparr>
        else add_error \<lparr>is_field = key_text (fst kv),
               is_message = ''Field '' @ quoted (key_text (fst kv)) @ '' is not allowed by the schema'',
               is_code = ''extra_field_not_allowed'', is_value = snd kv\<rparr> st
      else st)"

definition apply_mode :: "validation_mode \<Rightarrow> validation_result \<Rightarrow> validation_result" where
  "apply_mode mode st =
     (case mode of
        VM_warn_only \<Rightarrow> st\<lparr>vr_valid := True, vr_errors := [],
                           vr_warnings := vr_warnings st @ vr_errors st\<rparr>
      | _ \<Rightarrow> st\<lparr>vr_valid := (vr_errors st = [])\<rparr>)"

definition empty_result :: "validation_result" where
  "empty_result = \<lparr>vr_valid = True, vr_errors = [], vr_warnings = [], vr_suggestions = [],
                   vr_auto = [], vr_data = []\<rparr>"

definition alias_warnings :: "resolution \<Rightarrow> issue list" where
  "alias_warnings r =
     map (\<lambda>(a, c). \<lparr>is_field = c,
            is_message = ''Alias '' @ quoted a @ '' resolved to '' @ quoted c,
            is_code = ''alias_resolved'', is_value = PStr a\<rparr>) (rs_used r) @
     map (\<lambda>(a, c, v). \<lparr>is_field = c,
            is_message = ''Conflict: alias '' @ quoted a @ '' was ignored because field ''
              @ quoted c @ '' is already present'',
            is_code = ''alias_conflict'', is_value = v\<rparr>) (rs_conflicts r)"

definition validate :: "pylib \<Rightarrow> valgen \<Rightarrow> schema_config \<Rightarrow> frontmatter option \<Rightarrow> validation_result result" where
  "validate L g cfg frontmatter =
     (let data = (case frontmatter of None \<Rightarrow> [] | Some d \<Rightarrow> d) in
      if \<not> sc_enabled cfg then Inr (empty_result\<lparr>vr_data := data\<rparr>)
      else
        bind_result (resolve_aliases cfg data) (\<lambda>r.
        bind_result (validate_fields L g (rs_data r) (sc_schema cfg)
                       (empty_result\<lparr>vr_warnings := alias_warnings r\<rparr>)) (\<lambda>st.
        Inr (apply_mode (sc_mode cfg) (fold (validate_extra cfg) (rs_data r) st)))))"

text \<open>\<open>merge_auto_generated\<close>: generated entries first, then the original ones not generated.\<close>

definition merge_auto_generated :: "frontmatter option \<Rightarrow> validation_result \<Rightarrow> frontmatter" where
  "merge_auto_generated frontmatter r =
     fold (\<lambda>(k, v) acc. if dhas acc k then acc else dset k v acc)
       (case frontmatter of None \<Rightarrow> [] | Some d \<Rightarrow> d)
       (fold (\<lambda>(k, v). dset k v) (vr_auto r) [])"

section \<open>Alias resolution\<close>

lemma dget_fold_aliases:
  "dget (fold (\<lambda>a. dset (py_lower a) n) as m) k = Some c \<Longrightarrow> c = n \<or> dget m k = Some c"
proof (induction as arbitrary: m)
  case Nil
  then show ?case by simp
next
  case (Cons a as)
  from Cons.IH [of "dset (py_lower a) n m"] Cons.prems show ?case
    by (auto simp: dict_simps split: if_splits)
qed

lemma dget_add_aliases: "dget (add_aliases f m) k = Some c \<Longrightarrow> c = fst f \<or> dget m k = Some c"
  by (auto simp: add_aliases_def dict_simps split: if_splits dest!: dget_fold_aliases)

lemma alias_map_range: "dget (build_alias_map cfg) k = Some c \<Longrightarrow> c \<in> set (dkeys (sc_schema cfg))"
proof -
  have "dget (fold add_aliases fs m) k = Some c \<Longrightarrow> c \<in> set (dkeys fs) \<or> dget m k = Some c" for fs m
    by (induction fs arbitrary: m) (auto dest: dget_add_aliases)
  from this [of "sc_schema cfg" "[]"] show "dget (build_alias_map cfg) k = Some c \<Longrightarrow> ?thesis"
    by (simp add: build_alias_map_def)
qed

text \<open>The canonical name of a key, and the keys the resolution accepts.\<close>

definition canonical_name :: "schema_config \<Rightarrow> pyval \<Rightarrow> pyval" where
  "canonical_name cfg k =
     (case dget (build_alias_map cfg) (py_lower (key_text k)) of Some c \<Rightarrow> PStr c | None \<Rightarrow> k)"

definition is_known :: "schema_config \<Rightarrow> pyval \<Rightarrow> bool" where
  "is_known cfg k \<longleftrightarrow> dhas (build_alias_map cfg) (py_lower (key_text k))"

definition str_key :: "pyval \<Rightarrow> bool" where
  "str_key k \<longleftrightarrow> (\<exists>s. k = PStr s)"

definition resolve_step :: "schema_config \<Rightarrow> pyval \<times> pyval \<Rightarrow> frontmatter \<Rightarrow> frontmatter" where
  "resolve_step cfg kv d =
     (if is_known cfg (fst kv) \<and> dhas d (canonical_name cfg (fst kv)) then d
      else dset (canonical_name cfg (fst kv)) (snd kv) d)"

lemma resolve_entry_data:
  "resolve_entry (build_alias_map cfg) kv st = Inr st' \<Longrightarrow>
   str_key (fst kv) \<and> rs_data st' = resolve_step cfg kv (rs_data st)"
  by (auto simp: resolve_entry_def resolve_step_def is_known_def canonical_name_def key_text_def
                 str_key_def dhas_def [of "build_alias_map cfg"] Let_def
           split: pyval.splits option.splits if_splits)

lemma resolve_entries_data:
  "resolve_entries (build_alias_map cfg) d st = Inr st' \<Longrightarrow>
   (\<forall>kv \<in> set d. str_key (fst kv)) \<and> rs_data st' = fold (resolve_step cfg) d (rs_data st)"
proof (induction d arbitrary: st)
  case Nil
  then show ?case by simp
next
  case (Cons kv d)
  then obtain s1 where "resolve_entry (build_alias_map cfg) kv st = Inr s1"
    and "resolve_entries (build_alias_map cfg) d s1 = Inr st'" by auto
  with Cons.IH resolve_entry_data show ?case by fastforce
qed

lemma resolve_aliases_data:
  "resolve_aliases cfg d = Inr r \<Longrightarrow>
   (\<forall>kv \<in> set d. str_key (fst kv)) \<and> rs_data r = fold (resolve_step cfg) d []"
  by (auto simp: resolve_aliases_def dest!: resolve_entries_data)

text \<open>A schema is consistent when every field is found under its own name.\<close>

definition names_consistent :: "schema_config \<Rightarrow> bool" where
  "names_consistent cfg \<longleftrightarrow> distinct (dkeys (sc_schema cfg)) \<and>
     (\<forall>n \<in> set (dkeys (sc_schema cfg)). dget (build_alias_map cfg) (py_lower n) = Some n)"

lemma canonical_known: "is_known cfg k \<Longrightarrow> \<exists>c \<in> set (dkeys (sc_schema cfg)). canonical_name cfg k = PStr c"
proof -
  assume "is_known cfg k"
  then obtain c where c: "dget (build_alias_map cfg) (py_lower (key_text k)) = Some c"
    by (auto simp: is_known_def dhas_def)
  with alias_map_range [OF c] show ?thesis by (auto simp: canonical_name_def)
qed

lemma canonical_unknown: "\<not> is_known cfg k \<Longrightarrow> canonical_name cfg k = k"
  by (auto simp: is_known_def canonical_name_def dhas_def)

lemma unknown_not_field:
  "names_consistent cfg \<Longrightarrow> str_key k \<Longrightarrow> \<not> is_known cfg k \<Longrightarrow> c \<in> set (dkeys (sc_schema cfg)) \<Longrightarrow> k \<noteq> PStr c"
  by (auto simp: names_consistent_def is_known_def dhas_def key_text_def)

lemma resolve_step_get:
  assumes "names_consistent cfg" "str_key (fst kv)" "c \<in> set (dkeys (sc_schema cfg))"
  shows "dget (resolve_step cfg kv d) (PStr c) =
    (case dget d (PStr c) of Some v \<Rightarrow> Some v
     | None \<Rightarrow> if canonical_name cfg (fst kv) = PStr c then Some (snd kv) else None)"
proof (cases "is_known cfg (fst kv)")
  case True
  then show ?thesis by (auto simp: resolve_step_def dict_simps dhas_def split: option.splits)
next
  case False
  with assms unknown_not_field have "canonical_name cfg (fst kv) \<noteq> PStr c"
    by (metis canonical_unknown)
  with False show ?thesis by (auto simp: resolve_step_def dict_simps split: option.splits)
qed

lemma fold_resolve_get:
  assumes "names_consistent cfg" "c \<in> set (dkeys (sc_schema cfg))"
    and "\<forall>kv \<in> set data. str_key (fst kv)"
  shows "dget (fold (resolve_step cfg) data d) (PStr c) =
    (case dget d (PStr c) of Some v \<Rightarrow> Some v
     | None \<Rightarrow> map_option snd (List.find (\<lambda>kv. canonical_name cfg (fst kv) = PStr c) data))"
  using assms(3)
proof (induction data arbitrary: d)
  case Nil
  then show ?case by (auto split: option.splits)
next
  case (Cons kv data)
  then show ?case
    using resolve_step_get [OF assms(1) _ assms(2), of kv d] by (auto split: option.splits)
qed

text \<open>When several keys of the front matter name the same schema field, by alias or by
  case, the field gets the value of the first of them in dictionary order; the canonical
  spelling has no priority over an alias that precedes it.\<close>

theorem alias_first_entry_wins:
  assumes "names_consistent cfg" and "c \<in> set (dkeys (sc_schema cfg))"
    and "resolve_aliases cfg data = Inr r"
  shows "dget (rs_data r) (PStr c) =
    map_option snd (List.find (\<lambda>kv. canonical_name cfg (fst kv) = PStr c) data)"
  using resolve_aliases_data [OF assms(3)] fold_resolve_get [OF assms(1,2), of data "[]"] by simp

definition tags_config :: schema_config where
  "tags_config = \<lparr>sc_enabled = True, sc_mode = VM_lenient, sc_allow_extra = True,
     sc_schema = [(''tags'', (default_schema FT_string)\<lparr>fs_aliases := [''tag'']\<rparr>)]\<rparr>"

lemma tags_config_consistent: "names_consistent tags_config"
  unfolding names_consistent_def by code_simp

theorem alias_first_entry_wins_witness:
  "\<exists>r. resolve_aliases tags_config [(PStr ''tag'', PStr ''a''), (PStr ''tags'', PStr ''b'')] = Inr r \<and>
    dget (rs_data r) (PStr ''tags'') = Some (PStr ''a'') \<and> rs_conflicts r = []"
proof -
  let ?d = "[(PStr ''tag'', PStr ''a''), (PStr ''tags'', PStr ''b'')]"
  have run: "resolve_aliases tags_config ?d =
      Inr \<lparr>rs_data = [(PStr ''tags'', PStr ''a'')], rs_used = [(''tag'', ''tags'')], rs_conflicts = []\<rparr>"
    by code_simp
  have mem: "''tags'' \<in> set (dkeys (sc_schema tags_config))" by (simp add: tags_config_def)
  have "List.find (\<lambda>kv. canonical_name tags_config (fst kv) = PStr ''tags'') ?d
      = Some (PStr ''tag'', PStr ''a'')" by code_simp
  with alias_first_entry_wins [OF tags_config_consistent mem run] run show ?thesis by simp
qed

section \<open>Normal data\<close>

text \<open>
  The data of a successful validation: canonical distinct keys, every schema field either in
  its normal form or harmlessly absent, schema fields first in schema order, then the extra
  fields.
\<close>

definition is_extra :: "schema_config \<Rightarrow> pyval \<times> pyval \<Rightarrow> bool" where
  "is_extra cfg kv \<longleftrightarrow> \<not> dhas (sc_schema cfg) (key_text (fst kv))"

definition field_clean :: "pylib \<Rightarrow> frontmatter \<Rightarrow> string \<times> field_schema \<Rightarrow> bool" where
  "field_clean L d f \<longleftrightarrow>
     (case dget d (PStr (fst f)) of
        Some v \<Rightarrow> conforms L (snd f) v
      | None \<Rightarrow> fs_on_missing (snd f) = OM_ignore \<or>
                (fs_on_missing (snd f) = OM_suggest \<and> fs_default (snd f) = PNone))"

definition present_fields :: "frontmatter \<Rightarrow> (string, field_schema) dict \<Rightarrow> frontmatter" where
  "present_fields d fs = List.map_filter (\<lambda>f. map_option (Pair (PStr (fst f))) (dget d (PStr (fst f)))) fs"

definition normal_data :: "pylib \<Rightarrow> schema_config \<Rightarrow> frontmatter \<Rightarrow> bool" where
  "normal_data L cfg d \<longleftrightarrow>
     distinct (dkeys d) \<and>
     (\<forall>kv \<in> set d. str_key (fst kv) \<and> canonical_name cfg (fst kv) = fst kv) \<and>
     (\<forall>f \<in> set (sc_schema cfg). field_clean L d f) \<and>
     d = present_fields d (sc_schema cfg) @ filter (is_extra cfg) d \<and>
     (sc_allow_extra cfg \<or> filter (is_extra cfg) d = [])"

lemma map_filter_Cons: "List.map_filter h (x # xs) = (case h x of None \<Rightarrow> [] | Some y \<Rightarrow> [y]) @ List.map_filter h xs"
  by (simp split: option.split)

subsection \<open>The loops\<close>

lemma dset_snoc: "k \<notin> fst ` set d \<Longrightarrow> dset k v d = d @ [(k, v)]"
  by (simp add: dset_new dhas_iff)

lemma dkeys_map_filter:
  "fst ` set (List.map_filter (\<lambda>f. map_option (Pair (PStr (fst f))) (h f)) fs) \<subseteq> PStr ` fst ` set fs"
  by (induction fs) (auto simp: map_filter_Cons split: option.splits)

lemma extras_disjoint:
  assumes "fst ` set F \<subseteq> PStr ` fst ` set (sc_schema cfg)"
  shows "\<forall>kv \<in> set d. is_extra cfg kv \<longrightarrow> fst kv \<notin> fst ` set F"
proof (intro ballI impI notI)
  fix kv assume "is_extra cfg kv" "fst kv \<in> fst ` set F"
  with assms obtain n where "n \<in> fst ` set (sc_schema cfg)" "fst kv = PStr n" by blast
  with \<open>is_extra cfg kv\<close> show False by (simp add: is_extra_def key_text_def dhas_iff)
qed

lemma fold_extra:
  assumes "distinct (dkeys xs)" "\<forall>kv \<in> set xs. is_extra cfg kv \<longrightarrow> fst kv \<notin> fst ` set (vr_data st)"
  shows "sc_allow_extra cfg \<or> filter (is_extra cfg) xs = [] \<Longrightarrow>
    fold (validate_extra cfg) xs st = st\<lparr>vr_data := vr_data st @ filter (is_extra cfg) xs\<rparr>"
  using assms
proof (induction xs arbitrary: st)
  case Nil
  then show ?case by simp
next
  case (Cons kv xs)
  show ?case
  proof (cases "is_extra cfg kv")
    case True
    with Cons.prems have "validate_extra cfg kv st = st\<lparr>vr_data := vr_data st @ [kv]\<rparr>"
      by (auto simp: validate_extra_def is_extra_def dhas_iff dset_snoc)
    moreover have "\<forall>p \<in> set xs. is_extra cfg p \<longrightarrow>
        fst p \<notin> fst ` set (vr_data (st\<lparr>vr_data := vr_data st @ [kv]\<rparr>))"
    proof (intro ballI impI)
      fix p assume p: "p \<in> set xs" "is_extra cfg p"
      with Cons.prems have "fst p \<noteq> fst kv" "fst p \<notin> fst ` set (vr_data st)"
        by (auto simp: image_iff)
      then show "fst p \<notin> fst ` set (vr_data (st\<lparr>vr_data := vr_data st @ [kv]\<rparr>))" by auto
    qed
    ultimately show ?thesis
      using Cons.IH [of "st\<lparr>vr_data := vr_data st @ [kv]\<rparr>"] Cons.prems True by simp
  next
    case False
    then have "validate_extra cfg kv st = st" by (auto simp: validate_extra_def is_extra_def)
    with False Cons show ?thesis by auto
  qed
qed

lemma fold_extra_errors:
  "vr_errors (fold (validate_extra cfg) xs st) = [] \<Longrightarrow>
   distinct (dkeys xs) \<Longrightarrow> \<forall>kv \<in> set xs. is_extra cfg kv \<longrightarrow> fst kv \<notin> fst ` set (vr_data st) \<Longrightarrow>
   vr_errors st = [] \<and> (sc_allow_extra cfg \<or> filter (is_extra cfg) xs = [])"
proof (induction xs arbitrary: st)
  case Nil
  then show ?case by simp
next
  case (Cons kv xs)
  let ?s = "validate_extra cfg kv st"
  have sub: "fst ` set (vr_data ?s) \<subseteq> insert (fst kv) (fst ` set (vr_data st))"
    using set_dkeys_dset [of "fst kv" "snd kv" "vr_data st"]
    by (simp add: validate_extra_def add_error_def) auto
  have "\<forall>p \<in> set xs. is_extra cfg p \<longrightarrow> fst p \<notin> fst ` set (vr_data ?s)"
  proof (intro ballI impI)
    fix p assume p: "p \<in> set xs" "is_extra cfg p"
    with Cons.prems have "fst p \<noteq> fst kv" "fst p \<notin> fst ` set (vr_data st)"
      by (auto simp: image_iff)
    with sub show "fst p \<notin> fst ` set (vr_data ?s)" by blast
  qed
  with Cons.IH [of ?s] Cons.prems
  have "vr_errors ?s = [] \<and> (sc_allow_extra cfg \<or> filter (is_extra cfg) xs = [])" by simp
  moreover from this Cons.prems(3) have "vr_errors st = []" "is_extra cfg kv \<Longrightarrow> sc_allow_extra cfg"
    by (auto simp: validate_extra_def add_error_def is_extra_def dhas_iff split: if_splits)
  ultimately show ?case by auto
qed

lemma resolve_entry_canonical:
  assumes "str_key k" "canonical_name cfg k = k" "k \<notin> fst ` set (rs_data st)"
  shows "resolve_entry (build_alias_map cfg) (k, v) st = Inr (st\<lparr>rs_data := rs_data st @ [(k, v)]\<rparr>)"
  using assms
  by (auto simp: resolve_entry_def canonical_name_def key_text_def str_key_def dhas_iff dset_snoc Let_def
           split: option.splits)

lemma resolve_entries_canonical:
  assumes "\<forall>kv \<in> set d. str_key (fst kv) \<and> canonical_name cfg (fst kv) = fst kv"
    and "distinct (dkeys (rs_data st @ d))"
  shows "resolve_entries (build_alias_map cfg) d st = Inr (st\<lparr>rs_data := rs_data st @ d\<rparr>)"
  using assms
proof (induction d arbitrary: st)
  case Nil
  then show ?case by simp
next
  case (Cons kv d)
  have "resolve_entry (build_alias_map cfg) kv st = Inr (st\<lparr>rs_data := rs_data st @ [kv]\<rparr>)"
    using resolve_entry_canonical [of "fst kv" cfg st "snd kv"] Cons.prems by auto
  with Cons show ?case by simp
qed

lemma validate_field_clean:
  assumes "field_clean L d f" "PStr (fst f) \<notin> fst ` set (vr_data st)"
  shows "\<exists>st'. validate_field L g d f st = Inr st' \<and>
    vr_errors st' = vr_errors st \<and> vr_warnings st' = vr_warnings st \<and>
    vr_data st' = vr_data st @ present_fields d [f]"
proof (cases "dget d (PStr (fst f))")
  case None
  with assms(1) show ?thesis
    by (auto simp: field_clean_def validate_field_def validate_missing_def present_fields_def
        map_filter_Cons)
next
  case (Some v)
  with assms(1) have "coerce_value L v (snd f) = Inr (v, None)"
    by (simp add: field_clean_def coerce_value_fixpoint)
  with Some assms(2) show ?thesis
    by (simp add: validate_field_def validate_present_def put_data_def dset_snoc
        present_fields_def map_filter_Cons)
qed

lemma validate_fields_clean:
  assumes "\<forall>f \<in> set fs. field_clean L d f" "distinct (dkeys fs)"
    and "\<forall>f \<in> set fs. PStr (fst f) \<notin> fst ` set (vr_data st)"
  shows "\<exists>st'. validate_fields L g d fs st = Inr st' \<and>
    vr_errors st' = vr_errors st \<and> vr_warnings st' = vr_warnings st \<and>
    vr_data st' = vr_data st @ present_fields d fs"
  using assms
proof (induction fs arbitrary: st)
  case Nil
  then show ?case by (simp add: present_fields_def)
next
  case (Cons f fs)
  have f: "field_clean L d f" "PStr (fst f) \<notin> fst ` set (vr_data st)" using Cons.prems by simp_all
  obtain s1 where s1: "validate_field L g d f st = Inr s1" "vr_errors s1 = vr_errors st"
    "vr_warnings s1 = vr_warnings st" "vr_data s1 = vr_data st @ present_fields d [f]"
    using validate_field_clean [OF f, of g] by blast
  have "fst ` set (present_fields d [f]) \<subseteq> {PStr (fst f)}"
    by (auto simp: present_fields_def map_filter_Cons split: option.splits)
  then have sub: "fst ` set (vr_data s1) \<subseteq> insert (PStr (fst f)) (fst ` set (vr_data st))"
    by (auto simp: s1(4))
  have "\<forall>f' \<in> set fs. PStr (fst f') \<notin> fst ` set (vr_data s1)"
  proof
    fix f' assume "f' \<in> set fs"
    with Cons.prems have "fst f' \<noteq> fst f" "PStr (fst f') \<notin> fst ` set (vr_data st)"
      by (auto simp: image_iff)
    with sub show "PStr (fst f') \<notin> fst ` set (vr_data s1)" by auto
  qed
  moreover have "\<forall>f \<in> set fs. field_clean L d f" "distinct (dkeys fs)" using Cons.prems by simp_all
  ultimately obtain s2 where s2: "validate_fields L g d fs s1 = Inr s2"
    "vr_errors s2 = vr_errors s1" "vr_warnings s2 = vr_warnings s1"
    "vr_data s2 = vr_data s1 @ present_fields d fs"
    using Cons.IH [of s1] by blast
  have "present_fields d (f # fs) = present_fields d [f] @ present_fields d fs"
    by (simp only: present_fields_def map_filter_Cons) (simp split: option.split)
  with s1 s2 show ?case by simp
qed

lemma validate_normal_data:
  assumes "sc_enabled cfg" "names_consistent cfg" "normal_data L cfg d"
  shows "\<exists>r. validate L g cfg (Some d) = Inr r \<and> vr_valid r \<and> vr_errors r = [] \<and>
    vr_warnings r = [] \<and> vr_data r = d"
proof -
  from assms(3) have dist: "distinct (dkeys d)"
    and keys: "\<forall>kv \<in> set d. str_key (fst kv) \<and> canonical_name cfg (fst kv) = fst kv"
    and clean: "\<forall>f \<in> set (sc_schema cfg). field_clean L d f"
    and split: "present_fields d (sc_schema cfg) @ filter (is_extra cfg) d = d"
    and ext: "sc_allow_extra cfg \<or> filter (is_extra cfg) d = []"
    by (auto simp: normal_data_def)
  let ?st = "empty_result\<lparr>vr_warnings := []\<rparr>"
  have res: "resolve_aliases cfg d = Inr \<lparr>rs_data = d, rs_used = [], rs_conflicts = []\<rparr>"
    using resolve_entries_canonical [OF keys, of "\<lparr>rs_data = [], rs_used = [], rs_conflicts = []\<rparr>"] dist
    by (simp add: resolve_aliases_def)
  obtain st where st: "validate_fields L g d (sc_schema cfg) ?st = Inr st"
    "vr_errors st = []" "vr_warnings st = []" "vr_data st = present_fields d (sc_schema cfg)"
    using validate_fields_clean [OF clean, of ?st g] assms(2)
    by (auto simp: empty_result_def names_consistent_def)
  have "fst ` set (vr_data st) \<subseteq> PStr ` fst ` set (sc_schema cfg)"
    using dkeys_map_filter [of "\<lambda>f. dget d (PStr (fst f))" "sc_schema cfg"]
    by (simp only: st(4) present_fields_def)
  then have "\<forall>kv \<in> set d. is_extra cfg kv \<longrightarrow> fst kv \<notin> fst ` set (vr_data st)"
    by (rule extras_disjoint)
  from fold_extra [OF dist this ext]
  have "fold (validate_extra cfg) d st = st\<lparr>vr_data := d\<rparr>" by (simp add: st(4) split)
  with assms(1) res st show ?thesis
    by (auto simp: validate_def alias_warnings_def apply_mode_def Let_def
             split: validation_mode.splits)
qed

subsection \<open>Valid results are normal\<close>

definition resolved_ok :: "schema_config \<Rightarrow> frontmatter \<Rightarrow> bool" where
  "resolved_ok cfg d \<longleftrightarrow> distinct (dkeys d) \<and>
     (\<forall>k \<in> fst ` set d. str_key k \<and> canonical_name cfg k = k)"

lemma canonical_name_idem:
  assumes "names_consistent cfg" "str_key k"
  shows "str_key (canonical_name cfg k) \<and> canonical_name cfg (canonical_name cfg k) = canonical_name cfg k"
proof (cases "is_known cfg k")
  case True
  then obtain c where c: "c \<in> set (dkeys (sc_schema cfg))" "canonical_name cfg k = PStr c"
    using canonical_known by blast
  with assms(1) have "dget (build_alias_map cfg) (py_lower c) = Some c"
    by (auto simp: names_consistent_def)
  with c(2) show ?thesis by (simp add: str_key_def canonical_name_def [of cfg "PStr c"] key_text_def)
next
  case False
  with assms(2) show ?thesis by (simp add: canonical_unknown)
qed

lemma resolve_step_ok:
  assumes "names_consistent cfg" "str_key (fst kv)" "resolved_ok cfg d"
  shows "resolved_ok cfg (resolve_step cfg kv d)"
proof -
  let ?k = "canonical_name cfg (fst kv)"
  have "fst ` set (dset ?k (snd kv) d) = insert ?k (fst ` set d)"
    using set_dkeys_dset [of ?k "snd kv" d] by simp
  moreover have "distinct (dkeys (dset ?k (snd kv) d))"
    using assms(3) by (auto simp: resolved_ok_def intro: distinct_dkeys_dset)
  ultimately have "resolved_ok cfg (dset ?k (snd kv) d)"
    using assms(3) canonical_name_idem [OF assms(1,2)] by (simp add: resolved_ok_def)
  with assms(3) show ?thesis by (simp add: resolve_step_def)
qed

lemma set_dset_values: "snd ` set (dset k v d) \<subseteq> insert v (snd ` set d)"
  by (induction d) auto

lemma resolve_step_values: "snd ` set (resolve_step cfg kv d) \<subseteq> insert (snd kv) (snd ` set d)"
  using set_dset_values [of "canonical_name cfg (fst kv)" "snd kv" d]
  by (simp add: resolve_step_def subset_insertI)

lemma resolve_aliases_ok:
  assumes "names_consistent cfg" "resolve_aliases cfg data = Inr r"
  shows "resolved_ok cfg (rs_data r) \<and> snd ` set (rs_data r) \<subseteq> snd ` set data"
proof -
  have "\<forall>kv \<in> set xs. str_key (fst kv) \<Longrightarrow> resolved_ok cfg d \<Longrightarrow>
    resolved_ok cfg (fold (resolve_step cfg) xs d) \<and>
    snd ` set (fold (resolve_step cfg) xs d) \<subseteq> snd ` set xs \<union> snd ` set d" for xs d
  proof (induction xs arbitrary: d)
    case Nil
    then show ?case by simp
  next
    case (Cons kv xs)
    let ?d = "resolve_step cfg kv d"
    have "resolved_ok cfg ?d" using Cons.prems resolve_step_ok [OF assms(1)] by simp
    with Cons have "resolved_ok cfg (fold (resolve_step cfg) xs ?d)"
      "snd ` set (fold (resolve_step cfg) xs ?d) \<subseteq> snd ` set xs \<union> snd ` set ?d" by simp_all
    with resolve_step_values [of cfg kv d]
    have "snd ` set (fold (resolve_step cfg) xs ?d) \<subseteq> insert (snd kv) (snd ` set xs \<union> snd ` set d)"
      by blast
    with \<open>resolved_ok cfg (fold (resolve_step cfg) xs ?d)\<close> show ?case by simp
  qed
  from this [of data "[]"] resolve_aliases_data [OF assms(2)] show ?thesis
    by (simp add: resolved_ok_def)
qed

definition generators_canonical :: "pylib \<Rightarrow> valgen \<Rightarrow> bool" where
  "generators_canonical L g \<longleftrightarrow> (\<forall>n. uuid_text L (gen_uuid g n) \<and> datetime_text L (gen_now g n))"

definition defaults_conform :: "pylib \<Rightarrow> schema_config \<Rightarrow> bool" where
  "defaults_conform L cfg \<longleftrightarrow>
     (\<forall>f \<in> set (sc_schema cfg). fs_default (snd f) = PNone \<or> conforms L (snd f) (fs_default (snd f)))"

lemma auto_generate_conforms:
  "auto_generate g n sch = Inr v \<Longrightarrow> generators_canonical L g \<Longrightarrow> conforms L sch v"
  by (auto simp: auto_generate_def generators_canonical_def conforms_def split: if_splits)

lemma validate_field_effect:
  assumes run: "validate_field L g d f st = Inr st'" and ok: "vr_errors st' = []"
    and lib: "lib_canonical L" "generators_canonical L g" "\<forall>v \<in> snd ` set d. dates_canonical L v"
    and def: "fs_default (snd f) = PNone \<or> conforms L (snd f) (fs_default (snd f))"
    and new: "PStr (fst f) \<notin> fst ` set (vr_data st)"
  shows "vr_errors st = [] \<and>
    (vr_data st' = vr_data st \<and> field_clean L [] f \<or>
     (\<exists>c. vr_data st' = vr_data st @ [(PStr (fst f), c)] \<and> conforms L (snd f) c))"
proof (cases "dget d (PStr (fst f))")
  case (Some v)
  then have "dates_canonical L v" using lib(3) by (force dest: map_of_SomeD)
  with coerce_value_conforms [OF _ lib(1) this, of "snd f"] Some run ok new show ?thesis
    by (auto simp: validate_field_def validate_present_def put_data_def add_error_def
        add_warning_def dset_snoc Let_def split: sum.splits option.splits if_splits prod.splits)
next
  case None
  with run have st': "st' = validate_missing g (fst f) (snd f) st" by (simp add: validate_field_def)
  show ?thesis
  proof (cases "fs_on_missing (snd f)")
    case OM_auto
    with st' ok new auto_generate_conforms [OF _ lib(2)] show ?thesis
      by (auto simp: validate_missing_def put_data_def add_error_def dset_snoc split: sum.splits)
  next
    case OM_suggest
    with st' ok new def show ?thesis
      by (auto simp: validate_missing_def put_data_def dset_snoc field_clean_def Let_def split: if_splits)
  qed (use st' ok in \<open>auto simp: validate_missing_def add_error_def field_clean_def\<close>)
qed

lemma validate_field_keys:
  assumes "validate_field L g d f st = Inr st'"
  shows "fst ` set (vr_data st') \<subseteq> insert (PStr (fst f)) (fst ` set (vr_data st))"
proof -
  have "vr_data st' = vr_data st \<or> (\<exists>c. vr_data st' = dset (PStr (fst f)) c (vr_data st))"
    using assms
    by (auto simp: validate_field_def validate_present_def validate_missing_def put_data_def
        add_error_def add_warning_def Let_def
        split: option.splits sum.splits if_splits prod.splits on_missing.splits)
  then show ?thesis
  proof (elim disjE exE)
    fix c assume "vr_data st' = dset (PStr (fst f)) c (vr_data st)"
    with set_dkeys_dset [of "PStr (fst f)" c "vr_data st"] show ?thesis by simp
  qed (simp add: subset_insertI)
qed

lemma union_insert_trans: "A \<subseteq> B \<union> C \<Longrightarrow> B \<subseteq> insert k D \<Longrightarrow> A \<subseteq> D \<union> insert k C"
  by blast

lemma fst_images_disjoint:
  "\<forall>x \<in> set E. fst x \<notin> fst ` set F \<Longrightarrow> set (dkeys F) \<inter> set (dkeys E) = {}"
  by force

lemma validate_fields_keys:
  "validate_fields L g d fs st = Inr st' \<Longrightarrow>
   fst ` set (vr_data st') \<subseteq> fst ` set (vr_data st) \<union> PStr ` fst ` set fs"
proof (induction fs arbitrary: st)
  case Nil
  then show ?case by simp
next
  case (Cons f fs)
  then obtain s1 where s1: "validate_field L g d f st = Inr s1"
    and "validate_fields L g d fs s1 = Inr st'" by auto
  with Cons.IH
  have "fst ` set (vr_data st') \<subseteq> fst ` set (vr_data s1) \<union> PStr ` fst ` set fs" by blast
  from union_insert_trans [OF this validate_field_keys [OF s1]] show ?case by simp
qed

lemma map_filter_cong_set:
  "(\<And>x. x \<in> set xs \<Longrightarrow> h x = h' x) \<Longrightarrow> List.map_filter h xs = List.map_filter h' xs"
proof (induction xs)
  case Nil
  show ?case by simp
next
  case (Cons x xs)
  then have "List.map_filter h xs = List.map_filter h' xs" "h x = h' x" by simp_all
  then show ?case by (simp only: map_filter_Cons)
qed

lemma present_fields_other:
  assumes "n \<notin> fst ` set fs"
  shows "present_fields ((PStr n, c) # F) fs = present_fields F fs"
  unfolding present_fields_def
  by (rule map_filter_cong_set) (use assms in \<open>auto simp: image_iff\<close>)

lemma field_clean_other: "n \<noteq> fst f \<Longrightarrow> field_clean L ((PStr n, c) # F) f = field_clean L F f"
  by (simp add: field_clean_def)

lemma field_clean_absent:
  "field_clean L [] f \<Longrightarrow> PStr (fst f) \<notin> fst ` set F \<Longrightarrow> field_clean L F f"
  by (simp add: field_clean_def map_of_eq_None_iff [symmetric])

lemma validate_fields_effect:
  assumes "validate_fields L g d fs st = Inr st'" "vr_errors st' = []"
    and lib: "lib_canonical L" "generators_canonical L g" "\<forall>v \<in> snd ` set d. dates_canonical L v"
    and "\<forall>f \<in> set fs. fs_default (snd f) = PNone \<or> conforms L (snd f) (fs_default (snd f))"
    and "distinct (dkeys fs)" "\<forall>f \<in> set fs. PStr (fst f) \<notin> fst ` set (vr_data st)"
  shows "vr_errors st = [] \<and> (\<exists>F. vr_data st' = vr_data st @ F \<and> present_fields F fs = F \<and>
    (\<forall>f \<in> set fs. field_clean L F f))"
  using assms(1,2,6,7,8)
proof (induction fs arbitrary: st)
  case Nil
  then show ?case by (simp add: present_fields_def)
next
  case (Cons f fs)
  then obtain s1 where s1: "validate_field L g d f st = Inr s1"
    and rest: "validate_fields L g d fs s1 = Inr st'" by auto
  have fresh: "PStr (fst f) \<notin> fst ` set (vr_data st)" using Cons.prems by simp
  have upd: "vr_data s1 = vr_data st \<or> (\<exists>c. vr_data s1 = vr_data st @ [(PStr (fst f), c)])"
    using s1 fresh
    by (auto simp: validate_field_def validate_present_def validate_missing_def put_data_def
        add_error_def add_warning_def dset_snoc Let_def
        split: option.splits sum.splits if_splits prod.splits on_missing.splits)
  have "\<forall>f' \<in> set fs. PStr (fst f') \<notin> fst ` set (vr_data s1)"
  proof
    fix f' assume "f' \<in> set fs"
    with Cons.prems have "fst f' \<noteq> fst f" "PStr (fst f') \<notin> fst ` set (vr_data st)"
      by (auto simp: image_iff)
    with upd show "PStr (fst f') \<notin> fst ` set (vr_data s1)" by auto
  qed
  with Cons.IH [OF rest] Cons.prems obtain F where e1: "vr_errors s1 = []"
    and F: "vr_data st' = vr_data s1 @ F" "present_fields F fs = F" "\<forall>f \<in> set fs. field_clean L F f"
    by auto
  have keysF: "PStr (fst f) \<notin> fst ` set F"
    using dkeys_map_filter [of "\<lambda>f. dget F (PStr (fst f))" fs] F(2) Cons.prems(4)
    by (auto simp: present_fields_def)
  have nf: "fst f \<notin> fst ` set fs" using Cons.prems(4) by simp
  from validate_field_effect [OF s1 e1 lib _ fresh] Cons.prems(3)
  have e0: "vr_errors st = []" and
    eff: "vr_data s1 = vr_data st \<and> field_clean L [] f \<or>
     (\<exists>c. vr_data s1 = vr_data st @ [(PStr (fst f), c)] \<and> conforms L (snd f) c)" by auto
  from eff show ?case
  proof (elim disjE conjE exE)
    assume 1: "vr_data s1 = vr_data st" "field_clean L [] f"
    have "dget F (PStr (fst f)) = None" using keysF by (simp add: map_of_eq_None_iff)
    then have "present_fields F (f # fs) = F"
      using F(2) by (simp only: present_fields_def map_filter_Cons) simp
    moreover have "field_clean L F f" by (rule field_clean_absent [OF 1(2) keysF])
    ultimately show ?thesis using 1 F e0 by auto
  next
    fix c assume 2: "vr_data s1 = vr_data st @ [(PStr (fst f), c)]" "conforms L (snd f) c"
    let ?F = "(PStr (fst f), c) # F"
    have "present_fields ?F (f # fs) = (PStr (fst f), c) # present_fields ?F fs"
      by (simp only: present_fields_def map_filter_Cons) simp
    then have "present_fields ?F (f # fs) = ?F"
      by (simp add: present_fields_other [OF nf] F(2))
    moreover have "field_clean L ?F f" using 2(2) by (simp add: field_clean_def)
    moreover have "\<forall>f' \<in> set fs. field_clean L ?F f'"
    proof
      fix f' assume "f' \<in> set fs"
      moreover from this nf have "fst f \<noteq> fst f'" by force
      ultimately show "field_clean L ?F f'" using F(3) by (simp add: field_clean_other)
    qed
    ultimately show ?thesis using 2(1) F(1) e0
      by (intro conjI exI [of _ ?F]) simp_all
  qed
qed

lemma distinct_map_filter:
  assumes "distinct (dkeys fs)"
  shows "distinct (dkeys (List.map_filter (\<lambda>f. map_option (Pair (PStr (fst f))) (h f)) fs))"
  using assms
proof (induction fs)
  case Nil
  show ?case by simp
next
  case (Cons f fs)
  then have "PStr (fst f) \<notin> fst ` set (List.map_filter (\<lambda>f. map_option (Pair (PStr (fst f))) (h f)) fs)"
    using dkeys_map_filter [of h fs] by auto
  with Cons show ?case by (simp only: map_filter_Cons) (simp split: option.split)
qed

lemma distinct_map_filter_list: "distinct (map h xs) \<Longrightarrow> distinct (map h (filter P xs))"
  by (induction xs) auto

text \<open>Schema fields in normal form followed by resolved extra fields are normal data.\<close>

lemma normal_data_append:
  assumes "names_consistent cfg" "resolved_ok cfg d"
    and F: "present_fields F (sc_schema cfg) = F" "\<forall>f \<in> set (sc_schema cfg). field_clean L F f"
    and E: "E = filter (is_extra cfg) d" "sc_allow_extra cfg \<or> E = []"
  shows "normal_data L cfg (F @ E)"
proof -
  let ?S = "sc_schema cfg"
  have keysF: "fst ` set F \<subseteq> PStr ` fst ` set ?S"
    using dkeys_map_filter [of "\<lambda>f. dget F (PStr (fst f))" ?S] F(1) by (simp add: present_fields_def)
  have distF: "distinct (dkeys F)"
    using distinct_map_filter [of ?S "\<lambda>f. dget F (PStr (fst f))"] F(1) assms(1)
    by (simp add: present_fields_def names_consistent_def)
  have disj: "\<forall>kv \<in> set E. fst kv \<notin> fst ` set F"
    using extras_disjoint [OF keysF, of d] by (simp add: E(1))
  have distE: "distinct (dkeys E)" using assms(2) by (simp add: E(1) resolved_ok_def distinct_map_filter_list)
  have "set (dkeys F) \<inter> set (dkeys E) = {}" by (rule fst_images_disjoint [OF disj])
  with distE distF have dist: "distinct (dkeys (F @ E))" by (simp only: map_append distinct_append)
  have canonF: "str_key k \<and> canonical_name cfg k = k" if "k \<in> fst ` set F" for k
  proof -
    from that keysF obtain n where "n \<in> fst ` set ?S" "k = PStr n" by blast
    with assms(1) show ?thesis
      by (auto simp: str_key_def canonical_name_def key_text_def names_consistent_def)
  qed
  have canonE: "str_key k \<and> canonical_name cfg k = k" if "k \<in> fst ` set E" for k
    using that assms(2) by (auto simp: E(1) resolved_ok_def)
  have noE: "dget E (PStr n) = None" if "n \<in> fst ` set ?S" for n
  proof -
    have "PStr n \<notin> fst ` set E"
    proof
      assume "PStr n \<in> fst ` set E"
      then obtain kv where "kv \<in> set E" "fst kv = PStr n" by force
      then show False using that by (simp add: E(1) is_extra_def key_text_def dhas_iff)
    qed
    then show ?thesis by (simp only: map_of_eq_None_iff not_False_eq_True)
  qed
  have getD: "dget (F @ E) (PStr (fst f)) = dget F (PStr (fst f))" if "f \<in> set ?S" for f
    using noE [of "fst f"] that by (simp add: map_add_def split: option.split)
  have "present_fields (F @ E) ?S = present_fields F ?S"
    unfolding present_fields_def by (rule map_filter_cong_set) (simp only: getD)
  moreover have "filter (is_extra cfg) F = []"
    using extras_disjoint [OF keysF, of F] by (auto simp: filter_empty_conv)
  moreover have "filter (is_extra cfg) E = E" by (simp add: E(1))
  moreover have "\<forall>f \<in> set ?S. field_clean L (F @ E) f"
  proof
    fix f assume "f \<in> set ?S"
    with F(2) show "field_clean L (F @ E) f" by (simp only: field_clean_def getD)
  qed
  ultimately show ?thesis
    using dist canonF canonE E(2) F(1) unfolding normal_data_def
    by (intro conjI ballI) (simp_all, blast+)
qed

definition validate_inputs_ok :: "pylib \<Rightarrow> valgen \<Rightarrow> schema_config \<Rightarrow> frontmatter \<Rightarrow> bool" where
  "validate_inputs_ok L g cfg data \<longleftrightarrow>
     sc_enabled cfg \<and> sc_mode cfg \<noteq> VM_warn_only \<and> names_consistent cfg \<and> lib_canonical L \<and>
     generators_canonical L g \<and> defaults_conform L cfg \<and> (\<forall>v \<in> snd ` set data. dates_canonical L v)"

lemma validate_valid_normal:
  assumes "validate_inputs_ok L g cfg data" "validate L g cfg (Some data) = Inr r" "vr_valid r"
  shows "normal_data L cfg (vr_data r)"
proof -
  let ?S = "sc_schema cfg"
  from assms(1) have cfg: "sc_enabled cfg" "sc_mode cfg \<noteq> VM_warn_only" "names_consistent cfg"
    and lib: "lib_canonical L" "generators_canonical L g"
    and def: "\<forall>f \<in> set ?S. fs_default (snd f) = PNone \<or> conforms L (snd f) (fs_default (snd f))"
    and dates: "\<forall>v \<in> snd ` set data. dates_canonical L v"
    by (simp_all add: validate_inputs_ok_def defaults_conform_def)
  from assms(2) cfg(1) obtain q st where q: "resolve_aliases cfg data = Inr q"
    and st: "validate_fields L g (rs_data q) ?S (empty_result\<lparr>vr_warnings := alias_warnings q\<rparr>) = Inr st"
    and r: "r = apply_mode (sc_mode cfg) (fold (validate_extra cfg) (rs_data q) st)"
    by (auto simp: validate_def Let_def)
  have ok: "resolved_ok cfg (rs_data q)" and vals: "snd ` set (rs_data q) \<subseteq> snd ` set data"
    using resolve_aliases_ok [OF cfg(3) q] by auto
  have nd: "distinct (dkeys ?S)" using cfg(3) by (simp add: names_consistent_def)
  have data: "vr_data r = vr_data (fold (validate_extra cfg) (rs_data q) st)"
    and noerr: "vr_errors (fold (validate_extra cfg) (rs_data q) st) = []"
    using r assms(3) cfg(2) by (auto simp: apply_mode_def split: validation_mode.splits)
  have dist: "distinct (dkeys (rs_data q))" using ok by (simp add: resolved_ok_def)
  have "fst ` set (vr_data st) \<subseteq> PStr ` fst ` set ?S"
    using validate_fields_keys [OF st] by (simp add: empty_result_def)
  then have disj: "\<forall>kv \<in> set (rs_data q). is_extra cfg kv \<longrightarrow> fst kv \<notin> fst ` set (vr_data st)"
    by (rule extras_disjoint)
  from fold_extra_errors [OF noerr dist disj] have est: "vr_errors st = []"
    and ext: "sc_allow_extra cfg \<or> filter (is_extra cfg) (rs_data q) = []" by auto
  have "\<forall>v \<in> snd ` set (rs_data q). dates_canonical L v" using vals dates by blast
  from validate_fields_effect [OF st est lib this def nd] obtain F
    where F: "vr_data st = F" "present_fields F ?S = F" "\<forall>f \<in> set ?S. field_clean L F f"
    by (auto simp: empty_result_def)
  have "vr_data r = F @ filter (is_extra cfg) (rs_data q)"
    using fold_extra [OF dist disj ext] F(1) by (simp add: data)
  with normal_data_append [OF cfg(3) ok F(2,3) refl ext] show ?thesis by simp
qed


definition sample_gen :: valgen where
  "sample_gen = \<lparr>gen_uuid = (\<lambda>_. sample_uuid), gen_now = (\<lambda>_. ''2026-01-02T00:00:00'')\<rparr>"

definition note_config :: schema_config where
  "note_config = \<lparr>sc_enabled = True, sc_mode = VM_strict, sc_allow_extra = True,
     sc_schema = [(''id'', (default_schema FT_uuid)\<lparr>fs_on_missing := OM_auto\<rparr>),
                  (''rank'', (default_schema FT_int)\<lparr>fs_aliases := [''order'']\<rparr>)]\<rparr>"


section \<open>Exceptions\<close>

lemma validate_field_error:
  "validate_field L g d f st = Inl e \<Longrightarrow> e = OverflowError \<or> e = OtherError"
  by (auto simp: validate_field_def validate_present_def split: option.splits sum.splits if_splits
      dest!: coerce_value_error)

lemma validate_fields_error:
  "validate_fields L g d fs st = Inl e \<Longrightarrow> e = OverflowError \<or> e = OtherError"
  by (induction fs arbitrary: st) (auto simp: bind_result_Inl dest: validate_field_error)

lemma resolve_entries_error: "resolve_entries m d st = Inl e \<Longrightarrow> e = AttributeError"
  by (induction d arbitrary: st)
     (auto simp: bind_result_Inl resolve_entry_def Let_def split: pyval.splits option.splits if_splits)

lemma validate_error:
  "validate L g cfg fm = Inl e \<Longrightarrow> e \<in> {OverflowError, OtherError, AttributeError}"
  by (auto simp: validate_def Let_def bind_result_Inl resolve_aliases_def split: if_splits
      dest!: validate_fields_error resolve_entries_error)

end
