(* ===== verification/Vault_World.thy ===== *)
theory Vault_World
  imports Prelude Complex_Main
begin

text \<open>
  The world the vault operations run in: a file system, a monotonic clock, and an
  environment that may change the file system before every system call, make a call fail,
  or keep a lock busy.  An operation is a function from an environment and a world to a
  result (an exception or a value) and a new world.  Every system call is one tick; before
  it the environment's step runs, which sees the paths the operation owns at that moment
  (those whose lock it holds and its own temporary files).  The world keeps the log of the
  calls made, so that a property can speak of their order.
\<close>

section \<open>Paths\<close>

text \<open>An absolute path is the list of its components; a lexical path keeps its anchor.\<close>

type_synonym path = "string list"

record purepath =
  pp_abs :: bool
  pp_parts :: "string list"

definition path_components :: "string \<Rightarrow> string list" where
  "path_components s = filter (\<lambda>c. c \<noteq> [] \<and> c \<noteq> ''.'') (py_split ''/'' s)"

definition pure_path :: "string \<Rightarrow> purepath" where
  "pure_path s = \<lparr>pp_abs = starts_with s ''/'', pp_parts = path_components s\<rparr>"

definition path_str :: "path \<Rightarrow> string" where
  "path_str p = ''/'' @ py_join ''/'' p"

definition rel_str :: "path \<Rightarrow> string" where
  "rel_str p = (if p = [] then ''.'' else py_join ''/'' p)"

text \<open>\<open>os.path.splitext\<close> on one component: leading dots do not start a suffix.\<close>

definition split_ext :: "string \<Rightarrow> string \<times> string" where
  "split_ext n =
     (let root = rev (drop 1 (dropWhile (\<lambda>c. c \<noteq> CHR ''.'') (rev n))) in
      if CHR ''.'' \<in> set n \<and> (\<exists>c \<in> set root. c \<noteq> CHR ''.'')
      then (root, drop (length root) n) else (n, []))"

definition path_name :: "path \<Rightarrow> string" where
  "path_name p = (if p = [] then [] else last p)"

definition path_suffix :: "path \<Rightarrow> string" where
  "path_suffix p = snd (split_ext (path_name p))"

definition path_stem :: "path \<Rightarrow> string" where
  "path_stem p = fst (split_ext (path_name p))"

definition path_parent :: "path \<Rightarrow> path" where
  "path_parent p = butlast p"

definition with_stem :: "path \<Rightarrow> string \<Rightarrow> path" where
  "with_stem p stem = butlast p @ [stem @ path_suffix p]"

lemma split_ext_append: "fst (split_ext n) @ snd (split_ext n) = n"
proof -
  let ?r = "rev (drop 1 (dropWhile (\<lambda>c. c \<noteq> CHR ''.'') (rev n)))"
  have "rev n = takeWhile (\<lambda>c. c \<noteq> CHR ''.'') (rev n) @
      take 1 (dropWhile (\<lambda>c. c \<noteq> CHR ''.'') (rev n)) @ drop 1 (dropWhile (\<lambda>c. c \<noteq> CHR ''.'') (rev n))"
    by (simp del: One_nat_def)
  then have "n = rev (drop 1 (dropWhile (\<lambda>c. c \<noteq> CHR ''.'') (rev n))) @
      rev (take 1 (dropWhile (\<lambda>c. c \<noteq> CHR ''.'') (rev n))) @ rev (takeWhile (\<lambda>c. c \<noteq> CHR ''.'') (rev n))"
    by (metis rev_append rev_rev_ident append.assoc)
  then have "?r @ drop (length ?r) n = n" by (metis append_eq_conv_conj)
  then show ?thesis by (simp add: split_ext_def Let_def)
qed

section \<open>The file system\<close>

datatype fdata = Utf8 string | NotUtf8 nat

record regfile =
  f_inode :: nat
  f_mtime :: nat
  f_mode :: nat
  f_data :: fdata

text \<open>\<open>FileRevision\<close>: what a writer compares to detect a change.\<close>

record revision =
  rv_inode :: nat
  rv_mtime :: nat
  rv_size :: nat

text \<open>
  Regular files, directories (with their own revision) and the resolution of symbolic
  links, as a function from lexical to real paths.
\<close>

record fs =
  fs_files :: "path \<Rightarrow> regfile option"
  fs_dirs :: "path \<Rightarrow> revision option"
  fs_real :: "path \<Rightarrow> path"

definition data_size :: "fdata \<Rightarrow> nat" where
  "data_size d = (case d of Utf8 s \<Rightarrow> utf8_len s | NotUtf8 n \<Rightarrow> n)"

definition revision_of :: "regfile \<Rightarrow> revision" where
  "revision_of f = \<lparr>rv_inode = f_inode f, rv_mtime = f_mtime f, rv_size = data_size (f_data f)\<rparr>"

definition entry_revision :: "fs \<Rightarrow> path \<Rightarrow> revision option" where
  "entry_revision fs p =
     (case fs_files fs p of Some f \<Rightarrow> Some (revision_of f) | None \<Rightarrow> fs_dirs fs p)"

definition entry_exists :: "fs \<Rightarrow> path \<Rightarrow> bool" where
  "entry_exists fs p = (entry_revision fs p \<noteq> None)"

section \<open>The environment and the world\<close>

datatype flock_outcome = Granted | Busy | Broken

record env =
  e_step :: "nat \<Rightarrow> path list \<Rightarrow> fs \<Rightarrow> fs"
  e_fault :: "nat \<Rightarrow> pyexn option"
  e_delay :: "nat \<Rightarrow> rat"
  e_thread :: "nat \<Rightarrow> bool"
  e_flock :: "nat \<Rightarrow> flock_outcome"
  e_inode :: "nat \<Rightarrow> nat"
  e_mtime :: "nat \<Rightarrow> nat"
  e_random :: "nat \<Rightarrow> string"

datatype event =
    EvStat path "revision option"
  | EvRead path
  | EvWrite path string
  | EvReplace path path
  | EvSyncDir path
  | EvMove path path "regfile option"
  | EvLock path "regfile option"
  | EvUnlock path
  | EvIgnore string
  | EvCall "string list" string

record world =
  w_tick :: nat
  w_now :: rat
  w_fs :: fs
  w_own :: "path list"
  w_log :: "event list"

type_synonym 'a io = "env \<Rightarrow> world \<Rightarrow> 'a result \<times> world"

section \<open>Combinators\<close>

definition return_io :: "'a \<Rightarrow> 'a io" where
  "return_io x = (\<lambda>E w. (Inr x, w))"

definition raise_io :: "pyexn \<Rightarrow> 'a io" where
  "raise_io e = (\<lambda>E w. (Inl e, w))"

definition bind_io :: "'a io \<Rightarrow> ('a \<Rightarrow> 'b io) \<Rightarrow> 'b io" where
  "bind_io m f = (\<lambda>E w. case m E w of (Inl e, w') \<Rightarrow> (Inl e, w') | (Inr x, w') \<Rightarrow> f x E w')"

text \<open>\<open>try: m except ...: h\<close>; a handler that does not apply returns \<open>None\<close>.\<close>

definition catch_io :: "'a io \<Rightarrow> (pyexn \<Rightarrow> 'a io option) \<Rightarrow> 'a io" where
  "catch_io m h = (\<lambda>E w. case m E w of
      (Inl e, w') \<Rightarrow> (case h e of None \<Rightarrow> (Inl e, w') | Some m' \<Rightarrow> m' E w')
    | (Inr x, w') \<Rightarrow> (Inr x, w'))"

text \<open>\<open>try: m finally: f\<close>; an exception of \<open>f\<close> replaces the outcome of \<open>m\<close>.\<close>

definition finally_io :: "'a io \<Rightarrow> unit io \<Rightarrow> 'a io" where
  "finally_io m f = (\<lambda>E w. case m E w of (r, w') \<Rightarrow>
     (case f E w' of (Inl e, w'') \<Rightarrow> (Inl e, w'') | (Inr _, w'') \<Rightarrow> (r, w'')))"

definition lift_io :: "'a result \<Rightarrow> 'a io" where
  "lift_io r = (\<lambda>E w. (r, w))"

definition when_io :: "bool \<Rightarrow> unit io \<Rightarrow> unit io" where
  "when_io b m = (if b then m else return_io ())"

definition log_io :: "event \<Rightarrow> unit io" where
  "log_io e = (\<lambda>E w. (Inr (), w\<lparr>w_log := w_log w @ [e]\<rparr>))"

text \<open>The world a system call starts in: one tick, some time and one environment step later.\<close>

definition tick :: "env \<Rightarrow> world \<Rightarrow> world" where
  "tick E w = w\<lparr>w_tick := Suc (w_tick w), w_now := w_now w + e_delay E (w_tick w),
                w_fs := e_step E (w_tick w) (w_own w) (w_fs w)\<rparr>"

text \<open>A call that may fail with the environment's fault, and one that cannot fail.\<close>

definition syscall :: "(env \<Rightarrow> world \<Rightarrow> 'a result \<times> world) \<Rightarrow> 'a io" where
  "syscall act = (\<lambda>E w. case e_fault E (w_tick w) of
      Some e \<Rightarrow> (Inl e, tick E w)
    | None \<Rightarrow> act E (tick E w))"

definition sure_call :: "(env \<Rightarrow> world \<Rightarrow> 'a \<times> world) \<Rightarrow> 'a io" where
  "sure_call act = (\<lambda>E w. case act E (tick E w) of (x, w') \<Rightarrow> (Inr x, w'))"

section \<open>System calls\<close>

definition now_io :: "rat io" where
  "now_io = sure_call (\<lambda>E w. (w_now w, w))"

definition sleep_io :: "rat \<Rightarrow> unit io" where
  "sleep_io d = sure_call (\<lambda>E w. ((), w\<lparr>w_now := w_now w + d\<rparr>))"

definition random_io :: "string io" where
  "random_io = sure_call (\<lambda>E w. (e_random E (w_tick w), w))"

text \<open>\<open>Path.resolve(strict=False)\<close>, \<open>Path.resolve(strict=True)\<close>, \<open>Path.exists()\<close>.\<close>

definition resolve_io :: "path \<Rightarrow> path io" where
  "resolve_io p = sure_call (\<lambda>E w. (fs_real (w_fs w) p, w))"

definition resolve_strict_io :: "path \<Rightarrow> path io" where
  "resolve_strict_io p = syscall (\<lambda>E w.
     (if entry_exists (w_fs w) (fs_real (w_fs w) p) then Inr (fs_real (w_fs w) p)
      else Inl FileNotFoundError, w))"

definition exists_io :: "path \<Rightarrow> bool io" where
  "exists_io p = (\<lambda>E w. case e_fault E (w_tick w) of
      Some _ \<Rightarrow> (Inr False, tick E w)
    | None \<Rightarrow> (Inr (entry_exists (w_fs (tick E w)) (fs_real (w_fs (tick E w)) p)), tick E w))"

text \<open>\<open>Path.stat()\<close>, reduced to the revision and, in a second call, the permission bits.\<close>

definition stat_io :: "path \<Rightarrow> revision io" where
  "stat_io p = syscall (\<lambda>E w.
     (case entry_revision (w_fs w) (fs_real (w_fs w) p) of
        None \<Rightarrow> (Inl FileNotFoundError, w\<lparr>w_log := w_log w @ [EvStat p None]\<rparr>)
      | Some r \<Rightarrow> (Inr r, w\<lparr>w_log := w_log w @ [EvStat p (Some r)]\<rparr>)))"

definition mode_io :: "path \<Rightarrow> nat io" where
  "mode_io p = syscall (\<lambda>E w.
     (case fs_files (w_fs w) (fs_real (w_fs w) p) of
        Some f \<Rightarrow> Inr (f_mode f)
      | None \<Rightarrow> if entry_exists (w_fs w) (fs_real (w_fs w) p) then Inr 493
                else Inl FileNotFoundError, w))"

text \<open>\<open>Path.read_text(encoding="utf-8")\<close>: universal newlines.\<close>

fun universal_newlines :: "string \<Rightarrow> string" where
  "universal_newlines [] = []"
| "universal_newlines (c # cs) =
     (if c = CHR 0x0D then
        CHR 0x0A # (case cs of [] \<Rightarrow> [] | d # ds \<Rightarrow>
          if d = CHR 0x0A then universal_newlines ds else universal_newlines cs)
      else c # universal_newlines cs)"

definition read_text_io :: "path \<Rightarrow> string io" where
  "read_text_io p = syscall (\<lambda>E w.
     (case fs_files (w_fs w) (fs_real (w_fs w) p) of
        None \<Rightarrow> Inl (if entry_exists (w_fs w) (fs_real (w_fs w) p) then OSError else FileNotFoundError)
      | Some f \<Rightarrow> (case f_data f of Utf8 s \<Rightarrow> Inr (universal_newlines s)
                                  | NotUtf8 _ \<Rightarrow> Inl UnicodeDecodeError),
      w\<lparr>w_log := w_log w @ [EvRead p]\<rparr>))"

text \<open>\<open>mkdir(parents=True, exist_ok=True)\<close>: fails on a file in the way.\<close>

definition make_dirs :: "nat \<Rightarrow> nat \<Rightarrow> path \<Rightarrow> fs \<Rightarrow> fs" where
  "make_dirs ino mt p fs = fs\<lparr>fs_dirs := (\<lambda>q. if prefix q p \<and> fs_dirs fs q = None
      then Some \<lparr>rv_inode = ino + length q, rv_mtime = mt, rv_size = 0\<rparr> else fs_dirs fs q)\<rparr>"

definition mkdir_io :: "path \<Rightarrow> unit io" where
  "mkdir_io p = syscall (\<lambda>E w.
     if \<exists>q \<in> set (prefixes p). fs_files (w_fs w) q \<noteq> None then (Inl OSError, w)
     else (Inr (), w\<lparr>w_fs := make_dirs (e_inode E (w_tick w)) (e_mtime E (w_tick w)) p (w_fs w)\<rparr>))"

text \<open>
  \<open>NamedTemporaryFile\<close>: a fresh file in a directory, owned until it is renamed or given
  up; then the write with \<open>flush\<close> and \<open>fsync\<close>, in one call.
\<close>

definition create_temp_io :: "path \<Rightarrow> string \<Rightarrow> string \<Rightarrow> path io" where
  "create_temp_io dir pre suf = syscall (\<lambda>E w.
     (let p = dir @ [pre @ e_random E (w_tick w) @ suf] in
      if fs_dirs (w_fs w) dir = None then (Inl FileNotFoundError, w)
      else if entry_exists (w_fs w) p then (Inl OSError, w)
      else (Inr p, w\<lparr>w_own := p # w_own w,
              w_fs := (w_fs w)\<lparr>fs_files := (fs_files (w_fs w))(p \<mapsto>
                \<lparr>f_inode = e_inode E (w_tick w), f_mtime = e_mtime E (w_tick w), f_mode = 384,
                 f_data = Utf8 []\<rparr>)\<rparr>\<rparr>)))"

definition write_sync_io :: "path \<Rightarrow> string \<Rightarrow> unit io" where
  "write_sync_io p s = syscall (\<lambda>E w.
     (case fs_files (w_fs w) p of
        None \<Rightarrow> (Inr (), w\<lparr>w_log := w_log w @ [EvWrite p s]\<rparr>)
      | Some f \<Rightarrow> (Inr (), w\<lparr>w_fs := (w_fs w)\<lparr>fs_files := (fs_files (w_fs w))(p \<mapsto>
            f\<lparr>f_data := Utf8 s, f_mtime := e_mtime E (w_tick w)\<rparr>)\<rparr>,
          w_log := w_log w @ [EvWrite p s]\<rparr>)))"

definition chmod_io :: "path \<Rightarrow> nat \<Rightarrow> unit io" where
  "chmod_io p m = syscall (\<lambda>E w.
     (case fs_files (w_fs w) p of
        None \<Rightarrow> (Inl FileNotFoundError, w)
      | Some f \<Rightarrow> (Inr (), w\<lparr>w_fs := (w_fs w)\<lparr>fs_files := (fs_files (w_fs w))(p \<mapsto> f\<lparr>f_mode := m\<rparr>)\<rparr>\<rparr>)))"

text \<open>\<open>os.replace(src, dst)\<close> of a regular file; a directory cannot be replaced by one.\<close>

definition rename_file :: "path \<Rightarrow> path \<Rightarrow> regfile \<Rightarrow> fs \<Rightarrow> fs" where
  "rename_file src dst f fs = fs\<lparr>fs_files := (fs_files fs)(src := None, dst := Some f)\<rparr>"

definition replace_io :: "path \<Rightarrow> path \<Rightarrow> unit io" where
  "replace_io src dst = syscall (\<lambda>E w.
     (case fs_files (w_fs w) src of
        None \<Rightarrow> (Inl FileNotFoundError, w)
      | Some f \<Rightarrow> if fs_dirs (w_fs w) dst \<noteq> None then (Inl OSError, w)
          else if fs_dirs (w_fs w) (path_parent dst) = None then (Inl FileNotFoundError, w)
          else (Inr (), w\<lparr>w_fs := rename_file src dst f (w_fs w),
                          w_log := w_log w @ [EvReplace src dst]\<rparr>)))"

definition sync_dir_io :: "path \<Rightarrow> unit io" where
  "sync_dir_io p = syscall (\<lambda>E w. (Inr (), w\<lparr>w_log := w_log w @ [EvSyncDir p]\<rparr>))"

text \<open>\<open>os.unlink\<close>.\<close>

definition unlink_io :: "path \<Rightarrow> unit io" where
  "unlink_io p = syscall (\<lambda>E w.
     (case fs_files (w_fs w) p of
        None \<Rightarrow> (Inl FileNotFoundError, w)
      | Some _ \<Rightarrow> (Inr (), w\<lparr>w_fs := (w_fs w)\<lparr>fs_files := (fs_files (w_fs w))(p := None)\<rparr>\<rparr>)))"

text \<open>Ending the ownership of a temporary file.\<close>

definition disown_io :: "path \<Rightarrow> unit io" where
  "disown_io p = (\<lambda>E w. (Inr (), w\<lparr>w_own := remove1 p (w_own w)\<rparr>))"

section \<open>Runs\<close>

lemma bind_run_Inr:
  "bind_io m f E w = (Inr y, w') \<longleftrightarrow> (\<exists>x w1. m E w = (Inr x, w1) \<and> f x E w1 = (Inr y, w'))"
  by (auto simp: bind_io_def split: prod.splits sum.splits)

lemma bind_run_Inl:
  "bind_io m f E w = (Inl e, w') \<longleftrightarrow> m E w = (Inl e, w') \<or>
     (\<exists>x w1. m E w = (Inr x, w1) \<and> f x E w1 = (Inl e, w'))"
  by (auto simp: bind_io_def split: prod.splits sum.splits)

lemma catch_run:
  "catch_io m h E w = (r, w') \<longleftrightarrow>
     (\<exists>x. m E w = (Inr x, w') \<and> r = Inr x) \<or>
     (\<exists>e w1. m E w = (Inl e, w1) \<and>
        (case h e of None \<Rightarrow> r = Inl e \<and> w' = w1 | Some m' \<Rightarrow> m' E w1 = (r, w')))"
  by (auto simp: catch_io_def split: prod.splits sum.splits option.splits)

lemma basic_run:
  "return_io x E w = (r, w') \<longleftrightarrow> r = Inr x \<and> w' = w"
  "raise_io e E w = (s, w') \<longleftrightarrow> s = Inl e \<and> w' = w"
  "lift_io t E w = (s', w') \<longleftrightarrow> s' = t \<and> w' = w"
  by (auto simp: return_io_def raise_io_def lift_io_def)

lemma finally_run_Inr:
  "finally_io m f E w = (Inr x, w') \<longleftrightarrow> (\<exists>w1. m E w = (Inr x, w1) \<and> f E w1 = (Inr (), w'))"
  by (cases "m E w") (auto simp: finally_io_def split: prod.splits sum.splits)

lemma finally_run_Inl:
  "finally_io m f E w = (Inl e, w') \<longleftrightarrow>
     (\<exists>r w1. m E w = (r, w1) \<and> (f E w1 = (Inl e, w') \<or> r = Inl e \<and> f E w1 = (Inr (), w')))"
  by (cases "m E w") (auto simp: finally_io_def split: prod.splits sum.splits)

lemmas io_runs = bind_run_Inr bind_run_Inl catch_run basic_run finally_run_Inr finally_run_Inl

section \<open>Triples\<close>

text \<open>
  From every world with the precondition, the operation ends in a result and world with the
  postcondition.  The rules follow the structure of the operation; the ones for system calls
  split on the environment's fault.
\<close>

definition triple :: "env \<Rightarrow> (world \<Rightarrow> bool) \<Rightarrow> 'a io \<Rightarrow> ('a result \<Rightarrow> world \<Rightarrow> bool) \<Rightarrow> bool" where
  "triple E P m Q \<longleftrightarrow> (\<forall>w. P w \<longrightarrow> Q (fst (m E w)) (snd (m E w)))"

lemma triple_apply: "triple E P m Q \<Longrightarrow> P w \<Longrightarrow> m E w = (r, w') \<Longrightarrow> Q r w'"
  by (force simp: triple_def)

lemma tripleI: "(\<And>w r w'. P w \<Longrightarrow> m E w = (r, w') \<Longrightarrow> Q r w') \<Longrightarrow> triple E P m Q"
  by (simp add: triple_def)

lemma triple_weaken:
  "triple E P m Q \<Longrightarrow> (\<And>w. P' w \<Longrightarrow> P w) \<Longrightarrow> (\<And>r w. Q r w \<Longrightarrow> Q' r w) \<Longrightarrow> triple E P' m Q'"
  by (simp add: triple_def)

lemma triple_pre: "triple E P m Q \<Longrightarrow> (\<And>w. P' w \<Longrightarrow> P w) \<Longrightarrow> triple E P' m Q"
  by (simp add: triple_def)

lemma triple_conj: "triple E P m Q \<Longrightarrow> triple E P m Q' \<Longrightarrow> triple E P m (\<lambda>r w. Q r w \<and> Q' r w)"
  by (simp add: triple_def)

lemma triple_return: "(\<And>w. P w \<Longrightarrow> Q (Inr x) w) \<Longrightarrow> triple E P (return_io x) Q"
  by (simp add: triple_def return_io_def)

lemma triple_raise: "(\<And>w. P w \<Longrightarrow> Q (Inl e) w) \<Longrightarrow> triple E P (raise_io e) Q"
  by (simp add: triple_def raise_io_def)

lemma triple_lift: "(\<And>w. P w \<Longrightarrow> Q r w) \<Longrightarrow> triple E P (lift_io r) Q"
  by (simp add: triple_def lift_io_def)

lemma triple_bind:
  "triple E P m (\<lambda>r w. case r of Inl e \<Rightarrow> Q (Inl e) w | Inr x \<Rightarrow> R x w) \<Longrightarrow>
   (\<And>x. triple E (R x) (f x) Q) \<Longrightarrow> triple E P (bind_io m f) Q"
  by (fastforce simp: triple_def bind_io_def split: prod.splits sum.splits)

lemma triple_catch:
  "triple E P m (\<lambda>r w. case r of Inr x \<Rightarrow> Q (Inr x) w
      | Inl e \<Rightarrow> (case h e of None \<Rightarrow> Q (Inl e) w | Some m' \<Rightarrow> R e w)) \<Longrightarrow>
   (\<And>e m'. h e = Some m' \<Longrightarrow> triple E (R e) m' Q) \<Longrightarrow> triple E P (catch_io m h) Q"
  by (fastforce simp: triple_def catch_io_def split: prod.splits sum.splits option.splits)

lemma triple_finally:
  "triple E P m R \<Longrightarrow>
   (\<And>r. triple E (R r) f (\<lambda>r' w. case r' of Inl e \<Rightarrow> Q (Inl e) w | Inr _ \<Rightarrow> Q r w)) \<Longrightarrow>
   triple E P (finally_io m f) Q"
  by (fastforce simp: triple_def finally_io_def split: prod.splits sum.splits)

lemma triple_if:
  "(b \<Longrightarrow> triple E P m Q) \<Longrightarrow> (\<not> b \<Longrightarrow> triple E P m' Q) \<Longrightarrow> triple E P (if b then m else m') Q"
  by simp

lemma triple_when:
  "(b \<Longrightarrow> triple E P m Q) \<Longrightarrow> (\<And>w. \<not> b \<Longrightarrow> P w \<Longrightarrow> Q (Inr ()) w) \<Longrightarrow> triple E P (when_io b m) Q"
  by (simp add: when_io_def triple_return)

lemma triple_option:
  "(x = None \<Longrightarrow> triple E P m Q) \<Longrightarrow> (\<And>y. x = Some y \<Longrightarrow> triple E P (f y) Q) \<Longrightarrow>
   triple E P (case x of None \<Rightarrow> m | Some y \<Rightarrow> f y) Q"
  by (simp split: option.split)

lemma triple_syscall:
  assumes "\<And>w e. P w \<Longrightarrow> e_fault E (w_tick w) = Some e \<Longrightarrow> Q (Inl e) (tick E w)"
    and "\<And>w. P w \<Longrightarrow> Q (fst (act E (tick E w))) (snd (act E (tick E w)))"
  shows "triple E P (syscall act) Q"
  using assms by (simp add: triple_def syscall_def split: option.split)

lemma triple_sure_call:
  assumes "\<And>w. P w \<Longrightarrow> Q (Inr (fst (act E (tick E w)))) (snd (act E (tick E w)))"
  shows "triple E P (sure_call act) Q"
  using assms by (simp add: triple_def sure_call_def case_prod_beta)

text \<open>A state predicate an operation keeps, whatever its result.\<close>

definition keeps :: "env \<Rightarrow> (world \<Rightarrow> bool) \<Rightarrow> 'a io \<Rightarrow> bool" where
  "keeps E P m \<longleftrightarrow> triple E P m (\<lambda>_. P)"

lemma keeps_run: "keeps E P m \<Longrightarrow> m E w = (r, w') \<Longrightarrow> P w \<Longrightarrow> P w'"
  unfolding keeps_def by (rule triple_apply)

lemma keepsI: "(\<And>w r w'. P w \<Longrightarrow> m E w = (r, w') \<Longrightarrow> P w') \<Longrightarrow> keeps E P m"
  unfolding keeps_def by (rule tripleI)

lemma keeps_return [intro!]: "keeps E P (return_io x)" "keeps E P (raise_io e)" "keeps E P (lift_io r)"
  by (simp_all add: keeps_def triple_return triple_raise triple_lift)

lemma keeps_bind [intro!]: "keeps E P m \<Longrightarrow> (\<And>x. keeps E P (f x)) \<Longrightarrow> keeps E P (bind_io m f)"
  unfolding keeps_def by (rule triple_bind [where R = "\<lambda>_. P"]) (auto simp: triple_def split: sum.splits)

lemma keeps_catch [intro!]:
  "keeps E P m \<Longrightarrow> (\<And>e m'. h e = Some m' \<Longrightarrow> keeps E P m') \<Longrightarrow> keeps E P (catch_io m h)"
  unfolding keeps_def
  by (rule triple_catch [where R = "\<lambda>_. P"]) (auto simp: triple_def split: sum.splits option.splits)

lemma keeps_finally [intro!]: "keeps E P m \<Longrightarrow> keeps E P f \<Longrightarrow> keeps E P (finally_io m f)"
  unfolding keeps_def
  by (rule triple_finally [where R = "\<lambda>_. P"]) (auto simp: triple_def split: sum.splits)

lemma keeps_when [intro!]: "(b \<Longrightarrow> keeps E P m) \<Longrightarrow> keeps E P (when_io b m)"
  by (auto simp: when_io_def)

lemma keeps_cases [intro!]:
  "(b \<Longrightarrow> keeps E P m) \<Longrightarrow> (\<not> b \<Longrightarrow> keeps E P m') \<Longrightarrow> keeps E P (if b then m else m')"
  "(x = None \<Longrightarrow> keeps E P n) \<Longrightarrow> (\<And>y. x = Some y \<Longrightarrow> keeps E P (f y)) \<Longrightarrow>
   keeps E P (case x of None \<Rightarrow> n | Some y \<Rightarrow> f y)"
  "(\<And>u. s = Inl u \<Longrightarrow> keeps E P (g u)) \<Longrightarrow> (\<And>v. s = Inr v \<Longrightarrow> keeps E P (h v)) \<Longrightarrow>
   keeps E P (case s of Inl u \<Rightarrow> g u | Inr v \<Rightarrow> h v)"
  by (auto split: option.split sum.split)

section \<open>Cooperation\<close>

text \<open>
  A cooperative environment leaves alone the entries an operation owns (other writers of the
  vault take the same advisory locks, and nobody else touches a fresh temporary file), and
  does not rearrange symbolic links while the operation runs.  The faults of the system
  calls are \<open>OSError\<close>s; that an entry is missing is reported only when it is.
\<close>

definition cooperative :: "env \<Rightarrow> bool" where
  "cooperative E \<longleftrightarrow> (\<forall>t own fs.
     fs_real (e_step E t own fs) = fs_real fs \<and>
     (\<forall>p \<in> set own. fs_files (e_step E t own fs) p = fs_files fs p \<and>
                    fs_dirs (e_step E t own fs) p = fs_dirs fs p))"

definition os_faults :: "env \<Rightarrow> bool" where
  "os_faults E \<longleftrightarrow> (\<forall>t e. e_fault E t = Some e \<longrightarrow>
     isinstance e C_OSError \<and> \<not> isinstance e C_FileNotFoundError \<and> \<not> isinstance e C_TimeoutError)"

text \<open>The operation owns \<open>p\<close>, a real path, whose entry is \<open>c\<close>; symbolic links resolve by \<open>rl\<close>.\<close>

definition locked :: "(path \<Rightarrow> path) \<Rightarrow> path \<Rightarrow> regfile option \<times> revision option \<Rightarrow> world \<Rightarrow> bool" where
  "locked rl p c w \<longleftrightarrow> p \<in> set (w_own w) \<and> fs_real (w_fs w) = rl \<and> rl p = p \<and>
     fs_files (w_fs w) p = fst c \<and> fs_dirs (w_fs w) p = snd c"

lemma tick_simps [simp]:
  "w_own (tick E w) = w_own w" "w_log (tick E w) = w_log w" "w_tick (tick E w) = Suc (w_tick w)"
  by (simp_all add: tick_def)

lemma locked_tick: "cooperative E \<Longrightarrow> locked rl p c w \<Longrightarrow> locked rl p c (tick E w)"
  by (simp add: locked_def tick_def cooperative_def)

lemma locked_updates [simp]:
  "locked rl p c (w\<lparr>w_log := l\<rparr>) = locked rl p c w"
  "locked rl p c (w\<lparr>w_now := d\<rparr>) = locked rl p c w"
  by (simp_all add: locked_def)

lemma locked_keeps [intro!]:
  assumes "cooperative E"
  shows "keeps E (locked rl p c) now_io" "keeps E (locked rl p c) (sleep_io d)"
    "keeps E (locked rl p c) random_io" "keeps E (locked rl p c) (resolve_io q)"
    "keeps E (locked rl p c) (resolve_strict_io q)" "keeps E (locked rl p c) (exists_io q)"
    "keeps E (locked rl p c) (stat_io q)" "keeps E (locked rl p c) (mode_io q)"
    "keeps E (locked rl p c) (read_text_io q)" "keeps E (locked rl p c) (sync_dir_io q)"
    "keeps E (locked rl p c) (log_io ev)"
  using assms
  by (auto simp: keeps_def triple_def now_io_def sleep_io_def random_io_def resolve_io_def
      resolve_strict_io_def exists_io_def stat_io_def mode_io_def read_text_io_def sync_dir_io_def
      log_io_def syscall_def sure_call_def locked_tick split: option.splits)

lemma locked_mkdir [intro!]:
  assumes "cooperative E" "\<not> prefix p q"
  shows "keeps E (locked rl p c) (mkdir_io q)"
  unfolding keeps_def mkdir_io_def
proof (rule triple_syscall)
  show "locked rl p c (tick E w)" if "locked rl p c w" for w
    using that by (rule locked_tick [OF assms(1)])
  fix w assume "locked rl p c w"
  then have "locked rl p c (tick E w)" by (rule locked_tick [OF assms(1)])
  with assms(2) show "locked rl p c (snd (if \<exists>q' \<in> set (prefixes q). fs_files (w_fs (tick E w)) q' \<noteq> None
      then (Inl OSError, tick E w)
      else (Inr (), (tick E w)\<lparr>w_fs := make_dirs (e_inode E (w_tick (tick E w)))
        (e_mtime E (w_tick (tick E w))) q (w_fs (tick E w))\<rparr>)))"
    by (simp add: locked_def make_dirs_def)
qed

lemma locked_replace_other [intro!]:
  assumes "cooperative E" "p \<noteq> src" "p \<noteq> dst"
  shows "keeps E (locked rl p c) (replace_io src dst)"
  unfolding keeps_def replace_io_def
proof (rule triple_syscall)
  fix w assume "locked rl p c w"
  then have "locked rl p c (tick E w)" by (rule locked_tick [OF assms(1)])
  with assms(2,3) show "locked rl p c (snd (case fs_files (w_fs (tick E w)) src of
      None \<Rightarrow> (Inl FileNotFoundError, tick E w)
    | Some f \<Rightarrow> if fs_dirs (w_fs (tick E w)) dst \<noteq> None then (Inl OSError, tick E w)
        else if fs_dirs (w_fs (tick E w)) (path_parent dst) = None
        then (Inl FileNotFoundError, tick E w)
        else (Inr (), (tick E w)\<lparr>w_fs := rename_file src dst f (w_fs (tick E w)),
               w_log := w_log (tick E w) @ [EvReplace src dst]\<rparr>)))"
    by (auto simp: locked_def rename_file_def split: option.split)
qed (rule locked_tick [OF assms(1)])

subsection \<open>Exceptions an operation can raise\<close>

definition raises :: "env \<Rightarrow> (pyexn \<Rightarrow> bool) \<Rightarrow> 'a io \<Rightarrow> bool" where
  "raises E S m \<longleftrightarrow> (\<forall>w e w'. m E w = (Inl e, w') \<longrightarrow> S e)"

definition os_or_value :: "pyexn \<Rightarrow> bool" where
  "os_or_value e \<longleftrightarrow> (isinstance e C_OSError \<or> isinstance e C_ValueError) \<and> \<not> isinstance e C_TimeoutError"

lemma raises_D: "raises E S m \<Longrightarrow> m E w = (Inl e, w') \<Longrightarrow> S e"
  by (auto simp: raises_def)

lemma raises_basic [intro!]:
  "raises E S (return_io x)" "S e \<Longrightarrow> raises E S (raise_io e)"
  "(\<And>e. r = Inl e \<Longrightarrow> S e) \<Longrightarrow> raises E S (lift_io r)" "raises E S (sure_call act)"
  by (auto simp: raises_def return_io_def raise_io_def lift_io_def sure_call_def split: prod.splits)

lemma raises_bind [intro!]: "raises E S m \<Longrightarrow> (\<And>x. raises E S (f x)) \<Longrightarrow> raises E S (bind_io m f)"
  by (auto simp: raises_def bind_io_def split: prod.splits sum.splits)

lemma raises_catch:
  "raises E S' m \<Longrightarrow> (\<And>e. S' e \<Longrightarrow> case h e of None \<Rightarrow> S e | Some m' \<Rightarrow> raises E S m') \<Longrightarrow>
   raises E S (catch_io m h)"
  by (fastforce simp: raises_def catch_io_def split: prod.splits sum.splits option.splits)

lemma raises_when [intro!]: "raises E S m \<Longrightarrow> raises E S (when_io b m)"
  by (auto simp: when_io_def)

lemma raises_cases [intro!]:
  "(b \<Longrightarrow> raises E P m) \<Longrightarrow> (\<not> b \<Longrightarrow> raises E P m') \<Longrightarrow> raises E P (if b then m else m')"
  "(x = None \<Longrightarrow> raises E P n) \<Longrightarrow> (\<And>y. x = Some y \<Longrightarrow> raises E P (f y)) \<Longrightarrow>
   raises E P (case x of None \<Rightarrow> n | Some y \<Rightarrow> f y)"
  "(\<And>u. s = Inl u \<Longrightarrow> raises E P (g u)) \<Longrightarrow> (\<And>v. s = Inr v \<Longrightarrow> raises E P (h v)) \<Longrightarrow>
   raises E P (case s of Inl u \<Rightarrow> g u | Inr v \<Rightarrow> h v)"
  by (auto split: option.split sum.split)

lemma raises_exists [intro!]: "raises E S (exists_io p)"
  by (auto simp: raises_def exists_io_def split: option.splits)

lemma raises_now [intro!]: "raises E S now_io" "raises E S (sleep_io d)" "raises E S random_io"
  "raises E S (resolve_io p)"
  unfolding now_io_def sleep_io_def random_io_def resolve_io_def by (rule raises_basic)+

lemma os_errors [simp]: "os_or_value FileNotFoundError" "os_or_value OSError" "os_or_value UnicodeDecodeError"
  "os_or_value (ValueError s)" "os_or_value PermissionError"
  by (simp_all add: os_or_value_def isinstance_def)

lemma os_fault_error: "os_faults E \<Longrightarrow> e_fault E t = Some e \<Longrightarrow> os_or_value e"
  by (simp add: os_faults_def os_or_value_def)

lemma raises_syscalls [intro!]:
  assumes "os_faults E"
  shows "raises E os_or_value (resolve_strict_io p)" "raises E os_or_value (stat_io p)"
    "raises E os_or_value (mode_io p)" "raises E os_or_value (read_text_io p)"
    "raises E os_or_value (mkdir_io p)" "raises E os_or_value (create_temp_io p s t)"
    "raises E os_or_value (write_sync_io p s)" "raises E os_or_value (chmod_io p m)"
    "raises E os_or_value (replace_io p q)" "raises E os_or_value (sync_dir_io p)"
    "raises E os_or_value (unlink_io p)"
  using assms
  by (auto simp: raises_def resolve_strict_io_def stat_io_def mode_io_def read_text_io_def
      mkdir_io_def create_temp_io_def write_sync_io_def chmod_io_def replace_io_def sync_dir_io_def
      unlink_io_def syscall_def Let_def dest: os_fault_error
      split: option.splits if_splits fdata.splits)

subsection \<open>The log\<close>

text \<open>Every event an operation adds to the log satisfies \<open>S\<close>.\<close>

definition logs :: "env \<Rightarrow> (event \<Rightarrow> bool) \<Rightarrow> 'a io \<Rightarrow> bool" where
  "logs E S m \<longleftrightarrow> (\<forall>w r w'. m E w = (r, w') \<longrightarrow> (\<exists>l. w_log w' = w_log w @ l \<and> (\<forall>e \<in> set l. S e)))"

definition new_events :: "world \<Rightarrow> world \<Rightarrow> event list" where
  "new_events w w' = drop (length (w_log w)) (w_log w')"

lemma logs_run: "logs E S m \<Longrightarrow> m E w = (r, w') \<Longrightarrow> e \<in> set (new_events w w') \<Longrightarrow> S e"
  by (fastforce simp: logs_def new_events_def)

lemma logs_prefix: "logs E S m \<Longrightarrow> m E w = (r, w') \<Longrightarrow> prefix (w_log w) (w_log w')"
  by (fastforce simp: logs_def)

lemma logs_mono: "logs E S m \<Longrightarrow> (\<And>e. S e \<Longrightarrow> S' e) \<Longrightarrow> logs E S' m"
  unfolding logs_def by blast

lemma logs_basic [intro!]:
  "logs E S (return_io x)" "logs E S (raise_io e)" "logs E S (lift_io r)" "S ev \<Longrightarrow> logs E S (log_io ev)"
  by (auto simp: logs_def return_io_def raise_io_def lift_io_def log_io_def)

lemma logs_bind [intro!]:
  assumes "logs E S m" "\<And>x. logs E S (f x)" shows "logs E S (bind_io m f)"
  unfolding logs_def
proof (intro allI impI)
  fix w r w' assume run: "bind_io m f E w = (r, w')"
  obtain q w1 where 1: "m E w = (q, w1)" by (cases "m E w")
  from assms(1) 1 obtain l where l: "w_log w1 = w_log w @ l" "\<forall>e \<in> set l. S e"
    unfolding logs_def by blast
  show "\<exists>l. w_log w' = w_log w @ l \<and> (\<forall>e \<in> set l. S e)"
  proof (cases q)
    case (Inl e)
    with run 1 l show ?thesis by (auto simp: bind_io_def)
  next
    case (Inr x)
    with run 1 have "f x E w1 = (r, w')" by (simp add: bind_io_def)
    with assms(2) [of x] obtain l' where "w_log w' = w_log w1 @ l'" "\<forall>e \<in> set l'. S e"
      unfolding logs_def by blast
    with l show ?thesis by (intro exI [of _ "l @ l'"]) auto
  qed
qed

lemma logs_catch [intro!]:
  assumes "logs E S m" "\<And>e m'. h e = Some m' \<Longrightarrow> logs E S m'" shows "logs E S (catch_io m h)"
  unfolding logs_def
proof (intro allI impI)
  fix w r w' assume run: "catch_io m h E w = (r, w')"
  obtain q w1 where 1: "m E w = (q, w1)" by (cases "m E w")
  from assms(1) 1 obtain l where l: "w_log w1 = w_log w @ l" "\<forall>e \<in> set l. S e"
    unfolding logs_def by blast
  show "\<exists>l. w_log w' = w_log w @ l \<and> (\<forall>e \<in> set l. S e)"
  proof (cases "w' = w1")
    case True
    with l show ?thesis by auto
  next
    case False
    with run 1 obtain e m' where "h e = Some m'" "m' E w1 = (r, w')"
      by (auto simp: catch_io_def split: sum.splits option.splits)
    with assms(2) obtain l' where "w_log w' = w_log w1 @ l'" "\<forall>e \<in> set l'. S e"
      unfolding logs_def by blast
    with l show ?thesis by (intro exI [of _ "l @ l'"]) auto
  qed
qed

lemma logs_finally [intro!]:
  assumes "logs E S m" "logs E S f" shows "logs E S (finally_io m f)"
  unfolding logs_def
proof (intro allI impI)
  fix w r w' assume run: "finally_io m f E w = (r, w')"
  obtain q w1 where 1: "m E w = (q, w1)" by (cases "m E w")
  obtain q' w2 where 2: "f E w1 = (q', w2)" by (cases "f E w1")
  from assms 1 2 obtain l l' where "w_log w1 = w_log w @ l" "\<forall>e \<in> set l. S e"
    "w_log w2 = w_log w1 @ l'" "\<forall>e \<in> set l'. S e" unfolding logs_def by blast
  moreover have "w' = w2" using run 1 2 by (auto simp: finally_io_def split: sum.splits)
  ultimately have "w_log w' = w_log w @ (l @ l')" "\<forall>e \<in> set (l @ l'). S e" by auto
  then show "\<exists>l. w_log w' = w_log w @ l \<and> (\<forall>e \<in> set l. S e)" by blast
qed

lemma logs_cases [intro!]:
  "(b \<Longrightarrow> logs E P m) \<Longrightarrow> (\<not> b \<Longrightarrow> logs E P m') \<Longrightarrow> logs E P (if b then m else m')"
  "(x = None \<Longrightarrow> logs E P n) \<Longrightarrow> (\<And>y. x = Some y \<Longrightarrow> logs E P (f y)) \<Longrightarrow>
   logs E P (case x of None \<Rightarrow> n | Some y \<Rightarrow> f y)"
  "(\<And>u. s = Inl u \<Longrightarrow> logs E P (g u)) \<Longrightarrow> (\<And>v. s = Inr v \<Longrightarrow> logs E P (h v)) \<Longrightarrow>
   logs E P (case s of Inl u \<Rightarrow> g u | Inr v \<Rightarrow> h v)"
  by (auto split: option.split sum.split)

lemma logs_when [intro!]: "logs E S m \<Longrightarrow> logs E S (when_io b m)"
  by (auto simp: when_io_def)

lemma logs_sure: "(\<And>w. w_log (snd (act E w)) = w_log w) \<Longrightarrow> logs E S (sure_call act)"
  by (simp add: logs_def sure_call_def case_prod_beta)

lemma logs_syscall:
  assumes "\<And>w. w_log (snd (act E w)) = w_log w" shows "logs E S (syscall act)"
  unfolding logs_def
proof (intro allI impI)
  fix w r w' assume run: "syscall act E w = (r, w')"
  have "w_log w' = w_log w"
  proof (cases "e_fault E (w_tick w)")
    case None
    with run assms [of "tick E w"] show ?thesis by (simp add: syscall_def)
  qed (use run in \<open>auto simp: syscall_def\<close>)
  then show "\<exists>l. w_log w' = w_log w @ l \<and> (\<forall>e \<in> set l. S e)" by simp
qed

lemma logs_calls [intro!]:
  "logs E S now_io" "logs E S (sleep_io d)" "logs E S random_io" "logs E S (resolve_io p)"
  "logs E S (resolve_strict_io p)" "logs E S (exists_io p)" "logs E S (mode_io p)"
  "logs E S (mkdir_io p)" "logs E S (create_temp_io p s t)" "logs E S (chmod_io p m)"
  "logs E S (unlink_io p)"
  by (auto simp: now_io_def sleep_io_def random_io_def resolve_io_def resolve_strict_io_def
      mode_io_def mkdir_io_def create_temp_io_def chmod_io_def unlink_io_def Let_def
      intro!: logs_sure logs_syscall split: option.split)
     (auto simp: logs_def exists_io_def split: option.splits)

lemma logs_events [intro!]:
  "(\<And>r. S (EvStat p r)) \<Longrightarrow> logs E S (stat_io p)"
  "S (EvRead p) \<Longrightarrow> logs E S (read_text_io p)"
  "S (EvWrite p s) \<Longrightarrow> logs E S (write_sync_io p s)"
  "S (EvReplace p q) \<Longrightarrow> logs E S (replace_io p q)"
  "S (EvSyncDir p) \<Longrightarrow> logs E S (sync_dir_io p)"
  by (auto simp: logs_def stat_io_def read_text_io_def write_sync_io_def replace_io_def sync_dir_io_def
      syscall_def split: option.splits if_splits)

section \<open>A concrete world\<close>

text \<open>A quiet environment, for concrete runs: nothing interferes and nothing fails.\<close>

definition quiet_env :: env where
  "quiet_env = \<lparr>e_step = (\<lambda>_ _ fs. fs), e_fault = (\<lambda>_. None), e_delay = (\<lambda>_. 0),
     e_thread = (\<lambda>_. True), e_flock = (\<lambda>_. Granted), e_inode = (\<lambda>t. t), e_mtime = (\<lambda>t. t),
     e_random = (\<lambda>_. ''r'')\<rparr>"

definition empty_fs :: fs where
  "empty_fs = \<lparr>fs_files = (\<lambda>_. None), fs_dirs = (\<lambda>p. if p = [''v''] \<or> p = []
      then Some \<lparr>rv_inode = 1, rv_mtime = 0, rv_size = 0\<rparr> else None), fs_real = (\<lambda>p. p)\<rparr>"

definition start_world :: world where
  "start_world = \<lparr>w_tick = 0, w_now = 0, w_fs = empty_fs, w_own = [], w_log = []\<rparr>"

lemma quiet_env_simps: "cooperative quiet_env" "os_faults quiet_env"
  by (simp_all add: quiet_env_def cooperative_def os_faults_def)

lemma quiet_tick: "w_fs (tick quiet_env w) = w_fs w"
  by (simp add: tick_def quiet_env_def)

end
