(* ===== verification/Security.thy ===== *)
theory Security
  imports Vault_World
begin

text \<open>
  \<open>utils/security.py\<close>: escaping of values for SQL string literals and \<open>LIKE\<close> patterns, and
  the check of vault-relative paths.  The contracts are stated against a scanner of SQL
  string literals and a matcher of \<open>LIKE\<close> patterns with the backslash escape, the two
  readers the escaped text is meant for.
\<close>

section \<open>Escaping\<close>

abbreviation quote_char :: char where "quote_char \<equiv> CHR 0x27"
abbreviation backslash :: char where "backslash \<equiv> CHR 0x5C"

definition escape_sql_string :: "string \<Rightarrow> string" where
  "escape_sql_string value = (if value = [] then value else
     replace_char quote_char [quote_char, quote_char] value)"

definition escape_like_pattern :: "string \<Rightarrow> string" where
  "escape_like_pattern value = (if value = [] then value else
     let value = replace_char backslash [backslash, backslash] value;
         value = replace_char (CHR ''%'') [backslash, CHR ''%''] value;
         value = replace_char (CHR ''_'') [backslash, CHR ''_''] value
     in replace_char quote_char [quote_char, quote_char] value)"

text \<open>
  Reading a literal after its opening quote: a doubled quote is a quote, a single one ends
  the literal.  The result is the value and the text after the closing quote.
\<close>

fun sql_literal :: "string \<Rightarrow> (string \<times> string) option" where
  "sql_literal [] = None"
| "sql_literal (c # cs) =
     (if c = quote_char then
        (case cs of
           d # ds \<Rightarrow> if d = quote_char then map_option (\<lambda>(v, r). (quote_char # v, r)) (sql_literal ds)
                    else Some ([], cs)
         | [] \<Rightarrow> Some ([], []))
      else map_option (\<lambda>(v, r). (c # v, r)) (sql_literal cs))"

fun like_match :: "string \<Rightarrow> string \<Rightarrow> bool" where
  "like_match [] s = (s = [])"
| "like_match (c # p) s =
     (if c = backslash then
        (case p of
           d # q \<Rightarrow> (case s of [] \<Rightarrow> False | x # t \<Rightarrow> x = d \<and> like_match q t)
         | [] \<Rightarrow> s = [backslash])
      else if c = CHR ''%'' then
        (case s of [] \<Rightarrow> like_match p [] | x # t \<Rightarrow> like_match p s \<or> like_match (c # p) t)
      else if c = CHR ''_'' then (case s of [] \<Rightarrow> False | x # t \<Rightarrow> like_match p t)
      else (case s of [] \<Rightarrow> False | x # t \<Rightarrow> x = c \<and> like_match p t))"

lemma escape_sql_eq: "escape_sql_string v = replace_char quote_char [quote_char, quote_char] v"
  by (simp add: escape_sql_string_def)

lemma sql_literal_escaped:
  "rest = [] \<or> hd rest \<noteq> quote_char \<Longrightarrow>
   sql_literal (replace_char quote_char [quote_char, quote_char] v @ quote_char # rest) = Some (v, rest)"
  by (induction v) (auto split: list.splits)

text \<open>C24. A value escaped by \<open>escape_sql_string\<close> and placed between single quotes is read back
  by the SQL scanner as exactly that value, and the literal ends at the closing quote the
  query wrote: no value can end the literal early or swallow what follows.\<close>

theorem escape_sql_string_roundtrip:
  assumes "rest = [] \<or> hd rest \<noteq> quote_char"
  shows "sql_literal (escape_sql_string value @ quote_char # rest) = Some (value, rest)"
  using assms by (simp add: escape_sql_eq sql_literal_escaped)

theorem escape_sql_string_roundtrip_witness:
  "sql_literal (escape_sql_string (''O'' @ [quote_char] @ ''Brien'') @ quote_char # '' OR 1'')
     = Some (''O'' @ [quote_char] @ ''Brien'', '' OR 1'')"
  using escape_sql_string_roundtrip [of "'' OR 1''" "''O'' @ [quote_char] @ ''Brien''"] by simp

definition like_escape :: "string \<Rightarrow> string" where
  "like_escape v = concat (map (\<lambda>c. if c \<in> {backslash, CHR ''%'', CHR ''_''} then [backslash, c] else [c]) v)"

lemma like_escape_simps [simp]:
  "like_escape [] = []"
  "like_escape (c # v) = (if c \<in> {backslash, CHR ''%'', CHR ''_''} then [backslash, c] else [c]) @ like_escape v"
  by (simp_all add: like_escape_def)

lemma escape_like_eq:
  "escape_like_pattern v = replace_char quote_char [quote_char, quote_char] (like_escape v)"
proof -
  have "replace_char (CHR ''_'') [backslash, CHR ''_''] (replace_char (CHR ''%'') [backslash, CHR ''%'']
      (replace_char backslash [backslash, backslash] v)) = like_escape v"
    by (induction v) auto
  then show ?thesis by (cases "v = []") (simp_all add: escape_like_pattern_def Let_def)
qed

lemma like_match_escape: "like_match (like_escape v) s \<longleftrightarrow> s = v"
  by (induction v arbitrary: s) (auto split: list.splits)

text \<open>A value escaped by \<open>escape_like_pattern\<close> and placed between single quotes is read by
  the SQL scanner as a \<open>LIKE\<close> pattern, up to the closing quote the query wrote, and that
  pattern matches exactly one string, the value: no wildcard of the value survives.\<close>

theorem escape_like_pattern_exact:
  assumes "rest = [] \<or> hd rest \<noteq> quote_char"
  shows "\<exists>pat. sql_literal (escape_like_pattern value @ quote_char # rest) = Some (pat, rest) \<and>
    (\<forall>s. like_match pat s = (s = value))"
  using assms by (simp add: escape_like_eq sql_literal_escaped like_match_escape)

theorem escape_like_pattern_exact_witness:
  "\<exists>pat. sql_literal (escape_like_pattern ''50%_'' @ quote_char # '')'') = Some (pat, '')'') \<and>
     like_match pat ''50%_'' \<and> \<not> like_match pat ''50ab''"
  using escape_like_pattern_exact [of "'')''" "''50%_''"] by force

section \<open>Folder filters\<close>

text \<open>
  The folder condition of the catalog's listing (and of the random-note tool):
  \<open>folder = ? OR folder LIKE ? ESCAPE '\'\<close> with the folder and the escaped folder followed by
  \<open>/%\<close> as bound parameters.  SQLite's \<open>LIKE\<close> ignores the case of ASCII letters.
\<close>

definition ascii_lower :: "char \<Rightarrow> char" where
  "ascii_lower c = (if (65::nat) \<le> of_char c \<and> of_char c \<le> (90::nat) then char_of ((of_char c :: nat) + 32) else c)"

definition sqlite_like :: "string \<Rightarrow> string \<Rightarrow> bool" where
  "sqlite_like p s = like_match (map ascii_lower p) (map ascii_lower s)"

definition catalog_in_folder :: "string \<Rightarrow> string \<Rightarrow> bool" where
  "catalog_in_folder folder f =
     (f = folder \<or> sqlite_like (escape_like_pattern folder @ ''/%'') f)"

lemma ascii_lower_special [simp]:
  "ascii_lower c = backslash \<longleftrightarrow> c = backslash" "ascii_lower c = CHR ''%'' \<longleftrightarrow> c = CHR ''%''"
  "ascii_lower c = CHR ''_'' \<longleftrightarrow> c = CHR ''_''" "ascii_lower c = quote_char \<longleftrightarrow> c = quote_char"
  "ascii_lower c = CHR ''/'' \<longleftrightarrow> c = CHR ''/''"
proof -
  have "of_char (ascii_lower c) = (if (65::nat) \<le> of_char c \<and> of_char c \<le> (90::nat)
      then (of_char c :: nat) + 32 else of_char c)"
    by (simp add: ascii_lower_def)
  then have "(of_char (ascii_lower c) :: nat) = n \<longleftrightarrow> (of_char c :: nat) = n" if "n < 65 \<or> 90 < n \<and> n < 97 \<or> 122 < n" for n
    using that by auto
  from this [of "of_char backslash"] this [of "of_char (CHR ''%'')"] this [of "of_char (CHR ''_'')"]
    this [of "of_char quote_char"] this [of "of_char (CHR ''/'')"]
  show "ascii_lower c = backslash \<longleftrightarrow> c = backslash" "ascii_lower c = CHR ''%'' \<longleftrightarrow> c = CHR ''%''"
    "ascii_lower c = CHR ''_'' \<longleftrightarrow> c = CHR ''_''" "ascii_lower c = quote_char \<longleftrightarrow> c = quote_char"
    "ascii_lower c = CHR ''/'' \<longleftrightarrow> c = CHR ''/''"
    unfolding of_char_eq_iff by simp_all
qed

lemma ascii_lower_literals [simp]:
  "ascii_lower backslash = backslash" "ascii_lower (CHR ''%'') = CHR ''%''"
  "ascii_lower (CHR ''_'') = CHR ''_''" "ascii_lower quote_char = quote_char"
  "ascii_lower (CHR ''/'') = CHR ''/''"
  by simp_all

lemma like_escape_append [simp]: "like_escape (u @ v) = like_escape u @ like_escape v"
  by (induction u) auto

lemma map_lower_like_escape: "map ascii_lower (like_escape v) = like_escape (map ascii_lower v)"
  by (induction v) auto

lemma like_match_prefix: "like_match (like_escape v @ ''%'') s \<longleftrightarrow> prefix v s"
proof (induction v arbitrary: s)
  case Nil
  have "like_match ''%'' s" by (induction s) auto
  then show ?case by simp
next
  case (Cons c v)
  then show ?case by (auto split: list.splits)
qed

lemma escape_like_doubled:
  "escape_like_pattern v = like_escape (replace_char quote_char [quote_char, quote_char] v)"
proof -
  have "replace_char quote_char [quote_char, quote_char] (like_escape v)
      = like_escape (replace_char quote_char [quote_char, quote_char] v)"
    by (induction v) auto
  then show ?thesis by (simp add: escape_like_eq)
qed

lemma map_lower_doubled:
  "map ascii_lower (replace_char quote_char [quote_char, quote_char] v)
     = replace_char quote_char [quote_char, quote_char] (map ascii_lower v)"
  by (induction v) auto

lemma catalog_pattern_prefix:
  "sqlite_like (escape_like_pattern v @ ''/%'') s \<longleftrightarrow>
   prefix (replace_char quote_char [quote_char, quote_char] (map ascii_lower v) @ ''/'') (map ascii_lower s)"
  using like_match_prefix [of "replace_char quote_char [quote_char, quote_char] (map ascii_lower v) @ ''/''"
      "map ascii_lower s"]
  by (simp add: sqlite_like_def escape_like_doubled map_lower_like_escape map_lower_doubled)

lemma doubled_not_prefix:
  "0 < j \<or> quote_char \<in> set v \<Longrightarrow>
   \<not> prefix (replicate j quote_char @ replace_char quote_char [quote_char, quote_char] v @ ''/'') (v @ ''/'' @ rest)"
proof (induction v arbitrary: j)
  case Nil
  then show ?case by (cases j) auto
next
  case (Cons c v)
  show ?case
  proof (cases "c = quote_char")
    case True
    let ?d = "replace_char quote_char [quote_char, quote_char]"
    have eq: "replicate j quote_char @ ?d (c # v) @ ''/'' = quote_char # replicate (Suc j) quote_char @ ?d v @ ''/''"
      using True by (simp add: replicate_append_same [symmetric] flip: append_Cons)
    have "\<not> prefix (replicate (Suc j) quote_char @ ?d v @ ''/'') (v @ ''/'' @ rest)"
      by (rule Cons.IH) simp
    then show ?thesis unfolding eq by simp
  next
    case False
    with Cons.prems Cons.IH [of 0] show ?thesis by (cases j) auto
  qed
qed

lemma quote_in_lowered: "quote_char \<in> set (map ascii_lower v) \<longleftrightarrow> quote_char \<in> set v"
  by (induction v) (simp_all, metis ascii_lower_special(4))

lemma catalog_folder_plain:
  assumes "quote_char \<notin> set folder"
  shows "catalog_in_folder folder f \<longleftrightarrow> f = folder \<or>
    prefix (map ascii_lower (folder @ ''/'')) (map ascii_lower f)"
  using assms quote_in_lowered [of folder]
  by (simp add: catalog_in_folder_def catalog_pattern_prefix replace_char_absent)

text \<open>Escaping for a literal what is passed as a bound parameter loses folders: the
  doubled quotes of a folder name with an apostrophe become part of the pattern, and the
  catalog's filter accepts the folder itself but none of its descendants.\<close>

theorem catalog_folder_quote:
  assumes "quote_char \<in> set folder"
  shows "catalog_in_folder folder folder \<and> \<not> catalog_in_folder folder (folder @ ''/'' @ rest)"
  using doubled_not_prefix [of 0 "map ascii_lower folder" "map ascii_lower rest"]
    assms quote_in_lowered [of folder]
  by (simp add: catalog_in_folder_def catalog_pattern_prefix)

theorem catalog_folder_quote_witness:
  "\<not> catalog_in_folder (''O'' @ [quote_char] @ ''Brien'') (''O'' @ [quote_char] @ ''Brien/2026'') \<and>
   catalog_in_folder ''OBrien'' ''OBrien/2026''"
  using catalog_folder_quote [of "''O'' @ [quote_char] @ ''Brien''" "''2026''"]
    catalog_folder_plain [of "''OBrien''" "''OBrien/2026''"] by simp

section \<open>Relative paths\<close>

text \<open>
  \<open>validate_relative_path\<close>.  The last check resolves the path below a synthetic base.
\<close>

definition safe_base :: path where
  "safe_base = [''safe'', ''base'']"

definition validate_relative_path :: "string \<Rightarrow> bool io" where
  "validate_relative_path relative_path =
     (if relative_path = [] then return_io False
      else if starts_with relative_path ''/'' \<or> starts_with relative_path [backslash]
      then return_io False
      else if \<exists>part \<in> set (pp_parts (pure_path relative_path)). part = ''..'' \<or> CHR 0x00 \<in> set part
      then return_io False
      else catch_io
        (bind_io (resolve_io (safe_base @ pp_parts (pure_path relative_path))) (\<lambda>resolved.
           return_io (starts_with (path_str resolved) (path_str safe_base))))
        (\<lambda>e. if isinstance e C_ValueError \<or> isinstance e C_OSError
             then Some (return_io False) else None))"

lemma keeps_validate_relative_path:
  "(\<And>q. keeps E P (resolve_io q)) \<Longrightarrow> keeps E P (validate_relative_path rel)"
  unfolding validate_relative_path_def
  by (auto intro!: keeps_catch keeps_bind split: if_split_asm)

text \<open>What an accepted path looks like: relative, no parent component, no null character.\<close>

lemma validate_relative_path_sound:
  "triple E P (validate_relative_path rel) (\<lambda>r w. r = Inr True \<longrightarrow>
     rel \<noteq> [] \<and> \<not> starts_with rel ''/'' \<and>
     (\<forall>part \<in> set (pp_parts (pure_path rel)). part \<noteq> ''..'' \<and> CHR 0x00 \<notin> set part))"
  by (auto simp: triple_def validate_relative_path_def return_io_def)

end
