(* ===== verification/Enrichment.thy ===== *)
theory Enrichment
  imports Validator Vault_World
begin

text \<open>
  \<open>frontmatter/enrichment.py\<close>: the fields to generate, the checks of the configuration, the
  prompt, the bounded attempts with a fallback model, and the extraction of a JSON object
  from the provider's output.  The provider process and \<open>json\<close> are fields of the
  configuration record.
\<close>

datatype cli_outcome =
    Cli_not_found
  | Cli_timed_out
  | Cli_failed pyexn
  | Cli_completed int string

record ai_conf =
  ai_enabled :: bool
  ai_allow_external :: bool
  ai_allow_defer :: bool
  ai_provider :: string
  ai_command :: "string list"
  ai_primary_model :: string
  ai_fallback_model :: string
  ai_max_chars :: nat
  ai_timeout :: rat
  ai_max_attempts :: nat
  ai_cli :: "nat \<Rightarrow> string list \<Rightarrow> string \<Rightarrow> cli_outcome"
  ai_json_loads :: "string \<Rightarrow> pyval option"
  ai_json_raw :: "string \<Rightarrow> pyval option"
  ai_json_dumps :: "pyval \<Rightarrow> string"

section \<open>The fields to generate\<close>

definition get_required_schema_fields ::
  "(string, field_schema) dict \<Rightarrow> (string, field_schema) dict" where
  "get_required_schema_fields schema = filter (\<lambda>f. fs_on_missing (snd f) = OM_require) schema"

definition is_empty_value :: "pyval \<Rightarrow> bool" where
  "is_empty_value v = (case v of PNone \<Rightarrow> True | PStr s \<Rightarrow> strip s = [] | PList xs \<Rightarrow> xs = []
     | PDict d \<Rightarrow> d = [] | _ \<Rightarrow> False)"

definition is_field_missing_or_empty :: "frontmatter \<Rightarrow> string \<Rightarrow> bool" where
  "is_field_missing_or_empty fm name =
     (case dget fm (PStr name) of None \<Rightarrow> True | Some v \<Rightarrow> is_empty_value v)"

definition missing_fields :: "(string, field_schema) dict \<Rightarrow> frontmatter \<Rightarrow> string list" where
  "missing_fields required fm = filter (is_field_missing_or_empty fm) (dkeys required)"

section \<open>The prompt\<close>

definition opt_entry :: "string \<Rightarrow> ('a \<Rightarrow> pyval) \<Rightarrow> 'a option \<Rightarrow> frontmatter" where
  "opt_entry k f x = (case x of None \<Rightarrow> [] | Some v \<Rightarrow> [(PStr k, f v)])"

fun item_type_name :: "item_type \<Rightarrow> string" where
  "item_type_name IT_string = ''string''"
| "item_type_name IT_int = ''int''"
| "item_type_name IT_float = ''float''"

definition field_schema_to_dict :: "field_schema \<Rightarrow> pyval" where
  "field_schema_to_dict s = PDict
     ([(PStr ''type'', PStr (field_type_name (fs_type s)))]
      @ opt_entry ''values'' (\<lambda>vs. PList (map PStr vs)) (fs_values s)
      @ opt_entry ''min_length'' PInt (fs_min_length s)
      @ opt_entry ''max_length'' PInt (fs_max_length s)
      @ opt_entry ''pattern'' PStr (fs_pattern s)
      @ opt_entry ''minimum'' PFloat (fs_minimum s)
      @ opt_entry ''maximum'' PFloat (fs_maximum s)
      @ opt_entry ''item_type'' (\<lambda>t. PStr (item_type_name t)) (fs_item_type s)
      @ opt_entry ''min_items'' PInt (fs_min_items s)
      @ opt_entry ''max_items'' PInt (fs_max_items s))"

definition prompt_instructions :: string where
  "prompt_instructions =
     ''Complete the missing YAML frontmatter fields.'' @ [CHR 0x0A] @
     ''Return ONLY a valid JSON object.'' @ [CHR 0x0A] @
     ''Include only the required missing fields listed in missing_required.'' @ [CHR 0x0A] @
     ''Do not add fields outside the schema.'' @ [CHR 0x0A] @
     ''Follow every schema type, enum, constraint, and format.'' @ [CHR 0x0A]"

definition build_prompt ::
  "ai_conf \<Rightarrow> string \<Rightarrow> string \<Rightarrow> frontmatter \<Rightarrow> (string, field_schema) dict \<Rightarrow> string list \<Rightarrow> string" where
  "build_prompt A note_path note_body current required missing =
     prompt_instructions @ [CHR 0x0A] @ ''Context:'' @ [CHR 0x0A] @
     ai_json_dumps A (PDict
       [(PStr ''note_path'', PStr note_path),
        (PStr ''missing_required'', PList (map PStr missing)),
        (PStr ''required_schema'', PDict (map (\<lambda>n. (PStr n,
            case dget required n of Some s \<Rightarrow> field_schema_to_dict s | None \<Rightarrow> PNone)) missing)),
        (PStr ''current_frontmatter'', PDict current),
        (PStr ''note_body'', PStr note_body)])"

section \<open>JSON in the output\<close>

definition as_object :: "pyval option \<Rightarrow> frontmatter option" where
  "as_object v = (case v of Some (PDict d) \<Rightarrow> Some d | _ \<Rightarrow> None)"

abbreviation fence :: string where
  "fence \<equiv> [CHR 0x60, CHR 0x60, CHR 0x60]"

text \<open>
  The fenced block: three backquotes, optionally \<open>json\<close>, white space, the shortest text
  from a brace to a closing brace that is followed by white space and three backquotes.
\<close>

fun shortest_object :: "string \<Rightarrow> string option" where
  "shortest_object [] = None"
| "shortest_object (c # cs) =
     (if c = CHR ''}'' \<and> prefix fence (lstrip cs) then Some [c]
      else map_option ((#) c) (shortest_object cs))"

definition fenced_at :: "string \<Rightarrow> string option" where
  "fenced_at s = (if prefix fence s then
      let r = drop 3 s; t = lstrip (if prefix ''json'' r then drop 4 r else r) in
      if prefix ''{'' t then map_option ((#) (CHR ''{'')) (shortest_object (drop 1 t)) else None
    else None)"

fun fenced_search :: "string \<Rightarrow> string option" where
  "fenced_search [] = None"
| "fenced_search (c # cs) = (case fenced_at (c # cs) of Some g \<Rightarrow> Some g | None \<Rightarrow> fenced_search cs)"

text \<open>\<open>text[first_brace : last_brace + 1]\<close>, when the last brace comes after the first.\<close>

definition brace_span :: "string \<Rightarrow> string option" where
  "brace_span s =
     (let t = dropWhile (\<lambda>c. c \<noteq> CHR ''{'') s;
          u = rev (dropWhile (\<lambda>c. c \<noteq> CHR ''}'') (rev t)) in
      if t \<noteq> [] \<and> u \<noteq> [] then Some u else None)"

fun raw_scan :: "ai_conf \<Rightarrow> string \<Rightarrow> frontmatter option" where
  "raw_scan A [] = None"
| "raw_scan A (c # cs) =
     (case (if c = CHR ''{'' then as_object (ai_json_raw A (c # cs)) else None) of
        Some d \<Rightarrow> Some d | None \<Rightarrow> raw_scan A cs)"

definition or_else :: "'a option \<Rightarrow> 'a option \<Rightarrow> 'a option" where
  "or_else x y = (case x of None \<Rightarrow> y | Some _ \<Rightarrow> x)"

definition extract_json_object :: "ai_conf \<Rightarrow> string \<Rightarrow> frontmatter result" where
  "extract_json_object A raw_output =
     (let text = strip raw_output;
          loads = (\<lambda>s. case s of None \<Rightarrow> None | Some t \<Rightarrow> as_object (ai_json_loads A t));
          found = or_else (loads (Some text)) (or_else (loads (fenced_search text))
            (or_else (loads (brace_span text))
              (raw_scan A (drop 1 (dropWhile (\<lambda>c. c \<noteq> CHR ''{'') text)))))
      in if text = [] then Inl (EnrichmentError ''Output is empty'')
         else case found of Some d \<Rightarrow> Inr d
           | None \<Rightarrow> Inl (EnrichmentError ''Could not extract a valid JSON object from output''))"

section \<open>Calling the provider\<close>

definition validate_command_security :: "string list \<Rightarrow> unit result" where
  "validate_command_security command =
     (if \<exists>part \<in> set command. contains part ''{prompt}''
      then Inl (EnrichmentConfigError ''The {prompt} placeholder is not allowed in the command. Send the prompt exclusively through stdin.'')
      else Inr ())"

definition resolve_command :: "string list \<Rightarrow> string \<Rightarrow> string \<Rightarrow> string list \<times> string" where
  "resolve_command command model prompt = (map (py_replace ''{model}'' model) command, prompt)"

definition cli_result :: "cli_outcome \<Rightarrow> string result" where
  "cli_result r =
     (case r of
        Cli_not_found \<Rightarrow> Inl (EnrichmentConfigError ''Enrichment command was not found'')
      | Cli_timed_out \<Rightarrow> Inl (EnrichmentError ''Enrichment timed out'')
      | Cli_failed e \<Rightarrow> Inl e
      | Cli_completed code out \<Rightarrow>
          if code \<noteq> 0 then Inl (EnrichmentError (''Enrichment provider exited with code '' @ show_int code))
          else if strip out = [] then Inl (EnrichmentError ''CLI returned empty output'')
          else Inr (strip out))"

definition run_cli_command :: "ai_conf \<Rightarrow> string list \<times> string \<Rightarrow> string io" where
  "run_cli_command A cmd =
     bind_io (sure_call (\<lambda>E w. (ai_cli A (w_tick w) (fst cmd) (snd cmd),
                w\<lparr>w_log := w_log w @ [EvCall (fst cmd) (snd cmd)]\<rparr>)))
       (\<lambda>r. lift_io (cli_result r))"

text \<open>The attempts that are left; the pause doubles up to two seconds.\<close>

fun generate_with_model :: "ai_conf \<Rightarrow> string \<Rightarrow> string \<Rightarrow> nat \<Rightarrow> nat \<Rightarrow> frontmatter io" where
  "generate_with_model A model prompt attempt 0 =
     raise_io (EnrichmentError ''Enrichment provider failed'')"
| "generate_with_model A model prompt attempt (Suc left) =
     catch_io
       (bind_io (run_cli_command A (resolve_command (ai_command A) model prompt))
          (\<lambda>output. lift_io (extract_json_object A output)))
       (\<lambda>e. if isinstance e C_EnrichmentConfigError then None
            else Some (bind_io
              (when_io (0 < left) (sleep_io (min (1 / 2 * 2 ^ (attempt - 1)) 2)))
              (\<lambda>_. generate_with_model A model prompt (Suc attempt) left)))"

definition provider_models :: "ai_conf \<Rightarrow> string list" where
  "provider_models A = ai_primary_model A #
     (if ai_fallback_model A \<noteq> [] \<and> ai_fallback_model A \<noteq> ai_primary_model A
      then [ai_fallback_model A] else [])"

definition allowed_fields :: "string list \<Rightarrow> frontmatter \<Rightarrow> frontmatter" where
  "allowed_fields missing generated =
     List.map_filter (\<lambda>n. map_option (Pair (PStr n)) (dget generated (PStr n))) missing"

fun try_models :: "ai_conf \<Rightarrow> string list \<Rightarrow> string \<Rightarrow> string list \<Rightarrow> frontmatter io" where
  "try_models A missing prompt [] =
     raise_io (EnrichmentError ''Failed to generate required frontmatter'')"
| "try_models A missing prompt (model # models) =
     catch_io
       (bind_io (generate_with_model A model prompt 1 (ai_max_attempts A))
          (\<lambda>generated. return_io (allowed_fields missing generated)))
       (\<lambda>e. if isinstance e C_EnrichmentConfigError then None
            else Some (try_models A missing prompt models))"

definition generate_required_fields_with_ai ::
  "ai_conf \<Rightarrow> string \<Rightarrow> string \<Rightarrow> frontmatter \<Rightarrow> (string, field_schema) dict \<Rightarrow> frontmatter io" where
  "generate_required_fields_with_ai A note_path note_body current required =
     (let missing = missing_fields required current in
      if missing = [] then return_io []
      else if \<not> ai_enabled A
      then raise_io (EnrichmentConfigError ''Frontmatter enrichment is disabled by frontmatter.ai.enabled'')
      else if ai_command A = []
      then raise_io (EnrichmentConfigError ''frontmatter.ai.command cannot be empty'')
      else if ai_primary_model A = []
      then raise_io (EnrichmentConfigError ''frontmatter.ai.primary_model cannot be empty'')
      else bind_io (lift_io (validate_command_security (ai_command A))) (\<lambda>_.
        try_models A missing
          (build_prompt A note_path (take (ai_max_chars A) note_body) current required missing)
          (provider_models A)))"

section \<open>What the provider can change, and what it sees\<close>

lemma allowed_fields_keys: "fst ` set (allowed_fields missing g) \<subseteq> PStr ` set missing"
  unfolding allowed_fields_def
  by (induction missing) (auto simp: map_filter_Cons split: option.splits)

lemma try_models_result:
  "try_models A missing prompt models E w = (Inr g, w') \<Longrightarrow> fst ` set g \<subseteq> PStr ` set missing"
proof (induction models arbitrary: w)
  case Nil
  then show ?case by (simp add: raise_io_def)
next
  case (Cons m ms)
  from Cons.prems consider d where "g = allowed_fields missing d"
    | w1 where "try_models A missing prompt ms E w1 = (Inr g, w')"
    by (auto simp: io_runs split: if_splits)
  then show ?case using allowed_fields_keys Cons.IH by cases blast+
qed

definition provider_call :: "ai_conf \<Rightarrow> string \<Rightarrow> event \<Rightarrow> bool" where
  "provider_call A prompt e \<longleftrightarrow> (\<exists>model \<in> set (provider_models A).
     e = EvCall (map (py_replace ''{model}'' model) (ai_command A)) prompt)"

lemma logs_generate:
  "model \<in> set (provider_models A) \<Longrightarrow>
   logs E (provider_call A prompt) (generate_with_model A model prompt attempt left)"
proof (induction left arbitrary: attempt)
  case 0
  show ?case by auto
next
  case (Suc left)
  have "logs E (provider_call A prompt) (run_cli_command A (resolve_command (ai_command A) model prompt))"
    unfolding run_cli_command_def using Suc.prems
    by (auto simp: logs_def sure_call_def bind_io_def lift_io_def resolve_command_def provider_call_def)
  with Suc show ?case by (auto split: if_split_asm)
qed

lemma logs_try_models:
  "set models \<subseteq> set (provider_models A) \<Longrightarrow> logs E (provider_call A prompt) (try_models A missing prompt models)"
  by (induction models) (auto intro!: logs_generate split: if_split_asm)

text \<open>Each attempt makes at most one call.\<close>

definition logs_at_most :: "env \<Rightarrow> nat \<Rightarrow> 'a io \<Rightarrow> bool" where
  "logs_at_most E n m \<longleftrightarrow>
     (\<forall>w r w'. m E w = (r, w') \<longrightarrow> (\<exists>l. w_log w' = w_log w @ l \<and> length l \<le> n))"

lemma logs_at_most_seq:
  assumes "logs_at_most E n m" "m E w = (r, w1)" "logs_at_most E k m'" "m' E w1 = (r', w')"
  shows "\<exists>l. w_log w' = w_log w @ l \<and> length l \<le> n + k"
proof -
  from assms obtain l l' where "w_log w1 = w_log w @ l" "length l \<le> n"
    "w_log w' = w_log w1 @ l'" "length l' \<le> k" unfolding logs_at_most_def by blast
  then show ?thesis by (intro exI [of _ "l @ l'"]) simp
qed

lemma logs_at_most_bind:
  assumes "logs_at_most E n m" "\<And>x. logs_at_most E k (f x)" shows "logs_at_most E (n + k) (bind_io m f)"
  unfolding logs_at_most_def
proof (intro allI impI)
  fix w r w' assume run: "bind_io m f E w = (r, w')"
  show "\<exists>l. w_log w' = w_log w @ l \<and> length l \<le> n + k"
  proof (cases "m E w")
    case (Pair q w1)
    show ?thesis
    proof (cases q)
      case (Inl e)
      with Pair run assms(1) have "\<exists>l. w_log w' = w_log w @ l \<and> length l \<le> n"
        by (auto simp: bind_io_def logs_at_most_def)
      then show ?thesis by (meson trans_le_add1)
    next
      case (Inr x)
      with Pair run have "f x E w1 = (r, w')" by (simp add: bind_io_def)
      from logs_at_most_seq [OF assms(1) Pair assms(2) this] show ?thesis .
    qed
  qed
qed

lemma logs_at_most_catch:
  assumes "logs_at_most E n m" "\<And>e m'. h e = Some m' \<Longrightarrow> logs_at_most E k m'"
  shows "logs_at_most E (n + k) (catch_io m h)"
  unfolding logs_at_most_def
proof (intro allI impI)
  fix w r w' assume run: "catch_io m h E w = (r, w')"
  show "\<exists>l. w_log w' = w_log w @ l \<and> length l \<le> n + k"
  proof (cases "m E w")
    case (Pair q w1)
    show ?thesis
    proof (cases "w' = w1")
      case True
      with Pair assms(1) have "\<exists>l. w_log w' = w_log w @ l \<and> length l \<le> n" by (auto simp: logs_at_most_def)
      then show ?thesis by (meson trans_le_add1)
    next
      case False
      with run Pair obtain e m' where "h e = Some m'" "m' E w1 = (r, w')"
        by (auto simp: catch_io_def split: sum.splits option.splits)
      with logs_at_most_seq [OF assms(1) Pair assms(2)] show ?thesis by blast
    qed
  qed
qed

lemma logs_at_most_mono: "logs_at_most E n m \<Longrightarrow> n \<le> k \<Longrightarrow> logs_at_most E k m"
  unfolding logs_at_most_def by (meson le_trans)

lemma logs_at_most_0:
  "logs_at_most E 0 (return_io x)" "logs_at_most E 0 (raise_io e)" "logs_at_most E 0 (lift_io r)"
  "logs_at_most E 0 (when_io b (sleep_io d))"
  by (auto simp: logs_at_most_def return_io_def raise_io_def lift_io_def when_io_def sleep_io_def
      sure_call_def)

lemma logs_at_most_run: "logs_at_most E 1 (run_cli_command A cmd)"
  by (auto simp: logs_at_most_def run_cli_command_def bind_io_def sure_call_def lift_io_def)

lemma logs_at_most_generate: "logs_at_most E left (generate_with_model A model prompt attempt left)"
proof (induction left arbitrary: attempt)
  case 0
  show ?case by (simp add: logs_at_most_0)
next
  case (Suc left)
  have "logs_at_most E (1 + 0) (bind_io (run_cli_command A (resolve_command (ai_command A) model prompt))
          (\<lambda>output. lift_io (extract_json_object A output)))"
    by (intro logs_at_most_bind logs_at_most_run logs_at_most_0)
  moreover have "logs_at_most E (0 + left) (bind_io
              (when_io (0 < left) (sleep_io (min (1 / 2 * 2 ^ (attempt - 1)) 2)))
              (\<lambda>_. generate_with_model A model prompt (Suc attempt) left))"
    by (intro logs_at_most_bind logs_at_most_0 Suc.IH)
  ultimately have "logs_at_most E ((1 + 0) + (0 + left)) (generate_with_model A model prompt attempt (Suc left))"
    unfolding generate_with_model.simps by (intro logs_at_most_catch) (auto split: if_splits)
  then show ?case by simp
qed

lemma logs_at_most_try:
  "logs_at_most E (length models * ai_max_attempts A) (try_models A missing prompt models)"
proof (induction models)
  case Nil
  show ?case by (simp add: logs_at_most_0)
next
  case (Cons m ms)
  have "logs_at_most E (ai_max_attempts A + 0) (bind_io (generate_with_model A m prompt 1 (ai_max_attempts A))
          (\<lambda>generated. return_io (allowed_fields missing generated)))"
    by (intro logs_at_most_bind logs_at_most_generate logs_at_most_0)
  with Cons.IH have "logs_at_most E ((ai_max_attempts A + 0) + length ms * ai_max_attempts A)
      (try_models A missing prompt (m # ms))"
    unfolding try_models.simps by (intro logs_at_most_catch) (auto split: if_splits)
  then show ?case by simp
qed


definition sample_ai :: ai_conf where
  "sample_ai = \<lparr>ai_enabled = True, ai_allow_external = True, ai_allow_defer = False,
     ai_provider = ''cli'', ai_command = [''llm'', ''-m'', ''{model}''], ai_primary_model = ''m1'',
     ai_fallback_model = [], ai_max_chars = 100, ai_timeout = 30, ai_max_attempts = 2,
     ai_cli = (\<lambda>_ _ _. Cli_completed 0 ''{}''),
     ai_json_loads = (\<lambda>_. Some (PDict [(PStr ''id'', PStr ''x''), (PStr ''rank'', PInt 1)])),
     ai_json_raw = (\<lambda>_. None), ai_json_dumps = (\<lambda>_. ''{}'')\<rparr>"


end
