(* ===== verification/Crud_Validation.thy ===== *)
theory Crud_Validation
  imports Security Enrichment
begin

text \<open>
  \<open>crud/validation.py\<close>, \<open>crud/types.py\<close> and the file revision of \<open>crud/locking.py\<close>: the
  configuration, operation results, path resolution, the validators of a write, and the two
  guarded file accesses \<open>safe_read_text\<close> and \<open>safe_write_text\<close>.  PyYAML's dump and load
  are fields of the configuration record.  Numbers with decimals in messages are left out.
\<close>

record conf =
  c_vault :: path
  c_ignored :: "string list"
  c_indexable :: "string list"
  c_max_content :: nat
  c_max_path :: nat
  c_max_keys :: nat
  c_schema :: schema_config
  c_lib :: pylib
  c_gen :: "nat \<Rightarrow> valgen"
  c_uuid7 :: "nat \<Rightarrow> string"
  c_digest :: "path \<Rightarrow> string"
  c_yaml_dump :: "frontmatter \<Rightarrow> string"
  c_yaml_load :: "string \<Rightarrow> pyval option"
  c_ai :: ai_conf
  c_lock_timeout :: rat

section \<open>Operation results\<close>

record op_result =
  or_success :: bool
  or_message :: string
  or_path :: string
  or_code :: "string option"
  or_enriched :: "bool option"
  or_filled :: "nat option"
  or_id_added :: "bool option"
  or_id :: "pyval option"
  or_warnings :: "issue list"
  or_suggestions :: "issue list"

definition op_base :: "bool \<Rightarrow> string \<Rightarrow> string \<Rightarrow> string option \<Rightarrow> op_result" where
  "op_base ok path msg code = \<lparr>or_success = ok, or_message = msg, or_path = path, or_code = code,
     or_enriched = None, or_filled = None, or_id_added = None, or_id = None,
     or_warnings = [], or_suggestions = []\<rparr>"

definition success_result :: "string \<Rightarrow> string \<Rightarrow> op_result" where
  "success_result path msg = op_base True path msg None"

definition error_result :: "string \<Rightarrow> string \<Rightarrow> string option \<Rightarrow> op_result" where
  "error_result path msg code = op_base False path msg code"

lemma op_result_success [simp]:
  "or_success (success_result p m)" "\<not> or_success (error_result p m c)"
  by (simp_all add: success_result_def error_result_def op_base_def)

section \<open>Path resolution\<close>

definition relative_to :: "path \<Rightarrow> path \<Rightarrow> path result" where
  "relative_to p base = (if prefix base p then Inr (drop (length base) p)
     else Inl (ValueError ''is not in the subpath''))"

text \<open>\<open>vault_root.joinpath(*parts)\<close>: an absolute part replaces what precedes it.\<close>

definition join_path :: "path \<Rightarrow> purepath \<Rightarrow> path" where
  "join_path base q = (if pp_abs q then pp_parts q else base @ pp_parts q)"

definition resolve_internal_path :: "conf \<Rightarrow> string list \<Rightarrow> path io" where
  "resolve_internal_path C parts =
     bind_io (resolve_io (c_vault C)) (\<lambda>vault_root.
     bind_io (resolve_io (foldl join_path vault_root (map pure_path parts))) (\<lambda>candidate.
     case relative_to candidate vault_root of
       Inl _ \<Rightarrow> raise_io (ValueError ''Internal path is invalid or outside the vault.'')
     | Inr _ \<Rightarrow> return_io candidate))"

definition resolve_path :: "conf \<Rightarrow> string \<Rightarrow> path io" where
  "resolve_path C relative_path =
     (if strip relative_path = [] then raise_io (ValueError ''Path cannot be empty.'')
      else
        let relative_path = strip relative_path in
        if c_max_path C < length relative_path
        then raise_io (ValueError (''Path is too long ('' @ show_nat (length relative_path)
               @ '' characters). Maximum: '' @ show_nat (c_max_path C) @ ''.''))
        else bind_io (validate_relative_path relative_path) (\<lambda>ok.
          if \<not> ok then raise_io (ValueError ''Path is invalid or outside the vault.'')
          else catch_io (resolve_internal_path C [relative_path])
            (\<lambda>e. if isinstance e C_ValueError
                 then Some (raise_io (ValueError ''Path is invalid or outside the vault.'')) else None)))"

section \<open>Validators\<close>

definition validate_content_size :: "conf \<Rightarrow> string \<Rightarrow> unit result" where
  "validate_content_size C content =
     (if c_max_content C < utf8_len content then Inl (ValueError ''Content is too large'') else Inr ())"

definition validate_frontmatter_size :: "conf \<Rightarrow> frontmatter \<Rightarrow> unit result" where
  "validate_frontmatter_size C fm =
     (if c_max_keys C < length fm
      then Inl (ValueError (''Frontmatter has too many keys ('' @ show_nat (length fm)
             @ ''). Maximum: '' @ show_nat (c_max_keys C) @ ''.''))
      else Inr ())"

definition rel_suffix :: "string \<Rightarrow> string" where
  "rel_suffix rel = py_lower (path_suffix (pp_parts (pure_path rel)))"

definition unsupported :: "string \<Rightarrow> string \<Rightarrow> unit result" where
  "unsupported ext msg = Inl (ValueError (''Extension '' @ quoted ext @ msg))"

definition validate_extension :: "conf \<Rightarrow> string \<Rightarrow> bool \<Rightarrow> unit result" where
  "validate_extension C rel allow_create =
     (if allow_create then
        if rel_suffix rel \<notin> {''.md'', ''.canvas''}
        then unsupported (rel_suffix rel) '' is not writable. Use: .canvas, .md'' else Inr ()
      else if rel_suffix rel \<notin> set (c_indexable C)
        then unsupported (rel_suffix rel) '' is not supported.'' else Inr ())"

definition validate_readable_text :: "string \<Rightarrow> unit result" where
  "validate_readable_text rel =
     (if rel_suffix rel \<noteq> ''.md'' then unsupported (rel_suffix rel)
        '' does not support plain-text reads. Use: .md. Use search_vault to search PDFs and Canvas files.''
      else Inr ())"

definition validate_markdown_only :: "string \<Rightarrow> unit result" where
  "validate_markdown_only rel =
     (if rel_suffix rel \<noteq> ''.md'' then unsupported (rel_suffix rel)
        '' is not supported for this operation. Only .md is supported because Canvas is JSON, not Markdown.''
      else Inr ())"

text \<open>\<open>Path(relative_path).parts\<close>, the anchor of an absolute path included.\<close>

definition lexical_parts :: "string \<Rightarrow> string list" where
  "lexical_parts rel = (if pp_abs (pure_path rel) then [''/''] else []) @ pp_parts (pure_path rel)"

definition validate_not_ignored_folder :: "conf \<Rightarrow> string \<Rightarrow> unit result" where
  "validate_not_ignored_folder C rel =
     (case List.find (\<lambda>d. d \<in> set (lexical_parts rel)) (c_ignored C) of
        None \<Rightarrow> Inr ()
      | Some d \<Rightarrow> Inl (ValueError (''Operation is not allowed in ignored folder: '' @ d)))"

definition validate_for_write ::
  "conf \<Rightarrow> string \<Rightarrow> string option \<Rightarrow> frontmatter option \<Rightarrow> bool \<Rightarrow> path io" where
  "validate_for_write C rel content fm markdown_only =
     bind_io (lift_io (if markdown_only then validate_markdown_only rel
                       else validate_extension C rel True)) (\<lambda>_.
     bind_io (lift_io (validate_not_ignored_folder C rel)) (\<lambda>_.
     bind_io (lift_io (case content of None \<Rightarrow> Inr () | Some s \<Rightarrow> validate_content_size C s)) (\<lambda>_.
     bind_io (lift_io (case fm of None \<Rightarrow> Inr () | Some d \<Rightarrow> validate_frontmatter_size C d)) (\<lambda>_.
     resolve_path C rel))))"

definition serialize_frontmatter :: "conf \<Rightarrow> frontmatter \<Rightarrow> string" where
  "serialize_frontmatter C fm = (if fm = [] then [] else
     ''---'' @ [CHR 0x0A] @ c_yaml_dump C fm @ ''---'' @ [CHR 0x0A, CHR 0x0A])"

definition file_revision :: "path \<Rightarrow> revision option io" where
  "file_revision p = catch_io (bind_io (stat_io p) (\<lambda>r. return_io (Some r)))
     (\<lambda>e. if isinstance e C_FileNotFoundError then Some (return_io None) else None)"

section \<open>Guarded reads and writes\<close>

text \<open>
  The \<open>except\<close> clauses are tried in order: \<open>UnicodeDecodeError\<close> is a \<open>ValueError\<close>, so
  the third one is never reached.
\<close>

definition safe_read_text :: "conf \<Rightarrow> path \<Rightarrow> string \<Rightarrow> (op_result + string) io" where
  "safe_read_text C file_path rel = catch_io
     (bind_io (resolve_strict_io file_path) (\<lambda>resolved.
      bind_io (resolve_io (c_vault C)) (\<lambda>vault_root.
      bind_io (lift_io (relative_to resolved vault_root)) (\<lambda>_.
      bind_io (read_text_io file_path) (\<lambda>content. return_io (Inr content))))))
     (\<lambda>e. if isinstance e C_OSError
          then Some (return_io (Inl (error_result rel ''Failed to read file'' None)))
          else if isinstance e C_ValueError
          then Some (return_io (Inl (error_result rel ''Path is invalid or outside the vault'' None)))
          else if isinstance e C_UnicodeDecodeError
          then Some (return_io (Inl (error_result rel ''Encoding error: file is not valid UTF-8'' None)))
          else None)"

definition move_to_recovery :: "conf \<Rightarrow> path \<Rightarrow> unit io" where
  "move_to_recovery C temp_path =
     bind_io (resolve_internal_path C [''.trash'', ''write-failures'']) (\<lambda>dir.
     bind_io (mkdir_io dir) (\<lambda>_.
     bind_io random_io (\<lambda>hex.
     replace_io temp_path (dir @ [hex @ ''-'' @ path_name temp_path]))))"

definition temp_exists_recovery :: "conf \<Rightarrow> path \<Rightarrow> unit io" where
  "temp_exists_recovery C temp_path =
     bind_io (exists_io temp_path) (\<lambda>there.
     when_io there (catch_io (move_to_recovery C temp_path)
       (\<lambda>e. if isinstance e C_OSError \<or> isinstance e C_ValueError
            then Some (return_io ()) else None)))"

text \<open>
  The write in three stages.  The first makes the temporary file and assigns \<open>temp_path\<close>
  only once it is synced; the second is what the \<open>finally\<close> clause guards: it ends with the
  rename, or with a conflict or an exception, after which the temporary file is moved to the
  recovery folder; the third syncs the directory, ignoring failures.
\<close>

definition write_temp :: "path \<Rightarrow> path \<Rightarrow> string \<Rightarrow> path io" where
  "write_temp resolved_parent file_path content =
     bind_io (create_temp_io resolved_parent (''.'' @ path_name file_path @ ''.'') ''.tmp'') (\<lambda>temp_path.
     bind_io (write_sync_io temp_path content) (\<lambda>_. return_io temp_path))"

definition publish_temp ::
  "path \<Rightarrow> path \<Rightarrow> nat option \<Rightarrow> string \<Rightarrow> revision option \<Rightarrow> bool \<Rightarrow> op_result option io" where
  "publish_temp temp_path file_path previous_mode rel expected check =
     bind_io (case previous_mode of None \<Rightarrow> return_io () | Some m \<Rightarrow> chmod_io temp_path m) (\<lambda>_.
     bind_io (if check then bind_io (file_revision file_path) (\<lambda>r. return_io (r \<noteq> expected))
              else return_io False) (\<lambda>conflict.
     if conflict
     then return_io (Some (error_result rel
       ''Write conflict: the note changed during the operation. Try again.'' None))
     else bind_io (replace_io temp_path file_path) (\<lambda>_. return_io None)))"

text \<open>Running \<open>f\<close> after \<open>m\<close> unless \<open>m\<close> published the file.\<close>

definition unless_published :: "op_result option io \<Rightarrow> unit io \<Rightarrow> op_result option io" where
  "unless_published m f = (\<lambda>E w. case m E w of
      (Inr None, w') \<Rightarrow> (Inr None, w')
    | (r, w') \<Rightarrow> (case f E w' of (Inl e, w'') \<Rightarrow> (Inl e, w'') | (Inr _, w'') \<Rightarrow> (r, w'')))"

definition sync_directory :: "path \<Rightarrow> unit io" where
  "sync_directory p = catch_io (sync_dir_io p)
     (\<lambda>e. if isinstance e C_OSError then Some (return_io ()) else None)"

text \<open>The file part of \<open>safe_write_text\<close>, from the write to the directory sync.\<close>

definition write_and_publish ::
  "conf \<Rightarrow> path \<Rightarrow> path \<Rightarrow> nat option \<Rightarrow> string \<Rightarrow> string \<Rightarrow> revision option \<Rightarrow> bool \<Rightarrow> op_result option io" where
  "write_and_publish C d p m s rel expected check =
     bind_io (write_temp d p s) (\<lambda>tmp.
     bind_io (unless_published (publish_temp tmp p m rel expected check) (temp_exists_recovery C tmp)) (\<lambda>r.
     case r of Some err \<Rightarrow> return_io (Some err)
     | None \<Rightarrow> bind_io (sync_directory d) (\<lambda>_. return_io None)))"

definition safe_write_text ::
  "conf \<Rightarrow> path \<Rightarrow> string \<Rightarrow> string \<Rightarrow> revision option \<Rightarrow> bool \<Rightarrow> op_result option io" where
  "safe_write_text C file_path content rel expected check = catch_io
     (bind_io (resolve_io (c_vault C)) (\<lambda>vault_root.
      bind_io (resolve_strict_io (path_parent file_path)) (\<lambda>resolved_parent.
      bind_io (lift_io (relative_to resolved_parent vault_root)) (\<lambda>_.
      bind_io (exists_io file_path) (\<lambda>there.
      bind_io (if there then
                 bind_io (resolve_strict_io file_path) (\<lambda>resolved_file.
                 bind_io (lift_io (relative_to resolved_file vault_root)) (\<lambda>_.
                 bind_io (mode_io resolved_file) (\<lambda>m. return_io (Some m))))
               else return_io None) (\<lambda>previous_mode.
      write_and_publish C resolved_parent file_path previous_mode content rel expected check))))))
     (\<lambda>e. if isinstance e C_OSError
          then Some (return_io (Some (error_result rel ''Failed to write file'' None)))
          else if isinstance e C_ValueError
          then Some (return_io (Some (error_result rel ''Path is invalid or outside the vault'' None)))
          else None)"

section \<open>Containment\<close>

definition links_stable :: "env \<Rightarrow> bool" where
  "links_stable E \<longleftrightarrow> (\<forall>t own fs. fs_real (e_step E t own fs) = fs_real fs)"

lemma cooperative_links: "cooperative E \<Longrightarrow> links_stable E"
  by (simp add: cooperative_def links_stable_def)

lemma resolve_io_eq:
  "links_stable E \<Longrightarrow> resolve_io p E w = (Inr (fs_real (w_fs w) p), tick E w)"
  by (simp add: resolve_io_def sure_call_def tick_def links_stable_def)

lemma tick_real [simp]: "links_stable E \<Longrightarrow> fs_real (w_fs (tick E w)) = fs_real (w_fs w)"
  by (simp add: tick_def links_stable_def)

lemma resolve_internal_path_eq:
  assumes "links_stable E"
  shows "resolve_internal_path C parts E w =
    (let base = fs_real (w_fs w) (c_vault C);
         q = fs_real (w_fs w) (foldl join_path base (map pure_path parts))
     in (if prefix base q then Inr q
         else Inl (ValueError ''Internal path is invalid or outside the vault.''),
         tick E (tick E w)))"
  using assms
  by (auto simp: resolve_internal_path_def bind_io_def resolve_io_eq relative_to_def return_io_def
      raise_io_def Let_def)

lemma validate_relative_path_eq:
  assumes "links_stable E" "validate_relative_path rel E w = (Inr True, w')"
  shows "\<not> starts_with rel ''/'' \<and> fs_real (w_fs w') = fs_real (w_fs w) \<and>
    (\<forall>part \<in> set (path_components rel). part \<noteq> ''..'' \<and> CHR 0x00 \<notin> set part)"
  using assms(2)
  by (auto simp: validate_relative_path_def return_io_def catch_io_def bind_io_def
      resolve_io_eq [OF assms(1)] assms(1) pure_path_def split: if_splits)

text \<open>The real path a relative path stands for.\<close>

definition note_target :: "(path \<Rightarrow> path) \<Rightarrow> conf \<Rightarrow> string \<Rightarrow> path" where
  "note_target rl C rel = rl (rl (c_vault C) @ path_components (strip rel))"

lemma resolve_path_run:
  assumes "links_stable E" and "resolve_path C rel E w = (Inr p, w')"
  shows "prefix (fs_real (w_fs w) (c_vault C)) p \<and> p = note_target (fs_real (w_fs w)) C rel \<and>
    (\<forall>part \<in> set (path_components (strip rel)). part \<noteq> ''..'' \<and> CHR 0x00 \<notin> set part)"
proof -
  let ?r = "strip rel"
  from assms(2) obtain w1 where v: "validate_relative_path ?r E w = (Inr True, w1)"
    and run: "resolve_internal_path C [?r] E w1 = (Inr p, w')"
    by (auto simp: resolve_path_def raise_io_def bind_io_def catch_io_def Let_def
        split: if_splits prod.splits sum.splits option.splits)
  from validate_relative_path_eq [OF assms(1) v] have v': "\<not> starts_with ?r ''/''"
    "fs_real (w_fs w1) = fs_real (w_fs w)"
    "\<forall>part \<in> set (path_components ?r). part \<noteq> ''..'' \<and> CHR 0x00 \<notin> set part" by auto
  from run v' show ?thesis
    by (auto simp: resolve_internal_path_eq [OF assms(1)] Let_def join_path_def pure_path_def
        note_target_def split: if_splits)
qed

text \<open>C10. Every path an operation accepts lies in the vault: it is the resolution of the vault
  root followed by the components of the stripped relative path, none of which is \<open>..\<close> or
  holds a null character, and symbolic links that lead out of the vault are refused.\<close>

theorem resolve_path_contained:
  assumes "links_stable E" and "resolve_path C rel E w = (Inr p, w')"
  shows "prefix (fs_real (w_fs w) (c_vault C)) p \<and>
    p = fs_real (w_fs w) (fs_real (w_fs w) (c_vault C) @ path_components (strip rel)) \<and>
    (\<forall>part \<in> set (path_components (strip rel)). part \<noteq> ''..'' \<and> CHR 0x00 \<notin> set part)"
  using resolve_path_run [OF assms] unfolding note_target_def .

definition sample_conf :: conf where
  "sample_conf = \<lparr>c_vault = [''v''], c_ignored = [''.trash'', ''.obsidian''],
     c_indexable = [''.md'', ''.pdf'', ''.canvas''], c_max_content = 1000, c_max_path = 100,
     c_max_keys = 10, c_schema = note_config, c_lib = sample_lib, c_gen = (\<lambda>_. sample_gen),
     c_uuid7 = (\<lambda>_. sample_uuid), c_digest = (\<lambda>_. ''0''), c_yaml_dump = (\<lambda>_. ''k: v'' @ [CHR 0x0A]),
     c_yaml_load = (\<lambda>_. Some (PDict [(PStr ''k'', PStr ''v'')])), c_ai = sample_ai, c_lock_timeout = 5\<rparr>"

lemma quiet_links: "links_stable quiet_env"
  by (simp add: cooperative_links quiet_env_simps)

theorem resolve_path_contained_witness:
  "\<exists>w'. resolve_path sample_conf '' a//b.md '' quiet_env start_world = (Inr [''v'', ''a'', ''b.md''], w') \<and>
     prefix [''v''] [''v'', ''a'', ''b.md'']"
proof -
  have parts: "strip '' a//b.md '' = ''a//b.md''" "path_components ''a//b.md'' = [''a'', ''b.md'']"
    by code_simp+
  have checks: "\<not> starts_with ''a//b.md'' ''/''" "\<not> starts_with ''a//b.md'' [backslash]"
    "starts_with (path_str (safe_base @ [''a'', ''b.md''])) (path_str safe_base)"
    by code_simp+
  obtain w' where run: "resolve_path sample_conf '' a//b.md '' quiet_env start_world
      = (Inr [''v'', ''a'', ''b.md''], w')"
    by (simp add: resolve_path_def parts checks validate_relative_path_def pure_path_def bind_io_def
        catch_io_def return_io_def resolve_io_eq quiet_links resolve_internal_path_eq Let_def
        join_path_def sample_conf_def start_world_def empty_fs_def quiet_tick split: prod.splits)
  from resolve_path_contained [OF quiet_links run] run show ?thesis
    by (auto simp: start_world_def empty_fs_def sample_conf_def)
qed

text \<open>The ignored-folder check sees the path before it is stripped, the resolution after:
  a path with a leading blank passes the check and is resolved inside the ignored folder.\<close>

theorem ignored_folder_bypass:
  "fst (validate_for_write sample_conf '' .trash/x.md'' (Some ''text'') None True quiet_env start_world)
     = Inr [''v'', ''.trash'', ''x.md''] \<and>
   validate_not_ignored_folder sample_conf ''.trash/x.md''
     = Inl (ValueError ''Operation is not allowed in ignored folder: .trash'')"
proof -
  have parts: "strip '' .trash/x.md'' = ''.trash/x.md''"
    "path_components ''.trash/x.md'' = [''.trash'', ''x.md'']"
    "path_components '' .trash/x.md'' = ['' .trash'', ''x.md'']"
    by code_simp+
  have checks: "\<not> starts_with ''.trash/x.md'' ''/''" "\<not> starts_with ''.trash/x.md'' [backslash]"
    "\<not> starts_with '' .trash/x.md'' ''/''"
    "starts_with (path_str (safe_base @ [''.trash'', ''x.md''])) (path_str safe_base)"
    "py_lower (path_suffix ['' .trash'', ''x.md'']) = ''.md''" "utf8_len ''text'' = 4"
    by code_simp+
  have "fst (resolve_path sample_conf '' .trash/x.md'' quiet_env w) = Inr [''v'', ''.trash'', ''x.md'']"
    if "w_fs w = empty_fs" for w
    using that
    by (simp add: resolve_path_def parts checks validate_relative_path_def pure_path_def bind_io_def
        catch_io_def return_io_def resolve_io_eq quiet_links resolve_internal_path_eq Let_def
        join_path_def sample_conf_def empty_fs_def quiet_tick split: prod.splits)
  then show ?thesis
    by (simp add: validate_for_write_def validate_markdown_only_def rel_suffix_def pure_path_def parts
        checks validate_not_ignored_folder_def lexical_parts_def validate_content_size_def bind_io_def
        lift_io_def) (simp add: sample_conf_def start_world_def utf8_width_def)
qed

section \<open>Guarded accesses under a lock\<close>

lemma keeps_resolve_internal [intro!]:
  "cooperative E \<Longrightarrow> keeps E (locked rl p c) (resolve_internal_path C parts)"
  unfolding resolve_internal_path_def by (intro keeps_bind) (auto split: sum.split)

lemma keeps_resolve_path [intro!]:
  "cooperative E \<Longrightarrow> keeps E (locked rl p c) (resolve_path C rel)"
  unfolding resolve_path_def Let_def
  by (auto intro!: keeps_validate_relative_path split: if_split_asm)

lemma keeps_validate_for_write [intro!]:
  "cooperative E \<Longrightarrow> keeps E (locked rl p c) (validate_for_write C rel s fm md)"
  unfolding validate_for_write_def by (intro keeps_bind) auto

lemma validate_for_write_run:
  assumes "links_stable E" "validate_for_write C rel s fm md E w = (Inr p, w')" "fs_real (w_fs w) = rl"
  shows "p = note_target rl C rel"
proof -
  from assms(2) have "resolve_path C rel E w = (Inr p, w')" by (auto simp: validate_for_write_def io_runs)
  from resolve_path_run [OF assms(1) this] assms(3) show ?thesis by simp
qed

lemma logs_resolve_internal [intro!]: "logs E S (resolve_internal_path C parts)"
  unfolding resolve_internal_path_def by (intro logs_bind) (auto split: sum.split)

lemma logs_resolve_path [intro!]: "logs E S (resolve_path C rel)"
  unfolding resolve_path_def Let_def validate_relative_path_def
  by (auto split: if_split_asm)

lemma logs_validate_for_write [intro!]: "logs E S (validate_for_write C rel s fm md)"
  unfolding validate_for_write_def by (intro logs_bind) auto

definition cell_revision :: "regfile option \<times> revision option \<Rightarrow> revision option" where
  "cell_revision c = (case fst c of Some f \<Rightarrow> Some (revision_of f) | None \<Rightarrow> snd c)"

lemma locked_revision: "locked rl p c w \<Longrightarrow> entry_revision (w_fs w) (fs_real (w_fs w) p) = cell_revision c"
  by (auto simp: locked_def entry_revision_def cell_revision_def split: option.split)

lemma keeps_file_revision [intro!]:
  "cooperative E \<Longrightarrow> keeps E (locked rl p c) (file_revision q)"
  unfolding file_revision_def by (intro keeps_catch keeps_bind) (auto split: if_splits)

text \<open>Under a lock every reading of the revision gives the same answer.\<close>

lemma file_revision_locked:
  assumes "cooperative E" "os_faults E" "locked rl p c w" "file_revision p E w = (Inr v, w')"
  shows "v = cell_revision c \<and> locked rl p c w'"
proof -
  from assms(4) have "v = entry_revision (w_fs (tick E w)) (fs_real (w_fs (tick E w)) p)"
    using assms(2)
    by (auto simp: file_revision_def io_runs stat_io_def syscall_def os_faults_def
        split: prod.splits option.splits if_splits)
  with locked_revision [OF locked_tick [OF assms(1,3)]]
    keeps_run [OF keeps_file_revision [OF assms(1)] assms(4,3)]
  show ?thesis by simp
qed

lemma keeps_safe_read [intro!]:
  "cooperative E \<Longrightarrow> keeps E (locked rl p c) (safe_read_text C q rel)"
  unfolding safe_read_text_def by (intro keeps_catch keeps_bind) (auto split: if_splits)

text \<open>What \<open>safe_read_text\<close> returns under a lock is the text of the locked file.\<close>

definition file_text :: "regfile option \<Rightarrow> string option" where
  "file_text F = (case F of Some f \<Rightarrow> (case f_data f of Utf8 s \<Rightarrow> Some (universal_newlines s) | _ \<Rightarrow> None)
                  | None \<Rightarrow> None)"

lemma read_text_locked:
  assumes "cooperative E" "locked rl p c w" "read_text_io p E w = (Inr s, w')"
  shows "file_text (fst c) = Some s"
  using assms(3) locked_tick [OF assms(1,2)]
  by (auto simp: read_text_io_def syscall_def locked_def file_text_def
      split: option.splits fdata.splits if_splits)

lemma safe_read_locked:
  assumes "cooperative E" "locked rl p c w" "safe_read_text C p rel E w = (Inr r, w')"
  shows "locked rl p c w' \<and> (case r of Inr s \<Rightarrow> file_text (fst c) = Some s | Inl err \<Rightarrow> \<not> or_success err)"
proof -
  have "locked rl p c w'" using keeps_run [OF keeps_safe_read [OF assms(1)] assms(3,2)] .
  moreover have "\<not> or_success err" if "r = Inl err" for err
    using assms(3) that
    by (auto simp: safe_read_text_def catch_run bind_run_Inr basic_run split: if_splits)
  moreover have "file_text (fst c) = Some s" if s: "r = Inr s" for s
  proof -
    from assms(3) s obtain w1 w2 q b where 1: "resolve_strict_io p E w = (Inr q, w1)"
      "resolve_io (c_vault C) E w1 = (Inr b, w2)" "read_text_io p E w2 = (Inr s, w')"
      by (auto simp: safe_read_text_def catch_run bind_run_Inr basic_run split: if_splits)
    have "locked rl p c w1"
      by (rule keeps_run [OF locked_keeps(5) [OF assms(1)] 1(1) assms(2)])
    then have "locked rl p c w2" by (rule keeps_run [OF locked_keeps(4) [OF assms(1)] 1(2)])
    from read_text_locked [OF assms(1) this 1(3)] show ?thesis .
  qed
  ultimately show ?thesis by (auto split: sum.split)
qed

text \<open>The paths of the application itself, which no note may be or contain.\<close>

definition internal_dir :: "(path \<Rightarrow> path) \<Rightarrow> conf \<Rightarrow> string list \<Rightarrow> path" where
  "internal_dir rl C parts = rl (foldl join_path (rl (c_vault C)) (map pure_path parts))"

definition apart :: "(path \<Rightarrow> path) \<Rightarrow> conf \<Rightarrow> path \<Rightarrow> bool" where
  "apart rl C p \<longleftrightarrow>
     (let d = internal_dir rl C [''.trash'', ''write-failures''] in \<not> prefix p d \<and> \<not> prefix d p) \<and>
     (let d = internal_dir rl C [''.vault-search-locks''] in \<not> prefix p d \<and> \<not> prefix d p)"

lemma resolve_internal_run:
  assumes "links_stable E" "resolve_internal_path C parts E w = (Inr q, w')" "fs_real (w_fs w) = rl"
  shows "q = internal_dir rl C parts"
  using assms by (auto simp: resolve_internal_path_eq internal_dir_def Let_def split: if_splits)

lemma locked_real: "locked rl p c w \<Longrightarrow> fs_real (w_fs w) = rl"
  by (simp add: locked_def)

lemma keeps_move_to_recovery:
  assumes "cooperative E" "apart rl C p" "p \<noteq> tmp"
  shows "keeps E (locked rl p c) (move_to_recovery C tmp)"
proof (rule keepsI)
  let ?I = "locked rl p c"
  define rest where "rest = (\<lambda>dir. bind_io (mkdir_io dir) (\<lambda>_. bind_io random_io (\<lambda>hex.
        replace_io tmp (dir @ [hex @ ''-'' @ path_name tmp]))))"
  fix w r w' assume I: "?I w" and run: "move_to_recovery C tmp E w = (r, w')"
  obtain q w1 where q: "resolve_internal_path C [''.trash'', ''write-failures''] E w = (q, w1)"
    by (cases "resolve_internal_path C [''.trash'', ''write-failures''] E w")
  have I1: "?I w1" by (rule keeps_run [OF keeps_resolve_internal [OF assms(1)] q I])
  show "?I w'"
  proof (cases q)
    case (Inl e)
    with run q I1 show ?thesis by (simp add: move_to_recovery_def bind_io_def)
  next
    case (Inr dir)
    with q have "dir = internal_dir rl C [''.trash'', ''write-failures'']"
      using resolve_internal_run [OF cooperative_links [OF assms(1)] _ locked_real [OF I]] by blast
    with assms(2) have "\<not> prefix p dir" "\<not> prefix dir p" by (simp_all add: apart_def Let_def)
    then have "keeps E ?I (rest dir)" unfolding rest_def
      using assms(1,3) by (intro keeps_bind locked_mkdir locked_keeps locked_replace_other) auto
    moreover from run q Inr have "rest dir E w1 = (r, w')"
      by (simp add: move_to_recovery_def rest_def bind_io_def)
    ultimately show ?thesis using I1 keeps_run by blast
  qed
qed

lemma keeps_recovery:
  assumes "cooperative E" "apart rl C p" "p \<noteq> tmp"
  shows "keeps E (locked rl p c) (temp_exists_recovery C tmp)"
  unfolding temp_exists_recovery_def
  by (rule keeps_bind [OF locked_keeps(6) [OF assms(1)]], rule keeps_when, rule keeps_catch)
     (auto intro: keeps_move_to_recovery [OF assms] split: if_splits)

text \<open>The temporary file between its write and its rename.\<close>

definition temp_ready :: "path \<Rightarrow> string \<Rightarrow> world \<Rightarrow> bool" where
  "temp_ready tmp s w \<longleftrightarrow> tmp \<in> set (w_own w) \<and>
     (\<exists>f. fs_files (w_fs w) tmp = Some f \<and> f_data f = Utf8 s)"

lemma temp_ready_tick: "cooperative E \<Longrightarrow> temp_ready tmp s w \<Longrightarrow> temp_ready tmp s (tick E w)"
  by (auto simp: temp_ready_def tick_def cooperative_def)

lemma create_temp_locked:
  assumes "cooperative E" "locked rl p c w" "create_temp_io d (''.'' @ path_name p @ ''.'') suf E w = (r, w')"
  shows "locked rl p c w' \<and> (\<forall>tmp. r = Inr tmp \<longrightarrow> tmp \<noteq> p \<and> temp_ready tmp [] w')"
proof -
  have ne: "d @ [''.'' @ path_name p @ ''.'' @ x @ suf] \<noteq> p" for x
  proof
    assume "d @ [''.'' @ path_name p @ ''.'' @ x @ suf] = p"
    then have "path_name p = ''.'' @ path_name p @ ''.'' @ x @ suf"
      by (metis path_name_def last_snoc snoc_eq_iff_butlast)
    then have "length (path_name p) = length (''.'' @ path_name p @ ''.'' @ x @ suf)" by simp
    then show False by simp
  qed
  from assms(3) locked_tick [OF assms(1,2)] ne [of "e_random E (w_tick (tick E w))"] show ?thesis
    by (auto simp: create_temp_io_def syscall_def Let_def locked_def temp_ready_def
        split: option.splits if_splits)
qed

lemma write_sync_ready:
  assumes "cooperative E" "locked rl p c w" "temp_ready tmp t w" "tmp \<noteq> p"
    "write_sync_io tmp s E w = (r, w')"
  shows "locked rl p c w' \<and> (r = Inr () \<longrightarrow> temp_ready tmp s w')"
  using assms(5) locked_tick [OF assms(1,2)] temp_ready_tick [OF assms(1,3)] assms(4)
  by (auto simp: write_sync_io_def syscall_def locked_def temp_ready_def split: option.splits)

lemma write_temp_locked:
  assumes "cooperative E" "locked rl p c w" "write_temp d p s E w = (r, w')"
  shows "locked rl p c w' \<and> (\<forall>tmp. r = Inr tmp \<longrightarrow> tmp \<noteq> p \<and> temp_ready tmp s w')"
proof -
  obtain q w1 where q: "create_temp_io d (''.'' @ path_name p @ ''.'') ''.tmp'' E w = (q, w1)"
    by (cases "create_temp_io d (''.'' @ path_name p @ ''.'') ''.tmp'' E w")
  from create_temp_locked [OF assms(1,2) q] have 1: "locked rl p c w1"
    "\<forall>tmp. q = Inr tmp \<longrightarrow> tmp \<noteq> p \<and> temp_ready tmp [] w1" by auto
  show ?thesis
  proof (cases q)
    case (Inl e)
    with q assms(3) 1 show ?thesis by (auto simp: write_temp_def bind_io_def)
  next
    case (Inr tmp)
    obtain r2 w2 where 2: "write_sync_io tmp s E w1 = (r2, w2)" by (cases "write_sync_io tmp s E w1")
    with q Inr assms(3) have "w' = w2" "\<forall>t. r = Inr t \<longrightarrow> t = tmp \<and> r2 = Inr ()"
      by (auto simp: write_temp_def bind_io_def return_io_def split: sum.splits)
    with write_sync_ready [OF assms(1) 1(1) _ _ 2] 1(2) Inr show ?thesis by auto
  qed
qed

definition both :: "(path \<Rightarrow> path) \<Rightarrow> path \<Rightarrow> regfile option \<times> revision option \<Rightarrow> path \<Rightarrow> string \<Rightarrow> world \<Rightarrow> bool" where
  "both rl p c tmp s w \<longleftrightarrow> locked rl p c w \<and> temp_ready tmp s w"

lemma both_chmod:
  assumes "cooperative E" "tmp \<noteq> p"
  shows "keeps E (both rl p c tmp s) (chmod_io tmp m)"
proof (rule keepsI)
  fix w r w' assume "both rl p c tmp s w" "chmod_io tmp m E w = (r, w')"
  moreover from this have "both rl p c tmp s (tick E w)"
    using locked_tick [OF assms(1)] temp_ready_tick [OF assms(1)] by (simp add: both_def)
  ultimately show "both rl p c tmp s w'" using assms(2)
    by (auto simp: chmod_io_def syscall_def both_def locked_def temp_ready_def split: option.splits)
qed

lemma both_file_revision:
  assumes "cooperative E"
  shows "keeps E (both rl p c tmp s) (file_revision q)"
proof -
  have "keeps E (both rl p c tmp s) (stat_io q)"
  proof (rule keepsI)
    fix w r w' assume "both rl p c tmp s w" "stat_io q E w = (r, w')"
    moreover from this have "both rl p c tmp s (tick E w)"
      using locked_tick [OF assms] temp_ready_tick [OF assms] by (simp add: both_def)
    ultimately show "both rl p c tmp s w'"
      by (auto simp: stat_io_def syscall_def both_def locked_def temp_ready_def split: option.splits)
  qed
  then show ?thesis unfolding file_revision_def by (intro keeps_catch keeps_bind) (auto split: if_splits)
qed

lemma replace_publishes:
  assumes "cooperative E" "both rl p c tmp s w" "tmp \<noteq> p" "replace_io tmp p E w = (r, w')"
  shows "case r of Inr _ \<Rightarrow> \<exists>f. f_data f = Utf8 s \<and> locked rl p (Some f, snd c) w'
    | Inl _ \<Rightarrow> locked rl p c w'"
proof -
  have "both rl p c tmp s (tick E w)"
    using assms(2) locked_tick [OF assms(1)] temp_ready_tick [OF assms(1)] by (simp add: both_def)
  with assms(3,4) show ?thesis
    by (auto simp: replace_io_def syscall_def both_def locked_def temp_ready_def rename_file_def
        split: option.splits if_splits)
qed

text \<open>Stage two publishes the content or leaves the note as it was.\<close>

lemma publish_locked:
  assumes "cooperative E" "tmp \<noteq> p" "both rl p c tmp s w"
    and "publish_temp tmp p m rel expected check E w = (r, w')"
  shows "case r of Inr None \<Rightarrow> \<exists>f. f_data f = Utf8 s \<and> locked rl p (Some f, snd c) w'
    | Inr (Some err) \<Rightarrow> \<not> or_success err \<and> locked rl p c w' | Inl _ \<Rightarrow> locked rl p c w'"
proof -
  let ?I = "both rl p c tmp s"
  define m1 where "m1 = (case m of None \<Rightarrow> return_io () | Some m \<Rightarrow> chmod_io tmp m)"
  define m2 where "m2 = (if check then bind_io (file_revision p) (\<lambda>r. return_io (r \<noteq> expected))
              else return_io False)"
  have k1: "keeps E ?I m1" and k2: "keeps E ?I m2"
    using assms(1,2)
    by (auto simp: m1_def m2_def intro!: both_chmod both_file_revision split: option.split)
  obtain r1 w1 where 1: "m1 E w = (r1, w1)" by (cases "m1 E w")
  obtain r2 w2 where 2: "m2 E w1 = (r2, w2)" by (cases "m2 E w1")
  obtain r3 w3 where 3: "replace_io tmp p E w2 = (r3, w3)" by (cases "replace_io tmp p E w2")
  have I1: "?I w1" by (rule keeps_run [OF k1 1 assms(3)])
  have I2: "?I w2" by (rule keeps_run [OF k2 2 I1])
  have "publish_temp tmp p m rel expected check = bind_io m1 (\<lambda>_. bind_io m2 (\<lambda>conflict.
     if conflict then return_io (Some (error_result rel
       ''Write conflict: the note changed during the operation. Try again.'' None))
     else bind_io (replace_io tmp p) (\<lambda>_. return_io None)))"
    by (simp add: publish_temp_def m1_def m2_def)
  with assms(4) 1 2 3 I1 I2 replace_publishes [OF assms(1) I2 assms(2) 3] show ?thesis
    by (auto simp: bind_io_def return_io_def both_def split: sum.splits if_splits)
qed

lemma sync_directory_run:
  assumes "cooperative E" "os_faults E" "locked rl p c w" "sync_directory d E w = (r, w')"
  shows "r = Inr () \<and> locked rl p c w'"
  using assms(2,4) locked_tick [OF assms(1,3)]
  by (auto simp: sync_directory_def catch_io_def sync_dir_io_def syscall_def os_faults_def return_io_def
      split: option.splits if_splits)

definition write_outcome ::
  "(path \<Rightarrow> path) \<Rightarrow> path \<Rightarrow> regfile option \<times> revision option \<Rightarrow> string \<Rightarrow> op_result option result \<Rightarrow> world \<Rightarrow> bool" where
  "write_outcome rl p c s r w = (case r of
      Inr None \<Rightarrow> \<exists>f. f_data f = Utf8 s \<and> locked rl p (Some f, snd c) w
    | Inr (Some err) \<Rightarrow> \<not> or_success err \<and> locked rl p c w
    | Inl _ \<Rightarrow> locked rl p c w)"

lemma write_and_publish_locked:
  assumes "cooperative E" "os_faults E" "apart rl C p" "locked rl p c w"
    and "write_and_publish C d p m s rel expected check E w = (r, w')"
  shows "write_outcome rl p c s r w'"
proof -
  obtain q w1 where 1: "write_temp d p s E w = (q, w1)" by (cases "write_temp d p s E w")
  from write_temp_locked [OF assms(1,4) 1] have I1: "locked rl p c w1"
    "\<forall>tmp. q = Inr tmp \<longrightarrow> tmp \<noteq> p \<and> temp_ready tmp s w1" by auto
  show ?thesis
  proof (cases q)
    case (Inl e)
    with 1 I1 assms(5) show ?thesis by (auto simp: write_and_publish_def bind_io_def write_outcome_def)
  next
    case (Inr tmp)
    with I1 have tmp: "tmp \<noteq> p" "both rl p c tmp s w1" by (auto simp: both_def)
    obtain r2 w2 where 2: "publish_temp tmp p m rel expected check E w1 = (r2, w2)"
      by (cases "publish_temp tmp p m rel expected check E w1")
    note pub = publish_locked [OF assms(1) tmp 2]
    obtain r3 w3 where 3: "temp_exists_recovery C tmp E w2 = (r3, w3)"
      by (cases "temp_exists_recovery C tmp E w2")
    obtain r4 w4 where 4: "sync_directory d E w2 = (r4, w4)" by (cases "sync_directory d E w2")
    have run: "write_and_publish C d p m s rel expected check E w =
        (if r2 = Inr None then (if isl r4 then (Inl (projl r4), w4) else (Inr None, w4))
         else if isl r3 then (Inl (projl r3), w3) else (r2, w3))"
      using 1 2 3 4 Inr
      by (auto simp: write_and_publish_def bind_io_def unless_published_def return_io_def
          split: sum.splits option.splits)
    show ?thesis
    proof (cases "r2 = Inr None")
      case True
      with pub obtain f where "f_data f = Utf8 s" and f: "locked rl p (Some f, snd c) w2" by auto
      with sync_directory_run [OF assms(1,2) f 4] run True assms(5) show ?thesis
        by (auto simp: write_outcome_def)
    next
      case False
      with pub have "locked rl p c w2" by (auto split: sum.splits option.splits)
      then have "locked rl p c w3"
        using keeps_run [OF keeps_recovery [OF assms(1,3)] 3] tmp(1) by auto
      with False run pub assms(5) show ?thesis
        by (auto simp: write_outcome_def split: sum.splits option.splits if_splits)
    qed
  qed
qed

lemma safe_write_locked:
  assumes "cooperative E" "os_faults E" "apart rl C p" "locked rl p c w"
    and "safe_write_text C p content rel expected check E w = (r, w')"
  shows "write_outcome rl p c content r w'"
proof -
  let ?I = "locked rl p c"
  note keep = locked_keeps [OF assms(1), of rl p c]
  define pre where "pre = bind_io (resolve_io (c_vault C)) (\<lambda>vault_root.
      bind_io (resolve_strict_io (path_parent p)) (\<lambda>resolved_parent.
      bind_io (lift_io (relative_to resolved_parent vault_root)) (\<lambda>_.
      bind_io (exists_io p) (\<lambda>there.
      bind_io (if there then
                 bind_io (resolve_strict_io p) (\<lambda>resolved_file.
                 bind_io (lift_io (relative_to resolved_file vault_root)) (\<lambda>_.
                 bind_io (mode_io resolved_file) (\<lambda>m. return_io (Some m))))
               else return_io None) (\<lambda>previous_mode.
      return_io (resolved_parent, previous_mode))))))"
  have kpre: "keeps E ?I pre" unfolding pre_def by (intro keeps_bind keep) (auto intro!: keep)
  define body where "body = bind_io pre (\<lambda>(d, m). write_and_publish C d p m content rel expected check)"
  have body: "write_outcome rl p c content r w'" if "body E w = (r, w')" for r w'
  proof -
    obtain q w1 where 1: "pre E w = (q, w1)" by (cases "pre E w")
    have I1: "?I w1" by (rule keeps_run [OF kpre 1 assms(4)])
    show ?thesis
    proof (cases q)
      case (Inl e)
      with 1 I1 that show ?thesis by (auto simp: body_def bind_io_def write_outcome_def)
    next
      case (Inr dm)
      with 1 that write_and_publish_locked [OF assms(1-3) I1] show ?thesis
        by (cases dm) (auto simp: body_def bind_io_def)
    qed
  qed
  define handler where "handler = (\<lambda>e. if isinstance e C_OSError
          then Some (return_io (Some (error_result rel ''Failed to write file'' None)))
          else if isinstance e C_ValueError
          then Some (return_io (Some (error_result rel ''Path is invalid or outside the vault'' None)))
          else None)"
  have "safe_write_text C p content rel expected check E w = catch_io body handler E w"
    by (simp add: safe_write_text_def body_def handler_def pre_def)
       (auto simp: catch_io_def bind_io_def return_io_def split: prod.splits sum.splits)
  with assms(5) have run: "catch_io body handler E w = (r, w')" by simp
  obtain q w1 where b: "body E w = (q, w1)" by (cases "body E w")
  from body [OF b] run b show ?thesis
    by (auto simp: catch_io_def handler_def return_io_def write_outcome_def
        split: sum.splits option.splits if_splits)
qed

subsection \<open>Logs and exceptions of the guarded accesses\<close>

definition no_event :: "event \<Rightarrow> bool" where
  "no_event e = True"

lemma logs_file_revision [intro!]: "(\<And>r. S (EvStat p r)) \<Longrightarrow> logs E S (file_revision p)"
  unfolding file_revision_def by (intro logs_catch logs_bind) (auto split: if_split_asm)

lemma logs_safe_read [intro!]: "S (EvRead p) \<Longrightarrow> logs E S (safe_read_text C p rel)"
  unfolding safe_read_text_def by (intro logs_catch logs_bind) (auto split: if_split_asm)

lemma logs_unless_published [intro!]:
  assumes "logs E S m" "logs E S f" shows "logs E S (unless_published m f)"
  unfolding logs_def
proof (intro allI impI)
  fix w r w' assume run: "unless_published m f E w = (r, w')"
  obtain q w1 where 1: "m E w = (q, w1)" by (cases "m E w")
  obtain q' w2 where 2: "f E w1 = (q', w2)" by (cases "f E w1")
  from assms 1 2 obtain l l' where l: "w_log w1 = w_log w @ l" "\<forall>e \<in> set l. S e"
    "w_log w2 = w_log w1 @ l'" "\<forall>e \<in> set l'. S e" unfolding logs_def by blast
  have "w' = w1 \<or> w' = w2"
    using run 1 2 by (auto simp: unless_published_def split: sum.splits option.splits)
  moreover have "w_log w2 = w_log w @ (l @ l')" "\<forall>e \<in> set (l @ l'). S e" using l by auto
  ultimately show "\<exists>l. w_log w' = w_log w @ l \<and> (\<forall>e \<in> set l. S e)" using l by blast
qed

lemma logs_safe_write [intro!]: "logs E (\<lambda>_. True) (safe_write_text C p s rel expected check)"
  unfolding safe_write_text_def write_and_publish_def write_temp_def publish_temp_def
    temp_exists_recovery_def move_to_recovery_def sync_directory_def
  by (auto split: if_split_asm)

text \<open>None of them raises anything but an \<open>OSError\<close> or a \<open>ValueError\<close>, and no timeout.\<close>

lemma raises_file_revision [intro!]:
  "os_faults E \<Longrightarrow> raises E os_or_value (file_revision p)"
  unfolding file_revision_def
  by (rule raises_catch [where S' = os_or_value]) (auto split: option.split)

lemma raises_mono: "raises E S m \<Longrightarrow> (\<And>e. S e \<Longrightarrow> S' e) \<Longrightarrow> raises E S' m"
  by (auto simp: raises_def)

lemma raises_resolve_internal [intro!]: "raises E os_or_value (resolve_internal_path C parts)"
  unfolding resolve_internal_path_def by (intro raises_bind) (auto split: sum.split)

lemma raises_resolve_path [intro!]: "raises E os_or_value (resolve_path C rel)"
  unfolding resolve_path_def Let_def validate_relative_path_def
  by (auto intro!: raises_catch [where S' = os_or_value] split: if_split_asm)

lemma raises_validate_for_write [intro!]: "raises E os_or_value (validate_for_write C rel s fm md)"
  unfolding validate_for_write_def
  by (intro raises_bind)
     (auto simp: validate_markdown_only_def validate_extension_def validate_not_ignored_folder_def
        validate_content_size_def validate_frontmatter_size_def unsupported_def
        split: if_splits option.splits)

lemma raises_relative_to [intro!]: "raises E os_or_value (lift_io (relative_to p q))"
  by (auto simp: relative_to_def split: if_splits)

lemma raises_safe_read [intro!]: "os_faults E \<Longrightarrow> raises E os_or_value (safe_read_text C p rel)"
  unfolding safe_read_text_def
  by (rule raises_catch [where S' = os_or_value]) (auto intro!: raises_bind)

lemma raises_unless_published [intro!]:
  "raises E S m \<Longrightarrow> raises E S f \<Longrightarrow> raises E S (unless_published m f)"
  by (fastforce simp: raises_def unless_published_def split: prod.splits sum.splits option.splits)

lemma raises_safe_write [intro!]:
  "os_faults E \<Longrightarrow> raises E os_or_value (safe_write_text C p s rel expected check)"
  unfolding safe_write_text_def write_and_publish_def write_temp_def publish_temp_def
    temp_exists_recovery_def move_to_recovery_def sync_directory_def
  by (rule raises_catch [where S' = os_or_value])
     (auto intro!: raises_catch [where S' = os_or_value])

end
