(* ===== verification/Crud_Locking.thy ===== *)
theory Crud_Locking
  imports Crud_Validation "HOL-Library.List_Lexorder" "HOL-Library.Char_ord"
begin

text \<open>
  \<open>crud/locking.py\<close>: the timeout values, the lock file of a path, the bounded acquisition of
  the thread lock and of \<open>flock\<close>, the two context managers as higher-order operations
  around a body, and the conversion of a timeout into a result.  The digest of a path and the
  outcome of each \<open>flock\<close> attempt come from the configuration and the environment.  A
  platform without \<open>fcntl\<close> is not modelled.
\<close>

section \<open>Timeouts\<close>

definition valid_timeout :: "pyfloat \<Rightarrow> rat option" where
  "valid_timeout x = (case x of Fin t \<Rightarrow> if t < 0 \<or> 300 < t then None else Some t | _ \<Rightarrow> None)"

text \<open>\<open>_load_default_timeout\<close>: the environment variable, parsed by \<open>float\<close>.\<close>

definition load_default_timeout :: "pylib \<Rightarrow> string option \<Rightarrow> rat" where
  "load_default_timeout L raw = (case raw of
      None \<Rightarrow> 5
    | Some s \<Rightarrow> (case lib_parse_float L s of
        None \<Rightarrow> 5
      | Some x \<Rightarrow> (case valid_timeout x of None \<Rightarrow> 5 | Some t \<Rightarrow> t)))"

definition validated_timeout :: "rat \<Rightarrow> pyfloat option \<Rightarrow> rat result" where
  "validated_timeout default_timeout timeout =
     (case valid_timeout (case timeout of None \<Rightarrow> Fin default_timeout | Some x \<Rightarrow> x) of
        None \<Rightarrow> Inl (ValueError ''Lock timeout must be between 0 and 300 seconds.'')
      | Some t \<Rightarrow> Inr t)"

lemma validated_timeout_bounds: "validated_timeout d t = Inr x \<Longrightarrow> 0 \<le> x \<and> x \<le> 300"
  by (auto simp: validated_timeout_def valid_timeout_def split: option.splits pyfloat.splits if_splits)

lemma load_default_timeout_bounds: "0 \<le> load_default_timeout L raw \<and> load_default_timeout L raw \<le> 300"
  by (auto simp: load_default_timeout_def valid_timeout_def split: option.splits pyfloat.splits)

section \<open>One lock\<close>

definition lock_path :: "conf \<Rightarrow> path \<Rightarrow> path io" where
  "lock_path C file_path =
     bind_io (resolve_io file_path) (\<lambda>canonical_path.
     bind_io (resolve_internal_path C []) (\<lambda>vault_root.
     bind_io (case relative_to canonical_path vault_root of
         Inl _ \<Rightarrow> raise_io (ValueError ''Lock path is invalid or outside the vault.'')
       | Inr _ \<Rightarrow> return_io ()) (\<lambda>_.
     bind_io (resolve_internal_path C [''.vault-search-locks'']) (\<lambda>lock_dir.
     bind_io (mkdir_io lock_dir) (\<lambda>_.
     bind_io (resolve_strict_io lock_dir) (\<lambda>lock_dir.
     return_io (lock_dir @ [c_digest C canonical_path @ ''.lock'']))))))) "

text \<open>\<open>lock.acquire(timeout=...)\<close> succeeds or not as the environment says.\<close>

definition acquire_thread_lock :: "rat \<Rightarrow> unit io" where
  "acquire_thread_lock deadline =
     bind_io now_io (\<lambda>t.
     bind_io (sure_call (\<lambda>E w. (e_thread E (w_tick w), w\<lparr>w_now := w_now w +
         (if e_thread E (w_tick w) then 0 else max 0 (deadline - t))\<rparr>))) (\<lambda>ok.
     if ok then return_io () else raise_io WriteLockTimeoutError))"

text \<open>
  One non-blocking \<open>flock\<close>.  When it is granted the operation owns the path; the log records
  the file it finds there.
\<close>

definition flock_io :: "path \<Rightarrow> flock_outcome io" where
  "flock_io p = sure_call (\<lambda>E w. (e_flock E (w_tick w),
     if e_flock E (w_tick w) = Granted
     then w\<lparr>w_own := p # w_own w, w_log := w_log w @ [EvLock p (fs_files (w_fs w) p)]\<rparr> else w))"

text \<open>The owned paths form a stack: a release ends the ownership of all that came after.\<close>

definition unlock_io :: "path \<Rightarrow> unit io" where
  "unlock_io p = syscall (\<lambda>E w. (Inr (), w\<lparr>w_own := drop 1 (dropWhile (\<lambda>q. q \<noteq> p) (w_own w)), w_log := w_log w @ [EvUnlock p]\<rparr>))"

fun acquire_flock :: "nat \<Rightarrow> path \<Rightarrow> rat \<Rightarrow> unit io" where
  "acquire_flock 0 p deadline = raise_io OtherError"
| "acquire_flock (Suc n) p deadline =
     bind_io (flock_io p) (\<lambda>outcome.
     case outcome of
       Granted \<Rightarrow> return_io ()
     | Broken \<Rightarrow> raise_io OSError
     | Busy \<Rightarrow> bind_io now_io (\<lambda>t.
         if deadline - t \<le> 0 then raise_io WriteLockTimeoutError
         else bind_io (sleep_io (min (1 / 20) (deadline - t))) (\<lambda>_. acquire_flock n p deadline)))"

text \<open>\<open>os.open\<close> of the lock directory, then of the lock file with \<open>O_CREAT\<close>.\<close>

definition open_lock_io :: "path \<Rightarrow> unit io" where
  "open_lock_io lp = syscall (\<lambda>E w.
     if fs_dirs (w_fs w) (path_parent lp) = None then (Inl FileNotFoundError, w)
     else if fs_dirs (w_fs w) lp \<noteq> None then (Inl OSError, w)
     else if fs_files (w_fs w) lp \<noteq> None then (Inr (), w)
     else (Inr (), w\<lparr>w_fs := (w_fs w)\<lparr>fs_files := (fs_files (w_fs w))(lp \<mapsto>
            \<lparr>f_inode = e_inode E (w_tick w), f_mtime = e_mtime E (w_tick w), f_mode = 384,
             f_data = Utf8 []\<rparr>)\<rparr>\<rparr>))"

definition open_lock_file :: "conf \<Rightarrow> path \<Rightarrow> path \<Rightarrow> unit io" where
  "open_lock_file C file_path initial_lock_path =
     catch_io (open_lock_io initial_lock_path)
       (\<lambda>e. if isinstance e C_FileNotFoundError
            then Some (bind_io (lock_path C file_path) open_lock_io) else None)"

text \<open>
  The deadline is at most 300 seconds away and every unsuccessful attempt sleeps a twentieth
  of a second or to the deadline, so 6002 attempts are enough (lemma \<open>acquire_flock_fuel\<close>).
\<close>

definition lock_fuel :: nat where
  "lock_fuel = 6002"

definition enter_path_lock :: "conf \<Rightarrow> rat \<Rightarrow> path \<Rightarrow> pyfloat option \<Rightarrow> unit io" where
  "enter_path_lock C default_timeout file_path timeout_seconds =
     bind_io (lift_io (validated_timeout default_timeout timeout_seconds)) (\<lambda>timeout.
     bind_io now_io (\<lambda>t.
     bind_io (lock_path C file_path) (\<lambda>lp.
     bind_io (acquire_thread_lock (t + timeout)) (\<lambda>_.
     bind_io (open_lock_file C file_path lp) (\<lambda>_.
     acquire_flock lock_fuel file_path (t + timeout))))))"

text \<open>Closing the lock file and releasing the thread lock change nothing the model keeps.\<close>

definition advisory_path_lock :: "conf \<Rightarrow> rat \<Rightarrow> path \<Rightarrow> pyfloat option \<Rightarrow> 'a io \<Rightarrow> 'a io" where
  "advisory_path_lock C default_timeout file_path timeout_seconds body =
     bind_io (enter_path_lock C default_timeout file_path timeout_seconds) (\<lambda>_.
     finally_io body (unlock_io file_path))"

section \<open>Several locks\<close>

fun enter_locks :: "conf \<Rightarrow> rat \<Rightarrow> rat \<Rightarrow> path list \<Rightarrow> 'a io \<Rightarrow> 'a io" where
  "enter_locks C default_timeout deadline [] body = body"
| "enter_locks C default_timeout deadline (p # ps) body =
     bind_io now_io (\<lambda>t.
     advisory_path_lock C default_timeout p (Some (Fin (max 0 (deadline - t))))
       (enter_locks C default_timeout deadline ps body))"

text \<open>The dictionary of resolved paths, and its values in the order of the sorted keys.\<close>

fun unique_paths :: "path list \<Rightarrow> (string, path) dict \<Rightarrow> (string, path) dict io" where
  "unique_paths [] d = return_io d"
| "unique_paths (p # ps) d =
     bind_io (resolve_io p) (\<lambda>q. unique_paths ps (dset (path_str q) p d))"

definition lock_order :: "(string, path) dict \<Rightarrow> path list" where
  "lock_order d = map (\<lambda>k. the (dget d k)) (sort (dkeys d))"

definition advisory_path_locks :: "conf \<Rightarrow> rat \<Rightarrow> path list \<Rightarrow> pyfloat option \<Rightarrow> 'a io \<Rightarrow> 'a io" where
  "advisory_path_locks C default_timeout file_paths timeout_seconds body =
     bind_io (lift_io (validated_timeout default_timeout timeout_seconds)) (\<lambda>timeout.
     bind_io now_io (\<lambda>t.
     bind_io (unique_paths file_paths []) (\<lambda>d.
     enter_locks C default_timeout (t + timeout) (lock_order d) body)))"

definition return_write_lock_timeout :: "string \<Rightarrow> op_result io \<Rightarrow> op_result io" where
  "return_write_lock_timeout rel m = catch_io m
     (\<lambda>e. if isinstance e C_WriteLockTimeoutError
          then Some (return_io (error_result rel ''Timed out waiting for another write. Try again.''
                 (Some ''write_lock_timeout'')))
          else None)"

section \<open>The wait for a lock ends\<close>

lemma w_now_tick: "w_now (tick E w) = w_now w + e_delay E (w_tick w)"
  by (simp add: tick_def)

lemma acquire_flock_step:
  "acquire_flock (Suc n) p deadline E w = (r, w') \<Longrightarrow>
   r = Inr () \<or> r = Inl OSError \<or> (r = Inl WriteLockTimeoutError \<and> deadline \<le> w_now w') \<or>
   (\<exists>t w1. acquire_flock n p deadline E w1 = (r, w') \<and> t < deadline \<and>
      w_now w + e_delay E (w_tick w) + e_delay E (Suc (w_tick w)) = t \<and>
      w_now w1 = t + e_delay E (Suc (Suc (w_tick w))) + min (1 / 20) (deadline - t))"
  by (fastforce simp: bind_io_def flock_io_def sure_call_def now_io_def return_io_def raise_io_def
        sleep_io_def w_now_tick split: flock_outcome.splits if_splits)

lemma acquire_flock_fuel:
  assumes "\<And>t. 0 \<le> e_delay E t" and "deadline - w_now w \<le> of_nat n / 20"
    and "acquire_flock (n + 2) p deadline E w = (r, w')"
  shows "r = Inr () \<or> r = Inl OSError \<or> (r = Inl WriteLockTimeoutError \<and> deadline \<le> w_now w')"
  using assms(2,3)
proof (induction n arbitrary: w)
  case 0
  have "\<not> w_now w + e_delay E (w_tick w) + e_delay E (Suc (w_tick w)) < deadline"
    using 0 assms(1) [of "w_tick w"] assms(1) [of "Suc (w_tick w)"] by simp
  with acquire_flock_step [of 1 p deadline E w r w'] 0 show ?case by (auto simp: numeral_2_eq_2)
next
  case (Suc n)
  have "acquire_flock (Suc (n + 2)) p deadline E w = (r, w')" using Suc.prems(2) by simp
  from acquire_flock_step [OF this] show ?case
  proof (elim disjE exE conjE)
    fix t w1
    assume 1: "acquire_flock (n + 2) p deadline E w1 = (r, w')" "t < deadline"
      "w_now w + e_delay E (w_tick w) + e_delay E (Suc (w_tick w)) = t"
      "w_now w1 = t + e_delay E (Suc (Suc (w_tick w))) + min (1 / 20) (deadline - t)"
    have "deadline - w_now w1 \<le> of_nat n / 20"
      using 1 Suc.prems(1) assms(1) [of "w_tick w"] assms(1) [of "Suc (w_tick w)"]
        assms(1) [of "Suc (Suc (w_tick w))"]
      by (simp add: min_def split: if_splits)
    from Suc.IH [OF this 1(1)] show ?thesis .
  qed simp_all
qed

text \<open>C22. Waiting for the write lock ends whatever the other writers do: within the polling
  bound the lock is granted, or the system call fails, or the wait is given up with
  \<open>WriteLockTimeoutError\<close>, and that only once the deadline has passed.\<close>

theorem acquire_flock_terminates:
  assumes "\<And>t. 0 \<le> e_delay E t" and "validated_timeout d t = Inr timeout"
    and "start \<le> w_now w"
    and "acquire_flock lock_fuel p (start + timeout) E w = (r, w')"
  shows "r = Inr () \<or> r = Inl OSError \<or>
    (r = Inl WriteLockTimeoutError \<and> start + timeout \<le> w_now w')"
proof -
  have "start + timeout - w_now w \<le> of_nat 6000 / 20"
    using validated_timeout_bounds [OF assms(2)] assms(3) by simp
  from acquire_flock_fuel [OF assms(1) this] assms(4) show ?thesis by (simp add: lock_fuel_def)
qed

theorem acquire_flock_terminates_witness:
  "\<exists>r w'. acquire_flock lock_fuel [''v'', ''a.md''] (0 + 5) (quiet_env\<lparr>e_flock := \<lambda>t. Busy\<rparr>) start_world = (r, w') \<and>
     (r = Inr () \<or> r = Inl OSError \<or> (r = Inl WriteLockTimeoutError \<and> 0 + 5 \<le> w_now w'))"
proof -
  let ?E = "quiet_env\<lparr>e_flock := \<lambda>t. Busy\<rparr>"
  have "validated_timeout 5 None = Inr 5" by (simp add: validated_timeout_def valid_timeout_def)
  moreover have "\<And>t. 0 \<le> e_delay ?E t" by (simp add: quiet_env_def)
  moreover have "0 \<le> w_now start_world" by (simp add: start_world_def)
  moreover obtain r w' where "acquire_flock lock_fuel [''v'', ''a.md''] (0 + 5) ?E start_world = (r, w')"
    by (cases "acquire_flock lock_fuel [''v'', ''a.md''] (0 + 5) ?E start_world")
  ultimately show ?thesis using acquire_flock_terminates [of ?E 5 None 5 0 start_world] by blast
qed

section \<open>Working under the lock\<close>

lemma acquire_flock_locked:
  assumes "cooperative E" "rl p = p"
  shows "fs_real (w_fs w) = rl \<Longrightarrow> acquire_flock n p deadline E w = (Inr (), w') \<Longrightarrow>
    \<exists>c. locked rl p c w' \<and> w_log w' = w_log w @ [EvLock p (fst c)]"
proof (induction n arbitrary: w)
  case 0
  then show ?case by (simp add: raise_io_def)
next
  case (Suc n)
  have real: "fs_real (w_fs (tick E v)) = fs_real (w_fs v)" for v
    using assms(1) by (simp add: cooperative_links)
  show ?case
  proof (cases "e_flock E (Suc (w_tick w))")
    case Granted
    with Suc.prems assms(2) real show ?thesis
      by (auto simp: bind_io_def flock_io_def sure_call_def return_io_def locked_def)
  next
    case Busy
    with Suc.prems obtain w1 where "acquire_flock n p deadline E w1 = (Inr (), w')" "fs_real (w_fs w1) = rl"
      "w_log w1 = w_log w"
      using real by (auto simp: bind_io_def flock_io_def sure_call_def now_io_def return_io_def
          raise_io_def sleep_io_def split: if_splits)
    with Suc.IH [of w1] show ?thesis by simp
  next
    case Broken
    with Suc.prems show ?thesis by (simp add: bind_io_def flock_io_def sure_call_def raise_io_def)
  qed
qed

text \<open>Operations that do not touch the links.\<close>

definition keeps_links :: "env \<Rightarrow> 'a io \<Rightarrow> bool" where
  "keeps_links E m \<longleftrightarrow> (\<forall>rl. keeps E (\<lambda>w. fs_real (w_fs w) = rl) m)"

lemma keeps_links_run: "keeps_links E m \<Longrightarrow> m E w = (r, w') \<Longrightarrow> fs_real (w_fs w') = fs_real (w_fs w)"
  unfolding keeps_links_def by (metis (mono_tags, lifting) keeps_run)

lemma keeps_links_calls [intro!]:
  assumes "links_stable E"
  shows "keeps_links E now_io" "keeps_links E (sleep_io d)" "keeps_links E (resolve_io p)"
    "keeps_links E (resolve_strict_io p)" "keeps_links E (mkdir_io p)" "keeps_links E (open_lock_io p)"
    "keeps_links E (stat_io p)"
  using assms
  by (auto simp: keeps_links_def keeps_def triple_def now_io_def sleep_io_def resolve_io_def
      resolve_strict_io_def mkdir_io_def make_dirs_def open_lock_io_def syscall_def sure_call_def
      stat_io_def split: option.splits)

lemma keeps_links_combinators [intro!]:
  "keeps_links E (return_io x)" "keeps_links E (raise_io e)" "keeps_links E (lift_io r)"
  "keeps_links E m \<Longrightarrow> (\<And>x. keeps_links E (f x)) \<Longrightarrow> keeps_links E (bind_io m f)"
  "keeps_links E m \<Longrightarrow> (\<And>e m'. h e = Some m' \<Longrightarrow> keeps_links E m') \<Longrightarrow> keeps_links E (catch_io m h)"
  by (auto simp: keeps_links_def)

lemma keeps_links_lock_path [intro!]: "links_stable E \<Longrightarrow> keeps_links E (lock_path C p)"
  unfolding lock_path_def resolve_internal_path_def
  by (intro keeps_links_combinators) (auto split: sum.splits)

lemma keeps_links_open [intro!]: "links_stable E \<Longrightarrow> keeps_links E (open_lock_file C p lp)"
  unfolding open_lock_file_def by (intro keeps_links_combinators) (auto split: if_splits)

lemma keeps_links_sure:
  "links_stable E \<Longrightarrow> (\<And>w. fs_real (w_fs (snd (act E w))) = fs_real (w_fs w)) \<Longrightarrow> keeps_links E (sure_call act)"
  by (simp add: keeps_links_def keeps_def triple_def sure_call_def case_prod_beta)

lemma keeps_links_thread [intro!]: "links_stable E \<Longrightarrow> keeps_links E (acquire_thread_lock d)"
  unfolding acquire_thread_lock_def
  by (intro keeps_links_combinators keeps_links_sure) auto

definition is_lock_event :: "event \<Rightarrow> bool" where
  "is_lock_event e \<longleftrightarrow> (\<exists>p F. e = EvLock p F)"

lemma logs_flock [intro!]: "logs E is_lock_event (flock_io p)"
  by (auto simp: logs_def flock_io_def sure_call_def is_lock_event_def)

lemma logs_acquire_flock [intro!]: "logs E is_lock_event (acquire_flock n p d)"
  by (induction n) (auto split: flock_outcome.split)

lemma logs_lock_path [intro!]: "logs E is_lock_event (lock_path C p)"
  unfolding lock_path_def by auto

lemma logs_thread [intro!]: "logs E is_lock_event (acquire_thread_lock d)"
  unfolding acquire_thread_lock_def by (auto intro!: logs_sure)

lemma logs_open_lock [intro!]: "logs E is_lock_event (open_lock_file C p lp)"
  unfolding open_lock_file_def open_lock_io_def
  by (auto intro!: logs_syscall split: if_split_asm)

lemma logs_enter [intro!]: "logs E is_lock_event (enter_path_lock C d p t)"
  unfolding enter_path_lock_def by auto

lemma enter_path_lock_run:
  assumes "cooperative E" "fs_real (w_fs w) = rl" "rl p = p"
    and "enter_path_lock C d p t E w = (Inr (), w')"
  shows "\<exists>c. locked rl p c w' \<and> EvLock p (fst c) \<in> set (new_events w w')"
proof -
  note st = cooperative_links [OF assms(1)]
  from assms(4) obtain timeout t0 w1 lp w2 w3 w4 where
    1: "now_io E w = (Inr t0, w1)" "lock_path C p E w1 = (Inr lp, w2)"
    "acquire_thread_lock (t0 + timeout) E w2 = (Inr (), w3)" "open_lock_file C p lp E w3 = (Inr (), w4)"
    and 2: "acquire_flock lock_fuel p (t0 + timeout) E w4 = (Inr (), w')"
    by (auto simp: enter_path_lock_def io_runs)
  have "fs_real (w_fs w4) = rl"
    using keeps_links_run [OF keeps_links_calls(1) [OF st] 1(1)]
      keeps_links_run [OF keeps_links_lock_path [OF st] 1(2)]
      keeps_links_run [OF keeps_links_thread [OF st] 1(3)]
      keeps_links_run [OF keeps_links_open [OF st] 1(4)] assms(2) by simp
  from acquire_flock_locked [OF assms(1,3) this 2] obtain c where c: "locked rl p c w'"
    "w_log w' = w_log w4 @ [EvLock p (fst c)]" by blast
  have "prefix (w_log w) (w_log w4)"
    using logs_prefix [OF logs_calls(1) 1(1)] logs_prefix [OF logs_lock_path 1(2)]
      logs_prefix [OF logs_thread 1(3)] logs_prefix [OF logs_open_lock 1(4)]
    by (meson prefix_order.order_trans)
  with c(2) have "EvLock p (fst c) \<in> set (new_events w w')" by (auto simp: new_events_def prefix_def)
  with c(1) show ?thesis by blast
qed

lemma unlock_run:
  assumes "cooperative E" "locked rl p c w" "unlock_io p E w = (Inr (), w')"
  shows "fs_files (w_fs w') p = fst c"
  using assms(3) locked_tick [OF assms(1,2)]
  by (auto simp: unlock_io_def syscall_def locked_def split: option.splits)

lemma logs_unlock [intro!]: "logs E (\<lambda>_. True) (unlock_io p)"
  by (auto simp: logs_def unlock_io_def syscall_def split: option.splits)

lemma raises_unlock [intro!]: "os_faults E \<Longrightarrow> raises E os_or_value (unlock_io p)"
  by (auto simp: raises_def unlock_io_def syscall_def dest: os_fault_error split: option.splits)

lemma raises_finally [intro!]: "raises E S m \<Longrightarrow> raises E S f \<Longrightarrow> raises E S (finally_io m f)"
  unfolding raises_def finally_run_Inl by blast

section \<open>Edits under the lock\<close>

text \<open>
  The promise of every write operation.  Either the entry of \<open>p\<close> that was there when the lock
  was granted is, at the end, replaced as \<open>edit\<close> allows and the operation reports success, or
  it is as it was and the result is one that \<open>stay\<close> allows; or the lock was never granted, no
  file was renamed onto \<open>p\<close>, and the operation reports failure.
\<close>

definition edit_outcome ::
  "(regfile option \<Rightarrow> string \<Rightarrow> bool) \<Rightarrow> (regfile option \<Rightarrow> op_result \<Rightarrow> bool) \<Rightarrow> path \<Rightarrow> op_result
    \<Rightarrow> world \<Rightarrow> world \<Rightarrow> bool" where
  "edit_outcome edit stay p res w w' \<longleftrightarrow>
     (\<exists>F. EvLock p F \<in> set (new_events w w') \<and>
        (stay F res \<and> fs_files (w_fs w') p = F \<or>
         or_success res \<and> (\<exists>new f. edit F new \<and> fs_files (w_fs w') p = Some f \<and> f_data f = Utf8 new))) \<or>
     \<not> or_success res \<and> (\<forall>q. EvReplace q p \<notin> set (new_events w w'))"

lemma new_events_append:
  "prefix (w_log w) (w_log w1) \<Longrightarrow> prefix (w_log w1) (w_log w2) \<Longrightarrow>
   new_events w w2 = new_events w w1 @ new_events w1 w2"
  by (auto simp: new_events_def prefix_def)

lemma edit_outcome_later:
  assumes "prefix (w_log w) (w_log w1)" "prefix (w_log w1) (w_log w')"
    and "\<forall>q. EvReplace q p \<notin> set (new_events w w1)" and "edit_outcome edit stay p res w1 w'"
  shows "edit_outcome edit stay p res w w'"
  using assms(3,4) unfolding edit_outcome_def new_events_append [OF assms(1,2)] set_append by blast

definition body_outcome ::
  "(path \<Rightarrow> path) \<Rightarrow> path \<Rightarrow> regfile option \<times> revision option \<Rightarrow> (string \<Rightarrow> bool) \<Rightarrow> (op_result \<Rightarrow> bool)
    \<Rightarrow> op_result + 'a \<Rightarrow> world \<Rightarrow> bool" where
  "body_outcome rl p c edit stay r w' =
     (case r of Inl res \<Rightarrow> stay res \<and> locked rl p c w'
      | Inr x \<Rightarrow> \<exists>new f. edit new \<and> f_data f = Utf8 new \<and> locked rl p (Some f, snd c) w')"

definition not_timeout :: "pyexn \<Rightarrow> bool" where
  "not_timeout e \<longleftrightarrow> \<not> isinstance e C_WriteLockTimeoutError"

lemma os_or_value_not_timeout: "os_or_value e \<Longrightarrow> not_timeout e"
  by (cases e) (auto simp: os_or_value_def isinstance_def not_timeout_def)

text \<open>A preparation that renames nothing onto \<open>p\<close>, then a part with the promised outcome.\<close>

lemma timeout_wrapper:
  assumes pre: "logs E (\<lambda>e. \<forall>q. e \<noteq> EvReplace q p) pre"
    and run: "return_write_lock_timeout rel (bind_io pre k) E w = (Inr res, w')"
    and k: "\<And>x w1. pre E w = (Inr x, w1) \<Longrightarrow> logs E (\<lambda>_. True) (k x)"
      "\<And>x w1. pre E w = (Inr x, w1) \<Longrightarrow> k x E w1 = (Inr res, w') \<Longrightarrow> edit_outcome edit stay p res w1 w'"
      "\<And>x w1 q e. pre E w = (Inr x, w1) \<Longrightarrow> k x E w1 = (Inl e, w') \<Longrightarrow>
         isinstance e C_WriteLockTimeoutError \<Longrightarrow> EvReplace q p \<notin> set (new_events w1 w')"
  shows "edit_outcome edit stay p res w w'"
proof -
  let ?safe = "\<lambda>w w'. \<forall>q. EvReplace q p \<notin> set (new_events w w')"
  have safe: "?safe w w1" if "pre E w = (r, w1)" for r w1
    using logs_run [OF pre that] by blast
  from run consider (ok) "bind_io pre k E w = (Inr res, w')"
    | (timeout) e where "bind_io pre k E w = (Inl e, w')" "isinstance e C_WriteLockTimeoutError" "\<not> or_success res"
    by (auto simp: return_write_lock_timeout_def catch_run basic_run split: if_splits option.splits)
  then show ?thesis
  proof cases
    case ok
    then obtain x w1 where 1: "pre E w = (Inr x, w1)" and 2: "k x E w1 = (Inr res, w')"
      unfolding bind_run_Inr by blast
    show ?thesis
      by (rule edit_outcome_later [OF logs_prefix [OF pre 1] logs_prefix [OF k(1) [OF 1] 2] safe [OF 1]
            k(2) [OF 1 2]])
  next
    case timeout
    have "?safe w w'"
    proof (cases "\<exists>x w1. pre E w = (Inr x, w1)")
      case True
      then obtain x w1 where 1: "pre E w = (Inr x, w1)" by blast
      with timeout(1) have 2: "k x E w1 = (Inl e, w')" unfolding bind_run_Inl by auto
      from k(3) [OF 1 2 timeout(2)] safe [OF 1]
        new_events_append [OF logs_prefix [OF pre 1] logs_prefix [OF k(1) [OF 1] 2]]
      show ?thesis by simp
    next
      case False
      with timeout(1) have "pre E w = (Inl e, w')" unfolding bind_run_Inl by blast
      then show ?thesis by (rule safe)
    qed
    with timeout(3) show ?thesis by (simp add: edit_outcome_def)
  qed
qed

text \<open>
  The interface of an operation's locked body: what the code between the acquisition and the
  release promises about the file, for the relative path it is given.
\<close>

definition run_locked ::
  "conf \<Rightarrow> rat \<Rightarrow> path \<Rightarrow> (op_result + 'a) io \<Rightarrow> ('a \<Rightarrow> op_result io) \<Rightarrow> op_result io" where
  "run_locked C d p body finish =
     bind_io (advisory_path_lock C d p None body) (\<lambda>r.
     case r of Inl res \<Rightarrow> return_io res | Inr x \<Rightarrow> finish x)"

locale locked_editor =
  fixes rel :: string
    and body :: "conf \<Rightarrow> path \<Rightarrow> (op_result + 'a) io"
    and finish :: "'a \<Rightarrow> op_result io"
    and edit :: "conf \<Rightarrow> regfile option \<Rightarrow> string \<Rightarrow> bool"
    and stay :: "conf \<Rightarrow> regfile option \<Rightarrow> op_result \<Rightarrow> bool"
  assumes body_contract:
    "cooperative E \<Longrightarrow> os_faults E \<Longrightarrow> apart rl C p \<Longrightarrow> p = note_target rl C rel \<Longrightarrow>
     locked rl p c w \<Longrightarrow> body C p E w = (Inr r, w') \<Longrightarrow>
     body_outcome rl p c (edit C (fst c)) (stay C (fst c)) r w'"
    and body_logs: "logs E (\<lambda>_. True) (body C p)"
    and body_raises: "os_faults E \<Longrightarrow> raises E not_timeout (body C p)"
    and finish_run: "finish x E w = (Inr res, w') \<Longrightarrow> or_success res \<and> w_fs w' = w_fs w"
    and finish_logs: "logs E (\<lambda>_. True) (finish x)"
    and finish_raises: "raises E (\<lambda>_. False) (finish x)"
begin

lemma locked_success:
  assumes "cooperative E" "os_faults E" "apart rl C p" "p = note_target rl C rel" "rl p = p"
    and "fs_real (w_fs w) = rl" "run_locked C d p (body C p) finish E w = (Inr res, w')"
  shows "edit_outcome (edit C) (stay C) p res w w'"
proof -
  from assms(7) obtain w1 w2 w3 r where 1: "enter_path_lock C d p None E w = (Inr (), w1)"
    and 2: "body C p E w1 = (Inr r, w2)" and 3: "unlock_io p E w2 = (Inr (), w3)"
    and 4: "(case r of Inl res \<Rightarrow> return_io res | Inr x \<Rightarrow> finish x) E w3 = (Inr res, w')"
    unfolding run_locked_def advisory_path_lock_def bind_run_Inr finally_run_Inr by auto
  from enter_path_lock_run [OF assms(1,6,5) 1] obtain c where c: "locked rl p c w1"
    "EvLock p (fst c) \<in> set (new_events w w1)" by blast
  have "logs E (\<lambda>_. True) (case r of Inl res \<Rightarrow> return_io res | Inr x \<Rightarrow> finish x)"
    using finish_logs by auto
  from logs_prefix [OF this 4] logs_prefix [OF logs_unlock 3] logs_prefix [OF body_logs 2]
  have ext: "prefix (w_log w1) (w_log w')" by (meson prefix_order.order_trans)
  have ev: "EvLock p (fst c) \<in> set (new_events w w')"
    using c(2) ext logs_prefix [OF logs_enter 1] by (auto simp: new_events_def prefix_def)
  note contract = body_contract [OF assms(1-4) c(1) 2]
  show ?thesis
  proof (cases r)
    case (Inl res')
    with contract have stay: "stay C (fst c) res'" and l: "locked rl p c w2" by (simp_all add: body_outcome_def)
    from 4 Inl have "res = res'" "w' = w3" by (simp_all add: basic_run)
    with stay unlock_run [OF assms(1) l 3] ev show ?thesis unfolding edit_outcome_def by blast
  next
    case (Inr x)
    with contract obtain new f where e: "edit C (fst c) new" "f_data f = Utf8 new"
      and l: "locked rl p (Some f, snd c) w2" by (auto simp: body_outcome_def)
    have "fs_files (w_fs w3) p = Some f" using unlock_run [OF assms(1) l 3] by simp
    moreover have "or_success res" "w_fs w' = w_fs w3" using finish_run 4 Inr by auto
    ultimately show ?thesis using e ev unfolding edit_outcome_def by auto
  qed
qed

text \<open>A timeout can only come from the acquisition, which renames nothing.\<close>

lemma locked_timeout:
  assumes "os_faults E" "run_locked C d p (body C p) finish E w = (Inl e, w')"
    and "isinstance e C_WriteLockTimeoutError"
  shows "EvReplace q p \<notin> set (new_events w w')"
proof -
  have "raises E not_timeout (unlock_io p)"
    using raises_mono [OF raises_unlock [OF assms(1)] os_or_value_not_timeout] .
  with body_raises [OF assms(1)]
  have 1: "raises E not_timeout (finally_io (body C p) (unlock_io p))"
    by auto
  have 2: "raises E not_timeout
      (case r of Inl res \<Rightarrow> return_io res | Inr x \<Rightarrow> finish x)" for r
    using raises_mono [OF finish_raises] by (auto split: sum.split)
  have "\<not> not_timeout e" using assms(3) by (simp add: not_timeout_def)
  with assms(2) raises_D [OF 1] raises_D [OF 2]
  have "enter_path_lock C d p None E w = (Inl e, w')"
    unfolding run_locked_def advisory_path_lock_def bind_run_Inl by blast
  from logs_run [OF logs_enter this, of "EvReplace q p"] show ?thesis
    by (auto simp: is_lock_event_def)
qed

lemma run_locked_logs: "logs E (\<lambda>_. True) (run_locked C d p (body C p) finish)"
  unfolding run_locked_def advisory_path_lock_def
  using body_logs finish_logs logs_mono [OF logs_enter, of "\<lambda>_. True"] by auto

text \<open>The whole operation: preparation, locked edit, and the conversion of a timeout.\<close>

lemma operation_outcome:
  assumes env: "cooperative E" "os_faults E" and p: "p = note_target rl C rel" "rl p = p" "apart rl C p"
    and w: "fs_real (w_fs w) = rl"
    and pre: "logs E (\<lambda>e. \<forall>q. e \<noteq> EvReplace q p) pre" "keeps_links E pre"
      "\<And>r w1. pre E w = (Inr r, w1) \<Longrightarrow> r = p"
    and run: "return_write_lock_timeout rel (bind_io pre (\<lambda>file_path.
        run_locked C d file_path (body C file_path) finish)) E w = (Inr res, w')"
  shows "edit_outcome (edit C) (stay C) p res w w'"
proof (rule timeout_wrapper [OF pre(1) run])
  fix x w1 assume 1: "pre E w = (Inr x, w1)"
  then have x: "x = p" by (rule pre(3))
  have rl: "fs_real (w_fs w1) = rl" using keeps_links_run [OF pre(2) 1] w by simp
  show "logs E (\<lambda>_. True) (run_locked C d x (body C x) finish)" by (rule run_locked_logs)
  show "edit_outcome (edit C) (stay C) p res w1 w'"
    if "run_locked C d x (body C x) finish E w1 = (Inr res, w')"
    using locked_success [OF env p(3,1,2) rl] that x by simp
  show "EvReplace q p \<notin> set (new_events w1 w')"
    if "run_locked C d x (body C x) finish E w1 = (Inl e, w')" "isinstance e C_WriteLockTimeoutError" for q e
    using locked_timeout [OF env(2)] that x by simp
qed

end

end
