(* ===== verification/Note_Parser.thy ===== *)
theory Note_Parser
  imports Py_Values
begin

text \<open>
  \<open>parsers/frontmatter.py\<close>: the delimiter regular expression, the split of a note into front
  matter and body, tags and indexed fields, and the incremental reader.  \<open>yaml.safe_load\<close>
  is a parameter: \<open>None\<close> is a YAML error.  (The byte-order mark lies outside the model's
  character range.)
\<close>

abbreviation nl :: char where "nl \<equiv> CHR 0x0A"

section \<open>The delimiter\<close>

text \<open>
  A match of \<open>^---\s*$\<close> (multi-line) at a line start: after the dashes the white space is
  taken as far as possible, then given back to a point where \<open>$\<close> holds, which is the end of
  the text or the place before a newline.
\<close>

definition delimiter_match :: "string \<Rightarrow> nat option" where
  "delimiter_match s =
     (if prefix ''---'' s then
        let r = drop 3 s; w = takeWhile is_space r in
        if dropWhile is_space r = [] then Some (3 + length w)
        else if nl \<in> set w then Some (3 + length (dropWhile (\<lambda>c. c \<noteq> nl) (rev w)) - 1)
        else None
      else None)"

lemma delimiter_match_pos:
  assumes "delimiter_match s = Some k" shows "3 \<le> k"
proof -
  define w where "w = takeWhile is_space (drop 3 s)"
  have "dropWhile (\<lambda>c. c \<noteq> nl) (rev w) \<noteq> []" if "nl \<in> set w"
    using that by (auto simp: dropWhile_eq_Nil_conv)
  then have "nl \<in> set w \<Longrightarrow> 0 < length (dropWhile (\<lambda>c. c \<noteq> nl) (rev w))" by simp
  with assms show ?thesis
    by (auto simp: delimiter_match_def Let_def w_def [symmetric] simp del: length_greater_0_conv
        split: if_splits)
qed

text \<open>\<open>finditer\<close>: spans of the matches, from a position and whether a line starts there.\<close>

function delimiter_spans :: "nat \<Rightarrow> bool \<Rightarrow> string \<Rightarrow> (nat \<times> nat) list" where
  "delimiter_spans pos bol s =
     (case s of [] \<Rightarrow> []
      | c # cs \<Rightarrow>
          (case (if bol then delimiter_match s else None) of
             Some k \<Rightarrow> (pos, pos + k) # delimiter_spans (pos + k) (last (take k s) = nl) (drop k s)
           | None \<Rightarrow> delimiter_spans (Suc pos) (c = nl) cs))"
  by pat_completeness auto

termination
  by (relation "measure (\<lambda>(pos, bol, s). length s)")
     (auto dest: delimiter_match_pos split: if_splits)

declare delimiter_spans.simps [simp del]

definition finditer :: "string \<Rightarrow> (nat \<times> nat) list" where
  "finditer s = delimiter_spans 0 True s"

section \<open>Splitting a note\<close>

definition load_mapping :: "(string \<Rightarrow> pyval option) \<Rightarrow> string \<Rightarrow> pyval" where
  "load_mapping load s = (case load s of None \<Rightarrow> PDict []
     | Some v \<Rightarrow> if truthy v then v else PDict [])"

definition parse_frontmatter :: "(string \<Rightarrow> pyval option) \<Rightarrow> string \<Rightarrow> frontmatter \<times> string" where
  "parse_frontmatter load content =
     (case finditer content of
        (s1, e1) # (s2, e2) # _ \<Rightarrow>
          if s1 \<noteq> 0 \<and> strip (take s1 content) \<noteq> [] then ([], content)
          else
            let body = strip (drop e2 content) in
            (case load_mapping load (drop e1 (take s2 content)) of
               PDict d \<Rightarrow> (d, body)
             | _ \<Rightarrow> ([], body))
      | _ \<Rightarrow> ([], content))"

section \<open>Tags and indexed fields\<close>

fun str_all :: "pylib \<Rightarrow> pyval list \<Rightarrow> string list result" where
  "str_all L [] = Inr []"
| "str_all L (v # vs) = bind_result (py_str L v) (\<lambda>s.
     bind_result (str_all L vs) (\<lambda>ss. Inr (strip s # ss)))"

definition extract_tags :: "pylib \<Rightarrow> frontmatter \<Rightarrow> string list result" where
  "extract_tags L metadata =
     bind_result
       (case dget metadata (PStr ''tags'') of
          Some (PStr s) \<Rightarrow> Inr (map strip (py_split '','' s))
        | Some (PList vs) \<Rightarrow> str_all L vs
        | _ \<Rightarrow> Inr [])
       (\<lambda>tags. Inr (filter (\<lambda>t. t \<noteq> []) tags))"

text \<open>\<open>m.get(a) or m.get(b) or ...\<close>: the first true value, else the last.\<close>

definition get_or_none :: "frontmatter \<Rightarrow> string \<Rightarrow> pyval" where
  "get_or_none m k = (case dget m (PStr k) of None \<Rightarrow> PNone | Some v \<Rightarrow> v)"

fun first_true :: "frontmatter \<Rightarrow> string list \<Rightarrow> pyval" where
  "first_true m [] = PNone"
| "first_true m [k] = get_or_none m k"
| "first_true m (k # ks) = (if truthy (get_or_none m k) then get_or_none m k else first_true m ks)"

type_synonym fields = "(string, string) dict"

definition put_str :: "pylib \<Rightarrow> string \<Rightarrow> nat option \<Rightarrow> pyval \<Rightarrow> fields \<Rightarrow> fields result" where
  "put_str L k bound v f =
     (if truthy v then bind_result (py_str L v) (\<lambda>s.
        Inr (dset k (case bound of None \<Rightarrow> s | Some n \<Rightarrow> take n s) f))
      else Inr f)"

text \<open>A field taken only when it is a non-empty string.\<close>

definition put_text :: "string \<Rightarrow> (string \<Rightarrow> string) \<Rightarrow> pyval \<Rightarrow> fields \<Rightarrow> fields" where
  "put_text k g v f = (case v of PStr s \<Rightarrow> if s = [] then f else dset k (g s) f | _ \<Rightarrow> f)"

definition category_text :: "pylib \<Rightarrow> pyval \<Rightarrow> string result" where
  "category_text L v =
     (case v of
        PList vs \<Rightarrow> bind_result (str_all L (filter truthy vs)) (\<lambda>ss. Inr (py_join '', '' ss))
      | PStr s \<Rightarrow> Inr (strip s)
      | _ \<Rightarrow> py_str L v)"

definition put_category :: "pylib \<Rightarrow> pyval \<Rightarrow> fields \<Rightarrow> fields result" where
  "put_category L v f =
     (if truthy v then bind_result (category_text L v) (\<lambda>s.
        Inr (if s = [] then f else dset ''category'' (py_lower s) f))
      else Inr f)"

definition extract_frontmatter_fields :: "pylib \<Rightarrow> frontmatter \<Rightarrow> fields result" where
  "extract_frontmatter_fields L m =
     bind_result (put_str L ''id'' None (get_or_none m ''id'') []) (\<lambda>f.
     bind_result (put_str L ''created_at'' (Some 19) (first_true m [''created_at'', ''created'', ''date'']) f) (\<lambda>f.
     bind_result (put_str L ''updated_at'' (Some 19) (first_true m [''updated_at'', ''updated'', ''modified'']) f) (\<lambda>f.
     let f = put_text ''description'' (take 500) (first_true m [''description'', ''summary'', ''excerpt'']) f;
         f = put_text ''status'' (\<lambda>s. strip (py_lower s)) (get_or_none m ''status'') f;
         f = put_text ''note_type'' (\<lambda>s. strip (py_lower s)) (first_true m [''note_type'', ''type'']) f
     in bind_result (put_category L (first_true m [''category'', ''categories'']) f) (\<lambda>f.
     let f = put_text ''project'' strip (get_or_none m ''project'') f
     in Inr (put_text ''source'' (\<lambda>s. take 500 (strip s)) (first_true m [''source'', ''url'', ''link'']) f)))))"

section \<open>The incremental reader\<close>

definition chunk_size :: nat where
  "chunk_size = 4096"

definition max_bytes :: nat where
  "max_bytes = 65536"

text \<open>
  The loop over the chunks of a readable text: the buffer, the bytes read and what is left.
  The result is the metadata and the number of bytes read.
\<close>

function read_loop :: "(string \<Rightarrow> pyval option) \<Rightarrow> string \<Rightarrow> nat \<Rightarrow> string \<Rightarrow> frontmatter \<times> nat" where
  "read_loop load buffer bytes rest =
     (case finditer buffer of
        (s1, e1) # (s2, e2) # _ \<Rightarrow>
          if s1 \<noteq> 0 \<and> strip (take s1 buffer) \<noteq> [] then ([], bytes)
          else (case load (drop e1 (take s2 buffer)) of
                  None \<Rightarrow> ([], bytes)
                | Some v \<Rightarrow> (case (if truthy v then v else PDict []) of PDict d \<Rightarrow> (d, bytes) | _ \<Rightarrow> ([], bytes)))
      | _ \<Rightarrow>
          if max_bytes \<le> bytes \<or> rest = [] then ([], bytes)
          else read_loop load (buffer @ take chunk_size rest)
                 (bytes + utf8_len (take chunk_size rest)) (drop chunk_size rest))"
  by pat_completeness auto

termination
  by (relation "measure (\<lambda>(load, buffer, bytes, rest). length rest)") (auto simp: chunk_size_def)

declare read_loop.simps [simp del]

definition read_frontmatter_only :: "(string \<Rightarrow> pyval option) \<Rightarrow> string \<Rightarrow> frontmatter \<times> nat" where
  "read_frontmatter_only load text =
     (let chunk = take chunk_size text in
      if chunk = [] then ([], 0)
      else if \<not> starts_with (lstrip chunk) ''---'' then ([], utf8_len chunk)
      else read_loop load chunk (utf8_len chunk) (drop chunk_size text))"

section \<open>Printing and parsing\<close>

text \<open>A text none of whose lines starts with the dashes.\<close>

fun no_dash_line :: "bool \<Rightarrow> string \<Rightarrow> bool" where
  "no_dash_line bol [] = True"
| "no_dash_line bol (c # cs) = ((bol \<longrightarrow> \<not> prefix ''---'' (c # cs)) \<and> no_dash_line (c = nl) cs)"

lemma dashes_across_newline:
  assumes "\<not> prefix ''---'' y" "y \<noteq> []" "last y = nl" shows "\<not> prefix ''---'' (y @ t)"
proof
  assume "prefix ''---'' (y @ t)"
  with assms(1) have "prefix y ''---''" by (metis prefix_order.dual_order.eq_iff prefix_same_cases prefixI)
  then have "set y \<subseteq> set ''---''" by (rule set_mono_prefix)
  with assms(2,3) last_in_set [OF assms(2)] show False by auto
qed

lemma delimiter_match_None: "\<not> prefix ''---'' s \<Longrightarrow> delimiter_match s = None"
  by (simp add: delimiter_match_def)

lemma delimiter_spans_skip:
  assumes "no_dash_line bol y" "y \<noteq> []" "last y = nl"
  shows "delimiter_spans pos bol (y @ t) = delimiter_spans (pos + length y) True t"
  using assms
proof (induction y arbitrary: pos bol)
  case Nil
  then show ?case by simp
next
  case (Cons c y)
  have "bol \<longrightarrow> delimiter_match ((c # y) @ t) = None"
    using Cons.prems dashes_across_newline [of "c # y" t] by (auto simp: delimiter_match_None)
  then have "delimiter_spans pos bol ((c # y) @ t) = delimiter_spans (Suc pos) (c = nl) (y @ t)"
    by (subst delimiter_spans.simps) auto
  with Cons show ?case by (cases "y = []") auto
qed

text \<open>Where the match of a delimiter line ends, and that only white space is lost.\<close>

lemma strip_space_prefix: "(\<forall>c \<in> set w. is_space c) \<Longrightarrow> strip (w @ s) = strip s"
  by (simp add: strip_def lstrip_def dropWhile_append2)

lemma delimiter_line_match:
  "\<exists>k. delimiter_match (''---'' @ nl # s) = Some k \<and> strip (drop k (''---'' @ nl # s)) = strip s"
proof -
  define w where "w = takeWhile is_space (nl # s)"
  define r where "r = dropWhile is_space (nl # s)"
  have nlw: "nl \<in> set w" by (simp add: w_def is_space_def)
  have ws: "\<forall>c \<in> set w. is_space c" by (auto simp: w_def dest: set_takeWhileD)
  have eq: "nl # s = w @ r" by (simp add: w_def r_def)
  have "strip s = strip (nl # s)" by (simp add: strip_def lstrip_def is_space_def)
  then have sr: "strip s = strip r" using eq strip_space_prefix [OF ws, of r] by simp
  define k where "k = (if r = [] then 3 + length w else 3 + length (dropWhile (\<lambda>c. c \<noteq> nl) (rev w)) - 1)"
  have "delimiter_match (''---'' @ nl # s) = Some k"
    using nlw by (simp add: delimiter_match_def Let_def k_def w_def r_def del: takeWhile.simps dropWhile.simps)
  moreover have "strip (drop k (''---'' @ nl # s)) = strip s"
  proof -
    let ?n = "length (dropWhile (\<lambda>c. c \<noteq> nl) (rev w))"
    have "dropWhile (\<lambda>c. c \<noteq> nl) (rev w) \<noteq> []" using nlw by (auto simp: dropWhile_eq_Nil_conv)
    then have pos: "0 < ?n" by simp
    have "?n \<le> length w" using length_dropWhile_le [of "\<lambda>c. c \<noteq> nl" "rev w"] by simp
    then have "k = 3 + (if r = [] then length w else ?n - 1)" "(if r = [] then length w else ?n - 1) \<le> length w"
      using pos by (auto simp: k_def)
    then obtain j where k: "k = 3 + j" "j \<le> length w" by blast
    then have "drop k (''---'' @ nl # s) = drop j w @ r" using eq by (simp add: eval_nat_numeral)
    moreover have "\<forall>c \<in> set (drop j w). is_space c" using ws by (auto dest: in_set_dropD)
    ultimately show ?thesis using strip_space_prefix [of "drop j w" r] sr by simp
  qed
  ultimately show ?thesis by blast
qed

text \<open>What a dump must look like to be read back: it starts with a key, ends with a newline and
  holds no line of dashes.\<close>

definition dump_shape :: "string \<Rightarrow> bool" where
  "dump_shape y \<longleftrightarrow> y \<noteq> [] \<and> \<not> is_space (hd y) \<and> last y = nl \<and> no_dash_line True y"

lemma first_delimiter:
  assumes "dump_shape y" shows "delimiter_match (''---'' @ nl # y @ t) = Some 3"
proof -
  obtain c cs where y: "y = c # cs" "\<not> is_space c" using assms by (cases y) (auto simp: dump_shape_def)
  have "is_space nl" by (simp add: is_space_def)
  with y have "takeWhile is_space (nl # y @ t) = [nl]" "dropWhile is_space (nl # y @ t) \<noteq> []" by simp_all
  moreover have "length (dropWhile (\<lambda>c. c \<noteq> nl) [nl]) = 1" by simp
  ultimately show ?thesis
    by (simp add: delimiter_match_def Let_def del: takeWhile.simps dropWhile.simps dropWhile_eq_Nil_conv)
qed

lemma finditer_printed:
  assumes "dump_shape y"
  shows "finditer (''---'' @ nl # y @ t) = (0, 3) # delimiter_spans (4 + length y) True t"
proof -
  have shape: "y \<noteq> []" "last y = nl" "no_dash_line True y" using assms by (simp_all add: dump_shape_def)
  have "finditer (''---'' @ nl # y @ t) = (0, 3) # delimiter_spans 3 False (nl # y @ t)"
    unfolding finditer_def
    by (subst delimiter_spans.simps) (use first_delimiter [OF assms, of t] in simp)
  also have "delimiter_spans 3 False (nl # y @ t) = delimiter_spans 4 True (y @ t)"
    by (subst delimiter_spans.simps) simp
  also have "\<dots> = delimiter_spans (4 + length y) True t"
    by (rule delimiter_spans_skip [OF shape(3,1,2)])
  finally show ?thesis .
qed

lemma drop_append_length_plus: "drop (length xs + k) (xs @ ys) = drop k ys"
  by (induction xs) auto

lemma parse_printed:
  assumes "dump_shape y" "load (nl # y) = Some (PDict d)" "d \<noteq> []"
  shows "parse_frontmatter load (''---'' @ nl # y @ ''---'' @ nl # s) = (d, strip s)"
proof -
  let ?t = "''---'' @ nl # s"
  let ?all = "''---'' @ nl # y @ ?t"
  have shape: "y \<noteq> []" "last y = nl" "no_dash_line True y" using assms(1) by (simp_all add: dump_shape_def)
  obtain k where k: "delimiter_match ?t = Some k" "strip (drop k ?t) = strip s"
    using delimiter_line_match by blast
  have "finditer ?all = (0, 3) # delimiter_spans (4 + length y) True ?t"
    by (rule finditer_printed [OF assms(1)])
  also have "delimiter_spans (4 + length y) True ?t = (4 + length y, 4 + length y + k) #
      delimiter_spans (4 + length y + k) (last (take k ?t) = nl) (drop k ?t)"
    by (subst delimiter_spans.simps) (use k(1) in simp)
  finally obtain rest where spans: "finditer ?all = (0, 3) # (4 + length y, 4 + length y + k) # rest"
    by blast
  have cut: "drop 3 (take (4 + length y) ?all) = nl # y" by (simp add: eval_nat_numeral)
  have "?all = (''---'' @ nl # y) @ ?t" by simp
  moreover have "length (''---'' @ nl # y) = 4 + length y" by simp
  ultimately have body: "drop (4 + length y + k) ?all = drop k ?t"
    using drop_append_length_plus [of "''---'' @ nl # y" k ?t] by metis
  show ?thesis
    by (simp add: parse_frontmatter_def spans cut body k(2) load_mapping_def assms(2,3)
        del: append_Cons drop_append take_append)
qed

lemma delimiter_spans_none: "no_dash_line bol y \<Longrightarrow> delimiter_spans pos bol y = []"
proof (induction y arbitrary: pos bol)
  case Nil
  then show ?case by (subst delimiter_spans.simps) simp
next
  case (Cons c y)
  then show ?case by (subst delimiter_spans.simps) (auto simp: delimiter_match_None)
qed

text \<open>The incremental reader can take a line for the closing delimiter that is not one:
  when the first chunk happens to end right after the dashes of a longer line, the reader
  returns the text before that line as metadata, where the parser of the whole note finds no
  front matter.\<close>

theorem read_frontmatter_only_chunk_boundary:
  assumes "dump_shape y" and "length y = 4089"
    and "load (nl # y) = Some (PDict d)" and "d \<noteq> []"
    and "\<not> is_space c" and "no_dash_line False (c # s)"
  shows "fst (read_frontmatter_only load (''---'' @ nl # y @ ''---'' @ c # s)) = d \<and>
    parse_frontmatter load (''---'' @ nl # y @ ''---'' @ c # s)
      = ([], ''---'' @ nl # y @ ''---'' @ c # s)"
proof -
  let ?text = "''---'' @ nl # y @ ''---'' @ c # s"
  let ?chunk = "''---'' @ nl # y @ ''---''"
  have "delimiter_match (''---'' @ c # s) = None"
    using assms(5) by (simp add: delimiter_match_def Let_def)
  then have "delimiter_spans (4 + length y) True (''---'' @ c # s) = []"
    using assms(6) delimiter_spans_none [OF assms(6)]
    by (subst delimiter_spans.simps, simp)+
  then have whole: "finditer ?text = [(0, 3)]" using finditer_printed [OF assms(1)] by simp
  have "delimiter_match ''---'' = Some 3" by (simp add: delimiter_match_def Let_def)
  then have "delimiter_spans (4 + length y) True ''---'' = [(4 + length y, 7 + length y)]"
    by (subst delimiter_spans.simps, simp) (subst delimiter_spans.simps, simp)
  then have part: "finditer ?chunk = [(0, 3), (4 + length y, 7 + length y)]"
    using finditer_printed [OF assms(1), of "''---''"] by simp
  have chunk: "take chunk_size ?text = ?chunk"
    using assms(2) by (simp add: chunk_size_def eval_nat_numeral)
  have cut: "drop 3 (take (4 + length y) ?chunk) = nl # y" by (simp add: eval_nat_numeral)
  have "starts_with (lstrip ?chunk) ''---''"
    by (simp add: starts_with_def lstrip_def is_space_def)
  then have "read_frontmatter_only load ?text = (d, utf8_len ?chunk)"
    unfolding read_frontmatter_only_def chunk Let_def
    by (subst read_loop.simps)
       (simp add: part cut assms(3,4) del: append_Cons drop_append take_append)
  with whole show ?thesis by (simp add: parse_frontmatter_def)
qed

lemma no_dash_replicate: "c \<noteq> nl \<Longrightarrow> no_dash_line False (replicate n c @ [nl])"
  by (induction n) simp_all

theorem read_frontmatter_only_chunk_boundary_witness:
  "\<exists>text. fst (read_frontmatter_only (\<lambda>_. Some (PDict [(PStr ''a'', PStr ''x'')])) text)
       = [(PStr ''a'', PStr ''x'')] \<and>
     parse_frontmatter (\<lambda>_. Some (PDict [(PStr ''a'', PStr ''x'')])) text = ([], text)"
proof -
  let ?y = "''a: '' @ replicate 4085 (CHR ''x'') @ [nl]"
  have "no_dash_line True ?y" using no_dash_replicate [of "CHR ''x''" 4085] by simp
  then have "dump_shape ?y" by (simp add: dump_shape_def is_space_def)
  moreover have "length ?y = 4089" by simp
  moreover have "\<not> is_space (CHR ''x'')" by (simp add: is_space_def)
  ultimately show ?thesis
    using read_frontmatter_only_chunk_boundary [of ?y "\<lambda>_. Some (PDict [(PStr ''a'', PStr ''x'')])"
        "[(PStr ''a'', PStr ''x'')]" "CHR ''x''" "[]"] by fastforce
qed

end
