(* ===== verification/Crud_Write.thy ===== *)
theory Crud_Write
  imports Crud_Locking Note_Parser
begin

text \<open>
  \<open>crud/write.py\<close>: each operation as its preparation, its body under the lock, and what
  follows the release.  A body returns an early result (left) or what the rest of the
  operation needs (right).  \<open>ignore_next_change\<close> is the event that the watcher's theory
  gives a meaning to; \<open>parse_frontmatter\<close> uses the configured YAML loader.
\<close>

section \<open>Shared steps\<close>

definition write_conflict :: "string \<Rightarrow> op_result" where
  "write_conflict rel = error_result rel
     ''Write conflict: the note changed during the operation. Try again.'' (Some ''write_conflict'')"

definition not_found :: "string \<Rightarrow> op_result" where
  "not_found rel = error_result rel (''Note not found: '' @ rel) None"

text \<open>Read, then check that the revision is still the one seen before the read.\<close>

definition read_stable :: "conf \<Rightarrow> path \<Rightarrow> string \<Rightarrow> revision option \<Rightarrow> (op_result + string) io" where
  "read_stable C file_path rel rvn =
     bind_io (safe_read_text C file_path rel) (\<lambda>r.
     case r of
       Inl err \<Rightarrow> return_io (Inl err)
     | Inr content \<Rightarrow> bind_io (file_revision file_path) (\<lambda>now.
         return_io (if now \<noteq> rvn then Inl (write_conflict rel) else Inr content)))"

text \<open>The edit of a note that must exist: revision, stable read, and what follows.\<close>

definition with_text ::
  "conf \<Rightarrow> path \<Rightarrow> string \<Rightarrow> op_result \<Rightarrow> (revision option \<Rightarrow> string \<Rightarrow> (op_result + 'a) io)
    \<Rightarrow> (op_result + 'a) io" where
  "with_text C file_path rel missing k =
     bind_io (file_revision file_path) (\<lambda>rvn.
     if rvn = None then return_io (Inl missing)
     else bind_io (read_stable C file_path rel rvn) (\<lambda>r.
       case r of Inl err \<Rightarrow> return_io (Inl err) | Inr content \<Rightarrow> k rvn content))"

text \<open>The checked write that ends every body.\<close>

definition write_back ::
  "conf \<Rightarrow> path \<Rightarrow> string \<Rightarrow> string \<Rightarrow> revision option \<Rightarrow> 'a \<Rightarrow> (op_result + 'a) io" where
  "write_back C file_path rel content rvn x =
     bind_io (safe_write_text C file_path content rel rvn True) (\<lambda>err.
     return_io (case err of Some e \<Rightarrow> Inl e | None \<Rightarrow> Inr x))"

text \<open>Schema validation with fresh generators.\<close>

definition validate_frontmatter_schema_result :: "conf \<Rightarrow> frontmatter \<Rightarrow> validation_result io" where
  "validate_frontmatter_schema_result C fm = (\<lambda>E w.
     (validate (c_lib C) (c_gen C (w_tick w)) (c_schema C) (Some fm), tick E w))"

definition format_errors :: "issue list \<Rightarrow> string" where
  "format_errors errors = ''Frontmatter validation failed: '' @
     py_join ''; '' (map (\<lambda>i. is_field i @ '': '' @ is_message i) errors)"

definition validate_frontmatter_schema :: "conf \<Rightarrow> frontmatter \<Rightarrow> validation_result io" where
  "validate_frontmatter_schema C fm =
     bind_io (validate_frontmatter_schema_result C fm) (\<lambda>r.
     if \<not> vr_valid r then raise_io (ValueError (format_errors (vr_errors r))) else return_io r)"

definition generate_uuid7 :: "conf \<Rightarrow> string io" where
  "generate_uuid7 C = (\<lambda>E w. (Inr (c_uuid7 C (w_tick w)), tick E w))"

definition with_issues :: "op_result \<Rightarrow> issue list \<Rightarrow> issue list \<Rightarrow> op_result" where
  "with_issues res ws ss = res\<lparr>or_warnings := ws, or_suggestions := ss\<rparr>"

section \<open>write_note and append_note\<close>

definition write_locked :: "string \<Rightarrow> string \<Rightarrow> conf \<Rightarrow> path \<Rightarrow> (op_result + bool) io" where
  "write_locked rel content C _ =
     bind_io (validate_for_write C rel (Some content) None True) (\<lambda>file_path.
     bind_io (file_revision file_path) (\<lambda>rvn.
     bind_io (mkdir_io (path_parent file_path)) (\<lambda>_.
     write_back C file_path rel content rvn (rvn \<noteq> None))))"

definition write_finish :: "string \<Rightarrow> bool \<Rightarrow> op_result io" where
  "write_finish rel existed = return_io (success_result rel
     (''Note '' @ (if existed then ''updated'' else ''created'') @ '': '' @ rel))"

definition write_note :: "conf \<Rightarrow> string \<Rightarrow> string \<Rightarrow> op_result io" where
  "write_note C rel content = return_write_lock_timeout rel
     (bind_io (validate_for_write C rel (Some content) None True) (\<lambda>file_path.
      run_locked C (c_lock_timeout C) file_path (write_locked rel content C file_path) (write_finish rel)))"

definition append_text :: "string \<Rightarrow> string \<Rightarrow> string \<Rightarrow> string" where
  "append_text existing content sep =
     (if ends_with existing sep then existing @ content else existing @ sep @ content)"

definition append_locked :: "string \<Rightarrow> string \<Rightarrow> string \<Rightarrow> conf \<Rightarrow> path \<Rightarrow> (op_result + unit) io" where
  "append_locked rel content sep C _ =
     bind_io (validate_for_write C rel (Some content) None True) (\<lambda>file_path.
     with_text C file_path rel (error_result rel
         (''Note not found: '' @ rel @ ''. Use create_note or write_note.'') None)
       (\<lambda>rvn existing.
         bind_io (lift_io (validate_content_size C (append_text existing content sep))) (\<lambda>_.
         write_back C file_path rel (append_text existing content sep) rvn ())))"

definition append_finish :: "string \<Rightarrow> unit \<Rightarrow> op_result io" where
  "append_finish rel _ = return_io (success_result rel (''Content appended: '' @ rel))"

definition append_note :: "conf \<Rightarrow> string \<Rightarrow> string \<Rightarrow> string \<Rightarrow> op_result io" where
  "append_note C rel content sep = return_write_lock_timeout rel
     (bind_io (validate_for_write C rel (Some content) None True) (\<lambda>file_path.
      run_locked C (c_lock_timeout C) file_path (append_locked rel content sep C file_path)
        (append_finish rel)))"

section \<open>create_note\<close>

definition is_ai_enrichment_enabled :: "conf \<Rightarrow> bool" where
  "is_ai_enrichment_enabled C \<longleftrightarrow> sc_enabled (c_schema C) \<and> ai_enabled (c_ai C) \<and>
     ai_allow_external (c_ai C) \<and> ai_provider (c_ai C) \<noteq> [] \<and> strip (ai_provider (c_ai C)) \<noteq> [] \<and>
     ai_command (c_ai C) \<noteq> []"

definition can_defer_required_missing :: "conf \<Rightarrow> issue list \<Rightarrow> bool" where
  "can_defer_required_missing C errors \<longleftrightarrow> errors \<noteq> [] \<and> sc_enabled (c_schema C) \<and>
     is_ai_enrichment_enabled C \<and> ai_allow_defer (c_ai C) \<and>
     (\<forall>e \<in> set errors. is_code e = ''required_missing'')"

definition deferred_warning :: issue where
  "deferred_warning = \<lparr>is_field = ''_schema'',
     is_message = ''Missing required fields deferred to reindex enrichment'',
     is_code = ''required_missing_deferred'', is_value = PNone\<rparr>"

text \<open>The front matter to write with its warnings and suggestions, or an early result.\<close>

definition create_frontmatter ::
  "conf \<Rightarrow> string \<Rightarrow> frontmatter option \<Rightarrow> bool \<Rightarrow> (op_result + frontmatter \<times> issue list \<times> issue list) io" where
  "create_frontmatter C rel fm validate_schema =
     (let fm = (case fm of None \<Rightarrow> [] | Some d \<Rightarrow> d) in
      if \<not> validate_schema then return_io (Inr (fm, [], []))
      else bind_io (validate_frontmatter_schema_result C fm) (\<lambda>r.
        if vr_valid r then return_io (Inr (vr_data r, vr_warnings r, vr_suggestions r))
        else if can_defer_required_missing C (vr_errors r)
        then return_io (Inr (vr_data r, vr_warnings r @ [deferred_warning], vr_suggestions r))
        else return_io (Inl (error_result rel (format_errors (vr_errors r)) None))))"

definition ensure_id_field :: "conf \<Rightarrow> frontmatter \<Rightarrow> frontmatter io" where
  "ensure_id_field C fm = (if dhas fm (PStr ''id'') then return_io fm
     else bind_io (generate_uuid7 C) (\<lambda>u. return_io (dset (PStr ''id'') (PStr u) fm)))"

definition create_locked ::
  "string \<Rightarrow> string \<Rightarrow> frontmatter \<Rightarrow> conf \<Rightarrow> path \<Rightarrow> (op_result + unit) io" where
  "create_locked rel content fm C _ =
     bind_io (validate_for_write C rel (Some content) (Some fm) True) (\<lambda>file_path.
     bind_io (file_revision file_path) (\<lambda>rvn.
     if rvn \<noteq> None
     then return_io (Inl (error_result rel
       (''Note already exists: '' @ rel @ ''. Use write_note to overwrite it.'') None))
     else
       bind_io (mkdir_io (path_parent file_path)) (\<lambda>_.
       write_back C file_path rel (serialize_frontmatter C fm @ content) None ())))"

definition create_finish :: "string \<Rightarrow> issue list \<Rightarrow> issue list \<Rightarrow> unit \<Rightarrow> op_result io" where
  "create_finish rel ws ss _ =
     return_io (with_issues (success_result rel (''Note created: '' @ rel)) ws ss)"

definition create_note ::
  "conf \<Rightarrow> string \<Rightarrow> string \<Rightarrow> frontmatter option \<Rightarrow> bool \<Rightarrow> op_result io" where
  "create_note C rel content fm validate_schema = return_write_lock_timeout rel
     (bind_io (create_frontmatter C rel fm validate_schema) (\<lambda>r.
      case r of
        Inl err \<Rightarrow> return_io err
      | Inr (fm, ws, ss) \<Rightarrow>
          bind_io (ensure_id_field C fm) (\<lambda>fm.
          bind_io (lift_io (validate_content_size C (serialize_frontmatter C fm @ content))) (\<lambda>_.
          bind_io (validate_for_write C rel (Some content) (Some fm) True) (\<lambda>file_path.
          run_locked C (c_lock_timeout C) file_path (create_locked rel content fm C file_path)
            (create_finish rel ws ss))))))"

section \<open>update_frontmatter\<close>

definition validate_or_error ::
  "conf \<Rightarrow> string \<Rightarrow> bool \<Rightarrow> frontmatter \<Rightarrow> (op_result + frontmatter \<times> issue list \<times> issue list) io" where
  "validate_or_error C rel validate_schema fm =
     (if \<not> validate_schema then return_io (Inr (fm, [], []))
      else catch_io
        (bind_io (validate_frontmatter_schema C fm) (\<lambda>r.
           return_io (Inr (vr_data r, vr_warnings r, vr_suggestions r))))
        (\<lambda>e. if isinstance e C_ValueError
             then Some (return_io (Inl (error_result rel (exn_text e) None))) else None))"

definition update_locked ::
  "string \<Rightarrow> frontmatter \<Rightarrow> bool \<Rightarrow> bool \<Rightarrow> conf \<Rightarrow> path \<Rightarrow> (op_result + issue list \<times> issue list) io" where
  "update_locked rel metadata merge validate_schema C _ =
     bind_io (validate_for_write C rel None (Some metadata) True) (\<lambda>file_path.
     with_text C file_path rel (not_found rel) (\<lambda>rvn content.
       let (existing_fm, body) = parse_frontmatter (c_yaml_load C) content;
           new_fm = (if merge then dmerge existing_fm metadata else metadata) in
       bind_io (validate_or_error C rel validate_schema new_fm) (\<lambda>v.
       case v of
         Inl err \<Rightarrow> return_io (Inl err)
       | Inr (new_fm, ws, ss) \<Rightarrow>
           bind_io (lift_io (validate_frontmatter_size C new_fm)) (\<lambda>_.
           write_back C file_path rel (serialize_frontmatter C new_fm @ body) rvn (ws, ss)))))"

definition update_finish :: "string \<Rightarrow> bool \<Rightarrow> issue list \<times> issue list \<Rightarrow> op_result io" where
  "update_finish rel merge x = return_io (with_issues (success_result rel
     (''Frontmatter '' @ (if merge then ''merged'' else ''replaced'') @ '': '' @ rel)) (fst x) (snd x))"

definition update_frontmatter :: "conf \<Rightarrow> string \<Rightarrow> pyval \<Rightarrow> bool \<Rightarrow> bool \<Rightarrow> op_result io" where
  "update_frontmatter C rel metadata merge validate_schema = return_write_lock_timeout rel
     (case metadata of
        PDict metadata \<Rightarrow>
          bind_io (validate_for_write C rel None (Some metadata) True) (\<lambda>file_path.
          run_locked C (c_lock_timeout C) file_path
            (update_locked rel metadata merge validate_schema C file_path) (update_finish rel merge))
      | _ \<Rightarrow> raise_io (ValueError (''metadata must be a dictionary, got '' @ type_name metadata)))"

section \<open>Bodies under the lock\<close>

lemma apart_parent: "apart rl C p \<Longrightarrow> \<not> prefix p (path_parent p)"
proof -
  assume "apart rl C p"
  then have "p \<noteq> []" by (auto simp: apart_def Let_def)
  then show ?thesis unfolding path_parent_def by (metis append_butlast_last_id append_self_conv
        list.distinct(1) prefix_def prefix_order.antisym)
qed

lemma keeps_validate_schema_result [intro!]:
  "cooperative E \<Longrightarrow> keeps E (locked rl p c) (validate_frontmatter_schema_result C fm)"
  by (auto simp: keeps_def triple_def validate_frontmatter_schema_result_def locked_tick)

lemma keeps_uuid [intro!]: "cooperative E \<Longrightarrow> keeps E (locked rl p c) (generate_uuid7 C)"
  by (auto simp: keeps_def triple_def generate_uuid7_def locked_tick)

lemma keeps_validate_or_error [intro!]:
  "cooperative E \<Longrightarrow> keeps E (locked rl p c) (validate_or_error C rel v fm)"
  unfolding validate_or_error_def validate_frontmatter_schema_def by (auto split: if_split_asm)

lemma read_stable_locked:
  assumes "cooperative E" "locked rl p c w" "read_stable C p rel rvn E w = (Inr r, w')"
  shows "locked rl p c w' \<and> (case r of Inr s \<Rightarrow> file_text (fst c) = Some s | Inl err \<Rightarrow> \<not> or_success err)"
proof -
  from assms(3) obtain r1 w1 where 1: "safe_read_text C p rel E w = (Inr r1, w1)"
    and 2: "(case r1 of Inl err \<Rightarrow> return_io (Inl err)
     | Inr content \<Rightarrow> bind_io (file_revision p) (\<lambda>now.
         return_io (if now \<noteq> rvn then Inl (write_conflict rel) else Inr content))) E w1 = (Inr r, w')"
    unfolding read_stable_def bind_run_Inr by blast
  from safe_read_locked [OF assms(1,2) 1] have 3: "locked rl p c w1"
    "case r1 of Inr s \<Rightarrow> file_text (fst c) = Some s | Inl err \<Rightarrow> \<not> or_success err" by auto
  show ?thesis
  proof (cases r1)
    case (Inl err)
    with 2 3 show ?thesis by (simp add: basic_run)
  next
    case (Inr s)
    with 2 obtain v where v: "file_revision p E w1 = (Inr v, w')"
      and r: "r = (if v \<noteq> rvn then Inl (write_conflict rel) else Inr s)"
      by (auto simp: bind_run_Inr basic_run)
    have "locked rl p c w'" by (rule keeps_run [OF keeps_file_revision [OF assms(1)] v 3(1)])
    with r Inr 3(2) show ?thesis by (simp add: write_conflict_def)
  qed
qed

lemma write_back_locked:
  assumes "cooperative E" "os_faults E" "apart rl C p" "locked rl p c w"
    and "write_back C p rel s rvn x E w = (Inr r, w')"
    and "edit s" and "\<And>err. \<not> or_success err \<Longrightarrow> stay err"
  shows "body_outcome rl p c edit stay r w'"
proof -
  from assms(5) obtain err where 1: "safe_write_text C p s rel rvn True E w = (Inr err, w')"
    and r: "r = (case err of Some e \<Rightarrow> Inl e | None \<Rightarrow> Inr x)"
    by (auto simp: write_back_def bind_run_Inr basic_run)
  from safe_write_locked [OF assms(1-4) 1] r assms(6,7) show ?thesis
    by (auto simp: write_outcome_def body_outcome_def split: option.splits)
qed

lemma locked_early: "locked rl p c w \<Longrightarrow> stay res \<Longrightarrow> body_outcome rl p c edit stay (Inl res) w"
  by (simp add: body_outcome_def)

lemma with_text_body:
  assumes "cooperative E" "locked rl p c w" "with_text C p rel missing k E w = (Inr r, w')"
    and "\<And>err. \<not> or_success err \<Longrightarrow> stay err" and "stay missing"
    and "\<And>rvn old w1. locked rl p c w1 \<Longrightarrow> file_text (fst c) = Some old \<Longrightarrow> k rvn old E w1 = (Inr r, w') \<Longrightarrow>
      body_outcome rl p c edit stay r w'"
  shows "body_outcome rl p c edit stay r w'"
proof -
  from assms(3) obtain v w1 where 1: "file_revision p E w = (Inr v, w1)"
    and 2: "(if v = None then return_io (Inl missing)
     else bind_io (read_stable C p rel v) (\<lambda>r.
       case r of Inl err \<Rightarrow> return_io (Inl err) | Inr content \<Rightarrow> k v content)) E w1 = (Inr r, w')"
    unfolding with_text_def bind_run_Inr by blast
  have l1: "locked rl p c w1" by (rule keeps_run [OF keeps_file_revision [OF assms(1)] 1 assms(2)])
  show ?thesis
  proof (cases "v = None")
    case True
    with 2 l1 assms(5) show ?thesis by (auto simp: basic_run intro: locked_early)
  next
    case False
    with 2 obtain q w2 where 3: "read_stable C p rel v E w1 = (Inr q, w2)"
      and 4: "(case q of Inl err \<Rightarrow> return_io (Inl err) | Inr content \<Rightarrow> k v content) E w2 = (Inr r, w')"
      by (auto simp: bind_run_Inr)
    from read_stable_locked [OF assms(1) l1 3] 4 assms(4,6) show ?thesis
      by (cases q) (auto simp: basic_run intro: locked_early)
  qed
qed

lemma validated_path:
  assumes "cooperative E" "locked rl p c w" "p = note_target rl C rel"
    and "validate_for_write C rel s fm md E w = (Inr p', w')"
  shows "p' = p \<and> locked rl p c w'"
  using validate_for_write_run [OF cooperative_links [OF assms(1)] assms(4) locked_real [OF assms(2)]]
    keeps_run [OF keeps_validate_for_write [OF assms(1)] assms(4,2)] assms(3) by simp

lemma write_locked_body:
  assumes env: "cooperative E" "os_faults E" "apart rl C p" and p: "p = note_target rl C rel"
    and w: "locked rl p c w" and run: "write_locked rel content C q E w = (Inr r, w')"
  shows "body_outcome rl p c (\<lambda>new. new = content) (\<lambda>res. \<not> or_success res) r w'"
proof -
  from run obtain p' w1 v w2 u w3 where
    1: "validate_for_write C rel (Some content) None True E w = (Inr p', w1)"
    "file_revision p' E w1 = (Inr v, w2)" "mkdir_io (path_parent p') E w2 = (Inr u, w3)"
    and 2: "write_back C p' rel content v (v \<noteq> None) E w3 = (Inr r, w')"
    unfolding write_locked_def bind_run_Inr by blast
  from validated_path [OF env(1) w p 1(1)] have pp: "p' = p" and l1: "locked rl p c w1" by auto
  from l1 have "locked rl p c w2" by (rule keeps_run [OF keeps_file_revision [OF env(1)] 1(2)])
  then have "locked rl p c w3"
    by (rule keeps_run [OF locked_mkdir [OF env(1) apart_parent [OF env(3)]] 1(3) [unfolded pp]])
  from write_back_locked [OF env this 2 [unfolded pp]] show ?thesis by simp
qed

lemma append_locked_body:
  assumes env: "cooperative E" "os_faults E" "apart rl C p" and p: "p = note_target rl C rel"
    and w: "locked rl p c w" and run: "append_locked rel content sep C q E w = (Inr r, w')"
  shows "body_outcome rl p c (\<lambda>new. \<exists>old. file_text (fst c) = Some old \<and> new = append_text old content sep)
    (\<lambda>res. \<not> or_success res) r w'"
proof -
  from run obtain p' w1 where
    1: "validate_for_write C rel (Some content) None True E w = (Inr p', w1)"
    and 2: "with_text C p' rel (error_result rel
         (''Note not found: '' @ rel @ ''. Use create_note or write_note.'') None)
       (\<lambda>rvn existing.
         bind_io (lift_io (validate_content_size C (append_text existing content sep))) (\<lambda>_.
         write_back C p' rel (append_text existing content sep) rvn ())) E w1 = (Inr r, w')"
    unfolding append_locked_def bind_run_Inr by blast
  from validated_path [OF env(1) w p 1] have pp: "p' = p" and l1: "locked rl p c w1" by auto
  show ?thesis
  proof (rule with_text_body [OF env(1) l1 2 [unfolded pp]])
    fix rvn old w2
    assume l2: "locked rl p c w2" and old: "file_text (fst c) = Some old"
      and "bind_io (lift_io (validate_content_size C (append_text old content sep))) (\<lambda>_.
         write_back C p rel (append_text old content sep) rvn ()) E w2 = (Inr r, w')"
    then have 3: "write_back C p rel (append_text old content sep) rvn () E w2 = (Inr r, w')"
      unfolding bind_run_Inr basic_run by blast
    show "body_outcome rl p c (\<lambda>new. \<exists>old. file_text (fst c) = Some old \<and> new = append_text old content sep)
      (\<lambda>res. \<not> or_success res) r w'"
      by (rule write_back_locked [OF env l2 3]) (use old in auto)
  qed simp_all
qed

lemma create_locked_body:
  assumes env: "cooperative E" "os_faults E" "apart rl C p" and p: "p = note_target rl C rel"
    and w: "locked rl p c w" and run: "create_locked rel content fm C q E w = (Inr r, w')"
  shows "body_outcome rl p c (\<lambda>new. fst c = None \<and> new = serialize_frontmatter C fm @ content)
    (\<lambda>res. \<not> or_success res) r w'"
proof -
  from run obtain p' w1 v w2 where
    1: "validate_for_write C rel (Some content) (Some fm) True E w = (Inr p', w1)"
    "file_revision p' E w1 = (Inr v, w2)"
    and 2: "(if v \<noteq> None
     then return_io (Inl (error_result rel
       (''Note already exists: '' @ rel @ ''. Use write_note to overwrite it.'') None))
     else
       bind_io (mkdir_io (path_parent p')) (\<lambda>_.
       write_back C p' rel (serialize_frontmatter C fm @ content) None ())) E w2 = (Inr r, w')"
    unfolding create_locked_def bind_run_Inr by blast
  from validated_path [OF env(1) w p 1(1)] have pp: "p' = p" and l1: "locked rl p c w1" by auto
  from file_revision_locked [OF env(1,2) l1 1(2) [unfolded pp]] have v: "v = cell_revision c"
    and l2: "locked rl p c w2" by auto
  show ?thesis
  proof (cases "v = None")
    case False
    with 2 l2 show ?thesis by (auto simp: basic_run intro: locked_early)
  next
    case True
    then have "\<not> v \<noteq> None" by simp
    from 2 [unfolded pp if_not_P [OF this]]
    obtain u w3 where 3: "mkdir_io (path_parent p) E w2 = (Inr u, w3)"
      and 4: "write_back C p rel (serialize_frontmatter C fm @ content) None () E w3 = (Inr r, w')"
      unfolding bind_run_Inr by blast
    have "locked rl p c w3" by (rule keeps_run [OF locked_mkdir [OF env(1) apart_parent [OF env(3)]] 3 l2])
    moreover have "fst c = None" using v True by (auto simp: cell_revision_def split: option.splits)
    ultimately show ?thesis using write_back_locked [OF env _ 4] by auto
  qed
qed

text \<open>The front matter an update writes: the merge, or what its validation returned.\<close>

definition updated_frontmatter :: "conf \<Rightarrow> bool \<Rightarrow> frontmatter \<Rightarrow> frontmatter \<Rightarrow> bool" where
  "updated_frontmatter C validate_schema fm fm' =
     (if validate_schema
      then \<exists>t r. validate (c_lib C) (c_gen C t) (c_schema C) (Some fm) = Inr r \<and> vr_valid r \<and> vr_data r = fm'
      else fm' = fm)"

lemma validate_or_error_run:
  assumes "validate_or_error C rel v fm E w = (Inr x, w')"
  shows "case x of Inl err \<Rightarrow> \<not> or_success err | Inr (fm', ws, ss) \<Rightarrow> updated_frontmatter C v fm fm'"
proof (cases v)
  case False
  with assms show ?thesis by (auto simp: validate_or_error_def basic_run updated_frontmatter_def)
next
  case True
  with assms show ?thesis
    by (auto simp: validate_or_error_def validate_frontmatter_schema_def io_runs
        validate_frontmatter_schema_result_def updated_frontmatter_def split: if_splits)
qed

definition update_edit ::
  "conf \<Rightarrow> frontmatter \<Rightarrow> bool \<Rightarrow> bool \<Rightarrow> string \<Rightarrow> string \<Rightarrow> bool" where
  "update_edit C metadata merge v old new =
     (\<exists>fm'. updated_frontmatter C v
         (if merge then dmerge (fst (parse_frontmatter (c_yaml_load C) old)) metadata else metadata) fm' \<and>
       new = serialize_frontmatter C fm' @ snd (parse_frontmatter (c_yaml_load C) old))"

lemma update_locked_body:
  assumes env: "cooperative E" "os_faults E" "apart rl C p" and p: "p = note_target rl C rel"
    and w: "locked rl p c w" and run: "update_locked rel metadata merge v C q E w = (Inr r, w')"
  shows "body_outcome rl p c (\<lambda>new. \<exists>old. file_text (fst c) = Some old \<and> update_edit C metadata merge v old new)
    (\<lambda>res. \<not> or_success res) r w'"
proof -
  define k where "k = (\<lambda>file_path rvn content.
       let (existing_fm, body) = parse_frontmatter (c_yaml_load C) content;
           new_fm = (if merge then dmerge existing_fm metadata else metadata) in
       bind_io (validate_or_error C rel v new_fm) (\<lambda>v.
       case v of
         Inl err \<Rightarrow> return_io (Inl err)
       | Inr (new_fm, ws, ss) \<Rightarrow>
           bind_io (lift_io (validate_frontmatter_size C new_fm)) (\<lambda>_.
           write_back C file_path rel (serialize_frontmatter C new_fm @ body) rvn (ws, ss))))"
  from run obtain p' w1 where
    1: "validate_for_write C rel None (Some metadata) True E w = (Inr p', w1)"
    and 2: "with_text C p' rel (not_found rel) (k p') E w1 = (Inr r, w')"
    unfolding update_locked_def bind_run_Inr k_def by blast
  from validated_path [OF env(1) w p 1] have pp: "p' = p" and l1: "locked rl p c w1" by auto
  show ?thesis
  proof (rule with_text_body [OF env(1) l1 2 [unfolded pp]])
    fix rvn old w2
    assume l2: "locked rl p c w2" and old: "file_text (fst c) = Some old" and run: "k p rvn old E w2 = (Inr r, w')"
    obtain fm body where parse: "parse_frontmatter (c_yaml_load C) old = (fm, body)" by fastforce
    let ?new = "if merge then dmerge fm metadata else metadata"
    from run parse obtain x w3 where 3: "validate_or_error C rel v ?new E w2 = (Inr x, w3)"
      and 4: "(case x of Inl err \<Rightarrow> return_io (Inl err)
       | Inr (new_fm, ws, ss) \<Rightarrow>
           bind_io (lift_io (validate_frontmatter_size C new_fm)) (\<lambda>_.
           write_back C p rel (serialize_frontmatter C new_fm @ body) rvn (ws, ss))) E w3 = (Inr r, w')"
      by (auto simp: k_def Let_def bind_run_Inr)
    have l3: "locked rl p c w3" by (rule keeps_run [OF keeps_validate_or_error [OF env(1)] 3 l2])
    show "body_outcome rl p c (\<lambda>new. \<exists>old. file_text (fst c) = Some old \<and> update_edit C metadata merge v old new)
      (\<lambda>res. \<not> or_success res) r w'"
    proof (cases x)
      case (Inl err)
      with 4 l3 validate_or_error_run [OF 3] show ?thesis by (auto simp: basic_run intro: locked_early)
    next
      case (Inr y)
      obtain fm' ws ss where y: "y = (fm', ws, ss)" by (cases y)
      from 4 Inr y have 5: "write_back C p rel (serialize_frontmatter C fm' @ body) rvn (ws, ss) E w3 = (Inr r, w')"
        by (auto simp: bind_run_Inr basic_run)
      have "updated_frontmatter C v ?new fm'" using validate_or_error_run [OF 3] Inr y by simp
      then have "update_edit C metadata merge v old (serialize_frontmatter C fm' @ body)"
        using parse by (auto simp: update_edit_def)
      with old show ?thesis by (intro write_back_locked [OF env l3 5]) auto
    qed
  qed (simp_all add: not_found_def)
qed

section \<open>The operations\<close>

text \<open>What the bodies log and raise.\<close>

lemma logs_validate_schema [intro!]: "logs E S (validate_frontmatter_schema_result C fm)"
  by (auto simp: logs_def validate_frontmatter_schema_result_def)

lemma logs_validate_or_error [intro!]: "logs E S (validate_or_error C rel v fm)"
  unfolding validate_or_error_def validate_frontmatter_schema_def by (auto split: if_split_asm)

lemma logs_with_text:
  "(\<And>v s. logs E (\<lambda>_. True) (k v s)) \<Longrightarrow> logs E (\<lambda>_. True) (with_text C p rel m k)"
  unfolding with_text_def read_stable_def by auto

lemma logs_write_back [intro!]: "logs E (\<lambda>_. True) (write_back C p rel s v x)"
  unfolding write_back_def by auto

lemma body_logs [intro!]:
  "logs E (\<lambda>_. True) (write_locked rel content C q)"
  "logs E (\<lambda>_. True) (append_locked rel content sep C q)"
  "logs E (\<lambda>_. True) (create_locked rel content fm C q)"
  "logs E (\<lambda>_. True) (update_locked rel metadata merge v C q)"
  unfolding write_locked_def append_locked_def create_locked_def update_locked_def Let_def
  by (auto intro!: logs_with_text split: prod.split)

lemma raises_sizes:
  "raises E os_or_value (lift_io (validate_content_size C text))"
  "raises E os_or_value (lift_io (validate_frontmatter_size C fm))"
  by (auto simp: validate_content_size_def validate_frontmatter_size_def split: if_splits)

lemma raises_read_stable:
  "os_faults E \<Longrightarrow> raises E os_or_value (read_stable C p rel v)"
  unfolding read_stable_def by auto

lemma raises_write_back:
  "os_faults E \<Longrightarrow> raises E os_or_value (write_back C p rel s v x)"
  unfolding write_back_def by auto

lemma raises_validate_or_error:
  "raises E not_timeout (validate_or_error C rel v fm)"
  by (cases v)
     (auto simp: raises_def validate_or_error_def validate_frontmatter_schema_def io_runs
        validate_frontmatter_schema_result_def not_timeout_def isinstance_def
        dest!: validate_error split: if_splits)

lemmas body_steps = raises_mono [OF raises_validate_for_write os_or_value_not_timeout]
  raises_mono [OF raises_file_revision os_or_value_not_timeout]
  raises_mono [OF raises_syscalls(5) os_or_value_not_timeout]
  raises_mono [OF raises_read_stable os_or_value_not_timeout]
  raises_mono [OF raises_write_back os_or_value_not_timeout]
  raises_mono [OF raises_sizes(1) os_or_value_not_timeout]
  raises_mono [OF raises_sizes(2) os_or_value_not_timeout]
  raises_validate_or_error

lemma raises_with_text:
  assumes "os_faults E" "\<And>v s. raises E not_timeout (k v s)"
  shows "raises E not_timeout (with_text C p rel m k)"
  unfolding with_text_def using assms by (auto intro!: body_steps)

lemma body_raises:
  assumes "os_faults E"
  shows "raises E not_timeout (write_locked rel content C q)"
    "raises E not_timeout (append_locked rel content sep C q)"
    "raises E not_timeout (create_locked rel content fm C q)"
    "raises E not_timeout (update_locked rel metadata merge v C q)"
  using assms unfolding write_locked_def append_locked_def create_locked_def update_locked_def Let_def
  by (auto intro!: raises_with_text body_steps split: prod.split)

lemma keeps_links_validate_for_write:
  "links_stable E \<Longrightarrow> keeps_links E (validate_for_write C rel s fm md)"
  unfolding validate_for_write_def resolve_path_def validate_relative_path_def resolve_internal_path_def Let_def
  by (auto intro!: keeps_links_combinators split: if_split_asm sum.split)

interpretation writer: locked_editor rel "write_locked rel content" "write_finish rel"
    "\<lambda>C F new. new = content" "\<lambda>C F res. \<not> or_success res" for rel content
  by unfold_locales
     (auto intro: write_locked_body body_logs body_raises simp: write_finish_def basic_run)

interpretation appender: locked_editor rel "append_locked rel content sep" "append_finish rel"
    "\<lambda>C F new. \<exists>old. file_text F = Some old \<and> new = append_text old content sep"
    "\<lambda>C F res. \<not> or_success res" for rel content sep
  by unfold_locales
     (auto intro: append_locked_body body_logs body_raises simp: append_finish_def basic_run)

interpretation creator: locked_editor rel "create_locked rel content fm" "create_finish rel ws ss"
    "\<lambda>C F new. F = None \<and> new = serialize_frontmatter C fm @ content"
    "\<lambda>C F res. \<not> or_success res" for rel content fm ws ss
  by unfold_locales
     (auto intro: create_locked_body body_logs body_raises
           simp: create_finish_def basic_run with_issues_def success_result_def op_base_def)

interpretation updater: locked_editor rel "update_locked rel metadata merge v" "update_finish rel merge"
    "\<lambda>C F new. \<exists>old. file_text F = Some old \<and> update_edit C metadata merge v old new"
    "\<lambda>C F res. \<not> or_success res" for rel metadata merge v
  by unfold_locales
     (auto intro: update_locked_body body_logs body_raises
           simp: update_finish_def basic_run with_issues_def success_result_def op_base_def)

section \<open>What the operations promise\<close>

text \<open>
  The situation a promise is about: the environment cooperates, its faults are \<open>OSError\<close>s, and
  the relative path stands for \<open>p\<close>, a real path outside the application's own directories.
\<close>

definition note_ready :: "env \<Rightarrow> world \<Rightarrow> conf \<Rightarrow> string \<Rightarrow> path \<Rightarrow> bool" where
  "note_ready E w C rel p \<longleftrightarrow> cooperative E \<and> os_faults E \<and>
     p = note_target (fs_real (w_fs w)) C rel \<and> fs_real (w_fs w) p = p \<and> apart (fs_real (w_fs w)) C p"

lemma ready_validated:
  assumes "note_ready E w C rel p" "validate_for_write C rel s fm md E w = (Inr r, w1)"
  shows "r = p"
  using validate_for_write_run [OF _ assms(2) refl] assms(1) cooperative_links
  by (auto simp: note_ready_def)

lemmas ready_prepare = logs_validate_for_write keeps_links_validate_for_write [OF cooperative_links]




text \<open>The preparation of a new note: its front matter, the size checks and the path.\<close>

definition create_prepare ::
  "conf \<Rightarrow> string \<Rightarrow> string \<Rightarrow> frontmatter option \<Rightarrow> bool
    \<Rightarrow> (op_result + path \<times> frontmatter \<times> issue list \<times> issue list) io" where
  "create_prepare C rel content fm v =
     bind_io (create_frontmatter C rel fm v) (\<lambda>r.
      case r of
        Inl err \<Rightarrow> return_io (Inl err)
      | Inr (fm, ws, ss) \<Rightarrow>
          bind_io (ensure_id_field C fm) (\<lambda>fm.
          bind_io (lift_io (validate_content_size C (serialize_frontmatter C fm @ content))) (\<lambda>_.
          bind_io (validate_for_write C rel (Some content) (Some fm) True) (\<lambda>file_path.
          return_io (Inr (file_path, fm, ws, ss))))))"

definition create_rest ::
  "conf \<Rightarrow> string \<Rightarrow> string \<Rightarrow> op_result + path \<times> frontmatter \<times> issue list \<times> issue list \<Rightarrow> op_result io" where
  "create_rest C rel content r = (case r of Inl err \<Rightarrow> return_io err
     | Inr (file_path, fm, ws, ss) \<Rightarrow> run_locked C (c_lock_timeout C) file_path
         (create_locked rel content fm C file_path) (create_finish rel ws ss))"

lemma bind_io_assoc: "bind_io (bind_io m f) g = bind_io m (\<lambda>x. bind_io (f x) g)"
  by (auto simp: bind_io_def fun_eq_iff split: prod.split sum.split)

lemma bind_return_io [simp]: "bind_io (return_io x) f = f x"
  by (simp add: bind_io_def return_io_def)

lemma create_note_split:
  "create_note C rel content fm v =
     return_write_lock_timeout rel (bind_io (create_prepare C rel content fm v) (create_rest C rel content))"
  unfolding create_note_def create_prepare_def bind_io_assoc
  by (rule arg_cong [where f = "return_write_lock_timeout rel"], rule arg_cong [where f = "bind_io _"])
     (auto simp: fun_eq_iff create_rest_def bind_io_assoc split: sum.split prod.split)

lemma logs_uuid: "logs E S (generate_uuid7 C)"
  by (auto simp: logs_def generate_uuid7_def)

lemma logs_create_prepare: "logs E S (create_prepare C rel content fm v)"
  unfolding create_prepare_def create_frontmatter_def ensure_id_field_def Let_def
  by (auto intro!: logs_uuid split: prod.split)

lemma keeps_links_schema [intro!]:
  "links_stable E \<Longrightarrow> keeps_links E (validate_frontmatter_schema_result C fm)"
  "links_stable E \<Longrightarrow> keeps_links E (generate_uuid7 C)"
  by (simp_all add: keeps_links_def keeps_def triple_def validate_frontmatter_schema_result_def
      generate_uuid7_def)

lemma create_prepare_run:
  assumes "links_stable E" "create_prepare C rel content fm v E w = (Inr x, w')" "fs_real (w_fs w) = rl"
  shows "fs_real (w_fs w') = rl \<and> (case x of Inl err \<Rightarrow> \<not> or_success err
    | Inr (p, fm', ws, ss) \<Rightarrow> p = note_target rl C rel \<and> dhas fm' (PStr ''id''))"
proof -
  have kl: "keeps_links E (create_prepare C rel content fm v)"
    unfolding create_prepare_def create_frontmatter_def ensure_id_field_def Let_def using assms(1)
    by (auto intro!: keeps_links_combinators keeps_links_validate_for_write split: sum.split prod.split)
  from assms(2) obtain r w1 where 1: "create_frontmatter C rel fm v E w = (Inr r, w1)"
    and 2: "(case r of
        Inl err \<Rightarrow> return_io (Inl err)
      | Inr (fm, ws, ss) \<Rightarrow>
          bind_io (ensure_id_field C fm) (\<lambda>fm.
          bind_io (lift_io (validate_content_size C (serialize_frontmatter C fm @ content))) (\<lambda>_.
          bind_io (validate_for_write C rel (Some content) (Some fm) True) (\<lambda>file_path.
          return_io (Inr (file_path, fm, ws, ss)))))) E w1 = (Inr x, w')"
    unfolding create_prepare_def bind_run_Inr by blast
  have kl1: "keeps_links E (create_frontmatter C rel fm v)"
    unfolding create_frontmatter_def Let_def using assms(1)
    by (auto intro!: keeps_links_combinators split: sum.split prod.split)
  have rl1: "fs_real (w_fs w1) = rl" using keeps_links_run [OF kl1 1] assms(3) by simp
  show ?thesis
  proof (cases r)
    case (Inl err)
    have "\<not> or_success err" using 1 Inl
      by (auto simp: create_frontmatter_def Let_def basic_run bind_run_Inr split: if_splits)
    with Inl 2 rl1 show ?thesis by (simp add: basic_run)
  next
    case (Inr y)
    obtain fm0 ws ss where y: "y = (fm0, ws, ss)" by (cases y)
    from 2 Inr y obtain fm1 w2 w3 file_path where 3: "ensure_id_field C fm0 E w1 = (Inr fm1, w2)"
      and 4: "validate_for_write C rel (Some content) (Some fm1) True E w2 = (Inr file_path, w3)"
      and x: "x = Inr (file_path, fm1, ws, ss)"
      by (auto simp: bind_run_Inr basic_run)
    have kl2: "keeps_links E (ensure_id_field C fm0)"
      unfolding ensure_id_field_def using assms(1) by (auto intro!: keeps_links_combinators)
    have "fs_real (w_fs w2) = rl" using keeps_links_run [OF kl2 3] rl1 by simp
    with validate_for_write_run [OF assms(1) 4] have "file_path = note_target rl C rel" by simp
    moreover have "dhas fm1 (PStr ''id'')"
      using 3 by (auto simp: ensure_id_field_def basic_run bind_run_Inr dict_simps split: if_splits)
    ultimately show ?thesis using x keeps_links_run [OF kl assms(2)] assms(3) by simp
  qed
qed

text \<open>C7. Creating a note never overwrites: it succeeds only if nothing was at the path when the
  lock was granted, and then the note is the serialized front matter, which has an \<open>id\<close>,
  followed by the content; otherwise what was there is still there.\<close>

theorem create_note_atomic:
  assumes "note_ready E w C rel p" and "create_note C rel content fm v E w = (Inr res, w')"
  shows "edit_outcome
    (\<lambda>F new. F = None \<and> (\<exists>fm'. dhas fm' (PStr ''id'') \<and> new = serialize_frontmatter C fm' @ content))
    (\<lambda>F res. \<not> or_success res) p res w w'"
    (is "edit_outcome ?edit ?stay p res w w'")
proof (rule timeout_wrapper [OF logs_create_prepare assms(2) [unfolded create_note_split]])
  let ?rl = "fs_real (w_fs w)"
  have env: "cooperative E" "os_faults E" and p: "p = note_target ?rl C rel" "?rl p = p" "apart ?rl C p"
    using assms(1) unfolding note_ready_def by blast+
  fix x w1 assume 1: "create_prepare C rel content fm v E w = (Inr x, w1)"
  note prep = create_prepare_run [OF cooperative_links [OF env(1)] 1 refl]
  show "logs E (\<lambda>_. True) (create_rest C rel content x)"
    by (auto simp: create_rest_def intro!: creator.run_locked_logs split: sum.split)
  show "edit_outcome ?edit ?stay p res w1 w'" if run: "create_rest C rel content x E w1 = (Inr res, w')"
  proof (cases x)
    case (Inl err)
    with run prep show ?thesis by (auto simp: create_rest_def basic_run edit_outcome_def new_events_def)
  next
    case (Inr y)
    obtain q fm' ws ss where y: "y = (q, fm', ws, ss)" by (cases y)
    with Inr prep p(1) have q: "q = p" "dhas fm' (PStr ''id'')" by auto
    from run Inr y q(1) have "run_locked C (c_lock_timeout C) p (create_locked rel content fm' C p)
        (create_finish rel ws ss) E w1 = (Inr res, w')" by (simp add: create_rest_def)
    from creator.locked_success [OF env p(3,1,2) _ this] prep
    have "edit_outcome (\<lambda>F new. F = None \<and> new = serialize_frontmatter C fm' @ content) ?stay p res w1 w'"
      by blast
    with q(2) show ?thesis unfolding edit_outcome_def by blast
  qed
  show "EvReplace q p \<notin> set (new_events w1 w')"
    if "create_rest C rel content x E w1 = (Inl e, w')" "isinstance e C_WriteLockTimeoutError" for q e
  proof (cases x)
    case (Inl err)
    with that show ?thesis by (simp add: create_rest_def basic_run)
  next
    case (Inr y)
    obtain f fm' ws ss where y: "y = (f, fm', ws, ss)" by (cases y)
    with Inr prep p(1) have "f = p" by auto
    with that(1) Inr y have "run_locked C (c_lock_timeout C) p (create_locked rel content fm' C p)
        (create_finish rel ws ss) E w1 = (Inl e, w')" by (simp add: create_rest_def)
    from creator.locked_timeout [OF env(2) this that(2)] show ?thesis .
  qed
qed

end
