(* ===== verification/Sample_Runs.thy ===== *)
theory Sample_Runs
  imports Crud_Write
begin

text \<open>
  Concrete runs in the quiet environment, for the witnesses: each system call as an equation on
  the world, the lock, and the guarded read and write, on a vault with one note.
\<close>

section \<open>System calls in the quiet environment\<close>

lemma quiet_fields [simp]:
  "e_fault quiet_env t = None" "e_step quiet_env t own fs = fs" "e_flock quiet_env t = Granted"
  "e_thread quiet_env t = True" "e_delay quiet_env t = 0" "e_inode quiet_env t = t"
  "e_mtime quiet_env t = t" "e_random quiet_env t = ''r''"
  by (simp_all add: quiet_env_def)

lemma quiet_tick_eq: "tick quiet_env w = w\<lparr>w_tick := Suc (w_tick w)\<rparr>"
  by (cases w) (simp add: tick_def)

lemmas quiet_calls = syscall_def sure_call_def quiet_tick_eq now_io_def resolve_io_def resolve_strict_io_def
  exists_io_def stat_io_def mode_io_def read_text_io_def mkdir_io_def create_temp_io_def
  write_sync_io_def chmod_io_def replace_io_def sync_dir_io_def random_io_def flock_io_def unlock_io_def
  open_lock_io_def acquire_thread_lock_def

lemmas run_combinators = bind_io_def lift_io_def catch_io_def return_io_def raise_io_def finally_io_def
  when_io_def log_io_def unless_published_def

section \<open>The sample configuration\<close>

lemma sample_strings:
  "strip ''a.md'' = ''a.md''" "path_components ''a.md'' = [''a.md'']" "\<not> starts_with ''a.md'' ''/''"
  "\<not> starts_with ''a.md'' [backslash]" "rel_suffix ''a.md'' = ''.md''"
  "path_components ''.trash'' = [''.trash'']" "path_components ''.vault-search-locks'' = [''.vault-search-locks'']"
  "path_components ''write-failures'' = [''write-failures'']" "\<not> starts_with ''write-failures'' ''/''"
  "\<not> starts_with ''.vault-search-locks'' ''/''" "\<not> starts_with ''.trash'' ''/''"
  "starts_with (path_str (safe_base @ [''a.md''])) (path_str safe_base)"
  by code_simp+

lemma sample_conf_simps [simp]:
  "c_vault sample_conf = [''v'']" "c_ignored sample_conf = [''.trash'', ''.obsidian'']"
  "c_max_content sample_conf = 1000" "c_max_path sample_conf = 100" "c_max_keys sample_conf = 10"
  "c_schema sample_conf = note_config" "c_lib sample_conf = sample_lib" "c_gen sample_conf t = sample_gen"
  "c_uuid7 sample_conf t = sample_uuid" "c_digest sample_conf p = ''0''" "c_lock_timeout sample_conf = 5"
  "c_yaml_dump sample_conf fm = ''k: v'' @ [CHR 0x0A]"
  "c_yaml_load sample_conf s = Some (PDict [(PStr ''k'', PStr ''v'')])" "c_ai sample_conf = sample_ai"
  by (simp_all add: sample_conf_def)

lemma sample_validate:
  assumes "fs_real (w_fs w) = (\<lambda>p. p)" "case s of None \<Rightarrow> True | Some t \<Rightarrow> utf8_len t \<le> 1000"
    "case fm of None \<Rightarrow> True | Some d \<Rightarrow> length d \<le> 10"
  shows "validate_for_write sample_conf ''a.md'' s fm True quiet_env w
    = (Inr [''v'', ''a.md''], w\<lparr>w_tick := w_tick w + 3\<rparr>)"
  using assms
  by (auto simp: validate_for_write_def validate_markdown_only_def sample_strings
      validate_not_ignored_folder_def lexical_parts_def pure_path_def validate_content_size_def
      validate_frontmatter_size_def bind_io_def lift_io_def resolve_path_def validate_relative_path_def
      catch_io_def return_io_def resolve_io_def sure_call_def resolve_internal_path_def relative_to_def
      Let_def join_path_def quiet_tick_eq numeral_eq_Suc split: option.splits)

lemma sample_lengths:
  "utf8_width CHR ''n'' = 1"
  "utf8_width CHR ''e'' = 1"
  "utf8_width CHR ''w'' = 1"
  "utf8_width CHR ''o'' = 1"
  "utf8_width CHR ''l'' = 1"
  "utf8_width CHR ''d'' = 1"
  "utf8_width CHR '' '' = 1"
  "utf8_width CHR '':'' = 1"
  "utf8_width CHR ''k'' = 1"
  "utf8_width CHR ''v'' = 1"
  "utf8_width CHR ''i'' = 1"
  "utf8_width CHR ''1'' = 1"
  "utf8_width CHR ''-'' = 1"
  "utf8_width CHR 0x0A = 1"
  by code_simp+

lemma sample_content_size: "validate_content_size sample_conf s = (if utf8_len s \<le> 1000 then Inr () else
    Inl (ValueError ''Content is too large''))"
  by (simp add: validate_content_size_def)

definition note_world :: world where
  "note_world = start_world\<lparr>w_fs := empty_fs\<lparr>fs_files := (\<lambda>p. if p = [''v'', ''a.md'']
     then Some \<lparr>f_inode = 7, f_mtime = 1, f_mode = 420, f_data = Utf8 ''old''\<rparr> else None)\<rparr>\<rparr>"

text \<open>Taking and releasing the lock of the note, in a world whose links are trivial.\<close>

lemma sample_flock: "acquire_flock lock_fuel p d quiet_env w = (Inr (), w\<lparr>w_tick := Suc (w_tick w),
    w_own := p # w_own w, w_log := w_log w @ [EvLock p (fs_files (w_fs w) p)]\<rparr>)"
proof -
  have "acquire_flock (Suc n) p d quiet_env w = (Inr (), w\<lparr>w_tick := Suc (w_tick w),
    w_own := p # w_own w, w_log := w_log w @ [EvLock p (fs_files (w_fs w) p)]\<rparr>)" for n
    by (simp add: quiet_calls run_combinators)
  moreover have "lock_fuel = Suc (lock_fuel - 1)" by (simp add: lock_fuel_def)
  ultimately show ?thesis by metis
qed


lemmas sample_run = run_locked_def advisory_path_lock_def with_text_def read_stable_def write_back_def
  safe_read_text_def safe_write_text_def write_and_publish_def write_temp_def publish_temp_def
  sync_directory_def enter_path_lock_def validated_timeout_def valid_timeout_def lock_path_def
  resolve_internal_path_def relative_to_def pure_path_def join_path_def sample_strings Let_def
  open_lock_file_def sample_flock quiet_calls run_combinators make_dirs_def entry_exists_def
  entry_revision_def path_parent_def file_revision_def path_name_def rename_file_def revision_of_def
  return_write_lock_timeout_def note_world_def start_world_def empty_fs_def sample_validate sample_lengths data_size_def sample_content_size


section \<open>Runs of the write operations\<close>

lemma sample_ready:
  "note_ready quiet_env note_world sample_conf ''a.md'' [''v'', ''a.md'']"
  "note_ready quiet_env start_world sample_conf ''a.md'' [''v'', ''a.md'']"
  by (simp_all add: note_ready_def quiet_env_simps note_target_def apart_def internal_dir_def Let_def
      sample_strings pure_path_def join_path_def note_world_def start_world_def empty_fs_def)

lemma sample_append: "\<exists>w'. append_note sample_conf ''a.md'' ''new'' '' '' quiet_env note_world
  = (Inr (success_result ''a.md'' ''Content appended: a.md''), w')"
  by (simp add: append_note_def append_locked_def append_finish_def sample_run append_text_def)

lemma sample_write: "\<exists>w'. write_note sample_conf ''a.md'' ''new'' quiet_env note_world
  = (Inr (success_result ''a.md'' ''Note updated: a.md''), w')"
  by (simp add: write_note_def write_locked_def write_finish_def sample_run)

lemma sample_parse: "parse_frontmatter load ''old'' = ([], ''old'')"
  by code_simp

lemma sample_update: "\<exists>w'. update_frontmatter sample_conf ''a.md'' (PDict [(PStr ''k'', PStr ''v'')]) True False
    quiet_env note_world
  = (Inr (with_issues (success_result ''a.md'' ''Frontmatter merged: a.md'') [] []), w')"
  by (simp add: update_frontmatter_def update_locked_def update_finish_def sample_run validate_or_error_def
      validate_frontmatter_size_def sample_parse dmerge_def serialize_frontmatter_def)

lemma sample_create: "\<exists>w'. create_note sample_conf ''a.md'' ''new'' None False quiet_env start_world
  = (Inr (with_issues (success_result ''a.md'' ''Note created: a.md'') [] []), w')"
  by (simp add: create_note_def create_frontmatter_def ensure_id_field_def create_locked_def create_finish_def
     generate_uuid7_def sample_run serialize_frontmatter_def isinstance_def)




theorem create_note_atomic_witness:
  "\<exists>w' res. create_note sample_conf ''a.md'' ''new'' None False quiet_env start_world = (Inr res, w') \<and>
     or_success res \<and>
     edit_outcome (\<lambda>F new. F = None \<and> (\<exists>fm'. dhas fm' (PStr ''id'') \<and>
         new = serialize_frontmatter sample_conf fm' @ ''new''))
       (\<lambda>F res. \<not> or_success res) [''v'', ''a.md''] res start_world w'"
proof -
  obtain w' where run: "create_note sample_conf ''a.md'' ''new'' None False quiet_env start_world
    = (Inr (with_issues (success_result ''a.md'' ''Note created: a.md'') [] []), w')"
    using sample_create by blast
  from create_note_atomic [OF sample_ready(2) run] run show ?thesis
    by (intro exI [of _ w'] exI conjI) (auto simp: with_issues_def)
qed

end
