(* ===== verification/Reindex_Queue.thy ===== *)
theory Reindex_Queue
  imports Prelude
begin

text \<open>
  \<open>server/reindex_queue.py\<close>: the bounded queue that coalesces index updates.  The state holds
  the fields of the object, the program point of its worker thread, and a log of what was
  accepted and run.  Every critical section (\<open>with self._lock\<close>) and every call on the queue
  or the stop event is one step; the steps of the clients and of the worker interleave freely.
  What the indexer and the searcher do is a parameter of the step that ends a run: they return
  or raise.
\<close>

section \<open>State\<close>

datatype worker =
    WAbsent
  | WLoop
  | WCheck
  | WGet
  | WGot string
  | WRun string nat
  | WDone

datatype rq_event =
    Changed string
  | Began string
  | Reindexed string
  | Synced
  | Invalidated
  | Warned string

record rq =
  rq_queue :: "string list"
  rq_versions :: "(string, nat) dict"
  rq_accepting :: bool
  rq_stop :: bool
  rq_worker :: worker
  rq_log :: "rq_event list"

definition sync_key :: string where
  "sync_key = CHR 0x00 # ''sync''"

definition new_queue :: rq where
  "new_queue = \<lparr>rq_queue = [], rq_versions = [], rq_accepting = True, rq_stop = False,
     rq_worker = WAbsent, rq_log = []\<rparr>"

definition max_pending_of :: "int \<Rightarrow> nat" where
  "max_pending_of n = nat (max 1 n)"

section \<open>Operations\<close>

definition ensure_worker_locked :: "rq \<Rightarrow> rq" where
  "ensure_worker_locked s =
     (if rq_worker s = WAbsent \<or> rq_worker s = WDone then s\<lparr>rq_worker := WLoop\<rparr> else s)"

definition enqueue_key :: "nat \<Rightarrow> string \<Rightarrow> rq \<Rightarrow> string \<times> rq" where
  "enqueue_key max_pending key s =
     (if \<not> rq_accepting s then (''stopped'', s)
      else case dget (rq_versions s) key of
        Some v \<Rightarrow> (''coalesced'', s\<lparr>rq_versions := dset key (Suc v) (rq_versions s),
          rq_log := rq_log s @ [Changed key]\<rparr>)
      | None \<Rightarrow>
          if max_pending \<le> length (rq_versions s) then (''queue_full'', s)
          else (''queued'', ensure_worker_locked
            (s\<lparr>rq_versions := dset key 1 (rq_versions s), rq_queue := rq_queue s @ [key],
               rq_log := rq_log s @ [Changed key]\<rparr>)))"

definition enqueue :: "nat \<Rightarrow> string \<Rightarrow> rq \<Rightarrow> string \<times> rq" where
  "enqueue max_pending path s = enqueue_key max_pending path s"

definition enqueue_sync :: "nat \<Rightarrow> rq \<Rightarrow> string \<times> rq" where
  "enqueue_sync max_pending s = enqueue_key max_pending sync_key s"

text \<open>What a run does: the call, its warning or the cache invalidation.\<close>

datatype outcome = Returned "string option" | Raised string

definition status_warning :: "string option \<Rightarrow> rq_event list" where
  "status_warning r = (let status = (case r of None \<Rightarrow> [] | Some t \<Rightarrow> t) in
     if starts_with status ''rejected'' \<or> starts_with status ''error'' then [Warned status] else [])"

definition run_events :: "string \<Rightarrow> outcome \<Rightarrow> string option \<Rightarrow> rq_event list" where
  "run_events key r invalidate =
     (let call = (if key = sync_key then Synced else Reindexed key);
          after = (case invalidate of None \<Rightarrow> [Invalidated] | Some e \<Rightarrow> [Warned e]) in
      case r of
        Raised e \<Rightarrow> [call, Warned e]
      | Returned t \<Rightarrow> call # (if key = sync_key then [] else status_warning t) @ after)"

definition observe_key :: "string \<Rightarrow> rq \<Rightarrow> rq" where
  "observe_key key s = (case dget (rq_versions s) key of
       None \<Rightarrow> s\<lparr>rq_worker := WLoop\<rparr>
     | Some v \<Rightarrow> s\<lparr>rq_worker := WRun key v, rq_log := rq_log s @ [Began key]\<rparr>)"

definition finish_key :: "string \<Rightarrow> nat \<Rightarrow> outcome \<Rightarrow> string option \<Rightarrow> rq \<Rightarrow> rq" where
  "finish_key key observed r invalidate s =
     (let s = s\<lparr>rq_worker := WLoop, rq_log := rq_log s @ run_events key r invalidate\<rparr> in
      case dget (rq_versions s) key of
        None \<Rightarrow> s
      | Some v \<Rightarrow> if v = observed then s\<lparr>rq_versions := ddel key (rq_versions s)\<rparr>
                  else s\<lparr>rq_queue := rq_queue s @ [key]\<rparr>)"

definition pending_count :: "rq \<Rightarrow> nat" where
  "pending_count s = length (rq_versions s)"

definition worker_count :: "rq \<Rightarrow> nat" where
  "worker_count s = (if rq_worker s = WAbsent \<or> rq_worker s = WDone then 0 else 1)"

section \<open>Steps\<close>

inductive worker_step :: "rq \<Rightarrow> rq \<Rightarrow> bool" where
  loop: "rq_worker s = WLoop \<Longrightarrow>
    worker_step s (s\<lparr>rq_worker := if rq_stop s then WCheck else WGet\<rparr>)"
| check: "rq_worker s = WCheck \<Longrightarrow>
    worker_step s (s\<lparr>rq_worker := if rq_queue s = [] then WDone else WGet\<rparr>)"
| got: "rq_worker s = WGet \<Longrightarrow> rq_queue s = key # q \<Longrightarrow>
    worker_step s (s\<lparr>rq_queue := q, rq_worker := WGot key\<rparr>)"
| timeout: "rq_worker s = WGet \<Longrightarrow> rq_queue s = [] \<Longrightarrow> worker_step s (s\<lparr>rq_worker := WLoop\<rparr>)"
| observe: "rq_worker s = WGot key \<Longrightarrow> worker_step s (observe_key key s)"
| finish: "rq_worker s = WRun key v \<Longrightarrow> worker_step s (finish_key key v r invalidate s)"

text \<open>\<open>stop\<close> first closes the queue under the lock, then sets the event the worker polls.\<close>

inductive rq_step :: "nat \<Rightarrow> rq \<Rightarrow> rq \<Rightarrow> bool" for max_pending where
  client: "rq_step max_pending s (snd (enqueue_key max_pending key s))"
| close: "rq_step max_pending s (s\<lparr>rq_accepting := False\<rparr>)"
| set_stop: "\<not> rq_accepting s \<Longrightarrow> rq_step max_pending s (s\<lparr>rq_stop := True\<rparr>)"
| worker: "worker_step s t \<Longrightarrow> rq_step max_pending s t"

section \<open>The invariant\<close>

text \<open>The key the worker holds, and whether a change of a key awaits a run.\<close>

definition held :: "worker \<Rightarrow> string list" where
  "held w = (case w of WGot k \<Rightarrow> [k] | WRun k v \<Rightarrow> [k] | _ \<Rightarrow> [])"

fun event_pending :: "string \<Rightarrow> rq_event \<Rightarrow> bool \<Rightarrow> bool" where
  "event_pending k (Changed k') b = (b \<or> k' = k)"
| "event_pending k (Began k') b = (b \<and> k' \<noteq> k)"
| "event_pending k _ b = b"

definition unseen :: "string \<Rightarrow> rq_event list \<Rightarrow> bool" where
  "unseen k l = fold (event_pending k) l False"

lemma unseen_simps [simp]:
  "\<not> unseen k []" "unseen k (l @ [e]) = event_pending k e (unseen k l)"
  by (simp_all add: unseen_def)

lemma unseen_run [simp]: "unseen k (l @ run_events key r i) = unseen k l"
  by (auto simp: unseen_def run_events_def status_warning_def Let_def split: outcome.split option.split)

definition rq_inv :: "nat \<Rightarrow> rq \<Rightarrow> bool" where
  "rq_inv max_pending s \<longleftrightarrow>
     distinct (dkeys (rq_versions s)) \<and>
     length (rq_versions s) \<le> max_pending \<and>
     distinct (held (rq_worker s) @ rq_queue s) \<and>
     set (held (rq_worker s) @ rq_queue s) = set (dkeys (rq_versions s)) \<and>
     (\<forall>k v. rq_worker s = WRun k v \<longrightarrow> (\<exists>w \<ge> v. dget (rq_versions s) k = Some w \<and> (unseen k (rq_log s) \<longrightarrow> v < w))) \<and>
     (\<forall>k. unseen k (rq_log s) \<longrightarrow> dhas (rq_versions s) k) \<and>
     (rq_stop s \<longrightarrow> \<not> rq_accepting s) \<and>
     (rq_worker s = WCheck \<longrightarrow> rq_stop s) \<and>
     (rq_worker s = WAbsent \<longrightarrow> rq_queue s = []) \<and>
     (rq_worker s = WDone \<longrightarrow> rq_stop s \<and> rq_queue s = [])"

lemma rq_inv_enqueue:
  assumes "rq_inv m s"
  shows "rq_inv m (snd (enqueue_key m key s))"
proof (cases "rq_accepting s")
  case False
  with assms show ?thesis by (simp add: enqueue_key_def)
next
  case acc: True
  note I = assms [unfolded rq_inv_def]
  show ?thesis
  proof (cases "dget (rq_versions s) key")
    case (Some v)
    then have key: "key \<in> fst ` set (rq_versions s)"
      using dhas_iff [of "rq_versions s" key] by (simp add: dhas_def)
    have "\<exists>w \<ge> u. dget (dset key (Suc v) (rq_versions s)) k = Some w \<and>
        (unseen k (rq_log s @ [Changed key]) \<longrightarrow> u < w)" if "rq_worker s = WRun k u" for k u
    proof -
      from I that obtain w where "u \<le> w" "dget (rq_versions s) k = Some w" "unseen k (rq_log s) \<longrightarrow> u < w"
        by blast
      with Some show ?thesis by (cases "k = key") (auto simp: dget_dset)
    qed
    moreover have "length (dset key (Suc v) (rq_versions s)) = length (rq_versions s)"
      using key by (simp add: length_dset dhas_iff)
    ultimately show ?thesis
      using I acc Some key by (simp add: rq_inv_def enqueue_key_def dict_keys dhas_iff insert_absorb) blast
  next
    case None
    then have key: "key \<notin> fst ` set (rq_versions s)" by (simp add: map_of_eq_None_iff)
    show ?thesis
    proof (cases "m \<le> length (rq_versions s)")
      case True
      with assms acc None show ?thesis by (simp add: enqueue_key_def)
    next
      case False
      let ?d = "dset key 1 (rq_versions s)" and ?l = "rq_log s @ [Changed key]"
      have "\<exists>w \<ge> u. dget ?d k = Some w \<and> (unseen k ?l \<longrightarrow> u < w)" if "rq_worker s = WRun k u" for k u
      proof -
        from I that obtain w where "u \<le> w" "dget (rq_versions s) k = Some w" "unseen k (rq_log s) \<longrightarrow> u < w"
          by blast
        with None show ?thesis by (auto simp: dget_dset)
      qed
      moreover have "length ?d \<le> m" using False None by (simp add: length_dset dhas_def)
      ultimately show ?thesis using I acc None key False
        by (cases "rq_worker s")
           (auto simp: rq_inv_def enqueue_key_def ensure_worker_locked_def dict_keys dhas_iff held_def)
    qed
  qed
qed

lemma rq_inv_worker:
  assumes "rq_inv m s" "worker_step s t"
  shows "rq_inv m t"
  using assms(2)
proof cases
  case loop
  with assms(1) show ?thesis by (auto simp: rq_inv_def held_def)
next
  case check
  with assms(1) show ?thesis by (auto simp: rq_inv_def held_def)
next
  case (got key q)
  with assms(1) show ?thesis by (auto simp: rq_inv_def held_def)
next
  case timeout
  with assms(1) show ?thesis by (auto simp: rq_inv_def held_def)
next
  case (observe key)
  with assms(1) have "dhas (rq_versions s) key" by (auto simp: rq_inv_def held_def dhas_iff)
  then obtain v where "dget (rq_versions s) key = Some v" by (auto simp: dhas_def)
  with observe assms(1) show ?thesis by (auto simp: rq_inv_def held_def observe_key_def)
next
  case (finish key v r i)
  from assms(1) finish(2) obtain w where w: "v \<le> w" "dget (rq_versions s) key = Some w"
    "unseen key (rq_log s) \<longrightarrow> v < w" unfolding rq_inv_def by blast
  show ?thesis
  proof (cases "w = v")
    case True
    with w assms(1) finish show ?thesis
      by (auto simp: rq_inv_def held_def finish_key_def dhas_iff dict_keys le_trans [OF dict_keys(5)])
  next
    case False
    with w assms(1) finish show ?thesis
      by (auto simp: rq_inv_def held_def finish_key_def)
  qed
qed

interpretation reindex: invariant_system "\<lambda>s. s = new_queue" "rq_step m" "rq_inv m"
proof
  show "rq_inv m s" if "s = new_queue" for s using that by (simp add: rq_inv_def new_queue_def held_def)
  show "rq_inv m t" if "rq_inv m s" "rq_step m s t" for s t
    using that(2)
  proof cases
    case (client key)
    with rq_inv_enqueue [OF that(1)] show ?thesis by simp
  next
    case worker
    with rq_inv_worker [OF that(1)] show ?thesis by simp
  qed (use that(1) in \<open>auto simp: rq_inv_def\<close>)
qed

section \<open>Properties\<close>

text \<open>At every moment the queue is bounded: at most \<open>max_pending\<close> paths are pending, no path is
  queued twice or both queued and held by the worker, and the pending paths are exactly the queued
  ones and the one the worker holds.\<close>

theorem reindex_queue_bounded:
  assumes "reachable (\<lambda>s. s = new_queue) (rq_step max_pending) s"
  shows "pending_count s \<le> max_pending \<and> distinct (held (rq_worker s) @ rq_queue s) \<and>
    set (dkeys (rq_versions s)) = set (held (rq_worker s)) \<union> set (rq_queue s) \<and>
    (rq_queue s \<noteq> [] \<longrightarrow> worker_count s = 1)"
  using reindex.inv_reachable [OF assms]
  by (auto simp: rq_inv_def pending_count_def worker_count_def)

text \<open>C4. No change is lost: when nothing is pending, as when the worker has ended, the last
  accepted change of every path was followed by the start of a run of that path.\<close>

theorem reindex_no_lost_change:
  assumes "reachable (\<lambda>s. s = new_queue) (rq_step max_pending) s"
    and "pending_count s = 0 \<or> rq_worker s = WDone"
  shows "\<not> unseen k (rq_log s)"
proof -
  have inv: "rq_inv max_pending s" by (rule reindex.inv_reachable [OF assms(1)])
  from assms(2) have "rq_versions s = []"
  proof
    assume "rq_worker s = WDone"
    with inv show ?thesis unfolding rq_inv_def by (auto simp: held_def)
  qed (simp add: pending_count_def)
  with inv show ?thesis by (auto simp: rq_inv_def dhas_def)
qed

text \<open>After \<open>stop\<close> every step of the worker decreases a measure, and until it ends it has a step.\<close>

definition drain_measure :: "rq \<Rightarrow> nat" where
  "drain_measure s = 10 * length (rq_queue s) + (case rq_worker s of
       WAbsent \<Rightarrow> 0 | WLoop \<Rightarrow> 3 | WCheck \<Rightarrow> 2 | WGet \<Rightarrow> (if rq_queue s = [] then 4 else 1) | WGot k \<Rightarrow> 9
     | WRun k v \<Rightarrow> (if dget (rq_versions s) k = Some v then 8 else 18) | WDone \<Rightarrow> 0)"

lemma drain_decreases:
  assumes "rq_stop s" "worker_step s t"
  shows "rq_stop t \<and> drain_measure t < drain_measure s"
  using assms(2)
proof cases
  case (observe key)
  with assms(1) show ?thesis
    by (auto simp: drain_measure_def observe_key_def split: option.split)
next
  case (finish key v r i)
  with assms(1) show ?thesis
    by (cases "dget (rq_versions s) key") (auto simp: drain_measure_def finish_key_def Let_def)
qed (use assms(1) in \<open>auto simp: drain_measure_def\<close>)

lemma worker_progress:
  assumes "rq_worker s \<noteq> WAbsent" "rq_worker s \<noteq> WDone"
  shows "\<exists>t. worker_step s t"
  using assms worker_step.intros by (cases "rq_worker s"; cases "rq_queue s") blast+

lemma worker_stays: "worker_step s t \<Longrightarrow> rq_worker t \<noteq> WAbsent"
  by (erule worker_step.cases) (auto simp: observe_key_def finish_key_def Let_def split: option.split)

lemma drains:
  assumes "rq_stop s" "rq_worker s \<noteq> WAbsent"
  shows "\<exists>t. worker_step\<^sup>*\<^sup>* s t \<and> rq_worker t = WDone"
  using assms
proof (induction "drain_measure s" arbitrary: s rule: less_induct)
  case less
  show ?case
  proof (cases "rq_worker s = WDone")
    case False
    then obtain t where t: "worker_step s t" using worker_progress less.prems by blast
    from less.hyps [of t] drain_decreases [OF less.prems(1) t] worker_stays [OF t]
    show ?thesis by (meson converse_rtranclp_into_rtranclp t)
  qed auto
qed

text \<open>C26. Once stopped, the queue drains: the worker cannot run for ever, since every one of its steps
  decreases a measure whatever the indexer returns or raises, and it ends with nothing pending.\<close>

theorem reindex_stop_drains:
  assumes "reachable (\<lambda>s. s = new_queue) (rq_step max_pending) s" "rq_stop s"
  shows "(\<forall>t. worker_step s t \<longrightarrow> drain_measure t < drain_measure s) \<and>
    (\<exists>t. worker_step\<^sup>*\<^sup>* s t \<and> pending_count t = 0 \<and> worker_count t = 0)"
proof -
  have inv: "rq_inv max_pending s" by (rule reindex.inv_reachable [OF assms(1)])
  have end_inv: "rq_inv max_pending t" if "worker_step\<^sup>*\<^sup>* s t" for t
    using that by induction (auto intro: inv rq_inv_worker)
  show ?thesis
  proof (cases "rq_worker s = WAbsent")
    case True
    with inv have "rq_versions s = []" unfolding rq_inv_def by (auto simp: held_def)
    with True show ?thesis
      using drain_decreases [OF assms(2)] by (auto simp: pending_count_def worker_count_def)
  next
    case False
    then obtain t where t: "worker_step\<^sup>*\<^sup>* s t" "rq_worker t = WDone" using drains assms(2) by blast
    with end_inv [OF t(1)] have "rq_versions t = []" unfolding rq_inv_def by (auto simp: held_def)
    with t show ?thesis
      using drain_decreases [OF assms(2)] by (auto simp: pending_count_def worker_count_def)
  qed
qed

section \<open>A concrete run\<close>

lemma sample_queue_run:
  "reachable (\<lambda>s. s = new_queue) (rq_step 2)
     \<lparr>rq_queue = [''a''], rq_versions = [(''a'', 1)], rq_accepting = False, rq_stop = True,
      rq_worker = WLoop, rq_log = [Changed ''a'']\<rparr>"
proof -
  let ?r = "reachable (\<lambda>s. s = new_queue) (rq_step 2)"
  let ?s = "snd (enqueue_key 2 ''a'' new_queue)"
  have "?r new_queue" by (rule reach_init) simp
  then have "?r ?s" by (rule reach_step) (rule client)
  then have "?r (?s\<lparr>rq_accepting := False\<rparr>)" by (rule reach_step) (rule close)
  then have "?r (?s\<lparr>rq_accepting := False, rq_stop := True\<rparr>)"
    by (rule reach_step) (use set_stop [of "?s\<lparr>rq_accepting := False\<rparr>" 2] in simp)
  then show ?thesis by (simp add: enqueue_key_def ensure_worker_locked_def new_queue_def)
qed

theorem reindex_queue_bounded_witness:
  "pending_count \<lparr>rq_queue = [''a''], rq_versions = [(''a'', 1)], rq_accepting = False, rq_stop = True,
      rq_worker = WLoop, rq_log = [Changed ''a'']\<rparr> \<le> 2"
  using reindex_queue_bounded [OF sample_queue_run] by blast

theorem reindex_no_lost_change_witness: "\<not> unseen ''a'' (rq_log new_queue)"
  by (rule reindex_no_lost_change [where max_pending = 2 and s = new_queue])
     (simp_all add: reach_init pending_count_def new_queue_def)

theorem reindex_stop_drains_witness:
  "\<exists>t. worker_step\<^sup>*\<^sup>* \<lparr>rq_queue = [''a''], rq_versions = [(''a'', 1)], rq_accepting = False,
      rq_stop = True, rq_worker = WLoop, rq_log = [Changed ''a'']\<rparr> t \<and> pending_count t = 0"
  using reindex_stop_drains [OF sample_queue_run] by auto

end
