(* ===== verification/Enrichment_Jobs.thy ===== *)
theory Enrichment_Jobs
  imports Crud_Write "HOL-Library.Multiset"
begin

text \<open>
  \<open>server/frontmatter_jobs.py\<close>: the manager of asynchronous enrichment jobs.  The state holds the
  job table, the bounded queue, the flags and the program point of the worker; each critical
  section is one step.  What \<open>enrich_note_frontmatter_required\<close> returns or raises for a path, the
  clock and the fresh job identifier are parameters of the steps.
\<close>

section \<open>State\<close>

record job_limits =
  jl_pending :: nat
  jl_paths :: nat
  jl_history :: nat
  jl_results :: nat

text \<open>The constructor: every limit is at least one.\<close>

definition make_limits :: "int \<Rightarrow> int \<Rightarrow> int \<Rightarrow> int \<Rightarrow> job_limits" where
  "make_limits max_pending max_paths max_history max_results =
     \<lparr>jl_pending = nat (max 1 max_pending), jl_paths = nat (max 1 max_paths),
      jl_history = nat (max 1 max_history), jl_results = nat (max 1 max_results)\<rparr>"

datatype job_status = Queued | Running | Completed | Completed_with_errors | Failed

definition terminal :: "job_status \<Rightarrow> bool" where
  "terminal st \<longleftrightarrow> st = Completed \<or> st = Completed_with_errors \<or> st = Failed"

record job_entry =
  je_path :: string
  je_success :: bool
  je_message :: string
  je_enriched :: bool
  je_filled :: nat
  je_code :: "string option"

record job =
  j_status :: job_status
  j_reason :: string
  j_created :: rat
  j_started :: "rat option"
  j_finished :: "rat option"
  j_total :: nat
  j_processed :: nat
  j_succeeded :: nat
  j_failed :: nat
  j_results :: "job_entry list"
  j_returned :: nat
  j_truncated :: nat

datatype job_worker =
    JAbsent
  | JLoop
  | JCheck
  | JGet
  | JStart string "string list"
  | JRun string "string list"
  | JDone

record jobs =
  jb_jobs :: "(string, job) dict"
  jb_queue :: "(string \<times> string list) list"
  jb_accepting :: bool
  jb_stop :: bool
  jb_worker :: job_worker

definition new_jobs :: jobs where
  "new_jobs = \<lparr>jb_jobs = [], jb_queue = [], jb_accepting = True, jb_stop = False, jb_worker = JAbsent\<rparr>"

section \<open>Operations\<close>

text \<open>\<open>dict.fromkeys\<close>: the first occurrence of each path.\<close>

fun from_keys :: "'a list \<Rightarrow> 'a list" where
  "from_keys [] = []"
| "from_keys (x # xs) = x # from_keys (filter (\<lambda>y. y \<noteq> x) xs)"

definition md_path :: "pyval \<Rightarrow> string option" where
  "md_path v = (case v of PStr s \<Rightarrow> if ends_with (py_lower s) ''.md'' then Some s else None | _ \<Rightarrow> None)"

definition md_paths :: "pyval list \<Rightarrow> string list" where
  "md_paths paths = from_keys (List.map_filter md_path paths)"

definition prune_terminal_jobs :: "job_limits \<Rightarrow> (string, job) dict \<Rightarrow> (string, job) dict" where
  "prune_terminal_jobs L js =
     (let over = filter (\<lambda>i. terminal (j_status (snd i))) js in
      if length over \<le> jl_history L then js
      else let ordered = sort_key (\<lambda>i. j_created (snd i)) over in
        fold (\<lambda>i. ddel (fst i)) (take (length over - jl_history L) ordered) js)"

definition ensure_job_worker :: "jobs \<Rightarrow> jobs" where
  "ensure_job_worker s =
     (if jb_worker s = JAbsent \<or> jb_worker s = JDone then s\<lparr>jb_worker := JLoop\<rparr> else s)"

datatype enqueue_answer =
    Refused "string option" string
  | Accepted string nat

definition new_job :: "string \<Rightarrow> rat \<Rightarrow> nat \<Rightarrow> job" where
  "new_job reason now n = \<lparr>j_status = Queued, j_reason = reason, j_created = now, j_started = None,
     j_finished = None, j_total = n, j_processed = 0, j_succeeded = 0, j_failed = 0, j_results = [],
     j_returned = 0, j_truncated = 0\<rparr>"

definition enqueue_job ::
  "job_limits \<Rightarrow> conf \<Rightarrow> pyval list \<Rightarrow> string \<Rightarrow> string \<Rightarrow> rat \<Rightarrow> jobs \<Rightarrow> enqueue_answer \<times> jobs" where
  "enqueue_job L C paths reason job_id now s =
     (let md = md_paths paths in
      if md = [] then (Refused None ''No valid .md path was provided for enrichment'', s)
      else if jl_paths L < length md
      then (Refused (Some ''too_many_paths'') ''Path count exceeds the per-job limit'', s)
      else if \<not> is_ai_enrichment_enabled C
      then (Refused None ''AI enrichment is disabled in configuration'', s)
      else if \<not> jb_accepting s
      then (Refused (Some ''stopped'') ''Enrichment queue is stopped'', s)
      else if jl_pending L \<le> length (jb_queue s)
      then (Refused (Some ''queue_full'') ''Enrichment queue is full'', s)
      else (Accepted job_id (length md), ensure_job_worker
        (s\<lparr>jb_queue := jb_queue s @ [(job_id, md)],
           jb_jobs := prune_terminal_jobs L (dset job_id (new_job reason now (length md)) (jb_jobs s))\<rparr>)))"

datatype status_answer = Missing string | One job | Many "job list" nat

definition get_status :: "string option \<Rightarrow> int \<Rightarrow> jobs \<Rightarrow> status_answer" where
  "get_status job_id limit s =
     (if job_id \<noteq> None \<and> job_id \<noteq> Some []
      then (case dget (jb_jobs s) (the job_id) of None \<Rightarrow> Missing (the job_id) | Some j \<Rightarrow> One j)
      else Many (take (nat (max 1 (min limit 100)))
             (sort_key (\<lambda>j. - j_created j) (map snd (jb_jobs s)))) (length (jb_jobs s)))"

text \<open>One path: the entry built from the result, and its effect on the counters.\<close>

definition result_entry :: "string \<Rightarrow> op_result result \<Rightarrow> job_entry" where
  "result_entry path r =
     (let res = (case r of Inr x \<Rightarrow> x
        | Inl _ \<Rightarrow> error_result path ''Internal enrichment failure'' (Some ''internal_error'')) in
      \<lparr>je_path = path, je_success = or_success res, je_message = or_message res,
       je_enriched = (or_enriched res = Some True),
       je_filled = (case or_filled res of None \<Rightarrow> 0 | Some n \<Rightarrow> n), je_code = or_code res\<rparr>)"

definition count_entry :: "job_limits \<Rightarrow> job_entry \<Rightarrow> job \<Rightarrow> job" where
  "count_entry L e j =
     (let j = j\<lparr>j_processed := Suc (j_processed j)\<rparr>;
          j = (if je_success e then j\<lparr>j_succeeded := Suc (j_succeeded j)\<rparr>
               else j\<lparr>j_failed := Suc (j_failed j)\<rparr>) in
      if length (j_results j) < jl_results L
      then j\<lparr>j_results := j_results j @ [e], j_returned := Suc (j_returned j)\<rparr>
      else j\<lparr>j_truncated := Suc (j_truncated j)\<rparr>)"

definition on_job :: "string \<Rightarrow> (job \<Rightarrow> job) \<Rightarrow> (string, job) dict \<Rightarrow> (string, job) dict" where
  "on_job k f js = (case dget js k of None \<Rightarrow> js | Some j \<Rightarrow> dset k (f j) js)"

definition start_job :: "string \<Rightarrow> string list \<Rightarrow> rat \<Rightarrow> jobs \<Rightarrow> jobs" where
  "start_job k paths now s = (case dget (jb_jobs s) k of
       None \<Rightarrow> s\<lparr>jb_worker := JLoop\<rparr>
     | Some j \<Rightarrow> s\<lparr>jb_jobs := dset k (j\<lparr>j_status := Running, j_started := Some now\<rparr>) (jb_jobs s),
                   jb_worker := JRun k paths\<rparr>)"

definition run_path :: "job_limits \<Rightarrow> string \<Rightarrow> string \<Rightarrow> string list \<Rightarrow> op_result result \<Rightarrow> jobs \<Rightarrow> jobs" where
  "run_path L k path rest r s =
     s\<lparr>jb_jobs := on_job k (count_entry L (result_entry path r)) (jb_jobs s), jb_worker := JRun k rest\<rparr>"

definition finish_job :: "job_limits \<Rightarrow> string \<Rightarrow> rat \<Rightarrow> jobs \<Rightarrow> jobs" where
  "finish_job L k now s = (case dget (jb_jobs s) k of
       None \<Rightarrow> s\<lparr>jb_worker := JLoop\<rparr>
     | Some j \<Rightarrow> s\<lparr>jb_jobs := prune_terminal_jobs L (dset k
           (j\<lparr>j_finished := Some now,
              j_status := if 0 < j_failed j then Completed_with_errors else Completed\<rparr>) (jb_jobs s)),
         jb_worker := JLoop\<rparr>)"

definition mark_job_failed :: "job_limits \<Rightarrow> string \<Rightarrow> rat \<Rightarrow> jobs \<Rightarrow> jobs" where
  "mark_job_failed L k now s = (case dget (jb_jobs s) k of
       None \<Rightarrow> s\<lparr>jb_worker := JLoop\<rparr>
     | Some j \<Rightarrow> if terminal (j_status j) then s\<lparr>jb_worker := JLoop\<rparr>
         else s\<lparr>jb_jobs := prune_terminal_jobs L (dset k
             (j\<lparr>j_status := Failed, j_finished := Some now\<rparr>) (jb_jobs s)), jb_worker := JLoop\<rparr>)"

section \<open>Steps\<close>

inductive job_step :: "job_limits \<Rightarrow> conf \<Rightarrow> jobs \<Rightarrow> jobs \<Rightarrow> bool" for L C where
  enqueue: "\<not> dhas (jb_jobs s) job_id \<Longrightarrow> job_id \<notin> fst ` set (jb_queue s) \<Longrightarrow>
    job_step L C s (snd (enqueue_job L C paths reason job_id now s))"
| close: "job_step L C s (s\<lparr>jb_accepting := False\<rparr>)"
| set_stop: "\<not> jb_accepting s \<Longrightarrow> job_step L C s (s\<lparr>jb_stop := True\<rparr>)"
| loop: "jb_worker s = JLoop \<Longrightarrow>
    job_step L C s (s\<lparr>jb_worker := if jb_stop s then JCheck else JGet\<rparr>)"
| check: "jb_worker s = JCheck \<Longrightarrow>
    job_step L C s (s\<lparr>jb_worker := if jb_queue s = [] then JDone else JGet\<rparr>)"
| got: "jb_worker s = JGet \<Longrightarrow> jb_queue s = (k, paths) # q \<Longrightarrow>
    job_step L C s (s\<lparr>jb_queue := q, jb_worker := JStart k paths\<rparr>)"
| timeout: "jb_worker s = JGet \<Longrightarrow> jb_queue s = [] \<Longrightarrow> job_step L C s (s\<lparr>jb_worker := JLoop\<rparr>)"
| start: "jb_worker s = JStart k paths \<Longrightarrow> job_step L C s (start_job k paths now s)"
| path: "jb_worker s = JRun k (p # ps) \<Longrightarrow> job_step L C s (run_path L k p ps r s)"
| finish: "jb_worker s = JRun k [] \<Longrightarrow> job_step L C s (finish_job L k now s)"
| abort: "jb_worker s = JRun k ps \<Longrightarrow> job_step L C s (mark_job_failed L k now s)"

section \<open>The job table\<close>

definition job_ok :: "job_limits \<Rightarrow> job \<Rightarrow> bool" where
  "job_ok L j \<longleftrightarrow>
     j_processed j = j_succeeded j + j_failed j \<and> j_processed j \<le> j_total j \<and>
     j_processed j = j_returned j + j_truncated j \<and>
     j_returned j = length (j_results j) \<and> j_returned j \<le> jl_results L \<and>
     (j_status j = Completed \<longrightarrow> j_succeeded j = j_total j) \<and>
     (j_status j = Completed_with_errors \<longrightarrow> 0 < j_failed j \<and> j_processed j = j_total j)"

definition terminal_keys :: "(string, job) dict \<Rightarrow> string set" where
  "terminal_keys js = {k. \<exists>j. dget js k = Some j \<and> terminal (j_status j)}"

text \<open>What is to be done, for each waiting job: its status and the number of its paths left.\<close>

type_synonym slot = "string \<times> job_status \<times> nat"

definition table_pre :: "job_limits \<Rightarrow> (string, job) dict \<Rightarrow> slot list \<Rightarrow> bool" where
  "table_pre L js sl \<longleftrightarrow> distinct (dkeys js) \<and> distinct (map fst sl) \<and>
     (\<forall>k st n. (k, st, n) \<in> set sl \<longrightarrow>
        (\<exists>j. dget js k = Some j \<and> j_status j = st \<and> \<not> terminal st \<and> j_processed j + n = j_total j)) \<and>
     (\<forall>k j. dget js k = Some j \<longrightarrow> job_ok L j \<and> (\<not> terminal (j_status j) \<longrightarrow> k \<in> fst ` set sl))"

definition table_ok :: "job_limits \<Rightarrow> (string, job) dict \<Rightarrow> slot list \<Rightarrow> bool" where
  "table_ok L js sl \<longleftrightarrow> table_pre L js sl \<and> card (terminal_keys js) \<le> jl_history L"

lemma count_keys:
  assumes "distinct (dkeys js)"
  shows "length (filter (\<lambda>i. P (snd i)) js) = card {k. \<exists>j. dget js k = Some j \<and> P j}"
proof -
  let ?f = "filter (\<lambda>i. P (snd i)) js"
  have "distinct (map fst ?f)" using assms by (rule distinct_keys_filter)
  then have "length ?f = card (fst ` set ?f)" using distinct_card [of "map fst ?f"] by simp
  also have "fst ` set ?f = {k. \<exists>j. dget js k = Some j \<and> P j}"
    using assms by (force simp: map_of_eq_Some_iff)
  finally show ?thesis .
qed

lemma prune_facts:
  assumes "distinct (dkeys js)" and "js' = prune_terminal_jobs L js"
  shows "distinct (dkeys js') \<and> (\<forall>k j. dget js' k = Some j \<longrightarrow> dget js k = Some j) \<and>
    (\<forall>k j. dget js k = Some j \<longrightarrow> \<not> terminal (j_status j) \<longrightarrow> dget js' k = Some j) \<and>
    card (terminal_keys js') \<le> jl_history L"
proof -
  let ?t = "\<lambda>i. terminal (j_status (snd i))"
  define over where "over = filter ?t js"
  define ordered where "ordered = sort_key (\<lambda>i. j_created (snd i)) over"
  define gone where "gone = take (length over - jl_history L) ordered"
  have count: "card (terminal_keys d) = length (filter ?t d)" if "distinct (dkeys d)" for d
    using count_keys [OF that, of "\<lambda>j. terminal (j_status j)"] by (simp add: terminal_keys_def)
  show ?thesis
  proof (cases "length over \<le> jl_history L")
    case True
    with assms count [OF assms(1)] show ?thesis
      by (simp add: prune_terminal_jobs_def over_def Let_def)
  next
    case False
    have js': "js' = filter (\<lambda>i. fst i \<notin> fst ` set gone) js"
      using False assms(2) by (simp add: prune_terminal_jobs_def Let_def fold_ddel gone_def ordered_def over_def)
    have d': "distinct (dkeys js')" using assms(1) by (simp add: js' distinct_keys_filter)
    have in_over: "set gone \<subseteq> set over" using set_take_subset by (fastforce simp: gone_def ordered_def)
    have kept: "dget js' k = Some j" if "dget js k = Some j" "\<not> terminal (j_status j)" for k j
    proof -
      have "k \<notin> fst ` set gone"
      proof
        assume "k \<in> fst ` set gone"
        then obtain j' where "(k, j') \<in> set over" using in_over by force
        then have "(k, j') \<in> set js" "terminal (j_status j')" by (auto simp: over_def)
        with that assms(1) show False by (auto simp: map_of_eq_Some_iff dest: map_of_is_SomeI)
      qed
      with that(1) show ?thesis by (simp add: js' dget_filter_keys)
    qed
    have "filter ?t js' = filter (\<lambda>i. fst i \<notin> fst ` set gone) over"
      by (simp add: js' over_def conj_commute)
    also have "length \<dots> = length (filter (\<lambda>i. fst i \<notin> fst ` set gone) ordered)"
      by (simp only: size_mset [symmetric] mset_filter ordered_def mset_sort)
    also have "\<dots> \<le> length (filter (\<lambda>i. fst i \<notin> fst ` set gone) gone) +
        length (drop (length over - jl_history L) ordered)"
    proof -
      have "ordered = gone @ drop (length over - jl_history L) ordered" by (simp add: gone_def)
      then have "filter (\<lambda>i. fst i \<notin> fst ` set gone) ordered = filter (\<lambda>i. fst i \<notin> fst ` set gone) gone @
          filter (\<lambda>i. fst i \<notin> fst ` set gone) (drop (length over - jl_history L) ordered)"
        by (simp only: filter_append [symmetric])
      then show ?thesis by (simp only: length_append length_filter_le add_left_mono)
    qed
    also have "\<dots> = jl_history L" using False by (simp add: ordered_def filter_False)
    finally show ?thesis using d' kept count [OF d'] by (auto simp: js' dget_filter_keys split: if_splits)
  qed
qed

lemma prune_table:
  assumes "table_pre L js sl" shows "table_ok L (prune_terminal_jobs L js) sl"
proof -
  note P = prune_facts [OF _ refl, of js L]
  from assms have d: "distinct (dkeys js)" by (simp add: table_pre_def)
  note P = P [OF d]
  show ?thesis unfolding table_ok_def table_pre_def
    using P assms unfolding table_pre_def by blast
qed

lemma table_pre_D:
  assumes "table_pre L js sl"
  shows "(k, st, n) \<in> set sl \<Longrightarrow>
      \<exists>j. dget js k = Some j \<and> j_status j = st \<and> \<not> terminal st \<and> j_processed j + n = j_total j"
    and "dget js k = Some j \<Longrightarrow> job_ok L j"
    and "dget js k = Some j \<Longrightarrow> \<not> terminal (j_status j) \<Longrightarrow> k \<in> fst ` set sl"
    and "distinct (dkeys js)" "distinct (map fst sl)"
  using assms unfolding table_pre_def by blast+

lemma table_pre_I:
  assumes "distinct (dkeys js)" "distinct (map fst sl)"
    and "\<And>k st n. (k, st, n) \<in> set sl \<Longrightarrow>
      \<exists>j. dget js k = Some j \<and> j_status j = st \<and> \<not> terminal st \<and> j_processed j + n = j_total j"
    and "\<And>k j. dget js k = Some j \<Longrightarrow> job_ok L j"
    and "\<And>k j. dget js k = Some j \<Longrightarrow> \<not> terminal (j_status j) \<Longrightarrow> k \<in> fst ` set sl"
  shows "table_pre L js sl"
  using assms unfolding table_pre_def by blast

lemma table_add:
  assumes "table_ok L js sl" "\<not> dhas js k" "k \<notin> fst ` set sl"
  shows "table_ok L (prune_terminal_jobs L (dset k (new_job reason now n) js)) (sl @ [(k, Queued, n)])"
proof (rule prune_table, rule table_pre_I)
  let ?j = "new_job reason now n"
  have pre: "table_pre L js sl" using assms(1) by (simp add: table_ok_def)
  note D = table_pre_D [OF pre]
  have new: "job_ok L ?j" "j_status ?j = Queued" "j_processed ?j + n = j_total ?j" "\<not> terminal Queued"
    by (simp_all add: job_ok_def new_job_def terminal_def)
  show "distinct (dkeys (dset k ?j js))" by (rule distinct_update [OF D(4)])
  show "distinct (map fst (sl @ [(k, Queued, n)]))" using D(5) assms(3) by simp
  show "\<exists>j. dget (dset k ?j js) k' = Some j \<and> j_status j = st \<and> \<not> terminal st \<and> j_processed j + m = j_total j"
    if "(k', st, m) \<in> set (sl @ [(k, Queued, n)])" for k' st m
  proof (cases "(k', st, m) \<in> set sl")
    case True
    then have "k' \<noteq> k" using assms(3) by force
    with D(1) [OF True] show ?thesis by (simp add: dget_dset)
  qed (use that new in \<open>simp add: dget_dset\<close>)
  show "job_ok L j" if "dget (dset k ?j js) k' = Some j" for k' j
    using that D(2) new(1) by (auto simp: dget_dset split: if_splits)
  show "k' \<in> fst ` set (sl @ [(k, Queued, n)])"
    if "dget (dset k ?j js) k' = Some j" "\<not> terminal (j_status j)" for k' j
    using that D(3) by (cases "k' = k") (simp_all add: dget_dset)
qed

lemma table_head:
  assumes "table_ok L js ((k, st, n) # sl)" "job_ok L j"
  shows "distinct (dkeys (dset k j js)) \<and> distinct (map fst sl) \<and> k \<notin> fst ` set sl \<and>
    (\<forall>k' st n. (k', st, n) \<in> set sl \<longrightarrow>
      (\<exists>j'. dget (dset k j js) k' = Some j' \<and> j_status j' = st \<and> \<not> terminal st \<and> j_processed j' + n = j_total j')) \<and>
    (\<forall>k' j'. dget (dset k j js) k' = Some j' \<longrightarrow>
      job_ok L j' \<and> (\<not> terminal (j_status j') \<longrightarrow> k' = k \<or> k' \<in> fst ` set sl))"
proof -
  have pre: "table_pre L js ((k, st, n) # sl)" using assms(1) by (simp add: table_ok_def)
  note D = table_pre_D [OF pre]
  have k: "k \<notin> fst ` set sl" "distinct (map fst sl)" using D(5) by simp_all
  have "\<exists>j'. dget (dset k j js) k' = Some j' \<and> j_status j' = st' \<and> \<not> terminal st' \<and> j_processed j' + m = j_total j'"
    if "(k', st', m) \<in> set sl" for k' st' m
  proof -
    have "k' \<noteq> k" using that k(1) by force
    with D(1) [of k' st' m] that show ?thesis by (simp add: dget_dset)
  qed
  moreover have "job_ok L j' \<and> (\<not> terminal (j_status j') \<longrightarrow> k' = k \<or> k' \<in> fst ` set sl)"
    if "dget (dset k j js) k' = Some j'" for k' j'
    using that D(2) [of k' j'] D(3) [of k' j'] assms(2) by (cases "k' = k") (simp_all add: dget_dset)
  ultimately show ?thesis using k distinct_update [OF D(4)] by blast
qed

lemma table_set:
  assumes "table_ok L js ((k, st, n) # sl)" "job_ok L j" "\<not> terminal (j_status j)"
    "j_processed j + n' = j_total j"
  shows "table_ok L (dset k j js) ((k, j_status j, n') # sl)"
proof -
  have pre: "table_pre L js ((k, st, n) # sl)" using assms(1) by (simp add: table_ok_def)
  from table_pre_D(1) [OF pre, of k st n]
  obtain j0 where j0: "dget js k = Some j0" "\<not> terminal (j_status j0)" by auto
  then have "terminal_keys (dset k j js) = terminal_keys js"
    using assms(3) by (auto simp: terminal_keys_def dget_dset)
  moreover have "table_pre L (dset k j js) ((k, j_status j, n') # sl)"
  proof (rule table_pre_I)
    note H = table_head [OF assms(1,2)]
    show "\<exists>j'. dget (dset k j js) k' = Some j' \<and> j_status j' = st' \<and> \<not> terminal st' \<and>
        j_processed j' + m = j_total j'" if "(k', st', m) \<in> set ((k, j_status j, n') # sl)" for k' st' m
    proof (cases "(k', st', m) \<in> set sl")
      case False
      with that assms(3,4) show ?thesis by (simp add: dget_dset)
    qed (use H in blast)
    show "k' \<in> fst ` set ((k, j_status j, n') # sl)"
      if "dget (dset k j js) k' = Some j'" "\<not> terminal (j_status j')" for k' j'
      using H that by (metis fst_conv image_insert insert_iff list.simps(15))
      show "distinct (dkeys (dset k j js))" using H by blast
    show "distinct (map fst ((k, j_status j, n') # sl))" using H by simp
    show "job_ok L j'" if "dget (dset k j js) k' = Some j'" for k' j' using H that by blast
  qed
  ultimately show ?thesis using assms(1) by (simp add: table_ok_def)
qed

lemma table_end:
  assumes "table_ok L js ((k, st, n) # sl)" "job_ok L j" "terminal (j_status j)"
  shows "table_ok L (prune_terminal_jobs L (dset k j js)) sl"
proof (rule prune_table, rule table_pre_I)
  note H = table_head [OF assms(1,2)]
  show "k' \<in> fst ` set sl" if "dget (dset k j js) k' = Some j'" "\<not> terminal (j_status j')" for k' j'
  proof -
    have "k' \<noteq> k" using that assms(3) by (auto simp: dget_dset)
    with H that show ?thesis by blast
  qed
qed (use table_head [OF assms(1,2)] in blast)+

section \<open>The invariant\<close>

definition slots :: "jobs \<Rightarrow> slot list" where
  "slots s = (case jb_worker s of JStart k ps \<Rightarrow> [(k, Queued, length ps)]
      | JRun k ps \<Rightarrow> [(k, Running, length ps)] | _ \<Rightarrow> []) @
     map (\<lambda>(k, ps). (k, Queued, length ps)) (jb_queue s)"

definition jobs_inv :: "job_limits \<Rightarrow> jobs \<Rightarrow> bool" where
  "jobs_inv L s \<longleftrightarrow> table_ok L (jb_jobs s) (slots s) \<and> length (jb_queue s) \<le> jl_pending L \<and>
     (jb_stop s \<longrightarrow> \<not> jb_accepting s) \<and> (jb_worker s = JCheck \<longrightarrow> jb_stop s) \<and>
     (jb_worker s = JAbsent \<longrightarrow> jb_queue s = []) \<and>
     (jb_worker s = JDone \<longrightarrow> jb_stop s \<and> jb_queue s = [])"

lemma slots_queue_keys: "fst ` set (map (\<lambda>(k, ps). (k, Queued, length ps)) q) = fst ` set q"
  by force

lemma table_drop_missing:
  "table_ok L js ((k, st, n) # sl) \<Longrightarrow> \<exists>j. dget js k = Some j \<and> job_ok L j \<and> j_status j = st \<and>
     \<not> terminal st \<and> j_processed j + n = j_total j"
  unfolding table_ok_def table_pre_def by (meson list.set_intros(1))

lemma jobs_inv_enqueue:
  assumes inv: "jobs_inv L s" and k: "\<not> dhas (jb_jobs s) k" "k \<notin> fst ` set (jb_queue s)"
  shows "jobs_inv L (snd (enqueue_job L C paths reason k now s))"
proof (cases "fst (enqueue_job L C paths reason k now s)")
  case (Refused c r)
  then have "snd (enqueue_job L C paths reason k now s) = s"
    by (auto simp: enqueue_job_def Let_def split: if_splits)
  with inv show ?thesis by simp
next
  case (Accepted k' n)
  let ?md = "md_paths paths"
  let ?s = "s\<lparr>jb_queue := jb_queue s @ [(k, ?md)],
    jb_jobs := prune_terminal_jobs L (dset k (new_job reason now (length ?md)) (jb_jobs s))\<rparr>"
  from Accepted have acc: "jb_accepting s" "length (jb_queue s) < jl_pending L"
    and run: "snd (enqueue_job L C paths reason k now s) = ensure_job_worker ?s"
    by (auto simp: enqueue_job_def Let_def split: if_splits)
  have held: "k \<notin> fst ` set (slots s)"
  proof
    assume "k \<in> fst ` set (slots s)"
    then obtain st m where "(k, st, m) \<in> set (slots s)" by force
    moreover have "table_pre L (jb_jobs s) (slots s)" using inv by (simp add: jobs_inv_def table_ok_def)
    ultimately show False using table_pre_D(1) k(1) by (fastforce simp: dhas_def)
  qed
  have "table_ok L (jb_jobs ?s) (slots s @ [(k, Queued, length ?md)])"
    using table_add [OF _ k(1) held] inv by (simp add: jobs_inv_def)
  moreover have "slots (ensure_job_worker ?s) = slots s @ [(k, Queued, length ?md)]"
    by (auto simp: slots_def ensure_job_worker_def split: job_worker.splits)
  moreover have "jb_jobs (ensure_job_worker ?s) = jb_jobs ?s" by (simp add: ensure_job_worker_def)
  ultimately show ?thesis
    using inv acc unfolding run jobs_inv_def by (auto simp: ensure_job_worker_def)
qed

lemma jobs_inv_step:
  assumes inv: "jobs_inv L s" and step: "job_step L C s t"
  shows "jobs_inv L t"
  using step
proof cases
  case (enqueue k paths reason now)
  with jobs_inv_enqueue [OF inv] show ?thesis by simp
next
  case (start k paths now)
  let ?q = "map (\<lambda>(k, ps). (k, Queued, length ps)) (jb_queue s)"
  have tab: "table_ok L (jb_jobs s) ((k, Queued, length paths) # ?q)"
    using inv start by (simp add: jobs_inv_def slots_def)
  from table_drop_missing [OF tab] obtain j where j: "dget (jb_jobs s) k = Some j" "job_ok L j"
    "j_processed j + length paths = j_total j" by blast
  let ?j = "j\<lparr>j_status := Running, j_started := Some now\<rparr>"
  have "table_ok L (dset k ?j (jb_jobs s)) ((k, j_status ?j, length paths) # ?q)"
    by (rule table_set [OF tab]) (use j in \<open>auto simp: job_ok_def terminal_def\<close>)
  with inv start j(1) show ?thesis by (simp add: jobs_inv_def start_job_def slots_def)
next
  case (path k p ps r)
  let ?q = "map (\<lambda>(k, ps). (k, Queued, length ps)) (jb_queue s)"
  let ?e = "result_entry p r"
  have tab: "table_ok L (jb_jobs s) ((k, Running, Suc (length ps)) # ?q)"
    using inv path by (simp add: jobs_inv_def slots_def)
  from table_drop_missing [OF tab] obtain j where j: "dget (jb_jobs s) k = Some j" "job_ok L j"
    "j_status j = Running" "j_processed j + Suc (length ps) = j_total j" by blast
  let ?j = "count_entry L ?e j"
  have st: "j_status ?j = Running" "j_processed ?j + length ps = j_total ?j" "job_ok L ?j"
    using j(2-4) by (auto simp: count_entry_def job_ok_def Let_def)
  have "table_ok L (dset k ?j (jb_jobs s)) ((k, j_status ?j, length ps) # ?q)"
    by (rule table_set [OF tab st(3) _ st(2)]) (simp add: st(1) terminal_def)
  with inv path j(1) st(1) show ?thesis by (simp add: jobs_inv_def run_path_def on_job_def slots_def)
next
  case (finish k now)
  let ?q = "map (\<lambda>(k, ps). (k, Queued, length ps)) (jb_queue s)"
  have tab: "table_ok L (jb_jobs s) ((k, Running, 0) # ?q)"
    using inv finish by (simp add: jobs_inv_def slots_def)
  from table_drop_missing [OF tab] obtain j where j: "dget (jb_jobs s) k = Some j" "job_ok L j"
    "j_processed j = j_total j" by auto
  let ?j = "j\<lparr>j_finished := Some now, j_status := if 0 < j_failed j then Completed_with_errors else Completed\<rparr>"
  have "table_ok L (prune_terminal_jobs L (dset k ?j (jb_jobs s))) ?q"
    by (rule table_end [OF tab]) (use j in \<open>auto simp: job_ok_def terminal_def\<close>)
  with inv finish j(1) show ?thesis by (simp add: jobs_inv_def finish_job_def slots_def)
next
  case (abort k ps now)
  let ?q = "map (\<lambda>(k, ps). (k, Queued, length ps)) (jb_queue s)"
  have tab: "table_ok L (jb_jobs s) ((k, Running, length ps) # ?q)"
    using inv abort by (simp add: jobs_inv_def slots_def)
  from table_drop_missing [OF tab] obtain j where j: "dget (jb_jobs s) k = Some j" "job_ok L j"
    "j_status j = Running" by auto
  let ?j = "j\<lparr>j_status := Failed, j_finished := Some now\<rparr>"
  have "table_ok L (prune_terminal_jobs L (dset k ?j (jb_jobs s))) ?q"
    by (rule table_end [OF tab]) (use j in \<open>auto simp: job_ok_def terminal_def\<close>)
  with inv abort j(1,3) show ?thesis
    by (simp add: jobs_inv_def mark_job_failed_def slots_def terminal_def)
qed (use inv in \<open>auto simp: jobs_inv_def slots_def\<close>)

interpretation enrichment_jobs: invariant_system "\<lambda>s. s = new_jobs" "job_step L C" "jobs_inv L"
proof
  show "jobs_inv L s" if "s = new_jobs" for s
    using that by (simp add: jobs_inv_def new_jobs_def slots_def table_ok_def table_pre_def terminal_keys_def)
qed (rule jobs_inv_step)

lemma jobs_table_size:
  assumes "jobs_inv L s"
  shows "length (jb_jobs s) \<le> jl_history L + jl_pending L + 1"
proof -
  have ok: "table_ok L (jb_jobs s) (slots s)" and q: "length (jb_queue s) \<le> jl_pending L"
    using assms by (simp_all add: jobs_inv_def)
  then have pre: "table_pre L (jb_jobs s) (slots s)" and few: "card (terminal_keys (jb_jobs s)) \<le> jl_history L"
    by (simp_all add: table_ok_def)
  have "fst ` set (jb_jobs s) \<subseteq> terminal_keys (jb_jobs s) \<union> fst ` set (slots s)"
  proof
    fix k assume "k \<in> fst ` set (jb_jobs s)"
    then obtain j where "dget (jb_jobs s) k = Some j"
      using dhas_iff [of "jb_jobs s" k] by (auto simp: dhas_def)
    then show "k \<in> terminal_keys (jb_jobs s) \<union> fst ` set (slots s)"
      using table_pre_D(3) [OF pre] unfolding terminal_keys_def by blast
  qed
  moreover have "finite (terminal_keys (jb_jobs s))"
    by (rule finite_subset [of _ "dom (dget (jb_jobs s))"]) (auto simp: terminal_keys_def finite_dom_map_of)
  ultimately have "card (fst ` set (jb_jobs s)) \<le> card (terminal_keys (jb_jobs s)) + card (fst ` set (slots s))"
    by (meson card_Un_le card_mono finite_Un finite_imageI finite_set le_trans)
  also have "card (fst ` set (slots s)) \<le> length (slots s)"
    using card_length [of "map fst (slots s)"] by simp
  also have "length (slots s) \<le> Suc (jl_pending L)"
    using q by (auto simp: slots_def split: job_worker.splits)
  also have "card (fst ` set (jb_jobs s)) = length (jb_jobs s)"
    using distinct_card [OF table_pre_D(4) [OF pre]] by simp
  finally show ?thesis using few by simp
qed

section \<open>Properties\<close>

text \<open>C28. The manager's memory is bounded: at any moment the table has at most the history limit of
  finished jobs and, with them, the queued jobs and the one being run; a job that waits in the
  queue is never pruned from the table.\<close>

theorem enrichment_jobs_bounded:
  assumes "reachable (\<lambda>s. s = new_jobs) (job_step L C) s"
  shows "length (jb_jobs s) \<le> jl_history L + jl_pending L + 1 \<and>
    length (jb_queue s) \<le> jl_pending L \<and> card (terminal_keys (jb_jobs s)) \<le> jl_history L \<and>
    (\<forall>k paths. (k, paths) \<in> set (jb_queue s) \<longrightarrow>
       (\<exists>j. dget (jb_jobs s) k = Some j \<and> j_status j = Queued \<and> j_processed j + length paths = j_total j))"
proof -
  have inv: "jobs_inv L s" by (rule enrichment_jobs.inv_reachable [OF assms])
  then have "table_pre L (jb_jobs s) (slots s)" by (simp add: jobs_inv_def table_ok_def)
  note D = table_pre_D(1) [OF this]
  have "\<exists>j. dget (jb_jobs s) k = Some j \<and> j_status j = Queued \<and> j_processed j + length paths = j_total j"
    if "(k, paths) \<in> set (jb_queue s)" for k paths
  proof -
    have "(k, Queued, length paths) \<in> set (slots s)" using that by (force simp: slots_def)
    from D [OF this] show ?thesis by blast
  qed
  with inv jobs_table_size [OF inv] show ?thesis unfolding jobs_inv_def table_ok_def by blast
qed

text \<open>The counters of every job agree: the processed paths are the succeeded and the failed ones,
  and the returned and the truncated ones; a job is completed only when every path succeeded, and
  completed with errors only when every path was processed and one failed.\<close>

theorem enrichment_job_counters:
  assumes "reachable (\<lambda>s. s = new_jobs) (job_step L C) s" "get_status (Some k) limit s = One j"
  shows "j_processed j = j_succeeded j + j_failed j \<and> j_processed j \<le> j_total j \<and>
    j_processed j = length (j_results j) + j_truncated j \<and> length (j_results j) \<le> jl_results L \<and>
    (j_status j = Completed \<longrightarrow> j_succeeded j = j_total j) \<and>
    (j_status j = Completed_with_errors \<longrightarrow> 0 < j_failed j \<and> j_processed j = j_total j)"
proof -
  from assms(2) have "dget (jb_jobs s) k = Some j"
    by (simp add: get_status_def split: if_splits option.splits)
  moreover have "table_pre L (jb_jobs s) (slots s)"
    using enrichment_jobs.inv_reachable [OF assms(1)] by (simp add: jobs_inv_def table_ok_def)
  ultimately have "job_ok L j" using table_pre_D(2) by blast
  then show ?thesis unfolding job_ok_def by auto
qed

section \<open>A concrete run\<close>

definition sample_limits :: job_limits where
  "sample_limits = make_limits 2 3 1 5"

definition queued_jobs :: jobs where
  "queued_jobs = snd (enqueue_job sample_limits sample_conf [PStr ''a.md'', PStr ''a.md'', PInt 1]
     ''manual'' ''j'' 0 new_jobs)"

lemma queued_jobs_eq: "queued_jobs = \<lparr>jb_jobs = [(''j'', new_job ''manual'' 0 1)], jb_queue = [(''j'', [''a.md''])],
    jb_accepting = True, jb_stop = False, jb_worker = JLoop\<rparr>"
proof -
  have "strip ''cli'' = ''cli''" by code_simp
  then have "is_ai_enrichment_enabled sample_conf"
    by (simp add: is_ai_enrichment_enabled_def sample_conf_def sample_ai_def note_config_def)
  moreover have "md_paths [PStr ''a.md'', PStr ''a.md'', PInt 1] = [''a.md'']" by code_simp
  ultimately show ?thesis
    by (simp add: queued_jobs_def enqueue_job_def new_jobs_def sample_limits_def make_limits_def
        ensure_job_worker_def prune_terminal_jobs_def new_job_def terminal_def)
qed

lemma queued_jobs_reachable: "reachable (\<lambda>s. s = new_jobs) (job_step sample_limits sample_conf) queued_jobs"
proof -
  have "reachable (\<lambda>s. s = new_jobs) (job_step sample_limits sample_conf) new_jobs"
    by (rule reach_init) simp
  then show ?thesis unfolding queued_jobs_def
    by (rule reach_step) (rule enqueue, simp_all add: new_jobs_def dhas_def)
qed

theorem enrichment_jobs_bounded_witness:
  "length (jb_jobs queued_jobs) \<le> 4 \<and> dhas (jb_jobs queued_jobs) ''j''"
  using enrichment_jobs_bounded [OF queued_jobs_reachable]
  by (simp add: queued_jobs_eq sample_limits_def make_limits_def dhas_def)

theorem enrichment_job_counters_witness:
  "get_status (Some ''j'') 20 queued_jobs = One (new_job ''manual'' 0 1) \<and>
   j_processed (new_job ''manual'' 0 1) \<le> j_total (new_job ''manual'' 0 1)"
proof -
  have "get_status (Some ''j'') 20 queued_jobs = One (new_job ''manual'' 0 1)"
    by (simp add: get_status_def queued_jobs_eq)
  with enrichment_job_counters [OF queued_jobs_reachable this] show ?thesis by blast
qed

end
