(* ===== verification/Watcher.thy ===== *)
theory Watcher
  imports Crud_Write
begin

text \<open>
  \<open>watching/event_handler.py\<close> and \<open>watching/watcher.py\<close>: the tokens that let the watcher ignore one
  internal revision of a file, the coalescing table of pending events, the polling worker and the
  lifecycle of the watcher.  The operations that read the file system and the clock are in the
  input/output monad; they act on the tables through pure functions, which are the steps of a
  transition system.
\<close>

section \<open>State\<close>

record ignore_token =
  tk_revision :: revision
  tk_expires :: rat

record pending_event =
  pe_deleted :: bool
  pe_time :: rat

type_synonym tokens = "(string, ignore_token) dict"
type_synonym pendings = "(string, pending_event) dict"

record watch =
  wt_tokens :: tokens
  wt_pending :: pendings

definition token_ttl :: rat where "token_ttl = 30"
definition max_ignore_tokens :: nat where "max_ignore_tokens = 2048"

section \<open>Ignore tokens\<close>

definition revision_or_none :: "path \<Rightarrow> revision option io" where
  "revision_or_none p = catch_io (bind_io (stat_io p) (\<lambda>r. return_io (Some r)))
     (\<lambda>e. if isinstance e C_OSError then Some (return_io None) else None)"

definition vault_file :: "conf \<Rightarrow> string \<Rightarrow> path option io" where
  "vault_file C relative_path =
     (if pp_abs (pure_path relative_path) then return_io None
      else bind_io (resolve_io (c_vault C)) (\<lambda>base.
        bind_io (resolve_io (base @ pp_parts (pure_path relative_path))) (\<lambda>candidate.
        return_io (case relative_to candidate base of Inl _ \<Rightarrow> None | Inr _ \<Rightarrow> Some candidate))))"

definition purge_tokens :: "rat \<Rightarrow> tokens \<Rightarrow> tokens" where
  "purge_tokens now ts = filter (\<lambda>i. now < tk_expires (snd i)) ts"

text \<open>\<open>while len(d) >= n: d.popitem(last=False)\<close>.\<close>

fun evict :: "nat \<Rightarrow> tokens \<Rightarrow> tokens" where
  "evict n [] = []"
| "evict n (t # ts) = (if n \<le> length (t # ts) then evict n ts else t # ts)"

definition add_token :: "string \<Rightarrow> revision \<Rightarrow> rat \<Rightarrow> tokens \<Rightarrow> tokens" where
  "add_token rel rvn now ts =
     dset rel \<lparr>tk_revision = rvn, tk_expires = now + token_ttl\<rparr>
       (evict max_ignore_tokens (ddel rel (purge_tokens now ts)))"

definition take_token :: "string \<Rightarrow> revision option \<Rightarrow> rat \<Rightarrow> tokens \<Rightarrow> bool \<times> tokens" where
  "take_token rel rvn now ts =
     (let ts = purge_tokens now ts in
      (case dget ts rel of None \<Rightarrow> False | Some tk \<Rightarrow> rvn = Some (tk_revision tk), ddel rel ts))"

definition ignore_next_change :: "conf \<Rightarrow> string \<Rightarrow> watch \<Rightarrow> (bool \<times> watch) io" where
  "ignore_next_change C rel s =
     bind_io (vault_file C rel) (\<lambda>p.
     bind_io (case p of None \<Rightarrow> return_io None | Some p \<Rightarrow> revision_or_none p) (\<lambda>rvn.
     case rvn of
       None \<Rightarrow> return_io (False, s)
     | Some r \<Rightarrow> bind_io now_io (\<lambda>now.
         return_io (True, s\<lparr>wt_tokens := add_token rel r now (wt_tokens s)\<rparr>))))"

definition check_and_clear_ignore ::
  "conf \<Rightarrow> string \<Rightarrow> path option \<Rightarrow> watch \<Rightarrow> (bool \<times> watch) io" where
  "check_and_clear_ignore C rel absolute s =
     bind_io (case absolute of Some p \<Rightarrow> return_io (Some p) | None \<Rightarrow> vault_file C rel) (\<lambda>p.
     bind_io (case p of None \<Rightarrow> return_io None | Some p \<Rightarrow> revision_or_none p) (\<lambda>rvn.
     bind_io now_io (\<lambda>now.
     return_io (case take_token rel rvn now (wt_tokens s) of (ok, ts) \<Rightarrow> (ok, s\<lparr>wt_tokens := ts\<rparr>)))))"

section \<open>The event handler\<close>

definition should_process :: "conf \<Rightarrow> path \<Rightarrow> bool" where
  "should_process C p \<longleftrightarrow> py_lower (path_suffix p) \<in> set (c_indexable C) \<and>
     \<not> (\<exists>d \<in> set (c_ignored C). d \<in> set (''/'' # p))"

definition put_pending :: "string \<Rightarrow> bool \<Rightarrow> rat \<Rightarrow> watch \<Rightarrow> watch" where
  "put_pending rel deleted now s =
     s\<lparr>wt_pending := dset rel \<lparr>pe_deleted = deleted, pe_time = now\<rparr> (wt_pending s)\<rparr>"

definition enqueue_event :: "conf \<Rightarrow> path \<Rightarrow> bool \<Rightarrow> watch \<Rightarrow> watch io" where
  "enqueue_event C abs_path deleted s =
     bind_io (resolve_io abs_path) (\<lambda>p.
     bind_io (resolve_io (c_vault C)) (\<lambda>base.
     case relative_to p base of
       Inl _ \<Rightarrow> return_io s
     | Inr parts \<Rightarrow>
         bind_io (check_and_clear_ignore C (rel_str parts) (Some p) s) (\<lambda>(ok, s).
         if ok then return_io s
         else bind_io now_io (\<lambda>now. return_io (put_pending (rel_str parts) deleted now s)))))"

datatype fs_event =
    Created path
  | Modified path
  | Deleted path
  | Moved path path

definition handle_path :: "conf \<Rightarrow> path \<Rightarrow> bool \<Rightarrow> watch \<Rightarrow> watch io" where
  "handle_path C p deleted s = (if should_process C p then enqueue_event C p deleted s else return_io s)"

text \<open>The handler methods; the events of directories are ignored.\<close>

fun on_event :: "conf \<Rightarrow> bool \<Rightarrow> fs_event \<Rightarrow> watch \<Rightarrow> watch io" where
  "on_event C is_directory (Created p) s = (if is_directory then return_io s else handle_path C p False s)"
| "on_event C is_directory (Modified p) s = (if is_directory then return_io s else handle_path C p False s)"
| "on_event C is_directory (Deleted p) s = (if is_directory then return_io s else handle_path C p True s)"
| "on_event C is_directory (Moved p q) s =
     (if is_directory then return_io s
      else bind_io (handle_path C p True s) (handle_path C q False))"

section \<open>The worker\<close>

definition ready_events :: "rat \<Rightarrow> rat \<Rightarrow> pendings \<Rightarrow> pendings" where
  "ready_events debounce now p = filter (\<lambda>i. debounce \<le> now - pe_time (snd i)) p"

definition remove_ready :: "rat \<Rightarrow> rat \<Rightarrow> pendings \<Rightarrow> pendings" where
  "remove_ready debounce now p = fold (\<lambda>i. ddel (fst i)) (ready_events debounce now p) p"

datatype watch_call =
    CallReindex string
  | CallCatalogDelete string
  | CallCatalogUpsert string
  | CallOnReindex
  | WarnCatalog
  | LogFailure

text \<open>What the calls for one event do: each may raise, as the three flags say.\<close>

definition process_event :: "bool \<Rightarrow> string \<Rightarrow> pending_event \<Rightarrow> bool \<Rightarrow> bool \<Rightarrow> bool \<Rightarrow> watch_call list" where
  "process_event has_callback rel info reindex_fails catalog_fails callback_fails =
     CallReindex rel #
     (if reindex_fails then [LogFailure]
      else (if pe_deleted info then CallCatalogDelete rel else CallCatalogUpsert rel) #
           (if catalog_fails then [WarnCatalog] else []) @
           (if has_callback then CallOnReindex # (if callback_fails then [LogFailure] else []) else []))"

definition poll_calls ::
  "bool \<Rightarrow> pendings \<Rightarrow> (string \<Rightarrow> bool \<times> bool \<times> bool) \<Rightarrow> watch_call list" where
  "poll_calls has_callback ready fails = concat (map (\<lambda>(rel, info). case fails rel of
     (a, b, c) \<Rightarrow> process_event has_callback rel info a b c) ready)"

definition poll :: "rat \<Rightarrow> rat \<Rightarrow> bool \<Rightarrow> (string \<Rightarrow> bool \<times> bool \<times> bool) \<Rightarrow> watch \<Rightarrow> watch_call list \<times> watch" where
  "poll debounce now has_callback fails s =
     (poll_calls has_callback (ready_events debounce now (wt_pending s)) fails,
      s\<lparr>wt_pending := remove_ready debounce now (wt_pending s)\<rparr>)"

section \<open>The lifecycle\<close>

text \<open>The references the object keeps; a thread is alive, dead or was never published.\<close>

datatype thread = NoThread | Alive | Dead

record life =
  lf_observer :: thread
  lf_worker :: thread
  lf_stop_event :: bool
  lf_watch :: watch

text \<open>
  \<open>start\<close>: refused while a previous generation is alive.  What the checks of the vault root find,
  whether both threads start and, when one does not, which of them is still alive after the
  joins, are parameters.
\<close>

definition start_watch :: "bool \<Rightarrow> bool \<Rightarrow> bool \<Rightarrow> bool \<Rightarrow> bool \<Rightarrow> life \<Rightarrow> bool result \<times> life" where
  "start_watch root_exists root_is_dir starts observer_outlives worker_outlives l =
     (if lf_observer l = Alive \<or> lf_worker l = Alive then (Inr False, l)
      else
        let l = l\<lparr>lf_observer := NoThread, lf_worker := NoThread,
                  lf_watch := (lf_watch l)\<lparr>wt_pending := []\<rparr>\<rparr> in
        if \<not> root_exists then (Inl FileNotFoundError, l)
        else if \<not> root_is_dir then (Inl OSError, l)
        else if starts
        then (Inr True, l\<lparr>lf_stop_event := False, lf_observer := Alive, lf_worker := Alive\<rparr>)
        else (Inl OtherError, l\<lparr>lf_stop_event := True,
                lf_observer := if observer_outlives then Alive else NoThread,
                lf_worker := if worker_outlives then Alive else NoThread\<rparr>))"

definition stop_watch :: "bool \<Rightarrow> bool \<Rightarrow> life \<Rightarrow> bool \<times> life" where
  "stop_watch observer_outlives worker_outlives l =
     (let o_alive = (lf_observer l = Alive \<and> observer_outlives);
          w_alive = (lf_worker l = Alive \<and> worker_outlives);
          l = l\<lparr>lf_stop_event := True, lf_observer := if o_alive then Alive else NoThread,
                lf_worker := if w_alive then Alive else NoThread\<rparr> in
      if \<not> o_alive \<and> \<not> w_alive then (True, l\<lparr>lf_watch := (lf_watch l)\<lparr>wt_pending := []\<rparr>\<rparr>)
      else (False, l))"

definition is_running :: "life \<Rightarrow> bool" where
  "is_running l \<longleftrightarrow> lf_observer l = Alive \<or> lf_worker l = Alive"

section \<open>The tables as a transition system\<close>

text \<open>
  The steps are the critical sections of the tables, with the revision and the times their threads
  observed; nothing is assumed of the order of these times.  The log says what happened.
\<close>

datatype watch_log =
    Registered string revision rat
  | Suppressed string revision rat
  | Checked string rat
  | Noticed string bool rat
  | Handled string

record watch_sys =
  ws_watch :: watch
  ws_log :: "watch_log list"

definition new_watch :: watch where
  "new_watch = \<lparr>wt_tokens = [], wt_pending = []\<rparr>"

inductive watch_step :: "rat \<Rightarrow> watch_sys \<Rightarrow> watch_sys \<Rightarrow> bool" for debounce where
  register: "watch_step debounce s (s\<lparr>ws_watch := (ws_watch s)\<lparr>wt_tokens := add_token rel r t (wt_tokens (ws_watch s))\<rparr>,
      ws_log := ws_log s @ [Registered rel r t]\<rparr>)"
| suppress: "take_token rel (Some r) t (wt_tokens (ws_watch s)) = (True, ts) \<Longrightarrow>
    watch_step debounce s (s\<lparr>ws_watch := (ws_watch s)\<lparr>wt_tokens := ts\<rparr>, ws_log := ws_log s @ [Suppressed rel r t]\<rparr>)"
| check: "take_token rel rv t (wt_tokens (ws_watch s)) = (False, ts) \<Longrightarrow>
    watch_step debounce s (s\<lparr>ws_watch := (ws_watch s)\<lparr>wt_tokens := ts\<rparr>, ws_log := ws_log s @ [Checked rel t]\<rparr>)"
| notice: "watch_step debounce s (s\<lparr>ws_watch := put_pending rel deleted t (ws_watch s),
      ws_log := ws_log s @ [Noticed rel deleted t]\<rparr>)"
| poll: "watch_step debounce s (s\<lparr>ws_watch := snd (poll debounce now cb fails (ws_watch s)),
      ws_log := ws_log s @ map Handled (dkeys (ready_events debounce now (wt_pending (ws_watch s))))\<rparr>)"

fun log_token :: "string \<Rightarrow> watch_log \<Rightarrow> (revision \<times> rat) option \<Rightarrow> (revision \<times> rat) option" where
  "log_token rel (Registered rel' r t) x = (if rel' = rel then Some (r, t) else x)"
| "log_token rel (Suppressed rel' r t) x = (if rel' = rel then None else x)"
| "log_token rel (Checked rel' t) x = (if rel' = rel then None else x)"
| "log_token rel _ x = x"

fun log_pending :: "string \<Rightarrow> watch_log \<Rightarrow> pending_event option \<Rightarrow> pending_event option" where
  "log_pending rel (Noticed rel' d t) x = (if rel' = rel then Some \<lparr>pe_deleted = d, pe_time = t\<rparr> else x)"
| "log_pending rel (Handled rel') x = (if rel' = rel then None else x)"
| "log_pending rel _ x = x"

definition last_registration :: "string \<Rightarrow> watch_log list \<Rightarrow> (revision \<times> rat) option" where
  "last_registration rel l = fold (log_token rel) l None"

definition last_notice :: "string \<Rightarrow> watch_log list \<Rightarrow> pending_event option" where
  "last_notice rel l = fold (log_pending rel) l None"

lemma last_simps [simp]:
  "last_registration rel [] = None"
  "last_registration rel (l @ [e]) = log_token rel e (last_registration rel l)"
  "last_notice rel [] = None" "last_notice rel (l @ [e]) = log_pending rel e (last_notice rel l)"
  by (simp_all add: last_registration_def last_notice_def)

lemma last_handled [simp]:
  "last_registration rel (l @ map Handled ks) = last_registration rel l"
  "last_notice rel (l @ map Handled ks) = (if rel \<in> set ks then None else last_notice rel l)"
proof -
  have 1: "fold (log_token rel) (map Handled ks) x = x" for x by (induction ks) auto
  have 2: "fold (log_pending rel) (map Handled ks) x = (if rel \<in> set ks then None else x)" for x
    by (induction ks arbitrary: x) auto
  show "last_registration rel (l @ map Handled ks) = last_registration rel l"
    "last_notice rel (l @ map Handled ks) = (if rel \<in> set ks then None else last_notice rel l)"
    using 1 2 by (simp_all add: last_registration_def last_notice_def)
qed

definition tokens_ok :: "watch_log list \<Rightarrow> tokens \<Rightarrow> bool" where
  "tokens_ok l ts \<longleftrightarrow> distinct (dkeys ts) \<and> length ts \<le> max_ignore_tokens \<and>
     (\<forall>rel tk. dget ts rel = Some tk \<longrightarrow>
        last_registration rel l = Some (tk_revision tk, tk_expires tk - token_ttl))"

text \<open>Every suppressed event matches the registration in force when it was checked.\<close>

definition suppress_at :: "watch_log list \<Rightarrow> watch_log \<Rightarrow> bool" where
  "suppress_at l e = (case e of
      Suppressed rel r t \<Rightarrow> \<exists>t0. last_registration rel l = Some (r, t0) \<and> t < t0 + token_ttl
    | _ \<Rightarrow> True)"

definition suppress_ok :: "watch_log list \<Rightarrow> bool" where
  "suppress_ok l \<longleftrightarrow> (\<forall>i < length l. suppress_at (take i l) (l ! i))"

lemma suppress_ok_Nil [simp]: "suppress_ok []" by (simp add: suppress_ok_def)

lemma suppress_ok_snoc [simp]: "suppress_ok (l @ [e]) \<longleftrightarrow> suppress_ok l \<and> suppress_at l e"
proof -
  have "suppress_ok (l @ [e]) \<longleftrightarrow>
      (\<forall>i < length l. suppress_at (take i (l @ [e])) ((l @ [e]) ! i)) \<and> suppress_at l e"
    unfolding suppress_ok_def by (simp add: All_less_Suc conj_commute)
  also have "(\<forall>i < length l. suppress_at (take i (l @ [e])) ((l @ [e]) ! i)) = suppress_ok l"
    unfolding suppress_ok_def by (intro all_cong) (simp add: nth_append)
  finally show ?thesis .
qed

lemma suppress_ok_handled [simp]: "suppress_ok (l @ map Handled ks) = suppress_ok l"
proof (induction ks rule: rev_induct)
  case (snoc k ks)
  then show ?case using suppress_ok_snoc [of "l @ map Handled ks" "Handled k"] by (simp add: suppress_at_def)
qed simp

definition watch_inv :: "watch_sys \<Rightarrow> bool" where
  "watch_inv s \<longleftrightarrow> tokens_ok (ws_log s) (wt_tokens (ws_watch s)) \<and>
     distinct (dkeys (wt_pending (ws_watch s))) \<and>
     (\<forall>rel. dget (wt_pending (ws_watch s)) rel = last_notice rel (ws_log s)) \<and> suppress_ok (ws_log s)"

lemma evict_suffix: "\<exists>xs. ts = xs @ evict n ts"
proof (induction n ts rule: evict.induct)
  case (2 n t ts)
  then show ?case by (metis append_Cons append_Nil evict.simps(2))
qed simp

lemma length_evict: "0 < n \<Longrightarrow> length (evict n ts) < n"
  by (induction n ts rule: evict.induct) auto

lemma dget_suffix:
  assumes "distinct (dkeys (xs @ ys))" "dget ys k = Some v" shows "dget (xs @ ys) k = Some v"
proof -
  have "k \<in> fst ` set ys" using dhas_iff [of ys k] assms(2) by (simp add: dhas_def)
  with assms(1) have "k \<notin> fst ` set xs" by auto
  with assms(2) show ?thesis by (simp add: map_add_def map_of_eq_None_iff [symmetric])
qed

lemma add_token_ok:
  assumes "tokens_ok l ts" shows "tokens_ok (l @ [Registered rel r t]) (add_token rel r t ts)"
proof -
  let ?p = "ddel rel (purge_tokens t ts)"
  let ?e = "evict max_ignore_tokens ?p"
  from assms have d: "distinct (dkeys ts)" by (simp add: tokens_ok_def)
  then have dp: "distinct (dkeys ?p)" by (simp add: purge_tokens_def distinct_delete distinct_keys_filter)
  obtain xs where xs: "?p = xs @ ?e" using evict_suffix by blast
  then have de: "distinct (dkeys ?e)" using dp by (metis distinct_append map_append)
  have none: "dget ?e rel = None"
  proof (rule ccontr)
    assume "dget ?e rel \<noteq> None"
    then have "dget ?p rel \<noteq> None" using dget_suffix [of xs ?e rel] dp xs by force
    then show False by (simp add: dget_ddel)
  qed
  have "length ?e < max_ignore_tokens" by (rule length_evict) (simp add: max_ignore_tokens_def)
  then have "length (add_token rel r t ts) \<le> max_ignore_tokens"
    using none by (simp add: add_token_def length_dset dhas_def)
  moreover have "last_registration k (l @ [Registered rel r t]) = Some (tk_revision tk, tk_expires tk - token_ttl)"
    if k: "dget (add_token rel r t ts) k = Some tk" for k tk
  proof (cases "k = rel")
    case True
    with k show ?thesis by (auto simp: add_token_def dget_dset)
  next
    case False
    with k have "dget ?e k = Some tk" by (simp add: add_token_def dget_dset)
    then have "dget ?p k = Some tk" using dget_suffix [of xs ?e k] dp xs by simp
    with False have "dget (purge_tokens t ts) k = Some tk" by (simp add: dget_ddel)
    then have "dget ts k = Some tk"
      unfolding purge_tokens_def dget_filter [OF d] by (auto split: option.splits if_splits)
    with assms False show ?thesis by (simp add: tokens_ok_def)
  qed
  ultimately show ?thesis
    using de unfolding tokens_ok_def by (simp add: add_token_def distinct_update)
qed

lemma take_token_ok:
  assumes "tokens_ok l ts" "take_token rel rv t ts = (ok, ts')"
    and "\<And>k x. log_token k ev x = (if k = rel then None else x)"
  shows "tokens_ok (l @ [ev]) ts'"
proof -
  from assms(1) have d: "distinct (dkeys ts)" and len: "length ts \<le> max_ignore_tokens"
    by (simp_all add: tokens_ok_def)
  have ts': "ts' = ddel rel (purge_tokens t ts)" using assms(2) by (simp add: take_token_def Let_def)
  have "length ts' \<le> length ts"
    unfolding ts' purge_tokens_def by (meson length_delete_le length_filter_le le_trans)
  moreover have "last_registration k (l @ [ev]) = Some (tk_revision tk, tk_expires tk - token_ttl)"
    if "dget ts' k = Some tk" for k tk
  proof -
    from that have "k \<noteq> rel" "dget ts k = Some tk"
      unfolding ts' purge_tokens_def dget_ddel dget_filter [OF d] by (auto split: option.splits if_splits)
    with assms(1,3) show ?thesis by (simp add: tokens_ok_def)
  qed
  ultimately show ?thesis using len d unfolding tokens_ok_def ts' purge_tokens_def
    by (simp add: distinct_delete distinct_keys_filter)
qed

lemma take_token_match:
  assumes "tokens_ok l ts" "take_token rel (Some r) t ts = (True, ts')"
  shows "\<exists>t0. last_registration rel l = Some (r, t0) \<and> t < t0 + token_ttl"
proof -
  from assms(1) have d: "distinct (dkeys ts)" by (simp add: tokens_ok_def)
  from assms(2) obtain tk where "dget (purge_tokens t ts) rel = Some tk" "r = tk_revision tk"
    by (auto simp: take_token_def Let_def split: option.splits)
  then have "dget ts rel = Some tk" "t < tk_expires tk" "r = tk_revision tk"
    unfolding purge_tokens_def dget_filter [OF d] by (auto split: option.splits if_splits)
  with assms(1) show ?thesis by (simp add: tokens_ok_def)
qed

lemma remove_ready_eq:
  assumes "distinct (dkeys p)"
  shows "dget (remove_ready d now p) k = (if k \<in> set (dkeys (ready_events d now p)) then None else dget p k)"
    and "distinct (dkeys (remove_ready d now p))"
  using assms by (simp_all add: remove_ready_def fold_ddel dget_filter_keys distinct_keys_filter)

lemma watch_inv_step:
  assumes "watch_inv s" "watch_step debounce s t" shows "watch_inv t"
  using assms(2)
proof cases
  case (register rel r now)
  with assms(1) add_token_ok show ?thesis by (simp add: watch_inv_def suppress_at_def)
next
  case (suppress rel r now ts)
  with assms(1) show ?thesis
    using take_token_ok [OF _ suppress(2), of _ "Suppressed rel r now"]
      take_token_match [OF _ suppress(2)]
    by (simp add: watch_inv_def suppress_at_def)
next
  case (check rel rv now ts)
  with assms(1) show ?thesis
    using take_token_ok [OF _ check(2), of _ "Checked rel now"] by (simp add: watch_inv_def suppress_at_def)
next
  case (notice rel d now)
  with assms(1) show ?thesis
    by (simp add: watch_inv_def put_pending_def dget_dset distinct_update tokens_ok_def suppress_at_def
        del: map_of_eq_Some_iff)
next
  case (poll now cb fails)
  with assms(1) show ?thesis
    by (simp add: watch_inv_def poll_def remove_ready_eq tokens_ok_def del: map_map map_of_eq_Some_iff)
qed

interpretation watcher: invariant_system "\<lambda>s. s = \<lparr>ws_watch = new_watch, ws_log = []\<rparr>" "watch_step debounce" watch_inv
proof
  show "watch_inv s" if "s = \<lparr>ws_watch = new_watch, ws_log = []\<rparr>" for s
    using that by (simp add: watch_inv_def new_watch_def tokens_ok_def)
qed (rule watch_inv_step)

section \<open>The operations are steps\<close>

lemma ignore_steps:
  assumes "ignore_next_change C rel s E w = (Inr (ok, s'), w')"
  shows "\<exists>l'. (watch_step d)\<^sup>*\<^sup>* \<lparr>ws_watch = s, ws_log = l\<rparr> \<lparr>ws_watch = s', ws_log = l'\<rparr>"
proof -
  from assms consider "s' = s" | r now where "s' = s\<lparr>wt_tokens := add_token rel r now (wt_tokens s)\<rparr>"
    by (auto simp: ignore_next_change_def bind_run_Inr basic_run split: option.splits)
  then show ?thesis
  proof cases
    case 2
    with register [of d "\<lparr>ws_watch = s, ws_log = l\<rparr>" rel r now] show ?thesis by auto
  qed auto
qed

lemma check_step:
  assumes "check_and_clear_ignore C rel p s E w = (Inr (ok, s'), w')"
  shows "\<exists>l'. watch_step d \<lparr>ws_watch = s, ws_log = l\<rparr> \<lparr>ws_watch = s', ws_log = l'\<rparr>"
proof -
  from assms obtain rv now w1 where
    "return_io (case take_token rel rv now (wt_tokens s) of (ok, ts) \<Rightarrow> (ok, s\<lparr>wt_tokens := ts\<rparr>)) E w1
      = (Inr (ok, s'), w')"
    unfolding check_and_clear_ignore_def bind_run_Inr by blast
  then obtain ts where t: "take_token rel rv now (wt_tokens s) = (ok, ts)" "s' = s\<lparr>wt_tokens := ts\<rparr>"
    by (cases "take_token rel rv now (wt_tokens s)") (auto simp: basic_run)
  show ?thesis
  proof (cases ok)
    case False
    with t check [of rel rv now "\<lparr>ws_watch = s, ws_log = l\<rparr>" ts d] show ?thesis by auto
  next
    case True
    with t(1) obtain r where "rv = Some r" by (auto simp: take_token_def Let_def split: option.splits)
    with t True suppress [of rel r now "\<lparr>ws_watch = s, ws_log = l\<rparr>" ts d] show ?thesis by auto
  qed
qed

lemma enqueue_event_steps:
  assumes "enqueue_event C p deleted s E w = (Inr s', w')"
  shows "\<exists>l'. (watch_step d)\<^sup>*\<^sup>* \<lparr>ws_watch = s, ws_log = l\<rparr> \<lparr>ws_watch = s', ws_log = l'\<rparr>"
proof -
  let ?rest = "\<lambda>rel ok s. if ok then return_io s
      else bind_io now_io (\<lambda>now. return_io (put_pending rel deleted now s))"
  from assms obtain q base w1 where run: "(case relative_to q base of Inl _ \<Rightarrow> return_io s
     | Inr parts \<Rightarrow> bind_io (check_and_clear_ignore C (rel_str parts) (Some q) s)
         (\<lambda>(ok, s). ?rest (rel_str parts) ok s)) E w1 = (Inr s', w')"
    unfolding enqueue_event_def bind_run_Inr by blast
  consider "s' = s"
    | rel q w1 w2 ok s1 where "check_and_clear_ignore C rel (Some q) s E w1 = (Inr (ok, s1), w2)"
        "s' = s1 \<or> (\<exists>now. s' = put_pending rel deleted now s1)"
  proof (cases "relative_to q base")
    case (Inl e)
    with run that(1) show ?thesis by (simp add: basic_run)
  next
    case (Inr parts)
    with run obtain x w2 where 1: "check_and_clear_ignore C (rel_str parts) (Some q) s E w1 = (Inr x, w2)"
      and 2: "(case x of (ok, s) \<Rightarrow> ?rest (rel_str parts) ok s) E w2 = (Inr s', w')"
      by (simp only: sum.case bind_run_Inr) blast
    obtain ok s1 where x: "x = (ok, s1)" by (cases x)
    from 2 x have "s' = s1 \<or> (\<exists>now. s' = put_pending (rel_str parts) deleted now s1)"
      by (cases ok) (auto simp: bind_run_Inr basic_run)
    with that(2) 1 x show ?thesis by blast
  qed
  then show ?thesis
  proof cases
    case (2 rel q w1 w2 ok s1)
    from check_step [OF 2(1), of d l] obtain l1
      where 1: "watch_step d \<lparr>ws_watch = s, ws_log = l\<rparr> \<lparr>ws_watch = s1, ws_log = l1\<rparr>" by blast
    from 2(2) show ?thesis
    proof
      assume "\<exists>now. s' = put_pending rel deleted now s1"
      then obtain now where "s' = put_pending rel deleted now s1" ..
      with notice [of d "\<lparr>ws_watch = s1, ws_log = l1\<rparr>" rel deleted now]
      have "watch_step d \<lparr>ws_watch = s1, ws_log = l1\<rparr>
        \<lparr>ws_watch = s', ws_log = l1 @ [Noticed rel deleted now]\<rparr>" by simp
      with 1 show ?thesis by (meson rtranclp.rtrancl_into_rtrancl r_into_rtranclp)
    qed (use 1 in auto)
  qed auto
qed

lemma handle_path_steps:
  assumes "handle_path C p deleted s E w = (Inr s', w')"
  shows "\<exists>l'. (watch_step d)\<^sup>*\<^sup>* \<lparr>ws_watch = s, ws_log = l\<rparr> \<lparr>ws_watch = s', ws_log = l'\<rparr>"
  using assms enqueue_event_steps by (fastforce simp: handle_path_def basic_run split: if_splits)


section \<open>Properties\<close>

text \<open>C13. No event is lost or handled twice: at every moment the pending table is exactly the last
  notice of each path not handled since, so a poll hands on exactly the pending paths old enough,
  each once, and leaves the others.\<close>

theorem watcher_no_event_lost:
  assumes "reachable (\<lambda>s. s = \<lparr>ws_watch = new_watch, ws_log = []\<rparr>) (watch_step debounce) s"
  shows "dget (wt_pending (ws_watch s)) rel = last_notice rel (ws_log s) \<and>
    dget (wt_pending (snd (poll debounce now cb fails (ws_watch s)))) rel =
      (case last_notice rel (ws_log s) of None \<Rightarrow> None
       | Some e \<Rightarrow> if debounce \<le> now - pe_time e then None else Some e) \<and>
    length (filter (\<lambda>c. c = CallReindex rel) (fst (poll debounce now cb fails (ws_watch s)))) =
      (case last_notice rel (ws_log s) of None \<Rightarrow> 0
       | Some e \<Rightarrow> if debounce \<le> now - pe_time e then 1 else 0)"
proof -
  let ?p = "wt_pending (ws_watch s)" and ?n = "last_notice rel (ws_log s)"
  let ?ready = "ready_events debounce now ?p"
  have inv: "watch_inv s" by (rule watcher.inv_reachable [OF assms])
  then have d: "distinct (dkeys ?p)" and n: "dget ?p rel = ?n" by (simp_all add: watch_inv_def)
  have ready: "dget ?ready rel = (case ?n of None \<Rightarrow> None | Some e \<Rightarrow> if debounce \<le> now - pe_time e then Some e else None)"
    unfolding ready_events_def dget_filter [OF d] n by (auto split: option.splits)
  have keys: "rel \<in> set (dkeys ?ready) \<longleftrightarrow> dget ?ready rel \<noteq> None"
    using dhas_iff [of ?ready rel] by (simp add: dhas_def)
  have one: "length (filter (\<lambda>c. c = CallReindex rel) (poll_calls cb r fails)) = (if rel \<in> set (dkeys r) then 1 else 0)"
    if "distinct (dkeys r)" for r
    using that
  proof (induction r)
    case (Cons x r)
    obtain k e where x: "x = (k, e)" by (cases x)
    have "filter (\<lambda>c. c = CallReindex rel) (process_event cb k e a b c) = (if k = rel then [CallReindex rel] else [])" for a b c
      by (simp add: process_event_def)
    then show ?case using Cons x by (auto simp: poll_calls_def split: prod.split)
  qed (simp add: poll_calls_def)
  have dr: "distinct (dkeys ?ready)" unfolding ready_events_def by (rule distinct_keys_filter [OF d])
  have "dget (remove_ready debounce now ?p) rel =
      (case ?n of None \<Rightarrow> None | Some e \<Rightarrow> if debounce \<le> now - pe_time e then None else Some e)"
    unfolding remove_ready_eq(1) [OF d] keys ready n by (auto split: option.splits)
  moreover have "length (filter (\<lambda>c. c = CallReindex rel) (fst (poll debounce now cb fails (ws_watch s)))) =
      (case ?n of None \<Rightarrow> 0 | Some e \<Rightarrow> if debounce \<le> now - pe_time e then 1 else 0)"
    using one [OF dr] unfolding poll_def fst_conv keys ready by (auto split: option.splits)
  ultimately show ?thesis using n by (simp add: poll_def)
qed

text \<open>C14. Suppression is sound: an event is ignored only if the path was registered with that very
  revision less than the time to live ago, and the registration is used at most once.\<close>

theorem watcher_suppression_sound:
  assumes "reachable (\<lambda>s. s = \<lparr>ws_watch = new_watch, ws_log = []\<rparr>) (watch_step debounce) s"
    and "ws_log s = before @ Suppressed rel r t # after"
  shows "(\<exists>t0. last_registration rel before = Some (r, t0) \<and> t < t0 + token_ttl) \<and>
    last_registration rel (before @ [Suppressed rel r t]) = None \<and> length (wt_tokens (ws_watch s)) \<le> max_ignore_tokens"
proof -
  have inv: "watch_inv s" by (rule watcher.inv_reachable [OF assms(1)])
  then have "suppress_ok (ws_log s)" by (simp add: watch_inv_def)
  then have "suppress_at (take (length before) (ws_log s)) (ws_log s ! length before)"
    unfolding suppress_ok_def by (rule allE [where x = "length before"]) (simp add: assms(2))
  with assms(2) inv show ?thesis by (simp add: suppress_at_def watch_inv_def tokens_ok_def)
qed

text \<open>At most one generation of threads runs: \<open>start\<close> succeeds only when no thread of an earlier
  one is alive, with an empty pending table and the stop event cleared, and \<open>stop\<close> answers true
  exactly when nothing is running any more.\<close>

theorem watcher_single_generation:
  shows "(\<forall>l'. start_watch ex dir starts o1 w1 l = (Inr True, l') \<longrightarrow>
      \<not> is_running l \<and> is_running l' \<and> \<not> lf_stop_event l' \<and> wt_pending (lf_watch l') = []) \<and>
    (\<forall>r l'. start_watch ex dir starts o1 w1 l = (r, l') \<and> is_running l \<longrightarrow> r = Inr False \<and> l' = l) \<and>
    (\<forall>b l'. stop_watch o2 w2 l = (b, l') \<longrightarrow> b = (\<not> is_running l') \<and> lf_stop_event l' \<and>
      (b \<longrightarrow> wt_pending (lf_watch l') = []))"
  by (auto simp: start_watch_def stop_watch_def is_running_def Let_def split: if_splits)

definition idle_life :: life where
  "idle_life = \<lparr>lf_observer = NoThread, lf_worker = NoThread, lf_stop_event = True, lf_watch = new_watch\<rparr>"

theorem watcher_single_generation_witness:
  "is_running (snd (start_watch True True True False False idle_life)) \<and> \<not> is_running idle_life \<and>
   fst (stop_watch True False idle_life)"
  using watcher_single_generation [of True True True False False idle_life True False]
  by (auto simp: start_watch_def stop_watch_def idle_life_def is_running_def)

section \<open>A concrete run\<close>

definition sample_revision :: revision where
  "sample_revision = \<lparr>rv_inode = 7, rv_mtime = 1, rv_size = 3\<rparr>"

definition sample_watch :: watch_sys where
  "sample_watch = \<lparr>ws_watch = \<lparr>wt_tokens = [], wt_pending = [(''b.md'', \<lparr>pe_deleted = True, pe_time = 3\<rparr>)]\<rparr>,
     ws_log = [Registered ''a.md'' sample_revision 1, Suppressed ''a.md'' sample_revision 2, Noticed ''b.md'' True 3]\<rparr>"

lemma sample_watch_reachable:
  "reachable (\<lambda>s. s = \<lparr>ws_watch = new_watch, ws_log = []\<rparr>) (watch_step 5) sample_watch"
proof -
  let ?r = "reachable (\<lambda>s. s = \<lparr>ws_watch = new_watch, ws_log = []\<rparr>) (watch_step 5)"
  let ?t = "[(''a.md'', \<lparr>tk_revision = sample_revision, tk_expires = 31\<rparr>)] :: tokens"
  let ?s = "\<lparr>ws_watch = \<lparr>wt_tokens = ?t, wt_pending = []\<rparr>, ws_log = [Registered ''a.md'' sample_revision 1]\<rparr>"
  have 0: "?r \<lparr>ws_watch = new_watch, ws_log = []\<rparr>" by (rule reach_init) simp
  have "add_token ''a.md'' sample_revision 1 [] = ?t"
    by (simp add: add_token_def purge_tokens_def token_ttl_def)
  then have 1: "?r ?s"
    using reach_step [OF 0, OF register [where rel = "''a.md''" and r = sample_revision and t = 1]]
    by (simp add: new_watch_def)
  have "take_token ''a.md'' (Some sample_revision) 2 (wt_tokens (ws_watch ?s)) = (True, [])"
    by (simp add: take_token_def purge_tokens_def)
  then have "watch_step 5 ?s (?s\<lparr>ws_watch := (ws_watch ?s)\<lparr>wt_tokens := []\<rparr>,
      ws_log := ws_log ?s @ [Suppressed ''a.md'' sample_revision 2]\<rparr>)"
    by (rule suppress)
  with 1 have "?r (?s\<lparr>ws_watch := (ws_watch ?s)\<lparr>wt_tokens := []\<rparr>,
      ws_log := ws_log ?s @ [Suppressed ''a.md'' sample_revision 2]\<rparr>)"
    by (rule reach_step)
  then have 2: "?r \<lparr>ws_watch = \<lparr>wt_tokens = [], wt_pending = []\<rparr>,
      ws_log = [Registered ''a.md'' sample_revision 1, Suppressed ''a.md'' sample_revision 2]\<rparr>"
    by (simp del: One_nat_def)
  let ?u = "\<lparr>ws_watch = \<lparr>wt_tokens = [], wt_pending = []\<rparr>,
      ws_log = [Registered ''a.md'' sample_revision 1, Suppressed ''a.md'' sample_revision 2]\<rparr>"
  have "watch_step 5 ?u (?u\<lparr>ws_watch := put_pending ''b.md'' True 3 (ws_watch ?u),
      ws_log := ws_log ?u @ [Noticed ''b.md'' True 3]\<rparr>)"
    by (rule notice)
  with 2 have "?r (?u\<lparr>ws_watch := put_pending ''b.md'' True 3 (ws_watch ?u),
      ws_log := ws_log ?u @ [Noticed ''b.md'' True 3]\<rparr>)"
    by (rule reach_step)
  then show ?thesis by (simp add: sample_watch_def put_pending_def del: One_nat_def)
qed

theorem watcher_no_event_lost_witness:
  "dget (wt_pending (ws_watch sample_watch)) ''b.md'' = last_notice ''b.md'' (ws_log sample_watch) \<and>
   dget (wt_pending (snd (poll 5 9 True (\<lambda>_. (False, False, False)) (ws_watch sample_watch)))) ''b.md'' = None"
  using watcher_no_event_lost [OF sample_watch_reachable, where rel = "''b.md''" and now = 9 and cb = True
      and fails = "\<lambda>_. (False, False, False)"]
  by (simp add: sample_watch_def last_notice_def)

theorem watcher_suppression_sound_witness:
  "\<exists>t0. last_registration ''a.md'' [Registered ''a.md'' sample_revision 1] = Some (sample_revision, t0) \<and>
     2 < t0 + token_ttl"
  using watcher_suppression_sound [OF sample_watch_reachable,
      where before = "[Registered ''a.md'' sample_revision 1]" and after = "[Noticed ''b.md'' True 3]"]
  by (simp add: sample_watch_def)


end
