(* ===== verification/Crud_Enrich.thy ===== *)
theory Crud_Enrich
  imports Crud_Write Watcher
begin

text \<open>
  The rest of \<open>crud/write.py\<close>: the enrichment of a note's required front matter and the assurance
  of its id.  Enrichment reads the note under the lock, calls the provider without it, and
  persists under the lock again after a new reading; \<open>ensure_note_id\<close> holds the lock throughout.
  Both tell the watcher of the change they made, the first after the release.
\<close>

section \<open>Steps\<close>

definition ends_md :: "string \<Rightarrow> bool" where
  "ends_md rel = ends_with (py_lower rel) ''.md''"

text \<open>\<open>ignore_next_change\<close> on the table of tokens the process keeps: the log has the registration.\<close>

definition register_change :: "conf \<Rightarrow> string \<Rightarrow> bool io" where
  "register_change C rel =
     bind_io (vault_file C rel) (\<lambda>p.
     bind_io (case p of None \<Rightarrow> return_io None | Some p \<Rightarrow> revision_or_none p) (\<lambda>rvn.
     case rvn of
       None \<Rightarrow> return_io False
     | Some r \<Rightarrow> bind_io now_io (\<lambda>_. bind_io (log_io (EvIgnore rel)) (\<lambda>_. return_io True))))"

lemma register_change_ignore:
  "fst (register_change C rel E w) = map_sum id fst (fst (ignore_next_change C rel s E w)) \<and>
   w_fs (snd (register_change C rel E w)) = w_fs (snd (ignore_next_change C rel s E w))"
  by (auto simp: register_change_def ignore_next_change_def bind_io_def return_io_def log_io_def
      split: prod.split sum.split option.split)

definition read_locked_text :: "conf \<Rightarrow> path \<Rightarrow> string \<Rightarrow> (op_result + string) io" where
  "read_locked_text C file_path rel =
     advisory_path_lock C (c_lock_timeout C) file_path None
       (with_text C file_path rel (not_found rel) (\<lambda>_ content. return_io (Inr content)))"

section \<open>Persisting generated fields\<close>

definition new_values :: "frontmatter \<Rightarrow> string list \<Rightarrow> frontmatter" where
  "new_values generated still_missing =
     filter (\<lambda>i. fst i \<in> PStr ` set still_missing) generated"

definition required_message :: "string \<Rightarrow> bool" where
  "required_message msg \<longleftrightarrow> contains (py_lower msg) ''required'' \<or>
     contains (py_lower msg) ''required_missing''"

definition partial_warning :: issue where
  "partial_warning = \<lparr>is_field = ''_schema'',
     is_message = ''Strict validation still found required fields missing; the partial enrichment was saved'',
     is_code = ''required_missing_partial'', is_value = PNone\<rparr>"

definition persist_validate ::
  "conf \<Rightarrow> string \<Rightarrow> bool \<Rightarrow> frontmatter \<Rightarrow> frontmatter
    \<Rightarrow> (op_result + frontmatter \<times> issue list \<times> issue list) io" where
  "persist_validate C rel validate_schema vals new_fm =
     (if \<not> validate_schema then return_io (Inr (new_fm, [], []))
      else catch_io
        (bind_io (validate_frontmatter_schema C new_fm) (\<lambda>r.
           return_io (Inr (vr_data r, vr_warnings r, vr_suggestions r))))
        (\<lambda>e. if isinstance e C_ValueError
             then Some (return_io
               (if \<not> (required_message (exn_text e) \<and> vals \<noteq> [])
                then Inl (error_result rel (exn_text e)
                  (if required_message (exn_text e) then Some ''required_missing'' else None))
                else Inr (new_fm, [partial_warning], [])))
             else None))"

definition enriched_result :: "string \<Rightarrow> string \<Rightarrow> bool \<Rightarrow> nat \<Rightarrow> op_result" where
  "enriched_result rel msg enriched n =
     (success_result rel msg)\<lparr>or_enriched := Some enriched, or_filled := Some n\<rparr>"

definition persist_locked ::
  "string \<Rightarrow> (string, field_schema) dict \<Rightarrow> frontmatter \<Rightarrow> bool \<Rightarrow> conf \<Rightarrow> path
    \<Rightarrow> (op_result + nat \<times> issue list \<times> issue list) io" where
  "persist_locked rel required generated validate_schema C file_path =
     with_text C file_path rel (not_found rel) (\<lambda>rvn content.
       let (disk_fm, disk_body) = parse_frontmatter (c_yaml_load C) content;
           still_missing = missing_fields required disk_fm;
           vals = new_values generated still_missing in
       if still_missing = []
       then return_io (Inl (enriched_result rel
         ''Fields were filled manually while enrichment was running'' False 0))
       else if vals = []
       then return_io (Inl (error_result rel
         ''The enrichment provider did not return every required field'' (Some ''required_missing'')))
       else
         bind_io (persist_validate C rel validate_schema vals (dmerge disk_fm vals)) (\<lambda>v.
         case v of
           Inl err \<Rightarrow> return_io (Inl err)
         | Inr (new_fm, ws, ss) \<Rightarrow>
             bind_io (lift_io (validate_frontmatter_size C new_fm)) (\<lambda>_.
             bind_io (lift_io (validate_content_size C (serialize_frontmatter C new_fm @ disk_body))) (\<lambda>_.
             write_back C file_path rel (serialize_frontmatter C new_fm @ disk_body) rvn
               (length vals, ws, ss)))))"

definition persist_finish :: "string \<Rightarrow> nat \<times> issue list \<times> issue list \<Rightarrow> op_result io" where
  "persist_finish rel x = return_io (with_issues
     (enriched_result rel (''Frontmatter enriched: '' @ rel) True (fst x)) (fst (snd x)) (snd (snd x)))"

text \<open>The registration follows the release; only a result that reports filled fields reaches it.\<close>

definition announce :: "conf \<Rightarrow> string \<Rightarrow> op_result \<Rightarrow> op_result io" where
  "announce C rel res = (if or_enriched res = Some True
     then bind_io (register_change C rel) (\<lambda>_. return_io res) else return_io res)"

definition persist_generated ::
  "conf \<Rightarrow> string \<Rightarrow> path \<Rightarrow> (string, field_schema) dict \<Rightarrow> frontmatter \<Rightarrow> bool \<Rightarrow> op_result io" where
  "persist_generated C rel file_path required generated validate_schema =
     bind_io (run_locked C (c_lock_timeout C) file_path
         (persist_locked rel required generated validate_schema C file_path) (persist_finish rel))
       (announce C rel)"

definition generate_or_error ::
  "conf \<Rightarrow> string \<Rightarrow> string \<Rightarrow> frontmatter \<Rightarrow> (string, field_schema) dict \<Rightarrow> (op_result + frontmatter) io" where
  "generate_or_error C rel body fm required =
     catch_io
       (bind_io (generate_required_fields_with_ai (c_ai C) rel body fm required)
          (\<lambda>g. return_io (Inr g)))
       (\<lambda>e. case e of
          EnrichmentError s \<Rightarrow> Some (return_io (Inl (error_result rel s None)))
        | EnrichmentConfigError s \<Rightarrow> Some (return_io (Inl (error_result rel s None)))
        | _ \<Rightarrow> None)"

text \<open>What precedes the persistence: an early result, or the path, the required fields and the vals.\<close>

definition enrich_generate ::
  "conf \<Rightarrow> string \<Rightarrow> path \<Rightarrow> (op_result + path \<times> (string, field_schema) dict \<times> frontmatter) io" where
  "enrich_generate C rel file_path =
     bind_io (read_locked_text C file_path rel) (\<lambda>r.
     case r of
       Inl err \<Rightarrow> return_io (Inl err)
     | Inr content \<Rightarrow>
         let (fm, body) = parse_frontmatter (c_yaml_load C) content;
             required = get_required_schema_fields (sc_schema (c_schema C)) in
         if \<not> sc_enabled (c_schema C)
         then return_io (Inl (enriched_result rel ''Frontmatter schema is disabled'' False 0))
         else if required = []
         then return_io (Inl (enriched_result rel ''Schema has no required fields'' False 0))
         else if missing_fields required fm = []
         then return_io (Inl (enriched_result rel
           ''Frontmatter already contains every required field'' False 0))
         else bind_io (generate_or_error C rel body fm required) (\<lambda>g.
           case g of
             Inl err \<Rightarrow> return_io (Inl err)
           | Inr generated \<Rightarrow> return_io (Inr (file_path, required, generated))))"

definition enrich_prepare ::
  "conf \<Rightarrow> string \<Rightarrow> (op_result + path \<times> (string, field_schema) dict \<times> frontmatter) io" where
  "enrich_prepare C rel =
     (if \<not> ends_md rel
      then return_io (Inl (success_result rel ''Enrichment skipped: unsupported extension''))
      else bind_io (resolve_path C rel) (enrich_generate C rel))"

definition enrich_note_frontmatter_required :: "conf \<Rightarrow> string \<Rightarrow> bool \<Rightarrow> op_result io" where
  "enrich_note_frontmatter_required C rel validate_schema =
     return_write_lock_timeout rel (bind_io (enrich_prepare C rel) (\<lambda>r.
       case r of
         Inl res \<Rightarrow> return_io res
       | Inr (file_path, required, generated) \<Rightarrow>
           persist_generated C rel file_path required generated validate_schema))"

section \<open>The assurance of an id\<close>

text \<open>The warnings and suggestions of a note that has an id; a validation error is ignored.\<close>

definition existing_id_issues :: "conf \<Rightarrow> bool \<Rightarrow> frontmatter \<Rightarrow> (issue list \<times> issue list) io" where
  "existing_id_issues C validate_schema fm =
     (if \<not> validate_schema then return_io ([], [])
      else catch_io
        (bind_io (validate_frontmatter_schema C fm) (\<lambda>r. return_io (vr_warnings r, vr_suggestions r)))
        (\<lambda>e. if isinstance e C_ValueError then Some (return_io ([], [])) else None))"

abbreviation id_key :: pyval where
  "id_key \<equiv> PStr ''id''"

definition with_schema_id :: "frontmatter \<Rightarrow> pyval \<Rightarrow> frontmatter \<Rightarrow> frontmatter" where
  "with_schema_id fm i data =
     dmerge (dset id_key i [] @ filter (\<lambda>f. fst f \<noteq> id_key) fm)
       (filter (\<lambda>f. fst f \<noteq> id_key \<and> \<not> dhas fm (fst f)) data)"

definition with_new_id :: "conf \<Rightarrow> frontmatter \<Rightarrow> frontmatter io" where
  "with_new_id C fm = bind_io (generate_uuid7 C) (\<lambda>u. return_io (dmerge [(id_key, PStr u)] fm))"

definition add_id ::
  "conf \<Rightarrow> string \<Rightarrow> bool \<Rightarrow> frontmatter \<Rightarrow> (op_result + frontmatter \<times> issue list \<times> issue list) io" where
  "add_id C rel validate_schema fm =
     (if validate_schema then catch_io
        (bind_io (validate_frontmatter_schema C fm) (\<lambda>r.
         case (dget (vr_data r) id_key, dhas fm id_key) of
           (Some i, False) \<Rightarrow>
             return_io (Inr (with_schema_id fm i (vr_data r), vr_warnings r, vr_suggestions r))
         | _ \<Rightarrow> bind_io (with_new_id C fm) (\<lambda>new_fm.
             return_io (Inr (new_fm, vr_warnings r, vr_suggestions r)))))
        (\<lambda>e. if isinstance e C_ValueError
             then Some (return_io (Inl (error_result rel (exn_text e) None))) else None)
      else bind_io (with_new_id C fm) (\<lambda>new_fm. return_io (Inr (new_fm, [], []))))"

definition ensure_locked ::
  "string \<Rightarrow> bool \<Rightarrow> conf \<Rightarrow> path \<Rightarrow> (op_result + pyval \<times> issue list \<times> issue list) io" where
  "ensure_locked rel validate_schema C _ =
     (if \<not> ends_md rel then return_io (Inl (error_result rel ''Only .md is supported'' None))
      else bind_io (resolve_path C rel) (\<lambda>file_path.
        with_text C file_path rel (not_found rel) (\<lambda>rvn content.
          let (fm, body) = parse_frontmatter (c_yaml_load C) content in
          case dget fm id_key of
            Some i \<Rightarrow> bind_io (existing_id_issues C validate_schema fm) (\<lambda>(ws, ss).
              return_io (Inl (with_issues
                ((success_result rel (''Note already has an id: '' @ rel))
                   \<lparr>or_id_added := Some False, or_id := Some i\<rparr>) ws ss)))
          | None \<Rightarrow> bind_io (add_id C rel validate_schema fm) (\<lambda>r.
              case r of
                Inl err \<Rightarrow> return_io (Inl err)
              | Inr (new_fm, ws, ss) \<Rightarrow>
                  bind_io (write_back C file_path rel (serialize_frontmatter C new_fm @ body) rvn
                      (the (dget new_fm id_key), ws, ss)) (\<lambda>q.
                  case q of
                    Inl err \<Rightarrow> return_io (Inl err)
                  | Inr x \<Rightarrow> bind_io (register_change C rel) (\<lambda>_. return_io (Inr x)))))))"

definition ensure_finish :: "string \<Rightarrow> pyval \<times> issue list \<times> issue list \<Rightarrow> op_result io" where
  "ensure_finish rel x = return_io (with_issues
     ((success_result rel (''ID added: '' @ rel))\<lparr>or_id_added := Some True, or_id := Some (fst x)\<rparr>)
     (fst (snd x)) (snd (snd x)))"

definition ensure_note_id :: "conf \<Rightarrow> string \<Rightarrow> bool \<Rightarrow> op_result io" where
  "ensure_note_id C rel validate_schema = return_write_lock_timeout rel
     (if \<not> ends_md rel then return_io (error_result rel ''Only .md is supported'' None)
      else bind_io (resolve_path C rel) (\<lambda>file_path.
        run_locked C (c_lock_timeout C) file_path (ensure_locked rel validate_schema C file_path)
          (ensure_finish rel)))"

section \<open>Dictionaries\<close>

lemma dmerge_Cons: "dmerge d ((k, v) # e) = dmerge (dset k v d) e"
  by (simp add: dmerge_def)

lemma dget_dmerge_other: "k \<notin> fst ` set e \<Longrightarrow> dget (dmerge d e) k = dget d k"
proof (induction e arbitrary: d)
  case (Cons p e)
  then show ?case by (cases p) (auto simp: dmerge_Cons dget_dset)
qed (simp add: dmerge_def)

lemma dmerge_head: "k \<notin> fst ` set e \<Longrightarrow> dmerge ((k, v) # d) e = (k, v) # dmerge d e"
proof (induction e arbitrary: d)
  case (Cons p e)
  then show ?case by (cases p) (auto simp: dmerge_Cons)
qed (simp add: dmerge_def)

lemma dmerge_append: "distinct (dkeys (d @ e)) \<Longrightarrow> dmerge d e = d @ e"
proof (induction e arbitrary: d)
  case (Cons p e)
  obtain k v where p: "p = (k, v)" by (cases p)
  with Cons.prems have "\<not> dhas d k" by (auto simp: dhas_iff)
  with p have "dmerge d (p # e) = dmerge (d @ [p]) e" by (simp add: dmerge_Cons dset_new)
  also have "\<dots> = (d @ [p]) @ e" using Cons.prems by (intro Cons.IH) simp
  finally show ?case by simp
qed (simp add: dmerge_def)

section \<open>What is written\<close>

text \<open>
  Front matter with an id in front and every field of \<open>fm\<close>, a dictionary as the YAML loader builds
  it, as it was.
\<close>

definition with_id :: "frontmatter \<Rightarrow> frontmatter \<Rightarrow> bool" where
  "with_id fm fm' \<longleftrightarrow> distinct (dkeys fm) \<longrightarrow> (\<exists>i rest. fm' = (id_key, i) # rest) \<and>
     (\<forall>k x. dget fm k = Some x \<longrightarrow> dget fm' k = Some x)"

definition ensure_edit :: "conf \<Rightarrow> string \<Rightarrow> string \<Rightarrow> bool" where
  "ensure_edit C old new \<longleftrightarrow> (case parse_frontmatter (c_yaml_load C) old of (fm, body) \<Rightarrow>
     \<not> dhas fm id_key \<and> (\<exists>fm'. with_id fm fm' \<and> new = serialize_frontmatter C fm' @ body))"

definition ensure_stay :: "conf \<Rightarrow> regfile option \<Rightarrow> op_result \<Rightarrow> bool" where
  "ensure_stay C F res \<longleftrightarrow> \<not> or_success res \<or> or_id_added res = Some False \<and>
     (\<exists>old i. file_text F = Some old \<and> dget (fst (parse_frontmatter (c_yaml_load C) old)) id_key = Some i \<and>
        or_id res = Some i)"

text \<open>Only fields that are required and were missing or empty differ.\<close>

definition fills :: "(string, field_schema) dict \<Rightarrow> frontmatter \<Rightarrow> frontmatter \<Rightarrow> bool" where
  "fills required fm fm' \<longleftrightarrow>
     (\<forall>k. dget fm' k \<noteq> dget fm k \<longrightarrow> (\<exists>n \<in> set (missing_fields required fm). k = PStr n))"

definition enrich_edit :: "conf \<Rightarrow> (string, field_schema) dict \<Rightarrow> bool \<Rightarrow> string \<Rightarrow> string \<Rightarrow> bool" where
  "enrich_edit C required v old new \<longleftrightarrow> (case parse_frontmatter (c_yaml_load C) old of (fm, body) \<Rightarrow>
     missing_fields required fm \<noteq> [] \<and>
     (\<exists>fm1 fm'. fills required fm fm1 \<and> (fm' = fm1 \<or> updated_frontmatter C v fm1 fm') \<and>
        new = serialize_frontmatter C fm' @ body))"

definition enrich_stay :: "op_result \<Rightarrow> bool" where
  "enrich_stay res \<longleftrightarrow> or_success res \<longrightarrow> or_enriched res \<noteq> Some True"

lemma with_new_id_run:
  assumes "with_new_id C fm E w = (Inr fm', w')" "\<not> dhas fm id_key"
  shows "with_id fm fm'"
  unfolding with_id_def
proof
  assume "distinct (dkeys fm)"
  from assms(1) obtain u where "fm' = dmerge [(id_key, PStr u)] fm"
    by (auto simp: with_new_id_def bind_run_Inr basic_run)
  also have "\<dots> = (id_key, PStr u) # fm"
    using assms(2) \<open>distinct (dkeys fm)\<close> by (subst dmerge_append) (auto simp: dhas_iff)
  finally show "(\<exists>i rest. fm' = (id_key, i) # rest) \<and> (\<forall>k x. dget fm k = Some x \<longrightarrow> dget fm' k = Some x)"
    using assms(2) by (auto simp: dhas_def)
qed

lemma with_schema_id:
  assumes "\<not> dhas fm id_key" shows "with_id fm (with_schema_id fm i data)"
proof -
  have fm: "filter (\<lambda>f. fst f \<noteq> id_key) fm = fm"
    using assms by (intro filter_True) (metis dhas_iff image_eqI)
  define news where "news = filter (\<lambda>f. fst f \<noteq> id_key \<and> \<not> dhas fm (fst f)) data"
  have "with_schema_id fm i data = dmerge ((id_key, i) # fm) news"
    by (simp add: with_schema_id_def fm news_def)
  also have "\<dots> = (id_key, i) # dmerge fm news" by (rule dmerge_head) (auto simp: news_def)
  finally have 1: "with_schema_id fm i data = (id_key, i) # dmerge fm news" .
  have "dget (dmerge fm news) k = Some x" if x: "dget fm k = Some x" for k x
  proof -
    have "dhas fm k" using x by (simp add: dhas_def)
    then have "k \<notin> fst ` set news" by (auto simp: news_def)
    with x show ?thesis by (simp add: dget_dmerge_other)
  qed
  with 1 assms show ?thesis by (auto simp: with_id_def dhas_def)
qed

lemma add_id_run:
  assumes "add_id C rel v fm E w = (Inr x, w')" "\<not> dhas fm id_key"
  shows "case x of Inl err \<Rightarrow> \<not> or_success err | Inr (fm', ws, ss) \<Rightarrow> with_id fm fm'"
  using assms with_new_id_run [OF _ assms(2)] with_schema_id [OF assms(2)]
  by (fastforce simp: add_id_def io_runs split: if_splits option.splits)

lemma persist_validate_run:
  assumes "persist_validate C rel v vals fm E w = (Inr x, w')"
  shows "case x of Inl err \<Rightarrow> \<not> or_success err
    | Inr (fm', ws, ss) \<Rightarrow> fm' = fm \<or> updated_frontmatter C v fm fm'"
proof (cases v)
  case False
  with assms show ?thesis by (auto simp: persist_validate_def basic_run)
next
  case True
  with assms show ?thesis
    by (auto simp: persist_validate_def validate_frontmatter_schema_def io_runs error_result_def op_base_def
        validate_frontmatter_schema_result_def updated_frontmatter_def split: if_splits)
qed

lemma new_values_fill:
  "fills required fm (dmerge fm (new_values generated (missing_fields required fm)))"
  unfolding fills_def
proof (intro allI impI)
  fix k let ?m = "missing_fields required fm"
  assume "dget (dmerge fm (new_values generated ?m)) k \<noteq> dget fm k"
  then have "k \<in> fst ` set (new_values generated ?m)"
    by (rule contrapos_np) (rule dget_dmerge_other)
  then obtain i where "i \<in> set (new_values generated ?m)" "k = fst i" by blast
  then have "k \<in> PStr ` set ?m" by (simp add: new_values_def)
  then show "\<exists>n \<in> set ?m. k = PStr n" by blast
qed


section \<open>Bodies under the lock\<close>

lemma keeps_register [intro!]: "cooperative E \<Longrightarrow> keeps E (locked rl p c) (register_change C rel)"
  unfolding register_change_def vault_file_def revision_or_none_def by (auto split: if_split_asm)

lemma keeps_persist_validate [intro!]:
  "cooperative E \<Longrightarrow> keeps E (locked rl p c) (persist_validate C rel v vals fm)"
  unfolding persist_validate_def validate_frontmatter_schema_def by (auto split: if_split_asm)

lemma keeps_add_id [intro!]: "cooperative E \<Longrightarrow> keeps E (locked rl p c) (add_id C rel v fm)"
  unfolding add_id_def validate_frontmatter_schema_def with_new_id_def
  by (auto split: if_split_asm option.split bool.split)

lemma keeps_existing_issues [intro!]:
  "cooperative E \<Longrightarrow> keeps E (locked rl p c) (existing_id_issues C v fm)"
  unfolding existing_id_issues_def validate_frontmatter_schema_def by (auto split: if_split_asm)

lemma body_outcome_later:
  "body_outcome rl p c edit stay r w \<Longrightarrow> (\<And>c. locked rl p c w \<Longrightarrow> locked rl p c w') \<Longrightarrow>
   body_outcome rl p c edit stay r w'"
  unfolding body_outcome_def by (auto split: sum.splits)

lemma persist_locked_body:
  assumes env: "cooperative E" "os_faults E" "apart rl C p"
    and w: "locked rl p c w" and run: "persist_locked rel required generated v C p E w = (Inr r, w')"
  shows "body_outcome rl p c (\<lambda>new. \<exists>old. file_text (fst c) = Some old \<and> enrich_edit C required v old new)
    enrich_stay r w'"
proof (rule with_text_body [OF env(1) w run [unfolded persist_locked_def]])
  fix rvn old w1
  obtain fm body where parse: "parse_frontmatter (c_yaml_load C) old = (fm, body)" by fastforce
  let ?m = "missing_fields required fm"
  let ?vals = "new_values generated ?m"
  assume l1: "locked rl p c w1" and old: "file_text (fst c) = Some old"
    and "(let (disk_fm, disk_body) = parse_frontmatter (c_yaml_load C) old;
           still_missing = missing_fields required disk_fm;
           vals = new_values generated still_missing in
       if still_missing = []
       then return_io (Inl (enriched_result rel
         ''Fields were filled manually while enrichment was running'' False 0))
       else if vals = []
       then return_io (Inl (error_result rel
         ''The enrichment provider did not return every required field'' (Some ''required_missing'')))
       else
         bind_io (persist_validate C rel v vals (dmerge disk_fm vals)) (\<lambda>v.
         case v of
           Inl err \<Rightarrow> return_io (Inl err)
         | Inr (new_fm, ws, ss) \<Rightarrow>
             bind_io (lift_io (validate_frontmatter_size C new_fm)) (\<lambda>_.
             bind_io (lift_io (validate_content_size C (serialize_frontmatter C new_fm @ disk_body))) (\<lambda>_.
             write_back C p rel (serialize_frontmatter C new_fm @ disk_body) rvn
               (length vals, ws, ss))))) E w1 = (Inr r, w')"
  then consider (early) res where "r = Inl res" "enrich_stay res" "w' = w1"
    | (fill) x w2 where "?m \<noteq> []" "persist_validate C rel v ?vals (dmerge fm ?vals) E w1 = (Inr x, w2)"
      "(case x of
           Inl err \<Rightarrow> return_io (Inl err)
         | Inr (new_fm, ws, ss) \<Rightarrow>
             bind_io (lift_io (validate_frontmatter_size C new_fm)) (\<lambda>_.
             bind_io (lift_io (validate_content_size C (serialize_frontmatter C new_fm @ body))) (\<lambda>_.
             write_back C p rel (serialize_frontmatter C new_fm @ body) rvn
               (length ?vals, ws, ss)))) E w2 = (Inr r, w')"
    unfolding parse Let_def prod.case
    by (auto simp: basic_run enriched_result_def enrich_stay_def bind_run_Inr split: if_split_asm)
  then show "body_outcome rl p c (\<lambda>new. \<exists>old. file_text (fst c) = Some old \<and> enrich_edit C required v old new)
    enrich_stay r w'"
  proof cases
    case early
    with l1 show ?thesis by (auto intro: locked_early)
  next
    case fill
    have l2: "locked rl p c w2" by (rule keeps_run [OF keeps_persist_validate [OF env(1)] fill(2) l1])
    show ?thesis
    proof (cases x)
      case (Inl err)
      with fill(3) l2 persist_validate_run [OF fill(2)] show ?thesis
        by (auto simp: basic_run enrich_stay_def intro: locked_early)
    next
      case (Inr y)
      obtain fm' ws ss where y: "y = (fm', ws, ss)" by (cases y)
      from fill(3) Inr y have wb: "write_back C p rel (serialize_frontmatter C fm' @ body) rvn
          (length ?vals, ws, ss) E w2 = (Inr r, w')"
        by (auto simp: bind_run_Inr basic_run)
      have "fm' = dmerge fm ?vals \<or> updated_frontmatter C v (dmerge fm ?vals) fm'"
        using persist_validate_run [OF fill(2)] Inr y by simp
      then have "enrich_edit C required v old (serialize_frontmatter C fm' @ body)"
        unfolding enrich_edit_def parse using fill(1) new_values_fill by auto
      with old show ?thesis by (intro write_back_locked [OF env l2 wb]) (auto simp: enrich_stay_def)
    qed
  qed
qed (auto simp: not_found_def enrich_stay_def)

lemma resolved_path:
  assumes "cooperative E" "locked rl p c w" "p = note_target rl C rel" "resolve_path C rel E w = (Inr p', w')"
  shows "p' = p \<and> locked rl p c w'"
  using resolve_path_run [OF cooperative_links [OF assms(1)] assms(4)] locked_real [OF assms(2)]
    keeps_run [OF keeps_resolve_path [OF assms(1)] assms(4,2)] assms(3) by simp

lemma ensure_locked_body:
  assumes env: "cooperative E" "os_faults E" "apart rl C p" and p: "p = note_target rl C rel"
    and w: "locked rl p c w" and run: "ensure_locked rel v C q E w = (Inr r, w')"
  shows "body_outcome rl p c (\<lambda>new. \<exists>old. file_text (fst c) = Some old \<and> ensure_edit C old new)
    (ensure_stay C (fst c)) r w'"
proof (cases "ends_md rel")
  case False
  with run w show ?thesis by (auto simp: ensure_locked_def ensure_stay_def basic_run intro: locked_early)
next
  case True
  define k where "k = (\<lambda>file_path rvn content.
          let (fm, body) = parse_frontmatter (c_yaml_load C) content in
          case dget fm id_key of
            Some i \<Rightarrow> bind_io (existing_id_issues C v fm) (\<lambda>(ws, ss).
              return_io (Inl (with_issues
                ((success_result rel (''Note already has an id: '' @ rel))
                   \<lparr>or_id_added := Some False, or_id := Some i\<rparr>) ws ss)))
          | None \<Rightarrow> bind_io (add_id C rel v fm) (\<lambda>r.
              case r of
                Inl err \<Rightarrow> return_io (Inl err)
              | Inr (new_fm, ws, ss) \<Rightarrow>
                  bind_io (write_back C file_path rel (serialize_frontmatter C new_fm @ body) rvn
                      (the (dget new_fm id_key), ws, ss)) (\<lambda>q.
                  case q of
                    Inl err \<Rightarrow> return_io (Inl err)
                  | Inr x \<Rightarrow> bind_io (register_change C rel) (\<lambda>_. return_io (Inr x)))))"
  let ?goal = "body_outcome rl p c (\<lambda>new. \<exists>old. file_text (fst c) = Some old \<and> ensure_edit C old new)
    (ensure_stay C (fst c))"
  have "ensure_locked rel v C q = bind_io (resolve_path C rel) (\<lambda>p. with_text C p rel (not_found rel) (k p))"
    using True by (simp add: ensure_locked_def k_def)
  with run obtain p' w1 where 1: "resolve_path C rel E w = (Inr p', w1)"
    and 2: "with_text C p' rel (not_found rel) (k p') E w1 = (Inr r, w')"
    by (auto simp: bind_run_Inr)
  from resolved_path [OF env(1) w p 1] have pp: "p' = p" and l1: "locked rl p c w1" by auto
  show ?thesis
  proof (rule with_text_body [OF env(1) l1 2 [unfolded pp]])
    fix rvn old w2
    assume l2: "locked rl p c w2" and old: "file_text (fst c) = Some old" and run: "k p rvn old E w2 = (Inr r, w')"
    obtain fm body where parse: "parse_frontmatter (c_yaml_load C) old = (fm, body)" by fastforce
    show "?goal r w'"
    proof (cases "dget fm id_key")
      case (Some i)
      with run parse obtain iss where 3: "existing_id_issues C v fm E w2 = (Inr iss, w')"
        and r: "r = Inl (with_issues ((success_result rel (''Note already has an id: '' @ rel))
                   \<lparr>or_id_added := Some False, or_id := Some i\<rparr>) (fst iss) (snd iss))"
        by (auto simp: k_def bind_run_Inr basic_run)
      have "locked rl p c w'" by (rule keeps_run [OF keeps_existing_issues [OF env(1)] 3 l2])
      with r old parse Some show ?thesis
        by (auto simp: ensure_stay_def with_issues_def intro: locked_early)
    next
      case None
      with run parse obtain x w3 where 3: "add_id C rel v fm E w2 = (Inr x, w3)"
        and 4: "(case x of
                Inl err \<Rightarrow> return_io (Inl err)
              | Inr (new_fm, ws, ss) \<Rightarrow>
                  bind_io (write_back C p rel (serialize_frontmatter C new_fm @ body) rvn
                      (the (dget new_fm id_key), ws, ss)) (\<lambda>q.
                  case q of
                    Inl err \<Rightarrow> return_io (Inl err)
                  | Inr x \<Rightarrow> bind_io (register_change C rel) (\<lambda>_. return_io (Inr x)))) E w3 = (Inr r, w')"
        by (auto simp: k_def bind_run_Inr)
      have l3: "locked rl p c w3" by (rule keeps_run [OF keeps_add_id [OF env(1)] 3 l2])
      have fm: "\<not> dhas fm id_key" using None by (simp add: dhas_def)
      note added = add_id_run [OF 3 fm]
      show ?thesis
      proof (cases x)
        case (Inl err)
        with 4 l3 added show ?thesis by (auto simp: basic_run ensure_stay_def intro: locked_early)
      next
        case (Inr y)
        obtain fm' ws ss where y: "y = (fm', ws, ss)" by (cases y)
        from 4 Inr y obtain z w4 where
          5: "write_back C p rel (serialize_frontmatter C fm' @ body) rvn
                (the (dget fm' id_key), ws, ss) E w3 = (Inr z, w4)"
          and 6: "(case z of Inl err \<Rightarrow> return_io (Inl err)
             | Inr x \<Rightarrow> bind_io (register_change C rel) (\<lambda>_. return_io (Inr x))) E w4 = (Inr r, w')"
          by (auto simp: bind_run_Inr)
        have "ensure_edit C old (serialize_frontmatter C fm' @ body)"
          using parse fm added Inr y by (auto simp: ensure_edit_def)
        then have out: "?goal z w4"
          using old by (intro write_back_locked [OF env l3 5]) (auto simp: ensure_stay_def)
        from 6 have r: "r = z" by (cases z) (auto simp: bind_run_Inr basic_run)
        have "locked rl p c' w'" if "locked rl p c' w4" for c'
        proof (cases z)
          case (Inr u)
          with 6 obtain ok where "register_change C rel E w4 = (Inr ok, w')" by (auto simp: bind_run_Inr basic_run)
          from keeps_run [OF keeps_register [OF env(1)] this that] show ?thesis .
        qed (use 6 that in \<open>simp add: basic_run\<close>)
        with out r show ?thesis by (auto intro: body_outcome_later)
      qed
    qed
  qed (auto simp: not_found_def ensure_stay_def)
qed

section \<open>Logs and exceptions\<close>

lemma logs_register [intro!]: "logs E (\<lambda>_. True) (register_change C rel)"
  unfolding register_change_def vault_file_def revision_or_none_def by (auto split: if_split_asm)

lemma logs_add_id [intro!]: "logs E (\<lambda>_. True) (add_id C rel v fm)"
  unfolding add_id_def validate_frontmatter_schema_def with_new_id_def
  by (auto intro!: logs_uuid split: if_split_asm option.split bool.split)

lemma logs_existing_issues [intro!]: "logs E (\<lambda>_. True) (existing_id_issues C v fm)"
  unfolding existing_id_issues_def validate_frontmatter_schema_def by (auto split: if_split_asm)

lemma logs_persist_validate [intro!]: "logs E (\<lambda>_. True) (persist_validate C rel v vals fm)"
  unfolding persist_validate_def validate_frontmatter_schema_def by (auto split: if_split_asm)

lemma enrich_body_logs:
  "logs E (\<lambda>_. True) (persist_locked rel required generated v C q)"
  "logs E (\<lambda>_. True) (ensure_locked rel v C q)"
  unfolding persist_locked_def ensure_locked_def Let_def
  by (auto intro!: logs_with_text split: prod.split option.split)

lemma raises_register:
  assumes "os_faults E" shows "raises E (\<lambda>_. False) (register_change C rel)"
proof -
  have "raises E (\<lambda>_. False) (revision_or_none p)" for p
    unfolding revision_or_none_def
  proof (rule raises_catch)
    show "raises E (\<lambda>e. isinstance e C_OSError) (bind_io (stat_io p) (\<lambda>r. return_io (Some r)))"
      using assms
      by (auto simp: raises_def stat_io_def syscall_def os_faults_def isinstance_def io_runs split: option.splits)
  qed auto
  moreover have "raises E (\<lambda>_. False) (log_io ev)" for ev by (simp add: raises_def log_io_def)
  ultimately show ?thesis unfolding register_change_def vault_file_def by auto
qed

lemma raises_persist_validate: "raises E not_timeout (persist_validate C rel v vals fm)"
  by (cases v)
     (auto simp: raises_def persist_validate_def validate_frontmatter_schema_def io_runs
        validate_frontmatter_schema_result_def not_timeout_def isinstance_def
        dest!: validate_error split: if_splits)

lemma raises_schema: "raises E not_timeout (validate_frontmatter_schema C fm)"
  by (auto simp: raises_def validate_frontmatter_schema_def io_runs validate_frontmatter_schema_result_def
      not_timeout_def isinstance_def dest!: validate_error split: if_splits)

lemma raises_existing_issues: "raises E not_timeout (existing_id_issues C v fm)"
  unfolding existing_id_issues_def
  by (auto intro!: raises_catch [where S' = not_timeout] raises_bind raises_schema)

lemma raises_with_new_id: "raises E S (with_new_id C fm)"
  unfolding with_new_id_def by (auto simp: raises_def generate_uuid7_def io_runs)

lemma raises_add_id: "raises E not_timeout (add_id C rel v fm)"
  unfolding add_id_def
  by (auto intro!: raises_catch [where S' = not_timeout] raises_bind raises_schema raises_with_new_id
      split: option.split bool.split)

lemmas enrich_steps = body_steps raises_persist_validate raises_existing_issues raises_add_id
  raises_mono [OF raises_register] raises_mono [OF raises_resolve_path os_or_value_not_timeout]

lemma enrich_body_raises:
  assumes "os_faults E"
  shows "raises E not_timeout (persist_locked rel required generated v C q)"
    "raises E not_timeout (ensure_locked rel v C q)"
  using assms unfolding persist_locked_def ensure_locked_def Let_def
  by (auto intro!: raises_with_text enrich_steps split: prod.split option.split)

interpretation ensurer: locked_editor rel "ensure_locked rel v" "ensure_finish rel"
    "\<lambda>C F new. \<exists>old. file_text F = Some old \<and> ensure_edit C old new" "\<lambda>C F res. ensure_stay C F res" for rel v
  by unfold_locales
     (auto intro: ensure_locked_body enrich_body_logs enrich_body_raises
           simp: ensure_finish_def basic_run with_issues_def)

interpretation persister: locked_editor rel "persist_locked rel required generated v" "persist_finish rel"
    "\<lambda>C F new. \<exists>old. file_text F = Some old \<and> enrich_edit C required v old new"
    "\<lambda>C F res. enrich_stay res" for rel required generated v
  by unfold_locales
     (auto intro: persist_locked_body enrich_body_logs enrich_body_raises
           simp: persist_finish_def basic_run with_issues_def enriched_result_def)

section \<open>What the operations promise\<close>

lemma keeps_links_resolve_path: "links_stable E \<Longrightarrow> keeps_links E (resolve_path C rel)"
  unfolding resolve_path_def validate_relative_path_def resolve_internal_path_def Let_def
  by (auto intro!: keeps_links_combinators split: if_split_asm sum.split)

lemma ready_resolved:
  "note_ready E w C rel p \<Longrightarrow> resolve_path C rel E w = (Inr r, w1) \<Longrightarrow> r = p"
  using resolve_path_run [of E C rel w r w1] cooperative_links [of E] by (simp add: note_ready_def)


text \<open>What the preparation of an enrichment logs, keeps and returns early.\<close>

definition no_replace :: "path \<Rightarrow> event \<Rightarrow> bool" where
  "no_replace p e \<longleftrightarrow> (\<forall>q. e \<noteq> EvReplace q p)"

lemma no_replace_simps [simp]:
  "no_replace p (EvStat q r)" "no_replace p (EvRead q)" "no_replace p (EvUnlock q)"
  "is_lock_event e \<Longrightarrow> no_replace p e" "provider_call A prompt e \<Longrightarrow> no_replace p e"
  by (auto simp: no_replace_def is_lock_event_def provider_call_def)

lemma logs_quiet [intro!]:
  "logs E (no_replace p) (enter_path_lock C d q t)" "logs E (no_replace p) (unlock_io q)"
  "logs E (no_replace p) (safe_read_text C q rel)" "logs E (no_replace p) (file_revision q)"
  "logs E (no_replace p) (generate_required_fields_with_ai A rel body fm required)"
proof -
  show "logs E (no_replace p) (enter_path_lock C d q t)" by (rule logs_mono [OF logs_enter]) simp
  show "logs E (no_replace p) (unlock_io q)"
    by (auto simp: logs_def unlock_io_def syscall_def split: option.splits)
  have "logs E (no_replace p) (try_models A missing prompt (provider_models A))" for missing prompt
    by (rule logs_mono [OF logs_try_models [of _ A E prompt]]) auto
  then show "logs E (no_replace p) (generate_required_fields_with_ai A rel body fm required)"
    unfolding generate_required_fields_with_ai_def Let_def by auto
qed auto

lemma logs_enrich_prepare: "logs E (no_replace p) (enrich_prepare C rel)"
  unfolding enrich_prepare_def enrich_generate_def read_locked_text_def advisory_path_lock_def with_text_def read_stable_def
    generate_or_error_def Let_def
  by (auto split: prod.split if_split_asm pyexn.splits)

lemma keeps_links_more [intro!]:
  assumes "links_stable E"
  shows "keeps_links E (unlock_io p)" "keeps_links E (flock_io p)" "keeps_links E (read_text_io p)"
  using assms
  by (auto simp: keeps_links_def keeps_def triple_def unlock_io_def flock_io_def read_text_io_def
      syscall_def sure_call_def split: option.splits)

lemma keeps_links_finally [intro!]:
  "keeps_links E m \<Longrightarrow> keeps_links E f \<Longrightarrow> keeps_links E (finally_io m f)"
  by (auto simp: keeps_links_def)

lemma keeps_links_acquire: "links_stable E \<Longrightarrow> keeps_links E (acquire_flock n p d)"
  by (induction n)
     (auto intro!: keeps_links_combinators keeps_links_more keeps_links_calls split: flock_outcome.split if_split_asm)

lemma keeps_links_enter: "links_stable E \<Longrightarrow> keeps_links E (enter_path_lock C d p t)"
  unfolding enter_path_lock_def
  by (auto intro!: keeps_links_combinators keeps_links_acquire)

lemma keeps_links_generate: "links_stable E \<Longrightarrow> keeps_links E (generate_with_model A model prompt attempt left)"
proof (induction left arbitrary: attempt)
  case (Suc left)
  have "keeps_links E (run_cli_command A (resolve_command (ai_command A) model prompt))"
    unfolding run_cli_command_def using Suc.prems by (intro keeps_links_combinators keeps_links_sure) simp_all
  with Suc show ?case
    by (auto intro!: keeps_links_combinators simp: when_io_def split: if_split_asm)
qed auto

lemma keeps_links_try: "links_stable E \<Longrightarrow> keeps_links E (try_models A missing prompt models)"
  by (induction models) (auto intro!: keeps_links_combinators keeps_links_generate split: if_split_asm)

lemma keeps_links_enrich_prepare: "links_stable E \<Longrightarrow> keeps_links E (enrich_prepare C rel)"
  unfolding enrich_prepare_def enrich_generate_def read_locked_text_def advisory_path_lock_def with_text_def read_stable_def
    generate_or_error_def generate_required_fields_with_ai_def safe_read_text_def file_revision_def Let_def
  by (auto intro!: keeps_links_combinators keeps_links_enter keeps_links_try keeps_links_resolve_path
      split: prod.split if_split_asm pyexn.splits sum.split)

lemma error_plain [simp]: "or_enriched (error_result rel m c) = None" "or_enriched (success_result rel m) = None"
  by (simp_all add: error_result_def success_result_def op_base_def)

text \<open>What an operation returns, when it does.\<close>

definition gives :: "env \<Rightarrow> ('a \<Rightarrow> bool) \<Rightarrow> 'a io \<Rightarrow> bool" where
  "gives E P m \<longleftrightarrow> (\<forall>w x w'. m E w = (Inr x, w') \<longrightarrow> P x)"

lemma gives_D: "gives E P m \<Longrightarrow> m E w = (Inr x, w') \<Longrightarrow> P x"
  by (auto simp: gives_def)

lemma gives_any: "gives E (\<lambda>_. True) m"
  by (simp add: gives_def)

lemma gives_bind: "gives E Q m \<Longrightarrow> (\<And>x. Q x \<Longrightarrow> gives E P (f x)) \<Longrightarrow> gives E P (bind_io m f)"
  unfolding gives_def bind_run_Inr by blast

lemmas gives_seq = gives_bind [OF gives_any]

lemma gives_intros [intro!]:
  "P x \<Longrightarrow> gives E P (return_io x)" "gives E P (raise_io e)"
  "gives E P m \<Longrightarrow> gives E P (finally_io m f)"
  "(b \<Longrightarrow> gives E P m) \<Longrightarrow> (\<not> b \<Longrightarrow> gives E P m') \<Longrightarrow> gives E P (if b then m else m')"
  "(\<And>u. s = Inl u \<Longrightarrow> gives E P (g u)) \<Longrightarrow> (\<And>v. s = Inr v \<Longrightarrow> gives E P (k v)) \<Longrightarrow>
   gives E P (case s of Inl u \<Rightarrow> g u | Inr v \<Rightarrow> k v)"
  by (auto simp: gives_def basic_run finally_run_Inr split: sum.split)

lemma gives_catch [intro!]:
  assumes "gives E P m" "\<And>e m'. h e = Some m' \<Longrightarrow> gives E P m'" shows "gives E P (catch_io m h)"
  unfolding gives_def
proof (intro allI impI)
  fix w x w' assume "catch_io m h E w = (Inr x, w')"
  then consider "m E w = (Inr x, w')" | e m' w1 where "h e = Some m'" "m' E w1 = (Inr x, w')"
    by (auto simp: catch_run split: option.splits)
  then show "P x"
  proof cases
    case 1
    with assms(1) show ?thesis by (rule gives_D)
  next
    case (2 e m' w1)
    from gives_D [OF assms(2) [OF 2(1)] 2(2)] show ?thesis .
  qed
qed

definition early_plain :: "op_result + 'a \<Rightarrow> bool" where
  "early_plain r \<longleftrightarrow> (\<forall>res. r = Inl res \<longrightarrow> or_enriched res \<noteq> Some True)"

lemma gives_read_locked: "gives E early_plain (read_locked_text C p rel)"
proof -
  have read: "gives E early_plain (safe_read_text C p rel)"
    unfolding safe_read_text_def
    by (auto simp: early_plain_def intro!: gives_seq split: if_split_asm)
  have stable: "gives E early_plain (read_stable C p rel v)" for v
    unfolding read_stable_def
    by (rule gives_bind [OF read]) (auto simp: early_plain_def write_conflict_def intro!: gives_seq)
  have "gives E early_plain (with_text C p rel (not_found rel) (\<lambda>_ content. return_io (Inr content)))"
    unfolding with_text_def
    by (rule gives_seq) (auto simp: early_plain_def not_found_def intro!: gives_bind [OF stable])
  then show ?thesis
    unfolding read_locked_text_def advisory_path_lock_def by (intro gives_seq gives_intros(3))
qed

lemma gives_generate: "gives E early_plain (generate_or_error C rel body fm required)"
  unfolding generate_or_error_def
  by (auto simp: early_plain_def intro!: gives_seq split: pyexn.split_asm)

lemma gives_enrich_generate:
  "gives E (\<lambda>r. early_plain r \<and> (\<forall>y. r = Inr y \<longrightarrow>
     fst y = p \<and> fst (snd y) = get_required_schema_fields (sc_schema (c_schema C)))) (enrich_generate C rel p)"
  unfolding enrich_generate_def Let_def
  by (auto simp: early_plain_def enriched_result_def
      intro!: gives_bind [OF gives_read_locked] gives_bind [OF gives_generate] split: prod.split)

lemma enrich_prepare_run:
  assumes "note_ready E w C rel p" "enrich_prepare C rel E w = (Inr r, w')"
  shows "early_plain r \<and> (\<forall>y. r = Inr y \<longrightarrow>
     fst y = p \<and> fst (snd y) = get_required_schema_fields (sc_schema (c_schema C)))"
proof (cases "ends_md rel")
  case False
  with assms(2) show ?thesis by (auto simp: enrich_prepare_def basic_run early_plain_def)
next
  case True
  with assms(2) obtain q w1 where 1: "resolve_path C rel E w = (Inr q, w1)"
    and 2: "enrich_generate C rel q E w1 = (Inr r, w')" by (auto simp: enrich_prepare_def bind_run_Inr)
  from ready_resolved [OF assms(1) 1] gives_D [OF gives_enrich_generate 2] show ?thesis by simp
qed

text \<open>
  The value of an operation wrapped against timeouts is the operation's, or the error of a timeout.
\<close>

lemma timeout_split:
  assumes "return_write_lock_timeout rel m E w = (Inr res, w')"
  obtains (ok) "m E w = (Inr res, w')"
  | (timeout) e where "m E w = (Inl e, w')" "isinstance e C_WriteLockTimeoutError" "or_enriched res = None"
proof -
  from assms have "m E w = (Inr res, w') \<or>
      (\<exists>e. m E w = (Inl e, w') \<and> isinstance e C_WriteLockTimeoutError \<and> or_enriched res = None)"
    by (auto simp: return_write_lock_timeout_def catch_run basic_run split: if_splits option.splits)
  then show thesis using ok timeout by blast
qed

lemma logs_announce: "logs E (\<lambda>e. \<forall>q. e \<noteq> EvReplace q p) (announce C rel res)"
  unfolding announce_def register_change_def vault_file_def revision_or_none_def
  by (auto split: if_split_asm)

lemma raises_announce: "os_faults E \<Longrightarrow> raises E (\<lambda>_. False) (announce C rel res)"
  unfolding announce_def by (auto intro: raises_register)

lemma announce_run: "announce C rel r E w = (Inr res, w') \<Longrightarrow> res = r"
  by (auto simp: announce_def io_runs split: if_splits)


end
