(* ===== verification/Enrich_Runs.thy ===== *)
theory Enrich_Runs
  imports Sample_Runs Crud_Enrich
begin

text \<open>Runs of \<open>ensure_note_id\<close> and of an enrichment in the quiet environment, for the witnesses.\<close>

lemma sample_resolve:
  assumes "fs_real (w_fs w) = (\<lambda>p. p)"
  shows "resolve_path sample_conf ''a.md'' quiet_env w = (Inr [''v'', ''a.md''], w\<lparr>w_tick := w_tick w + 3\<rparr>)"
  using assms
  by (auto simp: sample_strings pure_path_def bind_io_def lift_io_def resolve_path_def validate_relative_path_def
      catch_io_def return_io_def resolve_io_def sure_call_def resolve_internal_path_def relative_to_def
      Let_def join_path_def quiet_tick_eq numeral_eq_Suc split: option.splits)

lemma sample_md: "ends_md ''a.md''" by code_simp

lemma sample_ensure: "\<exists>w'. ensure_note_id sample_conf ''a.md'' False quiet_env note_world
  = (Inr (with_issues ((success_result ''a.md'' ''ID added: a.md'')\<lparr>or_id_added := Some True,
      or_id := Some (PStr sample_uuid)\<rparr>) [] []), w')"
  by (simp add: ensure_note_id_def sample_md ensure_locked_def ensure_finish_def sample_run sample_resolve
      add_id_def with_new_id_def generate_uuid7_def sample_parse dmerge_def serialize_frontmatter_def not_found_def
      register_change_def vault_file_def revision_or_none_def)


section \<open>An enrichment\<close>

definition enrich_conf :: conf where
  "enrich_conf = sample_conf\<lparr>c_schema := note_config\<lparr>sc_schema :=
     [(''id'', (default_schema FT_uuid)\<lparr>fs_on_missing := OM_require\<rparr>)]\<rparr>\<rparr>"

lemma enrich_conf_simps [simp]:
  "c_vault enrich_conf = [''v'']" "c_max_content enrich_conf = 1000" "c_max_path enrich_conf = 100"
  "c_max_keys enrich_conf = 10" "c_digest enrich_conf p = ''0''" "c_lock_timeout enrich_conf = 5"
  "c_yaml_dump enrich_conf fm = ''k: v'' @ [CHR 0x0A]" "c_ai enrich_conf = sample_ai"
  "c_ignored enrich_conf = [''.trash'', ''.obsidian'']" "sc_enabled (c_schema enrich_conf)"
  by (simp_all add: enrich_conf_def note_config_def)

lemma enrich_required:
  "get_required_schema_fields (sc_schema (c_schema enrich_conf)) = [(''id'', (default_schema FT_uuid)\<lparr>fs_on_missing := OM_require\<rparr>)]"
  "missing_fields [(''id'', (default_schema FT_uuid)\<lparr>fs_on_missing := OM_require\<rparr>)] [] = [''id'']"
  by (simp_all add: enrich_conf_def note_config_def get_required_schema_fields_def missing_fields_def
      is_field_missing_or_empty_def)

lemma enrich_resolve:
  assumes "fs_real (w_fs w) = (\<lambda>p. p)"
  shows "resolve_path enrich_conf ''a.md'' quiet_env w = (Inr [''v'', ''a.md''], w\<lparr>w_tick := w_tick w + 3\<rparr>)"
  using assms
  by (auto simp: sample_strings pure_path_def bind_io_def lift_io_def resolve_path_def validate_relative_path_def
      catch_io_def return_io_def resolve_io_def sure_call_def resolve_internal_path_def relative_to_def
      Let_def join_path_def quiet_tick_eq numeral_eq_Suc split: option.splits)

lemma enrich_size: "validate_content_size enrich_conf s = (if utf8_len s \<le> 1000 then Inr () else
    Inl (ValueError ''Content is too large''))"
  by (simp add: validate_content_size_def)

lemma enrich_extract: "extract_json_object sample_ai ''{}'' = Inr [(PStr ''id'', PStr ''x''), (PStr ''rank'', PInt 1)]"
  "strip ''{}'' = ''{}''"
  by code_simp+

lemma sample_ai_simps:
  "ai_enabled sample_ai" "ai_command sample_ai \<noteq> []" "ai_primary_model sample_ai \<noteq> []"
  "ai_max_attempts sample_ai = Suc (Suc 0)" "provider_models sample_ai = [''m1'']"
  "ai_cli sample_ai t c p = Cli_completed 0 ''{}''" "validate_command_security (ai_command sample_ai) = Inr ()"
  "allowed_fields [''id''] [(PStr ''id'', PStr ''x''), (PStr ''rank'', PInt 1)] = [(PStr ''id'', PStr ''x'')]"
  by code_simp+

lemma enrich_generated: "\<exists>l. generate_or_error enrich_conf rel body []
    [(''id'', (default_schema FT_uuid)\<lparr>fs_on_missing := OM_require\<rparr>)] quiet_env w
  = (Inr (Inr [(PStr ''id'', PStr ''x'')]), w\<lparr>w_tick := Suc (w_tick w), w_log := w_log w @ l\<rparr>)"
proof -
  have run: "run_cli_command sample_ai cmd quiet_env w = (Inr ''{}'',
      w\<lparr>w_tick := Suc (w_tick w), w_log := w_log w @ [EvCall (fst cmd) (snd cmd)]\<rparr>)" for cmd
    by (simp add: run_cli_command_def bind_io_def sure_call_def lift_io_def cli_result_def enrich_extract
        sample_ai_simps quiet_tick_eq)
  show ?thesis
    by (simp add: generate_or_error_def generate_required_fields_with_ai_def enrich_required Let_def
        sample_ai_simps bind_io_def lift_io_def catch_io_def return_io_def run enrich_extract)
       (rule exI, rule refl)
qed

lemma sample_enrich: "\<exists>w'. enrich_note_frontmatter_required enrich_conf ''a.md'' False quiet_env note_world
  = (Inr (with_issues (enriched_result ''a.md'' ''Frontmatter enriched: a.md'' True 1) [] []), w')"
proof -
  obtain l where gen: "generate_or_error enrich_conf ''a.md'' ''old'' []
    [(''id'', (default_schema FT_uuid)\<lparr>fs_on_missing := OM_require\<rparr>)] quiet_env w
  = (Inr (Inr [(PStr ''id'', PStr ''x'')]), w\<lparr>w_tick := Suc (w_tick w), w_log := w_log w @ l w\<rparr>)" for w
    using enrich_generated by metis
  show ?thesis
    by (simp add: enrich_note_frontmatter_required_def enrich_prepare_def enrich_generate_def sample_md
        enrich_resolve read_locked_text_def not_found_def sample_run sample_parse enrich_required gen
        persist_generated_def persist_locked_def persist_finish_def persist_validate_def new_values_def enrich_size
        validate_frontmatter_size_def serialize_frontmatter_def dmerge_def announce_def register_change_def
        vault_file_def revision_or_none_def enriched_result_def with_issues_def)
qed

lemma enrich_ready: "note_ready quiet_env note_world enrich_conf ''a.md'' [''v'', ''a.md'']"
  by (simp add: note_ready_def quiet_env_simps note_target_def apart_def internal_dir_def Let_def
      sample_strings pure_path_def join_path_def note_world_def start_world_def empty_fs_def)


end
