(* ===== verification/Chunker.thy ===== *)
theory Chunker
  imports Prelude
begin

text \<open>
  \<open>core/chunker.py\<close> and \<open>utils/chunking.py\<close>: splitting a text into overlapping chunks, and the
  records made of them.  The sizes and separators are the configuration's (\<open>config/chunking.py\<close>,
  whose schema has \<open>100 <= size\<close> and \<open>0 <= overlap < size\<close>); a separator may be any string,
  and \<open>str.split\<close> refuses an empty one.
\<close>

section \<open>Splitting\<close>

definition split_on :: "string \<Rightarrow> string \<Rightarrow> string list result" where
  "split_on sep s = (if sep = [] then Inl (ValueError ''empty separator'') else Inr (py_split sep s))"

text \<open>\<open>[text[i : i + n] for i in range(0, len(text), n)]\<close>.\<close>

function cut_every :: "nat \<Rightarrow> string \<Rightarrow> string list" where
  "cut_every n s = (if s = [] \<or> n = 0 then [] else take n s # cut_every n (drop n s))"
  by pat_completeness auto
termination by (relation "measure (\<lambda>(n, s). length s)") auto

declare cut_every.simps [simp del]

definition hard_cut :: "nat \<Rightarrow> string \<Rightarrow> string list result" where
  "hard_cut n s = (if n = 0 then Inl (ValueError ''range() arg 3 must not be zero'') else Inr (cut_every n s))"

text \<open>The loop that groups the parts; an empty \<open>current\<close> is a chunk not begun.\<close>

fun group_parts :: "string \<Rightarrow> nat \<Rightarrow> string \<Rightarrow> string list \<Rightarrow> string list" where
  "group_parts sep n current [] = (if current \<noteq> [] then [current] else [])"
| "group_parts sep n current (part # parts) =
     (let candidate = (if current \<noteq> [] then current @ sep @ part else part) in
      if length candidate \<le> n then group_parts sep n candidate parts
      else (if current \<noteq> [] then [current] else []) @ group_parts sep n part parts)"

text \<open>The loop over the raw chunks, with the recursive call as a parameter.\<close>

fun refine_chunks :: "nat \<Rightarrow> (string \<Rightarrow> string list result) \<Rightarrow> string list \<Rightarrow> string list result" where
  "refine_chunks n f [] = Inr []"
| "refine_chunks n f (rc # rcs) =
     bind_result (if n < length rc then f rc else Inr [rc]) (\<lambda>sub.
     bind_result (refine_chunks n f rcs) (\<lambda>rest. Inr (sub @ rest)))"

text \<open>The separators from \<open>sep_idx\<close> on.\<close>

fun chunk_with_separators :: "nat \<Rightarrow> string list \<Rightarrow> string \<Rightarrow> string list result" where
  "chunk_with_separators n [] s = (if length s \<le> n then Inr [s] else hard_cut n s)"
| "chunk_with_separators n (sep # seps) s =
     (if length s \<le> n then Inr [s]
      else bind_result (split_on sep s) (\<lambda>parts.
        if length parts \<le> 1 then chunk_with_separators n seps s
        else refine_chunks n (chunk_with_separators n seps) (group_parts sep n [] parts)))"

section \<open>Overlap\<close>

definition get_overlap_prefix :: "string \<Rightarrow> nat \<Rightarrow> string" where
  "get_overlap_prefix s overlap =
     (if length s \<le> overlap then s
      else let candidate = drop (length s - overlap) s in
        (case find_sub '' '' candidate of
           Some i \<Rightarrow> if 0 < i \<and> i < length candidate - 1 then drop (i + 1) candidate else candidate
         | None \<Rightarrow> candidate))"

definition overlap_prefix :: "nat \<Rightarrow> nat \<Rightarrow> string \<Rightarrow> string \<Rightarrow> string" where
  "overlap_prefix n overlap prev cur =
     (let pre = get_overlap_prefix prev overlap;
          max_prefix = n - length cur in
      if max_prefix < length pre
      then (if 0 < max_prefix then drop (length pre - max_prefix) pre else [])
      else pre)"

definition with_overlap :: "nat \<Rightarrow> nat \<Rightarrow> string list \<Rightarrow> string list" where
  "with_overlap n overlap chunks =
     (if 0 < overlap \<and> 1 < length chunks
      then hd chunks # map (\<lambda>(prev, cur). overlap_prefix n overlap prev cur @ cur) (zip chunks (tl chunks))
      else chunks)"

definition chunk_text :: "string list \<Rightarrow> string \<Rightarrow> nat \<Rightarrow> nat \<Rightarrow> string list result" where
  "chunk_text seps s chunk_size overlap =
     (if length s \<le> chunk_size then Inr [s]
      else bind_result (chunk_with_separators chunk_size seps s) (\<lambda>chunks.
        Inr (with_overlap chunk_size overlap chunks)))"

section \<open>Chunk records\<close>

record file_meta =
  fm_relative_path :: string
  fm_folder :: string
  fm_title :: string
  fm_modified_at :: string

record chunk =
  ch_note_path :: string
  ch_note_title :: string
  ch_folder :: string
  ch_headers :: string
  ch_tags :: string
  ch_modified_at :: string
  ch_text :: string
  ch_id :: string
  ch_created_at :: string
  ch_updated_at :: string
  ch_description :: string
  ch_status :: string
  ch_note_type :: string
  ch_category :: string
  ch_project :: string
  ch_source :: string

definition field_or_empty :: "(string, string) dict \<Rightarrow> string \<Rightarrow> string" where
  "field_or_empty fm_fields k = (case dget fm_fields k of None \<Rightarrow> [] | Some v \<Rightarrow> v)"

definition make_chunk :: "string \<Rightarrow> string \<Rightarrow> file_meta \<Rightarrow> string \<Rightarrow> (string, string) dict \<Rightarrow> chunk" where
  "make_chunk s headers meta tags fm_fields =
     \<lparr>ch_note_path = fm_relative_path meta, ch_note_title = fm_title meta, ch_folder = fm_folder meta,
      ch_headers = headers, ch_tags = tags, ch_modified_at = fm_modified_at meta, ch_text = s,
      ch_id = field_or_empty fm_fields ''id'', ch_created_at = field_or_empty fm_fields ''created_at'',
      ch_updated_at = field_or_empty fm_fields ''updated_at'',
      ch_description = field_or_empty fm_fields ''description'', ch_status = field_or_empty fm_fields ''status'',
      ch_note_type = field_or_empty fm_fields ''note_type'', ch_category = field_or_empty fm_fields ''category'',
      ch_project = field_or_empty fm_fields ''project'', ch_source = field_or_empty fm_fields ''source''\<rparr>"

record chunking =
  ck_size :: nat
  ck_overlap :: nat
  ck_separators :: "string list"
  ck_header_levels :: nat

definition chunk_and_collect ::
  "chunking \<Rightarrow> string \<Rightarrow> string \<Rightarrow> file_meta \<Rightarrow> chunk list \<Rightarrow> string \<Rightarrow> (string, string) dict \<Rightarrow> chunk list result" where
  "chunk_and_collect K s headers meta chunks tags fm_fields =
     bind_result (chunk_text (ck_separators K) s (ck_size K) (ck_overlap K)) (\<lambda>parts.
     Inr (chunks @ map (\<lambda>p. make_chunk p headers meta tags fm_fields)
       (filter (\<lambda>p. p \<noteq> []) (map strip parts))))"

section \<open>What chunks leave out\<close>

text \<open>\<open>covers S cs s\<close>: the chunks stand in \<open>s\<close> in order, with only separators of \<open>S\<close> between them.\<close>

inductive covers :: "string set \<Rightarrow> string list \<Rightarrow> string \<Rightarrow> bool" for S where
  covers_Nil: "covers S [] []"
| covers_sep: "sep \<in> S \<Longrightarrow> covers S cs s \<Longrightarrow> covers S cs (sep @ s)"
| covers_chunk: "covers S cs s \<Longrightarrow> covers S (c # cs) (c @ s)"

lemma covers_one: "covers S [c] c"
  using covers_chunk [OF covers_Nil, of S c] by simp

lemma covers_append: "covers S cs s \<Longrightarrow> covers S ds t \<Longrightarrow> covers S (cs @ ds) (s @ t)"
  by (induction rule: covers.induct) (auto intro: covers.intros)

lemma covers_mono: "covers S cs s \<Longrightarrow> S \<subseteq> T \<Longrightarrow> covers T cs s"
  by (induction rule: covers.induct) (auto intro: covers.intros)

lemma covers_group:
  "sep \<in> S \<Longrightarrow> covers S (group_parts sep n current parts) (current @ concat (map (\<lambda>p. sep @ p) parts))"
proof (induction parts arbitrary: current)
  case Nil
  show ?case by (auto intro: covers_one covers_Nil)
next
  case (Cons p ps)
  have rest: "covers S (group_parts sep n p ps) (sep @ p @ concat (map (\<lambda>p. sep @ p) ps))"
    by (rule covers_sep [OF Cons.prems]) (rule Cons.IH [OF Cons.prems])
  show ?case
  proof (cases "current = []")
    case True
    with rest show ?thesis by (simp add: Let_def)
  next
    case False
    have "covers S (group_parts sep n (current @ sep @ p) ps) ((current @ sep @ p) @ concat (map (\<lambda>p. sep @ p) ps))"
      by (rule Cons.IH [OF Cons.prems])
    with False rest covers_append [OF covers_one rest, of current] show ?thesis by (simp add: Let_def)
  qed
qed

lemma join_concat: "ps \<noteq> [] \<Longrightarrow> py_join sep ps = hd ps @ concat (map (\<lambda>p. sep @ p) (tl ps))"
  by (induction sep ps rule: py_join.induct) auto

lemma group_first: "group_parts sep n [] (p # ps) = group_parts sep n p ps"
  by (simp add: Let_def)

lemma covers_split:
  assumes "sep \<in> S" shows "covers S (group_parts sep n [] (py_split sep s)) s"
proof -
  obtain p ps where p: "py_split sep s = p # ps" by (metis py_split_not_Nil list.exhaust)
  have "s = p @ concat (map (\<lambda>p. sep @ p) ps)"
    using py_join_split [of sep s] join_concat [of "py_split sep s" sep] p by simp
  with covers_group [OF assms, of n p ps] p show ?thesis by (simp add: group_first)
qed

lemma covers_refine:
  assumes "covers S rcs s" "refine_chunks n f rcs = Inr cs"
    and "\<And>rc ds. f rc = Inr ds \<Longrightarrow> covers S ds rc"
  shows "covers S cs s"
  using assms(1,2)
proof (induction arbitrary: cs rule: covers.induct)
  case (covers_chunk rcs s rc)
  then obtain sub rest where 1: "(if n < length rc then f rc else Inr [rc]) = Inr sub"
    "refine_chunks n f rcs = Inr rest" "cs = sub @ rest"
    by auto
  have "covers S sub rc" using 1(1) assms(3) covers_one by (auto split: if_splits)
  with covers_append covers_chunk.IH [OF 1(2)] 1(3) show ?case by blast
qed (auto intro: covers.intros)

lemma covers_cut: "0 < n \<Longrightarrow> covers S (cut_every n s) s"
proof (induction n s rule: cut_every.induct)
  case (1 n s)
  show ?case
  proof (cases "s = []")
    case False
    then have "covers S (cut_every n (drop n s)) (drop n s)" using 1 by auto
    from covers_chunk [OF this, of "take n s"] show ?thesis using False 1
      by (subst cut_every.simps) simp
  qed (simp add: cut_every.simps covers_Nil)
qed

lemma covers_chunks: "chunk_with_separators n seps s = Inr cs \<Longrightarrow> covers (set seps) cs s"
proof (induction seps arbitrary: s cs)
  case Nil
  then show ?case by (auto simp: hard_cut_def intro: covers_one covers_cut split: if_splits)
next
  case (Cons sep seps)
  show ?case
  proof (cases "length s \<le> n")
    case True
    with Cons.prems show ?thesis by (auto intro: covers_one)
  next
    case False
    with Cons.prems have sep: "sep \<noteq> []" and
      1: "(if length (py_split sep s) \<le> 1 then chunk_with_separators n seps s
        else refine_chunks n (chunk_with_separators n seps) (group_parts sep n [] (py_split sep s))) = Inr cs"
      by (auto simp: split_on_def split: if_splits)
    have IH: "covers (set (sep # seps)) ds t" if "chunk_with_separators n seps t = Inr ds" for ds t
      using covers_mono [OF Cons.IH [OF that]] by auto
    show ?thesis
    proof (cases "length (py_split sep s) \<le> 1")
      case True
      with 1 IH show ?thesis by auto
    next
      case False
      with 1 have "refine_chunks n (chunk_with_separators n seps) (group_parts sep n [] (py_split sep s)) = Inr cs"
        by simp
      from covers_refine [OF covers_split this IH] show ?thesis by simp
    qed
  qed
qed

section \<open>Bounds\<close>

lemma cut_every_bounds: "c \<in> set (cut_every n s) \<Longrightarrow> length c \<le> n \<and> c \<noteq> []"
proof (induction n s rule: cut_every.induct)
  case (1 n s)
  from "1.prems" show ?case
    by (subst (asm) cut_every.simps) (use "1.IH" in \<open>auto split: if_splits\<close>)
qed

lemma refine_bounds:
  "refine_chunks n f rcs = Inr cs \<Longrightarrow> (\<And>rc ds d. f rc = Inr ds \<Longrightarrow> d \<in> set ds \<Longrightarrow> length d \<le> n) \<Longrightarrow>
   c \<in> set cs \<Longrightarrow> length c \<le> n"
proof (induction rcs arbitrary: cs)
  case (Cons rc rcs)
  from Cons.prems(1) obtain sub rest where 1: "(if n < length rc then f rc else Inr [rc]) = Inr sub"
    "refine_chunks n f rcs = Inr rest" "cs = sub @ rest"
    by auto
  from Cons.prems(3) 1(3) consider "c \<in> set sub" | "c \<in> set rest" by auto
  then show ?case
    by cases (use 1(1) Cons.prems(2) Cons.IH [OF 1(2) Cons.prems(2)] in \<open>auto split: if_splits\<close>)
qed auto

lemma chunks_bounds: "chunk_with_separators n seps s = Inr cs \<Longrightarrow> c \<in> set cs \<Longrightarrow> length c \<le> n"
proof (induction seps arbitrary: s cs c)
  case Nil
  then show ?case by (auto simp: hard_cut_def dest: cut_every_bounds split: if_splits)
next
  case (Cons sep seps)
  have "length c \<le> n" if "refine_chunks n (chunk_with_separators n seps) rcs = Inr cs" for rcs
    by (rule refine_bounds [OF that _ Cons.prems(2)]) (rule Cons.IH)
  with Cons show ?case
    by (auto simp: split_on_def split: if_splits)
qed

lemma overlap_prefix_suffix: "suffix (overlap_prefix n k prev cur) prev"
proof -
  have "suffix (get_overlap_prefix prev k) prev"
    by (auto simp: get_overlap_prefix_def Let_def suffix_drop split: option.split)
  then show ?thesis
    by (auto simp: overlap_prefix_def Let_def intro: suffix_order.order_trans [OF suffix_drop])
qed

lemma overlap_prefix_length: "length (overlap_prefix n k prev cur) \<le> min k (n - length cur)"
  by (auto simp: overlap_prefix_def get_overlap_prefix_def Let_def split: option.split)

section \<open>The chunker\<close>

lemma with_overlap_nth:
  assumes "i < length bs"
  shows "\<exists>pre. with_overlap n k bs ! i = pre @ bs ! i \<and> length pre \<le> min k (n - length (bs ! i)) \<and>
    (i = 0 \<longrightarrow> pre = []) \<and> (0 < i \<longrightarrow> suffix pre (bs ! (i - 1)))"
proof (cases "0 < k \<and> 1 < length bs \<and> 0 < i")
  case False
  with assms have "with_overlap n k bs ! i = bs ! i"
    by (auto simp: with_overlap_def hd_conv_nth)
  then show ?thesis by (intro exI [of _ "[]"]) auto
next
  case True
  let ?pre = "overlap_prefix n k (bs ! (i - 1)) (bs ! i)"
  obtain j where j: "i = Suc j" using True by (cases i) auto
  have "zip bs (tl bs) ! j = (bs ! j, bs ! i)" "j < length (zip bs (tl bs))"
    using assms j by (auto simp: nth_tl)
  with True j have "with_overlap n k bs ! i = ?pre @ bs ! i" by (simp add: with_overlap_def)
  with overlap_prefix_length overlap_prefix_suffix True show ?thesis by (intro exI [of _ ?pre]) auto
qed

lemma length_with_overlap [simp]: "length (with_overlap n k bs) = length bs"
  by (auto simp: with_overlap_def)

text \<open>C31. Chunking loses nothing but separators: without the overlaps, the chunks stand in the text in
  order, and what lies between, before and after them are configured separators; the overlap
  put before a chunk, of at most the configured length, is the end of the previous chunk.\<close>

theorem chunk_text_covers:
  assumes "chunk_text seps s n overlap = Inr cs"
  shows "\<exists>bs. covers (set seps) bs s \<and> length bs = length cs \<and>
    (\<forall>i < length cs. \<exists>pre. cs ! i = pre @ bs ! i \<and> length pre \<le> overlap \<and> (i = 0 \<longrightarrow> pre = []) \<and>
       (0 < i \<longrightarrow> suffix pre (bs ! (i - 1))))"
proof (cases "length s \<le> n")
  case True
  with assms have "cs = [s]" by (simp add: chunk_text_def)
  then show ?thesis by (intro exI [of _ "[s]"]) (simp add: covers_one)
next
  case False
  with assms obtain bs where bs: "chunk_with_separators n seps s = Inr bs" "cs = with_overlap n overlap bs"
    by (auto simp: chunk_text_def)
  have "\<exists>pre. cs ! i = pre @ bs ! i \<and> length pre \<le> overlap \<and> (i = 0 \<longrightarrow> pre = []) \<and>
      (0 < i \<longrightarrow> suffix pre (bs ! (i - 1)))" if "i < length cs" for i
    using with_overlap_nth [of i bs n overlap] that bs(2) by auto
  with covers_chunks [OF bs(1)] bs(2) show ?thesis by (intro exI [of _ bs]) simp
qed

theorem chunk_text_covers_witness:
  "chunk_text ['' ''] ''aa bb cc dd'' 6 1 = Inr [''aa bb'', ''bcc dd''] \<and>
   (\<exists>bs. covers {'' ''} bs ''aa bb cc dd'' \<and> length bs = 2 \<and>
      (\<exists>pre. ''bcc dd'' = pre @ bs ! 1 \<and> length pre \<le> 1 \<and> suffix pre (bs ! 0)))"
proof -
  have run: "chunk_text ['' ''] ''aa bb cc dd'' 6 1 = Inr [''aa bb'', ''bcc dd'']" by code_simp
  from chunk_text_covers [OF run] obtain bs where bs: "covers {'' ''} bs ''aa bb cc dd''" "length bs = 2"
    "\<exists>pre. [''aa bb'', ''bcc dd''] ! 1 = pre @ bs ! 1 \<and> length pre \<le> 1 \<and> suffix pre (bs ! 0)"
    by fastforce
  with run show ?thesis by auto
qed

lemma refine_total: "(\<And>rc. \<exists>ds. f rc = Inr ds) \<Longrightarrow> \<exists>cs. refine_chunks n f rcs = Inr cs"
proof (induction rcs)
  case (Cons rc rcs)
  then obtain ds rest where "f rc = Inr ds" "refine_chunks n f rcs = Inr rest" by metis
  then show ?case by simp
qed simp

lemma chunks_total: "0 < n \<Longrightarrow> [] \<notin> set seps \<Longrightarrow> \<exists>cs. chunk_with_separators n seps s = Inr cs"
proof (induction seps arbitrary: s)
  case Nil
  then show ?case by (simp add: hard_cut_def)
next
  case (Cons sep seps)
  have IH: "\<exists>cs. chunk_with_separators n seps t = Inr cs" for t using Cons by simp
  from Cons.prems IH [of s] refine_total [OF IH] show ?case by (auto simp: split_on_def)
qed



end
