(* ===== verification/Links.thy ===== *)
theory Links
  imports Vault_World
begin

text \<open>
  \<open>utils/links.py\<close>: the links of a note's text.  Each regular expression is a matcher for one
  position, given the character before it for the look-behinds; \<open>scan\<close> is \<open>finditer\<close>.  The classes
  of the expressions exclude their own closing character, so greedy matching needs no backtracking.
\<close>

section \<open>Scanning\<close>

text \<open>A matcher returns a match and its length, which is positive.\<close>

type_synonym 'm matcher = "char option \<Rightarrow> string \<Rightarrow> ('m \<times> nat) option"

function scan :: "'m matcher \<Rightarrow> char option \<Rightarrow> string \<Rightarrow> 'm list" where
  "scan m prev [] = []"
| "scan m prev (c # cs) =
     (case m prev (c # cs) of
        None \<Rightarrow> scan m (Some c) cs
      | Some (x, n) \<Rightarrow> x # scan m (Some (last (c # take (n - 1) cs))) (drop (n - 1) cs))"
  by pat_completeness auto
termination by (relation "measure (\<lambda>(m, prev, s). length s)") auto

text \<open>An opening, a run of characters other than \<open>stop\<close>, and a closing.\<close>

definition delimited :: "string \<Rightarrow> char \<Rightarrow> string \<Rightarrow> string \<Rightarrow> string option" where
  "delimited opening stop closing s =
     (let inner = takeWhile (\<lambda>c. c \<noteq> stop) (drop (length opening) s) in
      if prefix opening s \<and> inner \<noteq> [] \<and> prefix closing (drop (length opening + length inner) s)
      then Some inner else None)"

definition wikilink_match :: "(string \<times> string) matcher" where
  "wikilink_match prev s =
     (if prev = Some CHR ''!'' then None
      else map_option (\<lambda>inner. ((''[['' @ inner @ '']]'', inner), length inner + 4))
        (delimited ''[['' CHR '']'' '']]'' s))"

definition embed_match :: "(string \<times> string) matcher" where
  "embed_match prev s =
     map_option (\<lambda>inner. ((''![['' @ inner @ '']]'', inner), length inner + 5))
       (delimited ''![['' CHR '']'' '']]'' s)"

text \<open>\<open>[text](href)\<close>.\<close>

definition md_link_match :: "(string \<times> string \<times> string) matcher" where
  "md_link_match prev s =
     (case delimited ''['' CHR '']'' ''](''  s of
        None \<Rightarrow> None
      | Some label \<Rightarrow>
          map_option (\<lambda>href. ((''['' @ label @ ''](''  @ href @ '')'', label, href), length label + length href + 4))
            (delimited [] CHR '')'' '')'' (drop (length label + 3) s)))"

definition url_char :: "char \<Rightarrow> bool" where
  "url_char c \<longleftrightarrow> \<not> is_space c \<and> c \<notin> {CHR '')'', CHR ''>'', CHR '']'', CHR 0x22, CHR 0x27}"

definition url_match :: "string matcher" where
  "url_match prev s =
     (if prev = Some CHR ''('' \<or> prev = Some CHR ''['' then None
      else let scheme = (if prefix ''https://'' s then ''https://'' else ''http://'');
               rest = takeWhile url_char (drop (length scheme) s) in
        if prefix scheme s \<and> rest \<noteq> [] then Some (scheme @ rest, length scheme + length rest) else None)"

section \<open>Parsing\<close>

record wikilink =
  wl_target :: string
  wl_alias :: "string option"
  wl_heading :: "string option"
  wl_block :: "string option"

definition strip_or_none :: "string \<Rightarrow> string option" where
  "strip_or_none s = (if strip s \<noteq> [] then Some (strip s) else None)"

text \<open>\<open>s.split(c, 1)\<close> when \<open>c in s\<close>: the part before, and the stripped part after.\<close>

definition cut_at :: "char \<Rightarrow> string \<Rightarrow> string \<times> string option" where
  "cut_at c s = (if c \<in> set s then (before_char c s, strip_or_none (after_char c s)) else (s, None))"

definition parse_wikilink_parts :: "string \<Rightarrow> wikilink" where
  "parse_wikilink_parts w =
     (case cut_at CHR ''|'' w of (working, alias) \<Rightarrow>
      case cut_at CHR ''^'' working of (working, block) \<Rightarrow>
      case cut_at CHR ''#'' working of (working, heading) \<Rightarrow>
      \<lparr>wl_target = (if strip working \<noteq> [] then strip working else w),
       wl_alias = alias, wl_heading = heading, wl_block = block\<rparr>)"

definition link_extensions :: "string list" where
  "link_extensions = [''.md'', ''.canvas'', ''.pdf'', ''.png'', ''.jpg'', ''.jpeg'', ''.gif'', ''.svg'', ''.webp'']"

definition normalize_link_target :: "string \<Rightarrow> string" where
  "normalize_link_target target =
     (let n = strip (py_lower target);
          n = (case find (ends_with n) link_extensions of
                 Some ext \<Rightarrow> take (length n - length ext) n | None \<Rightarrow> n) in
      map (\<lambda>c. if c = CHR '' '' then CHR ''-'' else c) n)"

definition extract_link_context :: "string \<Rightarrow> string \<Rightarrow> nat \<Rightarrow> string" where
  "extract_link_context content link_text window =
     (case find_sub link_text content of
        None \<Rightarrow> []
      | Some i \<Rightarrow>
          let start = i - window;
              stop = min (length content) (i + length link_text + window);
              context = strip (take (stop - start) (drop start content));
              context = (if 0 < start then ''...'' @ context else context);
              context = (if stop < length content then context @ ''...'' else context) in
          py_join '' '' (py_words context))"

definition matches_note :: "string \<Rightarrow> string \<Rightarrow> bool" where
  "matches_note link_target note_path =
     (let note_stem = normalize_link_target (path_stem (pp_parts (pure_path note_path)));
          note_path_normalized = normalize_link_target note_path;
          target = normalize_link_target link_target in
      target = note_stem \<or> target = note_path_normalized \<or>
      ends_with note_path_normalized (''/'' @ target) \<or>
      ends_with note_path_normalized (''/'' @ filter (\<lambda>c. c \<noteq> CHR ''-'') target))"

section \<open>Extraction\<close>

text \<open>Keep an item when its key is not empty and was not seen before.\<close>

fun keep_new :: "('a \<Rightarrow> string) \<Rightarrow> string list \<Rightarrow> 'a list \<Rightarrow> 'a list" where
  "keep_new key seen [] = []"
| "keep_new key seen (x # xs) =
     (if key x \<noteq> [] \<and> key x \<notin> set seen then x # keep_new key (key x # seen) xs
      else keep_new key seen xs)"

definition wikilinks :: "string \<Rightarrow> (string \<times> wikilink) list" where
  "wikilinks text = keep_new (\<lambda>x. py_lower (wl_target (snd x))) []
     (map (\<lambda>(raw, inner). (raw, parse_wikilink_parts inner)) (scan wikilink_match None text))"

definition embeds :: "string \<Rightarrow> (string \<times> string) list" where
  "embeds text = keep_new (\<lambda>x. py_lower (snd x)) []
     (map (\<lambda>(raw, inner). (raw, strip (hd (py_split ''|'' inner)))) (scan embed_match None text))"

record md_links =
  ml_internal :: "(string \<times> string \<times> string) list"
  ml_external :: "(string \<times> string \<times> string option) list"
  ml_seen :: "string list"

definition is_external :: "string \<Rightarrow> bool" where
  "is_external href \<longleftrightarrow>
     (\<exists>p \<in> set [''http://'', ''https://'', ''mailto:'', ''tel:'', ''ftp://'']. starts_with href p)"

definition md_link_step :: "bool \<Rightarrow> string \<times> string \<times> string \<Rightarrow> md_links \<Rightarrow> md_links" where
  "md_link_step include_external link L =
     (case link of (raw, label, href0) \<Rightarrow>
      let href = strip href0 in
      if is_external href
      then (if include_external \<and> href \<notin> set (ml_seen L)
            then L\<lparr>ml_seen := href # ml_seen L, ml_external := ml_external L @ [(raw, href, Some label)]\<rparr>
            else L)
      else let target = strip (hd (py_split ''#'' href)) in
        if target \<noteq> [] \<and> py_lower target \<notin> set (ml_seen L)
        then L\<lparr>ml_seen := py_lower target # ml_seen L, ml_internal := ml_internal L @ [(raw, label, target)]\<rparr>
        else L)"

definition url_step :: "string \<Rightarrow> md_links \<Rightarrow> md_links" where
  "url_step url L = (if url \<in> set (ml_seen L) then L
     else L\<lparr>ml_seen := url # ml_seen L, ml_external := ml_external L @ [(url, url, None)]\<rparr>)"

definition md_links_of :: "string \<Rightarrow> bool \<Rightarrow> md_links" where
  "md_links_of text include_external =
     (let L = fold (md_link_step include_external) (scan md_link_match None text)
                \<lparr>ml_internal = [], ml_external = [], ml_seen = []\<rparr> in
      if include_external then fold url_step (scan url_match None text) L else L)"

record all_links =
  al_wikilinks :: "(string \<times> wikilink) list"
  al_markdown :: "(string \<times> string \<times> string) list"
  al_embeds :: "(string \<times> string) list"
  al_external :: "(string \<times> string \<times> string option) list"

definition extract_all_links :: "string \<Rightarrow> bool \<Rightarrow> all_links" where
  "extract_all_links text include_external =
     \<lparr>al_wikilinks = wikilinks text, al_markdown = ml_internal (md_links_of text include_external),
      al_embeds = embeds text, al_external = ml_external (md_links_of text include_external)\<rparr>"

section \<open>Round trip of a wikilink\<close>

text \<open>How a wikilink with these parts is written.\<close>

definition opt_part :: "char \<Rightarrow> string option \<Rightarrow> string" where
  "opt_part c p = (case p of None \<Rightarrow> [] | Some s \<Rightarrow> c # s)"

definition print_wikilink :: "wikilink \<Rightarrow> string" where
  "print_wikilink w = wl_target w @ opt_part CHR ''#'' (wl_heading w) @ opt_part CHR ''^'' (wl_block w) @
     opt_part CHR ''|'' (wl_alias w)"

definition clean_part :: "string \<Rightarrow> string \<Rightarrow> bool" where
  "clean_part bad s \<longleftrightarrow> s \<noteq> [] \<and> strip s = s \<and> (\<forall>c \<in> set bad. c \<notin> set s)"

definition clean_wikilink :: "wikilink \<Rightarrow> bool" where
  "clean_wikilink w \<longleftrightarrow> clean_part ''|^#'' (wl_target w) \<and>
     (case wl_heading w of None \<Rightarrow> True | Some h \<Rightarrow> clean_part ''|^'' h) \<and>
     (case wl_block w of None \<Rightarrow> True | Some b \<Rightarrow> clean_part ''|'' b) \<and>
     (case wl_alias w of None \<Rightarrow> True | Some a \<Rightarrow> clean_part [] a)"

lemma cut_at_part:
  assumes "c \<notin> set s" "case p of None \<Rightarrow> True | Some t \<Rightarrow> t \<noteq> [] \<and> strip t = t"
  shows "cut_at c (s @ opt_part c p) = (s, p)"
proof (cases p)
  case None
  with assms(1) show ?thesis by (simp add: cut_at_def opt_part_def)
next
  case (Some t)
  have "takeWhile (\<lambda>x. x \<noteq> c) (s @ c # t) = s" "dropWhile (\<lambda>x. x \<noteq> c) (s @ c # t) = c # t"
    using assms(1) by (auto simp: takeWhile_append dropWhile_append)
  with Some assms(2) show ?thesis
    by (simp add: cut_at_def opt_part_def strip_or_none_def before_char_def after_char_def)
qed

text \<open>A wikilink written from its parts is read back as these parts: target, heading, block
  reference and alias, each present or not.\<close>

theorem parse_wikilink_roundtrip:
  assumes "clean_wikilink w" shows "parse_wikilink_parts (print_wikilink w) = w"
proof -
  obtain t a h b where w: "w = \<lparr>wl_target = t, wl_alias = a, wl_heading = h, wl_block = b\<rparr>" by (cases w)
  let ?h = "opt_part CHR ''#'' h" and ?b = "opt_part CHR ''^'' b" and ?a = "opt_part CHR ''|'' a"
  from assms w have clean: "clean_part ''|^#'' t" "case h of None \<Rightarrow> True | Some h \<Rightarrow> clean_part ''|^'' h"
    "case b of None \<Rightarrow> True | Some b \<Rightarrow> clean_part ''|'' b" "case a of None \<Rightarrow> True | Some a \<Rightarrow> clean_part [] a"
    by (simp_all add: clean_wikilink_def)
  have "cut_at CHR ''|'' ((t @ ?h @ ?b) @ ?a) = (t @ ?h @ ?b, a)"
    using clean by (intro cut_at_part) (auto simp: clean_part_def opt_part_def split: option.splits)
  moreover have "cut_at CHR ''^'' ((t @ ?h) @ ?b) = (t @ ?h, b)"
    using clean by (intro cut_at_part) (auto simp: clean_part_def opt_part_def split: option.splits)
  moreover have "cut_at CHR ''#'' (t @ ?h) = (t, h)"
    using clean by (intro cut_at_part) (auto simp: clean_part_def split: option.splits)
  ultimately show ?thesis
    using clean(1) by (simp add: parse_wikilink_parts_def print_wikilink_def w clean_part_def)
qed

theorem parse_wikilink_roundtrip_witness:
  "parse_wikilink_parts ''Note#Head^blk|the alias'' = \<lparr>wl_target = ''Note'', wl_alias = Some ''the alias'',
     wl_heading = Some ''Head'', wl_block = Some ''blk''\<rparr>"
proof -
  let ?w = "\<lparr>wl_target = ''Note'', wl_alias = Some ''the alias'',
     wl_heading = Some ''Head'', wl_block = Some ''blk''\<rparr>"
  have "clean_wikilink ?w" "print_wikilink ?w = ''Note#Head^blk|the alias''" by code_simp+
  with parse_wikilink_roundtrip [of ?w] show ?thesis by simp
qed

section \<open>What is extracted\<close>

text \<open>A match stands in the text, and the character before it is the one the matcher saw.\<close>

definition char_before :: "char option \<Rightarrow> string \<Rightarrow> char option" where
  "char_before prev u = (if u = [] then prev else Some (last u))"

lemma scan_sound:
  "x \<in> set (scan m prev s) \<Longrightarrow> \<exists>u v n. s = u @ v \<and> m (char_before prev u) v = Some (x, n)"
proof (induction m prev s rule: scan.induct)
  case (2 m prev c cs)
  show ?case
  proof (cases "m prev (c # cs)")
    case None
    with 2 obtain u v n where uv: "cs = u @ v" "m (char_before (Some c) u) v = Some (x, n)" by auto
    have "char_before prev (c # u) = char_before (Some c) u" by (auto simp: char_before_def)
    with uv show ?thesis by (intro exI [of _ "c # u"] exI [of _ v] exI [of _ n]) simp
  next
    case (Some y)
    obtain z k where y: "y = (z, k)" by (cases y)
    let ?hd = "c # take (k - 1) cs"
    from 2(3) Some y consider "x = z" | "x \<in> set (scan m (Some (last ?hd)) (drop (k - 1) cs))"
      by auto
    then show ?thesis
    proof cases
      case 1
      with Some y show ?thesis
        by (intro exI [of _ "[]"] exI [of _ "c # cs"] exI [of _ k]) (simp add: char_before_def)
    next
      case 2
      with "2.IH"(2) [OF Some y [symmetric]] obtain u v n where
        uv: "drop (k - 1) cs = u @ v" "m (char_before (Some (last ?hd)) u) v = Some (x, n)" by auto
      have "char_before prev (?hd @ u) = char_before (Some (last ?hd)) u" by (simp add: char_before_def)
      moreover have "c # cs = (?hd @ u) @ v" using uv(1) append_take_drop_id [of "k - 1" cs] by simp
      ultimately show ?thesis using uv(2) by metis
    qed
  qed
qed simp

lemma delimited_sound:
  "delimited opening stop closing s = Some inner \<Longrightarrow>
   \<exists>rest. s = opening @ inner @ closing @ rest \<and> inner \<noteq> [] \<and> stop \<notin> set inner"
proof -
  assume d: "delimited opening stop closing s = Some inner"
  then have 1: "inner = takeWhile (\<lambda>c. c \<noteq> stop) (drop (length opening) s)" "prefix opening s" "inner \<noteq> []"
    "prefix closing (drop (length opening + length inner) s)"
    by (auto simp: delimited_def Let_def split: if_splits)
  then obtain u rest where "s = opening @ u" "drop (length opening + length inner) s = closing @ rest"
    by (auto simp: prefix_def)
  moreover have "u = inner @ drop (length inner) u"
    using 1(1) \<open>s = opening @ u\<close> by (metis append_eq_conv_conj takeWhile_dropWhile_id)
  ultimately have "s = opening @ inner @ closing @ rest" by simp
  moreover have "stop \<notin> set inner" using 1(1) by (auto dest: set_takeWhileD)
  ultimately show ?thesis using 1(3) by blast
qed

lemma keep_new_subset: "set (keep_new key seen xs) \<subseteq> set xs"
  by (induction key seen xs rule: keep_new.induct) auto

lemma keep_new_keys:
  "distinct (map key (keep_new key seen xs)) \<and>
   key ` set (keep_new key seen xs) = key ` set xs - set seen - {[]}"
  by (induction key seen xs rule: keep_new.induct) auto

lemma wikilinks_in_text:
  assumes "(raw, w) \<in> set (wikilinks text)"
  shows "\<exists>u inner v. text = u @ raw @ v \<and> raw = ''[['' @ inner @ '']]'' \<and> CHR '']'' \<notin> set inner \<and>
    w = parse_wikilink_parts inner \<and> (u = [] \<or> last u \<noteq> CHR ''!'')"
proof -
  from assms keep_new_subset obtain inner where "(raw, inner) \<in> set (scan wikilink_match None text)"
    and w: "w = parse_wikilink_parts inner" unfolding wikilinks_def by fastforce
  from scan_sound [OF this(1)] obtain u v n where u: "text = u @ v"
    and m: "wikilink_match (char_before None u) v = Some ((raw, inner), n)" by blast
  then have "delimited ''[['' CHR '']'' '']]'' v = Some inner" "raw = ''[['' @ inner @ '']]''"
    "char_before None u \<noteq> Some CHR ''!''" by (auto simp: wikilink_match_def split: if_splits)
  with delimited_sound [OF this(1)] u w show ?thesis by (fastforce simp: char_before_def split: if_splits)
qed

lemma embeds_in_text:
  assumes "(raw, t) \<in> set (embeds text)"
  shows "\<exists>u inner v. text = u @ raw @ v \<and> raw = ''![['' @ inner @ '']]'' \<and> t = strip (hd (py_split ''|'' inner))"
proof -
  from assms keep_new_subset obtain inner where "(raw, inner) \<in> set (scan embed_match None text)"
    and t: "t = strip (hd (py_split ''|'' inner))" unfolding embeds_def by fastforce
  from scan_sound [OF this(1)] obtain u v n where u: "text = u @ v"
    and m: "embed_match (char_before None u) v = Some ((raw, inner), n)" by blast
  then have "delimited ''![['' CHR '']'' '']]'' v = Some inner" "raw = ''![['' @ inner @ '']]''"
    by (auto simp: embed_match_def)
  with delimited_sound [OF this(1)] u t show ?thesis by fastforce
qed

lemma md_match_sound:
  assumes "md_link_match prev v = Some ((raw, label, href), n)" shows "prefix raw v"
proof -
  from assms have 1: "delimited ''['' CHR '']'' ''](''  v = Some label"
    and 2: "delimited [] CHR '')'' '')'' (drop (length label + 3) v) = Some href"
    and raw: "raw = ''['' @ label @ ''](''  @ href @ '')''"
    by (auto simp: md_link_match_def split: option.splits)
  from delimited_sound [OF 1] obtain rest where v: "v = ''['' @ label @ ''](''  @ rest" by blast
  then have "drop (length label + 3) v = rest" by (simp add: numeral_eq_Suc)
  with delimited_sound [OF 2] v raw show ?thesis by (auto simp: prefix_def)
qed

lemma url_match_sound: "url_match prev v = Some (url, n) \<Longrightarrow> prefix url v"
  by (auto simp: url_match_def Let_def prefix_def split: if_splits)
     (metis append_assoc append_eq_conv_conj takeWhile_dropWhile_id)+

lemma scan_md_in_text:
  assumes "(raw, label, href) \<in> set (scan md_link_match None text)" shows "sublist raw text"
proof -
  from scan_sound [OF assms] obtain u v n where "text = u @ v" "md_link_match (char_before None u) v = Some ((raw, label, href), n)"
    by blast
  with md_match_sound show ?thesis by (metis prefix_def sublist_def)
qed

lemma scan_url_in_text:
  assumes "url \<in> set (scan url_match None text)" shows "sublist url text"
proof -
  from scan_sound [OF assms] obtain u v n where "text = u @ v" "url_match (char_before None u) v = Some (url, n)"
    by blast
  with url_match_sound show ?thesis by (metis prefix_def sublist_def)
qed

text \<open>The invariant of the loops over Markdown links and bare addresses.\<close>

definition md_ok :: "string \<Rightarrow> md_links \<Rightarrow> bool" where
  "md_ok text L \<longleftrightarrow>
     distinct (map (\<lambda>x. py_lower (snd (snd x))) (ml_internal L)) \<and>
     distinct (map (\<lambda>x. fst (snd x)) (ml_external L)) \<and>
     (\<forall>x \<in> set (ml_internal L). sublist (fst x) text \<and> py_lower (snd (snd x)) \<in> set (ml_seen L) \<and>
        snd (snd x) \<noteq> [] \<and> CHR ''#'' \<notin> set (snd (snd x))) \<and>
     (\<forall>x \<in> set (ml_external L). sublist (fst x) text \<and> fst (snd x) \<in> set (ml_seen L))"

lemma hd_split_absent: "c \<notin> set (hd (py_split [c] s))"
proof (cases "find_sub [c] s")
  case None
  then have "\<not> sublist [c] s" by (simp add: find_sub_None_iff)
  then have "c \<notin> set s" by (metis sublist_def split_list append_Cons append_Nil)
  with None show ?thesis by (subst py_split.simps) simp
next
  case (Some i)
  have "c \<notin> set (take i s)" using Some
  proof (induction s arbitrary: i)
    case (Cons d s)
    then show ?case by (cases i) (auto split: if_splits)
  qed simp
  with Some show ?thesis by (subst py_split.simps) simp
qed

lemma md_ok_step:
  assumes "md_ok text L" "sublist (fst link) text" shows "md_ok text (md_link_step ext link L)"
proof -
  obtain raw label href0 where link: "link = (raw, label, href0)" by (cases link)
  have "CHR ''#'' \<notin> set (strip (hd (py_split ''#'' (strip href0))))"
    using set_strip hd_split_absent by blast
  with assms show ?thesis
    unfolding md_ok_def md_link_step_def link Let_def by auto
qed

lemma md_ok_url: "md_ok text L \<Longrightarrow> sublist url text \<Longrightarrow> md_ok text (url_step url L)"
  unfolding md_ok_def url_step_def by auto

lemma fold_keeps: "P s \<Longrightarrow> (\<And>x s. x \<in> set xs \<Longrightarrow> P s \<Longrightarrow> P (f x s)) \<Longrightarrow> P (fold f xs s)"
  by (induction xs arbitrary: s) auto

lemma md_links_ok: "md_ok text (md_links_of text ext)"
proof -
  have "md_ok text (fold (md_link_step ext) (scan md_link_match None text)
      \<lparr>ml_internal = [], ml_external = [], ml_seen = []\<rparr>)"
    by (rule fold_keeps)
       (use scan_md_in_text in \<open>auto simp: md_ok_def [of text "\<lparr>ml_internal = [], ml_external = [], ml_seen = []\<rparr>"]
          intro!: md_ok_step\<close>)
  then have "md_ok text (fold url_step (scan url_match None text) (fold (md_link_step ext) (scan md_link_match None text)
      \<lparr>ml_internal = [], ml_external = [], ml_seen = []\<rparr>))"
    by (rule fold_keeps) (use scan_url_in_text md_ok_url in blast)
  with \<open>md_ok text (fold (md_link_step ext) _ _)\<close> show ?thesis
    by (cases ext) (simp_all add: md_links_of_def Let_def)
qed

text \<open>Everything extracted stands in the text, an embed is never taken for a wikilink, and no target
  is reported twice: wikilink, embed and internal Markdown targets are distinct up to case, external
  addresses are distinct, and every wikilink of the text has an entry with its target.\<close>

theorem extract_all_links_sound:
  "let r = extract_all_links text ext in
     (\<forall>(raw, w) \<in> set (al_wikilinks r). \<exists>u inner v. text = u @ raw @ v \<and> raw = ''[['' @ inner @ '']]'' \<and>
        CHR '']'' \<notin> set inner \<and> w = parse_wikilink_parts inner \<and> (u = [] \<or> last u \<noteq> CHR ''!'')) \<and>
     (\<forall>(raw, t) \<in> set (al_embeds r). \<exists>u inner v. text = u @ raw @ v \<and> raw = ''![['' @ inner @ '']]'' \<and>
        t = strip (hd (py_split ''|'' inner))) \<and>
     (\<forall>(raw, label, t) \<in> set (al_markdown r). sublist raw text \<and> t \<noteq> [] \<and> CHR ''#'' \<notin> set t) \<and>
     (\<forall>(raw, url, label) \<in> set (al_external r). sublist raw text) \<and>
     distinct (map (\<lambda>x. py_lower (wl_target (snd x))) (al_wikilinks r)) \<and>
     distinct (map (\<lambda>x. py_lower (snd x)) (al_embeds r)) \<and>
     distinct (map (\<lambda>x. py_lower (snd (snd x))) (al_markdown r)) \<and>
     distinct (map (\<lambda>x. fst (snd x)) (al_external r)) \<and>
     (\<forall>(raw, inner) \<in> set (scan wikilink_match None text). \<exists>x \<in> set (al_wikilinks r).
        py_lower (wl_target (snd x)) = py_lower (wl_target (parse_wikilink_parts inner)))"
proof -
  let ?key = "\<lambda>x. py_lower (wl_target (snd x))"
  let ?found = "map (\<lambda>(raw, inner). (raw, parse_wikilink_parts inner)) (scan wikilink_match None text)"
  have all: "\<exists>x \<in> set (wikilinks text). ?key x = py_lower (wl_target (parse_wikilink_parts inner))"
    if found: "(raw, inner) \<in> set (scan wikilink_match None text)" for raw inner
  proof -
    from scan_sound [OF found] obtain v where "delimited ''[['' CHR '']'' '']]'' v = Some inner"
      by (auto simp: wikilink_match_def split: if_splits)
    from delimited_sound [OF this] have "inner \<noteq> []" by blast
    then have "wl_target (parse_wikilink_parts inner) \<noteq> []"
      by (auto simp: parse_wikilink_parts_def split: prod.split)
    then have "?key (raw, parse_wikilink_parts inner) \<in> ?key ` set ?found - set [] - {[]}"
      using found by (force simp: py_lower_def)
    then have "?key (raw, parse_wikilink_parts inner) \<in> ?key ` set (wikilinks text)"
      unfolding wikilinks_def using keep_new_keys by metis
    then obtain x where "x \<in> set (wikilinks text)" "?key (raw, parse_wikilink_parts inner) = ?key x" by blast
    then show ?thesis by (intro bexI [of _ x]) simp_all
  qed
  have "md_ok text (md_links_of text ext)" by (rule md_links_ok)
  then have "\<forall>(raw, label, t) \<in> set (ml_internal (md_links_of text ext)). sublist raw text \<and> t \<noteq> [] \<and> CHR ''#'' \<notin> set t"
    "\<forall>(raw, url, label) \<in> set (ml_external (md_links_of text ext)). sublist raw text"
    "distinct (map (\<lambda>x. py_lower (snd (snd x))) (ml_internal (md_links_of text ext)))"
    "distinct (map (\<lambda>x. fst (snd x)) (ml_external (md_links_of text ext)))"
    unfolding md_ok_def by fastforce+
  moreover have "distinct (map ?key (wikilinks text))" "distinct (map (\<lambda>x. py_lower (snd x)) (embeds text))"
    unfolding wikilinks_def embeds_def using keep_new_keys by blast+
  moreover have "\<forall>(raw, w) \<in> set (wikilinks text). \<exists>u inner v. text = u @ raw @ v \<and> raw = ''[['' @ inner @ '']]'' \<and>
        CHR '']'' \<notin> set inner \<and> w = parse_wikilink_parts inner \<and> (u = [] \<or> last u \<noteq> CHR ''!'')"
    using wikilinks_in_text by blast
  moreover have "\<forall>(raw, t) \<in> set (embeds text). \<exists>u inner v. text = u @ raw @ v \<and> raw = ''![['' @ inner @ '']]'' \<and>
        t = strip (hd (py_split ''|'' inner))"
    using embeds_in_text by blast
  moreover have "\<forall>(raw, inner) \<in> set (scan wikilink_match None text). \<exists>x \<in> set (wikilinks text).
        py_lower (wl_target (snd x)) = py_lower (wl_target (parse_wikilink_parts inner))"
    using all by blast
  ultimately show ?thesis
    unfolding extract_all_links_def Let_def all_links.simps by (intro conjI)
qed

theorem extract_all_links_sound_witness:
  "let r = extract_all_links ''[[a]] ![[b]] [[A|x]] [t](c#d)'' True in
     map (\<lambda>x. wl_target (snd x)) (al_wikilinks r) = [''a''] \<and> map snd (al_embeds r) = [''b''] \<and>
     map (\<lambda>x. snd (snd x)) (al_markdown r) = [''c''] \<and> distinct (map (\<lambda>x. fst (snd x)) (al_external r))"
proof -
  have "let r = extract_all_links ''[[a]] ![[b]] [[A|x]] [t](c#d)'' True in
     map (\<lambda>x. wl_target (snd x)) (al_wikilinks r) = [''a''] \<and> map snd (al_embeds r) = [''b''] \<and>
     map (\<lambda>x. snd (snd x)) (al_markdown r) = [''c'']" by code_simp
  with extract_all_links_sound [of "''[[a]] ![[b]] [[A|x]] [t](c#d)''" True] show ?thesis by (simp add: Let_def)
qed

end
