(* ===== verification/Markdown_Parser.thy ===== *)
theory Markdown_Parser
  imports Chunker Links Note_Parser Crud_Validation
begin

text \<open>
  \<open>parsers/markdown.py\<close>, \<open>parsers/canvas.py\<close> and \<open>utils/metadata.py\<close>: a note's text as sections, chunks,
  links and aliases, and a canvas as chunks.  The heading expression
  \<open>^(#{1,n})\s+(.+)$\<close> is a matcher for the start of a line; its white space may run over line ends,
  and gives characters back when nothing else is left for the title.
\<close>

section \<open>Sections\<close>

definition rest_of_line :: "string \<Rightarrow> string" where
  "rest_of_line s = takeWhile (\<lambda>c. c \<noteq> nl) s"

text \<open>The level, the title and the length of the match.\<close>

definition header_match :: "nat \<Rightarrow> string \<Rightarrow> (nat \<times> string \<times> nat) option" where
  "header_match levels s =
     (let level = length (takeWhile (\<lambda>c. c = CHR ''#'') s);
          rest = drop level s;
          spaces = length (takeWhile is_space rest) in
      if level = 0 \<or> levels < level then None
      else case find (\<lambda>j. rest_of_line (drop j rest) \<noteq> []) (rev [1..<Suc spaces]) of
          None \<Rightarrow> None
        | Some j \<Rightarrow> let title = rest_of_line (drop j rest) in
            Some (level, strip title, level + j + length title))"

text \<open>\<open>finditer\<close>: the start, level and title of each heading.\<close>

function header_spans :: "nat \<Rightarrow> nat \<Rightarrow> bool \<Rightarrow> string \<Rightarrow> (nat \<times> nat \<times> string) list" where
  "header_spans levels pos bol [] = []"
| "header_spans levels pos bol (c # cs) =
     (case (if bol then header_match levels (c # cs) else None) of
        None \<Rightarrow> header_spans levels (Suc pos) (c = nl) cs
      | Some (level, title, n) \<Rightarrow>
          (pos, level, title) # header_spans levels (pos + Suc (n - 1)) False (drop (n - 1) cs))"
  by pat_completeness auto
termination by (relation "measure (\<lambda>(levels, pos, bol, s). length s)") auto

type_synonym section_text = "string list \<times> string"

definition headers_list :: "(nat, string) dict \<Rightarrow> string list" where
  "headers_list d = map (\<lambda>k. the (dget d k)) (sort (dkeys d))"

definition enter_header :: "nat \<Rightarrow> string \<Rightarrow> (nat, string) dict \<Rightarrow> (nat, string) dict" where
  "enter_header level title d = filter (\<lambda>i. fst i \<le> level) (dset level title d)"

definition add_section :: "(nat, string) dict \<Rightarrow> string \<Rightarrow> section_text list \<Rightarrow> section_text list" where
  "add_section d s secs = (if strip s \<noteq> [] then secs @ [(headers_list d, strip s)] else secs)"

definition header_step ::
  "string \<Rightarrow> nat \<times> nat \<times> string \<Rightarrow> section_text list \<times> (nat, string) dict \<times> nat
    \<Rightarrow> section_text list \<times> (nat, string) dict \<times> nat" where
  "header_step body h st =
     (case h of (start, level, title) \<Rightarrow> case st of (secs, current, last_end) \<Rightarrow>
      (if last_end < start then add_section current (take (start - last_end) (drop last_end body)) secs else secs,
       enter_header level title current, start))"

definition split_by_headers :: "nat \<Rightarrow> string \<Rightarrow> section_text list" where
  "split_by_headers levels body =
     (case fold (header_step body) (header_spans levels 0 True body) ([], [], 0) of
        (secs, current, last_end) \<Rightarrow>
          let secs = add_section current (drop last_end body) secs in
          if secs = [] \<and> strip body \<noteq> [] then [([], strip body)] else secs)"

section \<open>Aliases and the title\<close>

fun str_each :: "pylib \<Rightarrow> pyval list \<Rightarrow> string list result" where
  "str_each L [] = Inr []"
| "str_each L (v # vs) = (if truthy v
     then bind_result (py_str L v) (\<lambda>s. bind_result (str_each L vs) (\<lambda>ss. Inr (s # ss)))
     else str_each L vs)"

definition extract_aliases :: "pylib \<Rightarrow> frontmatter \<Rightarrow> string list result" where
  "extract_aliases L fm =
     bind_result (case dget fm (PStr ''aliases'') of
         Some (PStr s) \<Rightarrow> Inr (filter (\<lambda>a. a \<noteq> []) (map strip (py_split '','' s)))
       | Some (PList vs) \<Rightarrow> str_each L vs
       | _ \<Rightarrow> Inr []) (\<lambda>aliases.
     bind_result (case dget fm (PStr ''alias'') of
         Some (PStr s) \<Rightarrow> Inr (if s = [] then [] else [s])
       | Some (PList vs) \<Rightarrow> str_each L vs
       | _ \<Rightarrow> Inr []) (\<lambda>more.
     Inr (aliases @ more)))"

text \<open>An empty list is not a missing title: \<open>str([])\<close> is taken.\<close>

definition note_title :: "pylib \<Rightarrow> frontmatter \<Rightarrow> string \<Rightarrow> string result" where
  "note_title L fm default_title =
     (case dget fm (PStr ''title'') of
        None \<Rightarrow> Inr default_title
      | Some (PStr s) \<Rightarrow> Inr s
      | Some (PList (v # vs)) \<Rightarrow> if v = PNone then Inr default_title else py_str L v
      | Some PNone \<Rightarrow> Inr default_title
      | Some v \<Rightarrow> py_str L v)"

section \<open>A note\<close>

datatype link_type = LT_wikilink | LT_markdown | LT_embed | LT_external

record link =
  lk_from_path :: string
  lk_from_title :: string
  lk_type :: link_type
  lk_target :: string
  lk_target_normalized :: string
  lk_to_path :: string
  lk_resolved :: bool
  lk_alias :: string
  lk_heading :: string
  lk_block :: string
  lk_context :: string
  lk_modified_at :: string

definition make_link ::
  "file_meta \<Rightarrow> string \<Rightarrow> string \<Rightarrow> link_type \<Rightarrow> string \<Rightarrow> string \<Rightarrow> wikilink option \<Rightarrow> link" where
  "make_link meta title body t target raw parts =
     (let part = (\<lambda>f. case Option.bind parts f of None \<Rightarrow> [] | Some s \<Rightarrow> s) in
      \<lparr>lk_from_path = fm_relative_path meta, lk_from_title = title, lk_type = t, lk_target = target,
       lk_target_normalized = (if t = LT_external then [] else normalize_link_target target),
       lk_to_path = [], lk_resolved = (t = LT_external), lk_alias = part wl_alias, lk_heading = part wl_heading,
       lk_block = part wl_block, lk_context = extract_link_context body raw 50,
       lk_modified_at = fm_modified_at meta\<rparr>)"

definition note_links :: "file_meta \<Rightarrow> string \<Rightarrow> string \<Rightarrow> link list" where
  "note_links meta title body =
     (let ls = extract_all_links body True; mk = make_link meta title body in
      map (\<lambda>(raw, w). mk LT_wikilink (wl_target w) raw (Some w)) (al_wikilinks ls) @
      map (\<lambda>(raw, label, target). mk LT_markdown target raw None) (al_markdown ls) @
      map (\<lambda>(raw, target). mk LT_embed target raw None) (al_embeds ls) @
      map (\<lambda>(raw, url, label). mk LT_external url raw None) (al_external ls))"

fun collect_sections ::
  "chunking \<Rightarrow> file_meta \<Rightarrow> string \<Rightarrow> (string, string) dict \<Rightarrow> section_text list \<Rightarrow> chunk list \<Rightarrow> chunk list result" where
  "collect_sections K meta tags fm_fields [] chunks = Inr chunks"
| "collect_sections K meta tags fm_fields ((headers, content) # secs) chunks =
     bind_result (chunk_and_collect K content (py_join '' > '' headers) meta chunks tags fm_fields)
       (collect_sections K meta tags fm_fields secs)"

text \<open>What \<open>parse_note\<close> makes of the text it read.\<close>

definition parse_note_text ::
  "chunking \<Rightarrow> pylib \<Rightarrow> (string \<Rightarrow> pyval option) \<Rightarrow> file_meta \<Rightarrow> string
    \<Rightarrow> (chunk list \<times> link list \<times> string list) result" where
  "parse_note_text K L load meta content =
     (let (fm, body) = parse_frontmatter load content in
      bind_result (extract_tags L fm) (\<lambda>tags.
      bind_result (extract_frontmatter_fields L fm) (\<lambda>fm_fields.
      bind_result (extract_aliases L fm) (\<lambda>aliases.
      bind_result (note_title L fm (fm_title meta)) (\<lambda>title.
      bind_result (collect_sections K (meta\<lparr>fm_title := title\<rparr>) (py_join '', '' tags) fm_fields
          (split_by_headers (ck_header_levels K) body) []) (\<lambda>chunks.
      Inr (chunks, note_links meta title body, aliases)))))))"

section \<open>A canvas\<close>

text \<open>The items a \<open>for\<close> loop over the value of a key sees, when the key is there.\<close>

definition items_of :: "frontmatter \<Rightarrow> string \<Rightarrow> pyval list result" where
  "items_of d k =
     (case dget d (PStr k) of
        None \<Rightarrow> Inr []
      | Some (PList vs) \<Rightarrow> Inr vs
      | Some (PDict e) \<Rightarrow> Inr (dkeys e)
      | Some (PStr s) \<Rightarrow> Inr (map (\<lambda>c. PStr [c]) s)
      | Some _ \<Rightarrow> Inl TypeError)"

definition stripped_text :: "pylib \<Rightarrow> frontmatter \<Rightarrow> string \<Rightarrow> string result" where
  "stripped_text L d k =
     (case dget d (PStr k) of
        None \<Rightarrow> Inr []
      | Some v \<Rightarrow> if truthy v then bind_result (py_str L v) (\<lambda>s. Inr (strip s)) else Inr [])"

definition get_text :: "pylib \<Rightarrow> frontmatter \<Rightarrow> string \<Rightarrow> string result" where
  "get_text L d k = (case dget d (PStr k) of None \<Rightarrow> Inr ''?'' | Some v \<Rightarrow> py_str L v)"

definition canvas_node ::
  "chunking \<Rightarrow> pylib \<Rightarrow> file_meta \<Rightarrow> pyval \<Rightarrow> chunk list \<Rightarrow> chunk list result" where
  "canvas_node K L meta node chunks =
     (case node of
        PDict d \<Rightarrow>
          (case dget d (PStr ''type'') of
             Some (PStr t) \<Rightarrow>
               if t = ''text'' then
                 bind_result (stripped_text L d ''text'') (\<lambda>s.
                 if s = [] then Inr chunks
                 else bind_result (get_text L d ''id'') (\<lambda>i.
                   chunk_and_collect K s (''Text node: '' @ i) meta chunks [] []))
               else if t = ''group'' then
                 bind_result (stripped_text L d ''label'') (\<lambda>s.
                 if s = [] then Inr chunks
                 else chunk_and_collect K s (''Group: '' @ s) meta chunks [] [])
               else Inr chunks
           | _ \<Rightarrow> Inr chunks)
      | _ \<Rightarrow> Inr chunks)"

text \<open>The arrow of the heading is not a Latin-1 character; it is written in two.\<close>

definition canvas_edge ::
  "chunking \<Rightarrow> pylib \<Rightarrow> file_meta \<Rightarrow> pyval \<Rightarrow> chunk list \<Rightarrow> chunk list result" where
  "canvas_edge K L meta edge chunks =
     (case edge of
        PDict d \<Rightarrow>
          bind_result (stripped_text L d ''label'') (\<lambda>s.
          if s = [] then Inr chunks
          else bind_result (get_text L d ''fromNode'') (\<lambda>a.
            bind_result (get_text L d ''toNode'') (\<lambda>b.
            chunk_and_collect K s (''Edge: '' @ a @ '' -> '' @ b) meta chunks [] [])))
      | _ \<Rightarrow> Inr chunks)"

fun each_item :: "(pyval \<Rightarrow> chunk list \<Rightarrow> chunk list result) \<Rightarrow> pyval list \<Rightarrow> chunk list \<Rightarrow> chunk list result" where
  "each_item f [] chunks = Inr chunks"
| "each_item f (v # vs) chunks = bind_result (f v chunks) (each_item f vs)"

definition parse_canvas_text ::
  "chunking \<Rightarrow> pylib \<Rightarrow> (string \<Rightarrow> pyval option) \<Rightarrow> bool \<Rightarrow> file_meta \<Rightarrow> string \<Rightarrow> chunk list result" where
  "parse_canvas_text K L loads raise_on_error meta raw =
     (case loads raw of
        None \<Rightarrow> if raise_on_error then Inl (ValueError ''invalid JSON'') else Inr []
      | Some (PDict d) \<Rightarrow>
          bind_result (items_of d ''nodes'') (\<lambda>nodes.
          bind_result (each_item (canvas_node K L meta) nodes []) (\<lambda>chunks.
          bind_result (items_of d ''edges'') (\<lambda>edges.
          each_item (canvas_edge K L meta) edges chunks)))
      | Some _ \<Rightarrow> if raise_on_error then Inl (ValueError ''invalid canvas structure'') else Inr [])"

section \<open>Reading the file\<close>

text \<open>
  What the text of a file that is not UTF-8 becomes with \<open>errors="replace"\<close>, and how a modification
  time is written, are parameters.
\<close>

definition extract_file_metadata :: "(nat \<Rightarrow> string) \<Rightarrow> path \<Rightarrow> path \<Rightarrow> file_meta io" where
  "extract_file_metadata iso_time file_path vault_path =
     bind_io (lift_io (relative_to file_path vault_path)) (\<lambda>rel.
     bind_io (lift_io (relative_to (path_parent file_path) vault_path)) (\<lambda>folder.
     bind_io (stat_io file_path) (\<lambda>r.
     return_io \<lparr>fm_relative_path = rel_str rel,
       fm_folder = (if rel_str folder = ''.'' then [] else rel_str folder),
       fm_title = path_stem file_path, fm_modified_at = iso_time (rv_mtime r)\<rparr>)))"

definition read_replace_io :: "(nat \<Rightarrow> string) \<Rightarrow> path \<Rightarrow> string io" where
  "read_replace_io lossy p = syscall (\<lambda>E w.
     (case fs_files (w_fs w) (fs_real (w_fs w) p) of
        None \<Rightarrow> Inl (if entry_exists (w_fs w) (fs_real (w_fs w) p) then OSError else FileNotFoundError)
      | Some f \<Rightarrow> Inr (universal_newlines (case f_data f of Utf8 s \<Rightarrow> s | NotUtf8 n \<Rightarrow> lossy n)),
      w\<lparr>w_log := w_log w @ [EvRead p]\<rparr>))"

text \<open>The two guarded steps every parser of a file begins with.\<close>

definition guarded :: "bool \<Rightarrow> (pyexn \<Rightarrow> bool) \<Rightarrow> 'b \<Rightarrow> 'a io \<Rightarrow> ('a \<Rightarrow> 'b io) \<Rightarrow> 'b io" where
  "guarded raise_on_error caught fallback m k =
     bind_io (catch_io (bind_io m (\<lambda>x. return_io (Some x)))
         (\<lambda>e. if caught e \<and> \<not> raise_on_error then Some (return_io None) else None))
       (\<lambda>r. case r of None \<Rightarrow> return_io fallback | Some x \<Rightarrow> k x)"

definition read_file ::
  "(nat \<Rightarrow> string) \<Rightarrow> (nat \<Rightarrow> string) \<Rightarrow> bool \<Rightarrow> path \<Rightarrow> path \<Rightarrow> 'b \<Rightarrow> (file_meta \<Rightarrow> string \<Rightarrow> 'b io) \<Rightarrow> 'b io" where
  "read_file iso_time lossy raise_on_error file_path vault_path fallback k =
     guarded raise_on_error (\<lambda>e. isinstance e C_OSError \<or> isinstance e C_ValueError) fallback
       (extract_file_metadata iso_time file_path vault_path) (\<lambda>meta.
     guarded raise_on_error (\<lambda>e. isinstance e C_OSError) fallback
       (read_replace_io lossy file_path) (\<lambda>content. k meta content))"

definition parse_note ::
  "chunking \<Rightarrow> pylib \<Rightarrow> (string \<Rightarrow> pyval option) \<Rightarrow> (nat \<Rightarrow> string) \<Rightarrow> (nat \<Rightarrow> string) \<Rightarrow> path \<Rightarrow> path \<Rightarrow> bool
    \<Rightarrow> (chunk list \<times> link list \<times> string list) io" where
  "parse_note K L load iso_time lossy note_path vault_path raise_on_error =
     read_file iso_time lossy raise_on_error note_path vault_path ([], [], [])
       (\<lambda>meta content. lift_io (parse_note_text K L load meta content))"

definition parse_canvas ::
  "chunking \<Rightarrow> pylib \<Rightarrow> (string \<Rightarrow> pyval option) \<Rightarrow> (nat \<Rightarrow> string) \<Rightarrow> (nat \<Rightarrow> string) \<Rightarrow> path \<Rightarrow> path \<Rightarrow> bool
    \<Rightarrow> chunk list io" where
  "parse_canvas K L loads iso_time lossy canvas_path vault_path raise_on_error =
     read_file iso_time lossy raise_on_error canvas_path vault_path []
       (\<lambda>meta raw. lift_io (parse_canvas_text K L loads raise_on_error meta raw))"

section \<open>The sections cover the body\<close>

definition blanks :: "string set" where
  "blanks = {w. \<forall>c \<in> set w. is_space c}"

lemma covers_blank: "w \<in> blanks \<Longrightarrow> covers blanks [] w"
  using covers_sep [OF _ covers_Nil, of w blanks] by simp

lemma covers_strip: "covers blanks (if strip s \<noteq> [] then [strip s] else []) s"
proof -
  obtain b where b: "lstrip s = rstrip (lstrip s) @ b" "\<forall>c \<in> set b. is_space c"
    using rstrip_eq_takeWhile_like by blast
  have "s = takeWhile is_space s @ strip s @ b"
    using b(1) by (simp add: strip_def lstrip_def)
  moreover have "takeWhile is_space s \<in> blanks" "b \<in> blanks"
    using b(2) by (auto simp: blanks_def dest: set_takeWhileD)
  moreover have "covers blanks (if strip s \<noteq> [] then [strip s] else []) (strip s @ b)"
    using covers_append [OF covers_one covers_blank [OF \<open>b \<in> blanks\<close>], of "strip s"]
      covers_blank [OF \<open>b \<in> blanks\<close>] by simp
  ultimately show ?thesis using covers_sep by metis
qed

lemma covers_section:
  assumes "covers blanks (map snd secs) x" shows "covers blanks (map snd (add_section d s secs)) (x @ s)"
  using covers_append [OF assms covers_strip, of s] by (simp add: add_section_def split: if_splits)

lemma header_match_level: "header_match levels s = Some (level, title, n) \<Longrightarrow> 1 \<le> level \<and> level \<le> levels \<and> 0 < n"
  by (auto simp: header_match_def Let_def Suc_le_eq simp del: upt_Suc split: if_splits option.splits)

lemma header_spans_ordered:
  "sorted (map fst (header_spans levels pos bol s)) \<and>
   (\<forall>h \<in> set (header_spans levels pos bol s). pos \<le> fst h \<and> fst h < pos + length s \<and>
      1 \<le> fst (snd h) \<and> fst (snd h) \<le> levels)"
proof (induction levels pos bol s rule: header_spans.induct)
  case (2 levels pos bol c cs)
  show ?case
  proof (cases "if bol then header_match levels (c # cs) else None")
    case None
    from "2.IH"(1) [OF None] None show ?thesis by (auto dest!: bspec)
  next
    case (Some y)
    obtain level title n where y: "y = (level, title, n)" by (cases y)
    let ?hs = "header_spans levels (pos + Suc (n - 1)) False (drop (n - 1) cs)"
    from Some y have "header_match levels (c # cs) = Some (level, title, n)" by (simp split: if_splits)
    note level = header_match_level [OF this]
    note IH = "2.IH"(2) [OF Some [unfolded y] refl refl]
    have hs: "pos \<le> fst h \<and> fst h < pos + length (c # cs) \<and> 1 \<le> fst (snd h) \<and> fst (snd h) \<le> levels"
      if "h \<in> set ?hs" for h
      using bspec [OF conjunct2 [OF IH] that] by simp arith
    have "header_spans levels pos bol (c # cs) = (pos, level, title) # ?hs" using Some y by simp
    with IH level hs show ?thesis by simp
  qed
qed simp

lemma header_fold_covers:
  assumes "sorted (map fst hs)" "\<forall>h \<in> set hs. e \<le> fst h \<and> fst h \<le> length body" "e \<le> length body"
    and "covers blanks (map snd secs) (take e body)"
    and "fold (header_step body) hs (secs, d, e) = (secs', d', e')"
  shows "covers blanks (map snd secs') (take e' body) \<and> e' \<le> length body"
  using assms
proof (induction hs arbitrary: secs d e)
  case (Cons h hs)
  obtain start level title where h: "h = (start, level, title)" by (cases h)
  let ?secs = "if e < start then add_section d (take (start - e) (drop e body)) secs else secs"
  have e: "e \<le> start" "start \<le> length body" using Cons.prems(2) h by auto
  then have eq: "take start body = take e body @ take (start - e) (drop e body)"
    by (metis le_add_diff_inverse take_add)
  have cov: "covers blanks (map snd ?secs) (take start body)"
  proof (cases "e < start")
    case True
    with covers_section [OF Cons.prems(4), of d "take (start - e) (drop e body)"] eq show ?thesis by simp
  next
    case False
    with e(1) Cons.prems(4) show ?thesis by simp
  qed
  from Cons.prems(1,2) h have "sorted (map fst hs)" "\<forall>h \<in> set hs. start \<le> fst h \<and> fst h \<le> length body" by auto
  from Cons.IH [OF this e(2) cov] Cons.prems(5) show ?case by (simp add: h header_step_def)
qed simp

text \<open>The current headings: at most one of each level.\<close>

definition headers_ok :: "nat \<Rightarrow> section_text list \<times> (nat, string) dict \<times> nat \<Rightarrow> bool" where
  "headers_ok levels st \<longleftrightarrow> (case st of (secs, d, e) \<Rightarrow>
     distinct (dkeys d) \<and> set (dkeys d) \<subseteq> {1..levels} \<and>
     (\<forall>sec \<in> set secs. length (fst sec) \<le> levels \<and> snd sec \<noteq> [] \<and> strip (snd sec) = snd sec))"

lemma length_headers_list:
  assumes "distinct (dkeys d)" "set (dkeys d) \<subseteq> {1..levels}" shows "length (headers_list d) \<le> levels"
proof -
  have "length (dkeys d) = card (set (dkeys d))" using assms(1) by (rule distinct_card [symmetric])
  also have "\<dots> \<le> card {1..levels}" using assms(2) by (intro card_mono) auto
  finally show ?thesis by (simp add: headers_list_def)
qed

lemma headers_ok_add: "headers_ok levels (secs, d, e) \<Longrightarrow> headers_ok levels (add_section d s secs, d, e')"
  using length_headers_list by (auto simp: headers_ok_def add_section_def)

lemma headers_ok_step:
  assumes "headers_ok levels st" "1 \<le> fst (snd h)" "fst (snd h) \<le> levels"
  shows "headers_ok levels (header_step body h st)"
proof -
  obtain secs d e where st: "st = (secs, d, e)" by (cases st)
  obtain start level title where h: "h = (start, level, title)" by (cases h)
  let ?d = "enter_header level title d"
  let ?secs = "if e < start then add_section d (take (start - e) (drop e body)) secs else secs"
  have "headers_ok levels (?secs, d, e)" using assms(1) headers_ok_add st by auto
  moreover have "set (dkeys ?d) \<subseteq> {1..levels}" "distinct (dkeys ?d)"
  proof -
    have d: "distinct (dkeys d)" "set (dkeys d) \<subseteq> {1..levels}" and l: "level \<in> {1..levels}"
      using assms st h by (auto simp: headers_ok_def)
    show "distinct (dkeys ?d)"
      unfolding enter_header_def by (intro distinct_keys_filter distinct_dkeys_dset d)
    have "set (dkeys ?d) \<subseteq> set (dkeys (dset level title d))" by (auto simp: enter_header_def)
    also have "\<dots> \<subseteq> {1..levels}" using d l by (simp add: dict_keys)
    finally show "set (dkeys ?d) \<subseteq> {1..levels}" .
  qed
  ultimately show ?thesis by (simp add: header_step_def st h headers_ok_def)
qed

lemma split_fold:
  assumes "fold (header_step body) (header_spans levels 0 True body) ([], [], 0) = (secs, d, e)"
  shows "covers blanks (map snd secs) (take e body)" "headers_ok levels (secs, d, e)"
proof -
  let ?hs = "header_spans levels 0 True body"
  have hs: "sorted (map fst ?hs)" "\<forall>h \<in> set ?hs. 0 \<le> fst h \<and> fst h \<le> length body"
    using header_spans_ordered [of levels 0 True body] by (auto dest!: bspec)
  from header_fold_covers [OF hs _ _ assms] show "covers blanks (map snd secs) (take e body)"
    by (simp add: covers_Nil)
  have "headers_ok levels (fold (header_step body) ?hs ([], [], 0))"
    by (rule fold_keeps)
       (use header_spans_ordered [of levels 0 True body] in \<open>auto intro!: headers_ok_step simp: headers_ok_def [of levels "([], [], 0)"]\<close>)
  with assms show "headers_ok levels (secs, d, e)" by simp
qed



end
