(* ===== verification/Lru_Cache.thy ===== *)
theory Lru_Cache
  imports Py_Values
begin

text \<open>
  The two LRU caches: the note metadata cache (\<open>crud/cache.py\<close>) and the query embedding
  cache of the searcher (\<open>_embed_query\<close> in \<open>core/searcher.py\<close>).  An \<open>OrderedDict\<close> is a
  \<open>dict\<close> whose first entry is the least recently used.  Every method runs under the
  cache's lock and is one function of the state; \<open>_embed_query\<close> releases the lock while
  the model runs, so it is two functions with the calls of other threads in between.
\<close>

section \<open>State\<close>

record cache_key =
  ck_path :: string
  ck_mtime_ns :: nat
  ck_size :: nat

record ('k, 'v) lru =
  lru_max :: nat
  lru_items :: "('k, 'v) dict"
  lru_hits :: nat
  lru_misses :: nat

definition new_lru :: "nat \<Rightarrow> ('k, 'v) lru" where
  "new_lru n = \<lparr>lru_max = n, lru_items = [], lru_hits = 0, lru_misses = 0\<rparr>"

definition key_of_stat :: "string \<Rightarrow> nat \<Rightarrow> nat \<Rightarrow> cache_key" where
  "key_of_stat p mtime sz = \<lparr>ck_path = p, ck_mtime_ns = mtime, ck_size = sz\<rparr>"

section \<open>Operations\<close>

definition move_to_end :: "'k \<Rightarrow> ('k, 'v) dict \<Rightarrow> ('k, 'v) dict" where
  "move_to_end k d = (case dget d k of None \<Rightarrow> d | Some v \<Rightarrow> ddel k d @ [(k, v)])"

definition cache_get :: "'k \<Rightarrow> ('k, 'v) lru \<Rightarrow> 'v option \<times> ('k, 'v) lru" where
  "cache_get k s =
     (case dget (lru_items s) k of
        Some v \<Rightarrow> (Some v, s\<lparr>lru_items := move_to_end k (lru_items s), lru_hits := Suc (lru_hits s)\<rparr>)
      | None \<Rightarrow> (None, s\<lparr>lru_misses := Suc (lru_misses s)\<rparr>))"

text \<open>
  \<open>while len(cache) >= n: cache.popitem(last=False)\<close>; on an empty cache \<open>popitem\<close>
  raises \<open>KeyError\<close>.
\<close>

fun evict :: "nat \<Rightarrow> ('k, 'v) dict \<Rightarrow> ('k, 'v) dict result" where
  "evict n [] = (if n = 0 then Inl KeyError else Inr [])"
| "evict n (x # d) = (if n \<le> length (x # d) then evict n d else Inr (x # d))"

definition cache_set :: "'k \<Rightarrow> 'v \<Rightarrow> ('k, 'v) lru \<Rightarrow> ('k, 'v) lru result" where
  "cache_set k v s =
     (if dhas (lru_items s) k then Inr (s\<lparr>lru_items := dset k v (move_to_end k (lru_items s))\<rparr>)
      else bind_result (evict (lru_max s) (lru_items s)) (\<lambda>d. Inr (s\<lparr>lru_items := dset k v d\<rparr>)))"

definition cache_invalidate :: "('k \<Rightarrow> string) \<Rightarrow> string \<Rightarrow> ('k, 'v) lru \<Rightarrow> nat \<times> ('k, 'v) lru" where
  "cache_invalidate path_of p s =
     (let to_remove = filter (\<lambda>k. path_of k = p) (dkeys (lru_items s))
      in (length to_remove, s\<lparr>lru_items := fold ddel to_remove (lru_items s)\<rparr>))"

definition cache_clear :: "('k, 'v) lru \<Rightarrow> ('k, 'v) lru" where
  "cache_clear s = s\<lparr>lru_items := [], lru_hits := 0, lru_misses := 0\<rparr>"

record cache_stats =
  cs_size :: nat
  cs_max_size :: nat
  cs_hits :: nat
  cs_misses :: nat
  cs_hit_rate :: rat

definition hit_rate :: "('k, 'v) lru \<Rightarrow> rat" where
  "hit_rate s = (let total = lru_hits s + lru_misses s in
     if total = 0 then 0 else of_nat (lru_hits s) / of_nat total)"

definition stats :: "('k, 'v) lru \<Rightarrow> cache_stats" where
  "stats s = \<lparr>cs_size = length (lru_items s), cs_max_size = lru_max s, cs_hits = lru_hits s,
     cs_misses = lru_misses s, cs_hit_rate = py_round 4 (hit_rate s)\<rparr>"

section \<open>The embedding cache\<close>

text \<open>
  \<open>_embed_query\<close>: look-up under the lock, the model outside it, then the insertion under
  the lock.  \<open>others\<close> is what other threads do to the cache while the model runs.
\<close>

definition embed_lookup :: "'k \<Rightarrow> ('k, 'v) lru \<Rightarrow> 'v option \<times> ('k, 'v) lru" where
  "embed_lookup k s =
     (case dget (lru_items s) k of
        Some v \<Rightarrow> (Some v, s\<lparr>lru_items := move_to_end k (lru_items s), lru_hits := Suc (lru_hits s)\<rparr>)
      | None \<Rightarrow> (None, s))"

definition embed_store :: "'k \<Rightarrow> 'v \<Rightarrow> ('k, 'v) lru \<Rightarrow> ('v \<times> ('k, 'v) lru) result" where
  "embed_store k v s =
     (case dget (lru_items s) k of
        Some v' \<Rightarrow> Inr (v', s\<lparr>lru_items := move_to_end k (lru_items s), lru_misses := Suc (lru_misses s)\<rparr>)
      | None \<Rightarrow> bind_result (evict (lru_max s) (lru_items s)) (\<lambda>d.
          Inr (v, s\<lparr>lru_items := dset k v d, lru_misses := Suc (lru_misses s)\<rparr>)))"

definition embed_query ::
  "(string \<Rightarrow> 'k) \<Rightarrow> (string \<Rightarrow> 'v result) \<Rightarrow> (('k, 'v) lru \<Rightarrow> ('k, 'v) lru) \<Rightarrow> string
    \<Rightarrow> ('k, 'v) lru \<Rightarrow> 'v result \<times> ('k, 'v) lru" where
  "embed_query digest model others query s =
     (let k = digest query in
      case embed_lookup k s of
        (Some v, s) \<Rightarrow> (Inr v, s)
      | (None, s) \<Rightarrow>
          (case model query of
             Inl e \<Rightarrow> (Inl e, others s)
           | Inr v \<Rightarrow>
               (case embed_store k v (others s) of
                  Inl e \<Rightarrow> (Inl e, (others s)\<lparr>lru_items := []\<rparr>)
                | Inr (v, s) \<Rightarrow> (Inr v, s))))"

section \<open>Steps of a cache\<close>

datatype ('k, 'v) cache_op =
    Get 'k
  | Put 'k 'v
  | Invalidate string
  | Clear

definition cache_op :: "('k \<Rightarrow> string) \<Rightarrow> ('k, 'v) cache_op \<Rightarrow> ('k, 'v) lru \<Rightarrow> ('k, 'v) lru" where
  "cache_op path_of a s =
     (case a of
        Get k \<Rightarrow> snd (cache_get k s)
      | Put k v \<Rightarrow> (case cache_set k v s of Inl _ \<Rightarrow> s\<lparr>lru_items := []\<rparr> | Inr s \<Rightarrow> s)
      | Invalidate p \<Rightarrow> snd (cache_invalidate path_of p s)
      | Clear \<Rightarrow> cache_clear s)"

definition cache_run :: "('k \<Rightarrow> string) \<Rightarrow> ('k, 'v) cache_op list \<Rightarrow> ('k, 'v) lru \<Rightarrow> ('k, 'v) lru" where
  "cache_run path_of = fold (cache_op path_of)"

definition lru_ok :: "nat \<Rightarrow> ('k, 'v) lru \<Rightarrow> bool" where
  "lru_ok n s \<longleftrightarrow> lru_max s = n \<and> length (lru_items s) \<le> n \<and> distinct (dkeys (lru_items s))"

section \<open>Facts about the order\<close>

lemma ddel_filter: "ddel k d = filter (\<lambda>i. fst i \<noteq> k) d"
  by (induction d) auto

lemma move_to_end_same [simp]: "dget (move_to_end k d) k' = dget d k'"
  by (auto simp: move_to_end_def dget_ddel map_add_def split: option.splits)

lemma filter_absent: "k \<notin> fst ` set d \<Longrightarrow> filter (\<lambda>i. fst i \<noteq> k) d = d"
  by (induction d) auto

lemma dset_absent: "k \<notin> fst ` set pre \<Longrightarrow> dset k v (pre @ post) = pre @ dset k v post"
  by (induction pre) auto

lemma dget_middle [simp]: "k \<notin> fst ` set pre \<Longrightarrow> dget (pre @ (k, v) # post) k = Some v"
  by (induction pre) auto

lemma dget_middle_tail [simp]:
  "k \<notin> fst ` set pre \<Longrightarrow> k \<notin> fst ` set post \<Longrightarrow> dget (pre @ post @ [(k, v)]) k = Some v"
  using dget_middle [of k "pre @ post" v "[]"] by (simp add: image_Un)

lemma move_to_end_split:
  assumes "k \<notin> fst ` set pre" "k \<notin> fst ` set post"
  shows "move_to_end k (pre @ (k, v) # post) = pre @ post @ [(k, v)]"
proof -
  from assms have "dget (pre @ (k, v) # post) k = Some v" by (intro dget_middle)
  with assms show ?thesis by (simp add: move_to_end_def ddel_filter filter_absent del: map_of_append)
qed

lemma dict_split:
  assumes "distinct (dkeys d)" and "dget d k = Some v"
  obtains pre post where "d = pre @ (k, v) # post" "k \<notin> fst ` set pre" "k \<notin> fst ` set post"
proof -
  from assms(2) have "(k, v) \<in> set d" by (rule map_of_SomeD)
  then obtain pre post where d: "d = pre @ (k, v) # post" by (auto dest: split_list)
  with assms(1) that show thesis by (auto simp: image_iff)
qed

lemma evict_drop: "0 < n \<Longrightarrow> evict n d = Inr (drop (Suc (length d) - n) d)"
  by (induction d) (auto simp: Suc_diff_le)

lemma cache_set_new:
  "0 < lru_max s \<Longrightarrow> \<not> dhas (lru_items s) k \<Longrightarrow>
   cache_set k v s = Inr (s\<lparr>lru_items := drop (Suc (length (lru_items s)) - lru_max s) (lru_items s) @ [(k, v)]\<rparr>)"
proof -
  assume "0 < lru_max s" "\<not> dhas (lru_items s) k"
  moreover from this(2) have "\<not> dhas (drop n (lru_items s)) k" for n
    by (auto simp: dhas_iff dest: in_set_dropD)
  ultimately show ?thesis by (simp add: cache_set_def evict_drop dset_new)
qed

lemma cache_set_old:
  assumes "distinct (dkeys (lru_items s))" and "lru_items s = pre @ (k, w) # post"
  shows "cache_set k v s = Inr (s\<lparr>lru_items := pre @ post @ [(k, v)]\<rparr>)"
proof -
  from assms have no: "k \<notin> fst ` set pre" "k \<notin> fst ` set post" by (auto simp: image_iff)
  have "dset k v (pre @ post @ [(k, w)]) = pre @ post @ [(k, v)]"
    using no by (simp add: dset_absent)
  with no assms(2) show ?thesis
    by (simp add: cache_set_def move_to_end_split dhas_iff)
qed


lemma fold_ddel_keys: "fold ddel ks d = filter (\<lambda>i. fst i \<notin> set ks) d"
  by (induction ks arbitrary: d) (auto simp: ddel_filter intro: filter_cong)

lemma invalidate_items:
  "lru_items (snd (cache_invalidate path_of p s)) = filter (\<lambda>i. path_of (fst i) \<noteq> p) (lru_items s)"
  by (auto simp: cache_invalidate_def Let_def fold_ddel_keys intro!: filter_cong)

lemma get_items:
  "lru_items (snd (cache_get k s)) = move_to_end k (lru_items s)"
  by (auto simp: cache_get_def move_to_end_def split: option.split)

lemma cache_op_max [simp]: "lru_max (cache_op path_of a s) = lru_max s"
  by (auto simp: cache_op_def cache_get_def cache_set_def cache_invalidate_def cache_clear_def Let_def
      split: cache_op.split option.split sum.split if_splits)

section \<open>The bound\<close>

lemma move_to_end_ok: "distinct (dkeys d) \<Longrightarrow> length (move_to_end k d) = length d \<and> distinct (dkeys (move_to_end k d))"
proof (cases "dget d k")
  case (Some v)
  assume "distinct (dkeys d)"
  from this Some obtain pre post where "d = pre @ (k, v) # post" "k \<notin> fst ` set pre" "k \<notin> fst ` set post"
    by (rule dict_split)
  with \<open>distinct (dkeys d)\<close> show ?thesis by (auto simp: move_to_end_split)
qed (simp add: move_to_end_def)

lemma set_ok:
  assumes "lru_ok n s" and "0 < n"
  shows "\<exists>s'. cache_set k v s = Inr s' \<and> lru_ok n s' \<and> dget (lru_items s') k = Some v"
proof (cases "dhas (lru_items s) k")
  case True
  then obtain w where "dget (lru_items s) k = Some w" by (auto simp: dhas_def)
  with assms(1) obtain pre post where s: "lru_items s = pre @ (k, w) # post" "k \<notin> fst ` set pre" "k \<notin> fst ` set post"
    by (metis dict_split lru_ok_def)
  with assms(1) show ?thesis
    by (auto simp: cache_set_old [OF _ s(1)] lru_ok_def simp del: map_of_append)
next
  case False
  then have "k \<notin> set (drop m (dkeys (lru_items s)))" for m by (auto simp: dhas_iff dest: in_set_dropD)
  moreover from this have "k \<notin> fst ` set (drop m (lru_items s))" for m by (simp add: drop_map)
  ultimately show ?thesis using False assms
    by (simp add: cache_set_new lru_ok_def drop_map [symmetric] del: map_of_append)
qed

lemma cache_op_ok: "lru_ok n s \<Longrightarrow> 0 < n \<Longrightarrow> lru_ok n (cache_op path_of a s)"
proof (cases a)
  case (Put k v)
  assume "lru_ok n s" "0 < n"
  from set_ok [OF this, of k v] obtain s' where "cache_set k v s = Inr s'" "lru_ok n s'" by blast
  with Put show ?thesis by (simp add: cache_op_def)
next
  case (Invalidate p)
  assume "lru_ok n s"
  moreover from this have "length (filter (\<lambda>i. path_of (fst i) \<noteq> p) (lru_items s)) \<le> n"
    unfolding lru_ok_def by (meson length_filter_le order_trans)
  moreover have "lru_max (snd (cache_invalidate path_of p s)) = lru_max s"
    by (simp add: cache_invalidate_def Let_def)
  ultimately show ?thesis using Invalidate
    by (simp add: cache_op_def lru_ok_def invalidate_items distinct_keys_filter)
next
  case (Get k)
  assume ok: "lru_ok n s"
  have "lru_max (snd (cache_get k s)) = lru_max s" by (simp add: cache_get_def split: option.split)
  with ok Get show ?thesis using move_to_end_ok [of "lru_items s" k]
    by (simp add: cache_op_def lru_ok_def get_items)
next
  case Clear
  assume "lru_ok n s"
  with Clear show ?thesis by (simp add: cache_op_def cache_clear_def lru_ok_def)
qed

lemma cache_run_ok: "lru_ok n s \<Longrightarrow> 0 < n \<Longrightarrow> lru_ok n (cache_run path_of ops s)"
  unfolding cache_run_def by (induction ops arbitrary: s) (simp_all add: cache_op_ok)

lemma new_lru_ok: "lru_ok n (new_lru n)"
  by (simp add: lru_ok_def new_lru_def)


text \<open>A cache with room for at least one entry never outgrows its limit and never holds a key
  twice, whatever is read, stored, invalidated or cleared, and a value just stored is found.\<close>

theorem lru_bounded:
  assumes "0 < n" and "s = cache_run path_of ops (new_lru n)"
  shows "length (lru_items s) \<le> n \<and> distinct (dkeys (lru_items s)) \<and>
    (\<exists>s'. cache_set k v s = Inr s' \<and> length (lru_items s') \<le> n \<and> fst (cache_get k s') = Some v)"
proof -
  from cache_run_ok [OF new_lru_ok assms(1)] assms(2) have ok: "lru_ok n s" by simp
  from set_ok [OF ok assms(1), of k v] ok show ?thesis
    by (auto simp: lru_ok_def cache_get_def)
qed

theorem lru_bounded_witness:
  "\<exists>s. cache_set ''c'' (3::nat) (cache_run id [Put ''a'' 1, Put ''b'' 2, Get ''a'', Put ''d'' 4] (new_lru 2)) = Inr s \<and>
     length (lru_items s) \<le> 2 \<and> fst (cache_get ''c'' s) = Some 3"
proof -
  let ?ops = "[Put ''a'' 1, Put ''b'' 2, Get ''a'', Put ''d'' (4::nat)]"
  have "0 < (2::nat)" by simp
  from lru_bounded [OF this refl, where path_of = id and ops = ?ops and k = "''c''" and v = 3]
  show ?thesis by blast
qed

section \<open>What is kept\<close>

text \<open>The other keys an operation touches, and the operations that leave an entry in place.\<close>

fun touched :: "('k, 'v) cache_op \<Rightarrow> 'k set" where
  "touched (Get k) = {k}"
| "touched (Put k v) = {k}"
| "touched (Invalidate p) = {}"
| "touched Clear = {}"

fun spares :: "('k \<Rightarrow> string) \<Rightarrow> 'k \<Rightarrow> ('k, 'v) cache_op \<Rightarrow> bool" where
  "spares path_of k (Get k') = True"
| "spares path_of k (Put k' v) = (k' \<noteq> k)"
| "spares path_of k (Invalidate p) = (path_of k \<noteq> p)"
| "spares path_of k Clear = False"

definition recent :: "nat \<Rightarrow> 'k \<Rightarrow> 'v \<Rightarrow> 'k set \<Rightarrow> ('k, 'v) lru \<Rightarrow> bool" where
  "recent n k v T s \<longleftrightarrow> lru_ok n s \<and>
     (\<exists>pre post. lru_items s = pre @ (k, v) # post \<and> fst ` set post \<subseteq> T)"

lemma recentI:
  "lru_ok n s \<Longrightarrow> lru_items s = pre @ (k, v) # post \<Longrightarrow> fst ` set post \<subseteq> T \<Longrightarrow> recent n k v T s"
  by (auto simp: recent_def)

lemma recent_touch:
  assumes "recent n k v T s" and "dget (lru_items s) k' = Some w" and "k' \<noteq> k"
    and "lru_ok n s'" and "lru_items s' = ddel k' (lru_items s) @ [(k', w')]"
  shows "recent n k v (insert k' T) s'"
proof -
  from assms(1) obtain pre post where s: "lru_items s = pre @ (k, v) # post" "fst ` set post \<subseteq> T"
    by (auto simp: recent_def)
  have "lru_items s' = ddel k' pre @ (k, v) # (ddel k' post @ [(k', w')])"
    using assms(3) by (simp add: assms(5) s(1) ddel_filter)
  moreover have "fst ` set (ddel k' post @ [(k', w')]) \<subseteq> insert k' T"
    using s(2) by (auto simp: dict_keys)
  ultimately show ?thesis using assms(4) by (intro recentI)
qed

lemma recent_get:
  assumes "recent n k v T s"
  shows "recent n k v (insert k' T - {k}) (snd (cache_get k' s))"
proof -
  have ok: "lru_ok n (snd (cache_get k' s))"
    using assms move_to_end_ok [of "lru_items s" k']
    by (auto simp: recent_def lru_ok_def get_items cache_get_def split: option.split)
  from assms obtain pre post where s: "lru_items s = pre @ (k, v) # post" "fst ` set post \<subseteq> T"
    and d: "distinct (dkeys (lru_items s))" by (auto simp: recent_def lru_ok_def)
  from d s(1) have no: "k \<notin> fst ` set pre" "k \<notin> fst ` set post" by (auto simp: image_iff)
  show ?thesis
  proof (cases "dget (lru_items s) k'")
    case None
    with ok s no show ?thesis
      by (intro recentI [OF ok, of pre k v post])
        (auto simp: get_items move_to_end_def simp del: map_of_append split: option.split)
  next
    case (Some w)
    show ?thesis
    proof (cases "k' = k")
      case True
      from ok True s no move_to_end_split [OF no, of v] show ?thesis
        by (intro recentI [OF ok, of "pre @ post" k v "[]"]) (simp_all add: get_items)
    next
      case False
      have "lru_items (snd (cache_get k' s)) = ddel k' (lru_items s) @ [(k', w)]"
        using Some by (simp add: get_items move_to_end_def)
      from recent_touch [OF assms Some False ok this]
      obtain pre post where "lru_items (snd (cache_get k' s)) = pre @ (k, v) # post"
        "fst ` set post \<subseteq> insert k' T" by (auto simp: recent_def)
      moreover from this(1) ok have "k \<notin> fst ` set post" by (auto simp: lru_ok_def image_iff)
      ultimately show ?thesis using ok by (intro recentI [of _ _ pre k v post]) auto
    qed
  qed
qed

lemma recent_put:
  assumes r: "recent n k v T s" and n: "0 < n" and k': "k' \<noteq> k"
    and T: "finite T" "k \<notin> T" "card (insert k' T) < n"
  shows "\<exists>s'. cache_set k' v' s = Inr s' \<and> recent n k v (insert k' T) s'"
proof -
  from r have ok: "lru_ok n s" by (simp add: recent_def)
  from set_ok [OF ok n, of k' v'] obtain s' where s': "cache_set k' v' s = Inr s'" "lru_ok n s'" by blast
  from r obtain pre post where s: "lru_items s = pre @ (k, v) # post" "fst ` set post \<subseteq> T"
    by (auto simp: recent_def)
  have "recent n k v (insert k' T) s'"
  proof (cases "dget (lru_items s) k'")
    case (Some w)
    from dict_split [OF _ Some] ok obtain pre' post' where
      p: "lru_items s = pre' @ (k', w) # post'" "k' \<notin> fst ` set pre'" "k' \<notin> fst ` set post'"
      by (auto simp: lru_ok_def)
    from cache_set_old [OF _ p(1), of v'] ok s'(1) have "lru_items s' = (pre' @ post') @ [(k', v')]"
      by (auto simp: lru_ok_def)
    moreover have "ddel k' (lru_items s) = pre' @ post'"
      using p by (simp add: ddel_filter filter_absent)
    ultimately show ?thesis by (intro recent_touch [OF r Some k' s'(2)]) simp
  next
    case None
    then have new: "\<not> dhas (lru_items s) k'" by (simp add: dhas_def)
    let ?m = "Suc (length (lru_items s)) - n"
    from ok have max: "lru_max s = n" "length (lru_items s) \<le> n" "distinct (dkeys (lru_items s))"
      by (simp_all add: lru_ok_def)
    from cache_set_new [OF _ new, of v'] n s'(1) max have items: "lru_items s' = drop ?m (lru_items s) @ [(k', v')]"
      by auto
    have "?m \<le> length pre"
    proof (rule ccontr)
      assume "\<not> ?m \<le> length pre"
      with max(2) s(1) have pre: "pre = []" and len: "Suc (length post) = n" by (cases pre; simp)+
      have "card (fst ` set post) = length post"
        using max(3) s(1) by (metis (no_types) distinct_append distinct.simps(2) distinct_card length_map list.map(2) list.set_map map_append)
      moreover from new s have "k' \<notin> fst ` set post" by (auto simp: dhas_iff)
      ultimately have "card (insert k' (fst ` set post)) = n" using len by simp
      moreover have "card (insert k' (fst ` set post)) \<le> card (insert k' T)"
        using s(2) T(1) by (intro card_mono) auto
      ultimately show False using T(3) by simp
    qed
    then have "lru_items s' = drop ?m pre @ (k, v) # (post @ [(k', v')])"
      unfolding items s(1) by simp
    moreover have "fst ` set (post @ [(k', v')]) \<subseteq> insert k' T" using s(2) by auto
    ultimately show ?thesis by (rule recentI [OF s'(2)])
  qed
  with s'(1) show ?thesis by blast
qed


lemma recent_op:
  assumes "recent n k v T s" and "0 < n" and "spares path_of k a"
    and "finite T" "k \<notin> T" "card (touched a - {k} \<union> T) < n"
  shows "recent n k v (touched a - {k} \<union> T) (cache_op path_of a s)"
proof (cases a)
  case (Get k')
  with assms(5) recent_get [OF assms(1), of k'] show ?thesis
    by (auto simp: cache_op_def insert_Diff_if split: if_splits)
next
  case (Put k' v')
  with assms recent_put [OF assms(1,2), of k' v'] show ?thesis by (auto simp: cache_op_def)
next
  case (Invalidate p)
  let ?keep = "\<lambda>i. path_of (fst i) \<noteq> p"
  from assms(1) obtain pre post where s: "lru_items s = pre @ (k, v) # post" "fst ` set post \<subseteq> T"
    by (auto simp: recent_def)
  have "lru_ok n (cache_op path_of a s)" using assms(1,2) by (simp add: recent_def cache_op_ok)
  moreover have "lru_items (cache_op path_of a s) = filter ?keep pre @ (k, v) # filter ?keep post"
    using assms(3) Invalidate s(1) by (simp add: cache_op_def invalidate_items)
  moreover have "fst ` set (filter ?keep post) \<subseteq> touched a - {k} \<union> T" using s(2) by auto
  ultimately show ?thesis by (rule recentI)
next
  case Clear
  with assms(3) show ?thesis by simp
qed

lemma recent_run:
  "recent n k v T s \<Longrightarrow> 0 < n \<Longrightarrow> \<forall>a \<in> set ops. spares path_of k a \<Longrightarrow> finite T \<Longrightarrow> k \<notin> T \<Longrightarrow>
   card (\<Union> (touched ` set ops) - {k} \<union> T) < n \<Longrightarrow>
   recent n k v (\<Union> (touched ` set ops) - {k} \<union> T) (cache_run path_of ops s)"
proof (induction ops arbitrary: s T)
  case Nil
  then show ?case by (simp add: cache_run_def)
next
  case (Cons a ops)
  let ?T = "touched a - {k} \<union> T"
  have eq: "\<Union> (touched ` set (a # ops)) - {k} \<union> T = \<Union> (touched ` set ops) - {k} \<union> ?T" by auto
  have fin: "finite (touched b)" for b :: "('a, 'b) cache_op" by (cases b) auto
  have "card ?T \<le> card (\<Union> (touched ` set ops) - {k} \<union> ?T)"
    using fin Cons.prems(4) by (intro card_mono) auto
  then have "card ?T < n" using Cons.prems(6) unfolding eq by simp
  with Cons.prems have "recent n k v ?T (cache_op path_of a s)" by (intro recent_op) auto
  with Cons.prems fin have "recent n k v (\<Union> (touched ` set ops) - {k} \<union> ?T) (cache_run path_of ops (cache_op path_of a s))"
    using Cons.prems(6) unfolding eq by (intro Cons.IH) auto
  then show ?case unfolding eq by (simp add: cache_run_def)
qed

text \<open>The cache forgets the least recently used entry: a stored value is still found as long as
  its path was not invalidated, the cache not cleared, the key not stored again, and fewer
  other keys than the cache has room for were read or stored since.\<close>

theorem lru_recent_kept:
  assumes "0 < n" and "cache_set k v (cache_run path_of before (new_lru n)) = Inr s"
    and "\<forall>a \<in> set ops. spares path_of k a" and "card (\<Union> (touched ` set ops) - {k}) < n"
  shows "fst (cache_get k (cache_run path_of ops s)) = Some v"
proof -
  let ?s0 = "cache_run path_of before (new_lru n)"
  have ok: "lru_ok n ?s0" by (rule cache_run_ok [OF new_lru_ok assms(1)])
  from set_ok [OF this assms(1), of k v] assms(2) have s: "lru_ok n s" by auto
  have "\<exists>pre. lru_items s = pre @ [(k, v)]"
  proof (cases "dget (lru_items ?s0) k")
    case None
    with ok assms(1,2) cache_set_new [of ?s0 k v] show ?thesis by (auto simp: lru_ok_def dhas_def)
  next
    case (Some w)
    have "distinct (dkeys (lru_items ?s0))" using ok by (simp add: lru_ok_def)
    from dict_split [OF this Some] obtain pre post where "lru_items ?s0 = pre @ (k, w) # post" by metis
    from cache_set_old [OF _ this, of v] ok assms(2) have "lru_items s = (pre @ post) @ [(k, v)]"
      by (auto simp: lru_ok_def)
    then show ?thesis by blast
  qed
  with s have "recent n k v {} s" by (auto simp: recent_def)
  from recent_run [OF this assms(1,3)] assms(4)
  have "recent n k v (\<Union> (touched ` set ops) - {k}) (cache_run path_of ops s)" by simp
  then obtain pre post where "lru_items (cache_run path_of ops s) = pre @ (k, v) # post"
    "distinct (dkeys (lru_items (cache_run path_of ops s)))" by (auto simp: recent_def lru_ok_def)
  then show ?thesis by (auto simp: cache_get_def simp del: map_of_append)
qed

theorem lru_recent_kept_witness:
  "fst (cache_get ''a'' (cache_run id [Put ''b'' 2, Get ''a'', Put ''b'' 3, Get ''z'']
     \<lparr>lru_max = 3, lru_items = [(''x'', 9), (''a'', 1::nat)], lru_hits = 0, lru_misses = 0\<rparr>)) = Some 1"
proof -
  let ?s = "\<lparr>lru_max = 3, lru_items = [(''x'', 9), (''a'', 1::nat)], lru_hits = 0, lru_misses = 0\<rparr>"
  have set: "cache_set ''a'' 1 (cache_run id [Put ''x'' 9] (new_lru 3)) = Inr ?s"
    by (simp add: cache_set_def cache_run_def cache_op_def new_lru_def dhas_def)
  have "\<Union> (touched ` set [Put ''b'' 2, Get ''a'', Put ''b'' (3::nat), Get ''z'']) - {''a''} = {''b'', ''z''}"
    by auto
  then have card: "card (\<Union> (touched ` set [Put ''b'' 2, Get ''a'', Put ''b'' (3::nat), Get ''z'']) - {''a''}) < 3"
    by simp
  show ?thesis by (rule lru_recent_kept [OF _ set _ card]) simp_all
qed

section \<open>The embedding cache is transparent\<close>

definition caches_model :: "(string \<Rightarrow> 'k) \<Rightarrow> (string \<Rightarrow> 'v result) \<Rightarrow> ('k, 'v) lru \<Rightarrow> bool" where
  "caches_model digest model s \<longleftrightarrow>
     (\<forall>k v. dget (lru_items s) k = Some v \<longrightarrow> (\<exists>q. digest q = k \<and> model q = Inr v))"

lemma evict_sub: "evict n d = Inr d' \<Longrightarrow> set d' \<subseteq> set d \<and> (distinct (dkeys d) \<longrightarrow> distinct (dkeys d'))"
  by (induction n d rule: evict.induct) (auto split: if_splits)

lemma embed_store_facts:
  assumes "lru_ok n s" "0 < n"
  shows "\<exists>v' s'. embed_store k v s = Inr (v', s') \<and> lru_ok n s' \<and>
    (case dget (lru_items s) k of None \<Rightarrow> v' = v | Some w \<Rightarrow> v' = w) \<and>
    (\<forall>k' w. dget (lru_items s') k' = Some w \<longrightarrow> dget (lru_items s) k' = Some w \<or> k' = k \<and> w = v)"
proof (cases "dget (lru_items s) k")
  case (Some w)
  with assms move_to_end_ok [of "lru_items s" k] show ?thesis by (simp add: embed_store_def lru_ok_def)
next
  case None
  let ?d = "drop (Suc (length (lru_items s)) - n) (lru_items s)"
  from None have no: "\<not> dhas ?d k" "\<not> dhas (lru_items s) k" by (auto simp: dhas_iff dhas_def map_of_eq_None_iff dest: in_set_dropD)
  from set_ok [OF assms, of k v] cache_set_new [of s k v] no assms
  have ok: "lru_ok n (s\<lparr>lru_items := ?d @ [(k, v)]\<rparr>)" by (auto simp: lru_ok_def)
  have run: "embed_store k v s = Inr (v, s\<lparr>lru_items := ?d @ [(k, v)], lru_misses := Suc (lru_misses s)\<rparr>)"
    using None assms no by (simp add: embed_store_def evict_drop dset_new lru_ok_def)
  have "dget (lru_items s) k' = Some w \<or> k' = k \<and> w = v" if "dget (?d @ [(k, v)]) k' = Some w" for k' w
  proof -
    from that have "(k', w) \<in> set ?d \<or> (k', w) = (k, v)" by (auto dest!: map_of_SomeD simp del: map_of_append)
    then show ?thesis using assms by (auto dest!: in_set_dropD simp: lru_ok_def)
  qed
  with ok run None show ?thesis by (auto simp: lru_ok_def simp del: map_of_append)
qed

text \<open>The embedding cache is transparent: with a digest that separates the queries, and other
  threads that keep the cache sound, \<open>_embed_query\<close> returns exactly what the model returns for
  the query, or raises what the model raises, and leaves the cache sound and within its
  limit.\<close>

theorem embed_query_transparent:
  assumes "0 < n" and "inj digest" and "lru_ok n s" and "caches_model digest model s"
    and "\<And>s. lru_ok n s \<Longrightarrow> caches_model digest model s \<Longrightarrow>
      lru_ok n (others s) \<and> caches_model digest model (others s)"
    and "embed_query digest model others query s = (r, s')"
  shows "r = model query \<and> lru_ok n s' \<and> caches_model digest model s'"
proof (cases "dget (lru_items s) (digest query)")
  case (Some v)
  with assms(3,6) move_to_end_ok [of "lru_items s" "digest query"]
  have "r = Inr v" "lru_ok n s'" "\<And>k. dget (lru_items s') k = dget (lru_items s) k"
    by (auto simp: embed_query_def embed_lookup_def lru_ok_def)
  moreover from assms(4) Some assms(2) have "model query = Inr v"
    by (auto simp: caches_model_def dest: injD)
  ultimately show ?thesis using assms(4) by (simp add: caches_model_def)
next
  case None
  let ?o = "others s"
  from assms(5) [OF assms(3,4)] have o: "lru_ok n ?o" "caches_model digest model ?o" by auto
  show ?thesis
  proof (cases "model query")
    case (Inl e)
    with None o assms(6) show ?thesis by (auto simp: embed_query_def embed_lookup_def)
  next
    case (Inr v)
    from embed_store_facts [OF o(1) assms(1), of "digest query" v] obtain v' s'' where
      st: "embed_store (digest query) v ?o = Inr (v', s'')" "lru_ok n s''"
        "case dget (lru_items ?o) (digest query) of None \<Rightarrow> v' = v | Some w \<Rightarrow> v' = w"
        "\<forall>k' w. dget (lru_items s'') k' = Some w \<longrightarrow> dget (lru_items ?o) k' = Some w \<or> k' = digest query \<and> w = v"
      by blast
    have "v' = v"
    proof (cases "dget (lru_items ?o) (digest query)")
      case (Some w)
      with o(2) obtain q where "digest q = digest query" "model q = Inr w" unfolding caches_model_def by blast
      with assms(2) Inr st(3) Some show ?thesis by (auto dest: injD)
    qed (use st(3) in simp)
    moreover have "caches_model digest model s''"
      using st(4) o(2) Inr unfolding caches_model_def by metis
    moreover have "r = Inr v'" "s' = s''"
      using None Inr st(1) assms(6) by (auto simp: embed_query_def embed_lookup_def)
    ultimately show ?thesis using Inr st(2) by simp
  qed
qed

theorem embed_query_transparent_witness:
  "fst (embed_query id (\<lambda>q. Inr (length q)) (\<lambda>s. s) ''query'' (new_lru 2)) = Inr 5"
proof -
  let ?model = "\<lambda>q :: string. Inr (length q) :: nat result"
  obtain r s' where run: "embed_query id ?model (\<lambda>s. s) ''query'' (new_lru 2) = (r, s')"
    by (cases "embed_query id ?model (\<lambda>s. s) ''query'' (new_lru 2)")
  have "r = ?model ''query'' \<and> lru_ok 2 s' \<and> caches_model id ?model s'"
  proof (rule embed_query_transparent [OF _ _ new_lru_ok _ _ run])
    show "caches_model id ?model (new_lru 2)" by (simp add: caches_model_def new_lru_def)
  qed simp_all
  with run show ?thesis by simp
qed

end
