(* ===== verification/Ranking.thy ===== *)
theory Ranking
  imports Lru_Cache Security "HOL-Library.Multiset" "HOL-Library.Product_Lexorder"
begin

text \<open>
  The parts of the search that order and dress the rows of the database
  (\<open>core/searcher.py\<close>, \<open>core/result_formatter.py\<close>, \<open>core/highlight.py\<close>): the sizes of the
  candidate pools, reciprocal rank fusion, reranking, exclusion, highlighting and the public
  form of a result.  Scores are exact rationals; the cross-encoder is a parameter.
\<close>

section \<open>Rows\<close>

text \<open>\<open>SearchRow\<close> is a partial \<open>TypedDict\<close>: a field is \<open>None\<close> when its key is absent.\<close>

record row =
  rw_note_path :: "string option"
  rw_note_title :: "string option"
  rw_folder :: "string option"
  rw_headers :: "string option"
  rw_tags :: "string option"
  rw_modified_at :: "string option"
  rw_text :: "string option"
  rw_vector :: "rat list option"
  rw_distance :: "rat option"
  rw_score :: "rat option"
  rw_rerank_score :: "rat option"
  rw_hybrid_score :: "rat option"

record search_conf =
  sc_candidates :: int
  sc_candidates_max :: int
  sc_candidates_multiplier :: int
  sc_precision :: nat

definition rerank_candidates_max :: int where "rerank_candidates_max = 10"
definition rerank_candidates_multiplier :: int where "rerank_candidates_multiplier = 2"
definition hybrid_rrf_k :: nat where "hybrid_rrf_k = 60"

text \<open>\<open>row.get(field, "")\<close>.\<close>

definition or_empty :: "string option \<Rightarrow> string" where
  "or_empty x = (case x of None \<Rightarrow> [] | Some s \<Rightarrow> s)"

text \<open>\<open>xs[:n]\<close>: a negative bound counts from the end.\<close>

definition slice_to :: "'a list \<Rightarrow> int \<Rightarrow> 'a list" where
  "slice_to xs n = take (nat (if n < 0 then int (length xs) + n else n)) xs"

section \<open>Pool sizes\<close>

definition compute_candidates :: "search_conf \<Rightarrow> int \<Rightarrow> int" where
  "compute_candidates S top_k =
     min (max (sc_candidates S) (top_k * sc_candidates_multiplier S)) (sc_candidates_max S)"

definition compute_rerank_pool_size :: "int \<Rightarrow> int \<Rightarrow> int" where
  "compute_rerank_pool_size top_k candidate_count =
     (if candidate_count \<le> 0 then 0
      else let pool_size = max top_k (min rerank_candidates_max (top_k * rerank_candidates_multiplier))
           in min candidate_count pool_size)"

section \<open>Reciprocal rank fusion\<close>

type_synonym result_key = "string \<times> string"

record fused_entry =
  fe_row :: row
  fe_score :: rat
  fe_best_rank :: nat
  fe_order :: nat

definition row_key :: "row \<Rightarrow> result_key" where
  "row_key r = (or_empty (rw_note_path r), or_empty (rw_text r))"

definition fuse_step ::
  "nat \<times> row \<Rightarrow> (result_key, fused_entry) dict \<times> nat \<Rightarrow> (result_key, fused_entry) dict \<times> nat" where
  "fuse_step x st =
     (case x of (rank, r) \<Rightarrow> case st of (fused, insertion_order) \<Rightarrow>
        let key = row_key r;
            (entry, order) = (case dget fused key of
                Some e \<Rightarrow> (e, insertion_order)
              | None \<Rightarrow> (\<lparr>fe_row = r, fe_score = 0, fe_best_rank = rank, fe_order = insertion_order\<rparr>,
                         Suc insertion_order));
            entry = entry\<lparr>fe_score := fe_score entry + 1 / of_nat (hybrid_rrf_k + rank),
                          fe_best_rank := min (fe_best_rank entry) rank\<rparr>
        in (dset key entry fused, order))"

definition fuse_hybrid_results :: "search_conf \<Rightarrow> row list \<Rightarrow> row list \<Rightarrow> int \<Rightarrow> row list" where
  "fuse_hybrid_results S vector_results fts_results limit =
     (if limit \<le> 0 then []
      else let fused = fst (fold fuse_step (List.enumerate 1 fts_results)
                             (fold fuse_step (List.enumerate 1 vector_results) ([], 0)));
               ranked = sort_key (\<lambda>e. (- fe_score e, fe_best_rank e, fe_order e)) (map snd fused)
           in map (\<lambda>e. (fe_row e)\<lparr>rw_hybrid_score := Some (py_round (sc_precision S) (fe_score e))\<rparr>)
                (slice_to ranked limit))"

section \<open>Reranking, exclusion and the public form\<close>

fun texts_of :: "row list \<Rightarrow> string list result" where
  "texts_of [] = Inr []"
| "texts_of (r # rs) =
     (case rw_text r of None \<Rightarrow> Inl KeyError | Some t \<Rightarrow> bind_result (texts_of rs) (\<lambda>ts. Inr (t # ts)))"

definition rerank ::
  "search_conf \<Rightarrow> (string \<Rightarrow> string list \<Rightarrow> rat list result) \<Rightarrow> string \<Rightarrow> row list \<Rightarrow> int \<Rightarrow> row list result" where
  "rerank S model query rows top_k =
     (if rows = [] then Inr []
      else let candidates = slice_to rows (compute_rerank_pool_size top_k (int (length rows))) in
        bind_result (texts_of candidates) (\<lambda>ts.
        bind_result (model query ts) (\<lambda>scores.
        if length scores \<noteq> length candidates
        then Inl (ValueError ''zip() arguments have different lengths'')
        else let scored = map (\<lambda>(r, s). r\<lparr>rw_rerank_score := Some (py_round (sc_precision S) s)\<rparr>)
                             (zip candidates scores);
                 ranked = sort_key (\<lambda>r. - the (rw_rerank_score r)) scored
             in Inr (slice_to ranked top_k))))"

definition filter_excluded :: "row list \<Rightarrow> string list \<Rightarrow> row list" where
  "filter_excluded rows exclude =
     (if exclude = [] then rows
      else let exclude_lower = map py_lower exclude in
        filter (\<lambda>r. \<not> (\<exists>term \<in> set exclude_lower. contains (py_lower (or_empty (rw_text r))) term)) rows)"

record search_result =
  sr_note_path :: string
  sr_note_title :: string
  sr_folder :: string
  sr_headers :: string
  sr_tags :: string
  sr_text :: string
  sr_score :: "rat option"

text \<open>\<open>1 / (1 + distance)\<close> raises \<open>ZeroDivisionError\<close> for -1, here \<open>OtherError\<close>.\<close>

definition distance_to_score :: "search_conf \<Rightarrow> rat \<Rightarrow> rat result" where
  "distance_to_score S d =
     (if 1 + d = 0 then Inl OtherError else Inr (py_round (sc_precision S) (1 / (1 + d))))"

definition format_row :: "search_conf \<Rightarrow> row \<Rightarrow> search_result result" where
  "format_row S r =
     bind_result
       (case rw_rerank_score r of
          Some s \<Rightarrow> Inr (Some s)
        | None \<Rightarrow> (case rw_distance r of
                     Some d \<Rightarrow> bind_result (distance_to_score S d) (\<lambda>s. Inr (Some s))
                   | None \<Rightarrow> Inr None))
       (\<lambda>score. Inr \<lparr>sr_note_path = or_empty (rw_note_path r), sr_note_title = or_empty (rw_note_title r),
          sr_folder = or_empty (rw_folder r), sr_headers = or_empty (rw_headers r),
          sr_tags = or_empty (rw_tags r), sr_text = or_empty (rw_text r), sr_score = score\<rparr>)"

fun format_search_results :: "search_conf \<Rightarrow> row list \<Rightarrow> search_result list result" where
  "format_search_results S [] = Inr []"
| "format_search_results S (r # rs) =
     bind_result (format_row S r) (\<lambda>x. bind_result (format_search_results S rs) (\<lambda>xs. Inr (x # xs)))"

section \<open>Highlighting\<close>

definition allowed_markers :: "string list" where
  "allowed_markers = [''**'', ''*'', ''__'', ''_'', ''=='', ''~~'', [CHR 0x60, CHR 0x60], [CHR 0x60],
     ''<mark>'', ''</mark>'', ''<em>'', ''</em>'', ''<strong>'', ''</strong>'', ''<b>'', ''</b>'',
     ''<i>'', ''</i>'', ''[['', '']]'', ''<<'', ''>>'']"

definition highlight_stopwords :: "string list" where
  "highlight_stopwords = [''the'', ''and'', ''for'', ''that'', ''this'', ''with'', ''from'', ''are'',
     ''was'', ''were'', ''been'', ''have'', ''has'', ''had'', ''but'', ''not'', ''you'', ''all'', ''can'',
     ''her'', ''his'', ''they'', ''will'', ''would'', ''could'', ''should'', ''que'', ''para'', ''com'',
     ''uma'', ''por'', ''mais'', ''como'', ''mas'', ''foi'', ''ser'', ''tem'', ''seu'', ''sua'', ''ele'',
     ''ela'', ''isso'', ''este'', ''esta'']"

definition min_term_length :: nat where "min_term_length = 3"

definition extract_highlight_terms :: "string \<Rightarrow> string list" where
  "extract_highlight_terms query =
     filter (\<lambda>t. min_term_length \<le> length t \<and> py_lower t \<notin> set highlight_stopwords) (py_words query)"

definition validate_markers :: "string \<Rightarrow> string \<Rightarrow> string \<times> string" where
  "validate_markers start_marker end_marker =
     (if start_marker \<in> set allowed_markers then start_marker else ''**'',
      if end_marker \<in> set allowed_markers then end_marker else ''**'')"

text \<open>
  The alternation of the escaped terms with \<open>IGNORECASE\<close> at the start of a text: the first
  term, in the order of the query, that the text starts with.
\<close>

definition term_at :: "string list \<Rightarrow> string \<Rightarrow> string option" where
  "term_at terms s = find (\<lambda>t. t \<noteq> [] \<and> starts_with (py_lower s) (py_lower t)) terms"

text \<open>
  \<open>re.sub\<close>: matches from left to right without overlaps.  The result is the sequence of the
  matched pieces (\<open>True\<close>) and the single characters between them.
\<close>

function pieces :: "string list \<Rightarrow> string \<Rightarrow> (bool \<times> string) list" where
  "pieces terms [] = []"
| "pieces terms (c # cs) =
     (case term_at terms (c # cs) of
        Some t \<Rightarrow> (True, take (length t) (c # cs)) # pieces terms (drop (length t) (c # cs))
      | None \<Rightarrow> (False, [c]) # pieces terms cs)"
  by pat_completeness auto
termination
proof (relation "measure (\<lambda>(terms, s). length s)")
  fix terms c cs t
  assume "term_at terms (c # cs) = Some t"
  then have "0 < length t" by (auto simp: term_at_def find_Some_iff)
  then show "((terms, drop (length t) (c # cs)), terms, c # cs) \<in> measure (\<lambda>(terms, s). length s)"
    by (simp del: length_greater_0_conv)
qed simp_all

definition highlight_text :: "string \<Rightarrow> string \<Rightarrow> string \<Rightarrow> string \<Rightarrow> string" where
  "highlight_text text query start_marker end_marker =
     (if query = [] \<or> text = [] then text
      else case validate_markers start_marker end_marker of (start_marker, end_marker) \<Rightarrow>
        let terms = extract_highlight_terms query in
        if terms = [] then text
        else concat (map (\<lambda>(hit, s). if hit then start_marker @ s @ end_marker else s) (pieces terms text)))"

definition apply_highlight :: "row list \<Rightarrow> string \<Rightarrow> bool \<Rightarrow> string \<Rightarrow> string \<Rightarrow> row list" where
  "apply_highlight rows query highlight start_marker end_marker =
     (if \<not> highlight then rows
      else map (\<lambda>r. r\<lparr>rw_text := Some (highlight_text (or_empty (rw_text r)) query start_marker end_marker)\<rparr>) rows)"


section \<open>Fusion is reciprocal rank fusion\<close>

text \<open>
  The reference: the distinct keys of the two rankings in order of first occurrence, each with
  the sum of \<open>1 / (60 + rank)\<close> over its occurrences, sorted by that score and then by the best
  rank; ties keep the order of first occurrence.
\<close>

definition ranks_of :: "result_key \<Rightarrow> row list \<Rightarrow> nat list" where
  "ranks_of k rows = map fst (filter (\<lambda>(i, r). row_key r = k) (List.enumerate 1 rows))"

definition first_keys :: "row list \<Rightarrow> result_key list" where
  "first_keys rows = rev (remdups (rev (map row_key rows)))"

definition rrf_score :: "row list \<Rightarrow> row list \<Rightarrow> result_key \<Rightarrow> rat" where
  "rrf_score v f k = (\<Sum>i \<leftarrow> ranks_of k v @ ranks_of k f. 1 / of_nat (60 + i))"

definition best_rank :: "row list \<Rightarrow> row list \<Rightarrow> result_key \<Rightarrow> nat" where
  "best_rank v f k = Min (set (ranks_of k v @ ranks_of k f))"

definition rrf_order :: "row list \<Rightarrow> row list \<Rightarrow> result_key list" where
  "rrf_order v f = sort_key (\<lambda>k. (- rrf_score v f k, best_rank v f k)) (first_keys (v @ f))"

lemma sort_key_tie_break:
  assumes "sorted (map h xs)"
  shows "sort_key (\<lambda>x. (f x, g x, h x)) xs = sort_key (\<lambda>x. (f x, g x)) xs"
proof -
  let ?k = "\<lambda>x. (f x, g x, h x)" and ?k' = "\<lambda>x. (f x, g x)"
  have "sort_key ?k' xs = sort_key ?k xs"
  proof (rule properties_for_sort_key)
    show "mset (sort_key ?k xs) = mset xs" by simp
    show "sorted (map ?k' (sort_key ?k xs))"
    proof -
      have "sorted (map ?k (sort_key ?k xs))" by (rule sorted_sort_key)
      then show ?thesis
        by (auto simp: sorted_map elim!: sorted_wrt_mono_rel [rotated])
    qed
    fix x
    have "sorted (map ?k (filter (\<lambda>y. ?k' x = ?k' y) xs))"
    proof -
      have "sorted (map h (filter (\<lambda>y. ?k' x = ?k' y) xs))" using assms by (rule sorted_filter)
      then show ?thesis unfolding sorted_map by (rule sorted_wrt_mono_rel [rotated]) auto
    qed
    then show "filter (\<lambda>y. ?k' x = ?k' y) (sort_key ?k xs) = filter (\<lambda>y. ?k' x = ?k' y) xs"
      by (simp add: filter_sort sort_key_id_if_sorted)
  qed
  then show ?thesis by simp
qed


lemma sort_key_congI:
  assumes "\<And>x. x \<in> set xs \<Longrightarrow> f x = g x"
  shows "sort_key f xs = sort_key g xs"
proof (rule properties_for_sort_key)
  show "mset (sort_key g xs) = mset xs" by simp
  have eq: "map f (sort_key g xs) = map g (sort_key g xs)" using assms by simp
  show "sorted (map f (sort_key g xs))" unfolding eq by (rule sorted_sort_key)
  fix x assume "x \<in> set (sort_key g xs)"
  then have "x \<in> set xs" by simp
  then have "filter (\<lambda>y. f x = f y) (sort_key g xs) = filter (\<lambda>y. g x = g y) (sort_key g xs)"
    using assms by (intro filter_cong refl) auto
  also have "\<dots> = sort_key g (filter (\<lambda>y. g x = g y) xs)" by (simp add: filter_sort)
  also have "\<dots> = filter (\<lambda>y. g x = g y) xs"
  proof (rule sort_key_id_if_sorted)
    show "sorted (map g (filter (\<lambda>y. g x = g y) xs))" by (induction xs) auto
  qed
  also have "\<dots> = filter (\<lambda>y. f x = f y) xs"
    using assms \<open>x \<in> set xs\<close> by (intro filter_cong refl) auto
  finally show "filter (\<lambda>y. f x = f y) (sort_key g xs) = filter (\<lambda>y. f x = f y) xs" .
qed

lemma map_insort_key: "map h (insort_key (\<lambda>x. g (h x)) x xs) = insort_key g (h x) (map h xs)"
  by (induction xs) auto

lemma map_sort_key: "map h (sort_key (\<lambda>x. g (h x)) xs) = sort_key g (map h xs)"
  by (induction xs) (simp_all add: map_insort_key)

text \<open>What the dictionary holds after the rows of a list with their ranks.\<close>

definition hits :: "result_key \<Rightarrow> (nat \<times> row) list \<Rightarrow> nat list" where
  "hits k xs = map fst (filter (\<lambda>(i, r). row_key r = k) xs)"

definition fused_ok :: "(nat \<times> row) list \<Rightarrow> (result_key, fused_entry) dict \<Rightarrow> nat \<Rightarrow> bool" where
  "fused_ok xs d n \<longleftrightarrow>
     n = length d \<and> dkeys d = rev (remdups (rev (map (\<lambda>x. row_key (snd x)) xs))) \<and>
     map (\<lambda>i. fe_order (snd i)) d = [0..<length d] \<and>
     (\<forall>(k, e) \<in> set d. row_key (fe_row e) = k \<and> fe_row e \<in> snd ` set xs \<and>
        fe_score e = (\<Sum>i \<leftarrow> hits k xs. 1 / of_nat (60 + i)) \<and> fe_best_rank e = Min (set (hits k xs)))"

lemma dset_present: "distinct (dkeys d) \<Longrightarrow> dhas d k \<Longrightarrow> dset k v d = map (\<lambda>i. if fst i = k then (k, v) else i) d"
proof (induction d)
  case (Cons i d)
  then show ?case
    by (cases i) (auto simp: dhas_iff image_iff intro!: map_idI [symmetric])
qed (simp add: dhas_def)

lemma hits_append: "hits k (xs @ [(i, r)]) = hits k xs @ (if row_key r = k then [i] else [])"
  by (simp add: hits_def)

lemma hits_Nil_iff: "hits k xs = [] \<longleftrightarrow> k \<notin> (\<lambda>x. row_key (snd x)) ` set xs"
  by (fastforce simp: hits_def filter_empty_conv image_iff)

lemma fused_ok_step:
  assumes "fused_ok xs d n"
  shows "case fuse_step (i, r) (d, n) of (d', n') \<Rightarrow> fused_ok (xs @ [(i, r)]) d' n'"
proof -
  let ?k = "row_key r"
  from assms have n: "n = length d" and keys: "dkeys d = rev (remdups (rev (map (\<lambda>x. row_key (snd x)) xs)))"
    and ord: "map (\<lambda>i. fe_order (snd i)) d = [0..<length d]"
    and ent: "\<And>k e. (k, e) \<in> set d \<Longrightarrow> row_key (fe_row e) = k \<and> fe_row e \<in> snd ` set xs \<and>
        fe_score e = (\<Sum>i \<leftarrow> hits k xs. 1 / of_nat (60 + i)) \<and> fe_best_rank e = Min (set (hits k xs))"
    by (auto simp: fused_ok_def)
  have dist: "distinct (dkeys d)" unfolding keys by simp
  have dom: "dhas d k \<longleftrightarrow> k \<in> (\<lambda>x. row_key (snd x)) ` set xs" for k
  proof -
    have "dhas d k \<longleftrightarrow> k \<in> set (dkeys d)" by (simp add: dhas_iff)
    then show ?thesis unfolding keys by simp
  qed
  show ?thesis
  proof (cases "dget d ?k")
    case None
    then have new: "\<not> dhas d ?k" by (simp add: dhas_def)
    with dom have no: "hits ?k xs = []" by (simp add: hits_Nil_iff)
    let ?e = "\<lparr>fe_row = r, fe_score = 0 + 1 / of_nat (60 + i), fe_best_rank = min i i, fe_order = n\<rparr>"
    have step: "fuse_step (i, r) (d, n) = (d @ [(?k, ?e)], Suc n)"
      using None new by (simp add: fuse_step_def Let_def dset_new hybrid_rrf_k_def)
    have "fused_ok (xs @ [(i, r)]) (d @ [(?k, ?e)]) (Suc n)"
    proof -
      have out: "?k \<notin> (\<lambda>x. row_key (snd x)) ` set xs" using new dom by blast
      have other: "k \<noteq> ?k" if "(k, e) \<in> set d" for k e using that new by (force simp: dhas_iff)
      have "dkeys (d @ [(?k, ?e)]) = rev (remdups (rev (map (\<lambda>x. row_key (snd x)) (xs @ [(i, r)]))))"
        using out by (simp add: keys)
      moreover have "\<forall>(k, e) \<in> set d. row_key (fe_row e) = k \<and> fe_row e \<in> snd ` set (xs @ [(i, r)]) \<and>
          fe_score e = (\<Sum>j \<leftarrow> hits k (xs @ [(i, r)]). 1 / of_nat (60 + j)) \<and>
          fe_best_rank e = Min (set (hits k (xs @ [(i, r)])))"
        using ent other by (fastforce simp: hits_append)
      ultimately show ?thesis
        unfolding fused_ok_def using n ord no by (simp add: hits_append)
    qed
    with step show ?thesis by simp
  next
    case (Some e)
    then have old: "dhas d ?k" and e: "(?k, e) \<in> set d" by (auto simp: dhas_def dest: map_of_SomeD)
    let ?e = "e\<lparr>fe_score := fe_score e + 1 / of_nat (60 + i), fe_best_rank := min (fe_best_rank e) i\<rparr>"
    let ?d = "map (\<lambda>i. if fst i = ?k then (?k, ?e) else i) d"
    have step: "fuse_step (i, r) (d, n) = (?d, n)"
      using Some dist old by (simp add: fuse_step_def Let_def dset_present hybrid_rrf_k_def)
    have same: "e' = e" if "(?k, e') \<in> set d" for e'
      using that e dist by (meson eq_key_imp_eq_value)
    have "dkeys ?d = dkeys d" by auto
    then have "dkeys ?d = rev (remdups (rev (map (\<lambda>x. row_key (snd x)) (xs @ [(i, r)]))))"
      using dom old by (simp add: keys)
    moreover have "map (\<lambda>i. fe_order (snd i)) ?d = map (\<lambda>i. fe_order (snd i)) d"
      using same by auto
    moreover have "hits ?k xs \<noteq> []" using dom old by (simp add: hits_Nil_iff)
    then have "Min (set (hits ?k xs @ [i])) = min (Min (set (hits ?k xs))) i"
      by (simp add: Min_insert min.commute)
    then have "row_key (fe_row ?e) = ?k \<and> fe_row ?e \<in> snd ` set (xs @ [(i, r)]) \<and>
        fe_score ?e = (\<Sum>j \<leftarrow> hits ?k (xs @ [(i, r)]). 1 / of_nat (60 + j)) \<and>
        fe_best_rank ?e = Min (set (hits ?k (xs @ [(i, r)])))"
      using ent [OF e] by (simp add: hits_append)
    moreover have "(k, e') \<in> set d \<and> k \<noteq> ?k \<or> k = ?k \<and> e' = ?e" if "(k, e') \<in> set ?d" for k e'
      using that by (auto split: if_splits)
    moreover have "row_key (fe_row e') = k \<and> fe_row e' \<in> snd ` set (xs @ [(i, r)]) \<and>
        fe_score e' = (\<Sum>j \<leftarrow> hits k (xs @ [(i, r)]). 1 / of_nat (60 + j)) \<and>
        fe_best_rank e' = Min (set (hits k (xs @ [(i, r)])))" if "(k, e') \<in> set d" "k \<noteq> ?k" for k e'
      using ent [OF that(1)] that(2) by (auto simp: hits_append)
    ultimately have "fused_ok (xs @ [(i, r)]) ?d n"
      unfolding fused_ok_def using n ord by (intro conjI ballI) (simp, simp, simp, blast)
    with step show ?thesis by simp
  qed
qed

lemma fused_ok_fold: "case fold fuse_step xs ([], 0) of (d, n) \<Rightarrow> fused_ok xs d n"
proof (induction xs rule: rev_induct)
  case Nil
  show ?case by (simp add: fused_ok_def)
next
  case (snoc x xs)
  obtain d n where run: "fold fuse_step xs ([], 0) = (d, n)" by (cases "fold fuse_step xs ([], 0)")
  with snoc have "fused_ok xs d n" by simp
  from fused_ok_step [OF this, of "fst x" "snd x"] run show ?case by simp
qed


lemma hits_ranks: "hits k (List.enumerate 1 v @ List.enumerate 1 f) = ranks_of k v @ ranks_of k f"
  by (simp add: hits_def ranks_of_def)

lemma slice_to_map: "slice_to (map h xs) n = map h (slice_to xs n)"
  by (simp add: slice_to_def take_map)

lemma slice_to_set: "set (slice_to xs n) \<subseteq> set xs"
  by (simp add: slice_to_def set_take_subset)


section \<open>Highlighting only adds markers\<close>

lemma term_at_Some:
  "term_at terms s = Some t \<Longrightarrow> t \<in> set terms \<and> t \<noteq> [] \<and> py_lower (take (length t) s) = py_lower t"
proof -
  assume "term_at terms s = Some t"
  then have t: "t \<in> set terms" "t \<noteq> []" "starts_with (py_lower s) (py_lower t)"
    by (auto simp: term_at_def find_Some_iff)
  from t(3) obtain z where "py_lower s = py_lower t @ z" by (auto simp: starts_with_def prefix_def)
  then have "take (length t) (py_lower s) = py_lower t" by (simp add: py_lower_def)
  with t show ?thesis by (simp add: py_lower_def take_map)
qed


lemma concat_pieces: "concat (map snd (pieces terms s)) = s"
  by (induction terms s rule: pieces.induct) (auto split: option.split simp del: term_at_def)

lemma pieces_hit:
  "(True, u) \<in> set (pieces terms s) \<Longrightarrow> \<exists>t \<in> set terms. py_lower u = py_lower t"
  by (induction terms s rule: pieces.induct) (auto split: option.splits dest!: term_at_Some)

lemma pieces_miss:
  "pieces terms s = ps @ (False, u) # qs \<Longrightarrow> t \<in> set terms \<Longrightarrow> t \<noteq> [] \<Longrightarrow>
   \<not> starts_with (py_lower (concat (map snd ((False, u) # qs)))) (py_lower t)"
proof (induction terms s arbitrary: ps rule: pieces.induct)
  case (2 terms c cs)
  show ?case
  proof (cases "term_at terms (c # cs)")
    case None
    show ?thesis
    proof (cases ps)
      case Nil
      with 2 None have "(False, u) # qs = pieces terms (c # cs)" by simp
      then have "concat (map snd ((False, u) # qs)) = c # cs" by (simp only: concat_pieces)
      moreover have "\<not> starts_with (py_lower (c # cs)) (py_lower t)"
        using None 2(4,5) unfolding term_at_def find_None_iff by blast
      ultimately show ?thesis by simp
    next
      case (Cons q ps')
      with 2 None show ?thesis by simp
    qed
  next
    case (Some t')
    with 2 show ?thesis by (cases ps) auto
  qed
qed simp

definition wrap :: "string \<Rightarrow> string \<Rightarrow> bool \<times> string \<Rightarrow> string" where
  "wrap start_marker end_marker p = (if fst p then start_marker @ snd p @ end_marker else snd p)"

text \<open>Highlighting only adds markers: the text is cut into pieces that spell the original, the
  highlighted ones, put between markers of the allow-list, are occurrences of query terms up
  to case, none of them a stop word or shorter than three characters, and at no other piece
  does an occurrence of such a term begin.\<close>

theorem highlight_text_marks:
  "\<exists>ps sm em. highlight_text text query start_marker end_marker = concat (map (wrap sm em) ps) \<and>
     concat (map snd ps) = text \<and> sm \<in> set allowed_markers \<and> em \<in> set allowed_markers \<and>
     (start_marker \<in> set allowed_markers \<longrightarrow> sm = start_marker) \<and>
     (end_marker \<in> set allowed_markers \<longrightarrow> em = end_marker) \<and>
     (\<forall>u. (True, u) \<in> set ps \<longrightarrow> (\<exists>t \<in> set (py_words query). py_lower u = py_lower t \<and>
        3 \<le> length t \<and> py_lower t \<notin> set highlight_stopwords)) \<and>
     (\<forall>xs u bs t. ps = xs @ (False, u) # bs \<longrightarrow> t \<in> set (extract_highlight_terms query) \<longrightarrow>
        \<not> starts_with (py_lower (concat (map snd ((False, u) # bs)))) (py_lower t))"
proof -
  let ?terms = "extract_highlight_terms query"
  obtain sm em where m: "validate_markers start_marker end_marker = (sm, em)"
    by (cases "validate_markers start_marker end_marker")
  have stars: "''**'' \<in> set allowed_markers" by (simp add: allowed_markers_def)
  from m stars have marks: "sm \<in> set allowed_markers" "em \<in> set allowed_markers"
    "start_marker \<in> set allowed_markers \<longrightarrow> sm = start_marker"
    "end_marker \<in> set allowed_markers \<longrightarrow> em = end_marker"
    by (auto simp: validate_markers_def split: if_splits)
  have none: "pieces [] s = map (\<lambda>c. (False, [c])) s" for s
    by (induction s) (simp_all add: term_at_def)
  have words_Nil: "py_words [] = []" by (simp add: py_words.simps lstrip_def)
  have eq: "highlight_text text query start_marker end_marker = concat (map (wrap sm em) (pieces ?terms text))"
  proof (cases "query = [] \<or> text = [] \<or> ?terms = []")
    case True
    then have "?terms = [] \<or> text = []" by (auto simp: extract_highlight_terms_def words_Nil)
    moreover have "concat (map (wrap sm em) (pieces [] text)) = text"
      unfolding none by (induction "text") (simp_all add: wrap_def)
    ultimately have "concat (map (wrap sm em) (pieces ?terms text)) = text" by auto
    moreover have "highlight_text text query start_marker end_marker = text"
      using True by (auto simp: highlight_text_def m)
    ultimately show ?thesis by simp
  next
    case False
    have "(\<lambda>(hit, s). if hit then sm @ s @ em else s) = wrap sm em" by (auto simp: wrap_def)
    with False show ?thesis by (simp add: highlight_text_def m Let_def)
  qed
  have hit: "\<exists>t \<in> set (py_words query). py_lower u = py_lower t \<and> 3 \<le> length t \<and> py_lower t \<notin> set highlight_stopwords"
    if "(True, u) \<in> set (pieces ?terms text)" for u
    using pieces_hit [OF that] by (auto simp: extract_highlight_terms_def min_term_length_def)
  have no: "\<not> starts_with (py_lower (concat (map snd ((False, u) # bs)))) (py_lower t)"
    if "pieces ?terms text = xs @ (False, u) # bs" "t \<in> set ?terms" for xs u bs t
  proof (rule pieces_miss [OF that])
    from that(2) show "t \<noteq> []" by (auto simp: extract_highlight_terms_def min_term_length_def)
  qed
  from eq concat_pieces [of ?terms "text"] marks hit no show ?thesis
    by (intro exI [of _ "pieces ?terms text"] exI [of _ sm] exI [of _ em]) blast
qed

end
