(* ===== verification/Filters.thy ===== *)
theory Filters
  imports Ranking Py_Values
begin

text \<open>
  The database filters of the search (\<open>core/searcher.py\<close>): the folder condition, the date
  filter and the \<open>WHERE\<close> clause of the advanced search, as the strings the code builds.  They
  are read back by \<open>sql_prepare\<close>, which turns a filter into a template, with a question mark
  for every string literal, and the list of the literals' values: the prepared statement the
  text amounts to.
\<close>

section \<open>Clauses\<close>

definition sq :: "string \<Rightarrow> string" where
  "sq s = quote_char # s @ [quote_char]"

definition folder_clause :: "string \<Rightarrow> string" where
  "folder_clause folder =
     (let escaped_sql = escape_sql_string folder; escaped_like = escape_like_pattern folder in
      ''(folder = '' @ sq escaped_sql @ '' OR folder LIKE '' @ sq (escaped_like @ ''/%'') @ '')'')"

text \<open>
  \<open>datetime.now() - timedelta(days=n)\<close> in ISO form, and whether \<open>strptime\<close> accepts a text for
  a format.
\<close>

record date_lib =
  dl_ago :: "nat \<Rightarrow> string"
  dl_strptime :: "string \<Rightarrow> string \<Rightarrow> bool"

datatype date_range = Named string | Range "(string, pyval) dict"

definition iso_datetime :: string where "iso_datetime = ''%Y-%m-%dT%H:%M:%S''"
definition iso_date :: string where "iso_date = ''%Y-%m-%d''"

definition validate_iso_date :: "date_lib \<Rightarrow> pyval \<Rightarrow> string option" where
  "validate_iso_date D v =
     (case v of
        PStr date_str \<Rightarrow>
          if date_str = [] then None
          else let date_str = take 19 (strip date_str) in
            if dl_strptime D (if CHR ''T'' \<in> set date_str then iso_datetime else iso_date) date_str
            then Some date_str else None
      | _ \<Rightarrow> None)"

definition bound_condition :: "date_lib \<Rightarrow> (string, pyval) dict \<Rightarrow> string \<Rightarrow> string \<Rightarrow> string list" where
  "bound_condition D r key op =
     (case dget r key of
        None \<Rightarrow> []
      | Some v \<Rightarrow> (case validate_iso_date D v of
          None \<Rightarrow> []
        | Some d \<Rightarrow> if d = [] then [] else [''modified_at '' @ op @ '' '' @ sq (escape_sql_string d)]))"

definition named_days :: "string \<Rightarrow> nat option" where
  "named_days name =
     (if name = ''today'' then Some 1 else if name = ''week'' then Some 7
      else if name = ''month'' then Some 30 else if name = ''year'' then Some 365 else None)"

definition build_date_filter :: "date_lib \<Rightarrow> date_range \<Rightarrow> string option" where
  "build_date_filter D r =
     (case r of
        Named name \<Rightarrow> map_option (\<lambda>n. ''modified_at >= '' @ sq (dl_ago D n)) (named_days name)
      | Range m \<Rightarrow>
          (let conditions = bound_condition D m ''from'' ''>='' @ bound_condition D m ''to'' ''<='' in
           if conditions \<noteq> [] then Some (py_join '' AND '' conditions) else None))"

text \<open>The arguments of \<open>search_advanced\<close> that become filters; an absent one is empty.\<close>

record filters =
  fl_tags :: "string list"
  fl_folder :: string
  fl_extension :: string
  fl_date_range :: "date_range option"
  fl_status :: string
  fl_note_type :: string
  fl_category :: string
  fl_project :: string

definition tags_clause :: "string list \<Rightarrow> string list" where
  "tags_clause tags =
     (if tags = [] then []
      else [''('' @ py_join '' OR '' (map (\<lambda>t. ''tags LIKE '' @ sq (''%'' @ escape_like_pattern t @ ''%'')) tags) @ '')''])"

definition dotted :: "string \<Rightarrow> string" where
  "dotted extension = (let ext = py_lower extension in
     if starts_with ext ''.'' then ext else CHR ''.'' # ext)"

definition truthy_range :: "date_range option \<Rightarrow> date_range option" where
  "truthy_range r = (case r of
      Some (Named s) \<Rightarrow> if s = [] then None else r
    | Some (Range m) \<Rightarrow> if m = [] then None else r
    | None \<Rightarrow> None)"

definition text_clause :: "string \<Rightarrow> string \<Rightarrow> string list" where
  "text_clause pre v = [pre @ sq v]"

definition advanced_conditions :: "date_lib \<Rightarrow> filters \<Rightarrow> string list" where
  "advanced_conditions D F =
     tags_clause (fl_tags F) @
     (if fl_folder F = [] then [] else [folder_clause (fl_folder F)]) @
     (if fl_extension F = [] then []
      else text_clause ''note_path LIKE '' (CHR ''%'' # escape_like_pattern (dotted (fl_extension F)))) @
     (case truthy_range (fl_date_range F) of None \<Rightarrow> []
      | Some r \<Rightarrow> (case build_date_filter D r of None \<Rightarrow> [] | Some c \<Rightarrow> [c])) @
     (if fl_status F = [] then []
      else text_clause ''status = '' (escape_sql_string (strip (py_lower (fl_status F))))) @
     (if fl_note_type F = [] then []
      else text_clause ''note_type = '' (escape_sql_string (strip (py_lower (fl_note_type F))))) @
     (if fl_category F = [] then []
      else text_clause ''category LIKE ''
        (''%'' @ escape_like_pattern (strip (py_lower (fl_category F))) @ ''%'')) @
     (if fl_project F = [] then []
      else text_clause ''project = '' (escape_sql_string (strip (fl_project F))))"

definition where_clause :: "date_lib \<Rightarrow> filters \<Rightarrow> string option" where
  "where_clause D F =
     (let conditions = advanced_conditions D F in
      if conditions \<noteq> [] then Some (py_join '' AND '' conditions) else None)"

section \<open>Reading a filter\<close>

lemma sql_literal_shorter: "sql_literal s = Some (v, rest) \<Longrightarrow> length rest < length s"
  by (induction s arbitrary: v rest rule: sql_literal.induct)
    (fastforce split: if_splits list.splits option.splits prod.splits)+

function sql_prepare :: "string \<Rightarrow> (string \<times> string list) option" where
  "sql_prepare [] = Some ([], [])"
| "sql_prepare (c # cs) =
     (if c = quote_char then
        (case sql_literal cs of
           None \<Rightarrow> None
         | Some (v, rest) \<Rightarrow> map_option (\<lambda>(t, ps). (CHR ''?'' # t, v # ps)) (sql_prepare rest))
      else map_option (\<lambda>(t, ps). (c # t, ps)) (sql_prepare cs))"
  by pat_completeness auto
termination
  by (relation "measure length") (auto dest: sql_literal_shorter)

text \<open>A piece of a filter that reads as a template with values, whatever follows it.\<close>

definition reads :: "string \<Rightarrow> string \<Rightarrow> string list \<Rightarrow> bool" where
  "reads s t ps \<longleftrightarrow> (\<forall>rest. rest = [] \<or> hd rest \<noteq> quote_char \<longrightarrow>
     sql_prepare (s @ rest) = map_option (\<lambda>(t', ps'). (t @ t', ps @ ps')) (sql_prepare rest))"

lemma reads_whole: "reads s t ps \<Longrightarrow> sql_prepare s = Some (t, ps)"
  unfolding reads_def by (drule spec [of _ "[]"]) simp

lemma reads_code: "quote_char \<notin> set s \<Longrightarrow> reads s s []"
proof -
  have "quote_char \<notin> set s \<Longrightarrow> sql_prepare (s @ rest) = map_option (\<lambda>(t', ps'). (s @ t', ps')) (sql_prepare rest)" for rest
    by (cases "sql_prepare rest"; induction s) auto
  then show "quote_char \<notin> set s \<Longrightarrow> reads s s []" by (simp add: reads_def)
qed

lemma reads_literal: "reads (sq (replace_char quote_char [quote_char, quote_char] v)) ''?'' [v]"
  unfolding reads_def
proof (intro allI impI)
  fix rest :: string
  assume "rest = [] \<or> hd rest \<noteq> quote_char"
  then have "sql_literal (replace_char quote_char [quote_char, quote_char] v @ quote_char # rest) = Some (v, rest)"
    by (rule sql_literal_escaped)
  then show "sql_prepare (sq (replace_char quote_char [quote_char, quote_char] v) @ rest) =
      map_option (\<lambda>(t', ps'). (''?'' @ t', [v] @ ps')) (sql_prepare rest)"
    by (simp add: sq_def)
qed

lemma reads_append:
  assumes "reads a t ps" and "reads b t' ps'" and "b = [] \<or> hd b \<noteq> quote_char"
  shows "reads (a @ b) (t @ t') (ps @ ps')"
  unfolding reads_def
proof (intro allI impI)
  fix rest :: string
  assume rest: "rest = [] \<or> hd rest \<noteq> quote_char"
  with assms(3) have "b @ rest = [] \<or> hd (b @ rest) \<noteq> quote_char" by (cases b) auto
  then have "sql_prepare (a @ b @ rest) =
      map_option (\<lambda>(t', ps'). (t @ t', ps @ ps')) (sql_prepare (b @ rest))"
    using assms(1) unfolding reads_def by blast
  also have "sql_prepare (b @ rest) = map_option (\<lambda>(t'', ps''). (t' @ t'', ps' @ ps'')) (sql_prepare rest)"
    using assms(2) rest unfolding reads_def by blast
  finally show "sql_prepare ((a @ b) @ rest) =
      map_option (\<lambda>(t'', ps''). ((t @ t') @ t'', (ps @ ps') @ ps'')) (sql_prepare rest)"
    by (cases "sql_prepare rest") auto
qed

lemma sq_escape_sql: "reads (sq (escape_sql_string v)) ''?'' [v]"
  unfolding escape_sql_eq by (rule reads_literal)

lemma sq_pattern:
  assumes "quote_char \<notin> set a" and "quote_char \<notin> set b"
  shows "reads (sq (a @ escape_like_pattern v @ b)) ''?'' [a @ like_escape v @ b]"
proof -
  have "replace_char quote_char [quote_char, quote_char] c = c" if "quote_char \<notin> set c" for c
    using that by (induction c) auto
  moreover have "replace_char quote_char [quote_char, quote_char] (x @ y) =
      replace_char quote_char [quote_char, quote_char] x @ replace_char quote_char [quote_char, quote_char] y" for x y
    by (induction x) auto
  ultimately have "a @ escape_like_pattern v @ b =
      replace_char quote_char [quote_char, quote_char] (a @ like_escape v @ b)"
    using assms by (simp add: escape_like_eq)
  then show ?thesis by (simp only: reads_literal)
qed

lemma sq_plain: "quote_char \<notin> set v \<Longrightarrow> reads (sq v) ''?'' [v]"
proof -
  assume "quote_char \<notin> set v"
  then have "replace_char quote_char [quote_char, quote_char] v = v" by (induction v) auto
  then show ?thesis using reads_literal [of v] by simp
qed

lemma reads_code_append:
  assumes "quote_char \<notin> set a" and "reads b t ps"
  shows "reads (a @ b) (a @ t) ps"
  using assms(1)
proof (induction a)
  case (Cons c a)
  then have a: "reads (a @ b) (a @ t) ps" and c: "c \<noteq> quote_char" by auto
  show ?case
    unfolding reads_def
  proof (intro allI impI)
    fix rest :: string
    assume "rest = [] \<or> hd rest \<noteq> quote_char"
    with a have "sql_prepare ((a @ b) @ rest) = map_option (\<lambda>(t', ps'). ((a @ t) @ t', ps @ ps')) (sql_prepare rest)"
      unfolding reads_def by blast
    with c show "sql_prepare (((c # a) @ b) @ rest) =
        map_option (\<lambda>(t', ps'). (((c # a) @ t) @ t', ps @ ps')) (sql_prepare rest)"
      by (cases "sql_prepare rest") auto
  qed
qed (simp add: assms(2))

text \<open>A list of clauses joined by a separator.\<close>

definition clause_reads :: "string \<Rightarrow> string \<times> string list \<Rightarrow> bool" where
  "clause_reads c p \<longleftrightarrow> reads c (fst p) (snd p) \<and> c \<noteq> [] \<and> hd c \<noteq> quote_char"

lemma clauses_join:
  assumes "quote_char \<notin> set sep" "sep \<noteq> []"
  shows "list_all2 clause_reads cs ps \<Longrightarrow>
    reads (py_join sep cs) (py_join sep (map fst ps)) (concat (map snd ps))"
proof (induction cs arbitrary: ps rule: induct_list012)
  case 1
  then show ?case using reads_code [of "[]"] by simp
next
  case (2 c)
  then show ?case by (auto simp: list_all2_Cons1 clause_reads_def)
next
  case (3 c d cs)
  then obtain p q qs where ps: "ps = p # q # qs" and c: "clause_reads c p"
    and rest: "list_all2 clause_reads (d # cs) (q # qs)" by (auto simp: list_all2_Cons1)
  have "reads (sep @ py_join sep (d # cs)) (sep @ py_join sep (map fst (q # qs))) (concat (map snd (q # qs)))"
    using 3(2) [OF rest] by (rule reads_code_append [OF assms(1)])
  moreover have "hd (sep @ py_join sep (d # cs)) \<noteq> quote_char" using assms by (cases sep) auto
  ultimately have "reads (c @ sep @ py_join sep (d # cs)) (fst p @ sep @ py_join sep (map fst (q # qs)))
      (snd p @ concat (map snd (q # qs)))"
    using c unfolding clause_reads_def by (blast intro: reads_append)
  then show ?case using ps 3 by simp
qed

lemma clause_text: "quote_char \<notin> set pre \<Longrightarrow> pre \<noteq> [] \<Longrightarrow> reads (sq v) ''?'' [x] \<Longrightarrow>
  clause_reads (pre @ sq v) (pre @ ''?'', [x])"
  using reads_code_append [of pre "sq v" "''?''" "[x]"] by (cases pre) (auto simp: clause_reads_def)


section \<open>The filters amount to prepared statements\<close>

definition date_prepared :: "date_lib \<Rightarrow> (string, pyval) dict \<Rightarrow> string \<Rightarrow> string \<Rightarrow> (string \<times> string list) list" where
  "date_prepared D r key op =
     (case Option.bind (dget r key) (validate_iso_date D) of
        None \<Rightarrow> [] | Some d \<Rightarrow> if d = [] then [] else [(''modified_at '' @ op @ '' ?'', [d])])"

definition range_prepared :: "date_lib \<Rightarrow> date_range \<Rightarrow> (string \<times> string list) list" where
  "range_prepared D r =
     (case r of
        Named name \<Rightarrow> (case named_days name of None \<Rightarrow> [] | Some n \<Rightarrow> [(''modified_at >= ?'', [dl_ago D n])])
      | Range m \<Rightarrow> (let ds = date_prepared D m ''from'' ''>='' @ date_prepared D m ''to'' ''<='' in
          if ds = [] then [] else [(py_join '' AND '' (map fst ds), concat (map snd ds))]))"

definition prepared :: "date_lib \<Rightarrow> filters \<Rightarrow> (string \<times> string list) list" where
  "prepared D F =
     (if fl_tags F = [] then []
      else [(''('' @ py_join '' OR '' (map (\<lambda>_. ''tags LIKE ?'') (fl_tags F)) @ '')'',
             map (\<lambda>t. ''%'' @ like_escape t @ ''%'') (fl_tags F))]) @
     (if fl_folder F = [] then []
      else [(''(folder = ? OR folder LIKE ?)'', [fl_folder F, like_escape (fl_folder F) @ ''/%''])]) @
     (if fl_extension F = [] then []
      else [(''note_path LIKE ?'', [CHR ''%'' # like_escape (dotted (fl_extension F))])]) @
     (case truthy_range (fl_date_range F) of None \<Rightarrow> [] | Some r \<Rightarrow> range_prepared D r) @
     (if fl_status F = [] then [] else [(''status = ?'', [strip (py_lower (fl_status F))])]) @
     (if fl_note_type F = [] then [] else [(''note_type = ?'', [strip (py_lower (fl_note_type F))])]) @
     (if fl_category F = [] then []
      else [(''category LIKE ?'', [''%'' @ like_escape (strip (py_lower (fl_category F))) @ ''%''])]) @
     (if fl_project F = [] then [] else [(''project = ?'', [strip (fl_project F)])])"

lemma folder_reads: "clause_reads (folder_clause f) (''(folder = ? OR folder LIKE ?)'', [f, like_escape f @ ''/%''])"
proof -
  have "reads (sq (escape_like_pattern f @ ''/%'')) ''?'' [like_escape f @ ''/%'']"
    using sq_pattern [of "[]" "''/%''" f] by simp
  from reads_append [OF this reads_code [of "'')''"]]
  have "reads (sq (escape_like_pattern f @ ''/%'') @ '')'') (''?'' @ '')'') [like_escape f @ ''/%'']" by simp
  from reads_code_append [OF _ this, of "'' OR folder LIKE ''"]
  have "reads ('' OR folder LIKE '' @ sq (escape_like_pattern f @ ''/%'') @ '')'') '' OR folder LIKE ?)''
      [like_escape f @ ''/%'']" by simp
  from reads_append [OF sq_escape_sql [of f] this]
  have "reads (sq (escape_sql_string f) @ '' OR folder LIKE '' @ sq (escape_like_pattern f @ ''/%'') @ '')'')
      ''? OR folder LIKE ?)'' [f, like_escape f @ ''/%'']" by simp
  from reads_code_append [OF _ this, of "''(folder = ''"] show ?thesis
    by (simp add: clause_reads_def folder_clause_def Let_def)
qed

lemma pattern_reads:
  "quote_char \<notin> set pre \<Longrightarrow> pre \<noteq> [] \<Longrightarrow> quote_char \<notin> set a \<Longrightarrow> quote_char \<notin> set b \<Longrightarrow>
   clause_reads (pre @ sq (a @ escape_like_pattern v @ b)) (pre @ ''?'', [a @ like_escape v @ b])"
  by (intro clause_text sq_pattern)

lemma value_reads:
  "quote_char \<notin> set pre \<Longrightarrow> pre \<noteq> [] \<Longrightarrow> clause_reads (pre @ sq (escape_sql_string v)) (pre @ ''?'', [v])"
  by (intro clause_text sq_escape_sql)

lemma tags_reads: "tags \<noteq> [] \<Longrightarrow> list_all2 clause_reads (tags_clause tags)
  [(''('' @ py_join '' OR '' (map (\<lambda>_. ''tags LIKE ?'') tags) @ '')'', map (\<lambda>t. ''%'' @ like_escape t @ ''%'') tags)]"
proof -
  assume "tags \<noteq> []"
  let ?cs = "map (\<lambda>t. ''tags LIKE '' @ sq (''%'' @ escape_like_pattern t @ ''%'')) tags"
  let ?ps = "map (\<lambda>t. (''tags LIKE ?'', [''%'' @ like_escape t @ ''%''])) tags"
  have "list_all2 clause_reads ?cs ?ps"
    using pattern_reads [of "''tags LIKE ''" "''%''" "''%''"] by (simp add: list_all2_map1 list_all2_map2 list_all2_same)
  from clauses_join [OF _ _ this, of "'' OR ''"]
  have "reads (py_join '' OR '' ?cs) (py_join '' OR '' (map (\<lambda>_. ''tags LIKE ?'') tags)) (map (\<lambda>t. ''%'' @ like_escape t @ ''%'') tags)"
    by (simp add: comp_def)
  from reads_append [OF this reads_code [of "'')''"]]
  have "reads (py_join '' OR '' ?cs @ '')'') (py_join '' OR '' (map (\<lambda>_. ''tags LIKE ?'') tags) @ '')'')
      (map (\<lambda>t. ''%'' @ like_escape t @ ''%'') tags)" by simp
  from reads_code_append [OF _ this, of "''(''"] \<open>tags \<noteq> []\<close> show ?thesis
    by (simp add: tags_clause_def clause_reads_def)
qed

lemma bound_reads:
  "quote_char \<notin> set op \<Longrightarrow> list_all2 clause_reads (bound_condition D m key op) (date_prepared D m key op)"
  using value_reads [of "''modified_at '' @ op @ '' ''"]
  by (auto simp: bound_condition_def date_prepared_def split: option.split)

lemma joined_reads:
  assumes "list_all2 clause_reads cs ps" and "cs \<noteq> []"
  shows "clause_reads (py_join '' AND '' cs) (py_join '' AND '' (map fst ps), concat (map snd ps))"
proof -
  obtain c cs' where cs: "cs = c # cs'" using assms(2) by (cases cs) auto
  with assms(1) have "c \<noteq> []" "hd c \<noteq> quote_char" by (auto simp: list_all2_Cons1 clause_reads_def)
  then have "py_join '' AND '' cs \<noteq> []" "hd (py_join '' AND '' cs) \<noteq> quote_char"
    using cs by (cases cs'; simp)+
  with clauses_join [OF _ _ assms(1), of "'' AND ''"] show ?thesis by (simp add: clause_reads_def)
qed

lemma range_reads:
  assumes "\<And>n. quote_char \<notin> set (dl_ago D n)"
  shows "list_all2 clause_reads (case build_date_filter D r of None \<Rightarrow> [] | Some c \<Rightarrow> [c]) (range_prepared D r)"
proof (cases r)
  case (Named name)
  have "clause_reads (''modified_at >= '' @ sq (dl_ago D n)) (''modified_at >= '' @ ''?'', [dl_ago D n])" for n
    by (intro clause_text sq_plain assms) simp_all
  then show ?thesis using Named by (simp add: build_date_filter_def range_prepared_def split: option.split)
next
  case (Range m)
  let ?cs = "bound_condition D m ''from'' ''>='' @ bound_condition D m ''to'' ''<=''"
  let ?ds = "date_prepared D m ''from'' ''>='' @ date_prepared D m ''to'' ''<=''"
  have all: "list_all2 clause_reads ?cs ?ds" by (intro list_all2_appendI bound_reads) simp_all
  then have "(?cs = []) = (?ds = [])" by (metis list_all2_Nil list_all2_Nil2)
  with joined_reads [OF all] Range show ?thesis
    by (auto simp: build_date_filter_def range_prepared_def Let_def)
qed

lemma advanced_reads:
  assumes "\<And>n. quote_char \<notin> set (dl_ago D n)"
  shows "list_all2 clause_reads (advanced_conditions D F) (prepared D F)"
proof -
  show ?thesis
    unfolding advanced_conditions_def prepared_def
  proof (intro list_all2_appendI)
    show "list_all2 clause_reads
       (case truthy_range (fl_date_range F) of None \<Rightarrow> []
        | Some r \<Rightarrow> (case build_date_filter D r of None \<Rightarrow> [] | Some c \<Rightarrow> [c]))
       (case truthy_range (fl_date_range F) of None \<Rightarrow> [] | Some r \<Rightarrow> range_prepared D r)"
      using range_reads [OF assms] by (simp split: option.split)
  qed (use tags_reads folder_reads pattern_reads [of "''note_path LIKE ''" "''%''" "[]"]
      pattern_reads [of "''category LIKE ''" "''%''" "''%''"] value_reads [of "''status = ''"]
      value_reads [of "''note_type = ''"] value_reads [of "''project = ''"]
      in \<open>simp_all add: text_clause_def tags_clause_def\<close>)
qed

text \<open>C35. No argument of the advanced search can change the structure of its filter: read by an
  SQL scanner, the text built is the fixed template of the filters given, and its literals are
  the given values (stripped, lower-cased and escaped as patterns where the code does so),
  whatever characters they hold.\<close>

theorem where_clause_prepared:
  assumes "\<And>n. quote_char \<notin> set (dl_ago D n)" and "where_clause D F = Some w"
  shows "sql_prepare w = Some (py_join '' AND '' (map fst (prepared D F)), concat (map snd (prepared D F)))"
proof -
  have "w = py_join '' AND '' (advanced_conditions D F)" using assms(2)
    by (auto simp: where_clause_def Let_def split: if_splits)
  with clauses_join [OF _ _ advanced_reads [OF assms(1)], of "'' AND ''"] show ?thesis
    by (intro reads_whole) simp
qed

definition sample_dates :: date_lib where
  "sample_dates = \<lparr>dl_ago = (\<lambda>n. ''2026-01-01T00:00:00''), dl_strptime = (\<lambda>f s. True)\<rparr>"

definition sample_filters :: filters where
  "sample_filters = \<lparr>fl_tags = [''a'', [quote_char]], fl_folder = ''it'' @ [quote_char] @ ''s'', fl_extension = ''MD'',
     fl_date_range = Some (Named ''week''), fl_status = [], fl_note_type = [], fl_category = [],
     fl_project = [quote_char] @ '' OR 1=1''\<rparr>"

theorem where_clause_prepared_witness:
  "\<exists>w. where_clause sample_dates sample_filters = Some w \<and>
     sql_prepare w = Some (''(tags LIKE ? OR tags LIKE ?) AND (folder = ? OR folder LIKE ?) AND note_path LIKE ? AND modified_at >= ? AND project = ?'',
       [''%a%'', ''%'' @ [quote_char] @ ''%'', ''it'' @ [quote_char] @ ''s'', ''it'' @ [quote_char] @ ''s/%'', ''%.md'',
        ''2026-01-01T00:00:00'', [quote_char] @ '' OR 1=1''])"
proof -
  have "advanced_conditions sample_dates sample_filters \<noteq> []"
    by (simp add: advanced_conditions_def sample_filters_def tags_clause_def)
  then obtain w where w: "where_clause sample_dates sample_filters = Some w" by (auto simp: where_clause_def Let_def)
  have "quote_char \<notin> set (dl_ago sample_dates n)" for n by (simp add: sample_dates_def)
  from where_clause_prepared [OF this w]
  have "sql_prepare w = Some (py_join '' AND '' (map fst (prepared sample_dates sample_filters)),
      concat (map snd (prepared sample_dates sample_filters)))" .
  moreover have "py_join '' AND '' (map fst (prepared sample_dates sample_filters)) = ''(tags LIKE ? OR tags LIKE ?) AND (folder = ? OR folder LIKE ?) AND note_path LIKE ? AND modified_at >= ? AND project = ?''"
    by code_simp
  moreover have "concat (map snd (prepared sample_dates sample_filters)) =
      [''%a%'', ''%'' @ [quote_char] @ ''%'', ''it'' @ [quote_char] @ ''s'', ''it'' @ [quote_char] @ ''s/%'', ''%.md'',
        ''2026-01-01T00:00:00'', [quote_char] @ '' OR 1=1'']"
    by code_simp
  ultimately show ?thesis using w by auto
qed

section \<open>The folder filter\<close>

lemma like_match_percent: "like_match ''%'' s"
  by (induction s) auto

lemma like_escape_prefix: "like_match (like_escape v @ p) s \<longleftrightarrow> (\<exists>t. s = v @ t \<and> like_match p t)"
  by (induction v arbitrary: s) (auto split: list.splits)

text \<open>The folder filter has exact boundaries: it selects the notes of the folder and of its
  descendants and no others, whatever characters the folder's name holds.\<close>

theorem folder_clause_exact:
  "\<exists>pat. sql_prepare (folder_clause folder) = Some (''(folder = ? OR folder LIKE ?)'', [folder, pat]) \<and>
     (\<forall>f. f = folder \<or> like_match pat f \<longleftrightarrow> f = folder \<or> prefix (folder @ ''/'') f)"
proof (intro exI conjI allI)
  show "sql_prepare (folder_clause folder) = Some (''(folder = ? OR folder LIKE ?)'', [folder, like_escape folder @ ''/%''])"
    using folder_reads [of folder] by (simp add: clause_reads_def reads_whole)
  fix f
  have "like_match ''/%'' t \<longleftrightarrow> (\<exists>u. t = CHR ''/'' # u)" for t
    using like_match_percent by (cases t) auto
  then show "(f = folder \<or> like_match (like_escape folder @ ''/%'') f) = (f = folder \<or> prefix (folder @ ''/'') f)"
    by (auto simp: like_escape_prefix prefix_def)
qed

end
