(* ===== verification/Searcher.thy ===== *)
theory Searcher
  imports Filters
begin

text \<open>
  The searcher (\<open>core/searcher.py\<close>) and the search tools of the server
  (\<open>server/helpers.py\<close>, \<open>server/search_tools.py\<close>): the pipelines from a query to ranked
  results, similar notes and groups of duplicates.  The database table and the models are
  parameters, functions of the request; the state is the embedding cache.
\<close>

section \<open>The environment of a search\<close>

text \<open>
  \<open>tb_nearest\<close> is a vector query (vector, metric if given, limit, filter), \<open>tb_fts\<close> a keyword
  query and \<open>tb_rows\<close> a scan (filter, limit).  \<open>en_table\<close> is \<open>None\<close> when the index does not
  exist; \<open>en_mean\<close> is the mean of vectors and \<open>en_cosine\<close> the matrix of the cosine
  similarities that numpy computes.
\<close>

record db_table =
  tb_nearest :: "rat list \<Rightarrow> string option \<Rightarrow> int \<Rightarrow> string option \<Rightarrow> row list result"
  tb_fts :: "string \<Rightarrow> int \<Rightarrow> row list result"
  tb_rows :: "string option \<Rightarrow> int \<Rightarrow> row list result"

record search_env =
  en_conf :: search_conf
  en_table :: "db_table option"
  en_metric :: string
  en_digest :: "string \<Rightarrow> string"
  en_embed :: "string \<Rightarrow> rat list result"
  en_others :: "(string, rat list) lru \<Rightarrow> (string, rat list) lru"
  en_rerank :: "string \<Rightarrow> string list \<Rightarrow> rat list result"
  en_dates :: date_lib
  en_mean :: "rat list list \<Rightarrow> rat list"
  en_cosine :: "rat list list \<Rightarrow> nat \<Rightarrow> nat \<Rightarrow> rat"

type_synonym 'a search_step = "(string, rat list) lru \<Rightarrow> 'a result \<times> (string, rat list) lru"

definition bind_search :: "'a search_step \<Rightarrow> ('a \<Rightarrow> 'b search_step) \<Rightarrow> 'b search_step" where
  "bind_search m f = (\<lambda>s. case m s of (Inl e, s) \<Rightarrow> (Inl e, s) | (Inr x, s) \<Rightarrow> f x s)"

definition lift_search :: "'a result \<Rightarrow> 'a search_step" where
  "lift_search r = (\<lambda>s. (r, s))"

definition open_table :: "search_env \<Rightarrow> db_table result" where
  "open_table E = (case en_table E of
     None \<Rightarrow> Inl (RuntimeError (''Index not found. Run '' @ quoted ''reindex_vault()'' @ '' first.'')) | Some t \<Rightarrow> Inr t)"

definition embed :: "search_env \<Rightarrow> string \<Rightarrow> rat list search_step" where
  "embed E query = embed_query (en_digest E) (en_embed E) (en_others E) query"

definition vector_search :: "search_env \<Rightarrow> rat list \<Rightarrow> int \<Rightarrow> string option \<Rightarrow> row list result" where
  "vector_search E vec candidates cond =
     bind_result (open_table E) (\<lambda>t. tb_nearest t vec (Some (en_metric E)) candidates cond)"

section \<open>Pipelines\<close>

definition rerank_and_format :: "search_env \<Rightarrow> string \<Rightarrow> row list \<Rightarrow> int \<Rightarrow> search_result list result" where
  "rerank_and_format E query raw top_k =
     (if raw = [] then Inr []
      else bind_result (rerank (en_conf E) (en_rerank E) query raw top_k) (format_search_results (en_conf E)))"

definition search :: "search_env \<Rightarrow> string \<Rightarrow> int \<Rightarrow> search_result list search_step" where
  "search E query top_k =
     bind_search (embed E query) (\<lambda>vec. lift_search
       (bind_result (vector_search E vec (compute_candidates (en_conf E) top_k) None)
         (\<lambda>raw. rerank_and_format E query raw top_k)))"

definition search_hybrid :: "search_env \<Rightarrow> string \<Rightarrow> int \<Rightarrow> search_result list search_step" where
  "search_hybrid E query top_k =
     bind_search (lift_search (open_table E)) (\<lambda>t.
     bind_search (embed E query) (\<lambda>vec. lift_search
       (let candidates = compute_candidates (en_conf E) top_k in
        bind_result (vector_search E vec candidates None) (\<lambda>vector_results.
        let fts_results = (case tb_fts t query candidates of Inl _ \<Rightarrow> [] | Inr rs \<Rightarrow> rs);
            merged = fuse_hybrid_results (en_conf E) vector_results fts_results candidates
        in rerank_and_format E query merged top_k))))"

definition search_by_folder :: "search_env \<Rightarrow> string \<Rightarrow> string \<Rightarrow> int \<Rightarrow> search_result list search_step" where
  "search_by_folder E query folder top_k =
     bind_search (embed E query) (\<lambda>vec. lift_search
       (bind_result (vector_search E vec (compute_candidates (en_conf E) top_k) (Some (folder_clause folder)))
         (\<lambda>raw. rerank_and_format E query raw top_k)))"

definition search_advanced ::
  "search_env \<Rightarrow> string \<Rightarrow> int \<Rightarrow> filters \<Rightarrow> string list \<Rightarrow> bool \<Rightarrow> string \<Rightarrow> string \<Rightarrow> search_result list search_step" where
  "search_advanced E query top_k F exclude highlight sm em =
     bind_search (embed E query) (\<lambda>vec. lift_search
       (let candidates = compute_candidates (en_conf E) top_k;
            search_candidates = (if exclude \<noteq> [] then min (candidates * 2) (sc_candidates_max (en_conf E))
                                 else candidates) in
        bind_result (vector_search E vec search_candidates (where_clause (en_dates E) F)) (\<lambda>raw.
        if raw = [] then Inr []
        else let raw = (if exclude \<noteq> [] then filter_excluded raw exclude else raw) in
          if raw = [] then Inr []
          else bind_result (rerank (en_conf E) (en_rerank E) query raw top_k) (\<lambda>reranked.
            format_search_results (en_conf E)
              (if highlight then apply_highlight reranked query True sm em else reranked)))))"

section \<open>Similar notes\<close>

record similar_note =
  sn_note_path :: string
  sn_note_title :: string
  sn_folder :: string
  sn_tags :: string
  sn_value :: rat

definition similar_step ::
  "string \<Rightarrow> row \<Rightarrow> (string, similar_note) dict \<Rightarrow> (string, similar_note) dict" where
  "similar_step path r seen =
     (let note_path = or_empty (rw_note_path r);
          d = (case rw_distance r of None \<Rightarrow> 1 | Some d \<Rightarrow> d) in
      if note_path = path then seen
      else case dget seen note_path of
        None \<Rightarrow> dset note_path \<lparr>sn_note_path = note_path, sn_note_title = or_empty (rw_note_title r),
                  sn_folder = or_empty (rw_folder r), sn_tags = or_empty (rw_tags r), sn_value = d\<rparr> seen
      | Some n \<Rightarrow> if d < sn_value n then dset note_path (n\<lparr>sn_value := d\<rparr>) seen else seen)"

fun vectors_of :: "row list \<Rightarrow> rat list list result" where
  "vectors_of [] = Inr []"
| "vectors_of (r # rs) =
     (case rw_vector r of None \<Rightarrow> Inl KeyError | Some v \<Rightarrow> bind_result (vectors_of rs) (\<lambda>vs. Inr (v # vs)))"

fun similarity_scores :: "search_conf \<Rightarrow> similar_note list \<Rightarrow> similar_note list result" where
  "similarity_scores S [] = Inr []"
| "similarity_scores S (n # ns) =
     bind_result (distance_to_score S (sn_value n)) (\<lambda>v.
     bind_result (similarity_scores S ns) (\<lambda>vs. Inr (n\<lparr>sn_value := v\<rparr> # vs)))"

definition rank_similar :: "search_conf \<Rightarrow> string \<Rightarrow> row list \<Rightarrow> int \<Rightarrow> similar_note list result" where
  "rank_similar S path results top_k =
     (let seen_notes = fold (similar_step path) results [];
          sorted_notes = sort_key sn_value (map snd seen_notes)
      in similarity_scores S (slice_to sorted_notes top_k))"

definition find_similar_notes :: "search_env \<Rightarrow> string \<Rightarrow> int \<Rightarrow> similar_note list result" where
  "find_similar_notes E path top_k =
     bind_result (open_table E) (\<lambda>t.
     bind_result (tb_rows t (Some (''note_path = '' @ sq (escape_sql_string path))) 100) (\<lambda>note_chunks.
     if note_chunks = []
     then Inl (ValueError (''Note '' @ quoted path @ '' was not found in the index''))
     else bind_result (vectors_of note_chunks) (\<lambda>vectors.
       bind_result (tb_nearest t (en_mean E vectors) None (compute_candidates (en_conf E) (top_k * 3)) None)
         (\<lambda>results. rank_similar (en_conf E) path results top_k))))"

section \<open>Duplicates\<close>

record note_embedding =
  ne_note_path :: string
  ne_note_title :: string
  ne_folder :: string
  ne_vectors :: "rat list list"

definition embedding_step :: "row \<Rightarrow> (string, note_embedding) dict \<Rightarrow> (string, note_embedding) dict" where
  "embedding_step r d =
     (let path = or_empty (rw_note_path r);
          v = (case rw_vector r of None \<Rightarrow> [] | Some v \<Rightarrow> v) in
      if path = [] then d
      else let n = (case dget d path of
          None \<Rightarrow> \<lparr>ne_note_path = path, ne_note_title = or_empty (rw_note_title r),
                   ne_folder = or_empty (rw_folder r), ne_vectors = []\<rparr>
        | Some n \<Rightarrow> n)
      in dset path (n\<lparr>ne_vectors := ne_vectors n @ [v]\<rparr>) d)"

record duplicate_group =
  dg_notes :: "(string \<times> string \<times> string) list"
  dg_count :: nat
  dg_avg_similarity :: rat

definition similar_indices :: "(nat \<Rightarrow> nat \<Rightarrow> rat) \<Rightarrow> rat \<Rightarrow> nat \<Rightarrow> nat list \<Rightarrow> nat \<Rightarrow> (nat \<times> rat) list" where
  "similar_indices sim threshold n processed i =
     map (\<lambda>j. (j, sim i j)) (filter (\<lambda>j. j \<notin> set processed \<and> threshold \<le> sim i j) [Suc i..<n])"

text \<open>The loop over the notes: a group is its first note and the notes similar to it.\<close>

fun group_duplicates ::
  "(nat \<Rightarrow> nat \<Rightarrow> rat) \<Rightarrow> rat \<Rightarrow> nat \<Rightarrow> nat list \<Rightarrow> nat list \<Rightarrow> (nat \<times> (nat \<times> rat) list) list" where
  "group_duplicates sim threshold n processed [] = []"
| "group_duplicates sim threshold n processed (i # is) =
     (if i \<in> set processed then group_duplicates sim threshold n processed is
      else let similar = similar_indices sim threshold n processed i;
               rest = group_duplicates sim threshold n (i # map fst similar @ processed) is
           in if similar = [] then rest else (i, similar) # rest)"

definition note_identity :: "note_embedding \<Rightarrow> string \<times> string \<times> string" where
  "note_identity n = (ne_note_path n, ne_note_title n, ne_folder n)"

definition make_group :: "search_conf \<Rightarrow> note_embedding list \<Rightarrow> nat \<times> (nat \<times> rat) list \<Rightarrow> duplicate_group" where
  "make_group S notes g =
     (case g of (i, similar) \<Rightarrow>
        let group_notes = note_identity (notes ! i) # map (\<lambda>(j, _). note_identity (notes ! j)) similar;
            scores = map snd similar
        in \<lparr>dg_notes = group_notes, dg_count = length group_notes,
            dg_avg_similarity = (if scores = [] then 0
              else py_round (sc_precision S) (sum_list scores / of_nat (length scores)))\<rparr>)"

definition max_safe_notes :: int where "max_safe_notes = 2000"

definition duplicates_of :: "search_env \<Rightarrow> rat \<Rightarrow> int \<Rightarrow> row list \<Rightarrow> duplicate_group list" where
  "duplicates_of E threshold max_notes all_chunks =
     (let embeddings = fold embedding_step all_chunks [];
          embeddings = (if max_notes < int (length embeddings) then slice_to embeddings max_notes else embeddings);
          notes_list = filter (\<lambda>n. ne_vectors n \<noteq> []) (map snd embeddings) in
      if length notes_list < 2 then []
      else let sim = en_cosine E (map (\<lambda>n. en_mean E (ne_vectors n)) notes_list);
               groups = group_duplicates sim threshold (length notes_list) [] [0..<length notes_list]
           in sort_key (\<lambda>g. - dg_avg_similarity g) (map (make_group (en_conf E) notes_list) groups))"

definition search_duplicates :: "search_env \<Rightarrow> rat \<Rightarrow> int \<Rightarrow> string \<Rightarrow> duplicate_group list result" where
  "search_duplicates E threshold max_notes folder =
     (let max_notes = min max_notes max_safe_notes;
          cond = (if folder = [] then None
            else Some (''folder = '' @ sq (escape_sql_string folder) @ '' OR folder LIKE ''
                   @ sq (escape_like_pattern folder @ ''/%''))) in
      bind_result (open_table E) (\<lambda>t.
      bind_result (tb_rows t cond (max_notes * 100)) (\<lambda>all_chunks.
      Inr (if all_chunks = [] then [] else duplicates_of E threshold max_notes all_chunks))))"

section \<open>Tools\<close>

text \<open>
  The answer of a tool: a value, or a public message.  The reference that \<open>public_error\<close> adds
  is a random identifier, the argument \<open>ref\<close>.
\<close>

type_synonym 'a answer = "string + 'a"

record tool_conf =
  tc_top_k_min :: int
  tc_top_k_max :: int
  tc_max_query :: nat
  tc_extensions :: "string list"

definition public_error :: "string \<Rightarrow> string \<Rightarrow> string \<Rightarrow> string" where
  "public_error code message ref = ''Error ['' @ code @ '']: '' @ message @ '' Reference: '' @ ref @ ''.''"

definition internal_error :: "string \<Rightarrow> string" where
  "internal_error = public_error ''internal_error'' ''The operation could not be completed.''"

definition clamp_top_k :: "tool_conf \<Rightarrow> int \<Rightarrow> int" where
  "clamp_top_k T top_k = max (tc_top_k_min T) (min top_k (tc_top_k_max T))"

definition truncate_query :: "tool_conf \<Rightarrow> string \<Rightarrow> string" where
  "truncate_query T query = (if tc_max_query T < length query then take (tc_max_query T) query else query)"

definition search_answer :: "string \<Rightarrow> 'a result \<Rightarrow> 'a answer" where
  "search_answer ref r =
     (case r of
        Inr x \<Rightarrow> Inr x
      | Inl e \<Rightarrow> Inl (if isinstance e C_RuntimeError
          then public_error ''search_unavailable'' ''Search is temporarily unavailable.'' ref
          else internal_error ref))"

definition execute_search ::
  "tool_conf \<Rightarrow> string \<Rightarrow> string \<Rightarrow> int \<Rightarrow> (string \<Rightarrow> int \<Rightarrow> 'a search_step)
    \<Rightarrow> (string, rat list) lru \<Rightarrow> 'a answer \<times> (string, rat list) lru" where
  "execute_search T ref query top_k search_fn s =
     (if query = [] \<or> strip query = [] then (Inl ''Error: query cannot be empty.'', s)
      else case search_fn (truncate_query T (strip query)) (clamp_top_k T top_k) s of
        (r, s) \<Rightarrow> (search_answer ref r, s))"

definition search_by_folder_tool where
  "search_by_folder_tool T E ref query folder top_k s =
     (if folder = [] \<or> strip folder = [] then (Inl ''Error: folder cannot be empty.'', s)
      else execute_search T ref query top_k (\<lambda>q k. search_by_folder E q (strip folder) k) s)"

definition find_similar_notes_tool :: "search_env \<Rightarrow> string \<Rightarrow> string \<Rightarrow> int \<Rightarrow> similar_note list answer" where
  "find_similar_notes_tool E ref path top_k =
     (if path = [] \<or> strip path = [] then Inl ''Error: path cannot be empty.''
      else case find_similar_notes E (strip path) (max 1 (min top_k 20)) of
        Inr x \<Rightarrow> Inr x
      | Inl e \<Rightarrow> Inl (if isinstance e C_ValueError
          then public_error ''invalid_request'' ''The note does not exist or the path is invalid.'' ref
          else internal_error ref))"

definition search_duplicates_tool :: "search_env \<Rightarrow> string \<Rightarrow> rat \<Rightarrow> int \<Rightarrow> string \<Rightarrow> duplicate_group list answer" where
  "search_duplicates_tool E ref threshold max_notes folder =
     (case search_duplicates E (max (1 / 2) (min threshold (99 / 100))) (max 10 (min max_notes 1000))
             (if folder = [] then folder else strip folder) of
        Inr x \<Rightarrow> Inr x
      | Inl _ \<Rightarrow> Inl (internal_error ref))"

text \<open>The arguments of the advanced search tool as they arrive; absent texts are empty.\<close>

record advanced_args =
  aa_filters :: filters
  aa_date_range :: string
  aa_date_from :: string
  aa_date_to :: string
  aa_exclude :: "string list"
  aa_highlight :: bool

definition max_exclude_terms :: nat where "max_exclude_terms = 20"

definition effective_date_range :: "advanced_args \<Rightarrow> date_range option" where
  "effective_date_range A =
     (if aa_date_range A \<noteq> [] then Some (Named (py_lower (strip (aa_date_range A))))
      else if aa_date_from A \<noteq> [] \<or> aa_date_to A \<noteq> []
      then Some (Range ((if aa_date_from A \<noteq> [] then [(''from'', PStr (strip (aa_date_from A)))] else []) @
                        (if aa_date_to A \<noteq> [] then [(''to'', PStr (strip (aa_date_to A)))] else [])))
      else None)"

definition stripped_terms :: "string list \<Rightarrow> string list" where
  "stripped_terms ts = map strip (filter (\<lambda>t. t \<noteq> [] \<and> strip t \<noteq> []) ts)"

definition normalized_extension :: "tool_conf \<Rightarrow> string \<Rightarrow> string answer" where
  "normalized_extension T extension =
     (if extension = [] \<or> strip extension = [] then Inr []
      else let ext = dotted (strip extension) in
        if ext \<notin> set (tc_extensions T)
        then Inl (''Error: invalid extension '' @ quoted ext @ ''. Valid values: ''
               @ py_join '', '' (tc_extensions T))
        else Inr ext)"

definition search_advanced_tool ::
  "tool_conf \<Rightarrow> search_env \<Rightarrow> string \<Rightarrow> string \<Rightarrow> int \<Rightarrow> advanced_args
    \<Rightarrow> (string, rat list) lru \<Rightarrow> search_result list answer \<times> (string, rat list) lru" where
  "search_advanced_tool T E ref query top_k A s =
     (if query = [] \<or> strip query = [] then (Inl ''Error: query cannot be empty.'', s)
      else let query = truncate_query T (strip query); top_k = clamp_top_k T top_k; F = aa_filters A in
        case normalized_extension T (fl_extension F) of
          Inl err \<Rightarrow> (Inl err, s)
        | Inr ext \<Rightarrow>
            let F = \<lparr>fl_tags = stripped_terms (fl_tags F), fl_folder = strip (fl_folder F), fl_extension = ext,
                     fl_date_range = effective_date_range A, fl_status = py_lower (strip (fl_status F)),
                     fl_note_type = py_lower (strip (fl_note_type F)),
                     fl_category = py_lower (strip (fl_category F)), fl_project = strip (fl_project F)\<rparr>;
                exclude = take max_exclude_terms (stripped_terms (aa_exclude A))
            in case search_advanced E query top_k F exclude (aa_highlight A) ''**'' ''**'' s of
                 (Inr rs, s) \<Rightarrow> (Inr rs, s)
               | (Inl _, s) \<Rightarrow> (Inl (internal_error ref), s))"


section \<open>Groups of duplicates\<close>

definition members :: "(nat \<times> (nat \<times> rat) list) list \<Rightarrow> nat list" where
  "members gs = concat (map (\<lambda>(i, similar). i # map fst similar) gs)"

lemma members_simps [simp]:
  "members [] = []" "members ((i, similar) # gs) = i # map fst similar @ members gs"
  by (simp_all add: members_def)

lemma similar_indices_set:
  "set (similar_indices sim threshold n processed i) =
     {(j, sim i j) | j. i < j \<and> j < n \<and> j \<notin> set processed \<and> threshold \<le> sim i j}"
  by (auto simp: similar_indices_def)

lemma similar_indices_distinct: "distinct (map fst (similar_indices sim threshold n processed i))"
  by (simp add: similar_indices_def comp_def)

lemma fst_similar:
  "j \<in> fst ` set (similar_indices sim threshold n processed i) \<longleftrightarrow>
     i < j \<and> j < n \<and> j \<notin> set processed \<and> threshold \<le> sim i j"
  by (force simp: similar_indices_set)

lemma group_duplicates_fresh:
  "set (members (group_duplicates sim threshold n processed is)) \<inter> set processed = {} \<and>
   (distinct is \<longrightarrow> distinct (members (group_duplicates sim threshold n processed is)))"
proof (induction sim threshold n processed "is" rule: group_duplicates.induct)
  case (2 sim threshold n processed i "is")
  show ?case
  proof (cases "i \<in> set processed")
    case True
    with 2(1) show ?thesis by auto
  next
    case False
    let ?s = "similar_indices sim threshold n processed i"
    from 2(2) [OF False refl] have
      "set (members (group_duplicates sim threshold n (i # map fst ?s @ processed) is)) \<inter> set (i # map fst ?s @ processed) = {}"
      "distinct is \<Longrightarrow> distinct (members (group_duplicates sim threshold n (i # map fst ?s @ processed) is))" by auto
    with False similar_indices_distinct [of sim threshold n processed i] show ?thesis
      using fst_similar [of _ sim threshold n processed i] by (auto simp: Let_def)
  qed
qed simp

lemma group_duplicates_sound:
  "(i, similar) \<in> set (group_duplicates sim threshold n processed is) \<Longrightarrow>
     similar \<noteq> [] \<and> (\<forall>(j, v) \<in> set similar. i < j \<and> j < n \<and> v = sim i j \<and> threshold \<le> v)"
  by (induction sim threshold n processed "is" rule: group_duplicates.induct)
    (auto simp: Let_def similar_indices_set split: if_splits)

lemma group_duplicates_complete:
  "i < j \<Longrightarrow> j < n \<Longrightarrow> threshold \<le> sim i j \<Longrightarrow> i \<notin> set processed \<Longrightarrow> j \<notin> set processed \<Longrightarrow>
   i \<in> set is \<Longrightarrow> sorted is \<Longrightarrow>
   i \<in> set (members (group_duplicates sim threshold n processed is)) \<or>
   j \<in> set (members (group_duplicates sim threshold n processed is))"
proof (induction sim threshold n processed "is" rule: group_duplicates.induct)
  case (2 sim threshold n processed k "is")
  show ?case
  proof (cases "k \<in> set processed")
    case True
    with 2(1) [OF True] 2(3-) show ?thesis by auto
  next
    case new: False
    let ?s = "similar_indices sim threshold n processed k"
    show ?thesis
    proof (cases "i = k \<or> i \<in> fst ` set ?s \<or> j \<in> fst ` set ?s")
      case True
      have "?s \<noteq> []" using True 2(3-) fst_similar [of j sim threshold n processed k] by auto
      moreover have "i = k \<Longrightarrow> j \<in> fst ` set ?s" using 2(3-) by (simp add: fst_similar)
      ultimately show ?thesis using True new by (auto simp: Let_def)
    next
      case out: False
      with 2(3-) have "i \<in> set is" "k \<le> i" by auto
      with out 2(3-) 2(2) [OF new refl] new show ?thesis by (auto simp: Let_def)
    qed
  qed
qed simp


text \<open>The groups of duplicates partition: no note is in two groups, every group has at least two
  notes, each at least as similar to the first one of its group as the threshold, and of every
  two notes that similar at least one is in a group.\<close>

theorem group_duplicates_partition:
  "distinct (members (group_duplicates sim threshold n [] [0..<n])) \<and>
   (\<forall>(i, similar) \<in> set (group_duplicates sim threshold n [] [0..<n]).
      similar \<noteq> [] \<and> (\<forall>(j, v) \<in> set similar. i < j \<and> j < n \<and> v = sim i j \<and> threshold \<le> v)) \<and>
   (\<forall>i j. i < j \<longrightarrow> j < n \<longrightarrow> threshold \<le> sim i j \<longrightarrow>
      i \<in> set (members (group_duplicates sim threshold n [] [0..<n])) \<or>
      j \<in> set (members (group_duplicates sim threshold n [] [0..<n])))"
proof (intro conjI)
  show "distinct (members (group_duplicates sim threshold n [] [0..<n]))"
    using group_duplicates_fresh [of sim threshold n "[]" "[0..<n]"] by simp
  show "\<forall>(i, similar) \<in> set (group_duplicates sim threshold n [] [0..<n]).
      similar \<noteq> [] \<and> (\<forall>(j, v) \<in> set similar. i < j \<and> j < n \<and> v = sim i j \<and> threshold \<le> v)"
  proof (intro ballI)
    fix g assume g: "g \<in> set (group_duplicates sim threshold n [] [0..<n])"
    obtain i similar where eq: "g = (i, similar)" by (cases g)
    from group_duplicates_sound [OF g [unfolded eq]]
    show "case g of (i, similar) \<Rightarrow> similar \<noteq> [] \<and>
        (\<forall>(j, v) \<in> set similar. i < j \<and> j < n \<and> v = sim i j \<and> threshold \<le> v)"
      unfolding eq prod.case .
  qed
  show "\<forall>i j. i < j \<longrightarrow> j < n \<longrightarrow> threshold \<le> sim i j \<longrightarrow>
      i \<in> set (members (group_duplicates sim threshold n [] [0..<n])) \<or>
      j \<in> set (members (group_duplicates sim threshold n [] [0..<n]))"
  proof (intro allI impI)
    fix i j assume "i < j" "j < n" "threshold \<le> sim i j"
    then show "i \<in> set (members (group_duplicates sim threshold n [] [0..<n])) \<or>
        j \<in> set (members (group_duplicates sim threshold n [] [0..<n]))"
      by (intro group_duplicates_complete) simp_all
  qed
qed

definition sample_similarity :: "nat \<Rightarrow> nat \<Rightarrow> rat" where
  "sample_similarity i j = (if i + j = 3 then 95 / 100 else 1 / 2)"

theorem group_duplicates_partition_witness:
  "group_duplicates sample_similarity (9 / 10) 4 [] [0..<4] = [(0, [(3, 95 / 100)]), (1, [(2, 95 / 100)])] \<and>
   distinct (members (group_duplicates sample_similarity (9 / 10) 4 [] [0..<4]))"
proof
  show "group_duplicates sample_similarity (9 / 10) 4 [] [0..<4] = [(0, [(3, 95 / 100)]), (1, [(2, 95 / 100)])]"
    by (simp add: similar_indices_def sample_similarity_def upt_rec Let_def)
  show "distinct (members (group_duplicates sample_similarity (9 / 10) 4 [] [0..<4]))"
    using group_duplicates_partition [of sample_similarity "9 / 10" 4] by blast
qed

section \<open>Similar notes\<close>

definition row_distance :: "row \<Rightarrow> rat" where
  "row_distance r = (case rw_distance r of None \<Rightarrow> 1 | Some d \<Rightarrow> d)"

definition distances :: "row list \<Rightarrow> string \<Rightarrow> rat list" where
  "distances rows p = map row_distance (filter (\<lambda>r. or_empty (rw_note_path r) = p) rows)"

definition similar_ok :: "string \<Rightarrow> row list \<Rightarrow> (string, similar_note) dict \<Rightarrow> bool" where
  "similar_ok path rows d \<longleftrightarrow> distinct (dkeys d) \<and>
     set (dkeys d) = (\<lambda>r. or_empty (rw_note_path r)) ` set rows - {path} \<and>
     (\<forall>(p, n) \<in> set d. sn_note_path n = p \<and> sn_value n = Min (set (distances rows p)))"

lemma dset_entries: "distinct (dkeys d) \<Longrightarrow> (p, n) \<in> set (dset k v d) \<longleftrightarrow> (if p = k then n = v else (p, n) \<in> set d)"
  by (induction d) (auto simp: image_iff split: if_splits)

lemma distances_append:
  "distances (rows @ [r]) p = distances rows p @ (if or_empty (rw_note_path r) = p then [row_distance r] else [])"
  by (simp add: distances_def)

lemma distances_Nil_iff: "distances rows p = [] \<longleftrightarrow> p \<notin> (\<lambda>r. or_empty (rw_note_path r)) ` set rows"
  by (auto simp: distances_def filter_empty_conv)

lemma similar_ok_dset:
  assumes "similar_ok path rows d" and "or_empty (rw_note_path r) = p" and "p \<noteq> path"
    and "sn_note_path n = p" and "sn_value n = Min (set (distances (rows @ [r]) p))"
  shows "similar_ok path (rows @ [r]) (dset p n d)"
proof -
  from assms(1) have dist: "distinct (dkeys d)"
    and keys: "set (dkeys d) = (\<lambda>r. or_empty (rw_note_path r)) ` set rows - {path}"
    and ent: "\<And>p n. (p, n) \<in> set d \<Longrightarrow> sn_note_path n = p \<and> sn_value n = Min (set (distances rows p))"
    by (auto simp: similar_ok_def)
  have "distinct (dkeys (dset p n d))" using dist by (rule distinct_update)
  moreover have "set (dkeys (dset p n d)) = (\<lambda>r. or_empty (rw_note_path r)) ` set (rows @ [r]) - {path}"
    using keys assms(2,3) unfolding set_dkeys_dset by auto
  moreover have "sn_note_path m = q \<and> sn_value m = Min (set (distances (rows @ [r]) q))"
    if "(q, m) \<in> set (dset p n d)" for q m
    using that assms(2,4,5) ent [of q m] by (cases "q = p") (simp_all add: dset_entries [OF dist] distances_append)
  ultimately show ?thesis unfolding similar_ok_def by blast
qed

lemma dset_same: "distinct (dkeys d) \<Longrightarrow> dget d k = Some v \<Longrightarrow> dset k v d = d"
  by (induction d) auto

lemma similar_ok_step:
  assumes "similar_ok path rows d"
  shows "similar_ok path (rows @ [r]) (similar_step path r d)"
proof -
  let ?p = "or_empty (rw_note_path r)"
  from assms have dist: "distinct (dkeys d)"
    and keys: "set (dkeys d) = (\<lambda>r. or_empty (rw_note_path r)) ` set rows - {path}"
    and ent: "\<And>p n. (p, n) \<in> set d \<Longrightarrow> sn_note_path n = p \<and> sn_value n = Min (set (distances rows p))"
    by (auto simp: similar_ok_def)
  consider "?p = path" | "?p \<noteq> path" "dget d ?p = None" | n where "?p \<noteq> path" "dget d ?p = Some n"
    by (cases "dget d ?p") auto
  then show ?thesis
  proof cases
    case 1
    have "p \<noteq> path" if "(p, n) \<in> set d" for p n using that keys by force
    with 1 have "distances (rows @ [r]) p = distances rows p" if "(p, n) \<in> set d" for p n
      using that by (auto simp: distances_append)
    moreover have "similar_step path r d = d" using 1 by (simp add: similar_step_def)
    moreover have "set (dkeys d) = (\<lambda>r. or_empty (rw_note_path r)) ` set (rows @ [r]) - {path}" using 1 keys by auto
    ultimately show ?thesis using dist ent unfolding similar_ok_def by fastforce
  next
    case 2
    then have "?p \<notin> set (dkeys d)" by (simp add: map_of_eq_None_iff)
    with 2 keys have no: "distances rows ?p = []" by (auto simp: distances_Nil_iff)
    let ?n = "\<lparr>sn_note_path = ?p, sn_note_title = or_empty (rw_note_title r),
        sn_folder = or_empty (rw_folder r), sn_tags = or_empty (rw_tags r), sn_value = row_distance r\<rparr>"
    have "similar_step path r d = dset ?p ?n d" using 2 by (simp add: similar_step_def row_distance_def Let_def)
    moreover have "similar_ok path (rows @ [r]) (dset ?p ?n d)"
      using 2(1) no by (intro similar_ok_dset [OF assms]) (simp_all add: distances_append)
    ultimately show ?thesis by simp
  next
    case (3 n)
    then have n: "(?p, n) \<in> set d" by (simp add: map_of_SomeD)
    then have "?p \<in> set (dkeys d)" by force
    with keys have "distances rows ?p \<noteq> []" by (auto simp: distances_Nil_iff)
    then have min: "Min (set (distances (rows @ [r]) ?p)) = min (sn_value n) (row_distance r)"
      using ent [OF n] by (simp add: distances_append Min_insert min.commute)
    let ?n = "n\<lparr>sn_value := min (sn_value n) (row_distance r)\<rparr>"
    have "similar_step path r d = dset ?p ?n d"
      using 3 dset_same [OF dist 3(2)] by (simp add: similar_step_def row_distance_def [symmetric] Let_def min_def)
    moreover have "similar_ok path (rows @ [r]) (dset ?p ?n d)"
      using 3(1) ent [OF n] min by (intro similar_ok_dset [OF assms]) simp_all
    ultimately show ?thesis by simp
  qed
qed

lemma similar_ok_fold: "similar_ok path rows (fold (similar_step path) rows [])"
proof (induction rows rule: rev_induct)
  case Nil
  show ?case by (simp add: similar_ok_def)
next
  case (snoc r rows)
  then show ?case by (simp add: similar_ok_step)
qed

lemma list_all2_right: "list_all2 P xs ys \<Longrightarrow> y \<in> set ys \<Longrightarrow> \<exists>x \<in> set xs. P x y"
  by (induction rule: list_all2_induct) auto

lemma similarity_scores_eq:
  "similarity_scores S ns = Inr out \<Longrightarrow>
   list_all2 (\<lambda>n x. sn_note_path x = sn_note_path n \<and> distance_to_score S (sn_value n) = Inr (sn_value x)) ns out"
  by (induction S ns arbitrary: out rule: similarity_scores.induct) auto

text \<open>The notes similar to a note are ranked by their nearest chunk: the note itself is never
  among them, no note is listed twice, each score comes from the smallest distance of a chunk
  of the note, the distances do not decrease along the list, and a note of the candidates is
  left out only when the list is full.\<close>

theorem rank_similar_nearest:
  assumes "rank_similar S path rows top_k = Inr out" and "0 \<le> top_k"
  shows "distinct (map sn_note_path out) \<and> path \<notin> set (map sn_note_path out) \<and>
    sorted (map (\<lambda>x. Min (set (distances rows (sn_note_path x)))) out) \<and>
    (\<forall>x \<in> set out. distances rows (sn_note_path x) \<noteq> [] \<and>
       distance_to_score S (Min (set (distances rows (sn_note_path x)))) = Inr (sn_value x)) \<and>
    length out = min (nat top_k) (card ((\<lambda>r. or_empty (rw_note_path r)) ` set rows - {path}))"
proof -
  define d where "d = fold (similar_step path) rows []"
  define ns where "ns = slice_to (sort_key sn_value (map snd d)) top_k"
  have ok: "similar_ok path rows d" unfolding d_def by (rule similar_ok_fold)
  from assms(1) have "similarity_scores S ns = Inr out" by (simp add: rank_similar_def d_def ns_def Let_def)
  from similarity_scores_eq [OF this]
  have rel: "list_all2 (\<lambda>n x. sn_note_path x = sn_note_path n \<and> distance_to_score S (sn_value n) = Inr (sn_value x)) ns out" .
  have in_d: "(sn_note_path n, n) \<in> set d" if "n \<in> set ns" for n
  proof -
    from that have "n \<in> snd ` set d" using slice_to_set unfolding ns_def by fastforce
    with ok show ?thesis by (auto simp: similar_ok_def)
  qed
  then have vals: "sn_value n = Min (set (distances rows (sn_note_path n)))"
    "sn_note_path n \<noteq> path" "distances rows (sn_note_path n) \<noteq> []" if "n \<in> set ns" for n
  proof -
    from in_d [OF that] have "sn_note_path n \<in> set (dkeys d)" by force
    with ok show "sn_note_path n \<noteq> path" "distances rows (sn_note_path n) \<noteq> []"
      by (auto simp: similar_ok_def distances_Nil_iff)
    from in_d [OF that] ok show "sn_value n = Min (set (distances rows (sn_note_path n)))"
      by (auto simp: similar_ok_def)
  qed
  have paths: "map sn_note_path out = map sn_note_path ns"
    using rel by (induction rule: list_all2_induct) auto
  have "map sn_note_path (map snd d) = dkeys d"
    using ok unfolding similar_ok_def map_map by (intro map_cong refl) auto
  moreover have "distinct (dkeys d)" using ok by (simp add: similar_ok_def)
  ultimately have "distinct (map sn_note_path (map snd d))" by (simp only:)
  then have "distinct (map sn_note_path (sort_key sn_value (map snd d)))"
    by (metis distinct_map distinct_sort set_sort)
  then have dist: "distinct (map sn_note_path ns)"
    unfolding ns_def slice_to_def by (simp add: take_map [symmetric] distinct_take)
  have "sorted (map sn_value ns)"
    unfolding ns_def slice_to_def take_map [symmetric] by (rule sorted_wrt_take) (rule sorted_sort_key)
  moreover have "map sn_value ns = map (\<lambda>n. Min (set (distances rows (sn_note_path n)))) ns"
    using vals(1) by (intro map_cong refl) auto
  moreover have "map (\<lambda>n. Min (set (distances rows (sn_note_path n)))) ns = map (\<lambda>x. Min (set (distances rows (sn_note_path x)))) out"
    using arg_cong [OF paths, of "map (\<lambda>p. Min (set (distances rows p)))"] by (simp add: comp_def)
  ultimately have sorted: "sorted (map (\<lambda>x. Min (set (distances rows (sn_note_path x)))) out)" by simp
  have elems: "\<forall>x \<in> set out. distances rows (sn_note_path x) \<noteq> [] \<and>
       distance_to_score S (Min (set (distances rows (sn_note_path x)))) = Inr (sn_value x)"
    using list_all2_right [OF rel] vals by metis
  have "card ((\<lambda>r. or_empty (rw_note_path r)) ` set rows - {path}) = length d"
    using ok unfolding similar_ok_def by (metis distinct_card length_map)
  moreover have "length ns = min (nat top_k) (length d)" using assms(2) by (simp add: ns_def slice_to_def min.commute)
  moreover have "length out = length ns" using rel by (simp add: list_all2_lengthD)
  ultimately show ?thesis using sorted elems dist vals(2) paths by (simp add: image_iff) (metis image_iff list.set_map)
qed


definition sample_row :: "string \<Rightarrow> string \<Rightarrow> rat \<Rightarrow> row" where
  "sample_row p t d = \<lparr>rw_note_path = Some p, rw_note_title = Some p, rw_folder = Some [], rw_headers = None,
     rw_tags = None, rw_modified_at = None, rw_text = Some t, rw_vector = None, rw_distance = Some d,
     rw_score = None, rw_rerank_score = None, rw_hybrid_score = None\<rparr>"

definition sample_search_conf :: search_conf where
  "sample_search_conf = \<lparr>sc_candidates = 50, sc_candidates_max = 500, sc_candidates_multiplier = 2, sc_precision = 4\<rparr>"

theorem rank_similar_nearest_witness:
  "\<exists>out. rank_similar sample_search_conf ''a''
       [sample_row ''a'' [] 0, sample_row ''b'' [] 3, sample_row ''c'' [] 2, sample_row ''b'' [] 1] 1 = Inr out \<and>
     map sn_note_path out = [''b''] \<and> distinct (map sn_note_path out)"
proof -
  let ?rows = "[sample_row ''a'' [] 0, sample_row ''b'' [] 3, sample_row ''c'' [] 2, sample_row ''b'' [] 1]"
  obtain out where run: "rank_similar sample_search_conf ''a'' ?rows 1 = Inr out"
    and paths: "map sn_note_path out = [''b'']"
    by (simp add: rank_similar_def similar_step_def sample_row_def or_empty_def slice_to_def distance_to_score_def Let_def)
  have "(0::int) \<le> 1" by simp
  note facts = rank_similar_nearest [OF run this]
  show ?thesis by (rule exI [of _ out], intro conjI run paths conjunct1 [OF facts])
qed

section \<open>What a search returns\<close>

definition result_of :: "search_result \<Rightarrow> row \<Rightarrow> bool" where
  "result_of x r \<longleftrightarrow> sr_note_path x = or_empty (rw_note_path r) \<and> sr_note_title x = or_empty (rw_note_title r) \<and>
     sr_folder x = or_empty (rw_folder r) \<and> sr_headers x = or_empty (rw_headers r) \<and>
     sr_tags x = or_empty (rw_tags r)"

lemma texts_of_length: "texts_of rs = Inr ts \<Longrightarrow> length ts = length rs"
  by (induction rs arbitrary: ts) (auto split: option.splits)

lemma texts_of_text: "texts_of rs = Inr ts \<Longrightarrow> r \<in> set rs \<Longrightarrow> rw_text r \<noteq> None"
  by (induction rs arbitrary: ts) (auto split: option.splits)

lemma slice_to_length: "0 \<le> n \<Longrightarrow> length (slice_to xs n) \<le> nat n"
  by (simp add: slice_to_def)

text \<open>Reranking keeps rows, only adds the score, sorts by it and keeps at most \<open>top_k\<close>.\<close>

lemma rerank_facts:
  assumes "rerank S model query rows top_k = Inr out" and "0 \<le> top_k"
  shows "length out \<le> nat top_k \<and> sorted (map (\<lambda>r. - the (rw_rerank_score r)) out) \<and>
    (\<forall>x \<in> set out. \<exists>r \<in> set rows. \<exists>v. x = r\<lparr>rw_rerank_score := Some v\<rparr>)"
proof (cases "rows = []")
  case True
  with assms show ?thesis by (simp add: rerank_def)
next
  case False
  let ?c = "slice_to rows (compute_rerank_pool_size top_k (int (length rows)))"
  let ?sc = "\<lambda>scores. map (\<lambda>(r, s). r\<lparr>rw_rerank_score := Some (py_round (sc_precision S) s)\<rparr>) (zip ?c scores)"
  from assms(1) False obtain scores where
    out: "out = slice_to (sort_key (\<lambda>r. - the (rw_rerank_score r)) (?sc scores)) top_k"
    by (auto simp: rerank_def Let_def split: if_splits)
  have "\<exists>r \<in> set rows. \<exists>v. x = r\<lparr>rw_rerank_score := Some v\<rparr>" if "x \<in> set out" for x
  proof -
    from that have "x \<in> set (?sc scores)" using slice_to_set unfolding out by fastforce
    then obtain r s where "(r, s) \<in> set (zip ?c scores)" "x = r\<lparr>rw_rerank_score := Some (py_round (sc_precision S) s)\<rparr>"
      by auto
    moreover from this(1) have "r \<in> set rows" using slice_to_set set_zip_leftD by fastforce
    ultimately show ?thesis by blast
  qed
  moreover have "sorted (map (\<lambda>r. - the (rw_rerank_score r)) out)"
    unfolding out slice_to_def take_map [symmetric] by (rule sorted_wrt_take) (rule sorted_sort_key)
  ultimately show ?thesis using slice_to_length [OF assms(2)] by (simp add: out)
qed

lemma format_facts:
  "format_search_results S rows = Inr out \<Longrightarrow>
   list_all2 (\<lambda>r x. result_of x r \<and> sr_text x = or_empty (rw_text r) \<and>
     (rw_rerank_score r \<noteq> None \<longrightarrow> sr_score x = rw_rerank_score r)) rows out"
  by (induction S rows arbitrary: out rule: format_search_results.induct)
    (auto simp: format_row_def result_of_def split: option.splits)

text \<open>The results of the advanced search are sound: no more than \<open>top_k\<close>, by decreasing score,
  each a row the database returned for the filter of the arguments, none containing an
  excluded term in any case; without highlighting each has the text of its row.\<close>

theorem search_advanced_sound:
  assumes "en_table E = Some t" and "0 \<le> top_k"
    and "search_advanced E query top_k F exclude highlight sm em s = (Inr rs, s')"
  shows "length rs \<le> nat top_k \<and> sorted (map (\<lambda>x. - the (sr_score x)) rs) \<and>
    (\<forall>x \<in> set rs. sr_score x \<noteq> None) \<and>
    (\<exists>vec limit raw. tb_nearest t vec (Some (en_metric E)) limit (where_clause (en_dates E) F) = Inr raw \<and>
       (\<forall>x \<in> set rs. \<exists>r \<in> set raw. result_of x r \<and> (\<not> highlight \<longrightarrow> sr_text x = or_empty (rw_text r)) \<and>
          (\<forall>term \<in> set exclude. \<not> contains (py_lower (or_empty (rw_text r))) (py_lower term))))"
proof -
  let ?limit = "if exclude \<noteq> [] then min (compute_candidates (en_conf E) top_k * 2) (sc_candidates_max (en_conf E))
      else compute_candidates (en_conf E) top_k"
  let ?filter = "\<lambda>raw. if exclude \<noteq> [] then filter_excluded raw exclude else raw"
  from assms(3) obtain vec s1 where embed: "embed E query s = (Inr vec, s1)"
    by (auto simp: search_advanced_def bind_search_def split: prod.splits sum.splits)
  from assms(1,3) embed obtain raw where raw: "tb_nearest t vec (Some (en_metric E)) ?limit (where_clause (en_dates E) F) = Inr raw"
    by (auto simp: search_advanced_def bind_search_def lift_search_def vector_search_def open_table_def Let_def
        split: prod.splits if_splits)
  have found: "\<exists>vec limit raw. tb_nearest t vec (Some (en_metric E)) limit (where_clause (en_dates E) F) = Inr raw \<and> P raw"
    if "P raw" for P using raw that by blast
  show ?thesis
  proof (cases "raw = [] \<or> ?filter raw = []")
    case True
    with assms(1,3) embed raw have "rs = []"
      by (auto simp: search_advanced_def bind_search_def lift_search_def vector_search_def open_table_def Let_def
          split: prod.splits if_splits)
    then show ?thesis using found [of "\<lambda>_. True"] by simp
  next
    case False
    with assms(1,3) embed raw obtain reranked where
      rr: "rerank (en_conf E) (en_rerank E) query (?filter raw) top_k = Inr reranked"
      and fmt: "format_search_results (en_conf E)
        (if highlight then apply_highlight reranked query True sm em else reranked) = Inr rs"
      by (auto simp: search_advanced_def bind_search_def lift_search_def vector_search_def open_table_def Let_def
          split: prod.splits if_splits)
    let ?shown = "if highlight then apply_highlight reranked query True sm em else reranked"
    from rerank_facts [OF rr assms(2)] have len: "length reranked \<le> nat top_k"
      and sorted: "sorted (map (\<lambda>r. - the (rw_rerank_score r)) reranked)"
      and from_raw: "\<And>y. y \<in> set reranked \<Longrightarrow> \<exists>r \<in> set (?filter raw). \<exists>v. y = r\<lparr>rw_rerank_score := Some v\<rparr>" by auto
    have shown: "list_all2 (\<lambda>y z. result_of x z = result_of x y \<and> rw_rerank_score z = rw_rerank_score y \<and>
        (\<not> highlight \<longrightarrow> rw_text z = rw_text y)) reranked ?shown" for x
      by (simp add: apply_highlight_def list_all2_map2 list_all2_same result_of_def)
    have both: "list_all2 (\<lambda>y x. result_of x y \<and> sr_score x = rw_rerank_score y \<and> rw_rerank_score y \<noteq> None \<and>
        (\<not> highlight \<longrightarrow> sr_text x = or_empty (rw_text y)) \<and> y \<in> set reranked) reranked rs"
    proof (rule list_all2_all_nthI)
      show "length reranked = length rs"
        using format_facts [OF fmt] by (auto dest!: list_all2_lengthD simp: apply_highlight_def split: if_splits)
      fix i assume i: "i < length reranked"
      have "rw_rerank_score (reranked ! i) \<noteq> None" using from_raw [OF nth_mem [OF i]] by auto
      moreover have "length ?shown = length reranked" by (simp add: apply_highlight_def)
      ultimately show "result_of (rs ! i) (reranked ! i) \<and> sr_score (rs ! i) = rw_rerank_score (reranked ! i) \<and>
          rw_rerank_score (reranked ! i) \<noteq> None \<and>
          (\<not> highlight \<longrightarrow> sr_text (rs ! i) = or_empty (rw_text (reranked ! i))) \<and> reranked ! i \<in> set reranked"
        using list_all2_nthD [OF format_facts [OF fmt], of i] list_all2_nthD [OF shown [of "rs ! i"] i] i by auto
    qed
    have "map (\<lambda>x. - the (sr_score x)) rs = map (\<lambda>r. - the (rw_rerank_score r)) reranked"
      using both by (induction rule: list_all2_induct) auto
    with sorted have 1: "sorted (map (\<lambda>x. - the (sr_score x)) rs)" by simp
    have 2: "length rs \<le> nat top_k" using len both by (simp add: list_all2_lengthD)
    have 3: "sr_score x \<noteq> None \<and> (\<exists>r \<in> set raw. result_of x r \<and> (\<not> highlight \<longrightarrow> sr_text x = or_empty (rw_text r)) \<and>
          (\<forall>term \<in> set exclude. \<not> contains (py_lower (or_empty (rw_text r))) (py_lower term)))" if "x \<in> set rs" for x
    proof -
      from list_all2_right [OF both that] obtain y where y: "y \<in> set reranked" "result_of x y" "sr_score x = rw_rerank_score y"
        "rw_rerank_score y \<noteq> None" "\<not> highlight \<longrightarrow> sr_text x = or_empty (rw_text y)" by blast
      from from_raw [OF y(1)] obtain r v where r: "r \<in> set (?filter raw)" "y = r\<lparr>rw_rerank_score := Some v\<rparr>" by blast
      from r(1) have "r \<in> set raw" "\<forall>term \<in> set exclude. \<not> contains (py_lower (or_empty (rw_text r))) (py_lower term)"
        by (auto simp: filter_excluded_def Let_def split: if_splits)
      with y r(2) show ?thesis by (auto simp: result_of_def)
    qed
    have "\<exists>vec limit raw. tb_nearest t vec (Some (en_metric E)) limit (where_clause (en_dates E) F) = Inr raw \<and>
       (\<forall>x \<in> set rs. \<exists>r \<in> set raw. result_of x r \<and> (\<not> highlight \<longrightarrow> sr_text x = or_empty (rw_text r)) \<and>
          (\<forall>term \<in> set exclude. \<not> contains (py_lower (or_empty (rw_text r))) (py_lower term)))"
      by (rule found) (rule ballI, rule conjunct2 [OF 3])
    moreover have "\<forall>x \<in> set rs. sr_score x \<noteq> None" by (rule ballI) (rule conjunct1 [OF 3])
    ultimately show ?thesis using 1 2 by (intro conjI)
  qed
qed


definition sample_table :: db_table where
  "sample_table = \<lparr>tb_nearest = (\<lambda>v m n w. Inr [sample_row ''a.md'' ''python and django'' 1, sample_row ''b.md'' ''python'' 2]),
     tb_fts = (\<lambda>q n. Inr []), tb_rows = (\<lambda>w n. Inr [])\<rparr>"

definition sample_search_env :: search_env where
  "sample_search_env = \<lparr>en_conf = sample_search_conf, en_table = Some sample_table, en_metric = ''cosine'', en_digest = id,
     en_embed = (\<lambda>q. Inr [1]), en_others = id, en_rerank = (\<lambda>q ts. Inr (map (\<lambda>t. of_nat (length t)) ts)),
     en_dates = sample_dates, en_mean = hd, en_cosine = (\<lambda>vs i j. 0)\<rparr>"

theorem search_advanced_sound_witness:
  "\<exists>rs s'. search_advanced sample_search_env ''python'' 5 sample_filters [''Django''] False ''**'' ''**'' (new_lru 3) = (Inr rs, s') \<and>
     map sr_note_path rs = [''b.md''] \<and> length rs \<le> 5"
proof -
  have c: "contains (py_lower ''python and django'') (py_lower ''Django'')"
    "\<not> contains (py_lower ''python'') (py_lower ''Django'')" by code_simp+
  have "\<exists>rs s'. search_advanced sample_search_env ''python'' 5 sample_filters [''Django''] False ''**'' ''**'' (new_lru 3) = (Inr rs, s') \<and>
     map sr_note_path rs = [''b.md'']"
    using c by (simp add: search_advanced_def bind_search_def lift_search_def embed_def embed_query_def embed_lookup_def
        embed_store_def new_lru_def sample_search_env_def vector_search_def open_table_def sample_table_def
        filter_excluded_def rerank_def Let_def sample_row_def or_empty_def slice_to_def compute_rerank_pool_size_def
        rerank_candidates_max_def rerank_candidates_multiplier_def format_row_def)
  then obtain rs s' where run: "search_advanced sample_search_env ''python'' 5 sample_filters [''Django''] False ''**'' ''**'' (new_lru 3) = (Inr rs, s')"
    and paths: "map sr_note_path rs = [''b.md'']" by (elim exE conjE)
  have "en_table sample_search_env = Some sample_table" by (simp add: sample_search_env_def)
  note facts = search_advanced_sound [OF this _ run, simplified]
  from conjunct1 [OF facts] run paths show ?thesis by simp
qed



theorem highlight_text_marks_witness:
  "\<exists>ps sm em. highlight_text ''The API api'' ''the Api'' ''=='' ''zz'' = concat (map (wrap sm em) ps) \<and>
     concat (map snd ps) = ''The API api'' \<and> sm = ''=='' \<and>
     highlight_text ''The API api'' ''the Api'' ''=='' ''zz'' = ''The ==API** ==api**''"
proof -
  have run: "highlight_text ''The API api'' ''the Api'' ''=='' ''zz'' = ''The ==API** ==api**''" by code_simp
  have "''=='' \<in> set allowed_markers" by (simp add: allowed_markers_def)
  with run highlight_text_marks [of "''The API api''" "''the Api''" "''==''" "''zz''"] show ?thesis by metis
qed


section \<open>Prewarming the indexes\<close>

text \<open>
  \<open>pw_memory\<close> is the available memory (\<open>None\<close> without psutil, an exception when the call
  fails), \<open>pw_indices\<close> the index names or the exception of \<open>list_indices\<close>, \<open>pw_load\<close> whether
  loading an index succeeds, \<open>pw_duration\<close> the time taken in milliseconds.
\<close>

record prewarm_env =
  pw_enabled :: bool
  pw_max_ram_percent :: rat
  pw_min_available :: nat
  pw_bytes_per_chunk :: nat
  pw_memory :: "nat result option"
  pw_table :: "unit result"
  pw_indices :: "string list result"
  pw_rows :: "nat result"
  pw_load :: "string \<Rightarrow> bool"
  pw_time :: string
  pw_duration :: rat

record prewarm_status =
  ps_enabled :: bool
  ps_status :: string
  ps_indices_prewarmed :: nat
  ps_failed_indices :: nat
  ps_skipped_reason :: "string option"
  ps_prewarmed_at :: "string option"
  ps_duration_ms :: "rat option"
  ps_row_count :: "nat option"

definition check_memory_for_prewarm :: "prewarm_env \<Rightarrow> nat \<Rightarrow> bool \<times> string" where
  "check_memory_for_prewarm W estimated_size =
     (case pw_memory W of
        None \<Rightarrow> (False, ''dependency_unavailable'')
      | Some (Inl _) \<Rightarrow> (False, ''memory_check_failed'')
      | Some (Inr available) \<Rightarrow>
          if available < pw_min_available W then (False, ''insufficient_memory'')
          else if nat \<lfloor>of_nat available * pw_max_ram_percent W\<rfloor> < estimated_size
          then (False, ''estimated_index_too_large'')
          else (True, ''ready''))"

definition prewarm_skipped :: "string \<Rightarrow> prewarm_status" where
  "prewarm_skipped reason = \<lparr>ps_enabled = False, ps_status = ''skipped'', ps_indices_prewarmed = 0,
     ps_failed_indices = 0, ps_skipped_reason = Some reason, ps_prewarmed_at = None,
     ps_duration_ms = None, ps_row_count = None\<rparr>"

definition prewarm_outcome :: "nat \<Rightarrow> nat \<Rightarrow> string \<times> string option" where
  "prewarm_outcome prewarmed failed =
     (if prewarmed = 0 then (''failed'', Some ''all_indices_failed'')
      else if failed \<noteq> 0 then (''partial'', None) else (''completed'', None))"

definition try_prewarm :: "prewarm_env \<Rightarrow> bool \<Rightarrow> prewarm_status result" where
  "try_prewarm W force =
     (if \<not> pw_enabled W \<and> \<not> force then Inr (prewarm_skipped ''disabled'')
      else case pw_table W of
        Inl e \<Rightarrow> if isinstance e C_RuntimeError then Inr (prewarm_skipped ''index_unavailable'') else Inl e
      | Inr _ \<Rightarrow> bind_result (pw_indices W) (\<lambda>indices.
          if indices = [] then Inr (prewarm_skipped ''no_indices'')
          else
            let row_count = (case pw_rows W of Inl _ \<Rightarrow> None | Inr n \<Rightarrow> Some n);
                estimated = (case row_count of None \<Rightarrow> 0 | Some n \<Rightarrow> n * pw_bytes_per_chunk W);
                (can_prewarm, reason) = check_memory_for_prewarm W estimated in
            if \<not> force \<and> \<not> can_prewarm then Inr (prewarm_skipped reason)
            else
              let prewarmed = length (filter (pw_load W) indices);
                  failed = length (filter (\<lambda>i. \<not> pw_load W i) indices);
                  (status, skipped) = prewarm_outcome prewarmed failed in
              Inr \<lparr>ps_enabled = 0 < prewarmed, ps_status = status, ps_indices_prewarmed = prewarmed,
                   ps_failed_indices = failed, ps_skipped_reason = skipped, ps_prewarmed_at = Some (pw_time W),
                   ps_duration_ms = Some (py_round 1 (pw_duration W)), ps_row_count = row_count\<rparr>))"

text \<open>Unforced, prewarming starts only within the memory limits, and it counts every index once.\<close>

lemma try_prewarm_counts:
  assumes "try_prewarm W force = Inr s" and "ps_prewarmed_at s \<noteq> None"
  shows "\<exists>indices. pw_indices W = Inr indices \<and> ps_indices_prewarmed s + ps_failed_indices s = length indices \<and>
    (ps_enabled s \<longleftrightarrow> (\<exists>i \<in> set indices. pw_load W i)) \<and>
    (force \<or> fst (check_memory_for_prewarm W (case pw_rows W of Inl _ \<Rightarrow> 0 | Inr n \<Rightarrow> n * pw_bytes_per_chunk W)))"
proof -
  have split: "length (filter P xs) + length (filter (\<lambda>x. \<not> P x) xs) = length xs" for P :: "string \<Rightarrow> bool" and xs
    by (rule sum_length_filter_compl)
  from assms show ?thesis
    by (auto simp: try_prewarm_def prewarm_skipped_def Let_def split filter_empty_conv
        split: if_splits sum.splits prod.splits)
qed

end
