(* ===== verification/Link_Tools.thy ===== *)
theory Link_Tools
  imports Searcher Links "HOL-Library.List_Lexorder"
begin

text \<open>
  The link tools of the server (\<open>server/search_tools.py\<close>): backlinks, outlinks, broken links,
  orphans and link statistics, computed from the rows of the link index.  A query of the index
  is a function of the filter's text and the limit.
\<close>

section \<open>The link index\<close>

record link_row =
  lr_from_path :: string
  lr_from_title :: string
  lr_type :: string
  lr_target :: string
  lr_target_normalized :: string
  lr_to_path :: string
  lr_resolved :: bool
  lr_alias :: string
  lr_heading :: string
  lr_block_ref :: string
  lr_context :: string

type_synonym link_query = "string option \<Rightarrow> nat option \<Rightarrow> link_row list result"

definition tool_answer :: "string \<Rightarrow> 'a answer result \<Rightarrow> 'a answer" where
  "tool_answer ref r = (case r of Inr x \<Rightarrow> x | Inl _ \<Rightarrow> Inl (internal_error ref))"

definition clamp :: "int \<Rightarrow> int \<Rightarrow> int \<Rightarrow> int" where
  "clamp lo hi x = max lo (min x hi)"

section \<open>Backlinks\<close>

record backlink =
  bl_path :: string
  bl_title :: string
  bl_type :: string
  bl_target :: string
  bl_context :: "string option"

definition backlink_where :: "string \<Rightarrow> string" where
  "backlink_where path =
     ''to_note_path = '' @ sq (escape_sql_string path) @ '' OR link_target_normalized = '' @
     sq (escape_sql_string (normalize_link_target path)) @ '' OR link_target_normalized = '' @
     sq (escape_sql_string (normalize_link_target (path_stem (path_components path))))"

fun collect_backlinks :: "string \<Rightarrow> bool \<Rightarrow> string list \<Rightarrow> link_row list \<Rightarrow> backlink list" where
  "collect_backlinks path include_context seen [] = []"
| "collect_backlinks path include_context seen (r # rs) =
     (if lr_from_path r \<in> set seen \<or> lr_from_path r = path
      then collect_backlinks path include_context seen rs
      else \<lparr>bl_path = lr_from_path r, bl_title = lr_from_title r, bl_type = lr_type r, bl_target = lr_target r,
             bl_context = (if include_context \<and> lr_context r \<noteq> [] then Some (lr_context r) else None)\<rparr>
           # collect_backlinks path include_context (lr_from_path r # seen) rs)"

definition get_backlinks ::
  "link_query result \<Rightarrow> string \<Rightarrow> string \<Rightarrow> bool \<Rightarrow> backlink list answer" where
  "get_backlinks table ref path include_context =
     (if path = [] \<or> strip path = [] then Inl ''Error: path cannot be empty.''
      else let path = strip path in
        tool_answer ref (bind_result table (\<lambda>query.
          bind_result (query (Some (backlink_where path)) (Some 1000)) (\<lambda>results.
            Inr (Inr (collect_backlinks path include_context [] results))))))"

section \<open>Outlinks\<close>

record link_info =
  li_target :: string
  li_resolved :: bool
  li_resolved_path :: "string option"
  li_alias :: "string option"
  li_heading :: "string option"
  li_block_ref :: "string option"

record outlinks =
  ol_path :: string
  ol_wikilinks :: "link_info list"
  ol_markdown :: "link_info list"
  ol_embeds :: "link_info list"
  ol_external :: "string list"
  ol_total :: nat
  ol_broken :: nat

definition if_some :: "bool \<Rightarrow> string \<Rightarrow> string option" where
  "if_some b s = (if b \<and> s \<noteq> [] then Some s else None)"

definition link_info_of :: "link_row \<Rightarrow> link_info" where
  "link_info_of r = \<lparr>li_target = lr_target r, li_resolved = lr_resolved r,
     li_resolved_path = if_some (lr_resolved r) (lr_to_path r), li_alias = if_some True (lr_alias r),
     li_heading = if_some True (lr_heading r), li_block_ref = if_some True (lr_block_ref r)\<rparr>"

definition of_type :: "string \<Rightarrow> link_row list \<Rightarrow> link_row list" where
  "of_type t rs = filter (\<lambda>r. lr_type r = t) rs"

definition outlinks_of :: "string \<Rightarrow> link_row list \<Rightarrow> outlinks" where
  "outlinks_of path results =
     (let wikilinks = map link_info_of (of_type ''wikilink'' results);
          markdown_links = map link_info_of (of_type ''markdown'' results);
          embeds = map link_info_of (of_type ''embed'' results);
          external = map lr_target (of_type ''external'' results)
      in \<lparr>ol_path = path, ol_wikilinks = wikilinks, ol_markdown = markdown_links, ol_embeds = embeds,
          ol_external = external,
          ol_total = length wikilinks + length markdown_links + length embeds + length external,
          ol_broken = length (filter (\<lambda>w. \<not> li_resolved w) wikilinks)
                      + length (filter (\<lambda>m. \<not> li_resolved m) markdown_links)\<rparr>)"

definition get_outlinks :: "link_query result \<Rightarrow> string \<Rightarrow> string \<Rightarrow> outlinks answer" where
  "get_outlinks table ref path =
     (if path = [] \<or> strip path = [] then Inl ''Error: path cannot be empty.''
      else let path = strip path in
        tool_answer ref (bind_result table (\<lambda>query.
          bind_result (query (Some (''from_note_path = '' @ sq (escape_sql_string path))) (Some 1000)) (\<lambda>results.
            Inr (Inr (outlinks_of path results))))))"

section \<open>Broken links\<close>

record broken_note =
  bn_path :: string
  bn_title :: string
  bn_links :: "(string \<times> string \<times> string) list"

record broken_summary =
  br_total :: nat
  br_notes :: nat
  br_returned :: nat
  br_has_more :: bool
  br_details :: "broken_note list"

definition broken_where :: "string option \<Rightarrow> string" where
  "broken_where folder =
     ''is_resolved = false AND link_type != '' @ sq ''external'' @
     (case folder of None \<Rightarrow> []
      | Some f \<Rightarrow> '' AND from_note_path LIKE ''
          @ sq (escape_sql_string (escape_like_pattern f) @ ''/%'') @ '' ESCAPE '' @ sq [backslash])"

definition count_row :: "link_row \<Rightarrow> (string, string \<times> nat) dict \<Rightarrow> (string, string \<times> nat) dict" where
  "count_row r counts =
     (let p = lr_from_path r in
      case dget counts p of
        None \<Rightarrow> dset p (lr_from_title r, 1) counts
      | Some (t, n) \<Rightarrow> dset p (t, Suc n) counts)"

text \<open>Text order is the order of the characters' code points.\<close>

definition text_key :: "string \<Rightarrow> nat list" where
  "text_key s = map of_char s"

definition broken_report :: "nat \<Rightarrow> link_row list \<Rightarrow> link_row list \<Rightarrow> broken_summary" where
  "broken_report limit counted rows =
     (let counts = fold count_row counted [];
          selected = take limit (sort_key (\<lambda>i. (- int (snd (snd i)), text_key (fst i))) counts);
          notes_list = map (\<lambda>i. \<lparr>bn_path = fst i, bn_title = fst (snd i),
             bn_links = map (\<lambda>r. (lr_target r, lr_type r, lr_context r))
               (filter (\<lambda>r. lr_from_path r = fst i) rows)\<rparr>) selected
      in \<lparr>br_total = length counted, br_notes = length counts, br_returned = length notes_list,
          br_has_more = length notes_list < length counts, br_details = notes_list\<rparr>)"

definition normalized_folder :: "string option \<Rightarrow> string option" where
  "normalized_folder folder = (case folder of None \<Rightarrow> None
     | Some f \<Rightarrow> if f = [] \<or> strip f = [] then None else Some (strip f))"

text \<open>
  \<open>ok_folder\<close> is the answer of \<open>validate_relative_path\<close>.  The second query runs only when
  some note is selected.
\<close>

definition find_broken_links ::
  "(string \<Rightarrow> bool) \<Rightarrow> link_query result \<Rightarrow> string \<Rightarrow> string option \<Rightarrow> int \<Rightarrow> broken_summary answer" where
  "find_broken_links ok_folder table ref folder limit =
     (let limit = nat (clamp 1 500 limit); folder = normalized_folder folder in
      if \<exists>f. folder = Some f \<and> \<not> ok_folder f then Inl (internal_error ref)
      else tool_answer ref (bind_result table (\<lambda>query.
        bind_result (query (Some (broken_where folder)) None) (\<lambda>counted.
        if counted = [] then Inr (Inr (broken_report limit [] []))
        else bind_result (query (Some (broken_where folder)) None) (\<lambda>rows.
          Inr (Inr (broken_report limit counted rows)))))))"

section \<open>Orphans\<close>

record catalog_note =
  cn_path :: string
  cn_title :: string
  cn_folder :: string
  cn_modified_at :: string

record orphan_summary =
  op_total :: nat
  op_orphans :: nat
  op_percentage :: rat
  op_returned :: nat
  op_has_more :: bool
  op_notes :: "catalog_note list"

definition is_linked :: "link_row list \<Rightarrow> string \<Rightarrow> bool" where
  "is_linked links p \<longleftrightarrow>
     (\<exists>r \<in> set links. lr_to_path r = p \<and> p \<noteq> []) \<or>
     (\<exists>r \<in> set links. lr_target_normalized r \<noteq> [] \<and>
        lr_target_normalized r \<in> {normalize_link_target p, normalize_link_target (path_stem (path_components p))})"

text \<open>
  The pages of the catalogue, newest note first: \<open>page offset\<close> is the page and the total.  The
  loop ends at an empty page or when the offset reaches the total; \<open>deque(maxlen=limit)\<close> keeps
  the last \<open>limit\<close> orphans.  Each further page advances the offset, so as many rounds as there
  are notes, and one for the first page, are enough.
\<close>

definition keep_last :: "nat \<Rightarrow> 'a list \<Rightarrow> 'a list" where
  "keep_last n xs = drop (length xs - n) xs"

fun orphan_pages ::
  "nat \<Rightarrow> (nat \<Rightarrow> (catalog_note list \<times> nat) result) \<Rightarrow> (string \<Rightarrow> bool) \<Rightarrow> nat \<Rightarrow> nat
     \<Rightarrow> nat \<times> nat \<times> catalog_note list \<Rightarrow> (nat \<times> nat \<times> catalog_note list) result" where
  "orphan_pages 0 page linked limit offset (n, found, kept) = Inr (n, found, kept)"
| "orphan_pages (Suc fuel) page linked limit offset (n, found, kept) =
     (if offset = 0 \<or> offset < n then
        bind_result (page offset) (\<lambda>(notes, n).
        if notes = [] then Inr (n, found, kept)
        else let orphans = filter (\<lambda>n. \<not> linked (cn_path n)) notes in
          orphan_pages fuel page linked limit (offset + length notes)
            (n, found + length orphans, keep_last limit (kept @ orphans)))
      else Inr (n, found, kept))"

definition orphan_report :: "nat \<times> nat \<times> catalog_note list \<Rightarrow> orphan_summary" where
  "orphan_report x =
     (case x of (n, found, kept) \<Rightarrow>
        \<lparr>op_total = n, op_orphans = found,
         op_percentage = py_round 1 (of_nat found / of_nat (max n 1) * 100),
         op_returned = length kept, op_has_more = length kept < found, op_notes = rev kept\<rparr>)"

definition find_orphan_notes ::
  "(string \<Rightarrow> bool) \<Rightarrow> nat \<Rightarrow> (string option \<Rightarrow> nat \<Rightarrow> (catalog_note list \<times> nat) result) option
    \<Rightarrow> link_query result \<Rightarrow> string \<Rightarrow> string option \<Rightarrow> int \<Rightarrow> orphan_summary answer" where
  "find_orphan_notes ok_folder fuel catalog table ref folder limit =
     (let limit = nat (clamp 1 500 limit); folder = normalized_folder folder in
      if \<exists>f. folder = Some f \<and> \<not> ok_folder f then Inl (internal_error ref)
      else case catalog of
        None \<Rightarrow> Inl ''Error: catalog is unavailable. Run reindex_vault first.''
      | Some list_notes \<Rightarrow> tool_answer ref (bind_result table (\<lambda>query.
          bind_result (query None None) (\<lambda>links.
          bind_result (orphan_pages fuel (list_notes folder) (is_linked links) limit 0 (0, 0, []))
            (\<lambda>x. Inr (Inr (orphan_report x)))))))"

section \<open>Statistics\<close>

record link_statistics =
  ls_total :: nat
  ls_resolved :: nat
  ls_broken :: nat
  ls_external :: nat
  ls_rate :: rat
  ls_sources :: nat
  ls_targets :: nat
  ls_most_referenced :: "(string \<times> nat) list"
  ls_most_outlinks :: "(string \<times> nat) list"

definition count_key :: "string \<Rightarrow> (string, nat) dict \<Rightarrow> (string, nat) dict" where
  "count_key k d = dset k (Suc (case dget d k of None \<Rightarrow> 0 | Some n \<Rightarrow> n)) d"

definition statistics_of :: "nat \<Rightarrow> link_row list \<Rightarrow> link_statistics" where
  "statistics_of limit links =
     (let backlinks = fold count_key (filter (\<lambda>t. t \<noteq> []) (map lr_to_path links)) [];
          outlinks = fold count_key (map lr_from_path links) [];
          resolved = length (filter lr_resolved links);
          external = length (of_type ''external'' links);
          non_external = int (length links) - int external
      in \<lparr>ls_total = length links, ls_resolved = resolved,
          ls_broken = length (filter (\<lambda>r. \<not> lr_resolved r \<and> lr_type r \<noteq> ''external'') links),
          ls_external = external,
          ls_rate = py_round 1 (of_nat resolved / of_int (max non_external 1) * 100),
          ls_sources = length outlinks, ls_targets = length backlinks,
          ls_most_referenced = take limit (sort_key (\<lambda>i. - int (snd i)) backlinks),
          ls_most_outlinks = take limit (sort_key (\<lambda>i. - int (snd i)) outlinks)\<rparr>)"

definition link_stats :: "link_query result \<Rightarrow> string \<Rightarrow> int \<Rightarrow> link_statistics answer" where
  "link_stats table ref limit =
     tool_answer ref (bind_result table (\<lambda>query. bind_result (query None (Some 100000)) (\<lambda>links.
       Inr (Inr (statistics_of (nat (clamp 1 200 limit)) links)))))"


section \<open>Backlinks are exact\<close>

text \<open>
  A link index that answers the filter of the backlinks as the database documents it: the rows
  that satisfy the prepared statement the filter reads as, in order, up to the limit.
\<close>

definition backlink_template :: string where
  "backlink_template = ''to_note_path = ? OR link_target_normalized = ? OR link_target_normalized = ?''"

definition backlink_match :: "string list \<Rightarrow> link_row \<Rightarrow> bool" where
  "backlink_match ps r \<longleftrightarrow>
     (case ps of [a, b, c] \<Rightarrow> lr_to_path r = a \<or> lr_target_normalized r = b \<or> lr_target_normalized r = c
      | _ \<Rightarrow> False)"

definition answers_backlinks :: "link_query \<Rightarrow> link_row list \<Rightarrow> bool" where
  "answers_backlinks query rows \<longleftrightarrow>
     (\<forall>w ps n. sql_prepare w = Some (backlink_template, ps) \<longrightarrow>
        query (Some w) (Some n) = Inr (take n (filter (backlink_match ps) rows)))"

definition links_to :: "string \<Rightarrow> link_row \<Rightarrow> bool" where
  "links_to p r \<longleftrightarrow> lr_to_path r = p \<or> lr_target_normalized r = normalize_link_target p \<or>
     lr_target_normalized r = normalize_link_target (path_stem (path_components p))"

lemma backlink_where_reads:
  "sql_prepare (backlink_where p) = Some (backlink_template,
     [p, normalize_link_target p, normalize_link_target (path_stem (path_components p))])"
proof -
  let ?a = "sq (escape_sql_string p)" and ?b = "sq (escape_sql_string (normalize_link_target p))"
    and ?c = "sq (escape_sql_string (normalize_link_target (path_stem (path_components p))))"
  have c: "reads ('' OR link_target_normalized = '' @ ?c) '' OR link_target_normalized = ?''
      [normalize_link_target (path_stem (path_components p))]"
    using reads_code_append [OF _ sq_escape_sql, of "'' OR link_target_normalized = ''"] by simp
  from reads_append [OF sq_escape_sql c]
  have "reads (?b @ '' OR link_target_normalized = '' @ ?c) ''? OR link_target_normalized = ?''
      [normalize_link_target p, normalize_link_target (path_stem (path_components p))]" by simp
  from reads_code_append [OF _ this, of "'' OR link_target_normalized = ''"]
  have b: "reads ('' OR link_target_normalized = '' @ ?b @ '' OR link_target_normalized = '' @ ?c)
      '' OR link_target_normalized = ? OR link_target_normalized = ?''
      [normalize_link_target p, normalize_link_target (path_stem (path_components p))]" by simp
  from reads_append [OF sq_escape_sql b] have "reads (?a @ '' OR link_target_normalized = '' @ ?b @ '' OR link_target_normalized = '' @ ?c)
      ''? OR link_target_normalized = ? OR link_target_normalized = ?''
      [p, normalize_link_target p, normalize_link_target (path_stem (path_components p))]" by simp
  from reads_code_append [OF _ this, of "''to_note_path = ''"] have
    "reads (backlink_where p) backlink_template
      [p, normalize_link_target p, normalize_link_target (path_stem (path_components p))]"
    by (simp add: backlink_where_def backlink_template_def)
  then show ?thesis by (rule reads_whole)
qed

lemma collect_backlinks_paths:
  "set (map bl_path (collect_backlinks p c seen rs)) = lr_from_path ` set rs - insert p (set seen) \<and>
   distinct (map bl_path (collect_backlinks p c seen rs))"
  by (induction p c seen rs rule: collect_backlinks.induct) auto


section \<open>Reports on broken links\<close>

definition counts_ok :: "link_row list \<Rightarrow> (string, string \<times> nat) dict \<Rightarrow> bool" where
  "counts_ok rows d \<longleftrightarrow> distinct (dkeys d) \<and> set (dkeys d) = lr_from_path ` set rows \<and>
     (\<forall>(p, x) \<in> set d. snd x = length (filter (\<lambda>r. lr_from_path r = p) rows))"

lemma counts_ok_step: "counts_ok rows d \<Longrightarrow> counts_ok (rows @ [r]) (count_row r d)"
proof -
  assume ok: "counts_ok rows d"
  let ?p = "lr_from_path r"
  let ?n = "\<lambda>p rows. length (filter (\<lambda>r. lr_from_path r = p) rows)"
  from ok have dist: "distinct (dkeys d)" and keys: "set (dkeys d) = lr_from_path ` set rows"
    and ent: "\<And>p x. (p, x) \<in> set d \<Longrightarrow> snd x = ?n p rows" by (auto simp: counts_ok_def)
  obtain t where step: "count_row r d = dset ?p (t, Suc (?n ?p rows)) d"
  proof (cases "dget d ?p")
    case None
    then have "?p \<notin> set (dkeys d)" by (simp add: map_of_eq_None_iff)
    then have "filter (\<lambda>r. lr_from_path r = ?p) rows = []" using keys by (metis (mono_tags, lifting) filter_False image_eqI)
    then have "?n ?p rows = 0" by simp
    with None that show thesis by (simp add: count_row_def Let_def)
  next
    case (Some x)
    with ent [of ?p x] have "snd x = ?n ?p rows" by (simp add: map_of_SomeD)
    with Some that [of "fst x"] show thesis by (cases x) (simp add: count_row_def Let_def)
  qed
  have "snd x = ?n q (rows @ [r])" if "(q, x) \<in> set (dset ?p (t, Suc (?n ?p rows)) d)" for q x
    using that ent [of q x] by (cases "q = ?p") (auto simp: dset_entries [OF dist])
  moreover have "set (dkeys (dset ?p (t, Suc (?n ?p rows)) d)) = lr_from_path ` set (rows @ [r])"
    using keys unfolding set_dkeys_dset by auto
  ultimately show ?thesis using dist unfolding step counts_ok_def by (auto intro: distinct_update)
qed

lemma counts_ok_fold: "counts_ok rows (fold count_row rows [])"
proof (induction rows rule: rev_induct)
  case Nil
  show ?case by (simp add: counts_ok_def)
next
  case (snoc r rows)
  then show ?case by (simp add: counts_ok_step)
qed

text \<open>The report on broken links is consistent: the totals count every broken link and every
  note that has one, the notes listed are distinct, carry all of their broken links, come by
  decreasing number of them, and fall short of the affected notes only at the limit.\<close>

theorem broken_report_consistent:
  "let R = broken_report limit rows rows in
    br_total R = length rows \<and> br_notes R = card (lr_from_path ` set rows) \<and>
    br_returned R = min limit (br_notes R) \<and> br_has_more R = (limit < br_notes R) \<and>
    length (br_details R) = br_returned R \<and> distinct (map bn_path (br_details R)) \<and>
    sorted (map (\<lambda>n. - int (length (bn_links n))) (br_details R)) \<and>
    (\<forall>n \<in> set (br_details R). bn_links n \<noteq> [] \<and> bn_links n =
       map (\<lambda>r. (lr_target r, lr_type r, lr_context r)) (filter (\<lambda>r. lr_from_path r = bn_path n) rows))"
proof -
  define d where "d = fold count_row rows []"
  define ds where "ds = sort_key (\<lambda>i. (- int (snd (snd i)), text_key (fst i))) d"
  have ok: "counts_ok rows d" unfolding d_def by (rule counts_ok_fold)
  let ?links = "\<lambda>p. map (\<lambda>r. (lr_target r, lr_type r, lr_context r)) (filter (\<lambda>r. lr_from_path r = p) rows)"
  let ?note = "\<lambda>i. \<lparr>bn_path = fst i, bn_title = fst (snd i), bn_links = ?links (fst i)\<rparr>"
  have R: "broken_report limit rows rows = \<lparr>br_total = length rows, br_notes = length d, br_returned = length (map ?note (take limit ds)),
      br_has_more = length (map ?note (take limit ds)) < length d, br_details = map ?note (take limit ds)\<rparr>"
    by (simp add: broken_report_def d_def ds_def Let_def)
  have card: "length d = card (lr_from_path ` set rows)"
    using ok unfolding counts_ok_def by (metis distinct_card length_map)
  have len: "length ds = length d" by (simp add: ds_def)
  have count: "snd (snd i) = length (?links (fst i)) \<and> ?links (fst i) \<noteq> []" if "i \<in> set ds" for i
  proof -
    from that have "i \<in> set d" by (simp add: ds_def)
    with ok have "snd (snd i) = length (filter (\<lambda>r. lr_from_path r = fst i) rows)" "fst i \<in> lr_from_path ` set rows"
      by (auto simp: counts_ok_def)
    then show ?thesis by (auto simp: filter_empty_conv)
  qed
  have "sorted (map (\<lambda>i. (- int (snd (snd i)), text_key (fst i))) ds)" unfolding ds_def by (rule sorted_sort_key)
  then have "sorted (map (\<lambda>i. - int (snd (snd i))) ds)"
    unfolding sorted_map by (rule sorted_wrt_mono_rel [rotated]) auto
  then have "sorted (map (\<lambda>i. - int (snd (snd i))) (take limit ds))"
    unfolding take_map [symmetric] by (rule sorted_wrt_take)
  moreover have "map (\<lambda>i. - int (snd (snd i))) (take limit ds) = map (\<lambda>n. - int (length (bn_links n))) (map ?note (take limit ds))"
    using count unfolding map_map by (intro map_cong refl) (auto dest: in_set_takeD)
  ultimately have sorted: "sorted (map (\<lambda>n. - int (length (bn_links n))) (map ?note (take limit ds)))" by simp
  have "distinct (map fst d)" using ok by (simp add: counts_ok_def)
  then have "distinct (map fst ds)" using mset_eq_imp_distinct_iff [of "map fst ds" "map fst d"]
    by (simp add: ds_def)
  then have "distinct (map fst (take limit ds))" by (simp add: take_map [symmetric] distinct_take)
  then have dist: "distinct (map bn_path (map ?note (take limit ds)))" by (simp add: comp_def)
  have links: "\<forall>n \<in> set (map ?note (take limit ds)). bn_links n \<noteq> [] \<and> bn_links n = ?links (bn_path n)"
    using count by (auto dest!: in_set_takeD)
  show ?thesis
    using card len sorted dist links unfolding R Let_def
    by (simp del: map_map set_map add: min.commute) (auto simp: min_def)
qed


text \<open>
  The folder filter of the report: the folder is escaped as a pattern, which doubles its quotes,
  and then escaped once more as a literal.
\<close>

definition double_quotes :: "string \<Rightarrow> string" where
  "double_quotes s = replace_char quote_char [quote_char, quote_char] s"

lemma double_quotes_length: "length (double_quotes s) = length s + length (filter (\<lambda>c. c = quote_char) s)"
  by (induction s) (auto simp: double_quotes_def)

lemma escape_like_double: "escape_like_pattern v = like_escape (double_quotes v)"
proof -
  have "replace_char quote_char [quote_char, quote_char] (like_escape v) =
      like_escape (replace_char quote_char [quote_char, quote_char] v)"
    by (induction v) auto
  then show ?thesis by (simp add: escape_like_eq double_quotes_def)
qed

lemma broken_where_reads:
  "sql_prepare (broken_where (Some f)) =
     Some (''is_resolved = false AND link_type != ? AND from_note_path LIKE ? ESCAPE ?'',
       [''external'', like_escape (double_quotes f) @ ''/%'', [backslash]])"
proof -
  have e: "reads ('' ESCAPE '' @ sq [backslash]) '' ESCAPE ?'' [[backslash]]"
    using reads_code_append [OF _ sq_plain [of "[backslash]"], of "'' ESCAPE ''"] by simp
  have "reads (sq (escape_sql_string (escape_like_pattern f) @ ''/%'')) ''?'' [like_escape (double_quotes f) @ ''/%'']"
  proof -
    have "escape_sql_string (escape_like_pattern f) @ ''/%'' =
        replace_char quote_char [quote_char, quote_char] (like_escape (double_quotes f) @ ''/%'')"
      by (simp add: escape_sql_eq escape_like_double replace_char_def)
    then show ?thesis by (simp only: reads_literal)
  qed
  from reads_append [OF this e]
  have "reads (sq (escape_sql_string (escape_like_pattern f) @ ''/%'') @ '' ESCAPE '' @ sq [backslash])
      ''? ESCAPE ?'' [like_escape (double_quotes f) @ ''/%'', [backslash]]" by simp
  from reads_code_append [OF _ this, of "'' AND from_note_path LIKE ''"]
  have "reads ('' AND from_note_path LIKE '' @ sq (escape_sql_string (escape_like_pattern f) @ ''/%'') @ '' ESCAPE '' @ sq [backslash])
      '' AND from_note_path LIKE ? ESCAPE ?'' [like_escape (double_quotes f) @ ''/%'', [backslash]]" by simp
  from reads_append [OF sq_plain [of "''external''"] this]
  have "reads (sq ''external'' @ '' AND from_note_path LIKE '' @ sq (escape_sql_string (escape_like_pattern f) @ ''/%'') @ '' ESCAPE '' @ sq [backslash])
      ''? AND from_note_path LIKE ? ESCAPE ?'' [''external'', like_escape (double_quotes f) @ ''/%'', [backslash]]" by simp
  from reads_code_append [OF _ this, of "''is_resolved = false AND link_type != ''"]
  show ?thesis by (intro reads_whole) (simp add: broken_where_def)
qed

lemma doubled_leading:
  "length (takeWhile (\<lambda>c. c = quote_char) (double_quotes f)) = 2 * length (takeWhile (\<lambda>c. c = quote_char) f)"
  by (induction f) (auto simp: double_quotes_def)

lemma doubled_differs: "quote_char \<in> set f \<Longrightarrow> \<not> prefix (double_quotes f) (f @ CHR ''/'' # rest)"
proof (induction f)
  case (Cons c cs)
  show ?case
  proof (cases "c = quote_char")
    case True
    let ?lead = "\<lambda>s. length (takeWhile (\<lambda>c. c = quote_char) s)"
    have "?lead (double_quotes (c # cs)) = 2 * ?lead (c # cs)" by (rule doubled_leading)
    moreover have "0 < ?lead (c # cs)" using True by simp
    moreover have "?lead ((c # cs) @ CHR ''/'' # rest) = ?lead (c # cs)" by (simp add: takeWhile_tail)
    moreover have "?lead u \<le> ?lead v" if "prefix u v" for u v :: string
    proof -
      from that obtain z where "v = u @ z" by (auto simp: prefix_def)
      then have "prefix (takeWhile (\<lambda>c. c = quote_char) u) (takeWhile (\<lambda>c. c = quote_char) v)"
        by (induction u arbitrary: v) auto
      then show ?thesis by (rule prefix_length_le)
    qed
    ultimately have "\<not> prefix (double_quotes (c # cs)) ((c # cs) @ CHR ''/'' # rest)"
      by (metis leD less_add_same_cancel1 mult_2)
    then show ?thesis .
  next
    case False
    with Cons show ?thesis by (auto simp: double_quotes_def replace_char_def)
  qed
qed simp

text \<open>The folder filter of the broken links selects the notes below the folder with its quotes
  doubled: exactly those below the folder when its name has no quote, and none of them when it
  has one.\<close>

theorem broken_links_folder_quote:
  "\<exists>pat. sql_prepare (broken_where (Some folder)) =
       Some (''is_resolved = false AND link_type != ? AND from_note_path LIKE ? ESCAPE ?'', [''external'', pat, [backslash]]) \<and>
     (if quote_char \<in> set folder then \<not> like_match pat (folder @ ''/'' @ rest)
      else \<forall>p. like_match pat p \<longleftrightarrow> prefix (folder @ ''/'') p)"
proof (intro exI conjI)
  show "sql_prepare (broken_where (Some folder)) = Some (''is_resolved = false AND link_type != ? AND from_note_path LIKE ? ESCAPE ?'',
      [''external'', like_escape (double_quotes folder) @ ''/%'', [backslash]])" by (rule broken_where_reads)
  have slash: "like_match ''/%'' t \<longleftrightarrow> (\<exists>u. t = CHR ''/'' # u)" for t using like_match_percent by (cases t) auto
  have plain: "double_quotes folder = folder" if "quote_char \<notin> set folder"
    using that by (induction folder) (auto simp: double_quotes_def)
  have pat: "like_match (like_escape v @ ''/%'') p \<longleftrightarrow> prefix (v @ ''/'') p" for v p
    by (simp only: like_escape_prefix slash) (auto simp: prefix_def)
  show "if quote_char \<in> set folder then \<not> like_match (like_escape (double_quotes folder) @ ''/%'') (folder @ ''/'' @ rest)
      else \<forall>p. like_match (like_escape (double_quotes folder) @ ''/%'') p \<longleftrightarrow> prefix (folder @ ''/'') p"
    unfolding pat using doubled_differs [of folder rest] by (auto simp: plain dest: append_prefixD)
qed

section \<open>Orphans\<close>

lemma keep_last_append: "keep_last n (keep_last n xs @ ys) = keep_last n (xs @ ys)"
proof -
  have eq: "keep_last n zs = rev (take n (rev zs))" for zs :: "'a list"
    by (simp add: keep_last_def rev_take)
  show ?thesis unfolding eq by (simp add: min_def)
qed

lemma orphan_pages_all:
  assumes "\<And>k. page k = Inr (take m (drop k notes), length notes)" and "0 < m"
  shows "length notes - k < fuel \<Longrightarrow> k \<le> length notes \<Longrightarrow> (k = 0 \<or> n = length notes) \<Longrightarrow>
    orphan_pages fuel page linked limit k (n, found, keep_last limit xs) =
      Inr (length notes, found + length (filter (\<lambda>n. \<not> linked (cn_path n)) (drop k notes)),
        keep_last limit (xs @ filter (\<lambda>n. \<not> linked (cn_path n)) (drop k notes)))"
proof (induction fuel arbitrary: k n found xs)
  case (Suc fuel)
  let ?page = "take m (drop k notes)"
  let ?un = "\<lambda>ns. filter (\<lambda>n. \<not> linked (cn_path n)) ns"
  show ?case
  proof (cases "k < length notes")
    case True
    then have page: "?page \<noteq> []" using assms(2) by simp
    have len: "length notes - (k + length ?page) < fuel" "k + length ?page \<le> length notes"
      using Suc.prems(1) True page by auto
    have rest: "drop k notes = ?page @ drop (k + length ?page) notes"
      using True by (auto simp: min_def drop_drop add.commute append_take_drop_id)
        (metis add.commute append_take_drop_id drop_drop)
    have "orphan_pages (Suc fuel) page linked limit k (n, found, keep_last limit xs) =
        orphan_pages fuel page linked limit (k + length ?page)
          (length notes, found + length (?un ?page), keep_last limit (keep_last limit xs @ ?un ?page))"
      using Suc.prems(3) True page by (auto simp: assms(1) Let_def)
    also have "\<dots> = orphan_pages fuel page linked limit (k + length ?page)
          (length notes, found + length (?un ?page), keep_last limit (xs @ ?un ?page))"
      by (simp only: keep_last_append)
    also have "\<dots> = Inr (length notes, found + length (?un ?page) + length (?un (drop (k + length ?page) notes)),
        keep_last limit ((xs @ ?un ?page) @ ?un (drop (k + length ?page) notes)))"
      by (rule Suc.IH [OF len]) simp
    also have "\<dots> = Inr (length notes, found + length (?un (drop k notes)), keep_last limit (xs @ ?un (drop k notes)))"
      by (subst (5 6) rest) simp
    finally show ?thesis .
  next
    case False
    then have "drop k notes = []" "k = length notes" using Suc.prems(2) by simp_all
    then show ?thesis using Suc.prems(3) by (cases "k = 0") (auto simp: assms(1))
  qed
qed simp


text \<open>The report on orphans is complete over all pages: it counts every note of the catalogue,
  counts exactly the notes no link points at, and lists the last ones of the catalogue's order,
  the oldest first, up to the limit.\<close>

theorem find_orphan_notes_complete:
  assumes "\<And>k. list_notes (normalized_folder folder) k = Inr (take m (drop k ns), length ns)"
    and "0 < m" and "query None None = Inr links" and "length ns < fuel"
    and "\<forall>f. normalized_folder folder = Some f \<longrightarrow> ok_folder f"
  shows "\<exists>R. find_orphan_notes ok_folder fuel (Some list_notes) (Inr query) ref folder limit = Inr R \<and>
    op_total R = length ns \<and>
    op_orphans R = length (filter (\<lambda>n. \<not> is_linked links (cn_path n)) ns) \<and>
    op_notes R = take (nat (clamp 1 500 limit)) (rev (filter (\<lambda>n. \<not> is_linked links (cn_path n)) ns)) \<and>
    op_has_more R = (nat (clamp 1 500 limit) < op_orphans R)"
proof -
  let ?l = "nat (clamp 1 500 limit)" and ?un = "filter (\<lambda>n. \<not> is_linked links (cn_path n)) ns"
  have "orphan_pages fuel (list_notes (normalized_folder folder)) (is_linked links) ?l 0 (0, 0, keep_last ?l []) =
      Inr (length ns, length ?un, keep_last ?l ?un)"
    using orphan_pages_all [OF assms(1,2), where k = 0 and xs = "[]" and n = 0 and found = 0] assms(4) by simp
  then have run: "find_orphan_notes ok_folder fuel (Some list_notes) (Inr query) ref folder limit =
      Inr (orphan_report (length ns, length ?un, keep_last ?l ?un))"
    using assms(3,5) by (auto simp: find_orphan_notes_def tool_answer_def Let_def keep_last_def)
  have rev: "rev (keep_last ?l ?un) = take ?l (rev ?un)" by (simp add: keep_last_def take_rev)
  then have "length (keep_last ?l ?un) = min ?l (length ?un)" by (simp add: keep_last_def)
  with run rev show ?thesis by (auto simp: orphan_report_def min_def)
qed

section \<open>Runs on a small index\<close>

definition sample_link :: "string \<Rightarrow> string \<Rightarrow> string \<Rightarrow> link_row" where
  "sample_link from nt to = \<lparr>lr_from_path = from, lr_from_title = from, lr_type = ''wikilink'', lr_target = nt,
     lr_target_normalized = nt, lr_to_path = to, lr_resolved = (to \<noteq> []), lr_alias = [], lr_heading = [],
     lr_block_ref = [], lr_context = []\<rparr>"

definition sample_links :: "link_row list" where
  "sample_links = [sample_link ''a.md'' ''b'' ''b.md'', sample_link ''c.md'' ''x'' [], sample_link ''b.md'' ''b'' ''b.md'']"

definition index_query :: "link_row list \<Rightarrow> link_query" where
  "index_query rows w n =
     (case w of
        None \<Rightarrow> Inr rows
      | Some w \<Rightarrow> (case sql_prepare w of
          Some (t, ps) \<Rightarrow> Inr ((case n of None \<Rightarrow> id | Some n \<Rightarrow> take n)
            (if t = backlink_template then filter (backlink_match ps) rows else rows))
        | None \<Rightarrow> Inl OtherError))"


theorem broken_report_consistent_witness:
  "br_total (broken_report 1 sample_links sample_links) = 3 \<and>
   br_has_more (broken_report 1 sample_links sample_links) \<and>
   (\<exists>n. br_details (broken_report 1 sample_links sample_links) = [n] \<and> bn_links n \<noteq> [])"
proof -
  let ?R = "broken_report 1 sample_links sample_links"
  note facts = broken_report_consistent [of 1 sample_links, unfolded Let_def]
  have card: "card (lr_from_path ` set sample_links) = 3" by (simp add: sample_links_def sample_link_def)
  have "length sample_links = 3" by (simp add: sample_links_def)
  with facts card have "length (br_details ?R) = 1" "br_total ?R = 3" "br_has_more ?R"
    "\<forall>n \<in> set (br_details ?R). bn_links n \<noteq> []" by auto
  then show ?thesis by (auto simp: length_Suc_conv)
qed

theorem broken_links_folder_quote_witness:
  "\<exists>pat. sql_prepare (broken_where (Some (''it'' @ [quote_char] @ ''s''))) =
       Some (''is_resolved = false AND link_type != ? AND from_note_path LIKE ? ESCAPE ?'', [''external'', pat, [backslash]]) \<and>
     \<not> like_match pat (''it'' @ [quote_char] @ ''s/a.md'')"
  using broken_links_folder_quote [of "''it'' @ [quote_char] @ ''s''" "''a.md''"] by auto

theorem find_orphan_notes_complete_witness:
  "\<exists>R. find_orphan_notes (\<lambda>f. True) 4 (Some (\<lambda>f k. Inr (take 2 (drop k [\<lparr>cn_path = ''a.md'', cn_title = ''a'',
       cn_folder = [], cn_modified_at = ''2''\<rparr>, \<lparr>cn_path = ''b.md'', cn_title = ''b'', cn_folder = [], cn_modified_at = ''1''\<rparr>]), 2)))
     (Inr (index_query sample_links)) ''0'' None 10 = Inr R \<and> op_total R = 2 \<and> map cn_path (op_notes R) = [''a.md'']"
proof -
  let ?notes = "[\<lparr>cn_path = ''a.md'', cn_title = ''a'', cn_folder = [], cn_modified_at = ''2''\<rparr>,
      \<lparr>cn_path = ''b.md'', cn_title = ''b'', cn_folder = [], cn_modified_at = ''1''\<rparr>]"
  let ?pages = "\<lambda>f k. Inr (take 2 (drop k ?notes), 2)"
  have q: "index_query sample_links None None = Inr sample_links" by (simp add: index_query_def)
  have norm: "normalize_link_target ''b.md'' = ''b''" "path_stem (path_components ''b.md'') = ''b''"
    "normalize_link_target ''b'' = ''b''" "path_stem (path_components ''a.md'') = ''a''"
    "normalize_link_target ''a.md'' = ''a''" "normalize_link_target ''a'' = ''a''" by code_simp+
  have "filter (\<lambda>n. \<not> is_linked sample_links (cn_path n)) ?notes = take 1 ?notes"
    by (simp add: is_linked_def sample_links_def sample_link_def norm)
  with find_orphan_notes_complete [where list_notes = ?pages and folder = None and m = 2 and ns = ?notes and
      query = "index_query sample_links" and links = sample_links and fuel = 4 and ok_folder = "\<lambda>f. True" and
      ref = "''0''" and limit = 10] q
  show ?thesis by (auto simp: clamp_def normalized_folder_def)
qed

end
