(* ===== verification/Note_Tools.thy ===== *)
theory Note_Tools
  imports Link_Tools Crud_Validation
begin

text \<open>
  The listing tools of the server (\<open>server/search_tools.py\<close>): recent notes, tag statistics,
  notes by tags and the folder tree.  Queries of the index and of the catalogue are functions
  of the filter's text; dates are read by a parameter.
\<close>

section \<open>Recent notes\<close>

record recent_note =
  rc_path :: string
  rc_title :: string
  rc_modified_at :: string
  rc_folder :: string
  rc_days_ago :: int

text \<open>\<open>list.sort(key=..., reverse=True)\<close>: decreasing, equal keys in their order.\<close>

definition sort_reverse :: "('a \<Rightarrow> 'k::linorder) \<Rightarrow> 'a list \<Rightarrow> 'a list" where
  "sort_reverse key xs = rev (sort_key key (rev xs))"

text \<open>\<open>from_iso\<close> is \<open>datetime.fromisoformat\<close>, a time in seconds.\<close>

fun recent_of :: "(string \<Rightarrow> rat result) \<Rightarrow> rat \<Rightarrow> int \<Rightarrow> catalog_note list \<Rightarrow> recent_note list result" where
  "recent_of from_iso now days [] = Inr []"
| "recent_of from_iso now days (n # ns) =
     (case from_iso (cn_modified_at n) of
        Inl e \<Rightarrow> if isinstance e C_ValueError \<or> isinstance e C_KeyError then recent_of from_iso now days ns else Inl e
      | Inr modified \<Rightarrow> bind_result (recent_of from_iso now days ns) (\<lambda>rs.
          Inr (if now - of_int (days * 86400) \<le> modified
            then \<lparr>rc_path = cn_path n, rc_title = cn_title n, rc_modified_at = cn_modified_at n,
                  rc_folder = cn_folder n, rc_days_ago = \<lfloor>(now - modified) / 86400\<rfloor>\<rparr> # rs
            else rs)))"

definition get_recent_notes ::
  "(string option \<Rightarrow> int \<Rightarrow> catalog_note list result) option \<Rightarrow> (string \<Rightarrow> rat result) \<Rightarrow> rat \<Rightarrow> string
    \<Rightarrow> int \<Rightarrow> int \<Rightarrow> string option \<Rightarrow> recent_note list answer" where
  "get_recent_notes catalog from_iso now ref days limit folder =
     (let days = clamp 1 365 days; limit = clamp 1 100 limit in
      case catalog of
        None \<Rightarrow> Inl ''Error: catalog is unavailable. Run reindex_vault first.''
      | Some list_notes \<Rightarrow> tool_answer ref
          (bind_result (list_notes (case folder of None \<Rightarrow> None | Some f \<Rightarrow> if f = [] then None else Some (strip f)) (limit * 2))
            (\<lambda>ns. bind_result (recent_of from_iso now days ns) (\<lambda>recent.
              Inr (Inr (take (nat limit) (sort_reverse (\<lambda>r. text_key (rc_modified_at r)) recent)))))))"

section \<open>Tags\<close>

record tag_row =
  tr_path :: string
  tr_title :: string
  tr_folder :: string
  tr_tags :: string
  tr_modified_at :: string

type_synonym tag_query = "string option \<Rightarrow> nat \<Rightarrow> tag_row list result"

text \<open>The folder filter of the tag statistics: the folder is put into the text as it is.\<close>

definition tag_stats_where :: "string \<Rightarrow> string" where
  "tag_stats_where folder = ''folder = '' @ sq folder @ '' OR folder LIKE '' @ sq (folder @ ''/%'')"

definition split_tags :: "string \<Rightarrow> string list" where
  "split_tags s = filter (\<lambda>t. t \<noteq> []) (map strip (py_split '','' s))"

text \<open>The tags of each note: a dictionary of sets, a set being a list without repetitions.\<close>

definition add_tags :: "tag_row \<Rightarrow> (string, string list) dict \<Rightarrow> (string, string list) dict" where
  "add_tags r d =
     dset (tr_path r) (fold List.insert (if tr_tags r = [] then [] else split_tags (tr_tags r))
       (case dget d (tr_path r) of None \<Rightarrow> [] | Some ts \<Rightarrow> ts)) d"

record tag_summary =
  tg_total :: nat
  tg_notes :: nat
  tg_tags :: "(string \<times> nat) list"

text \<open>\<open>Counter.most_common\<close> sorts by decreasing count; equal counts keep an order of no meaning.\<close>

definition tag_report :: "nat \<Rightarrow> tag_row list \<Rightarrow> tag_summary" where
  "tag_report limit rows =
     (let note_tags = map snd (fold add_tags rows []);
          counter = fold count_key (concat note_tags) []
      in \<lparr>tg_total = length counter, tg_notes = length (filter (\<lambda>ts. ts \<noteq> []) note_tags),
          tg_tags = take limit (sort_key (\<lambda>i. - int (snd i)) counter)\<rparr>)"

definition tag_stats :: "(nat \<times> tag_query) result \<Rightarrow> string \<Rightarrow> int \<Rightarrow> string option \<Rightarrow> tag_summary answer" where
  "tag_stats table ref limit folder =
     (let limit = nat (clamp 1 500 limit);
          folder = (case folder of None \<Rightarrow> [] | Some f \<Rightarrow> strip f) in
      tool_answer ref (bind_result table (\<lambda>(total_rows, query).
        if total_rows = 0 then Inr (Inr \<lparr>tg_total = 0, tg_notes = 0, tg_tags = []\<rparr>)
        else bind_result (query (if folder = [] then None else Some (tag_stats_where folder)) total_rows)
          (\<lambda>rows. Inr (Inr (tag_report limit rows))))))"

section \<open>Notes by tags\<close>

record tagged_note =
  tn_path :: string
  tn_title :: string
  tn_folder :: string
  tn_tags :: "string list"
  tn_modified_at :: string

definition clean_tags :: "string list \<Rightarrow> string list" where
  "clean_tags tags = filter (\<lambda>t. t \<noteq> []) (map (\<lambda>t. py_lower (strip t)) tags)"

definition tag_condition :: "string \<Rightarrow> string" where
  "tag_condition tag =
     (let t = replace_char quote_char [quote_char, quote_char] tag in
      ''(tags = '' @ sq t @ '' OR tags LIKE '' @ sq (t @ '', %'') @ '' OR tags LIKE '' @ sq (''%, '' @ t) @
      '' OR tags LIKE '' @ sq (''%, '' @ t @ '', %'') @ '')'')"

definition note_tags_of :: "string \<Rightarrow> string list" where
  "note_tags_of s = map (\<lambda>t. py_lower (strip t)) (filter (\<lambda>t. strip t \<noteq> []) (py_split '','' s))"

fun tagged_notes :: "bool \<Rightarrow> string list \<Rightarrow> string list \<Rightarrow> tag_row list \<Rightarrow> tagged_note list" where
  "tagged_notes match_all tags seen [] = []"
| "tagged_notes match_all tags seen (r # rs) =
     (let note_tags = note_tags_of (tr_tags r) in
      if tr_path r \<in> set seen then tagged_notes match_all tags seen rs
      else if match_all \<and> \<not> set tags \<subseteq> set note_tags then tagged_notes match_all tags seen rs
      else \<lparr>tn_path = tr_path r, tn_title = tr_title r, tn_folder = tr_folder r,
            tn_tags = sort_key text_key (remdups note_tags), tn_modified_at = tr_modified_at r\<rparr>
           # tagged_notes match_all tags (tr_path r # seen) rs)"

definition search_by_tags ::
  "(nat \<times> tag_query) result \<Rightarrow> string \<Rightarrow> string list \<Rightarrow> bool \<Rightarrow> int \<Rightarrow> tagged_note list answer" where
  "search_by_tags table ref tags match_all limit =
     (if tags = [] then Inl ''Error: tag list cannot be empty.''
      else let clean = clean_tags tags in
        if clean = [] then Inl ''Error: no valid tag was provided.''
        else let clean = take 20 clean; limit = nat (clamp 1 200 limit) in
          tool_answer ref (bind_result table (\<lambda>(total_rows, query).
            if total_rows = 0 then Inr (Inr [])
            else bind_result (query (Some (py_join '' OR '' (map tag_condition clean))) total_rows) (\<lambda>rows.
              Inr (Inr (take limit (sort_reverse (\<lambda>n. text_key (tn_modified_at n))
                (tagged_notes match_all clean [] rows))))))))"

section \<open>The folder tree\<close>

datatype folder_node = Count int | Folder "(string \<times> folder_node) list"

definition count_name :: string where "count_name = ''_count''"

definition count_in :: "(string, folder_node) dict \<Rightarrow> int" where
  "count_in d = (case dget d count_name of Some (Count n) \<Rightarrow> n | _ \<Rightarrow> 0)"

fun insert_path ::
  "bool \<Rightarrow> nat \<Rightarrow> string list \<Rightarrow> int \<Rightarrow> nat \<Rightarrow> (string, folder_node) dict \<Rightarrow> (string, folder_node) dict" where
  "insert_path include_counts max_depth [] n depth tree = tree"
| "insert_path include_counts max_depth (part # remaining) n depth tree =
     (if max_depth \<le> depth then tree
      else let child = (case dget tree part of Some (Folder c) \<Rightarrow> c | _ \<Rightarrow> []);
               child = (if include_counts \<and> (remaining = [] \<or> max_depth \<le> depth + 1)
                        then dset count_name (Count (count_in child + n)) child else child);
               child = (if remaining \<noteq> [] \<and> depth + 1 < max_depth
                        then insert_path include_counts max_depth remaining n (depth + 1) child else child)
           in dset part (Folder child) tree)"

record tree_report =
  tt_folders :: nat
  tt_notes :: int
  tt_tree :: "(string, folder_node) dict"

text \<open>The intermediate folders of a path, as \<open>"/".join(parts[:i])\<close>.\<close>

definition folder_names :: "string list \<Rightarrow> string list" where
  "folder_names parts = map (\<lambda>i. py_join ''/'' (take i parts)) [1..<Suc (length parts)]"

definition tree_step ::
  "bool \<Rightarrow> nat \<Rightarrow> string \<times> nat \<Rightarrow> int \<times> string list \<times> (string, folder_node) dict
     \<Rightarrow> int \<times> string list \<times> (string, folder_node) dict" where
  "tree_step include_counts max_depth row st =
     (case row of (folder, n) \<Rightarrow> case st of (total_notes, folders, tree) \<Rightarrow>
        if folder = [] then (total_notes + int n, folders,
          if include_counts then dset count_name (Count (count_in tree + int n)) tree else tree)
        else let parts = take max_depth (lexical_parts folder)
          in (total_notes + int n, fold List.insert (folder_names parts) folders,
              insert_path include_counts max_depth parts (int n) 0 tree))"


text \<open>
  \<open>conf\<close> is the configured limit of the depth; the rows are the catalogue's folders with their
  numbers of notes.  The set of folders is a list without repetitions.
\<close>

definition folder_report :: "bool \<Rightarrow> nat \<Rightarrow> (string \<times> nat) list \<Rightarrow> tree_report" where
  "folder_report include_counts max_depth rows =
     (case fold (tree_step include_counts max_depth) rows (0, [], []) of (total_notes, folders, tree) \<Rightarrow>
        \<lparr>tt_folders = length folders, tt_notes = total_notes, tt_tree = tree\<rparr>)"

definition folder_tree ::
  "int \<Rightarrow> (string \<times> nat) list result option \<Rightarrow> string \<Rightarrow> bool \<Rightarrow> int \<Rightarrow> tree_report answer" where
  "folder_tree conf catalog ref include_counts max_depth =
     (let max_depth = nat (clamp 1 conf max_depth) in
      case catalog of
        None \<Rightarrow> Inl ''Error: catalog is unavailable. Run reindex_vault first.''
      | Some rows \<Rightarrow> tool_answer ref (bind_result rows (\<lambda>rows. Inr (Inr
          (if rows = [] then \<lparr>tt_folders = 0, tt_notes = 0, tt_tree = []\<rparr>
           else folder_report include_counts max_depth rows)))))"

section \<open>The tree counts every note once\<close>

text \<open>The number shown at a path of the tree.\<close>

fun count_at :: "string list \<Rightarrow> (string, folder_node) dict \<Rightarrow> int" where
  "count_at [] d = count_in d"
| "count_at (p # ps) d = (case dget d p of Some (Folder c) \<Rightarrow> count_at ps c | _ \<Rightarrow> 0)"

lemma count_in_dset: "k \<noteq> count_name \<Longrightarrow> count_in (dset k v d) = count_in d"
  by (simp add: count_in_def update_conv')

lemma count_in_set: "count_in (dset count_name (Count n) d) = n"
  by (simp add: count_in_def update_conv')

lemma count_at_dset:
  "count_at (p # ps) (dset k (Folder c) d) = (if p = k then count_at ps c else count_at (p # ps) d)"
  by (simp add: update_conv')

lemma count_at_count: "p \<noteq> count_name \<Longrightarrow> count_at (p # ps) (dset count_name v d) = count_at (p # ps) d"
  by (simp add: update_conv')

lemma count_at_empty [simp]: "count_at ps [] = 0"
  by (cases ps) (simp_all add: count_in_def)

lemma insert_path_counts:
  "count_name \<notin> set parts \<Longrightarrow> count_name \<notin> set ps \<Longrightarrow> parts \<noteq> [] \<Longrightarrow> depth + length parts \<le> max_depth \<Longrightarrow>
     count_at ps (insert_path True max_depth parts n depth tree) =
     count_at ps tree + (if ps = parts then n else 0)"
proof (induction parts arbitrary: ps depth tree)
  case (Cons part remaining)
  let ?child = "case dget tree part of Some (Folder c) \<Rightarrow> c | _ \<Rightarrow> []"
  have old: "count_at (part # qs) tree = count_at qs ?child" for qs
    by (auto split: option.splits folder_node.splits)
  show ?case
  proof (cases "remaining = []")
    case True
    have part: "part \<noteq> count_name" using Cons.prems(1) by auto
    let ?new = "dset count_name (Count (count_in ?child + n)) ?child"
    have ins: "insert_path True max_depth (part # remaining) n depth tree = dset part (Folder ?new) tree"
      using Cons.prems True by (simp add: Let_def)
    have new: "count_at qs ?new = count_at qs ?child + (if qs = [] then n else 0)" if "count_name \<notin> set qs" for qs
      using that by (cases qs) (auto simp: count_in_set update_conv')
    show ?thesis
    proof (cases ps)
      case Nil
      then show ?thesis using part unfolding ins by (simp add: count_in_dset)
    next
      case ps: (Cons p qs)
      then show ?thesis using Cons.prems(2) True new [of qs] old [of qs]
        unfolding ins ps count_at_dset by auto
    qed
  next
    case False
    have part: "part \<noteq> count_name" using Cons.prems(1) by auto
    let ?new = "insert_path True max_depth remaining n (depth + 1) ?child"
    have len: "depth + 1 + length remaining \<le> max_depth" "depth + 1 < max_depth"
      using Cons.prems(4) False by (auto simp: Suc_le_eq[symmetric] length_greater_0_conv[symmetric] simp del: length_greater_0_conv)
    have ins: "insert_path True max_depth (part # remaining) n depth tree = dset part (Folder ?new) tree"
      using len False by (simp add: Let_def)
    have new: "count_at qs ?new = count_at qs ?child + (if qs = remaining then n else 0)" if "count_name \<notin> set qs" for qs
      using Cons.IH [OF _ that False len(1)] Cons.prems(1) by simp
    show ?thesis
    proof (cases ps)
      case Nil
      then show ?thesis using part unfolding ins by (simp add: count_in_dset)
    next
      case ps: (Cons p qs)
      then show ?thesis using Cons.prems(2) new [of qs] old [of qs]
        unfolding ins ps count_at_dset by auto
    qed
  qed
qed simp

definition row_parts :: "nat \<Rightarrow> string \<Rightarrow> string list" where
  "row_parts max_depth folder = (if folder = [] then [] else take max_depth (lexical_parts folder))"

lemma tree_step_counts:
  assumes "count_name \<notin> set (row_parts m f)" "count_name \<notin> set ps" "f \<noteq> [] \<longrightarrow> row_parts m f \<noteq> []"
    and "tree_step True m (f, n) (t, fs, tree) = (t', fs', tree')"
  shows "count_at ps tree' = count_at ps tree + (if row_parts m f = ps then int n else 0) \<and> t' = t + int n"
proof (cases "f = []")
  case True
  with assms(2,4) show ?thesis
    by (cases ps) (auto simp: tree_step_def row_parts_def count_in_set update_conv')
next
  case False
  with assms(1,3) have "count_name \<notin> set (take m (lexical_parts f))" "take m (lexical_parts f) \<noteq> []"
    by (simp_all add: row_parts_def)
  from insert_path_counts [OF this(1) assms(2) this(2), where depth = 0] False assms(4)
  show ?thesis by (auto simp: tree_step_def row_parts_def Let_def)
qed

lemma tree_fold_counts:
  assumes "\<forall>(f, n) \<in> set rows. count_name \<notin> set (row_parts m f) \<and> (f \<noteq> [] \<longrightarrow> row_parts m f \<noteq> [])"
    and "count_name \<notin> set ps"
  shows "fold (tree_step True m) rows (t, fs, tree) = (t', fs', tree') \<Longrightarrow>
    count_at ps tree' = count_at ps tree + sum_list (map (\<lambda>(f, n). if row_parts m f = ps then int n else 0) rows) \<and>
    t' = t + sum_list (map (int \<circ> snd) rows)"
  using assms(1)
proof (induction rows arbitrary: t fs tree)
  case (Cons r rows)
  obtain f n where r: "r = (f, n)" by fastforce
  obtain t1 fs1 tree1 where step: "tree_step True m r (t, fs, tree) = (t1, fs1, tree1)"
    by (cases "tree_step True m r (t, fs, tree)") auto
  from Cons.prems(2) r have wf: "count_name \<notin> set (row_parts m f)" "f \<noteq> [] \<longrightarrow> row_parts m f \<noteq> []" by auto
  from tree_step_counts [OF wf(1) assms(2) wf(2) step [unfolded r]]
  have "count_at ps tree1 = count_at ps tree + (if row_parts m f = ps then int n else 0)" "t1 = t + int n" by auto
  moreover have "fold (tree_step True m) rows (t1, fs1, tree1) = (t', fs', tree')" using Cons.prems(1) step by simp
  ultimately show ?case using Cons.IH [of t1 fs1 tree1] Cons.prems(2) r by auto
qed simp

text \<open>The folder tree shows at every path the number of notes whose folder, cut at the depth
  limit, is that path, and the notes of the whole catalogue as its total, when no folder is
  named like the counter.\<close>

theorem folder_tree_counts:
  assumes "\<forall>(f, n) \<in> set rows. count_name \<notin> set (row_parts m f) \<and> (f \<noteq> [] \<longrightarrow> row_parts m f \<noteq> [])"
    and "count_name \<notin> set ps" and "m = nat (clamp 1 conf max_depth)"
  shows "\<exists>R. folder_tree conf (Some (Inr rows)) ref True max_depth = Inr R \<and>
    tt_notes R = sum_list (map (int \<circ> snd) rows) \<and>
    count_at ps (tt_tree R) = sum_list (map (\<lambda>(f, n). if row_parts m f = ps then int n else 0) rows)"
proof (cases "rows = []")
  case True
  then show ?thesis by (simp add: folder_tree_def tool_answer_def Let_def)
next
  case False
  obtain t fs tree where f: "fold (tree_step True m) rows (0, [], []) = (t, fs, tree)"
    by (cases "fold (tree_step True m) rows (0, [], [])") auto
  from False f have "folder_tree conf (Some (Inr rows)) ref True max_depth =
      Inr \<lparr>tt_folders = length fs, tt_notes = t, tt_tree = tree\<rparr>"
    by (simp add: folder_tree_def tool_answer_def folder_report_def Let_def assms(3))
  with tree_fold_counts [OF assms(1,2) f] show ?thesis by simp
qed

theorem folder_tree_counts_witness:
  "\<exists>R. folder_tree 10 (Some (Inr [([], 2), (''a'', 1), (''a/b'', 3), (''a/b/c'', 4)])) ''0'' True 2 = Inr R \<and>
     tt_notes R = 10 \<and> count_at [''a'', ''b''] (tt_tree R) = 7"
proof -
  let ?rows = "[([], 2), (''a'', 1), (''a/b'', 3), (''a/b/c'', 4)] :: (string \<times> nat) list"
  have p: "row_parts 2 [] = []" "row_parts 2 ''a'' = [''a'']" "row_parts 2 ''a/b'' = [''a'', ''b'']"
    "row_parts 2 ''a/b/c'' = [''a'', ''b'']" by code_simp+
  have "\<forall>(f, n) \<in> set ?rows. count_name \<notin> set (row_parts 2 f) \<and> (f \<noteq> [] \<longrightarrow> row_parts 2 f \<noteq> [])"
    by (simp add: p count_name_def)
  from folder_tree_counts [OF this, of "[''a'', ''b'']" 10 2 "''0''"] show ?thesis
    by (simp add: clamp_def count_name_def p)
qed

section \<open>The tag filter\<close>

definition tag_template :: string where
  "tag_template = ''(tags = ? OR tags LIKE ? OR tags LIKE ? OR tags LIKE ?)''"

definition tag_patterns :: "string \<Rightarrow> string list" where
  "tag_patterns t = [t, t @ '', %'', ''%, '' @ t, ''%, '' @ t @ '', %'']"

lemma reads_doubled:
  assumes "quote_char \<notin> set a" and "quote_char \<notin> set b"
  shows "reads (sq (a @ replace_char quote_char [quote_char, quote_char] t @ b)) ''?'' [a @ t @ b]"
proof -
  have id: "replace_char quote_char [quote_char, quote_char] c = c" if "quote_char \<notin> set c" for c
    using that by (induction c) auto
  have "a @ replace_char quote_char [quote_char, quote_char] t @ b =
      replace_char quote_char [quote_char, quote_char] (a @ t @ b)"
    using id [OF assms(1)] id [OF assms(2)] by (simp add: replace_char_def)
  then show ?thesis by (simp only: reads_literal)
qed

lemma reads_step:
  assumes "reads a ''?'' [v]" and "reads b t ps" and "quote_char \<notin> set c" and "b = [] \<or> hd b \<noteq> quote_char"
  shows "reads (c @ a @ b) (c @ ''?'' @ t) (v # ps)"
proof -
  from reads_append [OF assms(1,2,4)] have "reads (a @ b) (''?'' @ t) (v # ps)" by simp
  from reads_code_append [OF assms(3) this] show ?thesis .
qed

lemma tag_condition_reads: "sql_prepare (tag_condition t) = Some (tag_template, tag_patterns t)"
proof -
  let ?t = "replace_char quote_char [quote_char, quote_char] t"
  have a: "reads (sq ?t) ''?'' [t]" using reads_doubled [of "[]" "[]" t] by simp
  have b: "reads (sq (?t @ '', %'')) ''?'' [t @ '', %'']" using reads_doubled [of "[]" "'', %''" t] by simp
  have c: "reads (sq (''%, '' @ ?t)) ''?'' [''%, '' @ t]" using reads_doubled [of "''%, ''" "[]" t] by simp
  have d: "reads (sq (''%, '' @ ?t @ '', %'')) ''?'' [''%, '' @ t @ '', %'']"
    using reads_doubled [of "''%, ''" "'', %''" t] by simp
  have e: "reads '')'' '')'' []" by (rule reads_code) simp
  note r4 = reads_step [OF d e, of "'' OR tags LIKE ''", simplified]
  note r3 = reads_step [OF c r4, of "'' OR tags LIKE ''", simplified]
  note r2 = reads_step [OF b r3, of "'' OR tags LIKE ''", simplified]
  note r1 = reads_step [OF a r2, of "''(tags = ''", simplified]
  show ?thesis using reads_whole [OF r1] by (simp add: tag_condition_def tag_template_def tag_patterns_def Let_def)
qed

definition tag_match :: "string list \<Rightarrow> string \<Rightarrow> bool" where
  "tag_match ps s \<longleftrightarrow> (case ps of [] \<Rightarrow> False | p # qs \<Rightarrow> s = p \<or> (\<exists>q \<in> set qs. like_match q s))"

definition plain_pattern :: "string \<Rightarrow> bool" where
  "plain_pattern t \<longleftrightarrow> set t \<inter> {backslash, CHR ''%'', CHR ''_''} = {}"

lemma plain_escape: "plain_pattern t \<Longrightarrow> like_escape t = t"
  by (induction t) (auto simp: plain_pattern_def)

lemma like_any: "like_match (CHR ''%'' # p) s \<longleftrightarrow> (\<exists>u v. s = u @ v \<and> like_match p v)"
proof (induction s)
  case (Cons x s)
  have "(\<exists>u v. x # s = u @ v \<and> like_match p v) \<longleftrightarrow> like_match p (x # s) \<or> (\<exists>u v. s = u @ v \<and> like_match p v)"
    by (auto simp: Cons_eq_append_conv)
  then show ?case using Cons by auto
qed auto

lemma like_literal: "plain_pattern t \<Longrightarrow> like_match (t @ p) s \<longleftrightarrow> (\<exists>v. s = t @ v \<and> like_match p v)"
  using like_escape_prefix [of t p s] by (simp add: plain_escape)

lemma tag_match_eq:
  assumes "plain_pattern t"
  shows "tag_match (tag_patterns t) s \<longleftrightarrow>
    s = t \<or> prefix (t @ '', '') s \<or> suffix ('', '' @ t) s \<or> (\<exists>u. suffix ('', '' @ u) s \<and> prefix (t @ '', '') u)"
proof -
  have sep: "like_match '', %'' v \<longleftrightarrow> (\<exists>w. v = '', '' @ w)" for v
    using like_literal [of "'', ''" "''%''" v] like_match_percent by (simp add: plain_pattern_def)
  have tail: "like_match (t @ '', %'') s \<longleftrightarrow> prefix (t @ '', '') s" for s
    unfolding like_literal [OF assms] sep by (auto simp: prefix_def)
  have lead: "like_match (''%, '' @ p) s \<longleftrightarrow> (\<exists>u. suffix ('', '' @ u) s \<and> like_match p u)" for p s
  proof -
    have "like_match (''%, '' @ p) s \<longleftrightarrow> (\<exists>u v. s = u @ v \<and> like_match ('', '' @ p) v)"
      using like_any [of "'', '' @ p" s] by (simp only: append_Cons append_Nil)
    also have "\<dots> \<longleftrightarrow> (\<exists>u v. s = u @ v \<and> (\<exists>w. v = '', '' @ w \<and> like_match p w))"
      using like_literal [of "'', ''" p] by (simp only: plain_pattern_def) simp
    finally show ?thesis by (auto simp: suffix_def)
  qed
  have exact: "like_match t s \<longleftrightarrow> s = t" for s using like_literal [OF assms, of "[]" s] by auto
  show ?thesis unfolding tag_match_def tag_patterns_def
    by (simp only: list.case list.set bex_simps ball_simps tail lead exact) (auto simp: tail exact)
qed

lemma comma_split:
  assumes "CHR '','' \<notin> set a" and "CHR '','' \<notin> set b" and "a @ CHR '','' # x = b @ CHR '','' # y"
  shows "a = b \<and> x = y"
proof -
  have "takeWhile (\<lambda>c. c \<noteq> CHR '','') (v @ CHR '','' # w) = v" if "CHR '','' \<notin> set v" for v w :: string
    using that by (induction v) auto
  from this [OF assms(1), of x] this [OF assms(2), of y] assms(3) have "a = b" by simp
  with assms(3) show ?thesis by simp
qed

lemma tag_match_join:
  assumes "plain_pattern t" and "CHR '','' \<notin> set t"
  shows "ts \<noteq> [] \<Longrightarrow> \<forall>x \<in> set ts. CHR '','' \<notin> set x \<Longrightarrow> tag_match (tag_patterns t) (py_join '', '' ts) \<longleftrightarrow> t \<in> set ts"
proof (induction ts rule: induct_list012)
  case (2 x)
  have "CHR '','' \<notin> set x" using 2 by simp
  then have "\<not> prefix (t @ '', '') x" "\<not> suffix ('', '' @ u) x" for u by (auto simp: prefix_def suffix_def)
  then show ?case by (auto simp: tag_match_eq [OF assms(1)])
next
  case (3 x y ys)
  let ?rest = "py_join '', '' (y # ys)"
  have x: "CHR '','' \<notin> set x" using 3 by simp
  have p: "prefix (t @ '', '') (x @ '', '' @ ?rest) \<longleftrightarrow> t = x"
  proof
    assume "prefix (t @ '', '') (x @ '', '' @ ?rest)"
    then obtain z where "x @ CHR '','' # ('' '' @ ?rest) = t @ CHR '','' # ('' '' @ z)" by (auto simp: prefix_def)
    from comma_split [OF x assms(2) this] show "t = x" by simp
  qed (simp add: prefix_def)
  have s: "suffix ('', '' @ u) (x @ '', '' @ ?rest) \<longleftrightarrow> u = ?rest \<or> suffix ('', '' @ u) ?rest" for u
  proof
    assume "suffix ('', '' @ u) (x @ '', '' @ ?rest)"
    then obtain z where z: "x @ '', '' @ ?rest = z @ '', '' @ u" by (auto simp: suffix_def)
    show "u = ?rest \<or> suffix ('', '' @ u) ?rest"
    proof (cases "CHR '','' \<in> set z")
      case False
      with comma_split [OF x False, of "'' '' @ ?rest" "'' '' @ u"] z show ?thesis by simp
    next
      case True
      then obtain a b where ab: "z = a @ CHR '','' # b" "CHR '','' \<notin> set a" by (meson split_list_first)
      with comma_split [OF x ab(2), of "'' '' @ ?rest" "b @ '', '' @ u"] z have "'' '' @ ?rest = b @ '', '' @ u" by simp
      then show ?thesis by (cases b) (auto simp: suffix_def)
    qed
  qed (auto simp: suffix_def)
  have IH: "tag_match (tag_patterns t) ?rest \<longleftrightarrow> t \<in> set (y # ys)" using 3 by simp
  have ne: "x @ '', '' @ ?rest \<noteq> t" using assms(2) by auto
  have "tag_match (tag_patterns t) (x @ '', '' @ ?rest) \<longleftrightarrow> t = x \<or> tag_match (tag_patterns t) ?rest"
    unfolding tag_match_eq [OF assms(1)] p s using ne by auto
  with IH show ?case by auto
qed simp

text \<open>The filter of a tag is read as one prepared statement whatever the tag holds, and a tag
  without wildcards selects a note exactly when it is one of the note's stored tags.  The tags
  the client gives are lowered first while the stored ones keep their case: no request selects
  a note by a tag of its that has a capital.\<close>

theorem tag_filter_exact:
  assumes "ts \<noteq> []" and "\<forall>x \<in> set ts. CHR '','' \<notin> set x" and "t \<in> set (clean_tags tags)"
    and "plain_pattern t" and "CHR '','' \<notin> set t"
  shows "sql_prepare (tag_condition t) = Some (tag_template, tag_patterns t) \<and>
    (tag_match (tag_patterns t) (py_join '', '' ts) \<longleftrightarrow> t \<in> set (filter (\<lambda>x. py_lower x = x) ts))"
proof -
  have "py_lower t = t" using assms(3) by (auto simp: clean_tags_def)
  then show ?thesis using tag_match_join [OF assms(4,5,1,2)] tag_condition_reads by auto
qed

theorem tag_filter_exact_witness:
  "\<not> tag_match (tag_patterns ''python'') (py_join '', '' [''Python'', ''web'']) \<and>
   tag_match (tag_patterns ''web'') (py_join '', '' [''Python'', ''web''])"
proof -
  have c: "''python'' \<in> set (clean_tags ['' Python ''])" "''web'' \<in> set (clean_tags [''web''])" by code_simp+
  have p: "plain_pattern ''python''" "plain_pattern ''web''" by (simp_all add: plain_pattern_def)
  have l: "py_lower ''Python'' \<noteq> ''Python''" "py_lower ''web'' = ''web''" by code_simp+
  show ?thesis
    using tag_filter_exact [OF _ _ c(1) p(1), of "[''Python'', ''web'']"]
      tag_filter_exact [OF _ _ c(2) p(2), of "[''Python'', ''web'']"] l by simp
qed

section \<open>The statistics of the tags\<close>

text \<open>The folder filter of the tag statistics is read as intended for a folder without quotes,
  and a folder with a quote changes the query: this one selects the rows of every folder.\<close>

theorem tag_stats_folder_unescaped:
  "(quote_char \<notin> set f \<longrightarrow> sql_prepare (tag_stats_where f) = Some (''folder = ? OR folder LIKE ?'', [f, f @ ''/%''])) \<and>
   sql_prepare (tag_stats_where (''x'' @ [quote_char] @ '' OR '' @ sq ''a'' @ ''='' @ [quote_char] @ ''a'')) =
     Some (''folder = ? OR ?=? OR folder LIKE ? OR ?=?'', [''x'', ''a'', ''a'', ''x'', ''a'', ''a/%''])"
proof (intro conjI impI)
  assume q: "quote_char \<notin> set f"
  have "reads (sq (f @ ''/%'')) ''?'' [f @ ''/%'']" using q by (intro sq_plain) simp
  from reads_code_append [OF _ this, of "'' OR folder LIKE ''"]
  have b: "reads ('' OR folder LIKE '' @ sq (f @ ''/%'')) '' OR folder LIKE ?'' [f @ ''/%'']" by simp
  from reads_step [OF sq_plain [OF q] b, of "''folder = ''"]
  show "sql_prepare (tag_stats_where f) = Some (''folder = ? OR folder LIKE ?'', [f, f @ ''/%''])"
    by (intro reads_whole) (simp add: tag_stats_where_def)
qed code_simp

theorem tag_stats_folder_unescaped_witness:
  "sql_prepare (tag_stats_where ''notes'') = Some (''folder = ? OR folder LIKE ?'', [''notes'', ''notes/%''])"
  using tag_stats_folder_unescaped [of "''notes''"] by simp

end
