(* ===== verification/Index_Store.thy ===== *)
theory Index_Store
  imports Chunker Markdown_Parser Filters
begin

text \<open>
  The index database as the indexer uses it (\<open>core/indexer.py\<close>, \<open>core/fts_builder.py\<close>): tables
  of chunks, links and aliases that keep every version, and the operations of \<open>VaultIndexer\<close> on
  the records of one note.  A call of the database either commits one new version or raises and
  commits nothing; which calls raise is chosen by the argument \<open>F\<close>, indexed by the number of
  the call, so that a statement for all \<open>F\<close> covers a failure at any point.
\<close>

section \<open>Rows and tables\<close>

record chunk_row =
  cr_chunk :: chunk
  cr_vector :: "rat list"

record alias_row =
  al_note_path :: string
  al_alias :: string
  al_normalized :: string

datatype index_row = ChunkRow chunk_row | LinkRow link | AliasRow alias_row

fun link_type_name :: "link_type \<Rightarrow> string" where
  "link_type_name LT_wikilink = ''wikilink''"
| "link_type_name LT_markdown = ''markdown''"
| "link_type_name LT_embed = ''embed''"
| "link_type_name LT_external = ''external''"

text \<open>The columns that the indexer's filters compare.\<close>

fun row_field :: "string \<Rightarrow> index_row \<Rightarrow> string option" where
  "row_field col (ChunkRow c) = (if col = ''note_path'' then Some (ch_note_path (cr_chunk c)) else None)"
| "row_field col (LinkRow l) =
     (if col = ''from_note_path'' then Some (lk_from_path l)
      else if col = ''link_type'' then Some (link_type_name (lk_type l))
      else if col = ''link_target'' then Some (lk_target l) else None)"
| "row_field col (AliasRow a) = (if col = ''note_path'' then Some (al_note_path a) else None)"

text \<open>A filter is a conjunction of comparisons of a column with a literal.\<close>

definition comparison :: "index_row \<Rightarrow> string \<Rightarrow> string \<Rightarrow> bool" where
  "comparison r c p \<longleftrightarrow> ends_with c '' = ?'' \<and> row_field (take (length c - 4) c) r = Some p"

definition satisfies :: "string \<Rightarrow> index_row \<Rightarrow> bool" where
  "satisfies w r \<longleftrightarrow>
     (case sql_prepare w of
        None \<Rightarrow> False
      | Some (t, ps) \<Rightarrow> list_all2 (comparison r) (py_split '' AND '' t) ps)"

text \<open>A table is its current rows and the rows of its earlier versions.\<close>

record 'r vtable =
  vt_rows :: "'r list"
  vt_history :: "'r list list"

definition new_table :: "'r list \<Rightarrow> 'r vtable" where
  "new_table rows = \<lparr>vt_rows = rows, vt_history = []\<rparr>"

definition vt_version :: "'r vtable \<Rightarrow> nat" where
  "vt_version t = Suc (length (vt_history t))"

definition vt_commit :: "'r list \<Rightarrow> 'r vtable \<Rightarrow> 'r vtable" where
  "vt_commit rows t = \<lparr>vt_rows = rows, vt_history = vt_history t @ [vt_rows t]\<rparr>"

definition vt_restore :: "nat \<Rightarrow> 'r vtable \<Rightarrow> 'r vtable" where
  "vt_restore v t = vt_commit ((vt_history t @ [vt_rows t]) ! (v - 1)) t"

text \<open>What the indexer relies on: a table restored to an earlier version has its rows again.\<close>

locale versioned_table =
  fixes rows :: "'t \<Rightarrow> 'r list"
    and version :: "'t \<Rightarrow> nat"
    and commit :: "'r list \<Rightarrow> 't \<Rightarrow> 't"
    and restore :: "nat \<Rightarrow> 't \<Rightarrow> 't"
  assumes rows_commit: "rows (commit rs t) = rs"
    and version_commit: "version t < version (commit rs t)"
    and restore_commits: "rows (restore (version t) (fold commit rss t)) = rows t"
begin

definition undone :: "nat \<Rightarrow> 't \<Rightarrow> 'r list \<Rightarrow> bool" where
  "undone v t rs \<longleftrightarrow> (\<forall>rss. rows (restore v (fold commit rss t)) = rs)"

lemma undone_now: "undone (version t) t (rows t)"
  by (simp add: undone_def restore_commits)

lemma undone_commit: "undone v t rs \<Longrightarrow> undone v (commit rs' t) rs"
  unfolding undone_def by (metis fold_simps(2))

lemma undone_restore: "undone v t rs \<Longrightarrow> rows (restore v t) = rs"
  unfolding undone_def by (metis fold_simps(1))

lemma commit_twice: "rows (restore (version t) (commit b (commit a t))) = rows t"
  using restore_commits [of t "[a, b]"] by simp

end

lemma vt_fold: "\<exists>h. vt_history (fold vt_commit rss t) @ [vt_rows (fold vt_commit rss t)] =
    vt_history t @ [vt_rows t] @ h"
proof (induction rss arbitrary: t)
  case (Cons rs rss)
  from Cons [of "vt_commit rs t"] show ?case by (auto simp: vt_commit_def)
qed simp

interpretation vt: versioned_table vt_rows vt_version vt_commit vt_restore
proof
  fix t :: "'r vtable" and rss
  obtain h where "vt_history (fold vt_commit rss t) @ [vt_rows (fold vt_commit rss t)] = vt_history t @ [vt_rows t] @ h"
    using vt_fold by blast
  then show "vt_rows (vt_restore (vt_version t) (fold vt_commit rss t)) = vt_rows t"
    by (simp add: vt_restore_def vt_version_def vt_commit_def)
qed (simp_all add: vt_commit_def vt_version_def)

section \<open>The state of the indexer\<close>

text \<open>
  \<open>ix_db\<close> is the database by table names; the three handles are the fields \<open>_table\<close>,
  \<open>_links_table\<close> and \<open>_aliases_table\<close>, each the name of the table it is open on.
\<close>

record indexer =
  ix_db :: "string \<Rightarrow> index_row vtable option"
  ix_table :: "string option"
  ix_links_table :: "string option"
  ix_aliases_table :: "string option"
  ix_operations :: nat
  ix_attempts :: "(string, nat \<times> rat) dict"
  ix_fts_rebuilding :: bool
  ix_calls :: nat

type_synonym faults = "nat \<Rightarrow> pyexn option"
type_synonym 'a ix = "faults \<Rightarrow> indexer \<Rightarrow> 'a result \<times> indexer"

definition return_ix :: "'a \<Rightarrow> 'a ix" where
  "return_ix x = (\<lambda>F s. (Inr x, s))"

definition bind_ix :: "'a ix \<Rightarrow> ('a \<Rightarrow> 'b ix) \<Rightarrow> 'b ix" where
  "bind_ix m f = (\<lambda>F s. case m F s of (Inl e, s) \<Rightarrow> (Inl e, s) | (Inr x, s) \<Rightarrow> f x F s)"

definition catch_ix :: "'a ix \<Rightarrow> (pyexn \<Rightarrow> 'a ix) \<Rightarrow> 'a ix" where
  "catch_ix m h = (\<lambda>F s. case m F s of (Inl e, s) \<Rightarrow> h e F s | (Inr x, s) \<Rightarrow> (Inr x, s))"

definition when_ix :: "bool \<Rightarrow> unit ix \<Rightarrow> unit ix" where
  "when_ix b m = (if b then m else return_ix ())"

definition update_ix :: "(indexer \<Rightarrow> indexer) \<Rightarrow> unit ix" where
  "update_ix f = (\<lambda>F s. (Inr (), f s))"

definition db_call :: "(indexer \<Rightarrow> 'a \<times> indexer) \<Rightarrow> 'a ix" where
  "db_call f = (\<lambda>F s.
     let s' = s\<lparr>ix_calls := Suc (ix_calls s)\<rparr> in
     case F (ix_calls s) of Some e \<Rightarrow> (Inl e, s') | None \<Rightarrow> (case f s' of (x, s'') \<Rightarrow> (Inr x, s'')))"

section \<open>Calls of the database\<close>

definition table_rows :: "indexer \<Rightarrow> string \<Rightarrow> index_row list" where
  "table_rows s name = (case ix_db s name of None \<Rightarrow> [] | Some t \<Rightarrow> vt_rows t)"

definition set_table :: "string \<Rightarrow> index_row vtable \<Rightarrow> indexer \<Rightarrow> indexer" where
  "set_table name t s = s\<lparr>ix_db := (ix_db s)(name \<mapsto> t)\<rparr>"

definition commit_rows :: "string \<Rightarrow> index_row list \<Rightarrow> indexer \<Rightarrow> indexer" where
  "commit_rows name rows s =
     (case ix_db s name of None \<Rightarrow> s | Some t \<Rightarrow> set_table name (vt_commit rows t) s)"

definition table_version :: "string \<Rightarrow> nat ix" where
  "table_version name = db_call (\<lambda>s. (case ix_db s name of None \<Rightarrow> 0 | Some t \<Rightarrow> vt_version t, s))"

definition delete_rows :: "string \<Rightarrow> string \<Rightarrow> unit ix" where
  "delete_rows name cond = db_call (\<lambda>s. ((),
     commit_rows name (filter (\<lambda>r. \<not> satisfies cond r) (table_rows s name)) s))"

definition add_rows :: "string \<Rightarrow> index_row list \<Rightarrow> unit ix" where
  "add_rows name rows = db_call (\<lambda>s. ((), commit_rows name (table_rows s name @ rows) s))"

definition restore_table :: "string \<Rightarrow> nat \<Rightarrow> unit ix" where
  "restore_table name v = db_call (\<lambda>s. ((),
     case ix_db s name of None \<Rightarrow> s | Some t \<Rightarrow> set_table name (vt_restore v t) s))"

text \<open>
  \<open>_ensure_table\<close> and its two copies: the open handle, else the table of that name, which is
  created when the database has none.  The calls on the connection count as one.
\<close>

definition open_or_create :: "string \<Rightarrow> unit ix" where
  "open_or_create name = db_call (\<lambda>s. ((),
     case ix_db s name of None \<Rightarrow> set_table name (new_table []) s | Some t \<Rightarrow> s))"

definition ensure_table :: "string \<Rightarrow> string ix" where
  "ensure_table name = (\<lambda>F s. case ix_table s of
       Some h \<Rightarrow> (Inr h, s)
     | None \<Rightarrow> bind_ix (open_or_create name) (\<lambda>_.
         bind_ix (update_ix (\<lambda>s. s\<lparr>ix_table := Some name\<rparr>)) (\<lambda>_. return_ix name)) F s)"

definition links_name :: string where "links_name = ''links_index''"
definition aliases_name :: string where "aliases_name = ''note_aliases''"

definition ensure_links_table :: "string ix" where
  "ensure_links_table = (\<lambda>F s. case ix_links_table s of
       Some h \<Rightarrow> (Inr h, s)
     | None \<Rightarrow> bind_ix (open_or_create links_name) (\<lambda>_.
         bind_ix (update_ix (\<lambda>s. s\<lparr>ix_links_table := Some links_name\<rparr>)) (\<lambda>_. return_ix links_name)) F s)"

definition ensure_aliases_table :: "string ix" where
  "ensure_aliases_table = (\<lambda>F s. case ix_aliases_table s of
       Some h \<Rightarrow> (Inr h, s)
     | None \<Rightarrow> bind_ix (open_or_create aliases_name) (\<lambda>_.
         bind_ix (update_ix (\<lambda>s. s\<lparr>ix_aliases_table := Some aliases_name\<rparr>)) (\<lambda>_. return_ix aliases_name)) F s)"

section \<open>The records of a note\<close>

definition note_filter :: "string \<Rightarrow> string \<Rightarrow> string" where
  "note_filter col path = col @ '' = '' @ sq (escape_sql_string path)"

definition index_links :: "link list \<Rightarrow> nat ix" where
  "index_links links =
     (if links = [] then return_ix 0
      else bind_ix ensure_links_table (\<lambda>t. bind_ix (add_rows t (map LinkRow links)) (\<lambda>_. return_ix (length links))))"

definition alias_records :: "string \<Rightarrow> string list \<Rightarrow> index_row list" where
  "alias_records path aliases =
     map (\<lambda>a. AliasRow \<lparr>al_note_path = path, al_alias = strip a, al_normalized = normalize_link_target a\<rparr>)
       (filter (\<lambda>a. a \<noteq> [] \<and> strip a \<noteq> []) aliases)"

definition index_aliases :: "string \<Rightarrow> string list \<Rightarrow> nat ix" where
  "index_aliases path aliases =
     (if aliases = [] then return_ix 0
      else bind_ix ensure_aliases_table (\<lambda>t.
        let records = alias_records path aliases in
        bind_ix (when_ix (records \<noteq> []) (add_rows t records)) (\<lambda>_. return_ix (length records))))"

definition delete_note_links :: "string \<Rightarrow> unit ix" where
  "delete_note_links path =
     catch_ix (bind_ix ensure_links_table (\<lambda>t. delete_rows t (note_filter ''from_note_path'' path)))
       (\<lambda>_. return_ix ())"

definition delete_note_aliases :: "string \<Rightarrow> unit ix" where
  "delete_note_aliases path =
     catch_ix (bind_ix ensure_aliases_table (\<lambda>t. delete_rows t (note_filter ''note_path'' path)))
       (\<lambda>_. return_ix ())"

text \<open>
  \<open>_apply_note_records\<close>: the changes run with the list of snapshots taken so far, the latest
  first; a failure restores them in that order, whatever the restorations raise, and is raised
  again.
\<close>

type_synonym snapshots = "(string \<times> nat) list"
type_synonym 'a tracked = "snapshots \<Rightarrow> faults \<Rightarrow> indexer \<Rightarrow> ('a result \<times> snapshots) \<times> indexer"

definition bind_tracked :: "'a tracked \<Rightarrow> ('a \<Rightarrow> 'b tracked) \<Rightarrow> 'b tracked" where
  "bind_tracked m f = (\<lambda>sn F s. case m sn F s of
       ((Inl e, sn), s) \<Rightarrow> ((Inl e, sn), s) | ((Inr x, sn), s) \<Rightarrow> f x sn F s)"

definition untracked :: "'a ix \<Rightarrow> 'a tracked" where
  "untracked m = (\<lambda>sn F s. case m F s of (r, s) \<Rightarrow> ((r, sn), s))"

definition take_snapshot :: "string \<Rightarrow> unit tracked" where
  "take_snapshot name = (\<lambda>sn F s. case table_version name F s of
       (Inl e, s) \<Rightarrow> ((Inl e, sn), s) | (Inr v, s) \<Rightarrow> ((Inr (), (name, v) # sn), s))"

fun restore_all :: "snapshots \<Rightarrow> unit ix" where
  "restore_all [] = return_ix ()"
| "restore_all ((name, v) # sn) =
     bind_ix (catch_ix (restore_table name v) (\<lambda>_. return_ix ())) (\<lambda>_. restore_all sn)"

definition or_restore :: "'a tracked \<Rightarrow> 'a ix" where
  "or_restore m = (\<lambda>F s. case m [] F s of
       ((Inr x, _), s) \<Rightarrow> (Inr x, s)
     | ((Inl e, sn), s) \<Rightarrow> (Inl e, snd (restore_all sn F s)))"

definition replace_rows :: "string \<Rightarrow> string \<Rightarrow> unit ix \<Rightarrow> unit tracked" where
  "replace_rows name cond add =
     bind_tracked (take_snapshot name) (\<lambda>_.
     bind_tracked (untracked (delete_rows name cond)) (\<lambda>_. untracked add))"

definition apply_note_records ::
  "string \<Rightarrow> string \<Rightarrow> chunk_row list \<Rightarrow> link list \<Rightarrow> string list \<Rightarrow> (string \<times> nat \<times> nat) ix" where
  "apply_note_records chunks_name path chunks links aliases =
     bind_ix (ensure_table chunks_name) (\<lambda>t. or_restore (
       bind_tracked (replace_rows t (note_filter ''note_path'' path)
         (when_ix (chunks \<noteq> []) (add_rows t (map ChunkRow chunks)))) (\<lambda>_.
       bind_tracked (untracked ensure_links_table) (\<lambda>l.
       bind_tracked (replace_rows l (note_filter ''from_note_path'' path)
         (when_ix (links \<noteq> []) (add_rows l (map LinkRow links)))) (\<lambda>_.
       bind_tracked (untracked ensure_aliases_table) (\<lambda>a.
       bind_tracked (take_snapshot a) (\<lambda>_.
       bind_tracked (untracked (delete_rows a (note_filter ''note_path'' path))) (\<lambda>_.
       bind_tracked (untracked (index_aliases path aliases)) (\<lambda>n.
       untracked (return_ix (t, length links, n)))))))))))"

section \<open>Filters\<close>

lemma note_filter_reads: "quote_char \<notin> set col \<Longrightarrow> sql_prepare (note_filter col p) = Some (col @ '' = ?'', [p])"
proof -
  assume q: "quote_char \<notin> set col"
  have "reads ((col @ '' = '') @ sq (escape_sql_string p)) ((col @ '' = '') @ ''?'') [p]"
    using q by (intro reads_code_append sq_escape_sql) simp
  then show ?thesis by (intro reads_whole) (simp add: note_filter_def)
qed

lemma note_filter_selects [simp]:
  "satisfies (note_filter ''note_path'' p) r \<longleftrightarrow> row_field ''note_path'' r = Some p"
  "satisfies (note_filter ''from_note_path'' p) r \<longleftrightarrow> row_field ''from_note_path'' r = Some p"
proof -
  have s: "py_split '' AND '' ''note_path = ?'' = [''note_path = ?'']"
    "py_split '' AND '' ''from_note_path = ?'' = [''from_note_path = ?'']" by code_simp+
  have e: "ends_with ''note_path = ?'' '' = ?''" "ends_with ''from_note_path = ?'' '' = ?''" by code_simp+
  show "satisfies (note_filter ''note_path'' p) r \<longleftrightarrow> row_field ''note_path'' r = Some p"
    "satisfies (note_filter ''from_note_path'' p) r \<longleftrightarrow> row_field ''from_note_path'' r = Some p"
    using note_filter_reads [of "''note_path''" p] note_filter_reads [of "''from_note_path''" p] s e
    by (simp_all add: satisfies_def comparison_def del: row_field.simps)
qed

section \<open>What an operation touches\<close>

text \<open>The tables that the handles are or will be open on.\<close>

definition chunks_of :: "string \<Rightarrow> indexer \<Rightarrow> string" where
  "chunks_of name s = (case ix_table s of Some h \<Rightarrow> h | None \<Rightarrow> name)"

definition links_of :: "indexer \<Rightarrow> string" where
  "links_of s = (case ix_links_table s of Some h \<Rightarrow> h | None \<Rightarrow> links_name)"

definition aliases_of :: "indexer \<Rightarrow> string" where
  "aliases_of s = (case ix_aliases_table s of Some h \<Rightarrow> h | None \<Rightarrow> aliases_name)"

text \<open>Every open handle is the handle of a table of the database.\<close>

definition handles_open :: "indexer \<Rightarrow> bool" where
  "handles_open s \<longleftrightarrow> (\<forall>h. Some h \<in> {ix_table s, ix_links_table s, ix_aliases_table s} \<longrightarrow> ix_db s h \<noteq> None)"

text \<open>From \<open>s\<close> to \<open>s'\<close> only tables of \<open>A\<close> got new versions; handles stay open.\<close>

definition evolves :: "string set \<Rightarrow> indexer \<Rightarrow> indexer \<Rightarrow> bool" where
  "evolves A s s' \<longleftrightarrow>
     (\<forall>n t. ix_db s n = Some t \<longrightarrow> (\<exists>rss. ix_db s' n = Some (fold vt_commit rss t) \<and> (n \<notin> A \<longrightarrow> rss = []))) \<and>
     (\<forall>n. ix_db s n = None \<longrightarrow> n \<notin> A \<longrightarrow> table_rows s' n = []) \<and>
     (\<forall>h. ix_table s = Some h \<longrightarrow> ix_table s' = Some h) \<and>
     (\<forall>h. ix_links_table s = Some h \<longrightarrow> ix_links_table s' = Some h) \<and>
     (\<forall>h. ix_aliases_table s = Some h \<longrightarrow> ix_aliases_table s' = Some h) \<and>
     (handles_open s \<longrightarrow> handles_open s') \<and> links_of s' = links_of s \<and> aliases_of s' = aliases_of s \<and>
     ix_attempts s' = ix_attempts s"

definition faulted :: "faults \<Rightarrow> indexer \<Rightarrow> indexer \<Rightarrow> bool" where
  "faulted F s s' \<longleftrightarrow> (\<exists>k. ix_calls s \<le> k \<and> k < ix_calls s' \<and> F k \<noteq> None)"

definition touches :: "(indexer \<Rightarrow> bool) \<Rightarrow> string set \<Rightarrow> 'a ix \<Rightarrow> bool" where
  "touches P A m \<longleftrightarrow> (\<forall>F s r s'. P s \<longrightarrow> m F s = (r, s') \<longrightarrow>
     evolves A s s' \<and> ix_calls s \<le> ix_calls s' \<and> ((\<exists>e. r = Inl e) \<longrightarrow> faulted F s s'))"

lemma evolves_refl [simp]: "evolves A s s"
  by (auto simp: evolves_def table_rows_def intro: exI [of _ "[]"])

lemma evolves_rows: "evolves A s s' \<Longrightarrow> n \<notin> A \<Longrightarrow> table_rows s' n = table_rows s n"
  by (cases "ix_db s n") (fastforce simp: evolves_def table_rows_def)+

lemma evolves_trans:
  assumes "evolves A s s'" and "evolves A s' s''"
  shows "evolves A s s''"
  unfolding evolves_def
proof (intro conjI allI impI)
  fix n t
  assume "ix_db s n = Some t"
  then obtain rss where r: "ix_db s' n = Some (fold vt_commit rss t)" "n \<notin> A \<longrightarrow> rss = []"
    using assms(1) unfolding evolves_def by blast
  then obtain rss' where "ix_db s'' n = Some (fold vt_commit rss' (fold vt_commit rss t))" "n \<notin> A \<longrightarrow> rss' = []"
    using assms(2) unfolding evolves_def by blast
  with r show "\<exists>rss. ix_db s'' n = Some (fold vt_commit rss t) \<and> (n \<notin> A \<longrightarrow> rss = [])"
    by (intro exI [of _ "rss @ rss'"]) auto
next
  fix n
  assume "ix_db s n = None" "n \<notin> A"
  then show "table_rows s'' n = []" using assms evolves_rows [OF assms(2), of n] by (simp add: evolves_def)
qed (use assms in \<open>simp_all add: evolves_def\<close>)

lemma evolves_mono: "evolves A s s' \<Longrightarrow> A \<subseteq> B \<Longrightarrow> evolves B s s'"
  unfolding evolves_def by blast

lemma evolves_exists: "evolves A s s' \<Longrightarrow> ix_db s n \<noteq> None \<Longrightarrow> ix_db s' n \<noteq> None"
  unfolding evolves_def by fastforce

lemma evolves_commit: "evolves {n} s (commit_rows n rows s)"
  by (auto simp: evolves_def commit_rows_def set_table_def table_rows_def handles_open_def links_of_def aliases_of_def
      split: option.splits intro: exI [of _ "[]"] exI [of _ "[rows]"])

lemma evolves_calls [simp]:
  "evolves A (s\<lparr>ix_calls := k\<rparr>) s' = evolves A s s'" "evolves A s (s'\<lparr>ix_calls := k\<rparr>) = evolves A s s'"
  by (simp_all add: evolves_def table_rows_def handles_open_def links_of_def aliases_of_def)

lemma touches_call:
  assumes "\<And>s. P s \<Longrightarrow> evolves A s (snd (f s))" and "\<And>s. ix_calls (snd (f s)) = ix_calls s"
    and "\<And>s k. P s \<Longrightarrow> P (s\<lparr>ix_calls := k\<rparr>)"
  shows "touches P A (db_call f)"
  unfolding touches_def
proof (intro allI impI)
  fix F s r s'
  assume p: "P s" and run: "db_call f F s = (r, s')"
  let ?s = "s\<lparr>ix_calls := Suc (ix_calls s)\<rparr>"
  show "evolves A s s' \<and> ix_calls s \<le> ix_calls s' \<and> ((\<exists>e. r = Inl e) \<longrightarrow> faulted F s s')"
  proof (cases "F (ix_calls s)")
    case None
    then have "s' = snd (f ?s)" "\<not> (\<exists>e. r = Inl e)" using run by (auto simp: db_call_def Let_def split: prod.splits)
    then show ?thesis using assms(1) [OF assms(3) [OF p], of "Suc (ix_calls s)"] assms(2) [of ?s] by simp
  next
    case (Some e)
    then have "s' = ?s" using run by (simp add: db_call_def Let_def)
    with Some show ?thesis by (auto simp: faulted_def)
  qed
qed

lemma touches_bind:
  assumes "touches P A m" and "\<And>x. touches P A (f x)" and "\<And>s s'. P s \<Longrightarrow> evolves A s s' \<Longrightarrow> P s'"
  shows "touches P A (bind_ix m f)"
  unfolding touches_def
proof (intro allI impI)
  fix F s r s'
  assume p: "P s" and run: "bind_ix m f F s = (r, s')"
  obtain r1 s1 where m: "m F s = (r1, s1)" by (cases "m F s")
  with p assms(1) have one: "evolves A s s1" "ix_calls s \<le> ix_calls s1" "(\<exists>e. r1 = Inl e) \<longrightarrow> faulted F s s1"
    unfolding touches_def by blast+
  show "evolves A s s' \<and> ix_calls s \<le> ix_calls s' \<and> ((\<exists>e. r = Inl e) \<longrightarrow> faulted F s s')"
  proof (cases r1)
    case (Inl e)
    then have "s' = s1" using run m by (simp add: bind_ix_def)
    with one Inl show ?thesis by auto
  next
    case (Inr x)
    then have "f x F s1 = (r, s')" using run m by (simp add: bind_ix_def)
    with assms(2) assms(3) [OF p one(1)] have "evolves A s1 s'" "ix_calls s1 \<le> ix_calls s'" "(\<exists>e. r = Inl e) \<longrightarrow> faulted F s1 s'"
      unfolding touches_def by blast+
    with one show ?thesis by (auto simp: faulted_def intro: evolves_trans)
  qed
qed

lemma touches_return [simp]: "touches P A (return_ix x)"
  by (simp add: touches_def return_ix_def)

lemma touches_when: "touches P A m \<Longrightarrow> touches P A (when_ix b m)"
  by (simp add: when_ix_def)

lemma touches_rows [simp]:
  "touches (\<lambda>s. True) {n} (delete_rows n w)" "touches (\<lambda>s. True) {n} (add_rows n rs)" "touches (\<lambda>s. True) {} (table_version n)"
proof -
  have calls: "ix_calls (commit_rows n rs s) = ix_calls s" for rs s
    by (simp add: commit_rows_def set_table_def split: option.splits)
  show "touches (\<lambda>s. True) {n} (delete_rows n w)" "touches (\<lambda>s. True) {n} (add_rows n rs)" "touches (\<lambda>s. True) {} (table_version n)"
    unfolding delete_rows_def add_rows_def table_version_def
    by (rule touches_call; simp add: evolves_commit calls)+
qed

lemma touches_weaken: "touches P A m \<Longrightarrow> (\<And>s. Q s \<Longrightarrow> P s) \<Longrightarrow> A \<subseteq> B \<Longrightarrow> touches Q B m"
  by (simp add: touches_def) (blast intro: evolves_mono)

lemma evolves_open: "evolves {} s (case ix_db s n of None \<Rightarrow> set_table n (new_table []) s | Some t \<Rightarrow> s)"
  by (auto simp: evolves_def set_table_def table_rows_def new_table_def handles_open_def links_of_def aliases_of_def
      split: option.splits intro: exI [of _ "[]"])

lemma touches_open: "touches (\<lambda>s. True) {} (open_or_create n)"
  unfolding open_or_create_def
  by (rule touches_call) (auto simp: evolves_open set_table_def split: option.splits)

section \<open>Snapshots make changes recoverable\<close>

text \<open>Restoring the snapshots \<open>sn\<close> in the state \<open>s\<close> gives the rows of \<open>s0\<close>.\<close>

definition recoverable :: "indexer \<Rightarrow> snapshots \<Rightarrow> indexer \<Rightarrow> bool" where
  "recoverable s0 sn s \<longleftrightarrow>
     (\<forall>n. case map_of (rev sn) n of
        None \<Rightarrow> table_rows s n = table_rows s0 n
      | Some v \<Rightarrow> \<exists>t. ix_db s n = Some t \<and> vt.undone v t (table_rows s0 n))"

lemma recoverable_start: "recoverable s [] s"
  by (simp add: recoverable_def)

lemma recoverable_new: "recoverable s0 sn s \<Longrightarrow> map_of (rev sn) n = None \<Longrightarrow> table_rows s n = table_rows s0 n"
  by (auto simp: recoverable_def dest: spec [of _ n])

lemma recoverable_taken:
  "recoverable s0 sn s \<Longrightarrow> map_of (rev sn) n = Some v \<Longrightarrow> \<exists>t. ix_db s n = Some t \<and> vt.undone v t (table_rows s0 n)"
  by (auto simp: recoverable_def dest: spec [of _ n])

lemma undone_fold: "vt.undone v t rs \<Longrightarrow> vt.undone v (fold vt_commit rss t) rs"
  by (induction rss arbitrary: t) (auto intro: vt.undone_commit)

lemma recoverable_evolves:
  assumes "recoverable s0 sn s" and "evolves A s s'" and "\<And>n. n \<in> A \<Longrightarrow> map_of (rev sn) n \<noteq> None"
  shows "recoverable s0 sn s'"
  unfolding recoverable_def
proof (intro allI)
  fix n
  show "case map_of (rev sn) n of None \<Rightarrow> table_rows s' n = table_rows s0 n
      | Some v \<Rightarrow> \<exists>t. ix_db s' n = Some t \<and> vt.undone v t (table_rows s0 n)"
  proof (cases "map_of (rev sn) n")
    case None
    with assms(3) have "n \<notin> A" by blast
    with None recoverable_new [OF assms(1) None] evolves_rows [OF assms(2)] show ?thesis by simp
  next
    case (Some v)
    with assms(1) obtain t where t: "ix_db s n = Some t" "vt.undone v t (table_rows s0 n)"
      using recoverable_taken by blast
    moreover from t(1) assms(2) obtain rss where "ix_db s' n = Some (fold vt_commit rss t)"
      unfolding evolves_def by blast
    ultimately show ?thesis using Some by (auto intro: undone_fold)
  qed
qed

lemma recoverable_snapshot:
  assumes "recoverable s0 sn s" and "ix_db s n = Some t"
  shows "recoverable s0 ((n, vt_version t) # sn) s"
  unfolding recoverable_def
proof (intro allI)
  fix m
  show "case map_of (rev ((n, vt_version t) # sn)) m of None \<Rightarrow> table_rows s m = table_rows s0 m
      | Some v \<Rightarrow> \<exists>t. ix_db s m = Some t \<and> vt.undone v t (table_rows s0 m)"
  proof (cases "map_of (rev sn) m")
    case None
    from recoverable_new [OF assms(1) None] have rows: "table_rows s m = table_rows s0 m" .
    show ?thesis
    proof (cases "m = n")
      case True
      then have "table_rows s0 n = vt_rows t" using rows assms(2) by (simp add: table_rows_def)
      with True None assms(2) vt.undone_now [of t] show ?thesis by (simp add: map_add_def)
    qed (use None rows in \<open>simp add: map_add_def\<close>)
  next
    case (Some v)
    with recoverable_taken [OF assms(1) Some] show ?thesis by (simp add: map_add_def)
  qed
qed

lemma restore_table_quiet:
  assumes "F (ix_calls s) = None" and "ix_db s n = Some t"
  shows "restore_table n v F s = (Inr (), set_table n (vt_restore v t) (s\<lparr>ix_calls := Suc (ix_calls s)\<rparr>))"
  using assms by (simp add: restore_table_def db_call_def)

lemma recoverable_restored:
  assumes "recoverable s0 ((m, v) # sn) s" and "ix_db s m = Some t"
  shows "recoverable s0 sn (set_table m (vt_restore v t) (s\<lparr>ix_calls := k\<rparr>))"
  unfolding recoverable_def
proof (intro allI)
  fix n
  let ?s = "set_table m (vt_restore v t) (s\<lparr>ix_calls := k\<rparr>)"
  show "case map_of (rev sn) n of None \<Rightarrow> table_rows ?s n = table_rows s0 n
      | Some v \<Rightarrow> \<exists>t. ix_db ?s n = Some t \<and> vt.undone v t (table_rows s0 n)"
  proof (cases "map_of (rev sn) n")
    case None
    show ?thesis
    proof (cases "n = m")
      case True
      then have "map_of (rev ((m, v) # sn)) m = Some v" using None by (simp add: map_add_def)
      from recoverable_taken [OF assms(1) this] assms(2) have "vt.undone v t (table_rows s0 m)" by simp
      with True None vt.undone_restore show ?thesis by (simp add: table_rows_def set_table_def)
    next
      case False
      then have "map_of (rev ((m, v) # sn)) n = None" using None by (simp add: map_add_def)
      from recoverable_new [OF assms(1) this] False None show ?thesis by (simp add: table_rows_def set_table_def)
    qed
  next
    case (Some w)
    then have "map_of (rev ((m, v) # sn)) n = Some w" by (simp add: map_add_def)
    from recoverable_taken [OF assms(1) this] obtain t' where t': "ix_db s n = Some t'" "vt.undone w t' (table_rows s0 n)" by blast
    with Some assms(2) show ?thesis
      by (cases "n = m") (auto simp: set_table_def vt_restore_def intro: vt.undone_commit)
  qed
qed

lemma restore_all_recovers:
  "recoverable s0 sn s \<Longrightarrow> \<forall>k \<ge> ix_calls s. F k = None \<Longrightarrow>
     table_rows (snd (restore_all sn F s)) n = table_rows s0 n"
proof (induction sn arbitrary: s)
  case Nil
  then show ?case by (simp add: return_ix_def recoverable_def)
next
  case (Cons x sn)
  obtain m v where x: "x = (m, v)" by fastforce
  obtain w where "map_of (rev (x # sn)) m = Some w" unfolding x by (cases "map_of (rev sn) m") (auto simp: map_add_def)
  from recoverable_taken [OF Cons.prems(1) this] obtain t where t: "ix_db s m = Some t" by blast
  let ?s = "set_table m (vt_restore v t) (s\<lparr>ix_calls := Suc (ix_calls s)\<rparr>)"
  have step: "restore_table m v F s = (Inr (), ?s)" using Cons.prems(2) t by (intro restore_table_quiet) auto
  have "\<forall>k \<ge> ix_calls ?s. F k = None" using Cons.prems(2) by (simp add: set_table_def)
  from Cons.IH [OF recoverable_restored [OF Cons.prems(1) [unfolded x] t] this]
  show ?case by (simp add: x bind_ix_def catch_ix_def step)
qed

text \<open>A tracked change keeps what the snapshots can restore; it raises only at a fault.\<close>

definition safe :: "(indexer \<Rightarrow> bool) \<Rightarrow> 'a tracked \<Rightarrow> ('a \<Rightarrow> indexer \<Rightarrow> bool) \<Rightarrow> bool" where
  "safe P m Q \<longleftrightarrow> (\<forall>s0 sn F s r sn' s'. P s \<longrightarrow> recoverable s0 sn s \<longrightarrow> m sn F s = ((r, sn'), s') \<longrightarrow>
     recoverable s0 sn' s' \<and> evolves UNIV s s' \<and> ix_calls s \<le> ix_calls s' \<and>
     (case r of Inl e \<Rightarrow> faulted F s s' | Inr x \<Rightarrow> Q x s'))"

lemma safe_bind: "safe P m Q \<Longrightarrow> (\<And>x. safe (Q x) (f x) R) \<Longrightarrow> safe P (bind_tracked m f) R"
  unfolding safe_def
proof (intro allI impI, goal_cases)
  case (1 s0 sn F s r sn' s')
  obtain r1 sn1 s1 where m: "m sn F s = ((r1, sn1), s1)" by (metis prod.exhaust)
  from 1(1,3,4) m have one: "recoverable s0 sn1 s1" "evolves UNIV s s1" "ix_calls s \<le> ix_calls s1"
    "case r1 of Inl e \<Rightarrow> faulted F s s1 | Inr x \<Rightarrow> Q x s1" by blast+
  show ?case
  proof (cases r1)
    case (Inl e)
    with 1(5) m one show ?thesis by (auto simp: bind_tracked_def)
  next
    case (Inr x)
    then have f: "f x sn1 F s1 = ((r, sn'), s')" using 1(5) m by (simp add: bind_tracked_def)
    from one(4) Inr have "Q x s1" by simp
    with 1(2) [of x] one(1) f have two: "recoverable s0 sn' s'" "evolves UNIV s1 s'" "ix_calls s1 \<le> ix_calls s'"
      "case r of Inl e \<Rightarrow> faulted F s1 s' | Inr y \<Rightarrow> R y s'" by blast+
    with one(2,3) show ?thesis
      by (auto simp: faulted_def split: sum.splits intro: evolves_trans) (meson evolves_trans le_trans)+
  qed
qed

lemma safe_untracked:
  assumes "touches P {} m" and "\<And>F s x s'. P s \<Longrightarrow> m F s = (Inr x, s') \<Longrightarrow> evolves {} s s' \<Longrightarrow> Q x s'"
  shows "safe P (untracked m) Q"
  unfolding safe_def
proof (intro allI impI)
  fix s0 sn F s r sn' s'
  assume p: "P s" and rec: "recoverable s0 sn s" and run: "untracked m sn F s = ((r, sn'), s')"
  from run have m: "m F s = (r, s')" "sn' = sn" by (auto simp: untracked_def split: prod.splits)
  with assms(1) p have t: "evolves {} s s'" "ix_calls s \<le> ix_calls s'" "(\<exists>e. r = Inl e) \<longrightarrow> faulted F s s'"
    unfolding touches_def by blast+
  from recoverable_evolves [OF rec t(1)] t(2,3) m assms(2) [OF p _ t(1)] evolves_mono [OF t(1), of UNIV]
  show "recoverable s0 sn' s' \<and> evolves UNIV s s' \<and> ix_calls s \<le> ix_calls s' \<and> (case r of Inl e \<Rightarrow> faulted F s s' | Inr x \<Rightarrow> Q x s')"
    by (auto split: sum.splits)
qed

lemma safe_change:
  assumes "\<And>s. P s \<Longrightarrow> ix_db s n \<noteq> None" and "\<And>s s'. P s \<Longrightarrow> evolves {n} s s' \<Longrightarrow> P s'" and "touches P {n} m"
  shows "safe P (bind_tracked (take_snapshot n) (\<lambda>_. untracked m)) (\<lambda>_. P)"
  unfolding safe_def
proof (intro allI impI)
  fix s0 sn F s r sn' s'
  assume p: "P s" and rec: "recoverable s0 sn s"
    and run: "bind_tracked (take_snapshot n) (\<lambda>_. untracked m) sn F s = ((r, sn'), s')"
  let ?s = "s\<lparr>ix_calls := Suc (ix_calls s)\<rparr>"
  have same: "evolves {n} s ?s" by simp
  have rec': "recoverable s0 sn ?s" by (rule recoverable_evolves [OF rec, where A = "{}"]) simp_all
  show "recoverable s0 sn' s' \<and> evolves UNIV s s' \<and> ix_calls s \<le> ix_calls s' \<and>
      (case r of Inl e \<Rightarrow> faulted F s s' | Inr x \<Rightarrow> P s')"
  proof (cases "F (ix_calls s)")
    case (Some e)
    then have "r = Inl e" "sn' = sn" "s' = ?s" using run
      by (auto simp: bind_tracked_def take_snapshot_def table_version_def db_call_def)
    with Some rec' show ?thesis by (auto simp: faulted_def)
  next
    case None
    from assms(1) [OF p] obtain t where t: "ix_db s n = Some t" by blast
    let ?sn = "(n, vt_version t) # sn"
    from None t run have m: "m F ?s = (r, s')" and sn': "sn' = ?sn"
      by (auto simp: bind_tracked_def take_snapshot_def table_version_def db_call_def untracked_def split: prod.splits)
    have rec2: "recoverable s0 ?sn ?s" using recoverable_snapshot [OF rec', of n t] t by simp
    have p': "P ?s" using assms(2) [OF p same] .
    from assms(3) p' m have ev: "evolves {n} ?s s'" "ix_calls ?s \<le> ix_calls s'" "(\<exists>e. r = Inl e) \<longrightarrow> faulted F ?s s'"
      unfolding touches_def by blast+
    have "map_of (rev ?sn) n \<noteq> None" by (cases "map_of (rev sn) n") (auto simp: map_add_def)
    then have "recoverable s0 sn' s'" unfolding sn' by (intro recoverable_evolves [OF rec2 ev(1)]) simp
    moreover have "evolves UNIV s s'" using evolves_mono [OF ev(1), of UNIV] by simp
    ultimately show ?thesis using ev assms(2) [OF p' ev(1)] by (auto simp: faulted_def split: sum.splits intro: Suc_leD)
  qed
qed

lemma untracked_bind: "bind_tracked (untracked m) (\<lambda>x. untracked (f x)) = untracked (bind_ix m f)"
  by (intro ext) (auto simp: bind_tracked_def untracked_def bind_ix_def split: prod.splits sum.splits)

lemma safe_replace:
  assumes "\<And>s. P s \<Longrightarrow> ix_db s n \<noteq> None" and "\<And>s s'. P s \<Longrightarrow> evolves {n} s s' \<Longrightarrow> P s'" and "touches P {n} add"
  shows "safe P (replace_rows n w add) (\<lambda>_. P)"
  unfolding replace_rows_def untracked_bind
proof (rule safe_change [OF assms(1,2)])
  show "touches P {n} (bind_ix (delete_rows n w) (\<lambda>_. add))"
    by (rule touches_bind [OF touches_weaken [OF touches_rows(1)] assms(3) assms(2)]) simp_all
qed

lemma evolves_handle_closed:
  "evolves A s s' \<Longrightarrow> ix_table s = Some h \<Longrightarrow> ix_table s' = Some h"
  "evolves A s s' \<Longrightarrow> ix_links_table s = Some h \<Longrightarrow> ix_links_table s' = Some h"
  "evolves A s s' \<Longrightarrow> ix_aliases_table s = Some h \<Longrightarrow> ix_aliases_table s' = Some h"
  by (simp_all add: evolves_def)

lemma open_or_create_run:
  "open_or_create n F s = (r, s') \<Longrightarrow> evolves {} s s' \<and> ix_calls s \<le> ix_calls s' \<and>
     (case r of Inl e \<Rightarrow> faulted F s s' | Inr _ \<Rightarrow> ix_db s' n \<noteq> None)"
proof -
  assume run: "open_or_create n F s = (r, s')"
  with touches_open [of n] have "evolves {} s s'" "ix_calls s \<le> ix_calls s'" "(\<exists>e. r = Inl e) \<longrightarrow> faulted F s s'"
    unfolding touches_def by blast+
  moreover have "ix_db s' n \<noteq> None" if "r = Inr ()"
    using run that by (auto simp: open_or_create_def db_call_def Let_def set_table_def split: option.splits)
  ultimately show ?thesis by (cases r) auto
qed

lemma evolves_handle:
  assumes "evolves A s s'"
  shows "ix_table s = None \<Longrightarrow> ix_db s' h \<noteq> None \<Longrightarrow> evolves A s (s'\<lparr>ix_table := Some h\<rparr>)"
    and "ix_links_table s = None \<Longrightarrow> ix_db s' links_name \<noteq> None \<Longrightarrow> evolves A s (s'\<lparr>ix_links_table := Some links_name\<rparr>)"
    and "ix_aliases_table s = None \<Longrightarrow> ix_db s' aliases_name \<noteq> None \<Longrightarrow> evolves A s (s'\<lparr>ix_aliases_table := Some aliases_name\<rparr>)"
  using assms by (auto simp: evolves_def table_rows_def handles_open_def links_of_def aliases_of_def)

text \<open>Opening a table changes no rows and leaves the handle on an existing table.\<close>

lemma ensure_table_run:
  assumes "ensure_table n F s = (r, s')" and "handles_open s"
  shows "evolves {} s s' \<and> ix_calls s \<le> ix_calls s' \<and>
    (case r of Inl e \<Rightarrow> faulted F s s' | Inr t \<Rightarrow> t = chunks_of n s \<and> ix_table s' = Some t \<and> ix_db s' t \<noteq> None)"
proof (cases "ix_table s")
  case None
  obtain r1 s1 where o: "open_or_create n F s = (r1, s1)" by (cases "open_or_create n F s")
  from open_or_create_run [OF o] None assms(1) show ?thesis
    by (cases r1) (auto simp: ensure_table_def bind_ix_def update_ix_def return_ix_def o chunks_of_def intro: evolves_handle)
next
  case (Some h)
  with assms show ?thesis by (auto simp: ensure_table_def chunks_of_def handles_open_def)
qed

lemma ensure_links_run:
  assumes "ensure_links_table F s = (r, s')" and "handles_open s"
  shows "evolves {} s s' \<and> ix_calls s \<le> ix_calls s' \<and>
    (case r of Inl e \<Rightarrow> faulted F s s' | Inr t \<Rightarrow> t = links_of s \<and> ix_links_table s' = Some t \<and> ix_db s' t \<noteq> None)"
proof (cases "ix_links_table s")
  case None
  obtain r1 s1 where o: "open_or_create links_name F s = (r1, s1)" by (cases "open_or_create links_name F s")
  from open_or_create_run [OF o] None assms(1) show ?thesis
    by (cases r1) (auto simp: ensure_links_table_def bind_ix_def update_ix_def return_ix_def o links_of_def intro: evolves_handle)
next
  case (Some h)
  with assms show ?thesis by (auto simp: ensure_links_table_def links_of_def handles_open_def)
qed

lemma ensure_aliases_run:
  assumes "ensure_aliases_table F s = (r, s')" and "handles_open s"
  shows "evolves {} s s' \<and> ix_calls s \<le> ix_calls s' \<and>
    (case r of Inl e \<Rightarrow> faulted F s s' | Inr t \<Rightarrow> t = aliases_of s \<and> ix_aliases_table s' = Some t \<and> ix_db s' t \<noteq> None)"
proof (cases "ix_aliases_table s")
  case None
  obtain r1 s1 where o: "open_or_create aliases_name F s = (r1, s1)" by (cases "open_or_create aliases_name F s")
  from open_or_create_run [OF o] None assms(1) show ?thesis
    by (cases r1) (auto simp: ensure_aliases_table_def bind_ix_def update_ix_def return_ix_def o aliases_of_def intro: evolves_handle)
next
  case (Some h)
  with assms show ?thesis by (auto simp: ensure_aliases_table_def aliases_of_def handles_open_def)
qed


lemma touches_cong: "(\<And>F s. P s \<Longrightarrow> m F s = m' F s) \<Longrightarrow> touches P A m' \<Longrightarrow> touches P A m"
  by (simp add: touches_def)

lemma touches_index_aliases: "touches (\<lambda>s. ix_aliases_table s = Some a) {a} (index_aliases p al)"
proof -
  have one: "touches (\<lambda>s. ix_aliases_table s = Some a) {a}
      (bind_ix (when_ix b (add_rows a rs)) (\<lambda>_. return_ix n))" for b rs and n :: nat
    by (rule touches_bind) (auto simp: evolves_def intro!: touches_when touches_weaken [OF touches_rows(2)])
  have "index_aliases p al F s = (if al = [] then return_ix 0 else bind_ix (when_ix (alias_records p al \<noteq> []) (add_rows a (alias_records p al)))
      (\<lambda>_. return_ix (length (alias_records p al)))) F s" if "ix_aliases_table s = Some a" for F s
    using that by (simp add: index_aliases_def bind_ix_def ensure_aliases_table_def Let_def)
  then show ?thesis
  proof (rule touches_cong)
    show "touches (\<lambda>s. ix_aliases_table s = Some a) {a} (if al = [] then return_ix 0
        else bind_ix (when_ix (alias_records p al \<noteq> []) (add_rows a (alias_records p al)))
          (\<lambda>_. return_ix (length (alias_records p al))))"
      using one [of "alias_records p al \<noteq> []" "alias_records p al" "length (alias_records p al)"] by (cases "al = []") simp_all
  qed
qed

definition ready :: "string \<Rightarrow> string \<Rightarrow> string \<Rightarrow> indexer \<Rightarrow> bool" where
  "ready t l a s \<longleftrightarrow> ix_table s = Some t \<and> ix_db s t \<noteq> None \<and> handles_open s \<and> links_of s = l \<and> aliases_of s = a"

lemma ready_evolves: "ready t l a s \<Longrightarrow> evolves A s s' \<Longrightarrow> ready t l a s'"
  unfolding ready_def using evolves_exists [of A s s' t] by (simp add: evolves_def)

lemma touches_ensure_links: "touches (ready t l a) {} ensure_links_table"
  unfolding touches_def
proof (intro allI impI)
  fix F s r s'
  assume "ready t l a s" and run: "ensure_links_table F s = (r, s')"
  then have "handles_open s" by (simp add: ready_def)
  from ensure_links_run [OF run this]
  show "evolves {} s s' \<and> ix_calls s \<le> ix_calls s' \<and> ((\<exists>e. r = Inl e) \<longrightarrow> faulted F s s')"
    by (cases r) auto
qed

lemma touches_ensure_aliases: "touches (ready t l a) {} ensure_aliases_table"
  unfolding touches_def
proof (intro allI impI)
  fix F s r s'
  assume "ready t l a s" and run: "ensure_aliases_table F s = (r, s')"
  then have "handles_open s" by (simp add: ready_def)
  from ensure_aliases_run [OF run this]
  show "evolves {} s s' \<and> ix_calls s \<le> ix_calls s' \<and> ((\<exists>e. r = Inl e) \<longrightarrow> faulted F s s')"
    by (cases r) auto
qed

text \<open>The change of the three tables after the first is open.\<close>

definition note_changes ::
  "string \<Rightarrow> string \<Rightarrow> chunk_row list \<Rightarrow> link list \<Rightarrow> string list \<Rightarrow> (string \<times> nat \<times> nat) tracked" where
  "note_changes t path chunks links aliases =
     bind_tracked (replace_rows t (note_filter ''note_path'' path)
       (when_ix (chunks \<noteq> []) (add_rows t (map ChunkRow chunks)))) (\<lambda>_.
     bind_tracked (untracked ensure_links_table) (\<lambda>l.
     bind_tracked (replace_rows l (note_filter ''from_note_path'' path)
       (when_ix (links \<noteq> []) (add_rows l (map LinkRow links)))) (\<lambda>_.
     bind_tracked (untracked ensure_aliases_table) (\<lambda>a.
     bind_tracked (take_snapshot a) (\<lambda>_.
     bind_tracked (untracked (delete_rows a (note_filter ''note_path'' path))) (\<lambda>_.
     bind_tracked (untracked (index_aliases path aliases)) (\<lambda>n.
     untracked (return_ix (t, length links, n)))))))))"

lemma apply_note_records_eq:
  "apply_note_records name path chunks links aliases =
     bind_ix (ensure_table name) (\<lambda>t. or_restore (note_changes t path chunks links aliases))"
  by (simp add: apply_note_records_def note_changes_def)

lemma safe_weaken: "safe P m Q \<Longrightarrow> (\<And>x s. Q x s \<Longrightarrow> R x s) \<Longrightarrow> safe P m R"
  by (simp add: safe_def) (metis (mono_tags, lifting) sum.case_eq_if)

lemma safe_note_changes: "safe (ready t l a) (note_changes t p chunks links aliases) (\<lambda>_ _. True)"
proof -
  have P: "ready t l a s \<Longrightarrow> ix_db s t \<noteq> None" for s by (simp add: ready_def)
  have L: "ready t l a s \<and> x = l \<and> ix_db s x \<noteq> None \<Longrightarrow> evolves A s s' \<Longrightarrow> ready t l a s' \<and> x = l \<and> ix_db s' x \<noteq> None" for s s' x A
    using ready_evolves evolves_exists by blast
  have A: "ready t l a s \<and> ix_aliases_table s = Some x \<and> ix_db s x \<noteq> None \<Longrightarrow> evolves A s s' \<Longrightarrow>
      ready t l a s' \<and> ix_aliases_table s' = Some x \<and> ix_db s' x \<noteq> None" for s s' x A
    using ready_evolves evolves_exists evolves_handle_closed(3) by blast
  have c: "safe (ready t l a) (replace_rows t w (when_ix b (add_rows t rs))) (\<lambda>_. ready t l a)" for w b rs
    by (rule safe_replace) (auto simp: P ready_evolves intro!: touches_when touches_weaken [OF touches_rows(2)])
  have l: "safe (ready t l a) (untracked ensure_links_table) (\<lambda>x s. ready t l a s \<and> x = l \<and> ix_db s x \<noteq> None)"
    by (rule safe_untracked [OF touches_ensure_links]) (auto dest!: ensure_links_run simp: ready_def evolves_def evolves_exists)
  have rl: "safe (\<lambda>s. ready t l a s \<and> x = l \<and> ix_db s x \<noteq> None) (replace_rows x w (when_ix b (add_rows x rs)))
      (\<lambda>_ s. ready t l a s \<and> x = l \<and> ix_db s x \<noteq> None)" for x w b rs
    by (rule safe_replace [OF _ L]) (auto intro!: touches_when touches_weaken [OF touches_rows(2)])
  have ea: "safe (\<lambda>s. ready t l a s \<and> x = l \<and> ix_db s x \<noteq> None) (untracked ensure_aliases_table)
      (\<lambda>y s. ready t l a s \<and> ix_aliases_table s = Some y \<and> ix_db s y \<noteq> None)" for x
    by (rule safe_untracked [OF touches_weaken [OF touches_ensure_aliases [of t l a]]])
      (auto dest!: ensure_aliases_run simp: ready_def evolves_def evolves_exists)
  have ca: "safe (\<lambda>s. ready t l a s \<and> ix_aliases_table s = Some y \<and> ix_db s y \<noteq> None)
      (bind_tracked (take_snapshot y) (\<lambda>_. bind_tracked (untracked (delete_rows y w)) (\<lambda>_.
        bind_tracked (untracked (index_aliases p aliases)) (\<lambda>n. untracked (return_ix (t, length links, n))))))
      (\<lambda>_ s. ready t l a s \<and> ix_aliases_table s = Some y \<and> ix_db s y \<noteq> None)" for y w
    unfolding untracked_bind
  proof (rule safe_change [OF _ A])
    let ?P = "\<lambda>s. ready t l a s \<and> ix_aliases_table s = Some y \<and> ix_db s y \<noteq> None"
    have i: "touches ?P {y} (bind_ix (index_aliases p aliases) (\<lambda>n. return_ix (t, length links, n)))"
      by (rule touches_bind [OF touches_weaken [OF touches_index_aliases] touches_return A]) auto
    show "touches ?P {y} (bind_ix (delete_rows y w) (\<lambda>_. bind_ix (index_aliases p aliases) (\<lambda>n. return_ix (t, length links, n))))"
      by (rule touches_bind [OF touches_weaken [OF touches_rows(1)] i A]) auto
  qed auto
  have "safe (ready t l a) (note_changes t p chunks links aliases)
      (\<lambda>_ s. \<exists>y. ready t l a s \<and> ix_aliases_table s = Some y \<and> ix_db s y \<noteq> None)"
    unfolding note_changes_def
    by (rule safe_bind [OF c] safe_bind [OF l] safe_bind [OF rl] safe_bind [OF ea] safe_weaken [OF ca])+ blast
  then show ?thesis by (rule safe_weaken) simp
qed

lemma evolves_restore: "ix_db s n = Some t \<Longrightarrow> evolves UNIV s (set_table n (vt_restore v t) s)"
  using evolves_mono [OF evolves_commit [of n s "(vt_history t @ [vt_rows t]) ! (v - 1)"], of UNIV]
  by (simp add: commit_rows_def vt_restore_def)

lemma restore_all_evolves: "evolves UNIV s (snd (restore_all sn F s))"
proof (induction sn arbitrary: s)
  case (Cons x sn)
  obtain n v where x: "x = (n, v)" by fastforce
  obtain r s1 where run: "catch_ix (restore_table n v) (\<lambda>_. return_ix ()) F s = (r, s1)" by fastforce
  then have "evolves UNIV s s1"
    using evolves_restore [of "s\<lparr>ix_calls := Suc (ix_calls s)\<rparr>" n _ v]
    by (auto simp: catch_ix_def restore_table_def db_call_def return_ix_def Let_def split: option.splits)
  moreover have "r = Inr ()" using run
    by (auto simp: catch_ix_def restore_table_def db_call_def return_ix_def Let_def split: option.splits)
  ultimately show ?case using Cons.IH [of s1] run by (auto simp: x bind_ix_def intro: evolves_trans)
qed (simp add: return_ix_def)

lemma apply_note_records_run:
  assumes "apply_note_records name p chunks links aliases F s = (r, s')" and "handles_open s"
  shows "evolves UNIV s s'" and "r = Inl e \<Longrightarrow> \<exists>k. F k \<noteq> None"
    and "r = Inr x \<Longrightarrow> ix_table s' = Some (chunks_of name s)"
proof -
  obtain r1 s1 where en: "ensure_table name F s = (r1, s1)" by fastforce
  note e = ensure_table_run [OF en assms(2)]
  then have e1: "evolves UNIV s s1" using evolves_mono by blast
  have "evolves UNIV s s' \<and> (r = Inl e \<longrightarrow> (\<exists>k. F k \<noteq> None)) \<and> (r = Inr x \<longrightarrow> ix_table s' = Some (chunks_of name s))"
  proof (cases r1)
    case (Inl y)
    with assms(1) en e e1 show ?thesis by (auto simp: apply_note_records_eq bind_ix_def faulted_def)
  next
    case (Inr t)
    with e assms(2) have rd: "ready t (links_of s1) (aliases_of s1) s1" by (auto simp: ready_def evolves_def)
    obtain r2 sn s2 where nc: "note_changes t p chunks links aliases [] F s1 = ((r2, sn), s2)" by (metis prod.exhaust)
    have c: "evolves UNIV s1 s2" "case r2 of Inl e \<Rightarrow> faulted F s1 s2 | Inr x \<Rightarrow> True"
      using safe_note_changes rd recoverable_start nc unfolding safe_def by blast+
    have s': "s' = (case r2 of Inl e \<Rightarrow> snd (restore_all sn F s2) | Inr _ \<Rightarrow> s2)" "r = r2"
      using assms(1) en Inr nc by (auto simp: apply_note_records_eq bind_ix_def or_restore_def split: sum.splits)
    then have "evolves UNIV s2 s'" using restore_all_evolves by (auto split: sum.splits)
    then have ev: "evolves UNIV s1 s'" using c(1) evolves_trans by blast
    then have "ix_table s' = Some t" using e Inr by (simp add: evolves_def)
    moreover have "r = Inl e \<longrightarrow> (\<exists>k. F k \<noteq> None)" 
    proof
      assume "r = Inl e"
      then have "faulted F s1 s2" using c(2) s'(2) by simp
      then show "\<exists>k. F k \<noteq> None" unfolding faulted_def by blast
    qed
    ultimately show ?thesis using evolves_trans [OF e1 ev] e Inr by auto
  qed
  then show "evolves UNIV s s'" "r = Inl e \<Longrightarrow> \<exists>k. F k \<noteq> None" "r = Inr x \<Longrightarrow> ix_table s' = Some (chunks_of name s)"
    by blast+
qed

text \<open>At most one call of the database fails.\<close>

definition one_fault :: "faults \<Rightarrow> bool" where
  "one_fault F \<longleftrightarrow> (\<forall>j k. F j \<noteq> None \<longrightarrow> F k \<noteq> None \<longrightarrow> j = k)"

lemma one_fault_quiet: "one_fault F \<Longrightarrow> faulted F s s' \<Longrightarrow> \<forall>k \<ge> ix_calls s'. F k = None"
  unfolding one_fault_def faulted_def by (metis leD)

lemma apply_note_records_failed:
  assumes "apply_note_records name p chunks links aliases F s = (Inl e, s')" and "handles_open s" and "one_fault F"
  shows "table_rows s' n = table_rows s n"
proof -
  obtain r1 s1 where en: "ensure_table name F s = (r1, s1)" by (cases "ensure_table name F s")
  note e = ensure_table_run [OF en assms(2)]
  have rows1: "table_rows s1 n = table_rows s n" for n using e evolves_rows by blast
  show ?thesis
  proof (cases r1)
    case (Inl x)
    with assms(1) en rows1 show ?thesis by (simp add: apply_note_records_eq bind_ix_def)
  next
    case (Inr t)
    with e have "ready t (links_of s1) (aliases_of s1) s1" using assms(2) by (auto simp: ready_def evolves_def)
    obtain r2 sn s2 where nc: "note_changes t p chunks links aliases [] F s1 = ((r2, sn), s2)" by (metis prod.exhaust)
    have "recoverable s1 sn s2 \<and> (case r2 of Inl e \<Rightarrow> faulted F s1 s2 | Inr x \<Rightarrow> True)"
      using safe_note_changes \<open>ready _ _ _ s1\<close> recoverable_start nc unfolding safe_def by blast
    moreover from assms(1) en Inr nc have "r2 = Inl e" "s' = snd (restore_all sn F s2)"
      by (auto simp: apply_note_records_eq bind_ix_def or_restore_def split: sum.splits)
    ultimately have "table_rows s' n = table_rows s1 n"
      using restore_all_recovers [of s1 sn s2 F n] one_fault_quiet [OF assms(3), of s1 s2] by simp
    with rows1 show ?thesis by simp
  qed
qed

section \<open>What a completed change does\<close>

lemma bind_ix_Inr: "bind_ix m f F s = (Inr y, s') \<longleftrightarrow> (\<exists>x s1. m F s = (Inr x, s1) \<and> f x F s1 = (Inr y, s'))"
  by (auto simp: bind_ix_def split: prod.splits sum.splits)

lemma bind_tracked_Inr:
  "bind_tracked m f sn F s = ((Inr y, sn'), s') \<longleftrightarrow>
     (\<exists>x sn1 s1. m sn F s = ((Inr x, sn1), s1) \<and> f x sn1 F s1 = ((Inr y, sn'), s'))"
  by (auto simp: bind_tracked_def split: prod.splits sum.splits)

lemma untracked_Inr: "untracked m sn F s = ((Inr y, sn'), s') \<longleftrightarrow> m F s = (Inr y, s') \<and> sn' = sn"
  by (auto simp: untracked_def split: prod.splits)

lemma or_restore_Inr: "or_restore m F s = (Inr x, s') \<longleftrightarrow> (\<exists>sn. m [] F s = ((Inr x, sn), s'))"
  by (auto simp: or_restore_def split: prod.splits sum.splits)

lemma rows_commit: "ix_db s n \<noteq> None \<Longrightarrow> table_rows (commit_rows n rs s) = (table_rows s)(n := rs)"
  by (auto simp: commit_rows_def set_table_def table_rows_def vt_commit_def split: option.splits)

lemma table_rows_calls [simp]: "table_rows (s\<lparr>ix_calls := k\<rparr>) = table_rows s"
  by (intro ext) (simp add: table_rows_def)

lemma delete_rows_Inr:
  "delete_rows n w F s = (Inr u, s') \<Longrightarrow> ix_db s n \<noteq> None \<Longrightarrow>
     table_rows s' = (table_rows s)(n := filter (\<lambda>r. \<not> satisfies w r) (table_rows s n)) \<and> evolves {n} s s'"
  using touches_rows(1) [of n w, unfolded touches_def]
  by (auto simp: delete_rows_def db_call_def Let_def rows_commit split: option.splits)

lemma add_rows_Inr:
  "add_rows n rs F s = (Inr u, s') \<Longrightarrow> ix_db s n \<noteq> None \<Longrightarrow>
     table_rows s' = (table_rows s)(n := table_rows s n @ rs) \<and> evolves {n} s s'"
  using touches_rows(2) [of n rs, unfolded touches_def]
  by (auto simp: add_rows_def db_call_def Let_def rows_commit split: option.splits)

lemma add_unless_empty:
  "when_ix (xs \<noteq> []) (add_rows n (map f xs)) F s = (Inr u, s') \<Longrightarrow> ix_db s n \<noteq> None \<Longrightarrow>
     table_rows s' = (table_rows s)(n := table_rows s n @ map f xs) \<and> evolves {n} s s'"
  using add_rows_Inr [of n "map f xs" F s u s'] by (cases "xs = []") (auto simp: when_ix_def return_ix_def)

lemma replace_rows_Inr:
  assumes "replace_rows n w (when_ix (xs \<noteq> []) (add_rows n (map f xs))) sn F s = ((Inr u, sn'), s')"
    and "ix_db s n \<noteq> None"
  shows "table_rows s' = (table_rows s)(n := filter (\<lambda>r. \<not> satisfies w r) (table_rows s n) @ map f xs) \<and> evolves {n} s s'"
proof -
  from assms(1) obtain s1 s2 where one: "take_snapshot n sn F s = ((Inr (), sn'), s1)"
    "delete_rows n w F s1 = (Inr (), s2)" "when_ix (xs \<noteq> []) (add_rows n (map f xs)) F s2 = (Inr u, s')"
    by (auto simp: replace_rows_def bind_tracked_Inr untracked_Inr)
  then have s1: "s1 = s\<lparr>ix_calls := Suc (ix_calls s)\<rparr>"
    by (auto simp: take_snapshot_def table_version_def db_call_def Let_def split: option.splits)
  from delete_rows_Inr [OF one(2)] assms(2) have two: "table_rows s2 = (table_rows s)(n := filter (\<lambda>r. \<not> satisfies w r) (table_rows s n))"
    "evolves {n} s s2" unfolding s1 by auto
  from add_unless_empty [OF one(3)] evolves_exists [OF two(2) assms(2)] two show ?thesis
    by (auto intro: evolves_trans)
qed

lemma index_aliases_Inr:
  assumes "index_aliases p al F s = (Inr k, s')" and "ix_aliases_table s = Some a" and "ix_db s a \<noteq> None"
  shows "table_rows s' = (table_rows s)(a := table_rows s a @ alias_records p al) \<and> k = length (alias_records p al)"
proof (cases "al = []")
  case True
  with assms(1) show ?thesis by (auto simp: index_aliases_def return_ix_def alias_records_def)
next
  case False
  with assms(1,2) obtain s1 where "when_ix (alias_records p al \<noteq> []) (add_rows a (alias_records p al)) F s = (Inr (), s1)"
    "s1 = s'" "k = length (alias_records p al)"
    by (auto simp: index_aliases_def Let_def bind_ix_Inr ensure_aliases_table_def return_ix_def)
  with add_unless_empty [of "alias_records p al" a id F s "()" s1] assms(3) show ?thesis by simp
qed

text \<open>The rows of a table with the rows of one note replaced.\<close>

definition replaced :: "string \<Rightarrow> string \<Rightarrow> index_row list \<Rightarrow> index_row list \<Rightarrow> index_row list" where
  "replaced col p new rows = filter (\<lambda>r. row_field col r \<noteq> Some p) rows @ new"

lemma note_changes_Inr:
  assumes "note_changes t p chunks links aliases [] F s = ((Inr x, sn), s')" and "ready t l a s" and "distinct [t, l, a]"
  shows "table_rows s' = (table_rows s)
    (t := replaced ''note_path'' p (map ChunkRow chunks) (table_rows s t),
     l := replaced ''from_note_path'' p (map LinkRow links) (table_rows s l),
     a := replaced ''note_path'' p (alias_records p aliases) (table_rows s a)) \<and>
    x = (t, length links, length (alias_records p aliases))"
proof -
  from assms(1) obtain sn1 s1 l' s2 sn3 s3 a' s4 sn5 s5 s6 k where run:
    "replace_rows t (note_filter ''note_path'' p) (when_ix (chunks \<noteq> []) (add_rows t (map ChunkRow chunks))) [] F s = ((Inr (), sn1), s1)"
    "ensure_links_table F s1 = (Inr l', s2)"
    "replace_rows l' (note_filter ''from_note_path'' p) (when_ix (links \<noteq> []) (add_rows l' (map LinkRow links))) sn1 F s2 = ((Inr (), sn3), s3)"
    "ensure_aliases_table F s3 = (Inr a', s4)"
    "take_snapshot a' sn3 F s4 = ((Inr (), sn5), s5)"
    "delete_rows a' (note_filter ''note_path'' p) F s5 = (Inr (), s6)"
    "index_aliases p aliases F s6 = (Inr k, s')"
    and x: "x = (t, length links, k)"
    by (auto simp: note_changes_def bind_tracked_Inr untracked_Inr return_ix_def)
  have open0: "ix_db s t \<noteq> None" "handles_open s" using assms(2) by (auto simp: ready_def)
  note c = replace_rows_Inr [OF run(1) open0(1)]
  then have r1: "ready t l a s1" using ready_evolves [OF assms(2)] by blast
  then have o1: "handles_open s1" "links_of s1 = l" by (auto simp: ready_def)
  from ensure_links_run [OF run(2) o1(1)] o1(2) have e2: "evolves {} s1 s2" "l' = l" "ix_db s2 l \<noteq> None" by auto
  then have r2: "ready t l a s2" using ready_evolves [OF r1] by blast
  note c2 = replace_rows_Inr [OF run(3) [unfolded e2(2)] e2(3)]
  then have r3: "ready t l a s3" using ready_evolves [OF r2] by blast
  then have o3: "handles_open s3" "aliases_of s3 = a" by (auto simp: ready_def)
  from ensure_aliases_run [OF run(4) o3(1)] o3(2) have e4: "evolves {} s3 s4" "a' = a" "ix_aliases_table s4 = Some a" "ix_db s4 a \<noteq> None"
    by auto
  have s5: "s5 = s4\<lparr>ix_calls := Suc (ix_calls s4)\<rparr>" using run(5)
    by (auto simp: take_snapshot_def table_version_def db_call_def Let_def split: option.splits)
  from delete_rows_Inr [OF run(6)] e4(2,4) s5 have c5: "table_rows s6 = (table_rows s4)(a := filter (\<lambda>r. row_field ''note_path'' r \<noteq> Some p) (table_rows s4 a))"
    "evolves {a} s5 s6" by (auto simp del: row_field.simps)
  have "evolves {a} s4 s6" using c5(2) by (simp add: s5)
  then have "ix_aliases_table s6 = Some a" "ix_db s6 a \<noteq> None"
    using e4 evolves_exists evolves_handle_closed(3) by blast+
  note c6 = index_aliases_Inr [OF run(7) this]
  have rows2: "table_rows s2 = table_rows s1" and rows4: "table_rows s4 = table_rows s3"
    using evolves_rows [OF e2(1)] evolves_rows [OF e4(1)] by auto
  have "t \<noteq> l" "t \<noteq> a" "l \<noteq> a" using assms(3) by auto
  then show ?thesis using c c2 c5(1) c6 rows2 rows4 x
    by (simp add: replaced_def fun_upd_twist del: row_field.simps)
qed

lemma apply_note_records_rows:
  assumes "apply_note_records name p chunks links aliases F s = (r, s')" and "handles_open s"
    and "distinct [t, l, a]" and "t = chunks_of name s" and "l = links_of s" and "a = aliases_of s" and "one_fault F"
  shows "case r of
      Inl e \<Rightarrow> table_rows s' = table_rows s
    | Inr x \<Rightarrow> x = (t, length links, length (alias_records p aliases)) \<and>
        table_rows s' = (table_rows s)
          (t := replaced ''note_path'' p (map ChunkRow chunks) (table_rows s t),
           l := replaced ''from_note_path'' p (map LinkRow links) (table_rows s l),
           a := replaced ''note_path'' p (alias_records p aliases) (table_rows s a))"
proof (cases r)
  case (Inl e)
  with apply_note_records_failed [OF assms(1) [unfolded Inl] assms(2,7)] show ?thesis by auto
next
  case (Inr x)
  with assms(1) obtain h s1 sn where run: "ensure_table name F s = (Inr h, s1)"
    "note_changes h p chunks links aliases [] F s1 = ((Inr x, sn), s')"
    by (auto simp: apply_note_records_eq bind_ix_Inr or_restore_Inr)
  from ensure_table_run [OF run(1) assms(2)] have e: "evolves {} s s1" "h = t" "ix_table s1 = Some t" "ix_db s1 t \<noteq> None"
    using assms(4) by auto
  then have "ready t l a s1" using assms(2,5,6) by (auto simp: ready_def evolves_def)
  from note_changes_Inr [OF run(2) [unfolded e(2)] this assms(3)] evolves_rows [OF e(1)] Inr show ?thesis by auto
qed

text \<open>C37. The records of a note are replaced in the three tables of chunks, links and aliases as
  one change: when it succeeds each table holds the new records after those of the other notes,
  and when a call of the database fails, at any point, every table has its rows back.\<close>

theorem apply_note_records_atomic:
  assumes "apply_note_records name p chunks links aliases F s = (r, s')" and "handles_open s"
    and "distinct [t, l, a]" and "t = chunks_of name s" and "l = links_of s" and "a = aliases_of s" and "one_fault F"
  shows "case r of
      Inl e \<Rightarrow> table_rows s' = table_rows s
    | Inr x \<Rightarrow> x = (t, length links, length (alias_records p aliases)) \<and>
        table_rows s' = (table_rows s)
          (t := replaced ''note_path'' p (map ChunkRow chunks) (table_rows s t),
           l := replaced ''from_note_path'' p (map LinkRow links) (table_rows s l),
           a := replaced ''note_path'' p (alias_records p aliases) (table_rows s a))"
  by (rule apply_note_records_rows [OF assms])

definition empty_index :: indexer where
  "empty_index = \<lparr>ix_db = \<lambda>n. None, ix_table = None, ix_links_table = None, ix_aliases_table = None,
     ix_operations = 0, ix_attempts = [], ix_fts_rebuilding = False, ix_calls = 0\<rparr>"

definition sample_chunk :: chunk_row where
  "sample_chunk = \<lparr>cr_chunk = \<lparr>ch_note_path = ''a.md'', ch_note_title = ''a'', ch_folder = [], ch_headers = [],
     ch_tags = [], ch_modified_at = [], ch_text = ''text'', ch_id = [], ch_created_at = [], ch_updated_at = [],
     ch_description = [], ch_status = [], ch_note_type = [], ch_category = [], ch_project = [], ch_source = []\<rparr>,
     cr_vector = [1]\<rparr>"

lemmas ix_run = apply_note_records_def bind_ix_def bind_tracked_def untracked_def or_restore_def replace_rows_def
  take_snapshot_def table_version_def delete_rows_def add_rows_def restore_table_def db_call_def when_ix_def
  return_ix_def update_ix_def catch_ix_def open_or_create_def ensure_table_def ensure_links_table_def
  ensure_aliases_table_def commit_rows_def set_table_def table_rows_def index_aliases_def

theorem apply_note_records_atomic_witness:
  "\<exists>s. apply_note_records ''chunks'' ''a.md'' [sample_chunk] [] [] (\<lambda>k. if k = 5 then Some OSError else None) empty_index =
       (Inl OSError, s) \<and> table_rows s ''chunks'' = []"
proof -
  let ?F = "\<lambda>k. if k = 5 then Some OSError else None"
  obtain r s where run: "apply_note_records ''chunks'' ''a.md'' [sample_chunk] [] [] ?F empty_index = (r, s)"
    by (metis prod.exhaust)
  have "r = Inl OSError" using run by (auto simp: ix_run empty_index_def links_name_def split: if_splits)
  moreover have "table_rows empty_index ''chunks'' = []" by (simp add: table_rows_def empty_index_def)
  ultimately show ?thesis using run
      apply_note_records_atomic [OF run _ _ refl refl refl]
    by (simp add: handles_open_def empty_index_def chunks_of_def links_of_def aliases_of_def links_name_def
        aliases_name_def one_fault_def)
qed

end
