(* ===== verification/Circuit_Breaker.thy ===== *)
theory Circuit_Breaker
  imports Py_Values
begin

text \<open>
  The circuit breaker of the indexer (\<open>core/indexer.py\<close>): \<open>_reindex_attempts\<close> maps a note to the
  number of its attempts and the time of the first one in the current window.  Every call runs
  under \<open>_circuit_breaker_lock\<close> and is one function of that dictionary; times are seconds.
\<close>

section \<open>Operations\<close>

definition max_attempts :: nat where "max_attempts = 3"
definition window_seconds :: rat where "window_seconds = 60"

type_synonym attempts = "(string, nat \<times> rat) dict"

definition drop_expired :: "rat \<Rightarrow> attempts \<Rightarrow> attempts" where
  "drop_expired now d =
     fold ddel (map fst (filter (\<lambda>(p, (_, first)). window_seconds < now - first) d)) d"

text \<open>\<open>_check_circuit_breaker\<close>: whether the note is blocked, and the attempts after the call.\<close>

definition check_circuit_breaker :: "rat \<Rightarrow> string \<Rightarrow> attempts \<Rightarrow> bool \<times> attempts" where
  "check_circuit_breaker now path attempts =
     (let d = drop_expired now attempts in
      case dget d path of
        None \<Rightarrow> (False, dset path (1, now) d)
      | Some (n, first) \<Rightarrow>
          if now - first \<le> window_seconds
          then (if max_attempts \<le> n then (True, d) else (False, dset path (n + 1, first) d))
          else (False, dset path (1, now) d))"

definition reset_circuit_breaker :: "string option \<Rightarrow> attempts \<Rightarrow> attempts" where
  "reset_circuit_breaker path d = (case path of None \<Rightarrow> [] | Some p \<Rightarrow> ddel p d)"

section \<open>One note\<close>

text \<open>What the breaker knows of one note at a time: its window, unless that has expired.\<close>

definition window_of :: "rat \<Rightarrow> string \<Rightarrow> attempts \<Rightarrow> (nat \<times> rat) option" where
  "window_of now p d =
     (case dget d p of
        None \<Rightarrow> None
      | Some (n, first) \<Rightarrow> if window_seconds < now - first then None else Some (n, first))"

text \<open>The automaton of one note.\<close>

definition attempt :: "rat \<Rightarrow> (nat \<times> rat) option \<Rightarrow> bool \<times> (nat \<times> rat)" where
  "attempt now w =
     (case w of
        None \<Rightarrow> (False, (1, now))
      | Some (n, first) \<Rightarrow> if max_attempts \<le> n then (True, (n, first)) else (False, (n + 1, first)))"

lemma dget_drop: "dget (fold ddel ks d) p = (if p \<in> set ks then None else dget d p)"
  by (induction ks arbitrary: d) (auto simp: dget_ddel)

lemma distinct_drop: "distinct (dkeys d) \<Longrightarrow> distinct (dkeys (fold ddel ks d))"
  by (induction ks arbitrary: d) (auto intro: dict_keys(4))

lemma drop_expired_get:
  assumes "distinct (dkeys d)"
  shows "dget (drop_expired now d) p = window_of now p d"
proof -
  have "p \<in> set (map fst (filter (\<lambda>(p, (_, first)). window_seconds < now - first) d)) \<longleftrightarrow>
      (\<exists>n first. dget d p = Some (n, first) \<and> window_seconds < now - first)"
    using assms by (force simp: image_iff)
  then show ?thesis unfolding drop_expired_def dget_drop by (auto simp: window_of_def split: option.splits)
qed

text \<open>A call refines the automaton of its note and leaves the others alone.\<close>

lemma check_refines:
  assumes "distinct (dkeys d)" and "check_circuit_breaker now p d = (b, d')"
  shows "distinct (dkeys d')" and "b = fst (attempt now (window_of now p d))"
    and "dget d' p = Some (snd (attempt now (window_of now p d)))"
    and "q \<noteq> p \<Longrightarrow> now \<le> t \<Longrightarrow> window_of t q d' = window_of t q d"
proof -
  let ?d = "drop_expired now d"
  have dist: "distinct (dkeys ?d)" unfolding drop_expired_def by (rule distinct_drop [OF assms(1)])
  have get: "dget ?d q = window_of now q d" for q by (rule drop_expired_get [OF assms(1)])
  have fresh: "window_of now p d = Some (n, first) \<Longrightarrow> now - first \<le> window_seconds" for n first
    by (auto simp: window_of_def split: option.splits if_splits)
  have d': "b = fst (attempt now (window_of now p d)) \<and>
      d' = (if b then ?d else dset p (snd (attempt now (window_of now p d))) ?d)"
    using assms(2) fresh by (auto simp: check_circuit_breaker_def Let_def get attempt_def split: option.splits if_splits)
  then show "distinct (dkeys d')" "b = fst (attempt now (window_of now p d))"
    using dist dict_keys(3) by auto
  show "dget d' p = Some (snd (attempt now (window_of now p d)))"
    using d' get [of p] by (auto simp: dget_dset attempt_def split: option.splits if_splits)
  assume "q \<noteq> p" "now \<le> t"
  then have "dget d' q = window_of now q d" using d' get [of q] by (auto simp: dget_dset)
  with \<open>now \<le> t\<close> show "window_of t q d' = window_of t q d"
    by (auto simp: window_of_def split: option.splits if_splits)
qed

section \<open>Runs\<close>

text \<open>The times at which the attempts of a note pass, in a run of attempts of all notes.\<close>

fun breaker_run :: "(rat \<times> string) list \<Rightarrow> attempts \<Rightarrow> (rat \<times> string \<times> bool) list" where
  "breaker_run [] d = []"
| "breaker_run ((now, p) # xs) d =
     (case check_circuit_breaker now p d of (b, d') \<Rightarrow> (now, p, b) # breaker_run xs d')"

definition passed :: "string \<Rightarrow> (rat \<times> string \<times> bool) list \<Rightarrow> rat list" where
  "passed p xs = map fst (filter (\<lambda>(t, q, b). q = p \<and> \<not> b) xs)"

text \<open>
  What the passed times \<open>A\<close> of a note have in common with its window: it began at the element
  \<open>g\<close> and holds the rest; the element three before it is more than a window away.
\<close>

definition spaced :: "rat list \<Rightarrow> bool" where
  "spaced A \<longleftrightarrow> (\<forall>j. j + 5 < length A \<longrightarrow> A ! j + window_seconds < A ! (j + 5))"

definition last_window :: "rat list \<Rightarrow> nat \<Rightarrow> nat \<Rightarrow> bool" where
  "last_window A g n \<longleftrightarrow> g + n = length A \<and> 1 \<le> n \<and> n \<le> max_attempts \<and>
     (\<forall>j. j + 3 \<le> g \<longrightarrow> A ! j + window_seconds < A ! g)"

definition breaker_inv :: "string \<Rightarrow> rat list \<Rightarrow> rat \<Rightarrow> attempts \<Rightarrow> bool" where
  "breaker_inv p A now d \<longleftrightarrow> distinct (dkeys d) \<and> sorted A \<and> (\<forall>t \<in> set A. t \<le> now) \<and> spaced A \<and>
     (if A = [] then (\<forall>t \<ge> now. window_of t p d = None)
      else \<exists>g n. last_window A g n \<and>
        (\<forall>t \<ge> now. window_of t p d = (if window_seconds < t - A ! g then None else Some (n, A ! g))))"

lemma breaker_inv_later:
  assumes "breaker_inv p A now d" and "now \<le> t"
  shows "breaker_inv p A t d"
proof (cases "A = []")
  case True
  with assms show ?thesis by (simp add: breaker_inv_def)
next
  case False
  with assms(1) obtain g n where w: "last_window A g n"
    "\<forall>t \<ge> now. window_of t p d = (if window_seconds < t - A ! g then None else Some (n, A ! g))"
    by (auto simp: breaker_inv_def)
  from w(2) assms(2) have "\<forall>u \<ge> t. window_of u p d = (if window_seconds < u - A ! g then None else Some (n, A ! g))"
    by (blast intro: order_trans)
  moreover have "\<forall>u \<in> set A. u \<le> t" using assms unfolding breaker_inv_def by (blast intro: order_trans)
  ultimately show ?thesis using assms(1) w(1) False unfolding breaker_inv_def by (simp only: if_False) blast
qed

lemma spaced_snoc: "spaced A \<Longrightarrow> (5 \<le> length A \<Longrightarrow> A ! (length A - 5) + window_seconds < t) \<Longrightarrow> spaced (A @ [t])"
proof -
  assume A: "spaced A" and new: "5 \<le> length A \<Longrightarrow> A ! (length A - 5) + window_seconds < t"
  show ?thesis unfolding spaced_def
  proof (intro allI impI)
    fix j
    assume "j + 5 < length (A @ [t])"
    then show "(A @ [t]) ! j + window_seconds < (A @ [t]) ! (j + 5)"
    proof (cases "j + 5 = length A")
      case True
      then have "j = length A - 5" by simp
      with True new show ?thesis by (simp add: nth_append)
    qed (use A in \<open>auto simp: spaced_def nth_append\<close>)
  qed
qed

lemma window_fresh:
  assumes "dget d p = Some (n, f)"
  shows "window_of t p d = (if window_seconds < t - f then None else Some (n, f))"
  using assms by (simp add: window_of_def)

lemma breaker_inv_pass:
  assumes inv: "breaker_inv p A now d" and run: "check_circuit_breaker now p d = (False, d')"
  shows "breaker_inv p (A @ [now]) now d'"
proof -
  from inv have dist: "distinct (dkeys d)" and srt: "sorted A" and le: "\<forall>t \<in> set A. t \<le> now" and sp: "spaced A"
    by (simp_all add: breaker_inv_def)
  note ref = check_refines [OF dist run]
  have srt': "sorted (A @ [now])" using srt le by (simp add: sorted_append)
  have le': "\<forall>t \<in> set (A @ [now]). t \<le> now" using le by simp
  have "spaced (A @ [now]) \<and> (\<exists>g n. last_window (A @ [now]) g n \<and> dget d' p = Some (n, (A @ [now]) ! g))"
  proof (cases "A = []")
    case True
    then have "window_of now p d = None" using inv by (simp add: breaker_inv_def)
    then have "dget d' p = Some (1, now)" using ref(3) by (simp add: attempt_def)
    with True show ?thesis by (intro conjI exI [of _ 0] exI [of _ 1]) (simp_all add: spaced_def last_window_def max_attempts_def)
  next
    case False
    with inv obtain g n where w: "last_window A g n"
      and win: "window_of now p d = (if window_seconds < now - A ! g then None else Some (n, A ! g))"
      by (auto simp: breaker_inv_def)
    from w have g: "g < length A" "g + n = length A" "n \<le> 3" and K: "\<And>j. j + 3 \<le> g \<Longrightarrow> A ! j + window_seconds < A ! g"
      by (auto simp: last_window_def max_attempts_def)
    have upto: "A ! j \<le> A ! g" if "j \<le> g" for j using srt that g(1) by (rule sorted_nth_mono)
    show ?thesis
    proof (cases "window_seconds < now - A ! g")
      case True
      then have new: "dget d' p = Some (1, now)" using ref(3) win by (simp add: attempt_def)
      have far: "A ! j + window_seconds < now" if "j \<le> g" for j using upto [OF that] True by simp
      have "spaced (A @ [now])" using g by (intro spaced_snoc [OF sp] far) simp
      moreover have "last_window (A @ [now]) (length A) 1"
        using far g by (auto simp: last_window_def max_attempts_def nth_append)
      ultimately show ?thesis using new by (intro conjI exI [of _ "length A"] exI [of _ 1]) simp_all
    next
      case False
      then have "n < max_attempts" using ref(2) win by (auto simp: attempt_def split: if_splits)
      then have new: "dget d' p = Some (n + 1, A ! g)" using ref(3) win False by (simp add: attempt_def)
      have "A ! g \<le> now" using le g(1) by simp
      then have "A ! j + window_seconds < now" if "j + 3 \<le> g" for j using K [OF that] by simp
      then have "spaced (A @ [now])" using g \<open>n < max_attempts\<close>
        by (intro spaced_snoc [OF sp]) (simp add: max_attempts_def)
      moreover have "last_window (A @ [now]) g (n + 1)"
        using K g \<open>n < max_attempts\<close> by (auto simp: last_window_def nth_append)
      ultimately show ?thesis using new g(1) by (intro conjI exI [of _ g] exI [of _ "n + 1"]) (simp_all add: nth_append)
    qed
  qed
  then show ?thesis using ref(1) srt' le' window_fresh unfolding breaker_inv_def by fastforce
qed

lemma breaker_inv_block:
  assumes inv: "breaker_inv p A now d" and run: "check_circuit_breaker now p d = (True, d')"
  shows "breaker_inv p A now d'" and "length (filter (\<lambda>t. now - t \<le> window_seconds) A) \<ge> max_attempts"
proof -
  from inv have dist: "distinct (dkeys d)" and srt: "sorted A" by (simp_all add: breaker_inv_def)
  note ref = check_refines [OF dist run]
  from ref(2) obtain n f where w0: "window_of now p d = Some (n, f)" "max_attempts \<le> n"
    by (auto simp: attempt_def split: option.splits if_splits)
  then have "A \<noteq> []" using inv by (auto simp: breaker_inv_def split: if_splits)
  with inv obtain g m where w: "last_window A g m"
    and win: "\<And>t. t \<ge> now \<Longrightarrow> window_of t p d = (if window_seconds < t - A ! g then None else Some (m, A ! g))"
    by (auto simp: breaker_inv_def)
  from win [of now] w0 have m: "m = n" "f = A ! g" "\<not> window_seconds < now - A ! g" by (auto split: if_splits)
  have "dget d' p = Some (n, A ! g)" using ref(3) w0 m by (simp add: attempt_def)
  then have "window_of t p d' = (if window_seconds < t - A ! g then None else Some (m, A ! g))" for t
    using m window_fresh by simp
  with inv \<open>A \<noteq> []\<close> w ref(1) show "breaker_inv p A now d'" unfolding breaker_inv_def by auto
  have g: "g \<le> length A" "length (drop g A) = m" using w by (auto simp: last_window_def)
  have "\<forall>t \<in> set (drop g A). now - t \<le> window_seconds"
  proof
    fix t
    assume "t \<in> set (drop g A)"
    then obtain k where "g \<le> k" "k < length A" "t = A ! k" by (auto simp: in_set_conv_nth) (metis add_lessD1 le_add1 less_diff_conv add.commute)
    then have "A ! g \<le> t" using srt by (simp add: sorted_nth_mono)
    with m(3) show "now - t \<le> window_seconds" by simp
  qed
  then have "filter (\<lambda>t. now - t \<le> window_seconds) (drop g A) = drop g A" by (rule filter_True)
  then have "length (filter (\<lambda>t. now - t \<le> window_seconds) A) = length (filter (\<lambda>t. now - t \<le> window_seconds) (take g A)) + m"
    using g(2) by (metis append_take_drop_id filter_append length_append)
  then show "length (filter (\<lambda>t. now - t \<le> window_seconds) A) \<ge> max_attempts" using w0(2) m(1) by simp
qed

lemma breaker_inv_other:
  assumes inv: "breaker_inv p A now d" and run: "check_circuit_breaker now q d = (b, d')" and "q \<noteq> p"
  shows "breaker_inv p A now d'"
proof -
  from inv have dist: "distinct (dkeys d)" by (simp add: breaker_inv_def)
  have same: "window_of t p d' = window_of t p d" if "now \<le> t" for t
    using check_refines(4) [OF dist run _ that] assms(3) by simp
  with inv check_refines(1) [OF dist run] show ?thesis unfolding breaker_inv_def by auto
qed

lemma breaker_run_ok:
  "breaker_inv p A T d \<Longrightarrow> sorted (T # map fst xs) \<Longrightarrow>
     spaced (A @ passed p (breaker_run xs d)) \<and>
     (\<forall>i < length xs. \<forall>now. breaker_run xs d ! i = (now, p, True) \<longrightarrow>
        max_attempts \<le> length (filter (\<lambda>t. now - t \<le> window_seconds) (A @ passed p (take i (breaker_run xs d)))))"
proof (induction xs arbitrary: A T d)
  case Nil
  then show ?case by (simp add: passed_def breaker_inv_def)
next
  case (Cons x xs)
  obtain now q where x: "x = (now, q)" by fastforce
  obtain b d' where c: "check_circuit_breaker now q d = (b, d')" by fastforce
  let ?run = "breaker_run xs d'"
  have inv: "breaker_inv p A now d" using Cons.prems x by (auto intro: breaker_inv_later)
  have srt: "sorted (now # map fst xs)" using Cons.prems(2) x by simp
  define A' where "A' = (if q = p \<and> \<not> b then A @ [now] else A)"
  have inv': "breaker_inv p A' now d'"
    using breaker_inv_pass [OF inv] breaker_inv_block(1) [OF inv] breaker_inv_other [OF inv c] c
    by (cases b) (auto simp: A'_def)
  have app: "A @ passed p ((now, q, b) # ys) = A' @ passed p ys" for ys by (auto simp: passed_def A'_def)
  note IH = Cons.IH [OF inv' srt]
  have "max_attempts \<le> length (filter (\<lambda>t. u - t \<le> window_seconds) (A @ passed p (take i (breaker_run (x # xs) d))))"
    if "i < length (x # xs)" "breaker_run (x # xs) d ! i = (u, p, True)" for i u
  proof (cases i)
    case 0
    with that x c have "u = now" "q = p" "b" by auto
    with breaker_inv_block(2) [OF inv] c 0 show ?thesis by (simp add: passed_def)
  next
    case (Suc k)
    with that x c have "k < length xs" "?run ! k = (u, p, True)" by auto
    with IH have "max_attempts \<le> length (filter (\<lambda>t. u - t \<le> window_seconds) (A' @ passed p (take k ?run)))" by blast
    with Suc x c show ?thesis by (simp add: app del: append_assoc filter_append)
  qed
  moreover have "spaced (A @ passed p (breaker_run (x # xs) d))" using IH x c by (simp add: app)
  ultimately show ?case by blast
qed

text \<open>C38. The circuit breaker limits the reindexing of each note: whatever the notes and times of
  the attempts, no six attempts of one note pass within sixty seconds, and an attempt is blocked
  only when three of that note have passed in the last sixty seconds.\<close>

theorem circuit_breaker_limits:
  assumes "sorted (map fst xs)"
  shows "(i + 5 < length (passed p (breaker_run xs [])) \<longrightarrow>
      passed p (breaker_run xs []) ! i + 60 < passed p (breaker_run xs []) ! (i + 5)) \<and>
    (k < length xs \<longrightarrow> breaker_run xs [] ! k = (now, p, True) \<longrightarrow>
      3 \<le> length (filter (\<lambda>t. now - t \<le> 60) (passed p (take k (breaker_run xs [])))))"
proof -
  define T where "T = (case xs of [] \<Rightarrow> 0 | x # _ \<Rightarrow> fst x)"
  have "sorted (T # map fst xs)" using assms by (cases xs) (auto simp: T_def)
  moreover have "breaker_inv p [] T []" by (simp add: breaker_inv_def spaced_def window_of_def)
  ultimately show ?thesis using breaker_run_ok [of p "[]" T "[]" xs]
    by (simp add: spaced_def max_attempts_def window_seconds_def)
qed

theorem circuit_breaker_limits_witness:
  "map (\<lambda>x. snd (snd x)) (breaker_run [(0, ''a''), (1, ''a''), (2, ''a''), (3, ''a''), (3, ''b''), (61, ''a'')] []) =
     [False, False, False, True, False, False] \<and>
   3 \<le> length (filter (\<lambda>t. 3 - t \<le> (60 :: rat))
     (passed ''a'' (take 3 (breaker_run [(0, ''a''), (1, ''a''), (2, ''a''), (3, ''a''), (3, ''b''), (61, ''a'')] []))))"
proof -
  let ?xs = "[(0, ''a''), (1, ''a''), (2, ''a''), (3, ''a''), (3, ''b''), (61, ''a'')] :: (rat \<times> string) list"
  have run: "breaker_run ?xs [] = [(0, ''a'', False), (1, ''a'', False), (2, ''a'', False), (3, ''a'', True), (3, ''b'', False), (61, ''a'', False)]"
    by (simp add: check_circuit_breaker_def drop_expired_def window_seconds_def max_attempts_def)
  have "sorted (map fst ?xs)" by simp
  from circuit_breaker_limits [OF this, of 0 "''a''" 3 3] show ?thesis unfolding run by simp
qed

end
