(* ===== verification/Indexer.thy ===== *)
theory Indexer
  imports Index_Store Circuit_Breaker Crud_Validation
    "HOL-Library.List_Lexorder" "HOL-Library.Char_ord"
begin

text \<open>
  The incremental side of \<open>VaultIndexer\<close> (\<open>core/indexer.py\<close>): the
  reindexing of one note, compaction, the vector index, synchronization with the vault and
  statistics; the dispatch of \<open>parsers/__init__.py\<close>.  What the file system, the parsers and the
  embedding model answer during one call is the record \<open>note_env\<close>.
\<close>

section \<open>Parsing a file\<close>

datatype parse_status = Parse_success | Parse_empty | Parse_error | Parse_unsupported

record parse_result =
  pr_status :: parse_status
  pr_chunks :: "chunk list"
  pr_links :: "link list"
  pr_aliases :: "string list"

record parsers =
  ps_note :: "(chunk list \<times> link list \<times> string list) result"
  ps_mdx :: "(chunk list \<times> link list \<times> string list) result"
  ps_canvas :: "chunk list result"
  ps_pdf :: "chunk list result"

definition no_result :: "parse_status \<Rightarrow> parse_result" where
  "no_result st = \<lparr>pr_status = st, pr_chunks = [], pr_links = [], pr_aliases = []\<rparr>"

definition parsed_as :: "(chunk list \<times> link list \<times> string list) result \<Rightarrow> parse_result" where
  "parsed_as r = (case r of
       Inl _ \<Rightarrow> no_result Parse_error
     | Inr (chunks, links, aliases) \<Rightarrow>
         \<lparr>pr_status = if chunks = [] then Parse_empty else Parse_success,
          pr_chunks = chunks, pr_links = links, pr_aliases = aliases\<rparr>)"

definition parse_file_result :: "parsers \<Rightarrow> string \<Rightarrow> parse_result" where
  "parse_file_result P ext =
     (if ext \<in> {''.md'', ''.txt''} then parsed_as (ps_note P)
      else if ext = ''.mdx'' then parsed_as (ps_mdx P)
      else if ext = ''.canvas'' then parsed_as (bind_result (ps_canvas P) (\<lambda>c. Inr (c, [], [])))
      else if ext = ''.pdf'' then parsed_as (bind_result (ps_pdf P) (\<lambda>c. Inr (c, [], [])))
      else no_result Parse_unsupported)"

section \<open>Compaction and the text index\<close>

definition auto_compact_threshold :: nat where "auto_compact_threshold = 100"

text \<open>\<open>compact_table\<close> reports a failure instead of raising it.\<close>

definition compact_table :: "bool ix" where
  "compact_table = catch_ix (bind_ix (db_call (\<lambda>s. ((), s))) (\<lambda>_. return_ix True)) (\<lambda>_. return_ix False)"

definition record_incremental_operation :: "bool ix" where
  "record_incremental_operation = (\<lambda>F s.
     let s = s\<lparr>ix_operations := Suc (ix_operations s)\<rparr> in
     if ix_operations s < auto_compact_threshold then (Inr False, s)
     else bind_ix compact_table (\<lambda>compacted.
       if \<not> compacted then return_ix False
       else bind_ix (update_ix (\<lambda>s. s\<lparr>ix_operations := 0\<rparr>)) (\<lambda>_. return_ix True)) F s)"

text \<open>
  \<open>_schedule_fts_rebuild_async\<close>: the flag is set before the thread starts and taken back if it
  does not; the thread clears it when it ends.
\<close>

definition schedule_fts_rebuild :: "bool \<Rightarrow> indexer \<Rightarrow> bool \<times> indexer" where
  "schedule_fts_rebuild thread_starts s =
     (if ix_fts_rebuilding s then (False, s)
      else if thread_starts then (True, s\<lparr>ix_fts_rebuilding := True\<rparr>) else (False, s))"

definition fts_rebuild_done :: "indexer \<Rightarrow> indexer" where
  "fts_rebuild_done s = s\<lparr>ix_fts_rebuilding := False\<rparr>"

record compaction_stats =
  cs_compacted :: bool
  cs_cleaned :: bool
  cs_error :: bool

definition compact :: "string \<Rightarrow> faults \<Rightarrow> indexer \<Rightarrow> compaction_stats \<times> indexer" where
  "compact name F s =
     (case bind_ix (ensure_table name) (\<lambda>_. bind_ix compact_table (\<lambda>ok.
             bind_ix (update_ix (\<lambda>s. s\<lparr>ix_operations := 0\<rparr>)) (\<lambda>_. return_ix ok))) F s of
        (Inr ok, s) \<Rightarrow> (\<lparr>cs_compacted = ok, cs_cleaned = False, cs_error = \<not> ok\<rparr>, s)
      | (Inl _, s) \<Rightarrow> (\<lparr>cs_compacted = False, cs_cleaned = False, cs_error = True\<rparr>, s))"

section \<open>Reindexing one note\<close>

datatype reindex_status =
    Updated | Empty_note | Deleted | Parse_failed | Add_failed
  | Rejected_path | Rejected_extension | Breaker_open

record reindex_result =
  rr_chunks_indexed :: nat
  rr_status :: reindex_status
  rr_links_indexed :: "nat option"
  rr_aliases_indexed :: "nat option"
  rr_id_added :: bool
  rr_auto_compacted :: bool

record index_conf =
  xc_chunks_name :: string
  xc_extensions :: "string list"
  xc_max_chunks :: nat

record note_env =
  nv_relative :: bool
  nv_now :: rat
  nv_exists :: bool
  nv_id :: "bool result"
  nv_exists_after :: bool
  nv_parsers :: parsers
  nv_embed :: "string list \<Rightarrow> rat list list result"
  nv_thread :: bool

definition only_status :: "reindex_status \<Rightarrow> reindex_result" where
  "only_status st = \<lparr>rr_chunks_indexed = 0, rr_status = st, rr_links_indexed = None,
     rr_aliases_indexed = None, rr_id_added = False, rr_auto_compacted = False\<rparr>"

definition if_positive :: "nat \<Rightarrow> nat option" where
  "if_positive n = (if 0 < n then Some n else None)"

text \<open>The note is gone: its records are removed.\<close>

definition remove_records :: "index_conf \<Rightarrow> string \<Rightarrow> faults \<Rightarrow> indexer \<Rightarrow> reindex_result \<times> indexer" where
  "remove_records C path F s =
     (case apply_note_records (xc_chunks_name C) path [] [] [] F s of
        (Inl _, s) \<Rightarrow> (only_status Add_failed, s)
      | (Inr _, s) \<Rightarrow> (only_status Deleted, snd (record_incremental_operation F s)))"

definition after_compaction :: "note_env \<Rightarrow> reindex_result \<Rightarrow> faults \<Rightarrow> indexer \<Rightarrow> reindex_result \<times> indexer" where
  "after_compaction E r F s =
     (case record_incremental_operation F s of
        (Inr True, s) \<Rightarrow> (r\<lparr>rr_auto_compacted := True\<rparr>, snd (schedule_fts_rebuild (nv_thread E) s))
      | (_, s) \<Rightarrow> (r, s))"

definition clear_records :: "index_conf \<Rightarrow> note_env \<Rightarrow> string \<Rightarrow> faults \<Rightarrow> indexer \<Rightarrow> reindex_result \<times> indexer" where
  "clear_records C E path F s =
     (case apply_note_records (xc_chunks_name C) path [] [] [] F s of
        (Inl _, s) \<Rightarrow> (only_status Add_failed, s)
      | (Inr _, s) \<Rightarrow> after_compaction E (only_status Empty_note) F s)"

definition embed_chunks :: "(string list \<Rightarrow> rat list list result) \<Rightarrow> chunk list \<Rightarrow> chunk_row list result" where
  "embed_chunks embed_corpus chunks =
     bind_result (embed_corpus (map ch_text chunks)) (\<lambda>vectors.
       if length vectors \<noteq> length chunks then Inl (ValueError ''embedding count differs from chunk count'')
       else Inr (map (\<lambda>(c, v). \<lparr>cr_chunk = c, cr_vector = v\<rparr>) (zip chunks vectors)))"

definition store_records ::
  "index_conf \<Rightarrow> note_env \<Rightarrow> string \<Rightarrow> bool \<Rightarrow> chunk list \<Rightarrow> link list \<Rightarrow> string list
     \<Rightarrow> faults \<Rightarrow> indexer \<Rightarrow> reindex_result \<times> indexer" where
  "store_records C E path id_added chunks links aliases F s =
     (case embed_chunks (nv_embed E) chunks of
        Inl _ \<Rightarrow> (only_status Add_failed, s)
      | Inr rows \<Rightarrow>
          case apply_note_records (xc_chunks_name C) path rows links aliases F s of
            (Inl _, s) \<Rightarrow> (only_status Add_failed, s)
          | (Inr (_, links_count, aliases_count), s) \<Rightarrow>
              after_compaction E
                (\<lparr>rr_chunks_indexed = length rows, rr_status = Updated,
                  rr_links_indexed = if_positive links_count, rr_aliases_indexed = if_positive aliases_count,
                  rr_id_added = id_added, rr_auto_compacted = False\<rparr>) F s)"

definition reindex_parsed ::
  "index_conf \<Rightarrow> note_env \<Rightarrow> string \<Rightarrow> bool \<Rightarrow> faults \<Rightarrow> indexer \<Rightarrow> reindex_result \<times> indexer" where
  "reindex_parsed C E path id_added F s =
     (let parsed = parse_file_result (nv_parsers E) (rel_suffix path) in
      if pr_status parsed = Parse_error
      then (if \<not> nv_exists_after E then remove_records C path F s else (only_status Parse_failed, s))
      else let chunks = take (xc_max_chunks C) (pr_chunks parsed) in
        if chunks = [] then clear_records C E path F s
        else store_records C E path id_added chunks (pr_links parsed) (pr_aliases parsed) F s)"

definition reindex_locked ::
  "index_conf \<Rightarrow> note_env \<Rightarrow> bool \<Rightarrow> string \<Rightarrow> faults \<Rightarrow> indexer \<Rightarrow> reindex_result \<times> indexer" where
  "reindex_locked C E auto_generate_id path F s =
     (if \<not> nv_exists E then remove_records C path F s
      else if auto_generate_id \<and> rel_suffix path = ''.md''
      then (case nv_id E of
          Inr added \<Rightarrow> reindex_parsed C E path added F s
        | Inl e \<Rightarrow> if isinstance e C_FileNotFoundError then remove_records C path F s
                  else reindex_parsed C E path False F s)
      else reindex_parsed C E path False F s)"

definition reindex_note ::
  "index_conf \<Rightarrow> note_env \<Rightarrow> bool \<Rightarrow> string \<Rightarrow> faults \<Rightarrow> indexer \<Rightarrow> reindex_result \<times> indexer" where
  "reindex_note C E auto_generate_id path F s =
     (if \<not> nv_relative E then (only_status Rejected_path, s)
      else if rel_suffix path \<notin> set (xc_extensions C) then (only_status Rejected_extension, s)
      else case check_circuit_breaker (nv_now E) path (ix_attempts s) of
          (True, d) \<Rightarrow> (only_status Breaker_open, s\<lparr>ix_attempts := d\<rparr>)
        | (False, d) \<Rightarrow> reindex_locked C E auto_generate_id path F (s\<lparr>ix_attempts := d\<rparr>))"

section \<open>The vector index\<close>

record vector_settings =
  vs_auto_create :: bool
  vs_min_chunks :: nat
  vs_index_type :: string
  vs_num_sub_vectors :: nat
  vs_distance_type :: string

record vector_config =
  vc_index_type :: string
  vc_num_partitions :: nat
  vc_num_sub_vectors :: nat
  vc_distance_type :: string

definition get_vector_index_config :: "vector_settings \<Rightarrow> nat \<Rightarrow> vector_config option" where
  "get_vector_index_config V total_chunks =
     (if \<not> vs_auto_create V \<or> total_chunks < vs_min_chunks V then None
      else Some \<lparr>vc_index_type = vs_index_type V, vc_num_partitions = max 1 (min 256 (total_chunks div 8192)),
        vc_num_sub_vectors = vs_num_sub_vectors V, vc_distance_type = vs_distance_type V\<rparr>)"

text \<open>An index of the table, its name and its columns; \<open>_has_vector_index\<close> is false on failure.\<close>

type_synonym table_index = "string \<times> string list"

definition is_vector_index :: "table_index \<Rightarrow> bool" where
  "is_vector_index i \<longleftrightarrow> snd i = [''vector''] \<or> starts_with (fst i) ''vector''"

definition has_vector_index :: "table_index list result \<Rightarrow> indexer \<Rightarrow> bool" where
  "has_vector_index indices s =
     (if ix_table s = None then False
      else case indices of Inl _ \<Rightarrow> False | Inr is \<Rightarrow> \<exists>i \<in> set is. is_vector_index i)"

definition below_threshold :: "nat \<Rightarrow> nat \<Rightarrow> string" where
  "below_threshold n m = ''below_threshold ('' @ show_int (int n) @ '' < '' @ show_int (int m) @ '')''"

text \<open>
  \<open>_maybe_create_vector_index\<close>: whether the index was created, and the reason.  \<open>name_of\<close> is
  \<open>type(e).__name__\<close>; the creation of the index is a call of the database that commits no rows;
  \<open>skip\<close> says that there is one and that it is to be kept.
\<close>

definition index_creation :: "vector_settings \<Rightarrow> nat \<Rightarrow> bool \<Rightarrow> nat \<Rightarrow> (bool \<times> string) ix" where
  "index_creation V dimension skip total_chunks =
     (case get_vector_index_config V total_chunks of
        None \<Rightarrow> return_ix (False, if total_chunks < vs_min_chunks V
            then below_threshold total_chunks (vs_min_chunks V) else ''auto_create_disabled'')
      | Some config \<Rightarrow>
          if skip then return_ix (False, ''already_exists'')
          else if vc_index_type config = ''IVF_PQ''
          then (if dimension mod vc_num_sub_vectors config \<noteq> 0
                then return_ix (False, ''invalid_num_sub_vectors'')
                else bind_ix (db_call (\<lambda>s. ((), s))) (\<lambda>_. return_ix (True, ''success'')))
          else if vc_index_type config = ''IVF_HNSW_SQ''
          then bind_ix (db_call (\<lambda>s. ((), s))) (\<lambda>_. return_ix (True, ''success''))
          else return_ix (False, ''unknown_index_type: '' @ vc_index_type config))"

definition maybe_create_vector_index ::
  "vector_settings \<Rightarrow> nat \<Rightarrow> (pyexn \<Rightarrow> string) \<Rightarrow> table_index list result \<Rightarrow> bool
     \<Rightarrow> faults \<Rightarrow> indexer \<Rightarrow> (bool \<times> string) \<times> indexer" where
  "maybe_create_vector_index V dimension name_of indices replace_existing F s =
     (case ix_table s of
        None \<Rightarrow> ((False, ''table_not_initialized''), s)
      | Some t \<Rightarrow>
          (case bind_ix (db_call (\<lambda>s. (length (table_rows s t), s)))
              (index_creation V dimension (has_vector_index indices s \<and> \<not> replace_existing)) F s of
             (Inr r, s) \<Rightarrow> (r, s)
           | (Inl e, s) \<Rightarrow> ((False, ''error: '' @ name_of e), s)))"

record index_status =
  is_exists :: bool
  is_auto_create :: bool
  is_threshold :: nat
  is_total_chunks :: nat
  is_would_create :: bool

definition get_vector_index_status ::
  "vector_settings \<Rightarrow> table_index list result \<Rightarrow> string \<Rightarrow> faults \<Rightarrow> indexer \<Rightarrow> index_status result \<times> indexer" where
  "get_vector_index_status V indices name F s =
     (case ensure_table name F s of
        (Inl _, s) \<Rightarrow> (Inr \<lparr>is_exists = False, is_auto_create = vs_auto_create V, is_threshold = vs_min_chunks V,
            is_total_chunks = 0, is_would_create = False\<rparr>, s)
      | (Inr t, s) \<Rightarrow> bind_ix (db_call (\<lambda>s. (length (table_rows s t), s))) (\<lambda>total.
          return_ix \<lparr>is_exists = has_vector_index indices s, is_auto_create = vs_auto_create V,
            is_threshold = vs_min_chunks V, is_total_chunks = total,
            is_would_create = (get_vector_index_config V total \<noteq> None \<and> \<not> has_vector_index indices s)\<rparr>) F s)"

section \<open>Statistics\<close>

record index_stats =
  st_total_chunks :: nat
  st_unique_notes :: nat
  st_last_modified :: "string option"

definition no_stats :: index_stats where
  "no_stats = \<lparr>st_total_chunks = 0, st_unique_notes = 0, st_last_modified = None\<rparr>"

text \<open>The columns \<open>note_path\<close> and \<open>modified_at\<close> of the rows.\<close>

fun note_stamp :: "index_row \<Rightarrow> (string \<times> string) list" where
  "note_stamp (ChunkRow c) = [(ch_note_path (cr_chunk c), ch_modified_at (cr_chunk c))]"
| "note_stamp _ = []"

definition note_stamps :: "index_row list \<Rightarrow> (string \<times> string) list" where
  "note_stamps rows = concat (map note_stamp rows)"

definition get_stats :: "string \<Rightarrow> faults \<Rightarrow> indexer \<Rightarrow> index_stats \<times> indexer" where
  "get_stats name F s =
     (case bind_ix (ensure_table name) (\<lambda>t.
           bind_ix (db_call (\<lambda>s. (length (table_rows s t), s))) (\<lambda>total.
           if total = 0 then return_ix no_stats
           else bind_ix (db_call (\<lambda>s. (note_stamps (table_rows s t), s))) (\<lambda>stamps.
             return_ix \<lparr>st_total_chunks = total, st_unique_notes = length (remdups (map fst stamps)),
               st_last_modified = (case map snd stamps of [] \<Rightarrow> None | m # ms \<Rightarrow> Some (fold max ms m))\<rparr>))) F s of
        (Inr r, s) \<Rightarrow> (r, s)
      | (Inl _, s) \<Rightarrow> (no_stats, s))"

section \<open>Synchronization\<close>

record sync_stats =
  sy_vault_files :: nat
  sy_indexed_files :: nat
  sy_new_files :: nat
  sy_modified_files :: nat
  sy_deleted_files :: nat
  sy_synced :: nat

text \<open>The files of the vault: those whose \<open>relative_to\<close> or \<open>stat\<close> raises are left out.\<close>

definition vault_map :: "(string \<times> rat) result list \<Rightarrow> (string, rat) dict" where
  "vault_map files = fold (\<lambda>f d. case f of Inl _ \<Rightarrow> d | Inr (p, mtime) \<Rightarrow> dset p mtime d) files []"

definition first_stamp :: "string \<times> string \<Rightarrow> (string, string) dict \<Rightarrow> (string, string) dict" where
  "first_stamp x d = (if dhas d (fst x) then d else d @ [x])"

definition indexed_map :: "string \<Rightarrow> faults \<Rightarrow> indexer \<Rightarrow> (string, string) dict \<times> indexer" where
  "indexed_map name F s =
     (case bind_ix (ensure_table name) (\<lambda>t.
           bind_ix (db_call (\<lambda>s. (length (table_rows s t), s))) (\<lambda>total.
           if total = 0 then return_ix []
           else bind_ix (db_call (\<lambda>s. (note_stamps (table_rows s t), s))) (\<lambda>stamps.
             return_ix (fold first_stamp stamps [])))) F s of
        (Inr d, s) \<Rightarrow> (d, s)
      | (Inl _, s) \<Rightarrow> ([], s))"

text \<open>
  \<open>timestamp\<close> reads an ISO date as a time; \<open>None\<close> stands for the \<open>ValueError\<close> and \<open>TypeError\<close>
  that the code takes for a modified file.  The order of a Python set is the argument \<open>order\<close>.
\<close>

definition is_modified :: "(string \<Rightarrow> rat option) \<Rightarrow> rat \<Rightarrow> string \<Rightarrow> bool" where
  "is_modified timestamp vault_mtime indexed =
     (case timestamp indexed of None \<Rightarrow> True | Some t \<Rightarrow> t + 1 < vault_mtime)"

definition new_files :: "(string, rat) dict \<Rightarrow> (string, string) dict \<Rightarrow> string list" where
  "new_files V I = filter (\<lambda>p. \<not> dhas I p) (dkeys V)"

definition deleted_files :: "(string, rat) dict \<Rightarrow> (string, string) dict \<Rightarrow> string list" where
  "deleted_files V I = filter (\<lambda>p. \<not> dhas V p) (dkeys I)"

definition modified_files ::
  "(string \<Rightarrow> rat option) \<Rightarrow> (string, rat) dict \<Rightarrow> (string, string) dict \<Rightarrow> string list" where
  "modified_files timestamp V I =
     map fst (filter (\<lambda>(p, m). case dget I p of None \<Rightarrow> False | Some t \<Rightarrow> is_modified timestamp m t) V)"

fun reindex_each ::
  "index_conf \<Rightarrow> (nat \<Rightarrow> string \<Rightarrow> note_env) \<Rightarrow> nat \<Rightarrow> string list \<Rightarrow> faults \<Rightarrow> indexer
     \<Rightarrow> reindex_result list \<times> indexer" where
  "reindex_each C E i [] F s = ([], s)"
| "reindex_each C E i (p # ps) F s =
     (case reindex_note C (E i p) True p F s of
        (r, s) \<Rightarrow> (case reindex_each C E (Suc i) ps F s of (rs, s) \<Rightarrow> (r # rs, s)))"

definition sync_check ::
  "index_conf \<Rightarrow> (nat \<Rightarrow> string \<Rightarrow> note_env) \<Rightarrow> (string list \<Rightarrow> string list) \<Rightarrow> (string \<Rightarrow> rat option)
     \<Rightarrow> (string \<times> rat) result list \<Rightarrow> bool \<Rightarrow> faults \<Rightarrow> indexer \<Rightarrow> sync_stats \<times> indexer" where
  "sync_check C E order timestamp vault_files auto_sync F s =
     (case indexed_map (xc_chunks_name C) F s of (I, s) \<Rightarrow>
        let V = vault_map vault_files;
            new = order (new_files V I); deleted = order (deleted_files V I);
            modified = order (modified_files timestamp V I);
            stats = \<lparr>sy_vault_files = length V, sy_indexed_files = length I, sy_new_files = length new,
              sy_modified_files = length modified, sy_deleted_files = length deleted, sy_synced = 0\<rparr> in
        if auto_sync \<and> (new \<noteq> [] \<or> modified \<noteq> [] \<or> deleted \<noteq> [])
        then (case reindex_each C E 0 (deleted @ new @ modified) F s of
          (rs, s) \<Rightarrow> (stats\<lparr>sy_synced := length rs\<rparr>, s))
        else (stats, s))"

section \<open>Reindexing a note is atomic\<close>

lemma table_rows_fields [simp]:
  "table_rows (s\<lparr>ix_operations := k\<rparr>) = table_rows s" "table_rows (s\<lparr>ix_attempts := d\<rparr>) = table_rows s"
  "table_rows (s\<lparr>ix_fts_rebuilding := b\<rparr>) = table_rows s"
  by (auto simp: table_rows_def fun_eq_iff)

lemma record_operation_rows [simp]: "table_rows (snd (record_incremental_operation F s)) = table_rows s"
  by (auto simp: record_incremental_operation_def compact_table_def catch_ix_def bind_ix_def db_call_def return_ix_def
      update_ix_def Let_def split: option.splits)

lemma after_compaction_facts:
  "after_compaction E r F s = (r', s') \<Longrightarrow>
     table_rows s' = table_rows s \<and> rr_status r' = rr_status r \<and> rr_chunks_indexed r' = rr_chunks_indexed r"
proof -
  assume run: "after_compaction E r F s = (r', s')"
  obtain b s1 where op: "record_incremental_operation F s = (b, s1)" by fastforce
  then have "table_rows s1 = table_rows s" using record_operation_rows [of F s] by simp
  with run op show ?thesis
    by (auto simp: after_compaction_def schedule_fts_rebuild_def split: sum.splits bool.splits if_splits)
qed

text \<open>The rows of the tables when those of one note are replaced.\<close>

definition note_replaced ::
  "string \<Rightarrow> string \<Rightarrow> string \<Rightarrow> string \<Rightarrow> chunk_row list \<Rightarrow> link list \<Rightarrow> string list
     \<Rightarrow> (string \<Rightarrow> index_row list) \<Rightarrow> (string \<Rightarrow> index_row list)" where
  "note_replaced t l a p chunks links aliases rows =
     rows(t := replaced ''note_path'' p (map ChunkRow chunks) (rows t),
          l := replaced ''from_note_path'' p (map LinkRow links) (rows l),
          a := replaced ''note_path'' p (alias_records p aliases) (rows a))"

text \<open>What one call may answer and leave behind.\<close>

definition reindex_outcome ::
  "index_conf \<Rightarrow> note_env \<Rightarrow> string \<Rightarrow> indexer \<Rightarrow> reindex_result \<Rightarrow> indexer \<Rightarrow> bool" where
  "reindex_outcome C E p s r s' \<longleftrightarrow>
     (let t = chunks_of (xc_chunks_name C) s; l = links_of s; a = aliases_of s;
          parsed = parse_file_result (nv_parsers E) (rel_suffix p) in
      case rr_status r of
        Updated \<Rightarrow> \<exists>rows. embed_chunks (nv_embed E) (take (xc_max_chunks C) (pr_chunks parsed)) = Inr rows \<and>
          rr_chunks_indexed r = length rows \<and> rows \<noteq> [] \<and>
          table_rows s' = note_replaced t l a p rows (pr_links parsed) (pr_aliases parsed) (table_rows s)
      | Empty_note \<Rightarrow> table_rows s' = note_replaced t l a p [] [] [] (table_rows s)
      | Deleted \<Rightarrow> table_rows s' = note_replaced t l a p [] [] [] (table_rows s)
      | _ \<Rightarrow> table_rows s' = table_rows s)"

lemma apply_outcome:
  assumes "apply_note_records name p chunks links aliases F s = (r, s')" and "handles_open s" and "one_fault F"
    and "distinct [chunks_of name s, links_of s, aliases_of s]"
  shows "case r of Inl e \<Rightarrow> table_rows s' = table_rows s
    | Inr x \<Rightarrow> table_rows s' = note_replaced (chunks_of name s) (links_of s) (aliases_of s) p chunks links aliases (table_rows s)"
  using apply_note_records_rows [OF assms(1,2) _ refl refl refl assms(3)] assms(4)
  by (auto simp: note_replaced_def split: sum.splits)

text \<open>The database fails at most once, and the three tables are apart.\<close>

definition index_ready :: "index_conf \<Rightarrow> faults \<Rightarrow> indexer \<Rightarrow> bool" where
  "index_ready C F s \<longleftrightarrow> handles_open s \<and> one_fault F \<and>
     distinct [chunks_of (xc_chunks_name C) s, links_of s, aliases_of s]"

lemma apply_outcome_ready:
  assumes "index_ready C F s" and "apply_note_records (xc_chunks_name C) p chunks links aliases F s = (r, s')"
  shows "case r of Inl e \<Rightarrow> table_rows s' = table_rows s
    | Inr x \<Rightarrow> table_rows s' = note_replaced (chunks_of (xc_chunks_name C) s) (links_of s) (aliases_of s) p chunks links aliases (table_rows s)"
  using apply_outcome [OF assms(2)] assms(1) by (simp add: index_ready_def)

lemma remove_outcome: "index_ready C F s \<Longrightarrow> remove_records C p F s = (r, s') \<Longrightarrow> reindex_outcome C E p s r s'"
proof -
  assume ok: "index_ready C F s" and run: "remove_records C p F s = (r, s')"
  obtain r1 s1 where a: "apply_note_records (xc_chunks_name C) p [] [] [] F s = (r1, s1)" by fastforce
  from apply_outcome_ready [OF ok a] run a show ?thesis
    by (cases r1) (auto simp: remove_records_def reindex_outcome_def only_status_def Let_def)
qed

lemma clear_outcome: "index_ready C F s \<Longrightarrow> clear_records C E p F s = (r, s') \<Longrightarrow> reindex_outcome C E p s r s'"
proof -
  assume ok: "index_ready C F s" and run: "clear_records C E p F s = (r, s')"
  obtain r1 s1 where a: "apply_note_records (xc_chunks_name C) p [] [] [] F s = (r1, s1)" by fastforce
  show ?thesis
  proof (cases r1)
    case (Inl e)
    with apply_outcome_ready [OF ok a] run a show ?thesis
      by (auto simp: clear_records_def reindex_outcome_def only_status_def Let_def)
  next
    case (Inr x)
    with run a have "after_compaction E (only_status Empty_note) F s1 = (r, s')" by (simp add: clear_records_def)
    from after_compaction_facts [OF this] apply_outcome_ready [OF ok a] Inr show ?thesis
      by (simp add: reindex_outcome_def only_status_def Let_def)
  qed
qed

lemma store_outcome:
  assumes ok: "index_ready C F s" and "store_records C E p b chunks (pr_links parsed) (pr_aliases parsed) F s = (r, s')" and "chunks \<noteq> []"
    and "parsed = parse_file_result (nv_parsers E) (rel_suffix p)" and "chunks = take (xc_max_chunks C) (pr_chunks parsed)"
  shows "reindex_outcome C E p s r s'"
proof (cases "embed_chunks (nv_embed E) chunks")
  case (Inl e)
  with assms(2) show ?thesis by (auto simp: store_records_def reindex_outcome_def only_status_def Let_def)
next
  case (Inr rows)
  then have "rows \<noteq> []" using assms(3) by (auto simp: embed_chunks_def split: if_splits)
  obtain r1 s1 where a: "apply_note_records (xc_chunks_name C) p rows (pr_links parsed) (pr_aliases parsed) F s = (r1, s1)" by fastforce
  show ?thesis
  proof (cases r1)
    case (Inl e)
    with apply_outcome_ready [OF ok a] assms(2) Inr a show ?thesis
      by (auto simp: store_records_def reindex_outcome_def only_status_def Let_def)
  next
    case r1: (Inr x)
    obtain h n m where x: "x = (h, n, m)" by (cases x)
    from assms(2) Inr a r1 x have run: "after_compaction E \<lparr>rr_chunks_indexed = length rows, rr_status = Updated,
        rr_links_indexed = if_positive n, rr_aliases_indexed = if_positive m,
        rr_id_added = b, rr_auto_compacted = False\<rparr> F s1 = (r, s')" by (simp add: store_records_def)
    from after_compaction_facts [OF run] apply_outcome_ready [OF ok a] r1 Inr \<open>rows \<noteq> []\<close> assms(4,5) show ?thesis
      by (simp add: reindex_outcome_def Let_def)
  qed
qed

lemma parsed_outcome: "index_ready C F s \<Longrightarrow> reindex_parsed C E p b F s = (r, s') \<Longrightarrow> reindex_outcome C E p s r s'"
  using remove_outcome clear_outcome store_outcome [OF _ _ _ refl refl]
  by (auto simp: reindex_parsed_def Let_def reindex_outcome_def only_status_def split: if_splits)

lemma locked_outcome: "index_ready C F s \<Longrightarrow> reindex_locked C E auto p F s = (r, s') \<Longrightarrow> reindex_outcome C E p s r s'"
  using remove_outcome parsed_outcome by (auto simp: reindex_locked_def split: if_splits sum.splits)

lemma reindex_note_outcome:
  assumes "reindex_note C E auto p F s = (r, s')" and "handles_open s" and "one_fault F"
    and "distinct [chunks_of (xc_chunks_name C) s, links_of s, aliases_of s]"
  shows "reindex_outcome C E p s r s'"
proof -
  have attempts: "handles_open (s\<lparr>ix_attempts := d\<rparr>) = handles_open s" "links_of (s\<lparr>ix_attempts := d\<rparr>) = links_of s"
    "aliases_of (s\<lparr>ix_attempts := d\<rparr>) = aliases_of s" "chunks_of n (s\<lparr>ix_attempts := d\<rparr>) = chunks_of n s" for d n
    by (simp_all add: handles_open_def links_of_def aliases_of_def chunks_of_def)
  have "reindex_outcome C E p (s\<lparr>ix_attempts := d\<rparr>) r s' = reindex_outcome C E p s r s'" for d
    by (simp only: reindex_outcome_def attempts table_rows_fields)
  moreover have "reindex_outcome C E p (s\<lparr>ix_attempts := d\<rparr>) r s'"
    if "reindex_locked C E auto p F (s\<lparr>ix_attempts := d\<rparr>) = (r, s')" for d
    using locked_outcome [OF _ that] assms(2,3,4) by (simp add: index_ready_def attempts)
  ultimately show ?thesis using assms(1)
    by (auto simp: reindex_note_def reindex_outcome_def only_status_def split: if_splits prod.splits bool.splits)
qed


end
