(* ===== verification/Sync.thy ===== *)
theory Sync
  imports Indexer
begin

text \<open>
  What \<open>VaultIndexer.sync_check\<close> (\<open>core/indexer.py\<close>) leaves in the index, and runs of it and of
  \<open>reindex_note\<close> on a small index.
\<close>

section \<open>Synchronization brings the index up to date\<close>

text \<open>The rows of one note in a table of chunks.\<close>

definition note_rows :: "string \<Rightarrow> index_row list \<Rightarrow> index_row list" where
  "note_rows p rows = filter (\<lambda>r. row_field ''note_path'' r = Some p) rows"

definition chunk_rows :: "index_conf \<Rightarrow> indexer \<Rightarrow> string \<Rightarrow> index_row list" where
  "chunk_rows C s p = note_rows p (table_rows s (chunks_of (xc_chunks_name C) s))"

lemma note_rows_replaced:
  assumes "\<And>c. c \<in> set new \<Longrightarrow> ch_note_path (cr_chunk c) = p"
  shows "note_rows q (replaced ''note_path'' p (map ChunkRow new) rows) =
    (if q = p then map ChunkRow new else note_rows q rows)"
proof -
  have "filter (\<lambda>r. row_field ''note_path'' r = Some q) (map ChunkRow new) = (if q = p then map ChunkRow new else [])"
    using assms by (auto simp: filter_empty_conv intro!: filter_True)
  then show ?thesis by (auto simp: note_rows_def replaced_def intro: filter_cong simp del: row_field.simps)
qed

lemma embed_chunks_chunks: "embed_chunks f chunks = Inr rows \<Longrightarrow> map cr_chunk rows = chunks"
  by (auto simp: embed_chunks_def comp_def case_prod_unfold split: if_splits)

text \<open>
  A call for a note of the vault: the note is there, its extension is indexed, and its parsing and
  embedding succeed with the rows \<open>rows\<close>; for any other note the call finds no file.
\<close>

definition note_present :: "index_conf \<Rightarrow> chunk_row list \<Rightarrow> note_env \<Rightarrow> string \<Rightarrow> bool" where
  "note_present C rows E p \<longleftrightarrow>
     (let parsed = parse_file_result (nv_parsers E) (rel_suffix p); chunks = take (xc_max_chunks C) (pr_chunks parsed) in
      nv_relative E \<and> rel_suffix p \<in> set (xc_extensions C) \<and> nv_exists E \<and>
      (case nv_id E of Inl e \<Rightarrow> \<not> isinstance e C_FileNotFoundError | Inr _ \<Rightarrow> True) \<and>
      pr_status parsed \<noteq> Parse_error \<and> (\<forall>c \<in> set chunks. ch_note_path c = p) \<and>
      (if chunks = [] then rows = [] else embed_chunks (nv_embed E) chunks = Inr rows))"

definition note_absent :: "index_conf \<Rightarrow> note_env \<Rightarrow> string \<Rightarrow> bool" where
  "note_absent C E p \<longleftrightarrow> nv_relative E \<and> rel_suffix p \<in> set (xc_extensions C) \<and> \<not> nv_exists E"

lemma quiet_call:
  assumes "index_ready C (\<lambda>k. None) s" and "\<And>c. c \<in> set rows \<Longrightarrow> ch_note_path (cr_chunk c) = p"
    and "apply_note_records (xc_chunks_name C) p rows links aliases (\<lambda>k. None) s = (r, s')"
  shows "(\<exists>x. r = Inr x) \<and> index_ready C (\<lambda>k. None) s' \<and> ix_attempts s' = ix_attempts s \<and>
    (\<forall>q. chunk_rows C s' q = (if q = p then map ChunkRow rows else chunk_rows C s q))"
proof -
  from assms(1) have ok: "handles_open s" "one_fault (\<lambda>k. None)"
    "distinct [chunks_of (xc_chunks_name C) s, links_of s, aliases_of s]" by (simp_all add: index_ready_def)
  note run = apply_note_records_run [OF assms(3) ok(1)]
  then obtain x where r: "r = Inr x" by (cases r) auto
  from run(1) have ev: "handles_open s'" "links_of s' = links_of s" "aliases_of s' = aliases_of s" "ix_attempts s' = ix_attempts s"
    using ok(1) by (simp_all add: evolves_def)
  have t: "chunks_of (xc_chunks_name C) s' = chunks_of (xc_chunks_name C) s" using run(3) [OF r] by (simp add: chunks_of_def)
  from apply_outcome [OF assms(3) ok] r have
    "table_rows s' = note_replaced (chunks_of (xc_chunks_name C) s) (links_of s) (aliases_of s) p rows links aliases (table_rows s)" by simp
  then have "chunk_rows C s' q = (if q = p then map ChunkRow rows else chunk_rows C s q)" for q
    using ok(3) note_rows_replaced [OF assms(2)] by (simp add: chunk_rows_def t note_replaced_def)
  with r ev t ok show ?thesis by (cases x) (simp add: index_ready_def)
qed

lemma record_operation_shape:
  "\<exists>k j. snd (record_incremental_operation F s) = s\<lparr>ix_operations := k, ix_calls := j\<rparr>"
proof (cases "Suc (ix_operations s) < auto_compact_threshold")
  case True
  then have "snd (record_incremental_operation F s) = s\<lparr>ix_operations := Suc (ix_operations s), ix_calls := ix_calls s\<rparr>"
    by (simp add: record_incremental_operation_def Let_def)
  then show ?thesis by blast
next
  case False
  then have "snd (record_incremental_operation F s) =
      s\<lparr>ix_operations := if F (ix_calls s) = None then 0 else Suc (ix_operations s), ix_calls := Suc (ix_calls s)\<rparr>"
    by (cases "F (ix_calls s)")
      (simp_all add: record_incremental_operation_def compact_table_def catch_ix_def bind_ix_def db_call_def return_ix_def
        update_ix_def Let_def)
  then show ?thesis by blast
qed

lemma record_operation_state:
  assumes "record_incremental_operation F s = (b, s')"
  shows "table_rows s' = table_rows s \<and> ix_attempts s' = ix_attempts s \<and> chunks_of n s' = chunks_of n s \<and>
     links_of s' = links_of s \<and> aliases_of s' = aliases_of s \<and> handles_open s' = handles_open s"
proof -
  obtain k j where "s' = s\<lparr>ix_operations := k, ix_calls := j\<rparr>" using record_operation_shape [of F s] assms by auto
  then show ?thesis by (simp add: chunks_of_def links_of_def aliases_of_def handles_open_def table_rows_def fun_eq_iff)
qed

text \<open>Two states that differ only in what the index does not show.\<close>

definition same_index :: "index_conf \<Rightarrow> indexer \<Rightarrow> indexer \<Rightarrow> bool" where
  "same_index C s s' \<longleftrightarrow> (\<forall>F. index_ready C F s \<longrightarrow> index_ready C F s') \<and> ix_attempts s' = ix_attempts s \<and>
     chunk_rows C s' = chunk_rows C s"

lemma same_record: "record_incremental_operation F s = (b, s') \<Longrightarrow> same_index C s s'"
  using record_operation_state [of F s b s' "xc_chunks_name C"]
  by (auto simp: same_index_def index_ready_def chunk_rows_def fun_eq_iff)

lemma same_after: "after_compaction E r F s = (r', s') \<Longrightarrow> same_index C s s'"
proof -
  assume run: "after_compaction E r F s = (r', s')"
  obtain b s1 where op: "record_incremental_operation F s = (b, s1)" by fastforce
  note one = same_record [OF op, of C]
  have two: "same_index C s1 (s1\<lparr>ix_fts_rebuilding := x\<rparr>)" for x
    by (auto simp: same_index_def index_ready_def chunk_rows_def chunks_of_def links_of_def aliases_of_def handles_open_def)
  from run op have "s' = s1 \<or> s' = s1\<lparr>ix_fts_rebuilding := True\<rparr>"
    by (auto simp: after_compaction_def schedule_fts_rebuild_def split: sum.splits bool.splits if_splits)
  with one two [of True] show ?thesis by (auto simp: same_index_def)
qed

definition reindexed :: "index_conf \<Rightarrow> indexer \<Rightarrow> string \<Rightarrow> chunk_row list \<Rightarrow> indexer \<Rightarrow> bool" where
  "reindexed C s p rows s' \<longleftrightarrow> index_ready C (\<lambda>k. None) s' \<and> ix_attempts s' = ix_attempts s \<and>
     (\<forall>q. chunk_rows C s' q = (if q = p then map ChunkRow rows else chunk_rows C s q))"

lemma reindexed_same: "reindexed C s p rows s1 \<Longrightarrow> same_index C s1 s' \<Longrightarrow> reindexed C s p rows s'"
  by (simp add: reindexed_def same_index_def)

lemma reindexed_removed:
  assumes "index_ready C (\<lambda>k. None) s" and "remove_records C p (\<lambda>k. None) s = (r, s')"
  shows "reindexed C s p [] s'"
proof -
  obtain r1 s1 where a: "apply_note_records (xc_chunks_name C) p [] [] [] (\<lambda>k. None) s = (r1, s1)" by fastforce
  from quiet_call [OF assms(1) _ a] obtain x where "r1 = Inr x" "reindexed C s p [] s1" by (auto simp: reindexed_def)
  moreover obtain b s2 where "record_incremental_operation (\<lambda>k. None) s1 = (b, s2)" by fastforce
  ultimately show ?thesis using assms(2) a same_record reindexed_same by (auto simp: remove_records_def)
qed

lemma reindexed_cleared:
  assumes "index_ready C (\<lambda>k. None) s" and "clear_records C E p (\<lambda>k. None) s = (r, s')"
  shows "reindexed C s p [] s'"
proof -
  obtain r1 s1 where a: "apply_note_records (xc_chunks_name C) p [] [] [] (\<lambda>k. None) s = (r1, s1)" by fastforce
  from quiet_call [OF assms(1) _ a] obtain x where "r1 = Inr x" "reindexed C s p [] s1" by (auto simp: reindexed_def)
  moreover from this assms(2) a have "after_compaction E (only_status Empty_note) (\<lambda>k. None) s1 = (r, s')"
    by (simp add: clear_records_def)
  ultimately show ?thesis using same_after reindexed_same by blast
qed

lemma reindexed_stored:
  assumes "index_ready C (\<lambda>k. None) s" and "store_records C E p b chunks links aliases (\<lambda>k. None) s = (r, s')"
    and "embed_chunks (nv_embed E) chunks = Inr rows" and "\<forall>c \<in> set chunks. ch_note_path c = p"
  shows "reindexed C s p rows s'"
proof -
  obtain r1 s1 where a: "apply_note_records (xc_chunks_name C) p rows links aliases (\<lambda>k. None) s = (r1, s1)" by fastforce
  have "ch_note_path (cr_chunk c) = p" if "c \<in> set rows" for c
    using that assms(4) embed_chunks_chunks [OF assms(3)] by auto
  from quiet_call [OF assms(1) this a] obtain x where x: "r1 = Inr x" "reindexed C s p rows s1" by (auto simp: reindexed_def)
  from x assms(2,3) a obtain r2 where "after_compaction E r2 (\<lambda>k. None) s1 = (r, s')"
    by (auto simp: store_records_def split: prod.splits)
  with x show ?thesis using same_after reindexed_same by blast
qed

text \<open>A call that the breaker lets through does what its note needs.\<close>

lemma reindex_locked_present:
  assumes "index_ready C (\<lambda>k. None) s" and "note_present C rows E p" and "reindex_locked C E True p (\<lambda>k. None) s = (r, s')"
  shows "reindexed C s p rows s'"
proof -
  have "\<exists>b. reindex_locked C E True p (\<lambda>k. None) s = reindex_parsed C E p b (\<lambda>k. None) s"
    using assms(2) by (auto simp: reindex_locked_def note_present_def Let_def split: sum.splits)
  then obtain b where "reindex_parsed C E p b (\<lambda>k. None) s = (r, s')" using assms(3) by auto
  with assms(1,2) show ?thesis
    by (auto simp: reindex_parsed_def note_present_def Let_def intro: reindexed_cleared reindexed_stored split: if_splits)
qed

lemma breaker_first_time:
  assumes "dget d p = None" and "check_circuit_breaker now p d = (b, d')"
  shows "\<not> b \<and> (\<forall>q. q \<noteq> p \<longrightarrow> dget d q = None \<longrightarrow> dget d' q = None)"
proof -
  have drop: "dget d q = None \<Longrightarrow> dget (drop_expired now d) q = None" for q
    by (simp add: drop_expired_def dget_drop)
  from assms drop [of p] have "b = False" "d' = dset p (1, now) (drop_expired now d)"
    by (simp_all add: check_circuit_breaker_def Let_def)
  with drop show ?thesis by (simp add: dget_dset)
qed

lemma reindex_note_does:
  assumes "index_ready C (\<lambda>k. None) s" and "dget (ix_attempts s) p = None" and "reindex_note C E True p (\<lambda>k. None) s = (r, s')"
    and "if there then note_present C rows E p else note_absent C E p \<and> rows = []"
  shows "index_ready C (\<lambda>k. None) s' \<and> (\<forall>q. chunk_rows C s' q = (if q = p then map ChunkRow rows else chunk_rows C s q)) \<and>
    (\<forall>q. q \<noteq> p \<longrightarrow> dget (ix_attempts s) q = None \<longrightarrow> dget (ix_attempts s') q = None)"
proof -
  obtain b d where c: "check_circuit_breaker (nv_now E) p (ix_attempts s) = (b, d)" by fastforce
  note first = breaker_first_time [OF assms(2) c]
  let ?s = "s\<lparr>ix_attempts := d\<rparr>"
  have "nv_relative E \<and> rel_suffix p \<in> set (xc_extensions C)"
    using assms(4) by (auto simp: note_present_def note_absent_def Let_def split: if_splits)
  with assms(3) c first have run: "reindex_locked C E True p (\<lambda>k. None) ?s = (r, s')" by (simp add: reindex_note_def)
  have rd: "index_ready C (\<lambda>k. None) ?s" and same: "chunk_rows C ?s = chunk_rows C s"
    using assms(1) by (auto simp: index_ready_def handles_open_def chunks_of_def links_of_def aliases_of_def chunk_rows_def)
  have "reindexed C ?s p rows s'"
  proof (cases there)
    case True
    with reindex_locked_present [OF rd _ run] assms(4) show ?thesis by simp
  next
    case False
    then have "remove_records C p (\<lambda>k. None) ?s = (r, s')" "rows = []"
      using run assms(4) by (auto simp: reindex_locked_def note_absent_def)
    with reindexed_removed [OF rd] show ?thesis by simp
  qed
  with first show ?thesis by (simp add: reindexed_def same)
qed

lemma reindex_each_does:
  assumes "distinct ps" and "\<forall>i. \<forall>p \<in> set ps. if there p then note_present C (rows p) (E i p) p else note_absent C (E i p) p \<and> rows p = []"
  shows "index_ready C (\<lambda>k. None) s \<Longrightarrow> \<forall>p \<in> set ps. dget (ix_attempts s) p = None \<Longrightarrow>
    reindex_each C E i ps (\<lambda>k. None) s = (rs, s') \<Longrightarrow>
    length rs = length ps \<and> (\<forall>q. chunk_rows C s' q = (if q \<in> set ps then map ChunkRow (rows q) else chunk_rows C s q))"
  using assms
proof (induction ps arbitrary: i s rs s')
  case (Cons p ps)
  obtain r s1 where one: "reindex_note C (E i p) True p (\<lambda>k. None) s = (r, s1)" by fastforce
  obtain rs1 s2 where rest: "reindex_each C E (Suc i) ps (\<lambda>k. None) s1 = (rs1, s2)" by fastforce
  have "if there p then note_present C (rows p) (E i p) p else note_absent C (E i p) p \<and> rows p = []"
    using Cons.prems(5) by simp
  from reindex_note_does [OF Cons.prems(1) _ one this] Cons.prems(2)
  have did: "index_ready C (\<lambda>k. None) s1" "\<And>q. chunk_rows C s1 q = (if q = p then map ChunkRow (rows p) else chunk_rows C s q)"
    "\<And>q. q \<noteq> p \<Longrightarrow> dget (ix_attempts s) q = None \<Longrightarrow> dget (ix_attempts s1) q = None" by auto
  have "\<forall>q \<in> set ps. dget (ix_attempts s1) q = None" using did(3) Cons.prems(2,4) by (metis distinct.simps(2) list.set_intros(2))
  from Cons.IH [OF did(1) this rest] Cons.prems(3,4,5) one rest did(2) show ?case by auto
qed simp

text \<open>The rows of a table of chunks.\<close>

definition chunks_only :: "index_row list \<Rightarrow> bool" where
  "chunks_only rows \<longleftrightarrow> (\<forall>r \<in> set rows. \<exists>c. r = ChunkRow c)"

lemma stamps_of_notes: "chunks_only rows \<Longrightarrow> p \<in> fst ` set (note_stamps rows) \<longleftrightarrow> note_rows p rows \<noteq> []"
proof (induction rows)
  case (Cons r rows)
  then obtain c where r: "r = ChunkRow c" by (auto simp: chunks_only_def)
  have "note_stamps (r # rows) = (ch_note_path (cr_chunk c), ch_modified_at (cr_chunk c)) # note_stamps rows"
    by (simp add: note_stamps_def r)
  with Cons show ?case by (auto simp: chunks_only_def note_rows_def r)
qed (simp add: note_stamps_def note_rows_def)

lemma first_stamps_keys: "fst ` set (fold first_stamp xs d) = fst ` set d \<union> fst ` set xs"
  by (induction xs arbitrary: d) (auto simp: first_stamp_def dhas_iff)

lemma indexed_map_quiet:
  assumes "index_ready C (\<lambda>k. None) s" and "indexed_map (xc_chunks_name C) (\<lambda>k. None) s = (I, s')"
    and "chunks_only (table_rows s (chunks_of (xc_chunks_name C) s))"
  shows "same_index C s s' \<and> (\<forall>p. dhas I p \<longleftrightarrow> chunk_rows C s p \<noteq> [])"
proof -
  let ?t = "chunks_of (xc_chunks_name C) s"
  obtain r1 s1 where en: "ensure_table (xc_chunks_name C) (\<lambda>k. None) s = (r1, s1)" by fastforce
  have ho: "handles_open s" using assms(1) by (simp add: index_ready_def)
  note e = ensure_table_run [OF en ho]
  then have r1: "r1 = Inr ?t" by (cases r1) (auto simp: faulted_def)
  with e have e1: "evolves {} s s1" "ix_table s1 = Some ?t" by auto
  have rows: "table_rows s1 = table_rows s" using evolves_rows [OF e1(1)] by auto
  have I: "I = fold first_stamp (note_stamps (table_rows s ?t)) [] \<and> (\<exists>k. s' = s1\<lparr>ix_calls := k\<rparr>)"
    using assms(2) rows
    by (auto simp: indexed_map_def bind_ix_def en r1 db_call_def return_ix_def note_stamps_def split: if_splits)
  then obtain k where k: "s' = s1\<lparr>ix_calls := k\<rparr>" by blast
  have t: "chunks_of (xc_chunks_name C) s' = ?t" using e1(2) by (simp add: k chunks_of_def)
  have "links_of s' = links_of s" "aliases_of s' = aliases_of s" "handles_open s'" "ix_attempts s' = ix_attempts s"
    using e1(1) ho by (simp_all add: k evolves_def links_of_def aliases_of_def handles_open_def)
  moreover have "chunk_rows C s' = chunk_rows C s" using t by (simp add: chunk_rows_def fun_eq_iff k rows)
  ultimately have "same_index C s s'" using t ho by (simp add: same_index_def index_ready_def)
  moreover have "dhas I p \<longleftrightarrow> chunk_rows C s p \<noteq> []" for p
    using I stamps_of_notes [OF assms(3)] by (simp add: dhas_iff first_stamps_keys chunk_rows_def)
  ultimately show ?thesis by blast
qed

lemma vault_map_distinct: "distinct (dkeys (vault_map fs))"
proof -
  have "distinct (dkeys d) \<Longrightarrow> distinct (dkeys (fold (\<lambda>f d. case f of Inl (e :: pyexn) \<Rightarrow> d | Inr (p, m) \<Rightarrow> dset p m d) fs d))" for d
    by (induction fs arbitrary: d) (auto split: sum.splits intro: dict_keys(3))
  then show ?thesis by (simp add: vault_map_def)
qed

lemma first_stamps_distinct: "distinct (dkeys d) \<Longrightarrow> distinct (dkeys (fold first_stamp xs d))"
  by (induction xs arbitrary: d) (auto simp: first_stamp_def dhas_iff)

lemma indexed_map_distinct: "indexed_map name F s = (I, s') \<Longrightarrow> distinct (dkeys I)"
  by (auto simp: indexed_map_def bind_ix_def return_ix_def first_stamps_distinct split: prod.splits sum.splits if_splits)

lemma modified_files_set:
  "distinct (dkeys V) \<Longrightarrow> p \<in> set (modified_files timestamp V I) \<longleftrightarrow>
     (\<exists>m t. dget V p = Some m \<and> dget I p = Some t \<and> is_modified timestamp m t)"
  by (force simp: modified_files_def split: option.splits)

lemma sync_lists:
  assumes "distinct (dkeys V)" and "distinct (dkeys I)" and "\<And>xs. mset (order xs) = mset xs"
  shows "distinct (order (deleted_files V I) @ order (new_files V I) @ order (modified_files timestamp V I))"
    and "p \<in> set (order (deleted_files V I) @ order (new_files V I) @ order (modified_files timestamp V I)) \<longleftrightarrow>
      (case dget V p of None \<Rightarrow> dhas I p | Some m \<Rightarrow> (case dget I p of None \<Rightarrow> True | Some t \<Rightarrow> is_modified timestamp m t))"
proof -
  have set: "set (order xs) = set xs" and dist: "distinct (order xs) = distinct xs" for xs
    using mset_eq_setD [OF assms(3)] mset_eq_imp_distinct_iff [OF assms(3)] by auto
  have "distinct (modified_files timestamp V I)"
    unfolding modified_files_def using assms(1) by (simp add: distinct_keys_filter)
  moreover have "set (deleted_files V I) = {p. dget V p = None \<and> dhas I p}" "set (new_files V I) = {p. dhas V p \<and> dget I p = None}"
    by (auto simp: deleted_files_def new_files_def dhas_iff map_of_eq_None_iff dest: map_of_SomeD weak_map_of_SomeI)
  moreover have "set (modified_files timestamp V I) \<subseteq> {p. dget V p \<noteq> None \<and> dget I p \<noteq> None}"
    using modified_files_set [OF assms(1)] by auto
  ultimately show "distinct (order (deleted_files V I) @ order (new_files V I) @ order (modified_files timestamp V I))"
    using assms(1,2) by (auto simp: set dist deleted_files_def new_files_def)
  show "p \<in> set (order (deleted_files V I) @ order (new_files V I) @ order (modified_files timestamp V I)) \<longleftrightarrow>
      (case dget V p of None \<Rightarrow> dhas I p | Some m \<Rightarrow> (case dget I p of None \<Rightarrow> True | Some t \<Rightarrow> is_modified timestamp m t))"
    using modified_files_set [OF assms(1), of p timestamp I] dhas_iff [of V p] dhas_iff [of I p]
    by (auto simp: set deleted_files_def new_files_def dhas_def split: option.splits)
qed


definition sample_note_env :: note_env where
  "sample_note_env = \<lparr>nv_relative = True, nv_now = 0, nv_exists = True, nv_id = Inr False, nv_exists_after = True,
     nv_parsers = \<lparr>ps_note = Inr ([cr_chunk sample_chunk], [], []), ps_mdx = Inl OSError, ps_canvas = Inl OSError,
       ps_pdf = Inl OSError\<rparr>,
     nv_embed = (\<lambda>ts. Inr (map (\<lambda>_. [1]) ts)), nv_thread = True\<rparr>"

definition sample_index_conf :: index_conf where
  "sample_index_conf = \<lparr>xc_chunks_name = ''chunks'', xc_extensions = [''.md''], xc_max_chunks = 10\<rparr>"

lemma sample_suffix: "rel_suffix ''a.md'' = ''.md''" by code_simp

lemma sample_present: "note_present sample_index_conf [sample_chunk] sample_note_env ''a.md''"
  by (simp add: note_present_def sample_index_conf_def sample_note_env_def sample_suffix parse_file_result_def parsed_as_def
      embed_chunks_def sample_chunk_def)

lemma sample_index_ready: "index_ready sample_index_conf (\<lambda>k. None) empty_index"
  by (simp add: index_ready_def handles_open_def one_fault_def empty_index_def chunks_of_def links_of_def aliases_of_def
      links_name_def aliases_name_def sample_index_conf_def)



end
