(* ===== verification/Full_Reindex.thy ===== *)
theory Full_Reindex
  imports Sync
begin

text \<open>
  \<open>VaultIndexer.full_reindex\<close> (\<open>core/indexer.py\<close>): the scan of the vault (\<open>core/scanner.py\<close>), a
  new generation in staging tables, the resolution of its links, and its publication in three
  tables with the restoration of those already replaced when one fails.
\<close>

section \<open>Scanning the vault\<close>

text \<open>
  What \<open>rglob\<close> yields: the parts of the absolute path, whether it is a file or a symbolic link,
  and what \<open>resolve\<close> answers or raises.
\<close>

record scan_entry =
  se_parts :: path
  se_file :: bool
  se_symlink :: bool
  se_resolved :: "path result"

definition indexable :: "path \<Rightarrow> string list \<Rightarrow> string list \<Rightarrow> scan_entry \<Rightarrow> bool" where
  "indexable resolved_vault extensions ignored e \<longleftrightarrow>
     se_file e \<and> py_lower (path_suffix (se_parts e)) \<in> set extensions \<and>
     \<not> list_ex (\<lambda>i. i \<in> set (se_parts e)) ignored \<and>
     (se_symlink e \<longrightarrow> (case se_resolved e of
         Inl _ \<Rightarrow> False
       | Inr p \<Rightarrow> (case relative_to p resolved_vault of Inl _ \<Rightarrow> False | Inr _ \<Rightarrow> True)))"

definition scan_vault :: "path \<Rightarrow> string list \<Rightarrow> string list \<Rightarrow> scan_entry list \<Rightarrow> scan_entry list" where
  "scan_vault resolved_vault extensions ignored entries = filter (indexable resolved_vault extensions ignored) entries"

text \<open>\<open>None\<close>: \<open>psutil\<close> is not installed.\<close>

definition get_optimal_batch_size :: "nat option \<Rightarrow> nat" where
  "get_optimal_batch_size available_ram = (case available_ram of
       None \<Rightarrow> 32
     | Some r \<Rightarrow> if 16000000000 < r then 64 else if 8000000000 < r then 32 else 16)"

record reindex_preview =
  pv_would_index :: nat
  pv_by_extension :: "(string, nat) dict"
  pv_batch_size :: nat

definition count_extension :: "scan_entry \<Rightarrow> (string, nat) dict \<Rightarrow> (string, nat) dict" where
  "count_extension e d = (let ext = py_lower (path_suffix (se_parts e)) in
     dset ext ((case dget d ext of None \<Rightarrow> 0 | Some n \<Rightarrow> n) + 1) d)"

definition reindex_preview_of :: "scan_entry list \<Rightarrow> nat option \<Rightarrow> reindex_preview" where
  "reindex_preview_of found available_ram =
     \<lparr>pv_would_index = length found, pv_by_extension = fold count_extension found [],
      pv_batch_size = get_optimal_batch_size available_ram\<rparr>"

section \<open>Resolving links\<close>

definition add_missing :: "string \<Rightarrow> string \<Rightarrow> (string, string) dict \<Rightarrow> (string, string) dict" where
  "add_missing k v d = (if dhas d k then d else dset k v d)"

definition add_note_keys :: "string \<Rightarrow> (string, string) dict \<Rightarrow> (string, string) dict" where
  "add_note_keys p d =
     add_missing (normalize_link_target p) p
       (add_missing (normalize_link_target (path_stem (pp_parts (pure_path p)))) p d)"

definition path_map :: "string list \<Rightarrow> (string \<times> string) list \<Rightarrow> (string, string) dict" where
  "path_map paths aliases = fold (\<lambda>(k, p). add_missing k p) aliases (fold add_note_keys paths [])"

fun link_entry :: "index_row \<Rightarrow> link list" where
  "link_entry (LinkRow l) = [l]"
| "link_entry _ = []"

fun alias_entry :: "index_row \<Rightarrow> (string \<times> string) list" where
  "alias_entry (AliasRow a) = [(al_normalized a, al_note_path a)]"
| "alias_entry _ = []"

definition unresolved :: "link \<Rightarrow> bool" where
  "unresolved l \<longleftrightarrow> \<not> lk_resolved l \<and> lk_type l \<noteq> LT_external"

definition unresolved_links :: "index_row list \<Rightarrow> link list" where
  "unresolved_links rows = take 100000 (filter unresolved (concat (map link_entry rows)))"

definition link_updates :: "(string, string) dict \<Rightarrow> link list \<Rightarrow> (link \<times> string) list" where
  "link_updates M links = concat (map (\<lambda>l. case dget M (lk_target_normalized l) of
       Some to_path \<Rightarrow> if to_path = [] then [] else [(l, to_path)] | None \<Rightarrow> []) links)"

definition link_filter :: "link \<Rightarrow> string" where
  "link_filter l =
     ''from_note_path = '' @ sq (escape_sql_string (lk_from_path l)) @
     '' AND link_type = '' @ sq (escape_sql_string (link_type_name (lk_type l))) @
     '' AND link_target = '' @ sq (escape_sql_string (lk_target l))"

fun mark_resolved :: "string \<Rightarrow> index_row \<Rightarrow> index_row" where
  "mark_resolved to_path (LinkRow l) = LinkRow (l\<lparr>lk_to_path := to_path, lk_resolved := True\<rparr>)"
| "mark_resolved to_path r = r"

definition resolve_one :: "string \<Rightarrow> link \<times> string \<Rightarrow> unit ix" where
  "resolve_one t u =
     catch_ix
       (bind_ix (db_call (\<lambda>s. (take 1 (filter (satisfies (link_filter (fst u))) (table_rows s t)), s))) (\<lambda>orig.
          case orig of
            [] \<Rightarrow> return_ix ()
          | r # _ \<Rightarrow> bind_ix (delete_rows t (link_filter (fst u))) (\<lambda>_. add_rows t [mark_resolved (snd u) r])))
       (\<lambda>_. return_ix ())"

fun resolve_each :: "string \<Rightarrow> (link \<times> string) list \<Rightarrow> unit ix" where
  "resolve_each t [] = return_ix ()"
| "resolve_each t (u # us) = bind_ix (resolve_one t u) (\<lambda>_. resolve_each t us)"

text \<open>The three reads that a failure turns into an empty answer; \<open>order\<close> is the order of a set.\<close>

definition read_paths :: "string \<Rightarrow> string list ix" where
  "read_paths t = catch_ix
     (bind_ix (db_call (\<lambda>s. (length (table_rows s t), s))) (\<lambda>total.
        if total = 0 then return_ix [] else db_call (\<lambda>s. (map fst (note_stamps (table_rows s t)), s))))
     (\<lambda>_. return_ix [])"

definition read_aliases :: "string \<Rightarrow> (string \<times> string) list ix" where
  "read_aliases t = catch_ix
     (bind_ix (db_call (\<lambda>s. (length (table_rows s t), s))) (\<lambda>total.
        if total = 0 then return_ix [] else db_call (\<lambda>s. (concat (map alias_entry (table_rows s t)), s))))
     (\<lambda>_. return_ix [])"

definition read_unresolved :: "string \<Rightarrow> link list ix" where
  "read_unresolved t = catch_ix (db_call (\<lambda>s. (unresolved_links (table_rows s t), s))) (\<lambda>_. return_ix [])"

definition resolve_link_targets :: "string \<Rightarrow> (string list \<Rightarrow> string list) \<Rightarrow> nat ix" where
  "resolve_link_targets name order =
     bind_ix ensure_links_table (\<lambda>l.
     bind_ix ensure_aliases_table (\<lambda>a.
     bind_ix (ensure_table name) (\<lambda>t.
     bind_ix (read_paths t) (\<lambda>paths.
       if paths = [] then return_ix 0
       else bind_ix (read_aliases a) (\<lambda>aliases.
         bind_ix (read_unresolved l) (\<lambda>links.
           let updates = link_updates (path_map (order (remdups paths)) aliases) links in
           bind_ix (resolve_each l updates) (\<lambda>_. return_ix (length updates))))))))"


section \<open>The new generation\<close>

definition staging :: "string \<Rightarrow> string" where
  "staging name = name @ ''__reindex_staging''"

definition lift_ix :: "'a result \<Rightarrow> 'a ix" where
  "lift_ix r = (\<lambda>F s. (r, s))"

text \<open>\<open>create_table\<close> with mode \<open>overwrite\<close>, or \<open>create\<close> when there is none.\<close>

definition reset_table :: "string \<Rightarrow> unit ix" where
  "reset_table name = db_call (\<lambda>s. ((),
     case ix_db s name of None \<Rightarrow> set_table name (new_table []) s | Some _ \<Rightarrow> commit_rows name [] s))"

definition list_tables :: "(string \<Rightarrow> bool) ix" where
  "list_tables = db_call (\<lambda>s. (\<lambda>n. ix_db s n \<noteq> None, s))"

definition reset_staging_tables :: "string \<Rightarrow> unit ix" where
  "reset_staging_tables name =
     bind_ix list_tables (\<lambda>_.
     bind_ix (reset_table (staging name)) (\<lambda>_.
     bind_ix (reset_table (staging links_name)) (\<lambda>_. reset_table (staging aliases_name))))"

definition store_staging_batch :: "(string list \<Rightarrow> rat list list result) \<Rightarrow> string \<Rightarrow> chunk list \<Rightarrow> nat ix" where
  "store_staging_batch embed_corpus t batch =
     bind_ix (lift_ix (embed_chunks embed_corpus batch)) (\<lambda>rows.
     bind_ix (add_rows t (map ChunkRow rows)) (\<lambda>_. return_ix (length rows)))"

text \<open>
  The handle of the table and the version it had; the reader counts the rows and is read while
  they are added.
\<close>

definition replace_table_from_staging :: "string \<Rightarrow> string \<Rightarrow> (string \<times> nat option) ix" where
  "replace_table_from_staging name staged =
     bind_ix list_tables (\<lambda>existing.
     bind_ix (db_call (\<lambda>s. (length (table_rows s staged), s))) (\<lambda>total.
     if existing name
     then bind_ix (table_version name) (\<lambda>v.
          bind_ix (db_call (\<lambda>s. ((), commit_rows name (take total (table_rows s staged)) s))) (\<lambda>_.
          return_ix (name, Some v)))
     else bind_ix (db_call (\<lambda>s. ((), set_table name (new_table (take total (table_rows s staged))) s))) (\<lambda>_.
          return_ix (name, None))))"

fun rollback_table :: "string \<times> nat option \<Rightarrow> unit ix" where
  "rollback_table (name, Some v) = restore_table name v"
| "rollback_table (name, None) = db_call (\<lambda>s. ((), commit_rows name [] s))"

text \<open>The tables replaced so far, the latest first, and their restoration.\<close>

type_synonym committed = "(string \<times> nat option) list"

fun replace_all ::
  "(string \<times> string) list \<Rightarrow> committed \<Rightarrow> faults \<Rightarrow> indexer \<Rightarrow> (unit result \<times> committed) \<times> indexer" where
  "replace_all [] done F s = ((Inr (), done), s)"
| "replace_all ((name, staged) # xs) done F s =
     (case replace_table_from_staging name staged F s of
        (Inl e, s) \<Rightarrow> ((Inl e, done), s)
      | (Inr c, s) \<Rightarrow> replace_all xs (c # done) F s)"

fun rollback_all :: "committed \<Rightarrow> unit ix" where
  "rollback_all [] = return_ix ()"
| "rollback_all (c # cs) =
     bind_ix (catch_ix (rollback_table c) (\<lambda>_. return_ix ())) (\<lambda>_. rollback_all cs)"

definition reopen :: "(string \<Rightarrow> bool) \<Rightarrow> string \<Rightarrow> (string option \<Rightarrow> indexer \<Rightarrow> indexer) \<Rightarrow> unit ix" where
  "reopen tables name upd =
     (if tables name then bind_ix (db_call (\<lambda>s. ((), s))) (\<lambda>_. update_ix (upd (Some name))) else update_ix (upd None))"

definition restore_canonical_handles :: "string \<Rightarrow> unit ix" where
  "restore_canonical_handles name =
     bind_ix list_tables (\<lambda>tables.
     bind_ix (reopen tables name (\<lambda>h s. s\<lparr>ix_table := h\<rparr>)) (\<lambda>_.
     bind_ix (reopen tables links_name (\<lambda>h s. s\<lparr>ix_links_table := h\<rparr>)) (\<lambda>_.
     reopen tables aliases_name (\<lambda>h s. s\<lparr>ix_aliases_table := h\<rparr>))))"

section \<open>Collecting the parsed notes\<close>

definition parse_note_task :: "nat \<Rightarrow> parsers \<Rightarrow> string \<Rightarrow> parse_result" where
  "parse_note_task max_chunks P ext =
     (let r = parse_file_result P ext in r\<lparr>pr_chunks := take max_chunks (pr_chunks r)\<rparr>)"

record progress =
  pg_notes :: nat
  pg_chunks :: nat
  pg_errors :: nat
  pg_batch :: "chunk list"
  pg_links :: "link list"
  pg_aliases :: "(string \<times> string list) list"

definition no_progress :: progress where
  "no_progress = \<lparr>pg_notes = 0, pg_chunks = 0, pg_errors = 0, pg_batch = [], pg_links = [], pg_aliases = []\<rparr>"

definition add_result :: "string \<Rightarrow> parse_result \<Rightarrow> progress \<Rightarrow> progress" where
  "add_result path r P = P\<lparr>pg_notes := Suc (pg_notes P), pg_batch := pg_batch P @ pr_chunks r,
     pg_links := pg_links P @ pr_links r,
     pg_aliases := pg_aliases P @ (if pr_aliases r = [] then [] else [(path, pr_aliases r)])\<rparr>"

definition flush_batch ::
  "(string list \<Rightarrow> rat list list result) \<Rightarrow> string \<Rightarrow> nat \<Rightarrow> progress \<Rightarrow> faults \<Rightarrow> indexer
     \<Rightarrow> (unit result \<times> progress) \<times> indexer" where
  "flush_batch embed_corpus t batch_size P F s =
     (if length (pg_batch P) < batch_size then ((Inr (), P), s)
      else case store_staging_batch embed_corpus t (pg_batch P) F s of
          (Inl e, s) \<Rightarrow> ((Inl e, P), s)
        | (Inr n, s) \<Rightarrow> ((Inr (), P\<lparr>pg_chunks := pg_chunks P + n, pg_batch := []\<rparr>), s))"

text \<open>The loop over the completed tasks: whether it was interrupted.\<close>

fun collect ::
  "(string list \<Rightarrow> rat list list result) \<Rightarrow> string \<Rightarrow> nat \<Rightarrow> (nat \<Rightarrow> bool) \<Rightarrow> nat
     \<Rightarrow> (string \<times> parse_result) list \<Rightarrow> progress \<Rightarrow> faults \<Rightarrow> indexer \<Rightarrow> (bool result \<times> progress) \<times> indexer" where
  "collect embed_corpus t batch_size shutdown i [] P F s = ((Inr False, P), s)"
| "collect embed_corpus t batch_size shutdown i ((path, r) # rs) P F s =
     (if shutdown i then ((Inr True, P), s)
      else if pr_status r = Parse_error
      then collect embed_corpus t batch_size shutdown (Suc i) rs (P\<lparr>pg_errors := Suc (pg_errors P)\<rparr>) F s
      else if pr_status r \<noteq> Parse_success then collect embed_corpus t batch_size shutdown (Suc i) rs P F s
      else case flush_batch embed_corpus t batch_size (add_result path r P) F s of
          ((Inl e, P), s) \<Rightarrow> ((Inl e, P), s)
        | ((Inr _, P), s) \<Rightarrow> collect embed_corpus t batch_size shutdown (Suc i) rs P F s)"

fun index_all_aliases :: "(string \<times> string list) list \<Rightarrow> nat ix" where
  "index_all_aliases [] = return_ix 0"
| "index_all_aliases ((path, aliases) # xs) =
     bind_ix (index_aliases path aliases) (\<lambda>n. bind_ix (index_all_aliases xs) (\<lambda>m. return_ix (n + m)))"

definition stage_graph :: "string \<Rightarrow> (string list \<Rightarrow> string list) \<Rightarrow> progress \<Rightarrow> (nat \<times> nat) ix" where
  "stage_graph name order P =
     bind_ix (index_all_aliases (pg_aliases P)) (\<lambda>n_aliases.
     bind_ix (index_links (pg_links P)) (\<lambda>n_links.
     bind_ix (resolve_link_targets name order) (\<lambda>_. return_ix (n_links, n_aliases))))"

section \<open>The complete rebuild\<close>

datatype full_status = Completed | Failed | Interrupted

record full_stats =
  fs_status :: full_status
  fs_total_notes :: nat
  fs_total_chunks :: nat
  fs_parse_errors :: "nat option"
  fs_preserved :: bool
  fs_timed_out :: bool
  fs_indices_skipped :: bool
  fs_total_links :: "nat option"
  fs_total_aliases :: "nat option"
  fs_vector_index_created :: bool

text \<open>The duration is left out of the statistics.\<close>

definition failure_stats :: "string \<Rightarrow> full_status \<Rightarrow> progress \<Rightarrow> full_stats ix" where
  "failure_stats name status P =
     bind_ix (restore_canonical_handles name) (\<lambda>_. return_ix
       \<lparr>fs_status = status, fs_total_notes = pg_notes P, fs_total_chunks = pg_chunks P,
        fs_parse_errors = if_positive (pg_errors P), fs_preserved = True,
        fs_timed_out = (status = Interrupted), fs_indices_skipped = (status = Interrupted),
        fs_total_links = None, fs_total_aliases = None, fs_vector_index_created = False\<rparr>)"

text \<open>
  What one run finds: the memory, the answers of \<open>shutdown_requested\<close>, the models, the parsers
  of each note, the order in which the tasks complete and in which a set of strings is read, and
  the settings of the vector index.
\<close>

record full_env =
  fe_available_ram :: "nat option"
  fe_shutdown :: "nat \<Rightarrow> bool"
  fe_embed :: "string list \<Rightarrow> rat list list result"
  fe_parsers :: "string \<Rightarrow> parsers"
  fe_completed :: "(string \<times> parse_result) list \<Rightarrow> (string \<times> parse_result) list"
  fe_order :: "string list \<Rightarrow> string list"
  fe_vector :: vector_settings
  fe_dimension :: nat
  fe_name_of :: "pyexn \<Rightarrow> string"
  fe_indices :: "table_index list result"

definition parsed_notes :: "index_conf \<Rightarrow> full_env \<Rightarrow> string list \<Rightarrow> (string \<times> parse_result) list" where
  "parsed_notes C E paths = fe_completed E (map (\<lambda>p.
     (p, parse_note_task (xc_max_chunks C) (fe_parsers E p) (rel_suffix p))) paths)"

text \<open>
  The first \<open>try\<close>: its value is the answer of an early return, or the numbers of links and
  aliases of the generation; a failure keeps the counters reached.
\<close>

definition or_fail :: "'a ix \<Rightarrow> progress \<Rightarrow> faults \<Rightarrow> indexer \<Rightarrow> ('a result \<times> progress) \<times> indexer" where
  "or_fail m P F s = (case m F s of (r, s) \<Rightarrow> ((r, P), s))"

definition stage_rest ::
  "string \<Rightarrow> full_env \<Rightarrow> progress \<Rightarrow> faults \<Rightarrow> indexer
     \<Rightarrow> ((full_stats + nat \<times> nat) result \<times> progress) \<times> indexer" where
  "stage_rest name E P F s =
     (case flush_batch (fe_embed E) (staging name) 1 P F s of
        ((Inl e, P), s) \<Rightarrow> ((Inl e, P), s)
      | ((Inr _, P), s) \<Rightarrow>
          if pg_errors P \<noteq> 0 then or_fail (bind_ix (failure_stats name Failed P) (\<lambda>x. return_ix (Inl x))) P F s
          else or_fail (bind_ix (stage_graph name (fe_order E) P) (\<lambda>x. return_ix (Inr x))) P F s)"

definition stage_generation ::
  "index_conf \<Rightarrow> full_env \<Rightarrow> string list \<Rightarrow> faults \<Rightarrow> indexer
     \<Rightarrow> ((full_stats + nat \<times> nat) result \<times> progress) \<times> indexer" where
  "stage_generation C E paths F s =
     (let name = xc_chunks_name C in
      case reset_staging_tables name F s of
        (Inl e, s) \<Rightarrow> ((Inl e, no_progress), s)
      | (Inr _, s) \<Rightarrow>
          case collect (fe_embed E) (staging name) (get_optimal_batch_size (fe_available_ram E)) (fe_shutdown E) 0
              (parsed_notes C E paths) no_progress F
              (s\<lparr>ix_table := Some (staging name), ix_links_table := Some (staging links_name),
                 ix_aliases_table := Some (staging aliases_name)\<rparr>) of
            ((Inl e, P), s) \<Rightarrow> ((Inl e, P), s)
          | ((Inr True, P), s) \<Rightarrow> or_fail (bind_ix (failure_stats name Interrupted P) (\<lambda>x. return_ix (Inl x))) P F s
          | ((Inr False, P), s) \<Rightarrow> stage_rest name E P F s)"

text \<open>After the publication: the handles, the indexes, whose failures are caught, and the answer.\<close>

definition finish_generation ::
  "index_conf \<Rightarrow> full_env \<Rightarrow> progress \<Rightarrow> nat \<times> nat \<Rightarrow> faults \<Rightarrow> indexer \<Rightarrow> full_stats \<times> indexer" where
  "finish_generation C E P n F s =
     (let s = s\<lparr>ix_table := Some (xc_chunks_name C), ix_links_table := Some links_name,
        ix_aliases_table := Some aliases_name\<rparr>;
        s = snd (db_call (\<lambda>s. ((), s)) F s);
        s = snd (db_call (\<lambda>s. ((), s)) F s) in
      case maybe_create_vector_index (fe_vector E) (fe_dimension E) (fe_name_of E) (fe_indices E) True F s of
        ((created, _), s) \<Rightarrow>
          (\<lparr>fs_status = Completed, fs_total_notes = pg_notes P, fs_total_chunks = pg_chunks P,
            fs_parse_errors = None, fs_preserved = False, fs_timed_out = False, fs_indices_skipped = False,
            fs_total_links = if_positive (fst n), fs_total_aliases = if_positive (snd n),
            fs_vector_index_created = created\<rparr>, s\<lparr>ix_operations := 0\<rparr>))"

definition reindex_all :: "index_conf \<Rightarrow> full_env \<Rightarrow> string list \<Rightarrow> full_stats ix" where
  "reindex_all C E paths F s =
     (let name = xc_chunks_name C in
      case stage_generation C E paths F s of
        ((Inl e, P), s) \<Rightarrow> failure_stats name Failed P F s
      | ((Inr (Inl st), P), s) \<Rightarrow> (Inr st, s)
      | ((Inr (Inr n), P), s) \<Rightarrow>
          case replace_all [(links_name, staging links_name), (aliases_name, staging aliases_name),
              (name, staging name)] [] F s of
            ((Inl e, done), s) \<Rightarrow> failure_stats name Failed P F (snd (rollback_all done F s))
          | ((Inr _, _), s) \<Rightarrow> (case finish_generation C E P n F s of (st, s) \<Rightarrow> (Inr st, s)))"

definition full_reindex ::
  "index_conf \<Rightarrow> full_env \<Rightarrow> path \<Rightarrow> path \<Rightarrow> string list \<Rightarrow> scan_entry list \<Rightarrow> bool
     \<Rightarrow> (reindex_preview + full_stats) ix" where
  "full_reindex C E vault resolved_vault ignored entries dry_run =
     (let found = scan_vault resolved_vault (xc_extensions C) ignored entries in
      if dry_run then return_ix (Inl (reindex_preview_of found (fe_available_ram E)))
      else bind_ix (reindex_all C E (map (\<lambda>e. py_join ''/'' (drop (length vault) (se_parts e))) found))
        (\<lambda>st. return_ix (Inr st)))"


section \<open>What the staging phase leaves alone\<close>

definition handles :: "indexer \<Rightarrow> string option \<times> string option \<times> string option" where
  "handles s = (ix_table s, ix_links_table s, ix_aliases_table s)"

text \<open>From \<open>s\<close> to \<open>s'\<close> only tables of \<open>A\<close> change, and none disappears.\<close>

definition confined :: "string set \<Rightarrow> indexer \<Rightarrow> indexer \<Rightarrow> bool" where
  "confined A s s' \<longleftrightarrow> ix_calls s \<le> ix_calls s' \<and> (\<forall>n. n \<notin> A \<longrightarrow> ix_db s' n = ix_db s n) \<and>
     (\<forall>n. ix_db s n \<noteq> None \<longrightarrow> ix_db s' n \<noteq> None)"

lemma confined_refl [simp]: "confined A s s"
  by (simp add: confined_def)

lemma confined_trans: "confined A s s' \<Longrightarrow> confined A s' s'' \<Longrightarrow> confined A s s''"
  by (auto simp: confined_def)

lemma confined_mono: "confined A s s' \<Longrightarrow> A \<subseteq> B \<Longrightarrow> confined B s s'"
  by (auto simp: confined_def)

lemma confined_rows: "confined A s s' \<Longrightarrow> n \<notin> A \<Longrightarrow> table_rows s' n = table_rows s n"
  by (simp add: confined_def table_rows_def)

text \<open>An operation under the handles \<open>h\<close> that keeps them and changes only \<open>A\<close>; it raises at a fault only.\<close>

definition keeps_in :: "string option \<times> string option \<times> string option \<Rightarrow> string set \<Rightarrow> 'a ix \<Rightarrow> bool" where
  "keeps_in h A m \<longleftrightarrow> (\<forall>F s r s'. handles s = h \<longrightarrow> m F s = (r, s') \<longrightarrow> confined A s s' \<and> handles s' = h)"

lemma keeps_in_call:
  assumes "\<And>s. handles (snd (f s)) = handles s \<and> confined A s (snd (f s))"
  shows "keeps_in h A (db_call f)"
  unfolding keeps_in_def
proof (intro allI impI)
  fix F s r s'
  assume h: "handles s = h" and run: "db_call f F s = (r, s')"
  let ?s = "s\<lparr>ix_calls := Suc (ix_calls s)\<rparr>"
  have same: "confined A s ?s" "handles ?s = handles s" by (simp_all add: confined_def handles_def)
  from run have "s' = ?s \<or> s' = snd (f ?s)" by (auto simp: db_call_def Let_def split: option.splits prod.splits)
  with same assms [of ?s] h show "confined A s s' \<and> handles s' = h" by (auto intro: confined_trans)
qed

lemma keeps_in_D: "keeps_in h A m \<Longrightarrow> handles s = h \<Longrightarrow> m F s = (r, s') \<Longrightarrow> confined A s s' \<and> handles s' = h"
  unfolding keeps_in_def by blast

lemma keeps_in_pure: "keeps_in h A (return_ix x)" "keeps_in h A (lift_ix r)" "keeps_in h A (db_call (\<lambda>s. (f s, s)))"
proof -
  show "keeps_in h A (db_call (\<lambda>s. (f s, s)))" by (rule keeps_in_call) simp
qed (simp_all add: keeps_in_def return_ix_def lift_ix_def)

lemma keeps_in_bind:
  assumes "keeps_in h A m" and "\<And>x. keeps_in h A (f x)"
  shows "keeps_in h A (bind_ix m f)"
  unfolding keeps_in_def
proof (intro allI impI)
  fix F s r s'
  assume h: "handles s = h" and run: "bind_ix m f F s = (r, s')"
  obtain r1 s1 where m: "m F s = (r1, s1)" by fastforce
  note one = keeps_in_D [OF assms(1) h m]
  show "confined A s s' \<and> handles s' = h"
  proof (cases r1)
    case (Inl e)
    with run m one show ?thesis by (simp add: bind_ix_def)
  next
    case (Inr x)
    with run m have "f x F s1 = (r, s')" by (simp add: bind_ix_def)
    from keeps_in_D [OF assms(2) _ this] one show ?thesis by (blast intro: confined_trans)
  qed
qed

lemma keeps_in_catch:
  assumes "keeps_in h A m" and "\<And>x. keeps_in h A (f x)"
  shows "keeps_in h A (catch_ix m f)"
  unfolding keeps_in_def
proof (intro allI impI)
  fix F s r s'
  assume h: "handles s = h" and run: "catch_ix m f F s = (r, s')"
  obtain r1 s1 where m: "m F s = (r1, s1)" by fastforce
  note one = keeps_in_D [OF assms(1) h m]
  show "confined A s s' \<and> handles s' = h"
  proof (cases r1)
    case (Inr e)
    with run m one show ?thesis by (simp add: catch_ix_def)
  next
    case (Inl x)
    with run m have "f x F s1 = (r, s')" by (simp add: catch_ix_def)
    from keeps_in_D [OF assms(2) _ this] one show ?thesis by (blast intro: confined_trans)
  qed
qed

lemma keeps_in_when: "keeps_in h A m \<Longrightarrow> keeps_in h A (when_ix b m)"
  by (simp add: when_ix_def keeps_in_pure)

lemma keeps_in_mono: "keeps_in h A m \<Longrightarrow> A \<subseteq> B \<Longrightarrow> keeps_in h B m"
  unfolding keeps_in_def using confined_mono by blast

lemma commit_confined: "confined {n} s (commit_rows n rs s)" "handles (commit_rows n rs s) = handles s"
  "ix_calls (commit_rows n rs s) = ix_calls s"
  by (auto simp: commit_rows_def set_table_def confined_def handles_def split: option.splits)

lemma set_confined: "confined {n} s (set_table n t s)" "handles (set_table n t s) = handles s"
  "ix_calls (set_table n t s) = ix_calls s"
  by (auto simp: set_table_def confined_def handles_def)

lemma keeps_in_tables:
  "keeps_in h {n} (add_rows n rs)" "keeps_in h {n} (delete_rows n w)" "keeps_in h {n} (reset_table n)"
  unfolding add_rows_def delete_rows_def reset_table_def
  by (rule keeps_in_call, use commit_confined set_confined in \<open>auto split: option.splits\<close>)+

text \<open>The handles of the staging phase, and its operations.\<close>

definition staged_handles :: "string \<Rightarrow> string option \<times> string option \<times> string option" where
  "staged_handles name = (Some (staging name), Some (staging links_name), Some (staging aliases_name))"

definition staged_names :: "string \<Rightarrow> string set" where
  "staged_names name = {staging name, staging links_name, staging aliases_name}"

lemma staged_ensure:
  assumes "handles s = staged_handles name"
  shows "ensure_table n F s = (Inr (staging name), s)" and "ensure_links_table F s = (Inr (staging links_name), s)"
    and "ensure_aliases_table F s = (Inr (staging aliases_name), s)"
  using assms by (simp_all add: handles_def staged_handles_def ensure_table_def ensure_links_table_def ensure_aliases_table_def)

lemma keeps_in_ensure:
  assumes "h = staged_handles name"
  shows "(\<And>t. t = staging links_name \<Longrightarrow> keeps_in h A (f t)) \<Longrightarrow> keeps_in h A (bind_ix ensure_links_table f)"
    and "(\<And>t. t = staging aliases_name \<Longrightarrow> keeps_in h A (g t)) \<Longrightarrow> keeps_in h A (bind_ix ensure_aliases_table g)"
    and "(\<And>t. t = staging name \<Longrightarrow> keeps_in h A (k t)) \<Longrightarrow> keeps_in h A (bind_ix (ensure_table n) k)"
  using assms by (auto simp: keeps_in_def bind_ix_def staged_ensure)

lemma keeps_in_resolve_one: "keeps_in h {t} (resolve_one t u)"
  unfolding resolve_one_def
  by (intro keeps_in_catch keeps_in_bind keeps_in_pure)
    (auto split: list.splits intro!: keeps_in_pure keeps_in_bind keeps_in_tables)

lemma keeps_in_resolve_each: "keeps_in h {t} (resolve_each t us)"
  by (induction us) (simp_all add: keeps_in_pure keeps_in_bind keeps_in_resolve_one)

lemma keeps_in_reads: "keeps_in h A (read_paths t)" "keeps_in h A (read_aliases t)" "keeps_in h A (read_unresolved t)"
  unfolding read_paths_def read_aliases_def read_unresolved_def
  by (auto intro!: keeps_in_catch keeps_in_bind keeps_in_pure)

lemma keeps_in_resolve:
  "keeps_in (staged_handles name) {staging links_name} (resolve_link_targets name order)"
  unfolding resolve_link_targets_def
  by (intro keeps_in_ensure [OF refl] keeps_in_bind keeps_in_reads)
    (auto simp: Let_def intro!: keeps_in_ensure [OF refl] keeps_in_bind keeps_in_reads keeps_in_pure keeps_in_resolve_each)

lemma keeps_in_index_links: "keeps_in (staged_handles name) {staging links_name} (index_links links)"
  unfolding index_links_def
  by (auto intro!: keeps_in_ensure [OF refl] keeps_in_bind keeps_in_pure keeps_in_tables)

lemma keeps_in_index_aliases: "keeps_in (staged_handles name) {staging aliases_name} (index_aliases p al)"
  unfolding index_aliases_def
  by (auto simp: Let_def intro!: keeps_in_ensure [OF refl] keeps_in_bind keeps_in_pure keeps_in_when keeps_in_tables)

lemma keeps_in_index_all: "keeps_in (staged_handles name) {staging aliases_name} (index_all_aliases xs)"
  by (induction xs rule: index_all_aliases.induct)
    (auto intro!: keeps_in_bind keeps_in_pure keeps_in_index_aliases)

lemma keeps_in_graph: "keeps_in (staged_handles name) (staged_names name) (stage_graph name order P)"
  unfolding stage_graph_def
  by (intro keeps_in_bind keeps_in_pure keeps_in_mono [OF keeps_in_index_all] keeps_in_mono [OF keeps_in_index_links]
      keeps_in_mono [OF keeps_in_resolve]) (auto simp: staged_names_def)

lemma keeps_in_store: "keeps_in h {t} (store_staging_batch f t batch)"
  unfolding store_staging_batch_def by (intro keeps_in_bind keeps_in_pure keeps_in_tables)


lemma confined_store:
  "store_staging_batch f t batch F s = (r, s') \<Longrightarrow> confined {t} s s' \<and> handles s' = handles s"
  using keeps_in_D [OF keeps_in_store refl] by blast

lemma confined_flush:
  "flush_batch f t b P F s = ((r, P'), s') \<Longrightarrow> confined {t} s s' \<and> handles s' = handles s"
  by (auto simp: flush_batch_def split: if_splits prod.splits sum.splits dest: confined_store)

lemma confined_collect:
  "collect f t b sh i rs P F s = ((r, P'), s') \<Longrightarrow> confined {t} s s' \<and> handles s' = handles s"
proof (induction f t b sh i rs P F s rule: collect.induct)
  case (2 f t b sh i path q rs P F s)
  obtain r1 P1 s1 where fl: "flush_batch f t b (add_result path q P) F s = ((r1, P1), s1)" by (metis prod.exhaust)
  note one = confined_flush [OF fl]
  show ?case
  proof (cases "sh i \<or> pr_status q = Parse_error \<or> pr_status q \<noteq> Parse_success")
    case True
    with 2 show ?thesis by (auto split: if_splits)
  next
    case False
    then have ok: "\<not> sh i" "pr_status q \<noteq> Parse_error" "\<not> pr_status q \<noteq> Parse_success" by auto
    show ?thesis
    proof (cases r1)
      case (Inl e)
      with 2(4) ok fl one show ?thesis by simp
    next
      case (Inr u)
      with 2(4) ok fl have "collect f t b sh (Suc i) rs P1 F s1 = ((r, P'), s')" by simp
      with 2(3) [OF ok fl [symmetric] refl] Inr one show ?thesis by (auto intro: confined_trans)
    qed
  qed
qed simp

lemma confined_call: "db_call (\<lambda>s. (f s, s)) F s = (r, s') \<Longrightarrow> confined {} s s' \<and> handles s' = handles s"
  using keeps_in_D [OF keeps_in_pure(3) refl] by blast

lemma confined_bind:
  assumes "bind_ix m f F s = (r, s')" and "\<And>r s'. m F s = (r, s') \<Longrightarrow> confined A s s'"
    and "\<And>x s1 r s'. f x F s1 = (r, s') \<Longrightarrow> confined A s1 s'"
  shows "confined A s s'"
  using assms(1) by (auto simp: bind_ix_def split: prod.splits sum.splits intro: confined_trans dest: assms(2,3))

lemma confined_reset: "reset_staging_tables name F s = (r, s') \<Longrightarrow> confined (staged_names name) s s'"
proof -
  have "keeps_in (handles s) (staged_names name) (reset_staging_tables name)"
    unfolding reset_staging_tables_def list_tables_def
    by (intro keeps_in_bind keeps_in_pure) (auto simp: staged_names_def intro: keeps_in_mono [OF keeps_in_tables(3)])
  then show "reset_staging_tables name F s = (r, s') \<Longrightarrow> confined (staged_names name) s s'"
    using keeps_in_D by blast
qed

text \<open>An operation that changes no table, whatever the handles.\<close>

definition rowless :: "'a ix \<Rightarrow> bool" where
  "rowless m \<longleftrightarrow> (\<forall>F s r s'. m F s = (r, s') \<longrightarrow> confined {} s s')"

lemma rowless_D: "rowless m \<Longrightarrow> m F s = (r, s') \<Longrightarrow> confined {} s s'"
  unfolding rowless_def by blast

lemma rowless_bind: "rowless m \<Longrightarrow> (\<And>x. rowless (f x)) \<Longrightarrow> rowless (bind_ix m f)"
  unfolding rowless_def using confined_bind by metis

lemma rowless_basic: "rowless (return_ix x)" "rowless (db_call (\<lambda>s. (f s, s)))"
  by (auto simp: rowless_def return_ix_def dest: confined_call)

lemma rowless_update: "(\<And>s. ix_db (f s) = ix_db s \<and> ix_calls (f s) = ix_calls s) \<Longrightarrow> rowless (update_ix f)"
  by (auto simp: rowless_def update_ix_def confined_def)

lemma rowless_reopen:
  "(\<And>h s. ix_db (upd h s) = ix_db s \<and> ix_calls (upd h s) = ix_calls s) \<Longrightarrow> rowless (reopen tables n upd)"
  by (auto simp: reopen_def intro!: rowless_bind rowless_basic rowless_update)

lemma rowless_failure: "rowless (failure_stats name st P)"
  unfolding failure_stats_def restore_canonical_handles_def list_tables_def
  by (intro rowless_bind rowless_basic rowless_reopen) simp_all


lemma confined_generation:
  assumes "stage_generation C E paths F s = ((r, P), s')"
  shows "confined (staged_names (xc_chunks_name C)) s s'"
proof -
  let ?name = "xc_chunks_name C"
  let ?A = "staged_names ?name"
  let ?b = "get_optimal_batch_size (fe_available_ram E)"
  have sub: "confined {staging ?name} s1 s2 \<Longrightarrow> confined ?A s1 s2" and none: "confined {} s1 s2 \<Longrightarrow> confined ?A s1 s2" for s1 s2
    by (auto simp: staged_names_def intro: confined_mono)
  have fail: "or_fail (bind_ix (failure_stats ?name st P) (\<lambda>x. return_ix (Inl x))) P F s1 = ((r, P'), s2) \<Longrightarrow> confined ?A s1 s2"
    for st P P' F s1 s2 and r :: "(full_stats + nat \<times> nat) result"
    using rowless_D [OF rowless_bind [OF rowless_failure rowless_basic(1)]] none by (fastforce simp: or_fail_def split: prod.splits)
  obtain r0 s0 where reset: "reset_staging_tables ?name F s = (r0, s0)" by fastforce
  note base = confined_reset [OF reset]
  show ?thesis
  proof (cases r0)
    case (Inl e)
    with assms reset base show ?thesis by (simp add: stage_generation_def)
  next
    case (Inr u)
    let ?s = "s0\<lparr>ix_table := Some (staging ?name), ix_links_table := Some (staging links_name), ix_aliases_table := Some (staging aliases_name)\<rparr>"
    have one: "confined ?A s ?s" using base by (simp add: confined_def)
    obtain r1 P1 s1 where col: "collect (fe_embed E) (staging ?name) ?b (fe_shutdown E) 0 (parsed_notes C E paths) no_progress F ?s = ((r1, P1), s1)"
      by (metis prod.exhaust)
    have hs: "handles ?s = staged_handles ?name" by (simp add: handles_def staged_handles_def)
    from confined_collect [OF col] hs have two: "confined ?A ?s s1" "handles s1 = staged_handles ?name" using sub by auto
    consider (bad) e where "r1 = Inl e" | (cut) "r1 = Inr True" | (rest) "r1 = Inr False" by (cases r1) auto
    then have "confined ?A s1 s'"
    proof cases
      case bad
      with assms reset Inr col show ?thesis by (simp add: stage_generation_def)
    next
      case cut
      with assms reset Inr col fail show ?thesis by (simp add: stage_generation_def)
    next
      case rest
      with assms reset Inr col have run: "stage_rest ?name E P1 F s1 = ((r, P), s')" by (simp add: stage_generation_def)
      obtain r2 P2 s2 where fl: "flush_batch (fe_embed E) (staging ?name) 1 P1 F s1 = ((r2, P2), s2)" by (metis prod.exhaust)
      from confined_flush [OF fl] two(2) have three: "confined ?A s1 s2" "handles s2 = staged_handles ?name" using sub by auto
      have graph: "or_fail (bind_ix (stage_graph ?name (fe_order E) P2) (\<lambda>x. return_ix (Inr x))) P2 F s2 = ((r, P), s') \<Longrightarrow> confined ?A s2 s'"
        using keeps_in_D [OF keeps_in_bind [OF keeps_in_graph keeps_in_pure(1)] three(2)] by (fastforce simp: or_fail_def split: prod.splits)
      show ?thesis
      proof (cases r2)
        case (Inl e)
        with run fl three show ?thesis by (simp add: stage_rest_def)
      next
        case (Inr u)
        with run fl fail graph three(1) show ?thesis by (auto simp: stage_rest_def split: if_splits intro: confined_trans)
      qed
    qed
    with one two(1) show ?thesis by (blast intro: confined_trans)
  qed
qed

section \<open>Publication and its restoration\<close>

text \<open>Restoring the tables of \<open>done\<close> gives the rows of \<open>s0\<close>; the others have them.\<close>

definition saved :: "(string \<Rightarrow> index_row list) \<Rightarrow> indexer \<Rightarrow> string \<times> nat option \<Rightarrow> bool" where
  "saved rows s c \<longleftrightarrow> (case snd c of
       None \<Rightarrow> rows (fst c) = [] \<and> ix_db s (fst c) \<noteq> None
     | Some v \<Rightarrow> \<exists>t. ix_db s (fst c) = Some t \<and> vt.undone v t (rows (fst c)))"

definition restorable :: "(string \<Rightarrow> index_row list) \<Rightarrow> committed \<Rightarrow> string set \<Rightarrow> indexer \<Rightarrow> bool" where
  "restorable rows done A s \<longleftrightarrow> distinct (map fst done) \<and> (\<forall>c \<in> set done. saved rows s c) \<and>
     (\<forall>n. n \<notin> A \<longrightarrow> n \<notin> fst ` set done \<longrightarrow> table_rows s n = rows n)"

lemma saved_same: "ix_db s' (fst c) = ix_db s (fst c) \<Longrightarrow> saved rows s' c = saved rows s c"
  by (cases "snd c") (simp_all add: saved_def)

lemma saved_rows: "rows' (fst c) = rows (fst c) \<Longrightarrow> saved rows' s c = saved rows s c"
  by (cases "snd c") (simp_all add: saved_def)

lemma rollback_quiet:
  assumes "F (ix_calls s) = None" and "saved rows s c"
  shows "\<exists>s'. catch_ix (rollback_table c) (\<lambda>_. return_ix ()) F s = (Inr (), s') \<and>
    ix_calls s' = Suc (ix_calls s) \<and> table_rows s' (fst c) = rows (fst c) \<and> (\<forall>m. m \<noteq> fst c \<longrightarrow> ix_db s' m = ix_db s m)"
proof -
  obtain n v where c: "c = (n, v)" by fastforce
  show ?thesis
  proof (cases v)
    case None
    with assms c show ?thesis
      by (auto simp: saved_def catch_ix_def db_call_def commit_rows_def set_table_def table_rows_def vt_commit_def)
  next
    case (Some w)
    with assms(2) c obtain t where t: "ix_db s n = Some t" "vt.undone w t (rows n)" by (auto simp: saved_def)
    with assms(1) c Some vt.undone_restore [OF t(2)] show ?thesis
      by (auto simp: catch_ix_def restore_table_quiet set_table_def table_rows_def)
  qed
qed

lemma rollback_all_restores:
  "restorable rows done A s \<Longrightarrow> \<forall>k \<ge> ix_calls s. F k = None \<Longrightarrow> n \<notin> A \<Longrightarrow>
     table_rows (snd (rollback_all done F s)) n = rows n"
proof (induction "done" arbitrary: s)
  case Nil
  then show ?case by (simp add: restorable_def return_ix_def)
next
  case (Cons c cs)
  have quiet: "F (ix_calls s) = None" using Cons.prems(2) by simp
  have ok: "saved rows s c" "fst c \<notin> fst ` set cs" "distinct (map fst cs)" "\<And>x. x \<in> set cs \<Longrightarrow> saved rows s x"
    "\<And>m. m \<notin> A \<Longrightarrow> m \<noteq> fst c \<Longrightarrow> m \<notin> fst ` set cs \<Longrightarrow> table_rows s m = rows m"
    using Cons.prems(1) by (auto simp: restorable_def)
  obtain s1 where one: "catch_ix (rollback_table c) (\<lambda>_. return_ix ()) F s = (Inr (), s1)"
    "ix_calls s1 = Suc (ix_calls s)" "table_rows s1 (fst c) = rows (fst c)"
    "\<And>m. m \<noteq> fst c \<Longrightarrow> ix_db s1 m = ix_db s m"
    using rollback_quiet [where F = F and s = s, OF quiet ok(1)] by blast
  have "saved rows s1 x" if "x \<in> set cs" for x
  proof -
    have "fst x \<noteq> fst c" using that ok(2) by (metis imageI)
    then show ?thesis using ok(4) [OF that] saved_same one(4) by metis
  qed
  moreover have "table_rows s1 m = rows m" if "m \<notin> A" "m \<notin> fst ` set cs" for m
    using that one(3,4) ok(5) by (cases "m = fst c") (auto simp: table_rows_def)
  ultimately have "restorable rows cs A s1" using ok(3) by (simp add: restorable_def)
  moreover have "\<forall>k \<ge> ix_calls s1. F k = None" using Cons.prems(2) one(2) by simp
  ultimately show ?case using Cons.IH Cons.prems(3) one(1) by (simp add: bind_ix_def)
qed

lemma faultedI: "F k = Some e \<Longrightarrow> ix_calls s \<le> k \<Longrightarrow> k < ix_calls s' \<Longrightarrow> faulted F s s'"
  by (auto simp: faulted_def)

text \<open>One publication: at a fault the table is as it was, else it has the staged rows and is saved.\<close>

lemma replace_table_run:
  assumes "replace_table_from_staging n st F s = (r, s')" and "n \<noteq> st"
  shows "confined {n} s s' \<and> (case r of
       Inl e \<Rightarrow> faulted F s s' \<and> ix_db s' = ix_db s
     | Inr c \<Rightarrow> fst c = n \<and> table_rows s' n = table_rows s st \<and> saved (table_rows s) s' c)"
proof (cases "ix_db s n")
  case None
  with assms show ?thesis
    by (auto simp: replace_table_from_staging_def list_tables_def bind_ix_def db_call_def Let_def set_table_def table_rows_def
        return_ix_def confined_def saved_def new_table_def split: option.splits) (rule faultedI, assumption, simp, simp)+
next
  case (Some t)
  with assms vt.undone_commit [OF vt.undone_now [of t]] show ?thesis
    by (auto simp: replace_table_from_staging_def list_tables_def bind_ix_def db_call_def Let_def set_table_def table_rows_def
        return_ix_def confined_def saved_def table_version_def commit_rows_def vt_commit_def split: option.splits) (rule faultedI, assumption, simp, simp)+
qed


lemma replace_all_run:
  assumes "replace_all xs done F s = ((r, d), s')" and "restorable rows done A s" and "distinct (map fst xs)"
    and "fst ` set xs \<inter> A = {}" and "snd ` set xs \<subseteq> A" and "fst ` set xs \<inter> fst ` set done = {}"
  shows "confined (fst ` set xs) s s' \<and> restorable rows d A s' \<and>
    (case r of Inl e \<Rightarrow> faulted F s s' | Inr _ \<Rightarrow> \<forall>x \<in> set xs. table_rows s' (fst x) = table_rows s (snd x))"
  using assms
proof (induction xs "done" F s rule: replace_all.induct)
  case (1 "done" F s)
  then show ?case by auto
next
  case (2 n st xs "done" F s)
  obtain r1 s1 where one: "replace_table_from_staging n st F s = (r1, s1)" by fastforce
  have apart: "n \<noteq> st" "n \<notin> A" "st \<in> A" "n \<notin> fst ` set done" "n \<notin> fst ` set xs" using 2(4-7) by auto
  note run = replace_table_run [OF one apart(1)]
  show ?case
  proof (cases r1)
    case (Inl e)
    with run 2(2) one have res: "r = Inl e" "d = done" "s' = s1" "ix_db s1 = ix_db s" "faulted F s s1" "ix_calls s \<le> ix_calls s1"
      by (auto simp: confined_def)
    then have "table_rows s1 = table_rows s" by (simp add: table_rows_def fun_eq_iff)
    moreover have "saved rows s1 x = saved rows s x" for x using res(4) by (intro saved_same) simp
    ultimately show ?thesis using res 2(3) by (simp add: restorable_def confined_def)
  next
    case (Inr c)
    with run have c: "confined {n} s s1" "fst c = n" "table_rows s1 n = table_rows s st" "saved (table_rows s) s1 c" by auto
    have "table_rows s n = rows n" using 2(3) apart by (simp add: restorable_def)
    with c(2,4) saved_rows [of "table_rows s" c rows] have "saved rows s1 c" by simp
    moreover have "saved rows s1 x" if "x \<in> set done" for x
    proof -
      have "fst x \<noteq> n" using that apart(4) by (metis imageI)
      then have "ix_db s1 (fst x) = ix_db s (fst x)" using c(1) by (simp add: confined_def)
      from saved_same [OF this] 2(3) that show ?thesis by (simp add: restorable_def)
    qed
    ultimately have ready: "restorable rows (c # done) A s1"
      using 2(3) c(1,2) apart(4) confined_rows [OF c(1)] by (auto simp: restorable_def)
    have rest: "replace_all xs (c # done) F s1 = ((r, d), s')" using 2(2) one Inr by simp
    have side: "distinct (map fst xs)" "fst ` set xs \<inter> A = {}" "snd ` set xs \<subseteq> A" "fst ` set xs \<inter> fst ` set (c # done) = {}"
      using 2(4-7) apart(5) c(2) by auto
    from 2(1) [OF one [symmetric] Inr rest ready side]
    have IH: "confined (fst ` set xs) s1 s'" "restorable rows d A s'"
      "case r of Inl e \<Rightarrow> faulted F s1 s' | Inr _ \<Rightarrow> \<forall>x \<in> set xs. table_rows s' (fst x) = table_rows s1 (snd x)" by auto
    have "confined (fst ` set ((n, st) # xs)) s s1" by (rule confined_mono [OF c(1)]) simp
    moreover have "confined (fst ` set ((n, st) # xs)) s1 s'" by (rule confined_mono [OF IH(1)]) auto
    ultimately have conf: "confined (fst ` set ((n, st) # xs)) s s'" by (rule confined_trans)
    have fault: "faulted F s s'" if "faulted F s1 s'"
      using that c(1) by (auto simp: faulted_def confined_def) (meson le_trans)
    have head: "table_rows s' n = table_rows s st" using confined_rows [OF IH(1) apart(5)] c(3) by simp
    have tail: "table_rows s1 (snd x) = table_rows s (snd x)" if "x \<in> set xs" for x
    proof -
      from that 2(6) apart(2) have "snd x \<notin> {n}" by auto
      with confined_rows [OF c(1)] show ?thesis by blast
    qed
    show ?thesis
    proof (cases r)
      case (Inl e)
      with IH(3) conf IH(2) fault show ?thesis by simp
    next
      case (Inr u)
      with IH(3) conf IH(2) head tail show ?thesis by simp
    qed
  qed
qed

lemma confined_all: "confined {} s s' \<Longrightarrow> table_rows s' = table_rows s"
  by (simp add: confined_def table_rows_def fun_eq_iff)

lemma rowless_rows: "rowless m \<Longrightarrow> table_rows (snd (m F s)) = table_rows s"
  using confined_all rowless_D [of m F s "fst (m F s)" "snd (m F s)"] by simp

lemma rowless_index: "rowless (index_creation V dimension skip total_chunks)"
  by (auto simp: index_creation_def split: option.splits intro!: rowless_bind rowless_basic)

lemma create_index_rows:
  "table_rows (snd (maybe_create_vector_index V dimension name_of indices b F s)) = table_rows s"
proof (cases "ix_table s")
  case None
  then show ?thesis by (simp add: maybe_create_vector_index_def)
next
  case (Some t)
  let ?m = "bind_ix (db_call (\<lambda>s. (length (table_rows s t), s))) (index_creation V dimension (has_vector_index indices s \<and> \<not> b))"
  have "snd (maybe_create_vector_index V dimension name_of indices b F s) = snd (?m F s)"
    using Some by (simp add: maybe_create_vector_index_def split: prod.splits sum.splits)
  moreover have "rowless ?m" by (intro rowless_bind rowless_basic rowless_index)
  ultimately show ?thesis using rowless_rows by simp
qed

lemma finish_rows:
  assumes "finish_generation C E P n F s = (st, s')"
  shows "table_rows s' = table_rows s \<and> fs_status st = Completed"
proof -
  have call: "table_rows (snd (db_call (\<lambda>s. ((), s)) F s0)) = table_rows s0" for s0
    by (rule rowless_rows [OF rowless_basic(2)])
  let ?s = "s\<lparr>ix_table := Some (xc_chunks_name C), ix_links_table := Some links_name, ix_aliases_table := Some aliases_name\<rparr>"
  let ?s2 = "snd (db_call (\<lambda>s. ((), s)) F (snd (db_call (\<lambda>s. ((), s)) F ?s)))"
  obtain b r s3 where m: "maybe_create_vector_index (fe_vector E) (fe_dimension E) (fe_name_of E) (fe_indices E) True F ?s2 = ((b, r), s3)"
    by (metis prod.exhaust)
  have "table_rows ?s = table_rows s" by (simp add: table_rows_def fun_eq_iff)
  then have "table_rows ?s2 = table_rows s" by (simp only: call)
  then have "table_rows s3 = table_rows s"
    using create_index_rows [of "fe_vector E" "fe_dimension E" "fe_name_of E" "fe_indices E" True F ?s2] unfolding m by simp
  moreover have "s' = s3\<lparr>ix_operations := 0\<rparr>" "fs_status st = Completed"
    using assms m by (auto simp: finish_generation_def Let_def)
  ultimately show ?thesis by simp
qed

section \<open>The rebuild replaces the index as a whole\<close>

definition apart_names :: "index_conf \<Rightarrow> bool" where
  "apart_names C \<longleftrightarrow> distinct [xc_chunks_name C, links_name, aliases_name,
     staging (xc_chunks_name C), staging links_name, staging aliases_name]"

lemma published_names:
  assumes "apart_names C" and "xs = [(links_name, staging links_name), (aliases_name, staging aliases_name),
      (xc_chunks_name C, staging (xc_chunks_name C))]"
  shows "distinct (map fst xs)" "fst ` set xs \<inter> staged_names (xc_chunks_name C) = {}"
    "snd ` set xs \<subseteq> staged_names (xc_chunks_name C)"
  using assms by (auto simp: apart_names_def staged_names_def)

lemma failure_status: "failure_stats name x P F s = (Inr st, s') \<Longrightarrow> fs_status st = x"
  by (auto simp: failure_stats_def bind_ix_Inr return_ix_def)

lemma or_fail_early:
  "or_fail (bind_ix (failure_stats name x P) (\<lambda>x. return_ix (Inl x))) P F s = ((Inr (Inl st), P'), s') \<Longrightarrow> fs_status st = x"
  by (auto simp: or_fail_def bind_ix_Inr return_ix_def dest: failure_status split: prod.splits)

lemma or_fail_graph: "or_fail (bind_ix m (\<lambda>x. return_ix (Inr x))) P F s \<noteq> ((Inr (Inl st), P'), s')"
  by (auto simp: or_fail_def bind_ix_Inr return_ix_def split: prod.splits)

lemma stage_rest_answers:
  "stage_rest name E P F s = ((Inr (Inl st), P'), s') \<Longrightarrow> fs_status st \<noteq> Completed"
  by (auto simp: stage_rest_def or_fail_graph split: prod.splits sum.splits if_splits dest: or_fail_early)

lemma stage_answers:
  "stage_generation C E paths F s = ((Inr (Inl st), P), s') \<Longrightarrow> fs_status st \<noteq> Completed"
  by (auto simp: stage_generation_def Let_def split: prod.splits sum.splits bool.splits
    dest: or_fail_early stage_rest_answers)

lemma reindex_all_preserves:
  assumes "reindex_all C E paths F s = (r, s')" and "one_fault F" and "apart_names C"
    and "n \<notin> staged_names (xc_chunks_name C)" and "\<And>st. r = Inr st \<Longrightarrow> fs_status st \<noteq> Completed"
  shows "table_rows s' n = table_rows s n"
proof -
  let ?name = "xc_chunks_name C"
  let ?xs = "[(links_name, staging links_name), (aliases_name, staging aliases_name), (?name, staging ?name)]"
  obtain r1 P s1 where gen: "stage_generation C E paths F s = ((r1, P), s1)" by (metis prod.exhaust)
  have rows1: "table_rows s1 m = table_rows s m" if "m \<notin> staged_names ?name" for m
    using confined_rows [OF confined_generation [OF gen] that] .
  have fail: "failure_stats ?name x P F s2 = (r, s') \<Longrightarrow> table_rows s' n = table_rows s2 n" for x s2
    using confined_all [OF rowless_D [OF rowless_failure]] by simp
  consider (bad) e where "r1 = Inl e" | (early) st where "r1 = Inr (Inl st)" | (staged) k where "r1 = Inr (Inr k)"
  proof (cases r1)
    case (Inr x)
    then show ?thesis using early staged by (cases x) blast+
  qed (use bad in blast)
  then show ?thesis
  proof cases
    case bad
    with assms(1) gen have "failure_stats ?name Failed P F s1 = (r, s')" by (simp add: reindex_all_def Let_def)
    with fail rows1 [OF assms(4)] show ?thesis by simp
  next
    case early
    with assms(1) gen rows1 [OF assms(4)] show ?thesis by (simp add: reindex_all_def Let_def)
  next
    case staged
    obtain r2 d s2 where rep: "replace_all ?xs [] F s1 = ((r2, d), s2)" by (metis prod.exhaust)
    have start: "restorable (table_rows s) [] (staged_names ?name) s1" using rows1 by (simp add: restorable_def)
    have "fst ` set ?xs \<inter> fst ` set [] = {}" by simp
    note run = replace_all_run [OF rep start published_names [OF assms(3) refl] this]
    show ?thesis
    proof (cases r2)
      case (Inl e)
      with run have "restorable (table_rows s) d (staged_names ?name) s2" "faulted F s1 s2" by auto
      with rollback_all_restores [OF _ one_fault_quiet [OF assms(2)] assms(4)]
      have "table_rows (snd (rollback_all d F s2)) n = table_rows s n" by blast
      moreover have "failure_stats ?name Failed P F (snd (rollback_all d F s2)) = (r, s')"
        using assms(1) gen staged rep Inl by (simp add: reindex_all_def Let_def)
      ultimately show ?thesis using fail by simp
    next
      case (Inr u)
      obtain st s3 where fin: "finish_generation C E P k F s2 = (st, s3)" by fastforce
      with assms(1) gen staged rep Inr have "r = Inr st" by (simp add: reindex_all_def Let_def)
      with assms(5) finish_rows [OF fin] show ?thesis by blast
    qed
  qed
qed

end
