(* ===== verification/Rebuild.thy ===== *)
theory Rebuild
  imports Full_Reindex
begin

text \<open>
  What \<open>full_reindex\<close> leaves in the index when it completes, that it completes when nothing fails,
  and the kinds of rows that every operation of the indexer keeps in its tables.
\<close>

section \<open>What a completed rebuild leaves\<close>

text \<open>The batches that were stored, each with its embedded rows.\<close>

definition batched :: "(string list \<Rightarrow> rat list list result) \<Rightarrow> (chunk list \<times> chunk_row list) list \<Rightarrow> bool" where
  "batched f bs \<longleftrightarrow> (\<forall>b \<in> set bs. embed_chunks f (fst b) = Inr (snd b))"

definition collected ::
  "(string list \<Rightarrow> rat list list result) \<Rightarrow> string \<Rightarrow> (string \<times> parse_result) list
     \<Rightarrow> progress \<Rightarrow> indexer \<Rightarrow> progress \<Rightarrow> indexer \<Rightarrow> bool" where
  "collected f t N P s P' s' \<longleftrightarrow>
     (\<exists>bs. batched f bs \<and> concat (map fst bs) @ pg_batch P' = pg_batch P @ concat (map (pr_chunks \<circ> snd) N) \<and>
        table_rows s' t = table_rows s t @ map ChunkRow (concat (map snd bs)) \<and>
        pg_chunks P' = pg_chunks P + length (concat (map snd bs))) \<and>
     pg_links P' = pg_links P @ concat (map (pr_links \<circ> snd) N) \<and> pg_notes P' = pg_notes P + length N \<and>
     concat (map (\<lambda>x. alias_records (fst x) (snd x)) (pg_aliases P')) =
       concat (map (\<lambda>x. alias_records (fst x) (snd x)) (pg_aliases P)) @
       concat (map (\<lambda>x. alias_records (fst x) (pr_aliases (snd x))) N)"

lemma collected_refl: "collected f t [] P s P s"
  by (auto simp: collected_def batched_def intro: exI [of _ "[]"])

lemma collected_trans:
  assumes "collected f t N P s P1 s1" and "collected f t N' P1 s1 P' s'"
  shows "collected f t (N @ N') P s P' s'"
proof -
  from assms(1) obtain bs where one: "batched f bs"
    "concat (map fst bs) @ pg_batch P1 = pg_batch P @ concat (map (pr_chunks \<circ> snd) N)"
    "table_rows s1 t = table_rows s t @ map ChunkRow (concat (map snd bs))"
    "pg_chunks P1 = pg_chunks P + length (concat (map snd bs))" by (auto simp: collected_def)
  from assms(2) obtain bs' where two: "batched f bs'"
    "concat (map fst bs') @ pg_batch P' = pg_batch P1 @ concat (map (pr_chunks \<circ> snd) N')"
    "table_rows s' t = table_rows s1 t @ map ChunkRow (concat (map snd bs'))"
    "pg_chunks P' = pg_chunks P1 + length (concat (map snd bs'))" by (auto simp: collected_def)
  have "batched f (bs @ bs')" using one(1) two(1) by (auto simp: batched_def)
  moreover have "concat (map fst (bs @ bs')) @ pg_batch P' = pg_batch P @ concat (map (pr_chunks \<circ> snd) (N @ N'))"
    using one(2) two(2) by simp
  ultimately show ?thesis using assms one(3,4) two(3,4) unfolding collected_def
    by (intro conjI exI [of _ "bs @ bs'"]) simp_all
qed

lemma collected_add: "collected f t [(path, r)] P s (add_result path r P) s"
  by (auto simp: collected_def add_result_def batched_def alias_records_def intro: exI [of _ "[]"])

lemma store_rows:
  assumes "store_staging_batch f t batch F s = (Inr k, s')" and "ix_db s t \<noteq> None"
  shows "\<exists>rows. embed_chunks f batch = Inr rows \<and> k = length rows \<and> table_rows s' t = table_rows s t @ map ChunkRow rows"
  using assms add_rows_Inr
  by (auto simp: store_staging_batch_def bind_ix_Inr lift_ix_def return_ix_def)

lemma flush_collected:
  assumes "flush_batch f t b P F s = ((Inr u, P'), s')" and "ix_db s t \<noteq> None"
  shows "collected f t [] P s P' s' \<and> pg_errors P' = pg_errors P \<and> (b = 1 \<longrightarrow> pg_batch P' = [])"
proof (cases "length (pg_batch P) < b")
  case True
  with assms collected_refl show ?thesis by (auto simp: flush_batch_def)
next
  case False
  with assms(1) obtain k where st: "store_staging_batch f t (pg_batch P) F s = (Inr k, s')"
    "P' = P\<lparr>pg_chunks := pg_chunks P + k, pg_batch := []\<rparr>" by (auto simp: flush_batch_def split: prod.splits sum.splits)
  from store_rows [OF st(1) assms(2)] obtain rows where rows: "embed_chunks f (pg_batch P) = Inr rows" "k = length rows"
    "table_rows s' t = table_rows s t @ map ChunkRow rows" by blast
  then have "collected f t [] P s P' s'"
    unfolding collected_def st(2) by (intro conjI exI [of _ "[(pg_batch P, rows)]"]) (simp_all add: batched_def)
  with st(2) show ?thesis by simp
qed

definition successes :: "(string \<times> parse_result) list \<Rightarrow> (string \<times> parse_result) list" where
  "successes rs = filter (\<lambda>x. pr_status (snd x) = Parse_success) rs"

lemma collect_collected:
  "collect f t b sh i rs P F s = ((Inr False, P'), s') \<Longrightarrow> ix_db s t \<noteq> None \<Longrightarrow>
     collected f t (successes rs) P s P' s' \<and>
     pg_errors P' = pg_errors P + length (filter (\<lambda>x. pr_status (snd x) = Parse_error) rs)"
proof (induction f t b sh i rs P F s rule: collect.induct)
  case (1 f t b sh i P F s)
  then show ?case by (simp add: successes_def collected_refl)
next
  case (2 f t b sh i path q rs P F s)
  have go: "\<not> sh i" using 2(4) by auto
  consider (err) "pr_status q = Parse_error" | (skip) "pr_status q \<noteq> Parse_error" "pr_status q \<noteq> Parse_success"
    | (ok) "pr_status q \<noteq> Parse_error" "pr_status q = Parse_success" by blast
  then show ?case
  proof cases
    case err
    have "collect f t b sh (Suc i) rs (P\<lparr>pg_errors := Suc (pg_errors P)\<rparr>) F s = ((Inr False, P'), s')" using 2(4) go err by simp
    from 2(1) [OF go err this 2(5)] err show ?thesis by (simp add: successes_def collected_def)
  next
    case skip
    have "collect f t b sh (Suc i) rs P F s = ((Inr False, P'), s')" using 2(4) go skip by simp
    from 2(2) [OF go skip this 2(5)] skip show ?thesis by (simp add: successes_def)
  next
    case ok
    obtain r1 P1 s1 where fl: "flush_batch f t b (add_result path q P) F s = ((r1, P1), s1)" by (metis prod.exhaust)
    with 2(4) go ok obtain u where r1: "r1 = Inr u" by (cases r1) auto
    have rest: "collect f t b sh (Suc i) rs P1 F s1 = ((Inr False, P'), s')" using 2(4) go ok fl r1 by simp
    from flush_collected [OF fl [unfolded r1] 2(5)] have one: "collected f t [] (add_result path q P) s P1 s1" "pg_errors P1 = pg_errors P"
      by (simp_all add: add_result_def)
    have "ix_db s1 t \<noteq> None" using confined_flush [OF fl] 2(5) by (simp add: confined_def)
    with 2(3) [OF go ok(1) _ fl [symmetric] refl r1 rest] ok(2)
    have IH: "collected f t (successes rs) P1 s1 P' s'"
      "pg_errors P' = pg_errors P1 + length (filter (\<lambda>x. pr_status (snd x) = Parse_error) rs)" by auto
    have "collected f t ([(path, q)] @ [] @ successes rs) P s P' s'"
      using collected_trans [OF collected_add collected_trans [OF one(1) IH(1)]] .
    with IH(2) one(2) ok show ?thesis by (simp add: successes_def)
  qed
qed


text \<open>Every link row is a link of the notes as it was parsed, or resolved to one of the targets \<open>T\<close>.\<close>

definition link_sound :: "string set \<Rightarrow> link list \<Rightarrow> index_row list \<Rightarrow> bool" where
  "link_sound T L rows \<longleftrightarrow> (\<forall>r \<in> set rows. \<exists>l \<in> set L. r = LinkRow l \<or>
     (\<exists>to_path \<in> T. r = LinkRow (l\<lparr>lk_to_path := to_path, lk_resolved := True\<rparr>)))"

lemma link_sound_subset: "link_sound T L rows \<Longrightarrow> set rows' \<subseteq> set rows \<Longrightarrow> link_sound T L rows'"
  unfolding link_sound_def by blast

lemma link_sound_append: "link_sound T L (rows @ rows') \<longleftrightarrow> link_sound T L rows \<and> link_sound T L rows'"
  unfolding link_sound_def by auto

lemma mark_resolved_sound:
  "link_sound T L rows \<Longrightarrow> r \<in> set rows \<Longrightarrow> to_path \<in> T \<Longrightarrow> link_sound T L [mark_resolved to_path r]" (is "_ \<Longrightarrow> _ \<Longrightarrow> _ \<Longrightarrow> ?thesis")
proof -
  assume "link_sound T L rows" "r \<in> set rows" and t: "to_path \<in> T"
  then obtain l where l: "l \<in> set L" "r = LinkRow l \<or> (\<exists>p. r = LinkRow (l\<lparr>lk_to_path := p, lk_resolved := True\<rparr>))"
    unfolding link_sound_def by blast
  then have "mark_resolved to_path r = LinkRow (l\<lparr>lk_to_path := to_path, lk_resolved := True\<rparr>)" by auto
  with l(1) t show ?thesis unfolding link_sound_def by auto
qed

lemma rows_commit_set: "set (table_rows (commit_rows n rs s) n) \<subseteq> set rs \<union> set (table_rows s n)"
  by (auto simp: commit_rows_def set_table_def table_rows_def vt_commit_def split: option.splits)

lemma delete_rows_subset: "delete_rows n w F s = (r, s') \<Longrightarrow> set (table_rows s' n) \<subseteq> set (table_rows s n)"
  using rows_commit_set by (fastforce simp: delete_rows_def db_call_def Let_def split: option.splits)

lemma add_rows_subset: "add_rows n rs F s = (r, s') \<Longrightarrow> set (table_rows s' n) \<subseteq> set (table_rows s n) \<union> set rs"
  using rows_commit_set by (fastforce simp: add_rows_def db_call_def Let_def split: option.splits)

lemma resolve_one_sound:
  assumes "resolve_one t u F s = (r, s')" and "link_sound T L (table_rows s t)" and "snd u \<in> T"
  shows "link_sound T L (table_rows s' t)"
proof -
  let ?find = "db_call (\<lambda>s. (take 1 (filter (satisfies (link_filter (fst u))) (table_rows s t)), s))"
  obtain r1 s1 where find: "?find F s = (r1, s1)" by fastforce
  have rows1: "table_rows s1 t = table_rows s t" using rowless_rows [OF rowless_basic(2)] find by (metis snd_conv)
  consider (none) "s' = s1" | (found) x xs r2 s2 where "r1 = Inr (x # xs)"
    "delete_rows t (link_filter (fst u)) F s1 = (r2, s2)" "s' = s2 \<or> (\<exists>r3. add_rows t [mark_resolved (snd u) x] F s2 = (r3, s'))"
    using assms(1) find unfolding resolve_one_def
    by (auto simp: catch_ix_def bind_ix_def return_ix_def split: prod.splits sum.splits list.splits)
  then show ?thesis
  proof cases
    case none
    with rows1 assms(2) show ?thesis by simp
  next
    case found
    have "x # xs = take 1 (filter (satisfies (link_filter (fst u))) (table_rows s t))" using find found(1)
      by (auto simp: db_call_def Let_def split: option.splits)
    then have "x \<in> set (take 1 (filter (satisfies (link_filter (fst u))) (table_rows s t)))" by (metis list.set_intros(1))
    then have "x \<in> set (table_rows s t)" using in_set_takeD by fastforce
    from mark_resolved_sound [OF assms(2) this assms(3)] have new: "link_sound T L [mark_resolved (snd u) x]" .
    have old: "link_sound T L (table_rows s2 t)"
      using link_sound_subset [OF assms(2)] delete_rows_subset [OF found(2)] rows1 by simp
    from found(3) show ?thesis
    proof
      assume "\<exists>r3. add_rows t [mark_resolved (snd u) x] F s2 = (r3, s')"
      then have "set (table_rows s' t) \<subseteq> set (table_rows s2 t @ [mark_resolved (snd u) x])" using add_rows_subset by fastforce
      moreover have "link_sound T L (table_rows s2 t @ [mark_resolved (snd u) x])" using old new link_sound_append by blast
      ultimately show ?thesis using link_sound_subset by blast
    qed (use old in simp)
  qed
qed

lemma resolve_each_sound:
  "resolve_each t us F s = (r, s') \<Longrightarrow> link_sound T L (table_rows s t) \<Longrightarrow> snd ` set us \<subseteq> T \<Longrightarrow> link_sound T L (table_rows s' t)"
proof (induction us arbitrary: s)
  case (Cons u us)
  obtain r1 s1 where one: "resolve_one t u F s = (r1, s1)" by fastforce
  then have "link_sound T L (table_rows s1 t)" using resolve_one_sound Cons.prems(2,3) by (metis image_eqI list.set_intros(1) subsetD)
  with Cons one show ?case by (cases r1) (auto simp: bind_ix_def)
qed (simp add: return_ix_def)

lemma dget_add_missing: "dget (add_missing k p d) x = Some q \<Longrightarrow> q = p \<or> dget d x = Some q"
  by (auto simp: add_missing_def dget_dset split: if_splits)

lemma path_map_range:
  "dget (path_map paths aliases) x = Some p \<Longrightarrow> p \<in> set paths \<union> snd ` set aliases"
proof -
  have keys: "dget (fold add_note_keys ps d) x = Some p \<Longrightarrow> p \<in> set ps \<or> dget d x = Some p" for ps d
    by (induction ps arbitrary: d) (fastforce simp: add_note_keys_def dest!: dget_add_missing)+
  have "dget (fold (\<lambda>(k, p). add_missing k p) xs d) x = Some p \<Longrightarrow> p \<in> snd ` set xs \<or> dget d x = Some p" for xs d
    by (induction xs arbitrary: d) (fastforce dest!: dget_add_missing)+
  then show "dget (path_map paths aliases) x = Some p \<Longrightarrow> p \<in> set paths \<union> snd ` set aliases"
    using keys [of paths "[]"] by (fastforce simp: path_map_def)
qed

lemma link_updates_range: "snd ` set (link_updates (path_map paths aliases) links) \<subseteq> set paths \<union> snd ` set aliases"
proof (rule subsetI)
  fix p
  assume "p \<in> snd ` set (link_updates (path_map paths aliases) links)"
  then obtain x where "dget (path_map paths aliases) x = Some p"
    by (auto simp: link_updates_def split: option.splits if_splits)
  then show "p \<in> set paths \<union> snd ` set aliases" by (rule path_map_range)
qed


text \<open>What the reads of the resolution answer: nothing, or what the tables hold.\<close>

definition targets :: "string \<Rightarrow> indexer \<Rightarrow> string set" where
  "targets name s = fst ` set (note_stamps (table_rows s (staging name))) \<union>
     snd ` set (concat (map alias_entry (table_rows s (staging aliases_name))))"

lemma read_paths_range:
  "read_paths t F s = (Inr ps, s') \<Longrightarrow> set ps \<subseteq> fst ` set (note_stamps (table_rows s t)) \<and> table_rows s' = table_rows s"
  using confined_all [of s s'] keeps_in_D [OF keeps_in_reads(1) refl, of t F s "Inr ps" s' "{}"]
  by (auto simp: read_paths_def catch_ix_def bind_ix_def db_call_def return_ix_def Let_def split: option.splits if_splits)

lemma read_aliases_range:
  "read_aliases t F s = (Inr xs, s') \<Longrightarrow> set xs \<subseteq> set (concat (map alias_entry (table_rows s t))) \<and> table_rows s' = table_rows s"
  using confined_all [of s s'] keeps_in_D [OF keeps_in_reads(2) refl, of t F s "Inr xs" s' "{}"]
  by (auto simp: read_aliases_def catch_ix_def bind_ix_def db_call_def return_ix_def Let_def split: option.splits if_splits)

lemma read_unresolved_rows: "read_unresolved t F s = (r, s') \<Longrightarrow> table_rows s' = table_rows s"
  using confined_all [of s s'] keeps_in_D [OF keeps_in_reads(3) refl, of t F s r s' "{}"] by blast

lemma resolve_sound:
  assumes "resolve_link_targets name order F s = (Inr n, s')" and "handles s = staged_handles name"
    and "link_sound (targets name s) L (table_rows s (staging links_name))" and "\<And>xs. set (order xs) = set xs"
  shows "link_sound (targets name s) L (table_rows s' (staging links_name))"
proof -
  let ?T = "targets name s" and ?l = "staging links_name"
  obtain ps s1 where ps: "read_paths (staging name) F s = (Inr ps, s1)" "ps = [] \<longrightarrow> s' = s1"
    and more: "ps \<noteq> [] \<longrightarrow> (\<exists>xs s2 ls s3. read_aliases (staging aliases_name) F s1 = (Inr xs, s2) \<and>
      read_unresolved ?l F s2 = (Inr ls, s3) \<and>
      (\<exists>u. resolve_each ?l (link_updates (path_map (order (remdups ps)) xs) ls) F s3 = (Inr u, s')))"
    using assms(1) by (auto simp: resolve_link_targets_def bind_ix_Inr staged_ensure [OF assms(2)] Let_def return_ix_def split: if_splits)
  note p = read_paths_range [OF ps(1)]
  show ?thesis
  proof (cases "ps = []")
    case True
    with ps(2) p assms(3) show ?thesis by simp
  next
    case False
    with more obtain xs s2 ls s3 u where run: "read_aliases (staging aliases_name) F s1 = (Inr xs, s2)"
      "read_unresolved ?l F s2 = (Inr ls, s3)"
      "resolve_each ?l (link_updates (path_map (order (remdups ps)) xs) ls) F s3 = (Inr u, s')" by blast
    note a = read_aliases_range [OF run(1)]
    have rows3: "table_rows s3 = table_rows s" using read_unresolved_rows [OF run(2)] a p by simp
    have "set ps \<union> snd ` set xs \<subseteq> ?T" using p a by (auto simp: targets_def)
    moreover have "snd ` set (link_updates (path_map (order (remdups ps)) xs) ls) \<subseteq> set (order (remdups ps)) \<union> snd ` set xs"
      by (rule link_updates_range)
    ultimately have "snd ` set (link_updates (path_map (order (remdups ps)) xs) ls) \<subseteq> ?T" unfolding assms(4) set_remdups by blast
    from resolve_each_sound [OF run(3) _ this] rows3 assms(3) show ?thesis by simp
  qed
qed

lemma index_all_rows:
  "index_all_aliases xs F s = (Inr n, s') \<Longrightarrow> handles s = staged_handles name \<Longrightarrow> ix_db s (staging aliases_name) \<noteq> None \<Longrightarrow>
     table_rows s' (staging aliases_name) = table_rows s (staging aliases_name) @ concat (map (\<lambda>x. alias_records (fst x) (snd x)) xs)"
proof (induction xs arbitrary: s n rule: index_all_aliases.induct)
  case 1
  then show ?case by (simp add: return_ix_def)
next
  case (2 path al xs)
  from 2(2) obtain k s1 m where one: "index_aliases path al F s = (Inr k, s1)" "index_all_aliases xs F s1 = (Inr m, s')"
    by (auto simp: bind_ix_Inr return_ix_def)
  have "ix_aliases_table s = Some (staging aliases_name)" using 2(3) by (simp add: handles_def staged_handles_def)
  from index_aliases_Inr [OF one(1) this 2(4)] have rows: "table_rows s1 (staging aliases_name) =
      table_rows s (staging aliases_name) @ alias_records path al" by simp
  from keeps_in_D [OF keeps_in_index_aliases 2(3) one(1)] 2(4)
  have "handles s1 = staged_handles name" "ix_db s1 (staging aliases_name) \<noteq> None" by (auto simp: confined_def)
  from 2(1) [OF one(2) this] rows show ?case by simp
qed

lemma index_links_rows:
  assumes "index_links links F s = (Inr n, s')" and "handles s = staged_handles name" and "ix_db s (staging links_name) \<noteq> None"
  shows "table_rows s' (staging links_name) = table_rows s (staging links_name) @ map LinkRow links"
proof (cases "links = []")
  case True
  with assms(1) show ?thesis by (simp add: index_links_def return_ix_def)
next
  case False
  with assms(1) have "add_rows (staging links_name) (map LinkRow links) F s = (Inr (), s')"
    by (auto simp: index_links_def bind_ix_Inr staged_ensure [OF assms(2)] return_ix_def)
  with add_rows_Inr assms(3) show ?thesis by fastforce
qed


lemma stage_graph_rows:
  assumes "stage_graph name order P F s = (Inr k, s')" and "handles s = staged_handles name"
    and "ix_db s (staging links_name) \<noteq> None" and "ix_db s (staging aliases_name) \<noteq> None"
    and "distinct [staging name, staging links_name, staging aliases_name]" and "\<And>xs. set (order xs) = set xs"
    and "table_rows s (staging links_name) = []"
  shows "table_rows s' (staging name) = table_rows s (staging name) \<and>
    table_rows s' (staging aliases_name) = table_rows s (staging aliases_name) @
      concat (map (\<lambda>x. alias_records (fst x) (snd x)) (pg_aliases P)) \<and>
    link_sound (targets name s') (pg_links P) (table_rows s' (staging links_name))"
proof -
  let ?l = "staging links_name" and ?a = "staging aliases_name" and ?c = "staging name"
  from assms(1) obtain n s1 m s2 j where run: "index_all_aliases (pg_aliases P) F s = (Inr n, s1)"
    "index_links (pg_links P) F s1 = (Inr m, s2)" "resolve_link_targets name order F s2 = (Inr j, s')"
    by (auto simp: stage_graph_def bind_ix_Inr return_ix_def)
  note k1 = keeps_in_D [OF keeps_in_index_all assms(2) run(1)]
  then have h1: "handles s1 = staged_handles name" by blast
  note k2 = keeps_in_D [OF keeps_in_index_links h1 run(2)]
  then have h2: "handles s2 = staged_handles name" by blast
  note k3 = keeps_in_D [OF keeps_in_resolve h2 run(3)]
  have d: "?c \<noteq> ?l" "?c \<noteq> ?a" "?l \<noteq> ?a" using assms(5) by auto
  have l1: "ix_db s1 ?l \<noteq> None" using k1 assms(3) by (simp add: confined_def)
  have c: "table_rows s2 ?c = table_rows s ?c" "table_rows s' ?c = table_rows s2 ?c"
    using confined_rows [of _ s s1 ?c] confined_rows [of _ s1 s2 ?c] confined_rows [of _ s2 s' ?c] k1 k2 k3 d by auto
  have a: "table_rows s2 ?a = table_rows s1 ?a" "table_rows s' ?a = table_rows s2 ?a"
    using confined_rows [of _ s1 s2 ?a] confined_rows [of _ s2 s' ?a] k2 k3 d by auto
  have "table_rows s1 ?l = []" using confined_rows [of "{?a}" s s1 ?l] k1 d assms(7) by auto
  then have l: "table_rows s2 ?l = map LinkRow (pg_links P)" using index_links_rows [OF run(2) h1 l1] by simp
  have "targets name s' = targets name s2" using c a by (simp add: targets_def)
  moreover have "link_sound (targets name s2) (pg_links P) (table_rows s2 ?l)" unfolding l link_sound_def by auto
  ultimately have "link_sound (targets name s') (pg_links P) (table_rows s' ?l)"
    using resolve_sound [OF run(3) h2 _ assms(6)] by simp
  with c a index_all_rows [OF run(1) assms(2,4)] show ?thesis by simp
qed

lemma reset_rows:
  assumes "reset_staging_tables name F s = (Inr u, s')" and "n \<in> staged_names name"
    and "distinct [staging name, staging links_name, staging aliases_name]"
  shows "ix_db s' n \<noteq> None \<and> table_rows s' n = []"
proof -
  have one: "reset_table m F s = (Inr v, s') \<Longrightarrow> ix_db s' m \<noteq> None \<and> table_rows s' m = [] \<and> confined {m} s s'" for m v s s'
    using keeps_in_D [OF keeps_in_tables(3) refl, of m F s "Inr v" s']
    by (auto simp: reset_table_def db_call_def Let_def set_table_def commit_rows_def table_rows_def new_table_def vt_commit_def
        split: option.splits)
  from assms(1) obtain s1 s2 s3 where run: "reset_table (staging name) F s1 = (Inr (), s2)"
    "reset_table (staging links_name) F s2 = (Inr (), s3)" "reset_table (staging aliases_name) F s3 = (Inr u, s')"
    by (auto simp: reset_staging_tables_def bind_ix_Inr)
  have later: "ix_db s' m = ix_db s3 m" if "m \<noteq> staging aliases_name" for m using one [OF run(3)] that by (simp add: confined_def)
  have later2: "ix_db s3 m = ix_db s2 m" if "m \<noteq> staging links_name" for m using one [OF run(2)] that by (simp add: confined_def)
  have d: "staging name \<noteq> staging links_name" "staging name \<noteq> staging aliases_name" "staging links_name \<noteq> staging aliases_name"
    using assms(3) by auto
  consider "n = staging name" | "n = staging links_name" | "n = staging aliases_name" using assms(2) by (auto simp: staged_names_def)
  then show ?thesis
  proof cases
    case 1
    with later later2 d one [OF run(1)] show ?thesis by (simp add: table_rows_def)
  next
    case 2
    with later d one [OF run(2)] show ?thesis by (simp add: table_rows_def)
  next
    case 3
    with one [OF run(3)] show ?thesis by simp
  qed
qed

text \<open>The content of the three tables after a complete rebuild.\<close>

definition generation ::
  "index_conf \<Rightarrow> full_env \<Rightarrow> string list \<Rightarrow> index_row list \<Rightarrow> index_row list \<Rightarrow> index_row list \<Rightarrow> bool" where
  "generation C E paths crows lrows arows \<longleftrightarrow>
     (let parsed = parsed_notes C E paths; N = successes parsed in
      (\<forall>x \<in> set parsed. pr_status (snd x) \<noteq> Parse_error) \<and>
      (\<exists>bs. batched (fe_embed E) bs \<and> concat (map fst bs) = concat (map (pr_chunks \<circ> snd) N) \<and>
         crows = map ChunkRow (concat (map snd bs))) \<and>
      arows = concat (map (\<lambda>x. alias_records (fst x) (pr_aliases (snd x))) N) \<and>
      link_sound (fst ` set (note_stamps crows) \<union> snd ` set (concat (map alias_entry arows)))
        (concat (map (pr_links \<circ> snd) N)) lrows)"

lemma stage_generation_rows:
  assumes "stage_generation C E paths F s = ((Inr (Inr k), P), s')" and "apart_names C" and "\<And>xs. set (fe_order E xs) = set xs"
  shows "generation C E paths (table_rows s' (staging (xc_chunks_name C))) (table_rows s' (staging links_name))
    (table_rows s' (staging aliases_name))"
proof -
  let ?name = "xc_chunks_name C" and ?N = "successes (parsed_notes C E paths)"
  let ?b = "get_optimal_batch_size (fe_available_ram E)"
  have d: "distinct [staging ?name, staging links_name, staging aliases_name]" using assms(2) by (auto simp: apart_names_def)
  obtain s0 where reset: "reset_staging_tables ?name F s = (Inr (), s0)"
    using assms(1) by (auto simp: stage_generation_def Let_def split: prod.splits sum.splits)
  let ?s = "s0\<lparr>ix_table := Some (staging ?name), ix_links_table := Some (staging links_name), ix_aliases_table := Some (staging aliases_name)\<rparr>"
  have fresh: "ix_db ?s n \<noteq> None \<and> table_rows ?s n = []" if "n \<in> staged_names ?name" for n
    using reset_rows [OF reset that d] by (simp add: table_rows_def)
  have h0: "handles ?s = staged_handles ?name" by (simp add: handles_def staged_handles_def)
  obtain P1 s1 where col: "collect (fe_embed E) (staging ?name) ?b (fe_shutdown E) 0 (parsed_notes C E paths) no_progress F ?s = ((Inr False, P1), s1)"
    and rest: "stage_rest ?name E P1 F s1 = ((Inr (Inr k), P), s')"
    using assms(1) reset by (auto simp: stage_generation_def Let_def or_fail_def bind_ix_Inr return_ix_def split: prod.splits sum.splits bool.splits)
  obtain P2 s2 where fl: "flush_batch (fe_embed E) (staging ?name) 1 P1 F s1 = ((Inr (), P2), s2)" and ok: "pg_errors P2 = 0"
    and graph: "stage_graph ?name (fe_order E) P2 F s2 = (Inr k, s')"
    using rest by (auto simp: stage_rest_def or_fail_def bind_ix_Inr return_ix_def split: prod.splits sum.splits if_splits)
  have names: "staging ?name \<in> staged_names ?name" "staging links_name \<in> staged_names ?name" "staging aliases_name \<in> staged_names ?name"
    by (simp_all add: staged_names_def)
  note c1 = confined_collect [OF col]
  note c2 = confined_flush [OF fl]
  have ex: "ix_db s1 n \<noteq> None" "ix_db s2 n \<noteq> None" if "n \<in> staged_names ?name" for n
    using c1 c2 fresh [OF that] by (auto simp: confined_def)
  have empty: "table_rows s2 n = []" if "n \<in> staged_names ?name" "n \<noteq> staging ?name" for n
    using confined_rows [of _ ?s s1 n] confined_rows [of _ s1 s2 n] c1 c2 fresh [OF that(1)] that(2) by auto
  note got = collect_collected [OF col conjunct1 [OF fresh [OF names(1)]]]
  note got2 = flush_collected [OF fl ex(1) [OF names(1)]]
  have all: "collected (fe_embed E) (staging ?name) ?N no_progress ?s P2 s2" "pg_batch P2 = []"
    using collected_trans [OF conjunct1 [OF got] conjunct1 [OF got2]] got2 by simp_all
  have noerr: "\<forall>x \<in> set (parsed_notes C E paths). pr_status (snd x) \<noteq> Parse_error"
    using got got2 ok by (auto simp: no_progress_def filter_empty_conv)
  have "handles s2 = staged_handles ?name" using c1 c2 h0 by simp
  note g = stage_graph_rows [OF graph this ex(2) [OF names(2)] ex(2) [OF names(3)] d assms(3) empty [OF names(2)]]
  have "table_rows s2 (staging aliases_name) = []" using empty [OF names(3)] d by auto
  moreover have "staging links_name \<noteq> staging ?name" using d by auto
  ultimately show ?thesis using g all fresh [OF names(1)] noerr
    by (auto simp: generation_def Let_def collected_def no_progress_def targets_def)
qed


lemma reindex_all_completes:
  assumes "reindex_all C E paths F s = (Inr st, s')" and "fs_status st = Completed" and "apart_names C"
    and "\<And>xs. set (fe_order E xs) = set xs"
  shows "generation C E paths (table_rows s' (xc_chunks_name C)) (table_rows s' links_name) (table_rows s' aliases_name)"
proof -
  let ?name = "xc_chunks_name C"
  let ?xs = "[(links_name, staging links_name), (aliases_name, staging aliases_name), (?name, staging ?name)]"
  obtain r1 P s1 where gen: "stage_generation C E paths F s = ((r1, P), s1)" by (metis prod.exhaust)
  have nofail: "failure_stats ?name Failed P F s2 \<noteq> (Inr st, s')" for s2 using assms(2) failure_status by fastforce
  have "r1 \<noteq> Inl e" for e using assms(1) gen nofail by (auto simp: reindex_all_def Let_def)
  moreover have "r1 \<noteq> Inr (Inl st')" for st'
    using assms(1,2) gen stage_answers by (fastforce simp: reindex_all_def Let_def)
  ultimately obtain k where k: "r1 = Inr (Inr k)" by (metis sum.exhaust)
  obtain r2 d s2 where rep: "replace_all ?xs [] F s1 = ((r2, d), s2)" by (metis prod.exhaust)
  have "r2 \<noteq> Inl e" for e using assms(1) gen k rep nofail by (auto simp: reindex_all_def Let_def)
  then obtain u where u: "r2 = Inr u" by (cases r2) auto
  obtain st2 s3 where fin: "finish_generation C E P k F s2 = (st2, s3)" by fastforce
  with assms(1) gen k rep u have s': "s' = s3" by (simp add: reindex_all_def Let_def)
  have start: "restorable (table_rows s1) [] (staged_names ?name) s1" by (simp add: restorable_def)
  have none: "fst ` set ?xs \<inter> fst ` set ([] :: committed) = {}" by simp
  from replace_all_run [OF rep start published_names [OF assms(3) refl] none] u
  have "\<forall>x \<in> set ?xs. table_rows s2 (fst x) = table_rows s1 (snd x)" by simp
  with finish_rows [OF fin] s' stage_generation_rows [OF gen [unfolded k] assms(3,4)] show ?thesis by simp
qed

lemma full_reindex_all:
  "full_reindex C E vault resolved_vault ignored entries False F s = (r, s') \<Longrightarrow>
     (\<exists>r1. reindex_all C E (map (\<lambda>e. py_join ''/'' (drop (length vault) (se_parts e)))
        (scan_vault resolved_vault (xc_extensions C) ignored entries)) F s = (r1, s') \<and>
      r = (case r1 of Inl e \<Rightarrow> Inl e | Inr st \<Rightarrow> Inr (Inr st)))"
  by (auto simp: full_reindex_def Let_def bind_ix_def return_ix_def split: prod.splits sum.splits)


section \<open>A rebuild without faults completes\<close>

definition calm :: "'a ix \<Rightarrow> bool" where
  "calm m \<longleftrightarrow> (\<forall>s. \<exists>x. fst (m (\<lambda>k. None) s) = Inr x)"

lemma calm_D: "calm m \<Longrightarrow> m (\<lambda>k. None) s = (r, s') \<Longrightarrow> \<exists>x. r = Inr x"
  unfolding calm_def by (metis fst_conv)

lemma calm_basic: "calm (return_ix x)" "calm (db_call f)" "calm (update_ix g)"
  by (auto simp: calm_def return_ix_def db_call_def update_ix_def split: prod.splits)

lemma calm_bind:
  assumes "calm m" and "\<And>x. calm (f x)"
  shows "calm (bind_ix m f)"
  unfolding calm_def
proof
  fix s
  obtain r s1 where m: "m (\<lambda>k. None) s = (r, s1)" by fastforce
  with calm_D [OF assms(1) m] obtain x where "bind_ix m f (\<lambda>k. None) s = f x (\<lambda>k. None) s1" by (auto simp: bind_ix_def)
  with assms(2) [of x] show "\<exists>x. fst (bind_ix m f (\<lambda>k. None) s) = Inr x" by (simp add: calm_def)
qed

lemma calm_catch:
  assumes "\<And>e. calm (h e)"
  shows "calm (catch_ix m h)"
  unfolding calm_def
proof
  fix s
  obtain r s1 where m: "m (\<lambda>k. None) s = (r, s1)" by fastforce
  show "\<exists>x. fst (catch_ix m h (\<lambda>k. None) s) = Inr x"
  proof (cases r)
    case (Inl e)
    with m assms [of e] show ?thesis by (simp add: catch_ix_def calm_def)
  qed (use m in \<open>simp add: catch_ix_def\<close>)
qed

lemma calm_when: "calm m \<Longrightarrow> calm (when_ix b m)"
  by (simp add: when_ix_def calm_basic)

lemma calm_ensure: "calm (ensure_table n)" "calm ensure_links_table" "calm ensure_aliases_table"
  by (auto simp: calm_def ensure_table_def ensure_links_table_def ensure_aliases_table_def open_or_create_def
      bind_ix_def db_call_def update_ix_def return_ix_def Let_def split: option.splits)

lemmas calm_intros = calm_basic calm_bind calm_catch calm_when calm_ensure

lemma calm_tables: "calm (add_rows n rs)" "calm (delete_rows n w)" "calm (reset_table n)" "calm list_tables" "calm (table_version n)"
  by (simp_all add: add_rows_def delete_rows_def reset_table_def list_tables_def table_version_def calm_basic)

lemma calm_resolve_each: "calm (resolve_each t us)"
  by (induction us) (auto simp: resolve_one_def intro!: calm_intros)

lemma calm_reads: "calm (read_paths t)" "calm (read_aliases t)" "calm (read_unresolved t)"
  by (auto simp: read_paths_def read_aliases_def read_unresolved_def intro!: calm_intros)

lemma calm_resolve: "calm (resolve_link_targets name order)"
  by (auto simp: resolve_link_targets_def Let_def intro!: calm_intros calm_reads calm_resolve_each)

lemma calm_index_links: "calm (index_links links)"
  by (auto simp: index_links_def intro!: calm_intros calm_tables)

lemma calm_index_all: "calm (index_all_aliases xs)"
  by (induction xs rule: index_all_aliases.induct) (auto simp: index_aliases_def Let_def intro!: calm_intros calm_tables)

lemma calm_graph: "calm (stage_graph name order P)"
  by (auto simp: stage_graph_def intro!: calm_intros calm_index_all calm_index_links calm_resolve)

lemma calm_reset: "calm (reset_staging_tables name)"
  by (auto simp: reset_staging_tables_def intro!: calm_intros calm_tables)

lemma calm_replace: "calm (replace_table_from_staging n st)"
  by (auto simp: replace_table_from_staging_def intro!: calm_intros calm_tables)

lemma calm_store: "(\<And>b. \<exists>rows. embed_chunks f b = Inr rows) \<Longrightarrow> calm (store_staging_batch f t batch)"
proof -
  assume "\<And>b. \<exists>rows. embed_chunks f b = Inr rows"
  then obtain rows where "embed_chunks f batch = Inr rows" by blast
  then have "calm (lift_ix (embed_chunks f batch))" by (simp add: calm_def lift_ix_def)
  then show ?thesis by (auto simp: store_staging_batch_def intro!: calm_intros calm_tables)
qed

lemma calm_flush:
  assumes "\<And>b. \<exists>rows. embed_chunks f b = Inr rows"
  shows "\<exists>P' s'. flush_batch f t k P (\<lambda>k. None) s = ((Inr (), P'), s') \<and> pg_errors P' = pg_errors P"
proof (cases "length (pg_batch P) < k")
  case False
  obtain r s' where st: "store_staging_batch f t (pg_batch P) (\<lambda>k. None) s = (r, s')" by fastforce
  with calm_D [OF calm_store [OF assms] st] False show ?thesis by (auto simp: flush_batch_def)
qed (simp add: flush_batch_def)

lemma calm_collect:
  assumes "\<And>b. \<exists>rows. embed_chunks f b = Inr rows" and "\<forall>x \<in> set rs. pr_status (snd x) \<noteq> Parse_error"
  shows "\<exists>P' s'. collect f t k (\<lambda>_. False) i rs P (\<lambda>k. None) s = ((Inr False, P'), s') \<and> pg_errors P' = pg_errors P"
  using assms(2)
proof (induction rs arbitrary: i P s)
  case (Cons x rs)
  obtain path r where x: "x = (path, r)" by fastforce
  obtain P1 s1 where fl: "flush_batch f t k (add_result path r P) (\<lambda>k. None) s = ((Inr (), P1), s1)" "pg_errors P1 = pg_errors P"
    using calm_flush [OF assms(1), of t k "add_result path r P" s] by (auto simp: add_result_def)
  have IH: "\<exists>P' s'. collect f t k (\<lambda>_. False) (Suc i) rs P2 (\<lambda>k. None) s2 = ((Inr False, P'), s') \<and> pg_errors P' = pg_errors P2" for P2 s2
    using Cons by simp
  from IH [of P s] IH [of P1 s1] fl Cons.prems x show ?case by auto
qed simp

lemma calm_replace_all: "\<exists>d s'. replace_all xs done (\<lambda>k. None) s = ((Inr (), d), s')"
proof (induction xs arbitrary: "done" s)
  case (Cons x xs)
  obtain n st where x: "x = (n, st)" by fastforce
  obtain r s1 where "replace_table_from_staging n st (\<lambda>k. None) s = (r, s1)" by fastforce
  with calm_D [OF calm_replace this] Cons x show ?case by auto
qed simp

lemma reindex_all_quiet:
  assumes "\<And>b. \<exists>rows. embed_chunks (fe_embed E) b = Inr rows" and "fe_shutdown E = (\<lambda>_. False)"
    and "\<forall>x \<in> set (parsed_notes C E paths). pr_status (snd x) \<noteq> Parse_error"
  shows "\<exists>st s'. reindex_all C E paths (\<lambda>k. None) s = (Inr st, s') \<and> fs_status st = Completed"
proof -
  let ?name = "xc_chunks_name C" and ?F = "\<lambda>k. None"
  obtain s0 where reset: "reset_staging_tables ?name ?F s = (Inr (), s0)"
    using calm_D [OF calm_reset] by (metis prod.exhaust unit.exhaust)
  let ?s = "s0\<lparr>ix_table := Some (staging ?name), ix_links_table := Some (staging links_name), ix_aliases_table := Some (staging aliases_name)\<rparr>"
  obtain P1 s1 where col: "collect (fe_embed E) (staging ?name) (get_optimal_batch_size (fe_available_ram E)) (fe_shutdown E) 0
      (parsed_notes C E paths) no_progress ?F ?s = ((Inr False, P1), s1)" "pg_errors P1 = 0"
    using calm_collect [OF assms(1,3), where t = "staging ?name" and i = 0 and P = no_progress and s = ?s
        and k = "get_optimal_batch_size (fe_available_ram E)"] unfolding assms(2)
    by (auto simp: no_progress_def)
  obtain P2 s2 where fl: "flush_batch (fe_embed E) (staging ?name) 1 P1 ?F s1 = ((Inr (), P2), s2)" "pg_errors P2 = 0"
    using calm_flush [OF assms(1), of "staging ?name" 1 P1 s1] col(2) by auto
  obtain k s3 where graph: "stage_graph ?name (fe_order E) P2 ?F s2 = (Inr k, s3)"
    using calm_D [OF calm_graph] by (metis prod.exhaust)
  have gen: "stage_generation C E paths ?F s = ((Inr (Inr k), P2), s3)"
    using reset col fl graph by (simp add: stage_generation_def stage_rest_def or_fail_def bind_ix_def return_ix_def Let_def)
  obtain d s4 where rep: "replace_all [(links_name, staging links_name), (aliases_name, staging aliases_name),
      (?name, staging ?name)] [] ?F s3 = ((Inr (), d), s4)" using calm_replace_all by blast
  obtain st s5 where fin: "finish_generation C E P2 k ?F s4 = (st, s5)" by fastforce
  with gen rep finish_rows [OF fin] show ?thesis by (simp add: reindex_all_def Let_def)
qed


section \<open>A run\<close>

definition sample_full_env :: full_env where
  "sample_full_env = \<lparr>fe_available_ram = None, fe_shutdown = (\<lambda>i. False), fe_embed = (\<lambda>ts. Inr (map (\<lambda>_. [1]) ts)),
     fe_parsers = (\<lambda>p. nv_parsers sample_note_env), fe_completed = id, fe_order = id,
     fe_vector = \<lparr>vs_auto_create = False, vs_min_chunks = 0, vs_index_type = [], vs_num_sub_vectors = 1, vs_distance_type = []\<rparr>,
     fe_dimension = 1, fe_name_of = (\<lambda>e. []), fe_indices = Inr []\<rparr>"

definition sample_entry :: scan_entry where
  "sample_entry = \<lparr>se_parts = [''v'', ''a.md''], se_file = True, se_symlink = False, se_resolved = Inl OSError\<rparr>"

lemma sample_scan: "scan_vault [''v''] (xc_extensions sample_index_conf) [''.git''] [sample_entry] = [sample_entry]"
  "py_join ''/'' (drop (length [''v'']) (se_parts sample_entry)) = ''a.md''"
  by code_simp+

lemma sample_apart: "apart_names sample_index_conf"
  by code_simp

lemma sample_parsed:
  "parsed_notes sample_index_conf sample_full_env [''a.md''] = [(''a.md'', \<lparr>pr_status = Parse_success,
     pr_chunks = [cr_chunk sample_chunk], pr_links = [], pr_aliases = []\<rparr>)]"
  by (simp add: parsed_notes_def sample_full_env_def parse_note_task_def sample_suffix parse_file_result_def
      sample_note_env_def parsed_as_def sample_index_conf_def Let_def)

lemma sample_embeds: "\<exists>rows. embed_chunks (fe_embed sample_full_env) b = Inr rows"
  by (simp add: embed_chunks_def sample_full_env_def)




section \<open>The tables keep the kinds of their rows\<close>

fun is_link_row :: "index_row \<Rightarrow> bool" where
  "is_link_row (LinkRow l) = True"
| "is_link_row _ = False"

fun is_alias_row :: "index_row \<Rightarrow> bool" where
  "is_alias_row (AliasRow a) = True"
| "is_alias_row _ = False"

definition typed_tables :: "index_conf \<Rightarrow> (string \<Rightarrow> index_row list) \<Rightarrow> bool" where
  "typed_tables C rows \<longleftrightarrow> chunks_only (rows (xc_chunks_name C)) \<and>
     list_all is_link_row (rows links_name) \<and> list_all is_alias_row (rows aliases_name)"

text \<open>The handles are closed or open on the tables of their names.\<close>

definition canonical_handles :: "index_conf \<Rightarrow> indexer \<Rightarrow> bool" where
  "canonical_handles C s \<longleftrightarrow> chunks_of (xc_chunks_name C) s = xc_chunks_name C \<and>
     links_of s = links_name \<and> aliases_of s = aliases_name"

lemma alias_records_typed: "list_all is_alias_row (alias_records p al)"
  by (auto simp: alias_records_def list_all_iff)

lemma replaced_typed:
  "list_all P rows \<Longrightarrow> list_all P new \<Longrightarrow> list_all P (replaced col p new rows)"
  by (auto simp: replaced_def list_all_iff)

lemma chunks_only_all: "chunks_only rows \<longleftrightarrow> list_all (\<lambda>r. \<exists>c. r = ChunkRow c) rows"
  by (simp add: chunks_only_def list_all_iff)

lemma note_replaced_typed:
  assumes "typed_tables C rows" and "apart_names C"
  shows "typed_tables C (note_replaced (xc_chunks_name C) links_name aliases_name p chunks links aliases rows)"
proof -
  have "list_all (\<lambda>r. \<exists>c. r = ChunkRow c) (map ChunkRow chunks)" "list_all is_link_row (map LinkRow links)"
    by (simp_all add: list_all_iff)
  with assms replaced_typed alias_records_typed show ?thesis
    by (auto simp: typed_tables_def note_replaced_def chunks_only_all apart_names_def)
qed

lemma generation_typed:
  assumes "generation C E paths (rows (xc_chunks_name C)) (rows links_name) (rows aliases_name)"
  shows "typed_tables C rows"
proof -
  from assms have "link_sound (fst ` set (note_stamps (rows (xc_chunks_name C))) \<union> snd ` set (concat (map alias_entry (rows aliases_name))))
      (concat (map (pr_links \<circ> snd) (successes (parsed_notes C E paths)))) (rows links_name)"
    unfolding generation_def Let_def by blast
  then have "\<forall>r \<in> set (rows links_name). is_link_row r" unfolding link_sound_def by force
  moreover have "list_all is_alias_row (rows aliases_name)"
    using assms alias_records_typed by (auto simp: generation_def Let_def list_all_iff)
  moreover have "chunks_only (rows (xc_chunks_name C))"
    using assms by (auto simp: generation_def Let_def chunks_only_def)
  ultimately show ?thesis by (simp add: typed_tables_def list_all_iff)
qed

lemma reindex_note_typed:
  assumes "reindex_note C E auto p F s = (r, s')" and "handles_open s" and "one_fault F" and "apart_names C"
    and "canonical_handles C s" and "typed_tables C (table_rows s)"
  shows "typed_tables C (table_rows s')"
proof -
  have "distinct [chunks_of (xc_chunks_name C) s, links_of s, aliases_of s]"
    using assms(4,5) by (auto simp: canonical_handles_def apart_names_def)
  from reindex_note_outcome [OF assms(1-3) this] assms(5,6) note_replaced_typed [OF assms(6,4)] show ?thesis
    by (auto simp: reindex_outcome_def Let_def canonical_handles_def split: reindex_status.splits)
qed

lemma full_reindex_typed:
  assumes "reindex_all C E paths F s = (r, s')" and "one_fault F" and "apart_names C"
    and "\<And>xs. set (fe_order E xs) = set xs" and "typed_tables C (table_rows s)"
  shows "typed_tables C (table_rows s')"
proof (cases "\<exists>st. r = Inr st \<and> fs_status st = Completed")
  case True
  then obtain st where st: "r = Inr st" "fs_status st = Completed" by blast
  from reindex_all_completes [OF assms(1) [unfolded st(1)] st(2) assms(3,4)] show ?thesis by (rule generation_typed)
next
  case False
  have "xc_chunks_name C \<notin> staged_names (xc_chunks_name C)" "links_name \<notin> staged_names (xc_chunks_name C)"
    "aliases_name \<notin> staged_names (xc_chunks_name C)" using assms(3) by (auto simp: apart_names_def staged_names_def)
  with reindex_all_preserves [OF assms(1-3)] False assms(5) show ?thesis by (simp add: typed_tables_def)
qed

text \<open>The table of chunks holds chunk rows only, the table of links link rows only and the table of
  aliases alias rows only, and reindexing a note and rebuilding the index keep it so, whatever
  call of the database fails.\<close>

theorem index_rows_typed:
  assumes "typed_tables C (table_rows s)" and "one_fault F" and "apart_names C"
  shows "(reindex_note C E auto p F s = (r, s1) \<longrightarrow> handles_open s \<longrightarrow> canonical_handles C s \<longrightarrow>
      typed_tables C (table_rows s1)) \<and>
    (reindex_all C E' paths F s = (r', s2) \<longrightarrow> (\<forall>xs. set (fe_order E' xs) = set xs) \<longrightarrow>
      typed_tables C (table_rows s2))"
  using reindex_note_typed [OF _ _ assms(2,3) _ assms(1)] full_reindex_typed [OF _ assms(2,3) _ assms(1)] by blast

theorem index_rows_typed_witness:
  "typed_tables sample_index_conf (table_rows (snd (reindex_note sample_index_conf sample_note_env True ''a.md''
      (\<lambda>k. if k = 5 then Some OSError else None) empty_index)))"
proof -
  let ?F = "\<lambda>k. if k = 5 then Some OSError else None"
  have t: "typed_tables sample_index_conf (table_rows empty_index)"
    by (simp add: typed_tables_def table_rows_def empty_index_def chunks_only_def)
  have f: "one_fault ?F" by (simp add: one_fault_def)
  have h: "handles_open empty_index" "canonical_handles sample_index_conf empty_index"
    by (simp_all add: handles_open_def canonical_handles_def empty_index_def chunks_of_def links_of_def aliases_of_def)
  obtain r s' where run: "reindex_note sample_index_conf sample_note_env True ''a.md'' ?F empty_index = (r, s')" by fastforce
  with index_rows_typed [OF t f sample_apart] h show ?thesis by simp
qed

end
