(* ===== verification/Graph_Tools.thy ===== *)
theory Graph_Tools
  imports Link_Tools
begin

text \<open>
  The graph tools of the server (\<open>server/graph_tools.py\<close>): the graph of the links, its
  connected components and its articulation points.  A set of strings is a list without
  repetition; the order in which Python iterates over one is the argument \<open>order\<close>.
\<close>

section \<open>The graph of the links\<close>

record graph_node =
  gn_id :: string
  gn_label :: string
  gn_outlinks :: nat
  gn_backlinks :: nat
  gn_orphan :: bool

type_synonym edge = "string \<times> string"

record graph =
  gr_nodes :: "graph_node list"
  gr_edges :: "edge list"
  gr_orphans :: nat

text \<open>
  \<open>str.title\<close> on Latin-1: a letter after a letter is lowered, any other letter is raised; the
  three letters without an upper form in Latin-1 stay as they are.
\<close>

definition is_cased :: "char \<Rightarrow> bool" where
  "is_cased c = (let n = of_char c :: nat in
     (65 \<le> n \<and> n \<le> 90) \<or> (97 \<le> n \<and> n \<le> 122) \<or> n \<in> {170, 181, 186} \<or> (192 \<le> n \<and> n \<noteq> 215 \<and> n \<noteq> 247))"

definition upper_char :: "char \<Rightarrow> char" where
  "upper_char c = (let n = of_char c :: nat in
     if (97 \<le> n \<and> n \<le> 122) \<or> (224 \<le> n \<and> n \<le> 254 \<and> n \<noteq> 247) then char_of (n - 32) else c)"

fun title_from :: "bool \<Rightarrow> string \<Rightarrow> string" where
  "title_from after_letter [] = []"
| "title_from after_letter (c # cs) =
     (if is_cased c then (if after_letter then lower_char c else upper_char c) # title_from True cs
      else c # title_from False cs)"

definition title_of_path :: "string \<Rightarrow> string" where
  "title_of_path path = title_from False (replace_char (CHR ''_'') '' ''
     (replace_char (CHR ''-'') '' '' (path_stem (path_components path))))"

definition graph_where :: "string option \<Rightarrow> string" where
  "graph_where folder = ''link_type != '' @ sq ''external'' @
     (case folder of None \<Rightarrow> []
      | Some f \<Rightarrow> if f = [] then [] else '' AND from_note_path LIKE '' @ sq (escape_sql_string f @ ''/%''))"

definition new_node :: "string \<Rightarrow> string \<Rightarrow> bool \<Rightarrow> graph_node" where
  "new_node path label orphan =
     \<lparr>gn_id = path, gn_label = label, gn_outlinks = 0, gn_backlinks = 0, gn_orphan = orphan\<rparr>"

definition node_at :: "string \<Rightarrow> graph_node \<Rightarrow> (string, graph_node) dict \<Rightarrow> graph_node" where
  "node_at path fresh nodes = (case dget nodes path of None \<Rightarrow> fresh | Some n \<Rightarrow> n)"

definition add_source :: "link_row \<Rightarrow> (string, graph_node) dict \<Rightarrow> (string, graph_node) dict" where
  "add_source r nodes =
     (let path = lr_from_path r; n = node_at path (new_node path (lr_from_title r) False) nodes in
      dset path (n\<lparr>gn_outlinks := Suc (gn_outlinks n)\<rparr>) nodes)"

definition resolved_link :: "link_row \<Rightarrow> bool" where
  "resolved_link r \<longleftrightarrow> lr_resolved r \<and> lr_to_path r \<noteq> []"

definition add_destination :: "link_row \<Rightarrow> (string, graph_node) dict \<Rightarrow> (string, graph_node) dict" where
  "add_destination r nodes =
     (if resolved_link r
      then let path = lr_to_path r; n = node_at path (new_node path (title_of_path path) False) nodes in
        dset path (n\<lparr>gn_backlinks := Suc (gn_backlinks n)\<rparr>) nodes
      else nodes)"

definition add_orphan :: "catalog_note \<Rightarrow> (string, graph_node) dict \<Rightarrow> (string, graph_node) dict" where
  "add_orphan note nodes =
     (if dhas nodes (cn_path note) then nodes
      else dset (cn_path note) (new_node (cn_path note) (cn_title note) True) nodes)"

definition add_edge :: "link_row \<Rightarrow> edge list \<Rightarrow> edge list" where
  "add_edge r edges =
     (let e = (lr_from_path r, lr_to_path r) in
      if resolved_link r \<and> e \<notin> set edges then edges @ [e] else edges)"

definition graph_of :: "link_row list \<Rightarrow> catalog_note list \<Rightarrow> graph" where
  "graph_of links all_notes =
     (let nodes = map snd (fold add_orphan all_notes (fold add_destination links (fold add_source links []))) in
      \<lparr>gr_nodes = nodes, gr_edges = fold add_edge links [], gr_orphans = length (filter gn_orphan nodes)\<rparr>)"

definition graph_data ::
  "link_query result \<Rightarrow> (string option \<Rightarrow> nat \<Rightarrow> catalog_note list result) result \<Rightarrow> string
     \<Rightarrow> string option \<Rightarrow> bool \<Rightarrow> graph answer" where
  "graph_data table catalog ref folder include_orphans =
     tool_answer ref (bind_result table (\<lambda>query.
       bind_result catalog (\<lambda>list_notes.
       bind_result (query (Some (graph_where folder)) (Some 100000)) (\<lambda>links.
       bind_result (if include_orphans then list_notes folder 10000 else Inr []) (\<lambda>all_notes.
         Inr (Inr (graph_of links all_notes)))))))"

text \<open>
  \<open>suggest_links\<close> asks the searcher for \<open>find_similar\<close>, a method that \<open>VaultSearcher\<close> does not have:
  the call raises an \<open>AttributeError\<close>, which the handler turns into the internal error.
\<close>

definition suggest_links :: "string \<Rightarrow> string \<Rightarrow> 'a answer" where
  "suggest_links ref path =
     (if strip path = [] then Inl ''Error: path cannot be empty.'' else tool_answer ref (Inl OtherError))"

section \<open>Adjacency\<close>

text \<open>
  The table of neighbours is a \<open>defaultdict(set)\<close>; \<open>order\<close> is the order in which Python iterates
  over one of the sets, which is fixed while the sets do not change.
\<close>

type_synonym adj_map = "(string, string list) dict"

definition add_neighbour :: "string \<Rightarrow> string \<Rightarrow> adj_map \<Rightarrow> adj_map" where
  "add_neighbour a b adj =
     (let ns = (case dget adj a of None \<Rightarrow> [] | Some ns \<Rightarrow> ns) in
      dset a (if b \<in> set ns then ns else ns @ [b]) adj)"

definition link_both :: "edge \<Rightarrow> adj_map \<Rightarrow> adj_map" where
  "link_both e adj = add_neighbour (snd e) (fst e) (add_neighbour (fst e) (snd e) adj)"

definition adjacency :: "edge list \<Rightarrow> adj_map" where
  "adjacency edges = fold link_both edges []"

definition iterated :: "(string list \<Rightarrow> string list) \<Rightarrow> adj_map \<Rightarrow> adj_map" where
  "iterated order adj = map (\<lambda>(a, ns). (a, order ns)) adj"

definition neighbours :: "adj_map \<Rightarrow> string \<Rightarrow> string list" where
  "neighbours adj a = (case dget adj a of None \<Rightarrow> [] | Some ns \<Rightarrow> ns)"

lemma neighbours_keys: "neighbours adj a \<noteq> [] \<Longrightarrow> a \<in> fst ` set adj"
  by (cases "a \<in> fst ` set adj") (auto simp: neighbours_def map_of_eq_None_iff [symmetric])

section \<open>Connected components\<close>

lemma unvisited_less:
  "a \<in> K \<Longrightarrow> a \<notin> V \<Longrightarrow> finite K \<Longrightarrow> card (K - insert a V) < card (K - V)"
  by (rule psubset_card_mono) auto

lemma unvisited_same: "a \<notin> K \<Longrightarrow> K - insert a V = K - V"
  by auto

text \<open>The inner loop of \<open>bfs\<close>: the queue, the visited nodes and the cluster.\<close>

function bfs ::
  "adj_map \<Rightarrow> string list \<Rightarrow> string list \<Rightarrow> string list \<Rightarrow> string list \<times> string list" where
  "bfs adj [] visited cluster = (cluster, visited)"
| "bfs adj (node # queue) visited cluster =
     (if node \<in> set visited then bfs adj queue visited cluster
      else bfs adj (queue @ filter (\<lambda>n. n \<notin> insert node (set visited)) (neighbours adj node))
        (node # visited) (cluster @ [node]))"
  by pat_completeness auto

termination
proof (relation "measures [\<lambda>(adj, queue, visited, cluster). card (fst ` set adj - set visited),
    \<lambda>(adj, queue, visited, cluster). length queue]", goal_cases)
  case (3 adj node queue visited cluster)
  show ?case
  proof (cases "node \<in> fst ` set adj")
    case True
    then show ?thesis using unvisited_less [of node "fst ` set adj" "set visited"] 3 by simp
  next
    case False
    then have "neighbours adj node = []" using neighbours_keys by blast
    then show ?thesis using unvisited_same [OF False, of "set visited"] by simp
  qed
qed simp_all

fun link_components :: "nat \<Rightarrow> adj_map \<Rightarrow> string list \<Rightarrow> string list \<Rightarrow> string list list" where
  "link_components m adj [] visited = []"
| "link_components m adj (node # rest) visited =
     (if node \<in> set visited then link_components m adj rest visited
      else let (cluster, visited') = bfs adj [node] visited [] in
        (if m \<le> length cluster then [cluster] else []) @ link_components m adj rest visited')"

section \<open>The report of the clusters\<close>

record cluster_report =
  cr_id :: nat
  cr_size :: nat
  cr_density :: rat
  cr_notes :: "(string \<times> string) list"
  cr_truncated :: bool

record clusters_report =
  cl_total :: nat
  cl_largest :: nat
  cl_clusters :: "cluster_report list"

definition node_map :: "graph_node list \<Rightarrow> (string, graph_node) dict" where
  "node_map nodes = fold (\<lambda>n. dset (gn_id n) n) nodes []"

definition node_label :: "(string, graph_node) dict \<Rightarrow> string \<Rightarrow> string" where
  "node_label nodes path = (case dget nodes path of None \<Rightarrow> path | Some n \<Rightarrow> gn_label n)"

definition internal_edges :: "edge list \<Rightarrow> string list \<Rightarrow> string set set" where
  "internal_edges edges cluster =
     set (map (\<lambda>(a, b). {a, b}) (filter (\<lambda>(a, b). a \<in> set cluster \<and> b \<in> set cluster \<and> a \<noteq> b) edges))"

definition cluster_density :: "edge list \<Rightarrow> string list \<Rightarrow> rat" where
  "cluster_density edges cluster =
     (let n = of_nat (length cluster) :: rat in
      of_nat (card (internal_edges edges cluster)) / max (n * (n - 1) / 2) 1)"

definition cluster_entry :: "(string, graph_node) dict \<Rightarrow> edge list \<Rightarrow> nat \<times> string list \<Rightarrow> cluster_report" where
  "cluster_entry nodes edges entry =
     (let (i, cluster) = entry in
      \<lparr>cr_id = i + 1, cr_size = length cluster, cr_density = py_round 3 (cluster_density edges cluster),
       cr_notes = map (\<lambda>path. (path, node_label nodes path)) (take 20 cluster),
       cr_truncated = 20 < length cluster\<rparr>)"

definition by_size :: "string list list \<Rightarrow> string list list" where
  "by_size clusters = sort_key (\<lambda>c. - int (length c)) clusters"

definition clusters_of :: "(string list \<Rightarrow> string list) \<Rightarrow> nat \<Rightarrow> graph \<Rightarrow> clusters_report" where
  "clusters_of order m g =
     (if gr_edges g = [] then \<lparr>cl_total = 0, cl_largest = 0, cl_clusters = []\<rparr>
      else let adj = iterated order (adjacency (gr_edges g));
          sorted_clusters = by_size (link_components m adj (dkeys adj) []);
          result_clusters = map (cluster_entry (node_map (gr_nodes g)) (gr_edges g))
            (List.enumerate 0 sorted_clusters)
        in \<lparr>cl_total = length result_clusters,
            cl_largest = (case sorted_clusters of [] \<Rightarrow> 0 | c # _ \<Rightarrow> length c),
            cl_clusters = take 20 result_clusters\<rparr>)"

definition find_link_clusters ::
  "(string list \<Rightarrow> string list) \<Rightarrow> link_query result
     \<Rightarrow> (string option \<Rightarrow> nat \<Rightarrow> catalog_note list result) result \<Rightarrow> string \<Rightarrow> int
     \<Rightarrow> string option \<Rightarrow> clusters_report answer" where
  "find_link_clusters order table catalog ref min_cluster_size folder =
     (case graph_data table catalog ref folder False of
        Inl e \<Rightarrow> Inl e
      | Inr g \<Rightarrow> Inr (clusters_of order (nat (clamp 2 100 min_cluster_size)) g))"


section \<open>Articulation points\<close>

text \<open>
  The loop of \<open>find_bridge_notes\<close>.  The top of the stack is the head of the list; an entry is a
  node with what its iterator has still to give.
\<close>

record tarjan =
  tj_discovery :: "(string, nat) dict"
  tj_low :: "(string, nat) dict"
  tj_parent :: "(string, string option) dict"
  tj_children :: "(string, nat) dict"
  tj_separated :: "(string, nat) dict"
  tj_scores :: "(string, nat) dict"
  tj_clock :: nat
  tj_stack :: "(string \<times> string list) list"

definition nat_at :: "(string, nat) dict \<Rightarrow> string \<Rightarrow> nat" where
  "nat_at d k = (case dget d k of None \<Rightarrow> 0 | Some n \<Rightarrow> n)"

definition parent_of :: "tarjan \<Rightarrow> string \<Rightarrow> string option" where
  "parent_of s k = (case dget (tj_parent s) k of None \<Rightarrow> None | Some p \<Rightarrow> p)"

definition sorted_neighbours :: "adj_map \<Rightarrow> string \<Rightarrow> string list" where
  "sorted_neighbours adj a = sort_key text_key (neighbours adj a)"

definition enter_node :: "adj_map \<Rightarrow> string \<Rightarrow> string option \<Rightarrow> tarjan \<Rightarrow> tarjan" where
  "enter_node adj v p s =
     (let clock = Suc (tj_clock s) in
      s\<lparr>tj_parent := dset v p (tj_parent s), tj_clock := clock,
        tj_discovery := dset v clock (tj_discovery s), tj_low := dset v clock (tj_low s),
        tj_stack := (v, sorted_neighbours adj v) # tj_stack s\<rparr>)"

definition leave_node :: "string \<Rightarrow> tarjan \<Rightarrow> tarjan" where
  "leave_node v s =
     (case parent_of s v of
        None \<Rightarrow>
          if 1 < nat_at (tj_children s) v
          then s\<lparr>tj_scores := dset v (nat_at (tj_children s) v - 1) (tj_scores s)\<rparr> else s
      | Some p \<Rightarrow>
          (let s1 = s\<lparr>tj_low := dset p (min (nat_at (tj_low s) p) (nat_at (tj_low s) v)) (tj_low s)\<rparr>;
               s2 = (if parent_of s1 p \<noteq> None \<and> nat_at (tj_discovery s1) p \<le> nat_at (tj_low s1) v
                     then s1\<lparr>tj_separated := count_key p (tj_separated s1)\<rparr> else s1)
           in if nat_at (tj_separated s2) v \<noteq> 0
              then s2\<lparr>tj_scores := dset v (nat_at (tj_separated s2) v) (tj_scores s2)\<rparr> else s2))"

definition visit_neighbour :: "adj_map \<Rightarrow> string \<Rightarrow> string \<Rightarrow> tarjan \<Rightarrow> tarjan" where
  "visit_neighbour adj v w s =
     (if \<not> dhas (tj_discovery s) w
      then enter_node adj w (Some v) (s\<lparr>tj_children := count_key v (tj_children s)\<rparr>)
      else if parent_of s v \<noteq> Some w
      then s\<lparr>tj_low := dset v (min (nat_at (tj_low s) v) (nat_at (tj_discovery s) w)) (tj_low s)\<rparr>
      else s)"

fun tarjan_step :: "adj_map \<Rightarrow> tarjan \<Rightarrow> tarjan" where
  "tarjan_step adj s = (case tj_stack s of
       [] \<Rightarrow> s
     | (v, []) # rest \<Rightarrow> leave_node v (s\<lparr>tj_stack := rest\<rparr>)
     | (v, w # ws) # rest \<Rightarrow> visit_neighbour adj v w (s\<lparr>tj_stack := (v, ws) # rest\<rparr>))"

declare tarjan_step.simps [simp del]

text \<open>What is left to do: the entries of the stack and the neighbours of the nodes not yet discovered.\<close>

definition tarjan_left :: "adj_map \<Rightarrow> tarjan \<Rightarrow> nat" where
  "tarjan_left adj s =
     (\<Sum>a \<in> fst ` set adj - set (dkeys (tj_discovery s)). 1 + 2 * length (neighbours adj a)) +
     (\<Sum>(v, ws) \<leftarrow> tj_stack s. 1 + 2 * length ws)"

lemma leave_keeps: "tj_stack (leave_node v s) = tj_stack s" "tj_discovery (leave_node v s) = tj_discovery s"
  by (simp_all add: leave_node_def Let_def split: option.split)

lemma keys_after: "fst ` set (dset w x d) = insert w (fst ` set d)"
  using set_dkeys_dset [of w x d] by (simp only: set_map)

lemma enter_left:
  assumes "\<not> dhas (tj_discovery s) w"
  shows "tarjan_left adj (enter_node adj w p s) \<le> tarjan_left adj s + 1"
proof (cases "w \<in> fst ` set adj")
  case True
  let ?K = "fst ` set adj" and ?D = "set (dkeys (tj_discovery s))"
  let ?f = "\<lambda>a. 1 + 2 * length (neighbours adj a)"
  have "w \<in> ?K - ?D" "?K - ?D - {w} = ?K - insert w ?D" using True assms by (auto simp: dhas_iff)
  then have "sum ?f (?K - ?D) = ?f w + sum ?f (?K - insert w ?D)" using sum.remove [of "?K - ?D" w ?f] by simp
  then show ?thesis
    by (simp add: tarjan_left_def enter_node_def Let_def sorted_neighbours_def keys_after)
next
  case False
  then have "neighbours adj w = []" using neighbours_keys by blast
  moreover have "fst ` set adj - insert w (set (dkeys (tj_discovery s))) = fst ` set adj - set (dkeys (tj_discovery s))"
    using False by auto
  ultimately show ?thesis
    by (simp add: tarjan_left_def enter_node_def Let_def sorted_neighbours_def keys_after)
qed

lemma step_left: "tj_stack s \<noteq> [] \<Longrightarrow> tarjan_left adj (tarjan_step adj s) < tarjan_left adj s"
proof -
  assume "tj_stack s \<noteq> []"
  then obtain v ws rest where st: "tj_stack s = (v, ws) # rest" by (metis neq_Nil_conv surj_pair)
  show ?thesis
  proof (cases ws)
    case Nil
    then show ?thesis by (simp add: tarjan_step.simps st tarjan_left_def leave_keeps)
  next
    case (Cons w ws')
    let ?s = "s\<lparr>tj_stack := (v, ws') # rest\<rparr>"
    have less: "tarjan_left adj ?s + 1 < tarjan_left adj s" by (simp add: tarjan_left_def st Cons)
    have "tarjan_left adj (visit_neighbour adj v w ?s) \<le> tarjan_left adj ?s + 1"
    proof (cases "dhas (tj_discovery ?s) w")
      case True
      then show ?thesis by (simp add: visit_neighbour_def tarjan_left_def)
    next
      case False
      let ?t = "?s\<lparr>tj_children := count_key v (tj_children ?s)\<rparr>"
      have "tarjan_left adj ?t = tarjan_left adj ?s" by (simp add: tarjan_left_def)
      then show ?thesis using enter_left [of ?t w adj "Some v"] False by (simp add: visit_neighbour_def)
    qed
    then show ?thesis using less by (simp add: tarjan_step.simps st Cons)
  qed
qed

function tarjan_loop :: "adj_map \<Rightarrow> tarjan \<Rightarrow> tarjan" where
  "tarjan_loop adj s = (if tj_stack s = [] then s else tarjan_loop adj (tarjan_step adj s))"
  by pat_completeness auto

termination
  by (relation "measure (\<lambda>(adj, s). tarjan_left adj s)") (simp_all add: step_left)

declare tarjan_loop.simps [simp del]

definition tarjan_root :: "adj_map \<Rightarrow> string \<Rightarrow> tarjan \<Rightarrow> tarjan" where
  "tarjan_root adj start s =
     (if dhas (tj_discovery s) start then s else tarjan_loop adj (enter_node adj start None s))"

definition tarjan_start :: tarjan where
  "tarjan_start = \<lparr>tj_discovery = [], tj_low = [], tj_parent = [], tj_children = [], tj_separated = [],
     tj_scores = [], tj_clock = 0, tj_stack = []\<rparr>"

definition articulation_scores :: "adj_map \<Rightarrow> (string, nat) dict" where
  "articulation_scores adj = tj_scores (fold (tarjan_root adj) (sort_key text_key (dkeys adj)) tarjan_start)"

record bridge_note =
  bg_path :: string
  bg_title :: string
  bg_score :: nat
  bg_connections :: nat

record bridge_report =
  bg_total :: nat
  bg_returned :: nat
  bg_has_more :: bool
  bg_notes :: "bridge_note list"

definition bridges_of :: "nat \<Rightarrow> graph \<Rightarrow> bridge_report" where
  "bridges_of limit g =
     (if gr_edges g = [] then \<lparr>bg_total = 0, bg_returned = 0, bg_has_more = False, bg_notes = []\<rparr>
      else let adj = adjacency (gr_edges g);
          ranked = sort_key (\<lambda>i. (- int (snd i), text_key (fst i))) (articulation_scores adj);
          found = map (\<lambda>(path, score). \<lparr>bg_path = path, bg_title = node_label (node_map (gr_nodes g)) path,
            bg_score = score, bg_connections = length (neighbours adj path)\<rparr>) (take limit ranked)
        in \<lparr>bg_total = length ranked, bg_returned = length found, bg_has_more = length found < length ranked,
            bg_notes = found\<rparr>)"

definition find_bridge_notes ::
  "link_query result \<Rightarrow> (string option \<Rightarrow> nat \<Rightarrow> catalog_note list result) result \<Rightarrow> string \<Rightarrow> int
     \<Rightarrow> string option \<Rightarrow> bridge_report answer" where
  "find_bridge_notes table catalog ref limit folder =
     (case graph_data table catalog ref folder False of
        Inl e \<Rightarrow> Inl e
      | Inr g \<Rightarrow> Inr (bridges_of (nat (clamp 1 100 limit)) g))"

section \<open>The clusters are the connected components\<close>

definition linked :: "edge list \<Rightarrow> (string \<times> string) set" where
  "linked edges = (set edges \<union> (set edges)\<inverse>)\<^sup>*"

definition edge_ends :: "edge list \<Rightarrow> string set" where
  "edge_ends edges = fst ` set edges \<union> snd ` set edges"

definition adjacent :: "adj_map \<Rightarrow> (string \<times> string) set" where
  "adjacent adj = {(a, b). b \<in> set (neighbours adj a)}"

lemma neighbours_add:
  "set (neighbours (add_neighbour a b adj) x) = set (neighbours adj x) \<union> (if x = a then {b} else {})"
proof (cases "x = a")
  case True
  then show ?thesis
    unfolding neighbours_def add_neighbour_def Let_def dget_dset by (cases "dget adj a") (simp_all add: insert_absorb)
next
  case False
  then have "neighbours (add_neighbour a b adj) x = neighbours adj x"
    by (simp add: neighbours_def add_neighbour_def Let_def dget_dset)
  then show ?thesis using False by simp
qed


lemma set_keys_add: "set (dkeys (add_neighbour a b adj)) = insert a (set (dkeys adj))"
  unfolding add_neighbour_def Let_def by (rule set_dkeys_dset)

lemma distinct_keys_add: "distinct (dkeys adj) \<Longrightarrow> distinct (dkeys (add_neighbour a b adj))"
  unfolding add_neighbour_def Let_def by (rule distinct_dkeys_dset)

lemma neighbours_fold_link:
  "set (neighbours (fold link_both edges adj) x) =
     set (neighbours adj x) \<union> {b. (x, b) \<in> set edges \<or> (b, x) \<in> set edges}"
proof (induction edges arbitrary: adj)
  case Nil
  then show ?case by simp
next
  case (Cons e edges)
  have "set (neighbours (link_both e adj) x) = set (neighbours adj x) \<union> {b. (x, b) = e \<or> (b, x) = e}"
    by (cases e) (auto simp: link_both_def neighbours_add)
  then show ?case by (simp only: fold_simps Cons.IH) auto
qed

lemma keys_fold_link: "set (dkeys (fold link_both edges adj)) = set (dkeys adj) \<union> edge_ends edges"
proof (induction edges arbitrary: adj)
  case Nil
  then show ?case by (simp add: edge_ends_def)
next
  case (Cons e edges)
  have "set (dkeys (link_both e adj)) = set (dkeys adj) \<union> {fst e, snd e}"
    unfolding link_both_def set_keys_add by auto
  then show ?case by (simp only: fold_simps Cons.IH) (auto simp: edge_ends_def)
qed

lemma neighbours_adjacency: "set (neighbours (adjacency edges) x) = {b. (x, b) \<in> set edges \<union> (set edges)\<inverse>}"
  by (auto simp: adjacency_def neighbours_fold_link) (simp_all add: neighbours_def)

lemma keys_adjacency: "set (dkeys (adjacency edges)) = edge_ends edges"
  by (simp only: adjacency_def keys_fold_link) simp

lemma keys_iterated: "dkeys (iterated order adj) = dkeys adj"
  by (simp add: iterated_def comp_def case_prod_beta')

lemma neighbours_iterated:
  "(\<And>ns. set (order ns) = set ns) \<Longrightarrow> set (neighbours (iterated order adj) x) = set (neighbours adj x)"
  unfolding neighbours_def iterated_def map_of_map by (cases "dget adj x") simp_all

lemma adjacent_adjacency:
  "(\<And>ns. set (order ns) = set ns) \<Longrightarrow> adjacent (iterated order (adjacency edges)) = set edges \<union> (set edges)\<inverse>"
  by (auto simp: adjacent_def neighbours_iterated neighbours_adjacency)

lemma bfs_shape:
  "\<exists>new. bfs adj queue visited cluster = (cluster @ new, rev new @ visited) \<and> distinct new \<and>
     set new \<inter> set visited = {} \<and> set queue \<subseteq> set new \<union> set visited \<and>
     set new \<subseteq> (adjacent adj)\<^sup>* `` set queue \<and>
     adjacent adj `` set new \<subseteq> set new \<union> set visited"
proof (induction adj queue visited cluster rule: bfs.induct)
  case (1 adj visited cluster)
  show ?case by simp
next
  case (2 adj node queue visited cluster)
  show ?case
  proof (cases "node \<in> set visited")
    case True
    have "(adjacent adj)\<^sup>* `` set queue \<subseteq> (adjacent adj)\<^sup>* `` set (node # queue)" by auto
    then show ?thesis using 2(1) [OF True] True by auto
  next
    case False
    let ?queue = "queue @ filter (\<lambda>n. n \<notin> insert node (set visited)) (neighbours adj node)"
    obtain new where new: "bfs adj ?queue (node # visited) (cluster @ [node]) =
        ((cluster @ [node]) @ new, rev new @ node # visited)" "distinct new"
        "set new \<inter> set (node # visited) = {}" "set ?queue \<subseteq> set new \<union> set (node # visited)"
        "set new \<subseteq> (adjacent adj)\<^sup>* `` set ?queue" "adjacent adj `` set new \<subseteq> set new \<union> set (node # visited)"
      using 2(2) [OF False] by blast
    have "(adjacent adj)\<^sup>* `` set ?queue \<subseteq> (adjacent adj)\<^sup>* `` set (node # queue)"
      by (auto simp: adjacent_def Image_iff intro: converse_rtrancl_into_rtrancl)
    moreover have "adjacent adj `` {node} \<subseteq> set (node # new) \<union> set visited"
      using new(4) by (auto simp: adjacent_def)
    ultimately show ?thesis using new False by (intro exI [of _ "node # new"]) auto
  qed
qed

lemma closed_rtrancl: "R `` S \<subseteq> S \<Longrightarrow> R\<^sup>* `` S = S"
proof -
  assume closed: "R `` S \<subseteq> S"
  have "(a, b) \<in> R\<^sup>* \<Longrightarrow> a \<in> S \<Longrightarrow> b \<in> S" for a b
    by (induction rule: rtrancl_induct) (use closed in auto)
  then show ?thesis by blast
qed

lemma bfs_component:
  assumes "sym (adjacent adj)" "adjacent adj `` set visited \<subseteq> set visited" "start \<notin> set visited"
  shows "\<exists>new. bfs adj [start] visited [] = (new, rev new @ visited) \<and> distinct new \<and>
    set new = (adjacent adj)\<^sup>* `` {start} \<and> set new \<inter> set visited = {}"
proof -
  let ?R = "adjacent adj"
  obtain new where new: "bfs adj [start] visited [] = (new, rev new @ visited)" "distinct new"
      "set new \<inter> set visited = {}" "start \<in> set new \<union> set visited" "set new \<subseteq> ?R\<^sup>* `` {start}"
      "?R `` set new \<subseteq> set new \<union> set visited"
    using bfs_shape [of adj "[start]" visited "[]"] by auto
  have "?R `` set new \<subseteq> set new"
  proof
    fix b assume b: "b \<in> ?R `` set new"
    then obtain a where a: "a \<in> set new" "(a, b) \<in> ?R" by blast
    have "b \<notin> set visited"
      using assms(1,2) a new(3) symD [OF assms(1) a(2)] by blast
    then show "b \<in> set new" using b new(6) by blast
  qed
  then have "?R\<^sup>* `` {start} \<subseteq> set new" using closed_rtrancl [of ?R "set new"] new(4) assms(3) by blast
  then show ?thesis using new by blast
qed

lemma link_components_ok:
  assumes "sym (adjacent adj)" "adjacent adj `` set visited \<subseteq> set visited"
  shows "set ` set (link_components m adj keys visited) =
      {C. \<exists>a \<in> set keys - set visited. C = (adjacent adj)\<^sup>* `` {a} \<and> m \<le> card C} \<and>
    (\<forall>c \<in> set (link_components m adj keys visited). distinct c \<and> set c \<inter> set visited = {}) \<and>
    distinct (map set (link_components m adj keys visited))"
  using assms(2)
proof (induction keys arbitrary: visited)
  case Nil
  then show ?case by simp
next
  case (Cons node rest)
  let ?R = "adjacent adj"
  show ?case
  proof (cases "node \<in> set visited")
    case True
    then have "set (node # rest) - set visited = set rest - set visited" by auto
    then show ?thesis using Cons.IH [OF Cons.prems] True by simp
  next
    case False
    obtain new where new: "bfs adj [node] visited [] = (new, rev new @ visited)" "distinct new"
        "set new = ?R\<^sup>* `` {node}" "set new \<inter> set visited = {}"
      using bfs_component [OF assms(1) Cons.prems False] by blast
    let ?V = "rev new @ visited"
    have "?R `` (?R\<^sup>* `` {node}) \<subseteq> ?R\<^sup>* `` {node}" by (auto intro: rtrancl_into_rtrancl)
    then have closed: "?R `` set ?V \<subseteq> set ?V" using Cons.prems new(3) by auto
    note IH = Cons.IH [OF closed]
    have same: "?R\<^sup>* `` {a} = set new" if "a \<in> set new" for a
    proof -
      have "(node, a) \<in> ?R\<^sup>*" using that new(3) by blast
      moreover from this have "(a, node) \<in> ?R\<^sup>*" using sym_rtrancl [OF assms(1)] by (meson symD)
      ultimately show ?thesis unfolding new(3) by (auto intro: rtrancl_trans)
    qed
    have node: "node \<in> set new" using new(3) by simp
    have split: "{C. \<exists>a \<in> set (node # rest) - set visited. C = ?R\<^sup>* `` {a} \<and> m \<le> card C} =
        (if m \<le> card (set new) then {set new} else {}) \<union>
        {C. \<exists>a \<in> set rest - set ?V. C = ?R\<^sup>* `` {a} \<and> m \<le> card C}" (is "?L = ?M \<union> ?N")
    proof (intro equalityI subsetI)
      fix C assume "C \<in> ?L"
      then obtain a where a: "a \<in> set (node # rest) - set visited" "C = ?R\<^sup>* `` {a}" "m \<le> card C" by blast
      show "C \<in> ?M \<union> ?N"
      proof (cases "a \<in> set new")
        case True
        then show ?thesis using a same [OF True] by simp
      next
        case False
        then have "a \<in> set rest - set ?V" using a(1) node by auto
        then show ?thesis using a(2,3) by blast
      qed
    next
      fix C assume "C \<in> ?M \<union> ?N"
      then show "C \<in> ?L"
      proof
        assume "C \<in> ?M"
        then have "C = ?R\<^sup>* `` {node}" "m \<le> card C" using new(3) by (simp_all split: if_splits)
        then show ?thesis using False by auto
      qed auto
    qed
    have card: "card (set new) = length new" using new(2) by (simp add: distinct_card)
    have other: "set new \<notin> set ` set (link_components m adj rest ?V)"
    proof
      assume "set new \<in> set ` set (link_components m adj rest ?V)"
      then obtain c where "c \<in> set (link_components m adj rest ?V)" "set c = set new" by (metis imageE)
      moreover from this have "set c \<inter> set ?V = {}" using IH by blast
      ultimately show False using node by auto
    qed
    have unfold: "link_components m adj (node # rest) visited =
        (if m \<le> length new then [new] else []) @ link_components m adj rest ?V"
      using False new(1) by simp
    have sets: "set ` set (link_components m adj (node # rest) visited) =
        (if m \<le> card (set new) then {set new} else {}) \<union> set ` set (link_components m adj rest ?V)"
      unfolding unfold card by simp
    have "\<forall>c \<in> set (link_components m adj (node # rest) visited). distinct c \<and> set c \<inter> set visited = {}"
      unfolding unfold using IH new(2,4) by auto
    moreover have "distinct (map set (link_components m adj (node # rest) visited))"
      unfolding unfold using IH other by auto
    ultimately show ?thesis unfolding sets split using IH by blast
  qed
qed


lemma length_by_size: "length (by_size cs) = length cs"
  by (simp add: by_size_def)

lemma by_size_sorted: "sorted_wrt (\<lambda>c d. length d \<le> length c) (by_size cs)"
proof -
  have "sorted (map (\<lambda>c. - int (length c)) (by_size cs))" unfolding by_size_def by (rule sorted_sort_key)
  then show ?thesis unfolding sorted_map by (rule sorted_wrt_mono_rel [rotated]) simp
qed

lemma by_size_sets: "set (by_size cs) = set cs" "distinct (map set (by_size cs)) = distinct (map set cs)"
  by (simp_all add: by_size_def distinct_map distinct_sort inj_on_def)

lemma clusters_of_ok:
  assumes order: "\<And>ns. set (order ns) = set ns"
  shows "\<exists>cs. distinct (map set cs) \<and> (\<forall>c \<in> set cs. distinct c) \<and> sorted_wrt (\<lambda>c d. length d \<le> length c) cs \<and>
    set ` set cs = {C. \<exists>a \<in> edge_ends (gr_edges g). C = linked (gr_edges g) `` {a} \<and> m \<le> card C} \<and>
    clusters_of order m g = \<lparr>cl_total = length cs, cl_largest = (if cs = [] then 0 else length (hd cs)),
      cl_clusters = take 20 (map (cluster_entry (node_map (gr_nodes g)) (gr_edges g)) (List.enumerate 0 cs))\<rparr>"
proof (cases "gr_edges g = []")
  case True
  then show ?thesis by (intro exI [of _ "[]"]) (simp add: edge_ends_def clusters_of_def)
next
  case False
  let ?E = "gr_edges g"
  let ?adj = "iterated order (adjacency ?E)"
  let ?cs = "link_components m ?adj (dkeys ?adj) []"
  have R: "adjacent ?adj = set ?E \<union> (set ?E)\<inverse>" using order by (rule adjacent_adjacency)
  have sym: "sym (adjacent ?adj)" unfolding R by (rule sym_Un_converse)
  have keys: "set (dkeys ?adj) = edge_ends ?E" unfolding keys_iterated keys_adjacency ..
  have closed: "adjacent ?adj `` set [] \<subseteq> set []" by simp
  note ok = link_components_ok [OF sym closed, of m "dkeys ?adj"]
  have "set ` set ?cs = {C. \<exists>a \<in> edge_ends ?E. C = linked ?E `` {a} \<and> m \<le> card C}"
    unfolding conjunct1 [OF ok] keys linked_def R by simp
  moreover have "clusters_of order m g = \<lparr>cl_total = length (by_size ?cs),
      cl_largest = (if by_size ?cs = [] then 0 else length (hd (by_size ?cs))),
      cl_clusters = take 20 (map (cluster_entry (node_map (gr_nodes g)) ?E) (List.enumerate 0 (by_size ?cs)))\<rparr>"
    using False by (simp add: clusters_of_def Let_def split: list.split)
  ultimately show ?thesis
    using ok by (intro exI [of _ "by_size ?cs"]) (simp add: by_size_sets by_size_sorted)
qed

text \<open>C19.
  The clusters that \<open>find_link_clusters\<close> answers are the connected components of the graph of the
  resolved links, read in both directions, that have at least the required number of notes (which
  the tool clamps to 2..100): every one of them, each once and without a repeated note, ordered
  by decreasing size, whatever the order in which a set of neighbours is iterated.  The answer
  counts them all, describes the first twenty and reports the size of the largest.
\<close>

theorem link_clusters_are_components:
  assumes "graph_data table catalog ref folder False = Inr g" "\<And>ns. set (order ns) = set ns"
  shows "\<exists>cs. distinct (map set cs) \<and> (\<forall>c \<in> set cs. distinct c) \<and> sorted_wrt (\<lambda>c d. length d \<le> length c) cs \<and>
    set ` set cs = {C. \<exists>a \<in> edge_ends (gr_edges g). C = linked (gr_edges g) `` {a} \<and>
      nat (max 2 (min size_wanted 100)) \<le> card C} \<and>
    find_link_clusters order table catalog ref size_wanted folder =
      Inr \<lparr>cl_total = length cs, cl_largest = (if cs = [] then 0 else length (hd cs)),
        cl_clusters = take 20 (map (cluster_entry (node_map (gr_nodes g)) (gr_edges g)) (List.enumerate 0 cs))\<rparr>"
  using clusters_of_ok [OF assms(2), of g "nat (max 2 (min size_wanted 100))"] assms(1)
  by (simp add: find_link_clusters_def clamp_def)

definition sample_edge_link :: "string \<Rightarrow> string \<Rightarrow> link_row" where
  "sample_edge_link a b = (sample_link a b b)\<lparr>lr_resolved := True\<rparr>"

definition sample_web :: "link_row list" where
  "sample_web = [sample_edge_link ''a'' ''b'', sample_edge_link ''c'' ''d'', sample_edge_link ''e'' ''d'']"

definition sample_graph :: graph where
  "sample_graph = graph_of sample_web []"

lemma sample_graph_data:
  "graph_data (Inr (\<lambda>w n. Inr sample_web)) (Inr (\<lambda>f n. Inr [])) ''0'' None False = Inr sample_graph"
  by (simp add: graph_data_def tool_answer_def sample_graph_def)

lemma sample_graph_edges: "gr_edges sample_graph = [(''a'', ''b''), (''c'', ''d''), (''e'', ''d'')]"
  by (simp add: sample_graph_def graph_of_def sample_web_def sample_edge_link_def sample_link_def add_edge_def
      resolved_link_def Let_def)

lemma sample_components:
  "link_components 3 (iterated rev (adjacency (gr_edges sample_graph))) [''a'', ''b'', ''c'', ''d'', ''e''] [] =
     [[''c'', ''d'', ''e'']]"
  by (simp add: sample_graph_edges adjacency_def link_both_def add_neighbour_def iterated_def neighbours_def)


lemma sample_link_clusters:
  "(\<exists>cs. set ` set cs = {C. \<exists>a \<in> edge_ends (gr_edges sample_graph). C = linked (gr_edges sample_graph) `` {a} \<and>
      nat (max 2 (min 3 100)) \<le> card C} \<and>
    find_link_clusters rev (Inr (\<lambda>w n. Inr sample_web)) (Inr (\<lambda>f n. Inr [])) ''0'' 3 None =
      Inr \<lparr>cl_total = length cs, cl_largest = (if cs = [] then 0 else length (hd cs)),
        cl_clusters = take 20 (map (cluster_entry (node_map (gr_nodes sample_graph)) (gr_edges sample_graph))
          (List.enumerate 0 cs))\<rparr>) \<and>
   link_components 3 (iterated rev (adjacency (gr_edges sample_graph))) [''a'', ''b'', ''c'', ''d'', ''e''] [] =
     [[''c'', ''d'', ''e'']]"
  using link_clusters_are_components [OF sample_graph_data set_rev, of 3] sample_components by blast

lemma sample_articulation: "articulation_scores (adjacency [(''a'', ''b''), (''b'', ''c'')]) = [(''b'', 1)]"
  by (simp add: adjacency_def link_both_def add_neighbour_def neighbours_def articulation_scores_def tarjan_root_def
    tarjan_start_def enter_node_def sorted_neighbours_def text_key_def tarjan_loop.simps tarjan_step.simps dhas_def leave_node_def
    visit_neighbour_def parent_of_def nat_at_def count_key_def)
end
