(* ===== verification/Crud_Delete.thy ===== *)
theory Crud_Delete
  imports Sample_Runs Crud_Enrich
begin

text \<open>
  \<open>crud/delete.py\<close>: a note is deleted by moving it to the vault's \<open>.trash\<close>, and moved under the
  locks of its source and its destination.  \<open>shutil.move\<close> renames the entry; when the rename
  fails it copies a regular file and removes the source.  The recursive copy of a directory
  between two file systems is left out: there the error of the rename is the result.
\<close>

section \<open>shutil.move\<close>

definition is_dir_io :: "path \<Rightarrow> bool io" where
  "is_dir_io p = (\<lambda>E w. case e_fault E (w_tick w) of
      Some _ \<Rightarrow> (Inr False, tick E w)
    | None \<Rightarrow> (Inr (fs_dirs (w_fs (tick E w)) (fs_real (w_fs (tick E w)) p) \<noteq> None), tick E w))"

definition rename_tree :: "path \<Rightarrow> path \<Rightarrow> fs \<Rightarrow> fs" where
  "rename_tree src dst fs = fs\<lparr>
     fs_files := (\<lambda>q. if prefix dst q then fs_files fs (src @ drop (length dst) q)
                      else if prefix src q then None else fs_files fs q),
     fs_dirs := (\<lambda>q. if prefix dst q then fs_dirs fs (src @ drop (length dst) q)
                     else if prefix src q then None else fs_dirs fs q)\<rparr>"

definition move_event :: "path \<Rightarrow> path \<Rightarrow> world \<Rightarrow> world" where
  "move_event src dst w = w\<lparr>w_log := w_log w @ [EvMove src dst (fs_files (w_fs w) dst)]\<rparr>"

text \<open>\<open>os.rename\<close>.\<close>

definition rename_io :: "path \<Rightarrow> path \<Rightarrow> unit io" where
  "rename_io src dst = syscall (\<lambda>E w.
     if \<not> entry_exists (w_fs w) src \<or> fs_dirs (w_fs w) (path_parent dst) = None then (Inl FileNotFoundError, w)
     else case fs_files (w_fs w) src of
       Some f \<Rightarrow> if fs_dirs (w_fs w) dst \<noteq> None then (Inl OSError, w)
         else (Inr (), move_event src dst (w\<lparr>w_fs := rename_file src dst f (w_fs w)\<rparr>))
     | None \<Rightarrow> if entry_exists (w_fs w) dst \<or> prefix src dst \<or> prefix dst src then (Inl OSError, w)
         else (Inr (), move_event src dst (w\<lparr>w_fs := rename_tree src dst (w_fs w)\<rparr>)))"

text \<open>\<open>shutil.copy2\<close> of a regular file: the destination is truncated, filled and given the source's mode and time.\<close>

definition copy_open_io :: "path \<Rightarrow> path \<Rightarrow> regfile io" where
  "copy_open_io src dst = syscall (\<lambda>E w.
     (case fs_files (w_fs w) src of
        None \<Rightarrow> (Inl (if fs_dirs (w_fs w) src = None then FileNotFoundError else OSError), w)
      | Some f \<Rightarrow> if fs_dirs (w_fs w) dst \<noteq> None then (Inl OSError, w)
          else if fs_dirs (w_fs w) (path_parent dst) = None then (Inl FileNotFoundError, w)
          else (Inr f, w\<lparr>w_fs := (w_fs w)\<lparr>fs_files := (fs_files (w_fs w))(dst \<mapsto>
            (case fs_files (w_fs w) dst of
               Some g \<Rightarrow> g\<lparr>f_data := Utf8 [], f_mtime := e_mtime E (w_tick w)\<rparr>
             | None \<Rightarrow> \<lparr>f_inode = e_inode E (w_tick w), f_mtime = e_mtime E (w_tick w), f_mode = 420, f_data = Utf8 []\<rparr>))\<rparr>\<rparr>)))"

definition change_file_io :: "path \<Rightarrow> (nat \<Rightarrow> regfile \<Rightarrow> regfile) \<Rightarrow> unit io" where
  "change_file_io p change = syscall (\<lambda>E w.
     (case fs_files (w_fs w) p of
        None \<Rightarrow> (Inr (), w)
      | Some g \<Rightarrow> (Inr (), w\<lparr>w_fs := (w_fs w)\<lparr>fs_files := (fs_files (w_fs w))(p \<mapsto> change (e_mtime E (w_tick w)) g)\<rparr>\<rparr>)))"

definition copy_file_io :: "path \<Rightarrow> path \<Rightarrow> unit io" where
  "copy_file_io src dst =
     bind_io (copy_open_io src dst) (\<lambda>f.
     bind_io (change_file_io dst (\<lambda>mt g. g\<lparr>f_data := f_data f, f_mtime := mt\<rparr>)) (\<lambda>_.
     change_file_io dst (\<lambda>mt g. g\<lparr>f_mode := f_mode f, f_mtime := f_mtime f\<rparr>)))"

definition remove_source_io :: "path \<Rightarrow> path \<Rightarrow> unit io" where
  "remove_source_io src dst = syscall (\<lambda>E w.
     (case fs_files (w_fs w) src of
        None \<Rightarrow> (Inl FileNotFoundError, w)
      | Some _ \<Rightarrow> (Inr (), move_event src dst (w\<lparr>w_fs := (w_fs w)\<lparr>fs_files := (fs_files (w_fs w))(src := None)\<rparr>\<rparr>))))"

text \<open>A destination that is a directory receives the entry under its own name.\<close>

definition real_destination :: "path \<Rightarrow> path \<Rightarrow> path io" where
  "real_destination src dst =
     bind_io (is_dir_io dst) (\<lambda>dir.
     if \<not> dir then return_io dst
     else bind_io (exists_io (dst @ [path_name src])) (\<lambda>there.
       if there then raise_io OSError else return_io (dst @ [path_name src])))"

definition move_io :: "path \<Rightarrow> path \<Rightarrow> unit io" where
  "move_io src dst =
     bind_io (real_destination src dst) (\<lambda>dst.
     catch_io (rename_io src dst) (\<lambda>e. if isinstance e C_OSError then Some
       (bind_io (is_dir_io src) (\<lambda>dir.
        if dir then raise_io e
        else bind_io (copy_file_io src dst) (\<lambda>_. remove_source_io src dst))) else None))"

definition move_or_error :: "path \<Rightarrow> path \<Rightarrow> op_result \<Rightarrow> 'a \<Rightarrow> (op_result + 'a) io" where
  "move_or_error src dst failed done_value =
     catch_io (bind_io (move_io src dst) (\<lambda>_. return_io (Inr done_value)))
       (\<lambda>e. if isinstance e C_OSError then Some (return_io (Inl failed)) else None)"

section \<open>delete_note\<close>

definition mkdir_single_io :: "path \<Rightarrow> unit io" where
  "mkdir_single_io p = syscall (\<lambda>E w.
     if fs_files (w_fs w) p \<noteq> None then (Inl OSError, w)
     else if fs_dirs (w_fs w) p \<noteq> None then (Inr (), w)
     else if fs_dirs (w_fs w) (path_parent p) = None then (Inl FileNotFoundError, w)
     else (Inr (), w\<lparr>w_fs := (w_fs w)\<lparr>fs_dirs := (fs_dirs (w_fs w))(p \<mapsto>
       \<lparr>rv_inode = e_inode E (w_tick w), rv_mtime = e_mtime E (w_tick w), rv_size = 0\<rparr>)\<rparr>\<rparr>))"

fun unique_trash_path :: "nat \<Rightarrow> path \<Rightarrow> path \<Rightarrow> path option io" where
  "unique_trash_path 0 trash_path final = return_io None"
| "unique_trash_path (Suc n) trash_path final =
     bind_io (exists_io final) (\<lambda>there.
     if \<not> there then return_io (Some final)
     else bind_io random_io (\<lambda>hex.
       unique_trash_path n trash_path (with_stem trash_path (path_stem trash_path @ ''_'' @ take 8 hex))))"

definition trash_attempts :: nat where
  "trash_attempts = 10"

definition delete_locked :: "string \<Rightarrow> conf \<Rightarrow> (op_result + path) io" where
  "delete_locked rel C =
     bind_io (resolve_path C rel) (\<lambda>file_path.
     bind_io (file_revision file_path) (\<lambda>rvn.
     if rvn = None then return_io (Inl (not_found rel))
     else
       bind_io (resolve_internal_path C [''.trash'']) (\<lambda>trash_dir.
       bind_io (mkdir_single_io trash_dir) (\<lambda>_.
       bind_io (resolve_internal_path C (''.trash'' # lexical_parts rel)) (\<lambda>trash_path.
       bind_io (mkdir_io (path_parent trash_path)) (\<lambda>_.
       bind_io (unique_trash_path trash_attempts trash_path trash_path) (\<lambda>found.
       case found of
         None \<Rightarrow> return_io (Inl (error_result rel (''Could not generate a unique trash name after ''
           @ show_nat trash_attempts @ '' attempts'') None))
       | Some final \<Rightarrow> bind_io (file_revision file_path) (\<lambda>now.
           if now \<noteq> rvn then return_io (Inl (write_conflict rel))
           else move_or_error file_path final (error_result rel ''Failed to move note to trash'' None) final))))))))"

definition delete_finish :: "conf \<Rightarrow> string \<Rightarrow> path \<Rightarrow> op_result io" where
  "delete_finish C rel final =
     bind_io (resolve_io (c_vault C)) (\<lambda>vault_root.
     bind_io (lift_io (relative_to final vault_root)) (\<lambda>shown.
     return_io (success_result rel (''Note moved to trash: '' @ rel_str shown))))"

definition delete_note :: "conf \<Rightarrow> string \<Rightarrow> op_result io" where
  "delete_note C rel = return_write_lock_timeout rel
     (bind_io (lift_io (validate_extension C rel False)) (\<lambda>_.
      bind_io (lift_io (validate_not_ignored_folder C rel)) (\<lambda>_.
      bind_io (resolve_path C rel) (\<lambda>file_path.
      run_locked C (c_lock_timeout C) file_path (delete_locked rel C) (delete_finish C rel)))))"

section \<open>move_note\<close>

definition move_locked :: "string \<Rightarrow> string \<Rightarrow> conf \<Rightarrow> (op_result + unit) io" where
  "move_locked from_path to_path C =
     bind_io (resolve_path C from_path) (\<lambda>from_file.
     bind_io (resolve_path C to_path) (\<lambda>to_file.
     bind_io (file_revision from_file) (\<lambda>source_revision.
     if source_revision = None
     then return_io (Inl (error_result from_path (''Source note not found: '' @ from_path) None))
     else bind_io (file_revision to_file) (\<lambda>target_revision.
     if target_revision \<noteq> None
     then return_io (Inl (error_result to_path (''Destination already exists: '' @ to_path) None))
     else
       bind_io (mkdir_io (path_parent to_file)) (\<lambda>_.
       bind_io (file_revision from_file) (\<lambda>now.
       if now \<noteq> source_revision then return_io (Inl (write_conflict from_path))
       else bind_io (file_revision to_file) (\<lambda>now.
       if now \<noteq> None then return_io (Inl (write_conflict from_path))
       else move_or_error from_file to_file (error_result from_path ''Failed to move note'' None) ())))))))"

definition move_finish :: "string \<Rightarrow> string \<Rightarrow> op_result + unit \<Rightarrow> op_result io" where
  "move_finish from_path to_path r = return_io (case r of
       Inl res \<Rightarrow> res
     | Inr _ \<Rightarrow> success_result to_path (''Note moved: '' @ from_path @ '' -> '' @ to_path))"

definition move_under_locks :: "conf \<Rightarrow> string \<Rightarrow> string \<Rightarrow> op_result io" where
  "move_under_locks C from_path to_path =
     bind_io (resolve_path C from_path) (\<lambda>from_file.
     bind_io (resolve_path C to_path) (\<lambda>to_file.
     bind_io (advisory_path_locks C (c_lock_timeout C) [from_file, to_file] None (move_locked from_path to_path C))
       (move_finish from_path to_path)))"

definition move_note :: "conf \<Rightarrow> string \<Rightarrow> string \<Rightarrow> op_result io" where
  "move_note C from_path to_path = return_write_lock_timeout from_path
     (bind_io (lift_io (validate_extension C from_path False)) (\<lambda>_.
      bind_io (lift_io (validate_extension C to_path False)) (\<lambda>_.
      bind_io (lift_io (validate_not_ignored_folder C to_path)) (\<lambda>_.
      bind_io (lift_io (validate_not_ignored_folder C from_path)) (\<lambda>_.
      if rel_suffix from_path \<noteq> rel_suffix to_path
      then return_io (error_result from_path (''Cannot change extension from '' @ quoted (rel_suffix from_path)
        @ '' to '' @ quoted (rel_suffix to_path) @ ''. This could corrupt the file.'') None)
      else move_under_locks C from_path to_path)))))"

section \<open>A move under the locks of both ends\<close>

lemma checks_raise:
  "validate_extension C x b = Inl e \<or> validate_not_ignored_folder C x = Inl e \<Longrightarrow> os_or_value e"
  by (auto simp: validate_extension_def unsupported_def validate_not_ignored_folder_def split: if_splits option.splits)

definition moved :: "regfile option \<times> revision option \<Rightarrow> regfile option \<times> revision option \<Rightarrow> bool" where
  "moved c d \<longleftrightarrow> map_option f_data (fst d) = map_option f_data (fst c) \<and> (fst c = None \<longrightarrow> snd d = snd c)"

lemma keeps_conj: "keeps E P m \<Longrightarrow> keeps E Q m \<Longrightarrow> keeps E (\<lambda>w. P w \<and> Q w) m"
  by (simp add: keeps_def triple_def)

lemma locked_mkdir_present:
  assumes "cooperative E" "c \<noteq> (None, None)"
  shows "keeps E (locked rl p c) (mkdir_io q)"
proof (cases "prefix p q")
  case False
  then show ?thesis using assms(1) by blast
next
  case True
  show ?thesis
    unfolding keeps_def mkdir_io_def
  proof (rule triple_syscall)
    show "locked rl p c (tick E w)" if "locked rl p c w" for w
      using that by (rule locked_tick [OF assms(1)])
    fix w assume "locked rl p c w"
    then have l: "locked rl p c (tick E w)" by (rule locked_tick [OF assms(1)])
    show "locked rl p c (snd (if \<exists>q' \<in> set (prefixes q). fs_files (w_fs (tick E w)) q' \<noteq> None
        then (Inl OSError, tick E w)
        else (Inr (), (tick E w)\<lparr>w_fs := make_dirs (e_inode E (w_tick (tick E w)))
          (e_mtime E (w_tick (tick E w))) q (w_fs (tick E w))\<rparr>)))" (is "locked rl p c (snd (if ?b then _ else _))")
    proof (cases ?b)
      case True
      then show ?thesis using l by simp
    next
      case False
      then have "fs_files (w_fs (tick E w)) p = None" using True by auto
      then have "fs_dirs (w_fs (tick E w)) p \<noteq> None" using l assms(2) by (cases c) (auto simp: locked_def)
      then show ?thesis using l False by (auto simp: locked_def make_dirs_def)
    qed
  qed
qed


lemma raises_rename [intro!]: "os_faults E \<Longrightarrow> raises E os_or_value (rename_io p q)"
  by (auto simp: raises_def rename_io_def syscall_def dest: os_fault_error split: option.splits if_splits)

lemma raises_copy [intro!]:
  assumes "os_faults E"
  shows "raises E os_or_value (copy_open_io p q)" "raises E os_or_value (change_file_io p g)"
    "raises E os_or_value (remove_source_io p q)" "raises E os_or_value (is_dir_io p)"
    "raises E os_or_value (mkdir_single_io p)"
  using assms
  by (auto simp: raises_def copy_open_io_def change_file_io_def remove_source_io_def is_dir_io_def
      mkdir_single_io_def syscall_def dest: os_fault_error split: option.splits if_splits)

lemma raises_move_io: "os_faults E \<Longrightarrow> raises E os_or_value (move_io p q)"
  unfolding move_io_def real_destination_def copy_file_io_def
  by (intro raises_bind raises_cases raises_basic raises_copy raises_exists os_errors
      raises_catch [OF raises_rename]) (auto intro!: raises_copy)

lemma raises_move [intro!]: "os_faults E \<Longrightarrow> raises E os_or_value (move_or_error p q x y)"
  unfolding move_or_error_def
  by (rule raises_catch [where S' = os_or_value]) (auto intro: raises_move_io)

lemma copy_open_pair:
  assumes "cooperative E" "p \<noteq> q" "locked rl p c w" "locked rl q d w" "snd d = None" "copy_open_io p q E w = (r, w')"
  shows "locked rl p c w' \<and> (\<exists>d'. locked rl q d' w' \<and> snd d' = None \<and> (\<forall>f. r = Inr f \<longrightarrow> fst c = Some f \<and> fst d' \<noteq> None))"
  using assms(6,5,2) locked_tick [OF assms(1,3)] locked_tick [OF assms(1,4)]
  by (auto simp: copy_open_io_def syscall_def locked_def split: option.splits if_splits)

lemma change_pair:
  assumes "cooperative E" "p \<noteq> q" "locked rl p c w" "locked rl q d w" "snd d = None" "change_file_io q g E w = (r, w')"
  shows "locked rl p c w' \<and> (\<exists>d'. locked rl q d' w' \<and> snd d' = None \<and>
    (r = Inr () \<longrightarrow> (\<exists>mt. fst d' = map_option (g mt) (fst d))))"
  using assms(6,5,2) locked_tick [OF assms(1,3)] locked_tick [OF assms(1,4)]
  by (auto simp: change_file_io_def syscall_def locked_def split: option.splits)

lemma copy_file_pair:
  assumes "cooperative E" "p \<noteq> q" "locked rl p c w" "locked rl q d w" "snd d = None" "copy_file_io p q E w = (r, w')"
  shows "locked rl p c w' \<and> (\<exists>d'. locked rl q d' w' \<and> (r = Inr () \<longrightarrow> moved c d' \<and> fst c \<noteq> None))"
proof -
  obtain r1 w1 where 1: "copy_open_io p q E w = (r1, w1)" by (cases "copy_open_io p q E w")
  from copy_open_pair [OF assms(1-5) 1] obtain d1 where l1: "locked rl p c w1" "locked rl q d1 w1" "snd d1 = None"
    and f1: "\<forall>f. r1 = Inr f \<longrightarrow> fst c = Some f \<and> fst d1 \<noteq> None" by blast
  show ?thesis
  proof (cases r1)
    case (Inl e)
    then have "r = Inl e" "w' = w1" using assms(6) 1 by (simp_all add: copy_file_io_def bind_io_def)
    then show ?thesis using l1 by blast
  next
    case (Inr f)
    let ?fill = "\<lambda>mt g. g\<lparr>f_data := f_data f, f_mtime := mt\<rparr>"
    let ?stat = "\<lambda>mt g. g\<lparr>f_mode := f_mode f, f_mtime := f_mtime f\<rparr>"
    obtain r2 w2 where 2: "change_file_io q ?fill E w1 = (r2, w2)" by (cases "change_file_io q ?fill E w1")
    from change_pair [OF assms(1,2) l1 2] obtain d2 where l2: "locked rl p c w2" "locked rl q d2 w2" "snd d2 = None"
      and f2: "r2 = Inr () \<longrightarrow> (\<exists>mt. fst d2 = map_option (?fill mt) (fst d1))" by blast
    show ?thesis
    proof (cases r2)
      case (Inl e)
      then have "r = Inl e" "w' = w2" using assms(6) 1 2 \<open>r1 = Inr f\<close> by (simp_all add: copy_file_io_def bind_io_def)
      then show ?thesis using l2 by blast
    next
      case (Inr u)
      have 3: "change_file_io q ?stat E w2 = (r, w')"
        using assms(6) 1 2 \<open>r1 = Inr f\<close> Inr by (simp add: copy_file_io_def bind_io_def)
      from change_pair [OF assms(1,2) l2 3] obtain d3 where l3: "locked rl p c w'" "locked rl q d3 w'"
        and f3: "r = Inr () \<longrightarrow> (\<exists>mt. fst d3 = map_option (?stat mt) (fst d2))" by blast
      have "moved c d3 \<and> fst c \<noteq> None" if ok: "r = Inr ()"
      proof -
        obtain g where c: "fst c = Some f" and g: "fst d1 = Some g" using f1 \<open>r1 = Inr f\<close> by auto
        obtain mt where "fst d2 = Some (?fill mt g)" using f2 Inr g by auto
        then obtain mt' where "fst d3 = Some (?stat mt' (?fill mt g))" using f3 ok by auto
        then show ?thesis using c by (simp add: moved_def)
      qed
      then show ?thesis using l3 by blast
    qed
  qed
qed

lemma rename_pair:
  assumes "cooperative E" "p \<noteq> q" "locked rl p c w" "locked rl q (None, None) w" "rename_io p q E w = (r, w')"
  shows "(r = Inr () \<and> (\<exists>x d. moved c d \<and> locked rl p (None, x) w' \<and> locked rl q d w')) \<or>
    (\<exists>e. r = Inl e \<and> locked rl p c w' \<and> locked rl q (None, None) w')"
proof -
  let ?w = "tick E w"
  note l = locked_tick [OF assms(1,3)] locked_tick [OF assms(1,4)]
  show ?thesis
  proof (cases "r = Inr ()")
    case False
    then have "w' = ?w" "\<exists>e. r = Inl e"
      using assms(5) by (auto simp: rename_io_def syscall_def move_event_def split: option.splits if_splits sum.splits)
    then show ?thesis using l by blast
  next
    case True
    show ?thesis
    proof (cases "fst c")
      case (Some f)
      then have "fs_files (w_fs ?w) p = Some f" using l(1) by (simp add: locked_def)
      then have "w' = move_event p q (?w\<lparr>w_fs := rename_file p q f (w_fs ?w)\<rparr>)"
        using assms(5) True by (auto simp: rename_io_def syscall_def split: option.splits if_splits)
      then have "locked rl p (None, snd c) w' \<and> locked rl q (Some f, None) w'"
        using l assms(2) by (simp add: locked_def move_event_def rename_file_def)
      moreover have "moved c (Some f, None)" using Some by (simp add: moved_def)
      ultimately show ?thesis using True by blast
    next
      case None
      then have n: "fs_files (w_fs ?w) p = None" using l(1) by (simp add: locked_def)
      then have w': "w' = move_event p q (?w\<lparr>w_fs := rename_tree p q (w_fs ?w)\<rparr>)" "\<not> prefix p q" "\<not> prefix q p"
        using assms(5) True by (auto simp: rename_io_def syscall_def split: option.splits if_splits)
      then have "locked rl p (None, None) w' \<and> locked rl q c w'"
        using l n None by (cases c) (simp add: locked_def move_event_def rename_tree_def)
      moreover have "moved c c" by (simp add: moved_def)
      ultimately show ?thesis using True by blast
    qed
  qed
qed

lemma remove_source_pair:
  assumes "cooperative E" "p \<noteq> q" "locked rl p c w" "locked rl q d w" "remove_source_io p q E w = (r, w')"
  shows "locked rl q d w' \<and> (r = Inr () \<and> locked rl p (None, snd c) w' \<or> (\<exists>e. r = Inl e) \<and> locked rl p c w')"
  using assms(5,2) locked_tick [OF assms(1,3)] locked_tick [OF assms(1,4)]
  by (auto simp: remove_source_io_def syscall_def locked_def move_event_def split: option.splits)

lemma is_dir_locked:
  assumes "cooperative E" "locked rl p c w" "is_dir_io p E w = (r, w')"
  shows "w' = tick E w \<and> (\<exists>b. r = Inr b \<and> (b \<longrightarrow> snd c \<noteq> None))"
  using assms(3) locked_tick [OF assms(1,2)]
  by (auto simp: is_dir_io_def locked_def split: option.splits)


lemma real_destination_pair:
  assumes "cooperative E" "locked rl q (None, None) w" "real_destination p q E w = (r, w')"
  shows "r = Inr q \<and> w' = tick E w"
  using assms(3) locked_tick [OF assms(1,2)] is_dir_locked [OF assms(1,2)]
  by (cases "is_dir_io q E w") (fastforce simp: real_destination_def bind_io_def return_io_def)

lemma move_pair:
  assumes "cooperative E" "p \<noteq> q" "locked rl p c w" "locked rl q (None, None) w" "move_io p q E w = (r, w')"
  shows "(r = Inr () \<and> (\<exists>x d. moved c d \<and> locked rl p (None, x) w' \<and> locked rl q d w')) \<or>
    (\<exists>e d. r = Inl e \<and> locked rl p c w' \<and> locked rl q d w')"
proof -
  obtain r0 w0 where 0: "real_destination p q E w = (r0, w0)" by (cases "real_destination p q E w")
  have r0: "r0 = Inr q" "w0 = tick E w" using real_destination_pair [OF assms(1,4) 0] by simp_all
  have l0: "locked rl p c w0" "locked rl q (None, None) w0"
    unfolding r0(2) by (rule locked_tick [OF assms(1)], fact)+
  obtain r1 w1 where 1: "rename_io p q E w0 = (r1, w1)" by (cases "rename_io p q E w0")
  show ?thesis
  proof (cases r1)
    case (Inr u)
    then have "r = Inr u" "w' = w1" using assms(5) 0 1 r0(1) by (simp_all add: move_io_def bind_io_def catch_io_def)
    then show ?thesis using rename_pair [OF assms(1,2) l0 1] Inr by auto
  next
    case (Inl e)
    then have l1: "locked rl p c w1" "locked rl q (None, None) w1" using rename_pair [OF assms(1,2) l0 1] by auto
    show ?thesis
    proof (cases "isinstance e C_OSError")
      case False
      then have "r = Inl e" "w' = w1" using assms(5) 0 1 Inl r0(1) by (simp_all add: move_io_def bind_io_def catch_io_def)
      then show ?thesis using l1 by blast
    next
      case True
      let ?rest = "bind_io (copy_file_io p q) (\<lambda>_. remove_source_io p q)"
      obtain b w2 where 2: "is_dir_io p E w1 = (Inr b, w2)" "w2 = tick E w1"
        using is_dir_locked [OF assms(1) l1(1)] by (cases "is_dir_io p E w1") blast
      have l2: "locked rl p c w2" "locked rl q (None, None) w2"
        unfolding 2(2) by (rule locked_tick [OF assms(1)], fact)+
      have run: "(if b then raise_io e else ?rest) E w2 = (r, w')"
        using assms(5) 0 1 Inl r0(1) True 2(1) by (simp add: move_io_def bind_io_def catch_io_def)
      show ?thesis
      proof (cases b)
        case True
        then show ?thesis using run l2 by (auto simp: raise_io_def)
      next
        case False
        obtain r3 w3 where 3: "copy_file_io p q E w2 = (r3, w3)" by (cases "copy_file_io p q E w2")
        from copy_file_pair [OF assms(1,2) l2 _ 3] obtain d where l3: "locked rl p c w3" "locked rl q d w3"
          and m: "r3 = Inr () \<longrightarrow> moved c d" by auto
        show ?thesis
        proof (cases r3)
          case (Inl e')
          then have "r = Inl e'" "w' = w3" using run False 3 by (simp_all add: bind_io_def)
          then show ?thesis using l3 by blast
        next
          case (Inr u)
          then have "remove_source_io p q E w3 = (r, w')" using run False 3 by (simp add: bind_io_def)
          moreover have "moved c d" using m Inr by simp
          ultimately show ?thesis using remove_source_pair [OF assms(1,2) l3] by blast
        qed
      qed
    qed
  qed
qed

text \<open>What a body may do to the two entries whose locks it holds.\<close>

definition pair_outcome ::
  "(path \<Rightarrow> path) \<Rightarrow> path \<Rightarrow> path \<Rightarrow> regfile option \<times> revision option \<Rightarrow> regfile option \<times> revision option
     \<Rightarrow> bool \<Rightarrow> world \<Rightarrow> bool" where
  "pair_outcome rl p q c d ok w' \<longleftrightarrow>
     (if ok then p \<noteq> q \<and> d = (None, None) \<and> c \<noteq> (None, None) \<and>
             (\<exists>x d'. moved c d' \<and> locked rl p (None, x) w' \<and> locked rl q d' w')
      else locked rl p c w' \<and> (\<exists>d'. locked rl q d' w' \<and> (d \<noteq> (None, None) \<longrightarrow> d' = d)))"

lemma pair_same: "locked rl p c w \<Longrightarrow> locked rl q d w \<Longrightarrow> pair_outcome rl p q c d False w"
  unfolding pair_outcome_def if_False by blast

lemma move_or_error_pair:
  assumes "cooperative E" "p \<noteq> q" "c \<noteq> (None, None)" "locked rl p c w" "locked rl q (None, None) w"
    "move_or_error p q failed x E w = (Inr r, w')"
  shows "pair_outcome rl p q c (None, None) (r = Inr x) w' \<and> (r = Inr x \<or> r = Inl failed)"
proof -
  obtain r1 w1 where 1: "move_io p q E w = (r1, w1)" by (cases "move_io p q E w")
  note m = move_pair [OF assms(1,2,4,5) 1]
  show ?thesis
  proof (cases r1)
    case (Inl e)
    then have "r = Inl failed" "w' = w1"
      using assms(6) 1 by (auto simp: move_or_error_def bind_io_def catch_io_def return_io_def split: if_splits)
    then show ?thesis using m Inl by (auto simp: pair_outcome_def)
  next
    case (Inr u)
    then have "r = Inr x" "w' = w1" using assms(6) 1 by (simp_all add: move_or_error_def bind_io_def catch_io_def return_io_def)
    then show ?thesis using m Inr assms(2,3) by (auto simp: pair_outcome_def)
  qed
qed

lemma locked_same: "locked rl p c w \<Longrightarrow> locked rl p d w \<Longrightarrow> c = d"
  by (cases c; cases d) (simp add: locked_def)

lemma cell_revision_None: "cell_revision c = None \<longleftrightarrow> c = (None, None)"
  by (cases c) (auto simp: cell_revision_def split: option.split)

lemma resolve_path_target:
  assumes "cooperative E" "locked rl q d w" "resolve_path C rel E w = (Inr p, w')"
  shows "p = note_target rl C rel"
  using resolve_path_run [OF cooperative_links [OF assms(1)] assms(3)] locked_real [OF assms(2)] by simp

lemma move_locked_pair:
  assumes env: "cooperative E" "os_faults E"
    and pq: "p = note_target rl C from_path" "q = note_target rl C to_path" "\<not> prefix q (path_parent q)"
    and l: "locked rl p c w" "locked rl q d w" and run: "move_locked from_path to_path C E w = (Inr r, w')"
  shows "pair_outcome rl p q c d (r = Inr ()) w' \<and> (\<forall>res. r = Inl res \<longrightarrow> \<not> or_success res)"
proof -
  let ?l = "\<lambda>w. locked rl p c w \<and> locked rl q d w"
  note keep = keeps_conj [where P = "locked rl p c" and Q = "locked rl q d"]
  from run obtain fp w1 tp w2 rv w3 where
    1: "resolve_path C from_path E w = (Inr fp, w1)" "resolve_path C to_path E w1 = (Inr tp, w2)"
      "file_revision fp E w2 = (Inr rv, w3)"
    and rest: "(if rv = None then return_io (Inl (error_result from_path (''Source note not found: '' @ from_path) None))
      else bind_io (file_revision tp) (\<lambda>target_revision.
    if target_revision \<noteq> None
    then return_io (Inl (error_result to_path (''Destination already exists: '' @ to_path) None))
    else
      bind_io (mkdir_io (path_parent tp)) (\<lambda>_.
      bind_io (file_revision fp) (\<lambda>now.
      if now \<noteq> rv then return_io (Inl (write_conflict from_path))
      else bind_io (file_revision tp) (\<lambda>now.
      if now \<noteq> None then return_io (Inl (write_conflict from_path))
      else move_or_error fp tp (error_result from_path ''Failed to move note'' None) ()))))) E w3 = (Inr r, w')"
    unfolding move_locked_def bind_run_Inr by blast
  have fp: "fp = p" using resolve_path_target [OF env(1) l(1) 1(1)] pq(1) by simp
  have l1: "?l w1" using keeps_run [OF keep [OF keeps_resolve_path keeps_resolve_path] 1(1)] l env(1) by simp
  then have tp: "tp = q" using resolve_path_target [OF env(1) _ 1(2)] pq(2) by blast
  have l2: "?l w2" using keeps_run [OF keep [OF keeps_resolve_path keeps_resolve_path] 1(2)] l1 env(1) by simp
  have rv: "rv = cell_revision c" using file_revision_locked [OF env conjunct1 [OF l2]] 1(3) fp by blast
  have l3: "?l w3" using keeps_run [OF keep [OF keeps_file_revision keeps_file_revision] 1(3)] l2 env(1) by simp
  show ?thesis
  proof (cases "rv = None")
    case True
    then show ?thesis using rest l3 by (auto simp: basic_run pair_same)
  next
    case False
    then obtain tv w4 where 4: "file_revision q E w3 = (Inr tv, w4)"
      and rest4: "(if tv \<noteq> None
        then return_io (Inl (error_result to_path (''Destination already exists: '' @ to_path) None))
        else
          bind_io (mkdir_io (path_parent q)) (\<lambda>_.
          bind_io (file_revision p) (\<lambda>now.
          if now \<noteq> rv then return_io (Inl (write_conflict from_path))
          else bind_io (file_revision q) (\<lambda>now.
          if now \<noteq> None then return_io (Inl (write_conflict from_path))
          else move_or_error p q (error_result from_path ''Failed to move note'' None) ())))) E w4 = (Inr r, w')"
      using rest unfolding fp tp by (auto simp: bind_run_Inr)
    have tv: "tv = cell_revision d" using file_revision_locked [OF env conjunct2 [OF l3] 4] by simp
    have l4: "?l w4" using keeps_run [OF keep [OF keeps_file_revision keeps_file_revision] 4] l3 env(1) by simp
    have c: "c \<noteq> (None, None)" using False rv cell_revision_None by auto
    show ?thesis
    proof (cases "tv = None")
      case False
      then show ?thesis using rest4 l4 by (auto simp: basic_run pair_same)
    next
      case True
      then have d: "d = (None, None)" using tv cell_revision_None by simp
      then have neq: "p \<noteq> q" using c l locked_same by blast
      from rest4 True obtain u w5 where 5: "mkdir_io (path_parent q) E w4 = (Inr u, w5)"
        and rest5: "bind_io (file_revision p) (\<lambda>now.
          if now \<noteq> rv then return_io (Inl (write_conflict from_path))
          else bind_io (file_revision q) (\<lambda>now.
          if now \<noteq> None then return_io (Inl (write_conflict from_path))
          else move_or_error p q (error_result from_path ''Failed to move note'' None) ())) E w5 = (Inr r, w')"
        by (auto simp: bind_run_Inr)
      have l5: "?l w5"
        using keeps_run [OF keep [OF locked_mkdir_present [OF env(1) c] locked_mkdir [OF env(1) pq(3)]] 5] l4 by simp
      from rest5 obtain now w6 where 6: "file_revision p E w5 = (Inr now, w6)"
        and rest6: "(if now \<noteq> rv then return_io (Inl (write_conflict from_path))
          else bind_io (file_revision q) (\<lambda>now.
          if now \<noteq> None then return_io (Inl (write_conflict from_path))
          else move_or_error p q (error_result from_path ''Failed to move note'' None) ())) E w6 = (Inr r, w')"
        by (auto simp: bind_run_Inr)
      have now: "now = rv" using file_revision_locked [OF env conjunct1 [OF l5] 6] rv by simp
      have l6: "?l w6" using keeps_run [OF keep [OF keeps_file_revision keeps_file_revision] 6] l5 env(1) by simp
      from rest6 now obtain t w7 where 7: "file_revision q E w6 = (Inr t, w7)"
        and rest7: "(if t \<noteq> None then return_io (Inl (write_conflict from_path))
          else move_or_error p q (error_result from_path ''Failed to move note'' None) ()) E w7 = (Inr r, w')"
        by (auto simp: bind_run_Inr)
      have t: "t = None" using file_revision_locked [OF env conjunct2 [OF l6] 7] tv True by simp
      have l7: "?l w7" using keeps_run [OF keep [OF keeps_file_revision keeps_file_revision] 7] l6 env(1) by simp
      have "move_or_error p q (error_result from_path ''Failed to move note'' None) () E w7 = (Inr r, w')"
        using rest7 t by simp
      from move_or_error_pair [OF env(1) neq c _ _ this] l7 d show ?thesis by auto
    qed
  qed
qed


section \<open>Entering the second lock\<close>

definition real_links :: "(path \<Rightarrow> path) \<Rightarrow> bool" where
  "real_links rl \<longleftrightarrow> (\<forall>x. rl (rl x) = rl x)"

lemma flock_keeps: "cooperative E \<Longrightarrow> keeps E (locked rl p c) (flock_io q)"
  unfolding keeps_def flock_io_def
  by (rule triple_sure_call) (auto simp: locked_def cooperative_def tick_def)

lemma acquire_keeps: "cooperative E \<Longrightarrow> keeps E (locked rl p c) (acquire_flock n q t)"
  by (induction n) (auto intro!: flock_keeps split: flock_outcome.split)

lemma thread_keeps: "cooperative E \<Longrightarrow> keeps E (locked rl p c) (acquire_thread_lock t)"
  unfolding acquire_thread_lock_def
  by (intro keeps_bind locked_keeps keeps_cases keeps_return)
     (auto simp: keeps_def intro!: triple_sure_call locked_tick)

definition lock_dir_of :: "(path \<Rightarrow> path) \<Rightarrow> conf \<Rightarrow> path" where
  "lock_dir_of rl C = internal_dir rl C [''.vault-search-locks'']"

lemma lock_dir_apart: "apart rl C p \<Longrightarrow> \<not> prefix p (lock_dir_of rl C) \<and> \<not> prefix (lock_dir_of rl C) p"
  by (simp add: apart_def lock_dir_of_def Let_def)

lemma keeps_step:
  assumes "m E w = (r, w1)" "keeps E P m" "P w" "bind_io m f E w = (r', w')"
    "\<And>x. r = Inr x \<Longrightarrow> P w1 \<Longrightarrow> f x E w1 = (r', w') \<Longrightarrow> P w'"
  shows "P w'"
proof -
  have P1: "P w1" using keeps_run [OF assms(2,1,3)] .
  show ?thesis
  proof (cases r)
    case (Inl e)
    then show ?thesis using assms(1,4) P1 by (simp add: bind_io_def)
  next
    case (Inr x)
    then show ?thesis using assms(1,4) P1 assms(5) by (simp add: bind_io_def)
  qed
qed

lemma keeps_links_resolve_internal: "links_stable E \<Longrightarrow> keeps_links E (resolve_internal_path C parts)"
  unfolding resolve_internal_path_def by (intro keeps_links_combinators) (auto split: sum.splits)

lemma lock_path_keeps:
  assumes "cooperative E" "apart rl C p"
  shows "keeps E (locked rl p c) (lock_path C q)"
proof (rule keepsI)
  let ?I = "locked rl p c"
  fix w r w' assume I: "?I w" and run: "lock_path C q E w = (r, w')"
  define pre where "pre = bind_io (resolve_io q) (\<lambda>canonical_path. bind_io (resolve_internal_path C []) (\<lambda>vault_root.
      case relative_to canonical_path vault_root of
         Inl _ \<Rightarrow> raise_io (ValueError ''Lock path is invalid or outside the vault.'')
       | Inr _ \<Rightarrow> return_io canonical_path))"
  define post where "post = (\<lambda>canonical_path lock_dir. bind_io (mkdir_io lock_dir) (\<lambda>_.
      bind_io (resolve_strict_io lock_dir) (\<lambda>lock_dir. return_io (lock_dir @ [c_digest C canonical_path @ ''.lock'']))))"
  have eq: "lock_path C q = bind_io pre (\<lambda>cp. bind_io (resolve_internal_path C [''.vault-search-locks'']) (post cp))"
    unfolding lock_path_def pre_def post_def bind_io_assoc
    by (rule ext, rule ext) (simp add: bind_io_def raise_io_def return_io_def split: prod.split sum.split)
  obtain r1 w1 where 1: "pre E w = (r1, w1)" by (cases "pre E w")
  have keep: "keeps E ?I pre" unfolding pre_def using assms(1) by (intro keeps_bind) (auto split: sum.split)
  show "?I w'"
  proof (rule keeps_step [OF 1 keep I run [unfolded eq]])
    fix cp assume I1: "?I w1" and run1: "bind_io (resolve_internal_path C [''.vault-search-locks'']) (post cp) E w1 = (r, w')"
    obtain r2 w2 where 2: "resolve_internal_path C [''.vault-search-locks''] E w1 = (r2, w2)"
      by (cases "resolve_internal_path C [''.vault-search-locks''] E w1")
    show "?I w'"
    proof (rule keeps_step [OF 2 keeps_resolve_internal [OF assms(1)] I1 run1])
      fix dir assume "r2 = Inr dir" and I2: "?I w2" and run2: "post cp dir E w2 = (r, w')"
      then have "dir = lock_dir_of rl C" unfolding lock_dir_of_def
        using resolve_internal_run [OF cooperative_links [OF assms(1)] _ locked_real [OF I1]] 2 by blast
      then have "keeps E ?I (post cp dir)" unfolding post_def
        using lock_dir_apart [OF assms(2)] assms(1) by (intro keeps_bind locked_mkdir locked_keeps keeps_return) auto
      then show "?I w'" using keeps_run run2 I2 by blast
    qed
  qed
qed

lemma lock_path_value:
  assumes "cooperative E" "fs_real (w_fs w) = rl" "real_links rl" "lock_path C q E w = (Inr lp, w')"
  shows "\<exists>n. lp = lock_dir_of rl C @ [n]"
proof -
  note st = cooperative_links [OF assms(1)]
  from assms(4) obtain cp w1 vr w2 w3 dir w4 w5 dir' where
    1: "resolve_io q E w = (Inr cp, w1)" "resolve_internal_path C [] E w1 = (Inr vr, w2)"
    "(case relative_to cp vr of Inl _ \<Rightarrow> raise_io (ValueError ''Lock path is invalid or outside the vault.'')
       | Inr _ \<Rightarrow> return_io ()) E w2 = (Inr (), w3)"
    "resolve_internal_path C [''.vault-search-locks''] E w3 = (Inr dir, w4)" "mkdir_io dir E w4 = (Inr (), w5)"
    "resolve_strict_io dir E w5 = (Inr dir', w')" "lp = dir' @ [c_digest C cp @ ''.lock'']"
    unfolding lock_path_def bind_run_Inr basic_run by auto
  have "w3 = w2" using 1(3) by (auto simp: raise_io_def return_io_def split: sum.splits)
  then have r3: "fs_real (w_fs w3) = rl"
    using keeps_links_run [OF keeps_links_calls(3) [OF st] 1(1)]
      keeps_links_run [OF keeps_links_resolve_internal [OF st] 1(2)] assms(2) by simp
  have dir: "dir = lock_dir_of rl C" unfolding lock_dir_of_def by (rule resolve_internal_run [OF st 1(4) r3])
  have r5: "fs_real (w_fs w5) = rl"
    using keeps_links_run [OF keeps_links_resolve_internal [OF st] 1(4)]
      keeps_links_run [OF keeps_links_calls(5) [OF st] 1(5)] r3 by simp
  have "dir' = rl dir"
    using 1(6) r5 tick_real [OF st, of w5] by (auto simp: resolve_strict_io_def syscall_def split: option.splits if_splits)
  then have "dir' = lock_dir_of rl C" using assms(3) by (simp add: dir lock_dir_of_def internal_dir_def real_links_def)
  then show ?thesis using 1(7) by blast
qed

lemma open_lock_keeps:
  assumes "cooperative E" "p \<noteq> lp"
  shows "keeps E (locked rl p c) (open_lock_io lp)"
  unfolding keeps_def open_lock_io_def
proof (rule triple_syscall)
  fix w assume "locked rl p c w"
  from locked_tick [OF assms(1) this] assms(2) show "locked rl p c (snd (if fs_dirs (w_fs (tick E w)) (path_parent lp) = None
      then (Inl FileNotFoundError, tick E w)
      else if fs_dirs (w_fs (tick E w)) lp \<noteq> None then (Inl OSError, tick E w)
      else if fs_files (w_fs (tick E w)) lp \<noteq> None then (Inr (), tick E w)
      else (Inr (), (tick E w)\<lparr>w_fs := (w_fs (tick E w))\<lparr>fs_files := (fs_files (w_fs (tick E w)))(lp \<mapsto>
            \<lparr>f_inode = e_inode E (w_tick (tick E w)), f_mtime = e_mtime E (w_tick (tick E w)), f_mode = 384,
             f_data = Utf8 []\<rparr>)\<rparr>\<rparr>)))"
    by (auto simp: locked_def)
qed (rule locked_tick [OF assms(1)])


lemma enter_second:
  assumes "cooperative E" "apart rl C p" "real_links rl" "rl q = q" "locked rl p c w"
    "enter_path_lock C d q t E w = (Inr (), w')"
  shows "locked rl p c w' \<and> (\<exists>c'. locked rl q c' w' \<and> EvLock q (fst c') \<in> set (new_events w w'))"
proof -
  note st = cooperative_links [OF assms(1)]
  from assms(6) obtain timeout t0 w1 lp w2 w3 w4 where
    1: "now_io E w = (Inr t0, w1)" "lock_path C q E w1 = (Inr lp, w2)"
    "acquire_thread_lock (t0 + timeout) E w2 = (Inr (), w3)" "open_lock_file C q lp E w3 = (Inr (), w4)"
    and 2: "acquire_flock lock_fuel q (t0 + timeout) E w4 = (Inr (), w')"
    by (auto simp: enter_path_lock_def io_runs)
  have l1: "locked rl p c w1" using keeps_run [OF locked_keeps(1) [OF assms(1)] 1(1) assms(5)] .
  have l2: "locked rl p c w2" using keeps_run [OF lock_path_keeps [OF assms(1,2)] 1(2) l1] .
  have l3: "locked rl p c w3" using keeps_run [OF thread_keeps [OF assms(1)] 1(3) l2] .
  have neq: "p \<noteq> lp'" if "lp' = lock_dir_of rl C @ [n]" for lp' n
    using lock_dir_apart [OF assms(2)] that by (auto simp: prefix_def)
  have l4: "locked rl p c w4"
  proof -
    have lp: "p \<noteq> lp" using lock_path_value [OF assms(1) locked_real [OF l1] assms(3) 1(2)] neq by blast
    from 1(4) consider (opened) "open_lock_io lp E w3 = (Inr (), w4)"
      | (again) e w5 where "open_lock_io lp E w3 = (Inl e, w5)" "bind_io (lock_path C q) open_lock_io E w5 = (Inr (), w4)"
      unfolding open_lock_file_def catch_run by (auto simp: basic_run split: if_splits)
    then show ?thesis
    proof cases
      case opened
      then show ?thesis using keeps_run [OF open_lock_keeps [OF assms(1) lp] opened l3] by blast
    next
      case again
      have l5: "locked rl p c w5" using keeps_run [OF open_lock_keeps [OF assms(1) lp] again(1) l3] .
      from again(2) obtain lp' w6 where 6: "lock_path C q E w5 = (Inr lp', w6)" "open_lock_io lp' E w6 = (Inr (), w4)"
        unfolding bind_run_Inr by blast
      have "p \<noteq> lp'" using lock_path_value [OF assms(1) locked_real [OF l5] assms(3) 6(1)] neq by blast
      moreover have "locked rl p c w6" using keeps_run [OF lock_path_keeps [OF assms(1,2)] 6(1) l5] .
      ultimately show ?thesis using keeps_run [OF open_lock_keeps [OF assms(1)] 6(2)] by blast
    qed
  qed
  have "locked rl p c w'" using keeps_run [OF acquire_keeps [OF assms(1)] 2 l4] .
  moreover have "\<exists>c'. locked rl q c' w' \<and> EvLock q (fst c') \<in> set (new_events w w')"
    by (rule enter_path_lock_run [OF assms(1) locked_real [OF assms(5)] assms(4,6)])
  ultimately show ?thesis by blast
qed

text \<open>
  The promise of \<open>move_note\<close> for a source \<open>p\<close> and a destination \<open>q\<close>.  Either both locks were held
  between two worlds \<open>w0\<close> and \<open>w1\<close> of the run, in the first of which the entries were \<open>c\<close> and
  \<open>d\<close>, and in the second what \<open>pair_outcome\<close> allows; or nothing was moved and the result is a
  failure.
\<close>

definition move_outcome :: "(path \<Rightarrow> path) \<Rightarrow> path \<Rightarrow> path \<Rightarrow> bool \<Rightarrow> world \<Rightarrow> world \<Rightarrow> bool" where
  "move_outcome rl p q ok w w' \<longleftrightarrow>
     (\<exists>w0 w1 c d. prefix (w_log w) (w_log w0) \<and> prefix (w_log w0) (w_log w1) \<and> prefix (w_log w1) (w_log w') \<and>
        EvLock p (fst c) \<in> set (new_events w w0) \<and> EvLock q (fst d) \<in> set (new_events w w0) \<and>
        locked rl p c w0 \<and> locked rl q d w0 \<and> pair_outcome rl p q c d ok w1) \<or>
     \<not> ok \<and> (\<forall>q' X. EvMove p q' X \<notin> set (new_events w w'))"

definition no_move :: "path \<Rightarrow> event \<Rightarrow> bool" where
  "no_move p e \<longleftrightarrow> (\<forall>q X. e \<noteq> EvMove p q X)"

lemma logs_enter_no_move [intro!]: "logs E (no_move p) (enter_path_lock C d q t)"
  by (rule logs_mono [OF logs_enter]) (auto simp: is_lock_event_def no_move_def)

lemma logs_any [intro!]:
  "logs E (\<lambda>_. True) (rename_io p q)" "logs E (\<lambda>_. True) (copy_open_io p q)" "logs E (\<lambda>_. True) (change_file_io p g)"
  "logs E (\<lambda>_. True) (remove_source_io p q)" "logs E (\<lambda>_. True) (is_dir_io p)" "logs E (\<lambda>_. True) (mkdir_single_io p)"
  by (auto simp: logs_def rename_io_def copy_open_io_def change_file_io_def remove_source_io_def is_dir_io_def
      mkdir_single_io_def syscall_def move_event_def split: option.splits if_splits)

lemma logs_move [intro!]: "logs E (\<lambda>_. True) (move_or_error p q x y)"
  unfolding move_or_error_def move_io_def real_destination_def copy_file_io_def
  by (intro logs_catch logs_bind logs_cases logs_basic logs_any logs_calls)
     (auto split: if_splits intro!: logs_any logs_bind)

lemma logs_move_locked: "logs E (\<lambda>_. True) (move_locked a b C)"
  unfolding move_locked_def by (intro logs_bind logs_cases logs_basic logs_move logs_file_revision logs_calls) auto

lemma raises_move_locked: "os_faults E \<Longrightarrow> raises E os_or_value (move_locked a b C)"
  unfolding move_locked_def
  by (intro raises_bind raises_cases raises_basic raises_move raises_file_revision raises_syscalls) auto

definition logged :: "(event \<Rightarrow> bool) \<Rightarrow> world \<Rightarrow> world \<Rightarrow> bool" where
  "logged S w w' \<longleftrightarrow> (\<exists>l. w_log w' = w_log w @ l \<and> (\<forall>e \<in> set l. S e))"

lemma logged_run: "logs E S m \<Longrightarrow> m E w = (r, w') \<Longrightarrow> logged S w w'"
  unfolding logs_def logged_def by blast

lemma logged_trans: "logged S w w1 \<Longrightarrow> logged S w1 w' \<Longrightarrow> logged S w w'"
  unfolding logged_def by (metis append.assoc Un_iff set_append)

lemma logged_events: "logged S w w' \<Longrightarrow> \<forall>e \<in> set (new_events w w'). S e"
  by (auto simp: logged_def new_events_def)

text \<open>A timeout comes from an acquisition, before anything was moved.\<close>

lemma timeout_before_move:
  assumes "os_faults E" "raises E os_or_value body"
  shows "enter_locks C d t ps body E w = (Inl e, w') \<Longrightarrow> isinstance e C_WriteLockTimeoutError \<Longrightarrow>
    logged (no_move p) w w'"
proof (induction ps arbitrary: w w')
  case Nil
  then have "os_or_value e" using raises_D [OF assms(2)] by simp
  then have False using Nil os_or_value_not_timeout by (simp add: not_timeout_def)
  then show ?case ..
next
  case (Cons q ps)
  let ?body = "enter_locks C d t ps body"
  obtain n w1 where 1: "now_io E w = (Inr n, w1)" and run: "advisory_path_lock C d q (Some (Fin (max 0 (t - n)))) ?body E w1 = (Inl e, w')"
    using Cons.prems(1) by (auto simp: bind_run_Inl now_io_def sure_call_def)
  have l1: "logged (no_move p) w w1" by (rule logged_run [OF logs_calls(1) 1])
  from run consider (enter) "enter_path_lock C d q (Some (Fin (max 0 (t - n)))) E w1 = (Inl e, w')"
    | (body) w2 where "enter_path_lock C d q (Some (Fin (max 0 (t - n)))) E w1 = (Inr (), w2)"
        "finally_io ?body (unlock_io q) E w2 = (Inl e, w')"
    unfolding advisory_path_lock_def bind_run_Inl by auto
  then show ?case
  proof cases
    case enter
    then show ?thesis using logged_trans [OF l1 logged_run [OF logs_enter_no_move enter]] by simp
  next
    case body
    have "\<not> unlock_io q E w3 = (Inl e, w')" for w3
      using raises_D [OF raises_unlock [OF assms(1)]] Cons.prems(2) os_or_value_not_timeout by (auto simp: not_timeout_def)
    then obtain w3 where 3: "?body E w2 = (Inl e, w3)" "unlock_io q E w3 = (Inr (), w')"
      using body(2) unfolding finally_run_Inl by blast
    have "logs E (no_move p) (unlock_io q)"
      by (auto simp: logs_def unlock_io_def syscall_def no_move_def split: option.splits)
    from logged_run [OF this 3(2)] Cons.IH [OF 3(1) Cons.prems(2)] logged_run [OF logs_enter_no_move body(1)] l1
    show ?thesis using logged_trans by blast
  qed
qed


lemma logs_enter_locks: "logs E (\<lambda>_. True) body \<Longrightarrow> logs E (\<lambda>_. True) (enter_locks C d t ps body)"
  by (induction ps) (auto simp: advisory_path_lock_def intro!: logs_mono [OF logs_enter])

lemma enter_one:
  assumes "cooperative E" "fs_real (w_fs w) = rl" "rl x = x" "enter_locks C d t [x] body E w = (Inr r, w')"
  shows "\<exists>w0 w1 c. locked rl x c w0 \<and> EvLock x (fst c) \<in> set (new_events w w0) \<and> body E w0 = (Inr r, w1) \<and>
    prefix (w_log w) (w_log w0) \<and> prefix (w_log w1) (w_log w')"
proof -
  from assms(4) obtain n w1 w2 w3 where
    1: "now_io E w = (Inr n, w1)" "enter_path_lock C d x (Some (Fin (max 0 (t - n)))) E w1 = (Inr (), w2)"
      "body E w2 = (Inr r, w3)" "unlock_io x E w3 = (Inr (), w')"
    by (auto simp: bind_run_Inr finally_run_Inr advisory_path_lock_def)
  have real: "fs_real (w_fs w1) = rl"
    using keeps_links_run [OF keeps_links_calls(1) [OF cooperative_links [OF assms(1)]] 1(1)] assms(2) by simp
  from enter_path_lock_run [OF assms(1) real assms(3) 1(2)] obtain c where
    c: "locked rl x c w2" "EvLock x (fst c) \<in> set (new_events w1 w2)" by blast
  have p: "prefix (w_log w) (w_log w1)" "prefix (w_log w1) (w_log w2)" "prefix (w_log w3) (w_log w')"
    using logs_prefix [OF logs_calls(1) 1(1)] logs_prefix [OF logs_enter 1(2)] logs_prefix [OF logs_unlock 1(4)] by blast+
  have "EvLock x (fst c) \<in> set (new_events w w2)" using c(2) unfolding new_events_append [OF p(1,2)] by simp
  then show ?thesis using c(1) 1(3) p prefix_order.order_trans by blast
qed

lemma enter_two:
  assumes "cooperative E" "fs_real (w_fs w) = rl" "rl x = x" "rl y = y" "apart rl C x" "real_links rl"
    "enter_locks C d t [x, y] body E w = (Inr r, w')"
  shows "\<exists>w0 w1 cx cy. locked rl x cx w0 \<and> locked rl y cy w0 \<and> EvLock x (fst cx) \<in> set (new_events w w0) \<and>
    EvLock y (fst cy) \<in> set (new_events w w0) \<and> body E w0 = (Inr r, w1) \<and>
    prefix (w_log w) (w_log w0) \<and> prefix (w_log w1) (w_log w')"
proof -
  have "enter_locks C d t [x] (enter_locks C d t [y] body) E w = (Inr r, w')" using assms(7) by simp
  from enter_one [OF assms(1-3) this] obtain w0 w1 c where
    1: "locked rl x c w0" "EvLock x (fst c) \<in> set (new_events w w0)" "enter_locks C d t [y] body E w0 = (Inr r, w1)"
      "prefix (w_log w) (w_log w0)" "prefix (w_log w1) (w_log w')" by blast
  from 1(3) obtain n v1 v2 v3 where
    2: "now_io E w0 = (Inr n, v1)" "enter_path_lock C d y (Some (Fin (max 0 (t - n)))) E v1 = (Inr (), v2)"
      "body E v2 = (Inr r, v3)" "unlock_io y E v3 = (Inr (), w1)"
    by (auto simp: bind_run_Inr finally_run_Inr advisory_path_lock_def)
  have "locked rl x c v1" using keeps_run [OF locked_keeps(1) [OF assms(1)] 2(1) 1(1)] .
  from enter_second [OF assms(1,5,6,4) this 2(2)] obtain c' where
    c': "locked rl x c v2" "locked rl y c' v2" "EvLock y (fst c') \<in> set (new_events v1 v2)" by blast
  have p: "prefix (w_log w0) (w_log v1)" "prefix (w_log v1) (w_log v2)" "prefix (w_log v3) (w_log w1)"
    using logs_prefix [OF logs_calls(1) 2(1)] logs_prefix [OF logs_enter 2(2)] logs_prefix [OF logs_unlock 2(4)] by blast+
  note q = prefix_order.order_trans [OF 1(4) p(1)]
  have "EvLock x (fst c) \<in> set (new_events w v2)" "EvLock y (fst c') \<in> set (new_events w v2)"
    using 1(2) c'(3) unfolding new_events_append [OF q p(2)] new_events_append [OF 1(4) p(1)] by auto
  then show ?thesis
    using c'(1,2) 2(3) prefix_order.order_trans [OF q p(2)] prefix_order.order_trans [OF p(3) 1(5)] by blast
qed

lemma resolve_value: "links_stable E \<Longrightarrow> resolve_io p E w = (Inr (fs_real (w_fs w) p), tick E w)"
  by (simp add: resolve_io_def sure_call_def)

lemma lock_order_pair:
  "path_str p = path_str q \<longrightarrow> p = q \<Longrightarrow>
   lock_order (dset (path_str q) q (dset (path_str p) p [])) \<in> (if p = q then {[p]} else {[p, q], [q, p]})"
  by (auto simp: lock_order_def)

lemma locks_run:
  assumes env: "cooperative E" "fs_real (w_fs w) = rl" "rl p = p" "rl q = q" "apart rl C p" "apart rl C q" "real_links rl"
    and neq: "path_str p = path_str q \<longrightarrow> p = q"
    and run: "advisory_path_locks C d [p, q] None body E w = (Inr r, w')"
  shows "\<exists>w0 w1 c c'. locked rl p c w0 \<and> locked rl q c' w0 \<and> EvLock p (fst c) \<in> set (new_events w w0) \<and>
    EvLock q (fst c') \<in> set (new_events w w0) \<and> body E w0 = (Inr r, w1) \<and>
    prefix (w_log w) (w_log w0) \<and> prefix (w_log w1) (w_log w')"
proof -
  note st = cooperative_links [OF env(1)]
  from run obtain t n w1 where 1: "now_io E w = (Inr n, w1)"
    and rest: "bind_io (unique_paths [p, q] []) (\<lambda>dct. enter_locks C d (n + t) (lock_order dct) body) E w1 = (Inr r, w')"
    unfolding advisory_path_locks_def bind_run_Inr basic_run by blast
  have w1: "w1 = tick E w" using 1 by (simp add: now_io_def sure_call_def)
  let ?w = "tick E (tick E w1)"
  have real: "fs_real (w_fs w1) = rl" "fs_real (w_fs (tick E w1)) = rl" "fs_real (w_fs ?w) = rl" using st env(2) w1 by simp_all
  have "unique_paths [p, q] [] E w1 = (Inr (dset (path_str q) q (dset (path_str p) p [])), ?w)"
    using env(3,4) real by (simp add: resolve_value [OF st] bind_io_def return_io_def)
  then obtain ps where ps: "ps \<in> (if p = q then {[p]} else {[p, q], [q, p]})" "enter_locks C d (n + t) ps body E ?w = (Inr r, w')"
    using rest lock_order_pair [OF neq] by (auto simp: bind_io_def)
  have same: "new_events ?w v = new_events w v" "w_log ?w = w_log w" for v by (simp_all add: new_events_def w1)
  show ?thesis
  proof (cases "p = q")
    case True
    then have "enter_locks C d (n + t) [p] body E ?w = (Inr r, w')" using ps by simp
    from enter_one [OF env(1) real(3) env(3) this] show ?thesis unfolding same using True by blast
  next
    case False
    then consider "enter_locks C d (n + t) [p, q] body E ?w = (Inr r, w')" | "enter_locks C d (n + t) [q, p] body E ?w = (Inr r, w')"
      using ps by auto
    then show ?thesis
    proof cases
      case 1
      from enter_two [OF env(1) real(3) env(3,4,5,7) 1] show ?thesis unfolding same by blast
    next
      case 2
      from enter_two [OF env(1) real(3) env(4,3,6,7) 2] show ?thesis unfolding same by blast
    qed
  qed
qed


definition move_ready :: "env \<Rightarrow> world \<Rightarrow> conf \<Rightarrow> string \<Rightarrow> string \<Rightarrow> path \<Rightarrow> path \<Rightarrow> bool" where
  "move_ready E w C from_path to_path p q \<longleftrightarrow>
     (let rl = fs_real (w_fs w) in
      cooperative E \<and> os_faults E \<and> real_links rl \<and> p = note_target rl C from_path \<and> q = note_target rl C to_path \<and>
      apart rl C p \<and> apart rl C q \<and> (path_str p = path_str q \<longrightarrow> p = q))"

lemma move_ready_real: "move_ready E w C a b p q \<Longrightarrow> fs_real (w_fs w) p = p \<and> fs_real (w_fs w) q = q"
  by (simp add: move_ready_def Let_def note_target_def real_links_def)

lemma logged_none: "logged (no_move p) w w' \<Longrightarrow> move_outcome rl p q False w w'"
  using logged_events [of "no_move p" w w'] unfolding move_outcome_def no_move_def by blast

lemma move_under_locks_outcome:
  assumes ready: "move_ready E w C a b p q" and rl: "rl = fs_real (w_fs w)"
    and run: "return_write_lock_timeout rel (move_under_locks C a b) E w = (Inr res, w')"
  shows "move_outcome rl p q (or_success res) w w'"
proof -
  have env: "cooperative E" "os_faults E" "real_links rl" "apart rl C p" "apart rl C q" "path_str p = path_str q \<longrightarrow> p = q"
    and pq: "p = note_target rl C a" "q = note_target rl C b" "rl p = p" "rl q = q"
    using ready move_ready_real [OF ready] unfolding move_ready_def Let_def rl by blast+
  note st = cooperative_links [OF env(1)]
  let ?body = "move_locked a b C"
  from run consider (ok) "move_under_locks C a b E w = (Inr res, w')"
    | (timeout) e where "move_under_locks C a b E w = (Inl e, w')" "isinstance e C_WriteLockTimeoutError" "\<not> or_success res"
    by (auto simp: return_write_lock_timeout_def catch_run basic_run split: if_splits option.splits)
  then show ?thesis
  proof cases
    case ok
    then obtain fp w1 fq w2 r where 1: "resolve_path C a E w = (Inr fp, w1)" "resolve_path C b E w1 = (Inr fq, w2)"
      and locks: "advisory_path_locks C (c_lock_timeout C) [fp, fq] None ?body E w2 = (Inr r, w')"
      and res: "res = (case r of Inl res \<Rightarrow> res | Inr _ \<Rightarrow> success_result b (''Note moved: '' @ a @ '' -> '' @ b))"
      unfolding move_under_locks_def bind_run_Inr move_finish_def basic_run by auto
    have r1: "fs_real (w_fs w1) = rl" using keeps_links_run [OF keeps_links_resolve_path [OF st] 1(1)] rl by simp
    have r2: "fs_real (w_fs w2) = rl" using keeps_links_run [OF keeps_links_resolve_path [OF st] 1(2)] r1 by simp
    have fp: "fp = p" using resolve_path_run [OF st 1(1)] pq(1) rl by simp
    have fq: "fq = q" using resolve_path_run [OF st 1(2)] pq(2) r1 by simp
    have p2: "prefix (w_log w) (w_log w2)"
      using prefix_order.order_trans [OF logs_prefix [OF logs_resolve_path 1(1)] logs_prefix [OF logs_resolve_path 1(2)]] .
    from locks_run [OF env(1) r2 pq(3,4) env(4,5,3,6) locks [unfolded fp fq]] obtain w0 w3 c d where
      3: "locked rl p c w0" "locked rl q d w0" "EvLock p (fst c) \<in> set (new_events w2 w0)" "EvLock q (fst d) \<in> set (new_events w2 w0)"
        "?body E w0 = (Inr r, w3)" "prefix (w_log w2) (w_log w0)" "prefix (w_log w3) (w_log w')" by blast
    have "\<not> prefix q (path_parent q)" using apart_parent [OF env(5)] .
    from move_locked_pair [OF env(1,2) pq(1,2) this 3(1,2,5)] have out: "pair_outcome rl p q c d (r = Inr ()) w3"
      and err: "\<forall>res. r = Inl res \<longrightarrow> \<not> or_success res" by blast+
    have ok: "(r = Inr ()) = or_success res" using res err by (cases r) auto
    have ev: "EvLock p (fst c) \<in> set (new_events w w0)" "EvLock q (fst d) \<in> set (new_events w w0)"
      using 3(3,4) unfolding new_events_append [OF p2 3(6)] by simp_all
    have out': "pair_outcome rl p q c d (or_success res) w3" using out unfolding ok .
    show ?thesis
      unfolding move_outcome_def
      using ev 3(1,2,7) out' prefix_order.order_trans [OF p2 3(6)] logs_prefix [OF logs_move_locked 3(5)] by blast
  next
    case timeout
    have "logged (no_move p) w w'"
    proof -
      have value_only: "os_or_value e' \<Longrightarrow> e' \<noteq> e" for e'
        using timeout(2) os_or_value_not_timeout by (auto simp: not_timeout_def)
      have "\<not> resolve_path C x E v = (Inl e, v')" for x v v' using raises_D [OF raises_resolve_path] value_only by blast
      moreover have "\<not> move_finish a b r E v = (Inl e, v')" for r v v' by (simp add: move_finish_def return_io_def)
      ultimately obtain fp w1 fq w2 where 1: "resolve_path C a E w = (Inr fp, w1)" "resolve_path C b E w1 = (Inr fq, w2)"
        and locks: "advisory_path_locks C (c_lock_timeout C) [fp, fq] None ?body E w2 = (Inl e, w')"
        using timeout(1) unfolding move_under_locks_def bind_run_Inl by blast
      have l2: "logged (no_move p) w w2"
        using logged_trans [OF logged_run [OF logs_resolve_path 1(1)] logged_run [OF logs_resolve_path 1(2)]] .
      have v: "validated_timeout x None = Inl e' \<Longrightarrow> os_or_value e'" for x e'
        by (auto simp: validated_timeout_def valid_timeout_def split: if_splits)
      have n: "\<not> now_io E v = (Inl e, v')" for v v' by (simp add: now_io_def sure_call_def split: prod.split)
      have u: "\<not> unique_paths [fp, fq] [] E v = (Inl e, v')" for v v'
        by (simp add: resolve_value [OF st] bind_io_def return_io_def)
      have nv: "Inl e \<noteq> validated_timeout (c_lock_timeout C) None" using v value_only by metis
      from locks n u obtain t v1 dct v2 where 2: "now_io E w2 = (Inr t, v1)" "unique_paths [fp, fq] [] E v1 = (Inr dct, v2)"
        and 3: "\<exists>t. enter_locks C (c_lock_timeout C) t (lock_order dct) ?body E v2 = (Inl e, w')"
        unfolding advisory_path_locks_def bind_run_Inl basic_run using nv by blast
      have "logs E (no_move p) (unique_paths [fp, fq] [])" by auto
      note lu = logged_run [OF this 2(2)]
      have "logged (no_move p) w2 v2" using logged_trans [OF logged_run [OF logs_calls(1) 2(1)] lu] .
      moreover have "logged (no_move p) v2 w'"
        using 3 timeout_before_move [OF env(2) raises_move_locked [OF env(2)] _ timeout(2)] by blast
      ultimately have "logged (no_move p) w2 w'" by (rule logged_trans)
      then show ?thesis using l2 logged_trans by blast
    qed
    then show ?thesis using timeout(3) logged_none by simp
  qed
qed



lemma sample_paths:
  "strip ''b.md'' = ''b.md''" "path_components ''b.md'' = [''b.md'']" "\<not> starts_with ''b.md'' ''/''"
  "\<not> starts_with ''b.md'' [backslash]" "rel_suffix ''b.md'' = ''.md''"
  "starts_with (path_str (safe_base @ [''b.md''])) (path_str safe_base)"
  "path_str [''v'', ''a.md''] = ''/v/a.md''" "path_str [''v'', ''b.md''] = ''/v/b.md''"
  by code_simp+

lemma sample_resolved:
  assumes "fs_real (w_fs w) = (\<lambda>p. p)"
  shows "resolve_path sample_conf ''a.md'' quiet_env w = (Inr [''v'', ''a.md''], w\<lparr>w_tick := w_tick w + 3\<rparr>)"
    "resolve_path sample_conf ''b.md'' quiet_env w = (Inr [''v'', ''b.md''], w\<lparr>w_tick := w_tick w + 3\<rparr>)"
  using assms
  by (auto simp: sample_strings sample_paths pure_path_def bind_io_def lift_io_def resolve_path_def validate_relative_path_def
      catch_io_def return_io_def resolve_io_def sure_call_def resolve_internal_path_def relative_to_def
      Let_def join_path_def quiet_tick_eq numeral_eq_Suc split: option.splits)

lemma sample_move_ready: "move_ready quiet_env note_world sample_conf ''a.md'' ''b.md'' [''v'', ''a.md''] [''v'', ''b.md'']"
  by (simp add: move_ready_def quiet_env_simps note_target_def apart_def internal_dir_def Let_def real_links_def
      sample_strings sample_paths pure_path_def join_path_def note_world_def start_world_def empty_fs_def)

lemma sample_move: "\<exists>w'. move_note sample_conf ''a.md'' ''b.md'' quiet_env note_world
    = (Inr (success_result ''b.md'' ''Note moved: a.md -> b.md''), w')"
proof -
  have ext: "validate_extension sample_conf x False = Inr ()" if "rel_suffix x = ''.md''" for x
    using that by (simp add: validate_extension_def sample_conf_def)
  have ign: "validate_not_ignored_folder sample_conf ''a.md'' = Inr ()" "validate_not_ignored_folder sample_conf ''b.md'' = Inr ()"
    by (simp_all add: validate_not_ignored_folder_def lexical_parts_def pure_path_def sample_strings sample_paths)
  have order: "lock_order [(''/v/a.md'', [''v'', ''a.md'']), (''/v/b.md'', [''v'', ''b.md''])]
      = [[''v'', ''a.md''], [''v'', ''b.md'']]"
    by code_simp
  have real: "fs_real (w_fs note_world) = (\<lambda>p. p)" by (simp add: note_world_def start_world_def empty_fs_def)
  have locks: "unique_paths [[''v'', ''a.md''], [''v'', ''b.md'']] [] quiet_env w =
      (Inr (dset ''/v/b.md'' [''v'', ''b.md''] (dset ''/v/a.md'' [''v'', ''a.md''] [])), w\<lparr>w_tick := w_tick w + 2\<rparr>)"
    if "fs_real (w_fs w) = (\<lambda>p. p)" for w
    using that by (simp add: bind_io_def resolve_io_def sure_call_def quiet_tick_eq return_io_def sample_paths)
  let ?W = "note_world\<lparr>w_tick := 9\<rparr>"
  have "\<exists>w'. enter_locks sample_conf 5 5 [[''v'', ''a.md''], [''v'', ''b.md'']] (move_locked ''a.md'' ''b.md'' sample_conf) quiet_env ?W
     = (Inr (Inr ()), w')"
    by (simp add: sample_run sample_paths move_locked_def sample_resolved move_or_error_def move_io_def real_destination_def
        is_dir_io_def rename_io_def move_event_def isinstance_def)
  then obtain w' where run: "enter_locks sample_conf 5 5 [[''v'', ''a.md''], [''v'', ''b.md'']]
      (move_locked ''a.md'' ''b.md'' sample_conf) quiet_env ?W = (Inr (Inr ()), w')" by blast
  have tick: "w_now note_world = 0" "w_tick note_world = 0" by (simp_all add: note_world_def start_world_def)
  have "advisory_path_locks sample_conf 5 [[''v'', ''a.md''], [''v'', ''b.md'']] None (move_locked ''a.md'' ''b.md'' sample_conf)
      quiet_env (note_world\<lparr>w_tick := 6\<rparr>) = (Inr (Inr ()), w')"
  proof -
    have now: "now_io quiet_env (note_world\<lparr>w_tick := 6\<rparr>) = (Inr 0, note_world\<lparr>w_tick := 7\<rparr>)"
      by (simp add: now_io_def sure_call_def quiet_tick_eq tick)
    show ?thesis
      using run real
      by (simp add: advisory_path_locks_def validated_timeout_def valid_timeout_def lift_io_def bind_io_def locks now
          order del: enter_locks.simps unique_paths.simps)
  qed
  then show ?thesis
    using real
    by (simp add: move_note_def ext ign sample_strings sample_paths lift_io_def bind_io_def move_under_locks_def sample_resolved
        move_finish_def return_io_def return_write_lock_timeout_def catch_io_def tick)
qed



section \<open>A deleted note is in the trash\<close>

text \<open>Nobody else removes or changes the files of the trash.\<close>

definition trash_safe :: "env \<Rightarrow> path \<Rightarrow> bool" where
  "trash_safe E T \<longleftrightarrow> (\<forall>t own fs q. prefix T q \<longrightarrow> fs_files (e_step E t own fs) q = fs_files fs q)"

definition trash_dir_of :: "(path \<Rightarrow> path) \<Rightarrow> conf \<Rightarrow> path" where
  "trash_dir_of rl C = internal_dir rl C [''.trash'']"

definition holds_data :: "path \<Rightarrow> regfile \<Rightarrow> world \<Rightarrow> bool" where
  "holds_data q f w \<longleftrightarrow> (\<exists>g. fs_files (w_fs w) q = Some g \<and> f_data g = f_data f)"

lemma trash_tick: "trash_safe E T \<Longrightarrow> prefix T q \<Longrightarrow> fs_files (w_fs (tick E w)) q = fs_files (w_fs w) q"
  by (simp add: trash_safe_def tick_def)

text \<open>What a move into the trash has done.\<close>

definition trashed :: "(path \<Rightarrow> path) \<Rightarrow> path \<Rightarrow> path \<Rightarrow> regfile option \<times> revision option \<Rightarrow> world \<Rightarrow> bool" where
  "trashed rl T p c w \<longleftrightarrow> (\<exists>x. locked rl p (None, x) w) \<and> (\<forall>f. fst c = Some f \<longrightarrow> (\<exists>q. prefix T q \<and> holds_data q f w))"

lemma rename_trash:
  assumes "cooperative E" "p \<noteq> q" "locked rl p c w" "prefix T q" "rename_io p q E w = (r, w')"
  shows "(r = Inr () \<and> trashed rl T p c w') \<or> ((\<exists>e. r = Inl e) \<and> locked rl p c w')"
proof -
  let ?w = "tick E w"
  note l = locked_tick [OF assms(1,3)]
  show ?thesis
  proof (cases "r = Inr ()")
    case False
    then have "w' = ?w" "\<exists>e. r = Inl e"
      using assms(5) by (auto simp: rename_io_def syscall_def move_event_def split: option.splits if_splits sum.splits)
    then show ?thesis using l by blast
  next
    case True
    show ?thesis
    proof (cases "fst c")
      case (Some f)
      then have "fs_files (w_fs ?w) p = Some f" using l by (simp add: locked_def)
      then have w': "w' = move_event p q (?w\<lparr>w_fs := rename_file p q f (w_fs ?w)\<rparr>)"
        using assms(5) True by (auto simp: rename_io_def syscall_def split: option.splits if_splits)
      have "locked rl p (None, snd c) w'" "holds_data q f w'"
        unfolding w' using l assms(2) by (simp_all add: locked_def move_event_def rename_file_def holds_data_def)
      then show ?thesis using True Some assms(4) unfolding trashed_def by auto
    next
      case None
      then have n: "fs_files (w_fs ?w) p = None" using l by (simp add: locked_def)
      then have w': "w' = move_event p q (?w\<lparr>w_fs := rename_tree p q (w_fs ?w)\<rparr>)" "\<not> prefix q p"
        using assms(5) True by (auto simp: rename_io_def syscall_def split: option.splits if_splits)
      then have "locked rl p (None, None) w'"
        using l by (simp add: locked_def move_event_def rename_tree_def)
      then show ?thesis using True None unfolding trashed_def by auto
    qed
  qed
qed

lemma copy_open_trash:
  assumes "cooperative E" "p \<noteq> q" "locked rl p c w" "copy_open_io p q E w = (r, w')"
  shows "locked rl p c w' \<and> (\<forall>f. r = Inr f \<longrightarrow> fst c = Some f \<and> fs_files (w_fs w') q \<noteq> None)"
  using assms(4,2) locked_tick [OF assms(1,3)]
  by (auto simp: copy_open_io_def syscall_def locked_def split: option.splits if_splits)

lemma change_trash:
  assumes "cooperative E" "trash_safe E T" "prefix T q" "p \<noteq> q" "locked rl p c w" "change_file_io q g E w = (r, w')"
  shows "locked rl p c w' \<and> (r = Inr () \<longrightarrow> (\<exists>mt. fs_files (w_fs w') q = map_option (g mt) (fs_files (w_fs w) q)))"
  using assms(6,4) locked_tick [OF assms(1,5)] trash_tick [OF assms(2,3), of w]
  by (auto simp: change_file_io_def syscall_def locked_def split: option.splits)

lemma copy_file_trash:
  assumes "cooperative E" "trash_safe E T" "prefix T q" "p \<noteq> q" "locked rl p c w" "copy_file_io p q E w = (r, w')"
  shows "locked rl p c w' \<and> (r = Inr () \<longrightarrow> (\<exists>f. fst c = Some f \<and> holds_data q f w'))"
proof -
  obtain r1 w1 where 1: "copy_open_io p q E w = (r1, w1)" by (cases "copy_open_io p q E w")
  from copy_open_trash [OF assms(1,4,5) 1] have l1: "locked rl p c w1"
    and f1: "\<forall>f. r1 = Inr f \<longrightarrow> fst c = Some f \<and> fs_files (w_fs w1) q \<noteq> None" by blast+
  show ?thesis
  proof (cases r1)
    case (Inl e)
    then have "r = Inl e" "w' = w1" using assms(6) 1 by (simp_all add: copy_file_io_def bind_io_def)
    then show ?thesis using l1 by simp
  next
    case (Inr f)
    let ?fill = "\<lambda>mt g. g\<lparr>f_data := f_data f, f_mtime := mt\<rparr>"
    let ?stat = "\<lambda>mt g. g\<lparr>f_mode := f_mode f, f_mtime := f_mtime f\<rparr>"
    obtain r2 w2 where 2: "change_file_io q ?fill E w1 = (r2, w2)" by (cases "change_file_io q ?fill E w1")
    note c2 = change_trash [OF assms(1-4) l1 2]
    show ?thesis
    proof (cases r2)
      case (Inl e)
      then have "r = Inl e" "w' = w2" using assms(6) 1 2 \<open>r1 = Inr f\<close> by (simp_all add: copy_file_io_def bind_io_def)
      then show ?thesis using c2 by simp
    next
      case (Inr u)
      have 3: "change_file_io q ?stat E w2 = (r, w')"
        using assms(6) 1 2 \<open>r1 = Inr f\<close> Inr by (simp add: copy_file_io_def bind_io_def)
      note c3 = change_trash [OF assms(1-4) conjunct1 [OF c2] 3]
      have "\<exists>f. fst c = Some f \<and> holds_data q f w'" if ok: "r = Inr ()"
      proof -
        obtain g where g: "fst c = Some f" "fs_files (w_fs w1) q = Some g" using f1 \<open>r1 = Inr f\<close> by auto
        obtain mt where "fs_files (w_fs w2) q = Some (?fill mt g)" using c2 Inr g by auto
        then obtain mt' where "fs_files (w_fs w') q = Some (?stat mt' (?fill mt g))" using c3 ok by auto
        then show ?thesis using g(1) by (simp add: holds_data_def)
      qed
      then show ?thesis using c3 by blast
    qed
  qed
qed

lemma remove_source_trash:
  assumes "cooperative E" "trash_safe E T" "prefix T q" "p \<noteq> q" "locked rl p c w" "fst c = Some f" "holds_data q f w"
    "remove_source_io p q E w = (r, w')"
  shows "(r = Inr () \<and> trashed rl T p c w') \<or> ((\<exists>e. r = Inl e) \<and> locked rl p c w')"
proof (cases "r = Inr ()")
  case False
  then show ?thesis
    using assms(8) locked_tick [OF assms(1,5)]
    by (auto simp: remove_source_io_def syscall_def split: option.splits sum.splits)
next
  case True
  then have w': "w' = move_event p q ((tick E w)\<lparr>w_fs := (w_fs (tick E w))\<lparr>fs_files := (fs_files (w_fs (tick E w)))(p := None)\<rparr>\<rparr>)"
    using assms(8) by (auto simp: remove_source_io_def syscall_def split: option.splits)
  have "locked rl p (None, snd c) w'" using locked_tick [OF assms(1,5)] unfolding w' by (simp add: locked_def move_event_def)
  moreover have "holds_data q f w'"
    using assms(4,7) trash_tick [OF assms(2,3), of w] unfolding w' by (simp add: holds_data_def move_event_def)
  ultimately show ?thesis using True assms(3,6) unfolding trashed_def by auto
qed

lemma move_trash:
  assumes "cooperative E" "trash_safe E T" "prefix T q" "\<not> prefix T p" "locked rl p c w" "move_io p q E w = (r, w')"
  shows "(r = Inr () \<and> trashed rl T p c w') \<or> ((\<exists>e. r = Inl e) \<and> locked rl p c w')"
proof -
  obtain r0 w0 where 0: "real_destination p q E w = (r0, w0)" by (cases "real_destination p q E w")
  have "keeps E (locked rl p c) (is_dir_io q)"
    by (rule keepsI) (auto simp: is_dir_io_def locked_tick [OF assms(1)] split: option.splits)
  then have "keeps E (locked rl p c) (real_destination p q)"
    unfolding real_destination_def using assms(1) by (intro keeps_bind keeps_cases keeps_return locked_keeps)
  from keeps_run [OF this 0 assms(5)] have l0: "locked rl p c w0" .
  show ?thesis
  proof (cases r0)
    case (Inl e)
    then show ?thesis using assms(6) 0 l0 by (auto simp: move_io_def bind_io_def)
  next
    case (Inr d)
    have "d = q \<or> d = q @ [path_name p]"
      using 0 Inr by (auto simp: real_destination_def bind_io_def is_dir_io_def return_io_def raise_io_def exists_io_def
          split: option.splits if_splits sum.splits prod.splits)
    then have d: "prefix T d" using assms(3) by (auto simp: prefix_def)
    then have d: "prefix T d" "p \<noteq> d" using assms(4) by auto
    obtain r1 w1 where 1: "rename_io p d E w0 = (r1, w1)" by (cases "rename_io p d E w0")
    note m1 = rename_trash [OF assms(1) d(2) l0 d(1) 1]
    show ?thesis
    proof (cases r1)
      case (Inr u)
      then have "r = Inr u" "w' = w1" using assms(6) 0 1 \<open>r0 = Inr d\<close> by (simp_all add: move_io_def bind_io_def catch_io_def)
      then show ?thesis using m1 Inr by auto
    next
      case (Inl e)
      then have l1: "locked rl p c w1" using m1 by auto
      show ?thesis
      proof (cases "isinstance e C_OSError")
        case False
        then have "r = Inl e" "w' = w1" using assms(6) 0 1 Inl \<open>r0 = Inr d\<close> by (simp_all add: move_io_def bind_io_def catch_io_def)
        then show ?thesis using l1 by blast
      next
        case True
        let ?rest = "bind_io (copy_file_io p d) (\<lambda>_. remove_source_io p d)"
        obtain b w2 where 2: "is_dir_io p E w1 = (Inr b, w2)" "w2 = tick E w1"
          using is_dir_locked [OF assms(1) l1] by (cases "is_dir_io p E w1") blast
        have l2: "locked rl p c w2" unfolding 2(2) by (rule locked_tick [OF assms(1) l1])
        have run: "(if b then raise_io e else ?rest) E w2 = (r, w')"
          using assms(6) 0 1 Inl \<open>r0 = Inr d\<close> True 2(1) by (simp add: move_io_def bind_io_def catch_io_def)
        show ?thesis
        proof (cases b)
          case True
          then show ?thesis using run l2 by (auto simp: raise_io_def)
        next
          case False
          obtain r3 w3 where 3: "copy_file_io p d E w2 = (r3, w3)" by (cases "copy_file_io p d E w2")
          note m3 = copy_file_trash [OF assms(1,2) d l2 3]
          show ?thesis
          proof (cases r3)
            case (Inl e')
            then show ?thesis using run False 3 m3 by (auto simp: bind_io_def)
          next
            case (Inr u)
            then have "remove_source_io p d E w3 = (r, w')" using run False 3 by (simp add: bind_io_def)
            moreover obtain f where "fst c = Some f" "holds_data d f w3" using m3 Inr by auto
            ultimately show ?thesis using remove_source_trash [OF assms(1,2) d conjunct1 [OF m3]] by blast
          qed
        qed
      qed
    qed
  qed
qed


lemma move_or_error_trash:
  assumes "cooperative E" "trash_safe E T" "prefix T q" "\<not> prefix T p" "locked rl p c w"
    "move_or_error p q failed x E w = (Inr r, w')"
  shows "(r = Inr x \<and> trashed rl T p c w') \<or> (r = Inl failed \<and> locked rl p c w')"
proof -
  obtain r1 w1 where 1: "move_io p q E w = (r1, w1)" by (cases "move_io p q E w")
  note m = move_trash [OF assms(1-5) 1]
  show ?thesis
  proof (cases r1)
    case (Inl e)
    then have "r = Inl failed" "w' = w1"
      using assms(6) 1 by (auto simp: move_or_error_def bind_io_def catch_io_def return_io_def split: if_splits)
    then show ?thesis using m Inl by auto
  next
    case (Inr u)
    then have "r = Inr x" "w' = w1" using assms(6) 1 by (simp_all add: move_or_error_def bind_io_def catch_io_def return_io_def)
    then show ?thesis using m Inr by auto
  qed
qed

lemma mkdir_single_keeps:
  assumes "cooperative E" "p \<noteq> d"
  shows "keeps E (locked rl p c) (mkdir_single_io d)"
  unfolding keeps_def mkdir_single_io_def
proof (rule triple_syscall)
  fix w assume "locked rl p c w"
  from locked_tick [OF assms(1) this] assms(2) show "locked rl p c (snd (if fs_files (w_fs (tick E w)) d \<noteq> None
      then (Inl OSError, tick E w)
      else if fs_dirs (w_fs (tick E w)) d \<noteq> None then (Inr (), tick E w)
      else if fs_dirs (w_fs (tick E w)) (path_parent d) = None then (Inl FileNotFoundError, tick E w)
      else (Inr (), (tick E w)\<lparr>w_fs := (w_fs (tick E w))\<lparr>fs_dirs := (fs_dirs (w_fs (tick E w)))(d \<mapsto>
       \<lparr>rv_inode = e_inode E (w_tick (tick E w)), rv_mtime = e_mtime E (w_tick (tick E w)), rv_size = 0\<rparr>)\<rparr>\<rparr>)))"
    by (auto simp: locked_def)
qed (rule locked_tick [OF assms(1)])

lemma unique_keeps: "cooperative E \<Longrightarrow> keeps E (locked rl p c) (unique_trash_path n t x)"
  by (induction n arbitrary: x) (auto intro!: keeps_bind locked_keeps)

lemma unique_trash_path_in:
  assumes "strict_prefix T t"
  shows "prefix T x \<Longrightarrow> unique_trash_path n t x E w = (Inr (Some q), w') \<Longrightarrow> prefix T q"
proof (induction n arbitrary: x w)
  case 0
  then show ?case by (simp add: return_io_def)
next
  case (Suc n)
  obtain k where "t = T @ k" "k \<noteq> []" using assms by (auto simp: strict_prefix_def prefix_def)
  then have "prefix T (with_stem t y)" for y by (simp add: with_stem_def butlast_append)
  then show ?case using Suc by (auto simp: bind_run_Inr basic_run split: if_splits)
qed

definition delete_ready :: "env \<Rightarrow> world \<Rightarrow> conf \<Rightarrow> string \<Rightarrow> path \<Rightarrow> bool" where
  "delete_ready E w C rel p \<longleftrightarrow>
     (let rl = fs_real (w_fs w); T = trash_dir_of rl C in
      note_ready E w C rel p \<and> trash_safe E T \<and> \<not> prefix T p \<and>
      strict_prefix T (internal_dir rl C (''.trash'' # lexical_parts rel)))"

lemma delete_locked_trash:
  assumes env: "cooperative E" "os_faults E" "trash_safe E T" and T: "T = trash_dir_of rl C" "\<not> prefix T p"
    "strict_prefix T (internal_dir rl C (''.trash'' # lexical_parts rel))"
    and p: "p = note_target rl C rel" and l: "locked rl p c w" and run: "delete_locked rel C E w = (Inr r, w')"
  shows "((\<exists>q. r = Inr q) \<and> c \<noteq> (None, None) \<and> trashed rl T p c w') \<or> ((\<exists>res. r = Inl res \<and> \<not> or_success res) \<and> locked rl p c w')"
proof -
  from run obtain fp w1 rv w2 where 1: "resolve_path C rel E w = (Inr fp, w1)" "file_revision fp E w1 = (Inr rv, w2)"
    and rest: "(if rv = None then return_io (Inl (not_found rel))
     else
       bind_io (resolve_internal_path C [''.trash'']) (\<lambda>trash_dir.
       bind_io (mkdir_single_io trash_dir) (\<lambda>_.
       bind_io (resolve_internal_path C (''.trash'' # lexical_parts rel)) (\<lambda>trash_path.
       bind_io (mkdir_io (path_parent trash_path)) (\<lambda>_.
       bind_io (unique_trash_path trash_attempts trash_path trash_path) (\<lambda>found.
       case found of
         None \<Rightarrow> return_io (Inl (error_result rel (''Could not generate a unique trash name after ''
           @ show_nat trash_attempts @ '' attempts'') None))
       | Some final \<Rightarrow> bind_io (file_revision fp) (\<lambda>now.
           if now \<noteq> rv then return_io (Inl (write_conflict rel))
           else move_or_error fp final (error_result rel ''Failed to move note to trash'' None) final))))))) E w2 = (Inr r, w')"
    unfolding delete_locked_def bind_run_Inr by blast
  have fp: "fp = p" using resolve_path_target [OF env(1) l 1(1)] p by simp
  have l1: "locked rl p c w1" using keeps_run [OF keeps_resolve_path [OF env(1)] 1(1) l] .
  note f2 = file_revision_locked [OF env(1,2) l1 1(2) [unfolded fp]]
  show ?thesis
  proof (cases "rv = None")
    case True
    then show ?thesis using rest f2 by (auto simp: basic_run not_found_def)
  next
    case False
    then have c: "c \<noteq> (None, None)" using f2 cell_revision_None by auto
    from rest [unfolded if_not_P [OF False] fp bind_run_Inr] obtain td w3 u w4 tp w5 u' w6 found w7 where
      3: "resolve_internal_path C [''.trash''] E w2 = (Inr td, w3)" "mkdir_single_io td E w3 = (Inr u, w4)"
        "resolve_internal_path C (''.trash'' # lexical_parts rel) E w4 = (Inr tp, w5)"
        "mkdir_io (path_parent tp) E w5 = (Inr u', w6)" "unique_trash_path trash_attempts tp tp E w6 = (Inr found, w7)"
      and rest7: "(case found of
         None \<Rightarrow> return_io (Inl (error_result rel (''Could not generate a unique trash name after ''
           @ show_nat trash_attempts @ '' attempts'') None))
       | Some final \<Rightarrow> bind_io (file_revision p) (\<lambda>now.
           if now \<noteq> rv then return_io (Inl (write_conflict rel))
           else move_or_error p final (error_result rel ''Failed to move note to trash'' None) final)) E w7 = (Inr r, w')"
      unfolding bind_run_Inr by blast
    note st = cooperative_links [OF env(1)]
    have td: "td = T" unfolding T(1) trash_dir_of_def
      by (rule resolve_internal_run [OF st 3(1) locked_real [OF conjunct2 [OF f2]]])
    have l3: "locked rl p c w3" using keeps_run [OF keeps_resolve_internal [OF env(1)] 3(1) conjunct2 [OF f2]] .
    have "p \<noteq> td" using td T(2) by auto
    from keeps_run [OF mkdir_single_keeps [OF env(1) this] 3(2) l3] have l4: "locked rl p c w4" .
    have tp: "strict_prefix T tp" using resolve_internal_run [OF st 3(3) locked_real [OF l4]] T(3) by simp
    have l5: "locked rl p c w5" using keeps_run [OF keeps_resolve_internal [OF env(1)] 3(3) l4] .
    have l6: "locked rl p c w6" using keeps_run [OF locked_mkdir_present [OF env(1) c] 3(4) l5] .
    have l7: "locked rl p c w7" using keeps_run [OF unique_keeps [OF env(1)] 3(5) l6] .
    show ?thesis
    proof (cases found)
      case None
      then show ?thesis using rest7 l7 by (auto simp: basic_run)
    next
      case (Some q)
      have q: "prefix T q" using unique_trash_path_in [OF tp _ 3(5) [unfolded Some]] tp by simp
      from rest7 Some obtain now w8 where 8: "file_revision p E w7 = (Inr now, w8)"
        and rest8: "(if now \<noteq> rv then return_io (Inl (write_conflict rel))
           else move_or_error p q (error_result rel ''Failed to move note to trash'' None) q) E w8 = (Inr r, w')"
        by (auto simp: bind_run_Inr)
      note f8 = file_revision_locked [OF env(1,2) l7 8]
      have "move_or_error p q (error_result rel ''Failed to move note to trash'' None) q E w8 = (Inr r, w')"
        using rest8 f2 f8 by simp
      from move_or_error_trash [OF env(1,3) q T(2) conjunct2 [OF f8] this] show ?thesis using c by auto
    qed
  qed
qed

text \<open>
  The promise of \<open>delete_note\<close>: while the lock of \<open>p\<close> was held its entry left its place, and at
  the end its data is in a file of the trash; or the entry was left as it was; or the lock was
  not obtained and nothing was moved.
\<close>

definition delete_outcome :: "(path \<Rightarrow> path) \<Rightarrow> path \<Rightarrow> path \<Rightarrow> bool \<Rightarrow> world \<Rightarrow> world \<Rightarrow> bool" where
  "delete_outcome rl T p ok w w' \<longleftrightarrow>
     (\<exists>w0 w1 c. prefix (w_log w) (w_log w0) \<and> prefix (w_log w0) (w_log w1) \<and> prefix (w_log w1) (w_log w') \<and>
        EvLock p (fst c) \<in> set (new_events w w0) \<and> locked rl p c w0 \<and>
        (if ok then c \<noteq> (None, None) \<and> (\<exists>x. locked rl p (None, x) w1) \<and>
               (\<forall>f. fst c = Some f \<longrightarrow> (\<exists>q. prefix T q \<and> holds_data q f w'))
         else locked rl p c w1)) \<or>
     \<not> ok \<and> (\<forall>q X. EvMove p q X \<notin> set (new_events w w'))"


lemma delete_outcomeI:
  assumes "prefix (w_log w) (w_log w0)" "prefix (w_log w0) (w_log w1)" "prefix (w_log w1) (w_log w')"
    "EvLock p (fst c) \<in> set (new_events w w0)" "locked rl p c w0"
    "if ok then c \<noteq> (None, None) \<and> (\<exists>x. locked rl p (None, x) w1) \<and>
       (\<forall>f. fst c = Some f \<longrightarrow> (\<exists>q. prefix T q \<and> holds_data q f w')) else locked rl p c w1"
  shows "delete_outcome rl T p ok w w'"
  unfolding delete_outcome_def using assms by blast

lemma logs_delete_locked: "logs E (\<lambda>_. True) (delete_locked rel C)"
proof -
  have "logs E (\<lambda>_. True) (unique_trash_path n t x)" for n t x by (induction n arbitrary: x) auto
  then show ?thesis
    unfolding delete_locked_def by (auto intro!: logs_file_revision)
qed

lemma raises_delete_locked: "os_faults E \<Longrightarrow> raises E os_or_value (delete_locked rel C)"
proof -
  assume os: "os_faults E"
  have "raises E os_or_value (unique_trash_path n t x)" for n t x by (induction n arbitrary: x) auto
  then show ?thesis
    unfolding delete_locked_def using os by (auto intro!: raises_file_revision raises_syscalls)
qed

lemma raises_delete_finish: "raises E os_or_value (delete_finish C rel q)"
  unfolding delete_finish_def by auto

lemma unlock_holds: "trash_safe E T \<Longrightarrow> prefix T q \<Longrightarrow> holds_data q f w \<Longrightarrow> unlock_io p E w = (r, w') \<Longrightarrow> holds_data q f w'"
  using trash_tick [of E T q w] by (auto simp: unlock_io_def syscall_def holds_data_def split: option.splits)

lemma finish_holds:
  "trash_safe E T \<Longrightarrow> prefix T q \<Longrightarrow> holds_data q f w \<Longrightarrow> delete_finish C rel x E w = (r, w') \<Longrightarrow> holds_data q f w'"
  using trash_tick [of E T q w]
  by (auto simp: delete_finish_def bind_io_def resolve_io_def sure_call_def lift_io_def return_io_def holds_data_def split: sum.splits)

lemma finish_success: "delete_finish C rel x E w = (Inr res, w') \<Longrightarrow> or_success res"
  by (auto simp: delete_finish_def bind_run_Inr basic_run)

lemma logs_delete_finish: "logs E (\<lambda>_. True) (delete_finish C rel x)"
  unfolding delete_finish_def by auto

lemma logs_unlock_no_move: "logs E (no_move p) (unlock_io q)"
  by (auto simp: logs_def unlock_io_def syscall_def no_move_def split: option.splits)

lemma delete_run_outcome:
  assumes env: "cooperative E" "os_faults E" "trash_safe E T" and T: "T = trash_dir_of rl C" "\<not> prefix T p"
    "strict_prefix T (internal_dir rl C (''.trash'' # lexical_parts rel))"
    and p: "p = note_target rl C rel" "rl p = p" and real: "fs_real (w_fs w) = rl"
    and run: "run_locked C d p (delete_locked rel C) (delete_finish C rel) E w = (Inr res, w')"
  shows "delete_outcome rl T p (or_success res) w w'"
proof -
  from run obtain w0 r w1 w2 where
    1: "enter_path_lock C d p None E w = (Inr (), w0)" "delete_locked rel C E w0 = (Inr r, w1)" "unlock_io p E w1 = (Inr (), w2)"
    and fin: "(case r of Inl res \<Rightarrow> return_io res | Inr x \<Rightarrow> delete_finish C rel x) E w2 = (Inr res, w')"
    by (auto simp: run_locked_def advisory_path_lock_def bind_run_Inr finally_run_Inr)
  from enter_path_lock_run [OF env(1) real p(2) 1(1)] obtain c where
    c: "locked rl p c w0" "EvLock p (fst c) \<in> set (new_events w w0)" by blast
  note out = delete_locked_trash [OF env T p(1) c(1) 1(2)]
  have fin_log: "prefix (w_log w2) (w_log w')"
    using fin logs_prefix [OF logs_delete_finish] by (cases r) (auto simp: return_io_def)
  have logs: "prefix (w_log w) (w_log w0)" "prefix (w_log w0) (w_log w1)" "prefix (w_log w1) (w_log w')"
    using logs_prefix [OF logs_enter 1(1)] logs_prefix [OF logs_delete_locked 1(2)]
      prefix_order.order_trans [OF logs_prefix [OF logs_unlock 1(3)] fin_log] by blast+
  show ?thesis
  proof (cases r)
    case (Inl e)
    then have "res = e" "\<not> or_success e" "locked rl p c w1" using fin out by (auto simp: return_io_def)
    then show ?thesis by (intro delete_outcomeI [OF logs c(2,1)]) simp
  next
    case (Inr x)
    then have ok: "or_success res" and "c \<noteq> (None, None)" and t: "trashed rl T p c w1" using fin out finish_success by auto
    moreover have "\<exists>q. prefix T q \<and> holds_data q f w'" if f: "fst c = Some f" for f
    proof -
      obtain q where q: "prefix T q" "holds_data q f w1" using t f unfolding trashed_def by blast
      have "holds_data q f w2" using unlock_holds [OF env(3) q 1(3)] .
      then show ?thesis using finish_holds [OF env(3) q(1)] fin Inr q(1) by auto
    qed
    ultimately show ?thesis unfolding trashed_def by (intro delete_outcomeI [OF logs c(2,1)]) simp
  qed
qed

lemma delete_timeout_no_move:
  assumes "os_faults E" "run_locked C d p (delete_locked rel C) (delete_finish C rel) E w = (Inl e, w')"
    "isinstance e C_WriteLockTimeoutError"
  shows "logged (no_move p') w w'"
proof -
  have not: "os_or_value e' \<Longrightarrow> e' \<noteq> e" for e' using assms(3) os_or_value_not_timeout by (auto simp: not_timeout_def)
  have "\<not> delete_finish C rel x E v = (Inl e, w')" for x v using raises_D [OF raises_delete_finish] not by blast
  then have "\<not> (case r of Inl res \<Rightarrow> return_io res | Inr x \<Rightarrow> delete_finish C rel x) E v = (Inl e, w')" for r v
    by (cases r) (simp_all add: return_io_def)
  then have "advisory_path_lock C d p None (delete_locked rel C) E w = (Inl e, w')"
    using assms(2) unfolding run_locked_def bind_run_Inl by blast
  moreover have "\<not> finally_io (delete_locked rel C) (unlock_io p) E v = (Inl e, w')" for v
    using raises_D [OF raises_finally [OF raises_delete_locked raises_unlock]] assms(1) not by blast
  ultimately have "enter_path_lock C d p None E w = (Inl e, w')"
    unfolding advisory_path_lock_def bind_run_Inl by blast
  then show ?thesis by (rule logged_run [OF logs_enter_no_move])
qed


lemma sample_delete_ready: "delete_ready quiet_env note_world sample_conf ''a.md'' [''v'', ''a.md'']"
proof -
  have "trash_safe quiet_env T" for T by (simp add: trash_safe_def)
  moreover have "lexical_parts ''a.md'' = [''a.md'']" by (simp add: lexical_parts_def pure_path_def sample_strings)
  moreover have "fs_real (w_fs note_world) = (\<lambda>p. p)" by (simp add: note_world_def start_world_def empty_fs_def)
  ultimately show ?thesis
    by (simp add: delete_ready_def sample_ready Let_def trash_dir_of_def internal_dir_def join_path_def pure_path_def
      sample_strings strict_prefix_def)
qed

lemma sample_delete: "\<exists>w'. delete_note sample_conf ''a.md'' quiet_env note_world
    = (Inr (success_result ''a.md'' ''Note moved to trash: .trash/a.md''), w')"
proof -
  have ext: "validate_extension sample_conf ''a.md'' False = Inr ()"
    by (simp add: validate_extension_def sample_conf_def sample_strings)
  have ign: "validate_not_ignored_folder sample_conf ''a.md'' = Inr ()"
    by (simp add: validate_not_ignored_folder_def lexical_parts_def pure_path_def sample_strings)
  have parts: "lexical_parts ''a.md'' = [''a.md'']" by (simp add: lexical_parts_def pure_path_def sample_strings)
  have shown: "rel_str [''.trash'', ''a.md''] = ''.trash/a.md''" by code_simp
  have attempts: "unique_trash_path trash_attempts t x = bind_io (exists_io x) (\<lambda>there. if \<not> there then return_io (Some x)
      else bind_io random_io (\<lambda>hex. unique_trash_path 9 t (with_stem t (path_stem t @ ''_'' @ take 8 hex))))" for t x
  proof -
    have "trash_attempts = Suc 9" by (simp add: trash_attempts_def)
    show ?thesis unfolding \<open>trash_attempts = Suc 9\<close> by (rule unique_trash_path.simps(2))
  qed
  show ?thesis
    by (simp add: delete_note_def ext ign sample_run parts delete_locked_def delete_finish_def sample_resolved attempts shown
        mkdir_single_io_def move_or_error_def move_io_def real_destination_def is_dir_io_def rename_io_def move_event_def isinstance_def)
qed


end
