(* ===== verification/Catalog.thy ===== *)
theory Catalog
  imports "HOL-Library.Multiset" Note_Tools Crud_Validation Note_Parser Lru_Cache
begin

text \<open>
  The note catalogue (\<open>crud/catalog.py\<close>), a SQLite table of the indexable files of the vault, and
  the read operations over it (\<open>crud/read.py\<close>).  The table is the list of its rows in the order
  of their insertion; \<open>path\<close> is its key.  A connection may fail: the argument \<open>F\<close> says which of
  the connections do, and a failed one leaves the table as it was.
\<close>

section \<open>The table\<close>

record cat_row =
  ct_path :: string
  ct_folder :: string
  ct_extension :: string
  ct_title :: string
  ct_mtime :: int
  ct_size :: nat

record catalog =
  cat_rows :: "cat_row list"
  cat_calls :: nat
  cat_ready :: bool

type_synonym 'a cat = "catalog \<Rightarrow> 'a result \<times> catalog"
type_synonym db_faults = "nat \<Rightarrow> pyexn option"

text \<open>\<open>with self._connection() as conn\<close>: one transaction.\<close>

definition with_connection :: "db_faults \<Rightarrow> (cat_row list \<Rightarrow> 'a \<times> cat_row list) \<Rightarrow> 'a cat" where
  "with_connection F act s =
     (let s1 = s\<lparr>cat_calls := Suc (cat_calls s)\<rparr> in
      case F (cat_calls s) of
        Some e \<Rightarrow> (Inl e, s1)
      | None \<Rightarrow> (case act (cat_rows s) of (x, rows) \<Rightarrow> (Inr x, s1\<lparr>cat_rows := rows\<rparr>)))"

definition bind_cat :: "'a cat \<Rightarrow> ('a \<Rightarrow> 'b cat) \<Rightarrow> 'b cat" where
  "bind_cat m f s = (case m s of (Inl e, s1) \<Rightarrow> (Inl e, s1) | (Inr x, s1) \<Rightarrow> f x s1)"

definition return_cat :: "'a \<Rightarrow> 'a cat" where
  "return_cat x s = (Inr x, s)"

text \<open>\<open>INSERT OR REPLACE\<close> and \<open>DELETE ... WHERE path = ?\<close>.\<close>

definition replace_row :: "cat_row \<Rightarrow> cat_row list \<Rightarrow> cat_row list" where
  "replace_row r rows = filter (\<lambda>q. ct_path q \<noteq> ct_path r) rows @ [r]"

definition delete_row :: "string \<Rightarrow> cat_row list \<Rightarrow> cat_row list" where
  "delete_row p rows = filter (\<lambda>q. ct_path q \<noteq> p) rows"

section \<open>The scan of the vault\<close>

text \<open>
  What the scan finds in a directory: its entries, or the exception \<open>os.scandir\<close> raises.  A
  regular file has the answer of its \<open>stat\<close>: modification time and size, or an \<open>OSError\<close>.
\<close>

datatype entry =
    Directory "(string \<times> entry) list"
  | Failing pyexn
  | Regular "(int \<times> nat) option"
  | Special

fun nodes :: "entry \<Rightarrow> nat" where
  "nodes (Directory es) = Suc (\<Sum>x\<leftarrow>es. nodes (snd x))"
| "nodes _ = 1"

definition is_subdir :: "entry \<Rightarrow> bool" where
  "is_subdir t = (case t of Directory _ \<Rightarrow> True | Failing _ \<Rightarrow> True | _ \<Rightarrow> False)"

text \<open>\<open>name[:name.rfind(".")]\<close> and the rest, when there is a dot.\<close>

definition split_last_dot :: "string \<Rightarrow> (string \<times> string) option" where
  "split_last_dot name =
     (let after = takeWhile (\<lambda>c. c \<noteq> CHR ''.'') (rev name) in
      if CHR ''.'' \<in> set name
      then Some (take (length name - length after - 1) name, drop (length name - length after - 1) name)
      else None)"

definition folder_str :: "path \<Rightarrow> string" where
  "folder_str dir = (if rel_str dir = ''.'' then [] else rel_str dir)"

text \<open>The row of a directory entry, when it is a regular file whose suffix is indexable.\<close>

definition suffix_of :: "string set \<Rightarrow> string \<times> entry \<Rightarrow> (string \<times> string \<times> int \<times> nat) option" where
  "suffix_of extensions e =
     (case e of (name, Regular (Some (mtime, sz))) \<Rightarrow>
        (case split_last_dot name of
           Some (stem, ext) \<Rightarrow> if py_lower ext \<in> extensions then Some (stem, py_lower ext, mtime, sz) else None
         | None \<Rightarrow> None)
      | _ \<Rightarrow> None)"

definition file_row :: "string set \<Rightarrow> path \<Rightarrow> string \<times> entry \<Rightarrow> cat_row list result" where
  "file_row extensions dir e = Inr
     (case suffix_of extensions e of None \<Rightarrow> [] | Some (stem, ext, mtime, sz) \<Rightarrow>
        [\<lparr>ct_path = rel_str (dir @ [fst e]), ct_folder = folder_str dir, ct_extension = ext,
          ct_title = stem, ct_mtime = mtime, ct_size = sz\<rparr>])"

text \<open>\<open>entry.name in IGNORED_FOLDERS or entry.name.startswith(".")\<close>.\<close>

definition hidden_entry :: "string set \<Rightarrow> string \<Rightarrow> bool" where
  "hidden_entry ignored name \<longleftrightarrow> name \<in> ignored \<or> starts_with name ''.''"

lemma nodes_sub: "sum_list (map (\<lambda>x. nodes (snd x)) (filter P es)) \<le> sum_list (map (\<lambda>x. nodes (snd x)) es)"
  by (induction es) auto

fun rows_in :: "(path \<Rightarrow> string \<times> entry \<Rightarrow> 'r list result) \<Rightarrow> path \<Rightarrow> (string \<times> entry) list \<Rightarrow> 'r list result" where
  "rows_in row dir [] = Inr []"
| "rows_in row dir (e # es) = bind_result (row dir e) (\<lambda>x. bind_result (rows_in row dir es) (\<lambda>y. Inr (x @ y)))"

text \<open>The loop over the stack of directories, whose top is the head of the list.\<close>

function scan_loop ::
  "(string \<Rightarrow> bool) \<Rightarrow> (path \<Rightarrow> string \<times> entry \<Rightarrow> 'r list result) \<Rightarrow> (path \<times> entry) list \<Rightarrow> 'r list \<Rightarrow> 'r list result" where
  "scan_loop hide row [] found = Inr found"
| "scan_loop hide row ((dir, Directory es) # stack) found =
     (let es' = filter (\<lambda>e. \<not> hide (fst e)) es in
      case rows_in row dir es' of
        Inl e \<Rightarrow> Inl e
      | Inr rows \<Rightarrow>
          scan_loop hide row (rev (map (\<lambda>e. (dir @ [fst e], snd e)) (filter (\<lambda>e. is_subdir (snd e)) es')) @ stack)
            (found @ rows))"
| "scan_loop hide row ((dir, Failing e) # stack) found =
     (if isinstance e C_PermissionError then scan_loop hide row stack found else Inl e)"
| "scan_loop hide row ((dir, Regular x) # stack) found = scan_loop hide row stack found"
| "scan_loop hide row ((dir, Special) # stack) found = scan_loop hide row stack found"
  by pat_completeness auto

termination
proof (relation "measure (\<lambda>(hide, row, stack, found). \<Sum>x\<leftarrow>stack. nodes (snd x))", goal_cases)
  case (2 hide row dir es stack found es' rows)
  have "(\<Sum>x\<leftarrow>rev (map (\<lambda>e. (dir @ [fst e], snd e)) (filter (\<lambda>e. is_subdir (snd e)) es')). nodes (snd x))
      = (\<Sum>x\<leftarrow>filter (\<lambda>e. is_subdir (snd e)) es'. nodes (snd x))"
    by (simp add: rev_map [symmetric] sum_list_rev comp_def)
  also have "\<dots> \<le> (\<Sum>x\<leftarrow>es. nodes (snd x))" unfolding 2(1) filter_filter by (rule nodes_sub)
  finally show ?case by simp
qed simp_all

definition scan_vault_rows :: "string set \<Rightarrow> string set \<Rightarrow> entry \<Rightarrow> cat_row list result" where
  "scan_vault_rows ignored extensions vault =
     scan_loop (hidden_entry ignored) (file_row extensions) [([], vault)] []"

section \<open>Operations of the catalogue\<close>

record cat_conf =
  cc_ignored :: "string set"
  cc_extensions :: "string set"
  cc_order :: "cat_row list \<Rightarrow> cat_row list"
  cc_stamp :: "int \<Rightarrow> string"

definition upsert_batch :: "db_faults \<Rightarrow> cat_row list \<Rightarrow> unit cat" where
  "upsert_batch F notes_data =
     (if notes_data = [] then return_cat ()
      else with_connection F (\<lambda>rows. ((), fold replace_row notes_data rows)))"

definition delete_path :: "db_faults \<Rightarrow> string \<Rightarrow> unit cat" where
  "delete_path F relative_path = with_connection F (\<lambda>rows. ((), delete_row relative_path rows))"

definition set_ready :: "unit cat" where
  "set_ready s = (Inr (), s\<lparr>cat_ready := True\<rparr>)"

definition initialize :: "db_faults \<Rightarrow> cat_conf \<Rightarrow> entry \<Rightarrow> bool \<Rightarrow> unit cat" where
  "initialize F C vault force_rebuild s =
     (if cat_ready s \<and> \<not> force_rebuild then (Inr (), s)
      else bind_cat (with_connection F (\<lambda>rows. ((), rows))) (\<lambda>_.
        bind_cat (\<lambda>s. (scan_vault_rows (cc_ignored C) (cc_extensions C) vault, s)) (\<lambda>notes_data.
        bind_cat (with_connection F (\<lambda>rows. ((), fold replace_row notes_data (if force_rebuild then [] else rows)))) (\<lambda>_.
        set_ready))) s)"

text \<open>\<open>upsert\<close>: \<open>there\<close> is \<open>exists()\<close>, \<open>stat\<close> the answer of \<open>stat()\<close>.\<close>

definition upsert :: "db_faults \<Rightarrow> cat_conf \<Rightarrow> bool \<Rightarrow> (int \<times> nat) option \<Rightarrow> string \<Rightarrow> unit cat" where
  "upsert F C there stat relative_path =
     (let p = path_components relative_path in
      if \<not> there then delete_path F relative_path
      else case stat of
        None \<Rightarrow> return_cat ()
      | Some (mtime, sz) \<Rightarrow>
          if py_lower (path_suffix p) \<notin> cc_extensions C then return_cat ()
          else with_connection F (\<lambda>rows. ((), replace_row
            \<lparr>ct_path = relative_path, ct_folder = folder_str (path_parent p), ct_extension = py_lower (path_suffix p),
             ct_title = path_stem p, ct_mtime = mtime, ct_size = sz\<rparr> rows)))"

text \<open>\<open>_reconcile\<close>: the differences between the scan and the table.\<close>

definition stamps :: "cat_row list \<Rightarrow> (string, int \<times> nat) dict" where
  "stamps rows = fold (\<lambda>r. dset (ct_path r) (ct_mtime r, ct_size r)) rows []"

definition rows_by_path :: "cat_row list \<Rightarrow> (string, cat_row) dict" where
  "rows_by_path rows = fold (\<lambda>r. dset (ct_path r) r) rows []"

definition to_upsert :: "(string, int \<times> nat) dict \<Rightarrow> cat_row list \<Rightarrow> cat_row list" where
  "to_upsert catalog_files scan_data =
     (let by_path = rows_by_path scan_data in
      map (\<lambda>p. the (dget by_path (fst p))) (filter (\<lambda>p. dget catalog_files (fst p) \<noteq> Some (snd p)) (stamps scan_data)))"

definition to_delete :: "(string, int \<times> nat) dict \<Rightarrow> cat_row list \<Rightarrow> string list" where
  "to_delete catalog_files scan_data = filter (\<lambda>p. \<not> dhas (stamps scan_data) p) (dkeys catalog_files)"

fun delete_all :: "db_faults \<Rightarrow> string list \<Rightarrow> unit cat" where
  "delete_all F [] = return_cat ()"
| "delete_all F (p # ps) = bind_cat (delete_path F p) (\<lambda>_. delete_all F ps)"

definition reconcile :: "db_faults \<Rightarrow> cat_conf \<Rightarrow> entry \<Rightarrow> unit cat" where
  "reconcile F C vault =
     bind_cat (\<lambda>s. (scan_vault_rows (cc_ignored C) (cc_extensions C) vault, s)) (\<lambda>scan_data.
     bind_cat (with_connection F (\<lambda>rows. (stamps rows, rows))) (\<lambda>catalog_files.
     bind_cat (upsert_batch F (to_upsert catalog_files scan_data)) (\<lambda>_.
     delete_all F (to_delete catalog_files scan_data))))"

text \<open>One round of \<open>_reconcile_loop\<close>: an exception is logged and forgotten.\<close>

definition reconcile_round :: "db_faults \<Rightarrow> cat_conf \<Rightarrow> entry \<Rightarrow> catalog \<Rightarrow> catalog" where
  "reconcile_round F C vault s = snd (reconcile F C vault s)"

section \<open>Queries\<close>

record list_item =
  li_path :: string
  li_title :: string
  li_folder :: string
  li_extension :: string
  li_modified_at :: string
  li_size :: nat

definition row_to_note :: "cat_conf \<Rightarrow> cat_row \<Rightarrow> list_item" where
  "row_to_note C r = \<lparr>li_path = ct_path r, li_title = ct_title r, li_folder = ct_folder r,
     li_extension = ct_extension r, li_modified_at = cc_stamp C (ct_mtime r), li_size = ct_size r\<rparr>"

definition dotted_extension :: "string \<Rightarrow> string" where
  "dotted_extension extension =
     (let ext = py_lower extension in if starts_with ext ''.'' then ext else CHR ''.'' # ext)"

definition nonempty :: "string option \<Rightarrow> string option" where
  "nonempty x = (case x of Some s \<Rightarrow> if s = [] then None else Some s | None \<Rightarrow> None)"

definition row_matches :: "string option \<Rightarrow> string option \<Rightarrow> cat_row \<Rightarrow> bool" where
  "row_matches folder extension r \<longleftrightarrow>
     (case nonempty folder of None \<Rightarrow> True | Some f \<Rightarrow> catalog_in_folder f (ct_folder r)) \<and>
     (case nonempty extension of None \<Rightarrow> True | Some x \<Rightarrow> ct_extension r = dotted_extension x)"

text \<open>\<open>LIMIT ? OFFSET ?\<close>: a negative limit is none, a negative offset is 0.\<close>

definition limit_offset :: "int \<Rightarrow> int \<Rightarrow> 'a list \<Rightarrow> 'a list" where
  "limit_offset limit offset xs =
     (let ys = drop (nat offset) xs in if limit < 0 then ys else take (nat limit) ys)"

definition list_rows ::
  "db_faults \<Rightarrow> cat_conf \<Rightarrow> string option \<Rightarrow> string option \<Rightarrow> int \<Rightarrow> int \<Rightarrow> (list_item list \<times> nat) cat" where
  "list_rows F C folder extension limit offset =
     with_connection F (\<lambda>rows.
       (let matching = filter (row_matches folder extension) rows in
        ((map (row_to_note C) (limit_offset limit offset (cc_order C matching)), length matching), rows)))"

definition get_all_folders :: "db_faults \<Rightarrow> string list cat" where
  "get_all_folders F = with_connection F (\<lambda>rows.
     (sort_key text_key (remdups (filter (\<lambda>f. f \<noteq> []) (map ct_folder rows))), rows))"

definition get_recent_rows :: "db_faults \<Rightarrow> cat_conf \<Rightarrow> int \<Rightarrow> int \<Rightarrow> int \<Rightarrow> list_item list cat" where
  "get_recent_rows F C now_ns days limit =
     (let safe_days = max 1 (min days 3650); safe_limit = max 1 (min limit 5000);
          cutoff_ns = now_ns - safe_days * 86400 * 1000000000 in
      with_connection F (\<lambda>rows.
        (map (row_to_note C) (limit_offset safe_limit 0 (cc_order C (filter (\<lambda>r. cutoff_ns \<le> ct_mtime r) rows))), rows)))"

definition catalog_stats :: "db_faults \<Rightarrow> (nat \<times> (string, nat) dict) cat" where
  "catalog_stats F = with_connection F (\<lambda>rows.
     ((length rows, fold count_key (map ct_extension rows) []), rows))"

definition is_available :: "db_faults \<Rightarrow> catalog \<Rightarrow> bool" where
  "is_available F s = (cat_ready s \<and> (case with_connection F (\<lambda>rows. ((), rows)) s of (Inr _, _) \<Rightarrow> True | _ \<Rightarrow> False))"

section \<open>The reconciliation thread\<close>

text \<open>\<open>alive\<close> is \<open>thread.is_alive()\<close>, after \<open>join\<close> in the second function.\<close>

record reconciler =
  rc_thread :: "nat option"
  rc_stop :: bool

definition start_reconciliation :: "bool \<Rightarrow> nat \<Rightarrow> reconciler \<Rightarrow> bool \<times> reconciler" where
  "start_reconciliation alive thread s =
     (if rc_thread s \<noteq> None \<and> alive then (False, s)
      else (True, \<lparr>rc_thread = Some thread, rc_stop = False\<rparr>))"

definition stop_reconciliation :: "bool \<Rightarrow> reconciler \<Rightarrow> bool \<times> reconciler" where
  "stop_reconciliation alive s =
     (let s = s\<lparr>rc_stop := True\<rparr> in
      if rc_thread s = None then (True, s)
      else if alive then (False, s)
      else (True, s\<lparr>rc_thread := None\<rparr>))"

fun reconcile_loop :: "db_faults \<Rightarrow> cat_conf \<Rightarrow> (bool \<times> entry \<times> bool) list \<Rightarrow> catalog \<Rightarrow> catalog" where
  "reconcile_loop F C [] s = s"
| "reconcile_loop F C ((stop_before, vault, stop_after) # wakes) s =
     (if stop_before \<or> stop_after then s
      else reconcile_loop F C wakes (reconcile_round F C vault s))"

section \<open>Reading one note\<close>

record read_conf =
  rd_stamp :: "nat \<Rightarrow> string"
  rd_broken :: "path \<Rightarrow> frontmatter"

record note_metadata =
  nm_path :: string
  nm_frontmatter :: frontmatter
  nm_tags :: "string list"
  nm_title :: string
  nm_folder :: string
  nm_modified_at :: string
  nm_size :: nat

record note_content = note_metadata +
  nc_content :: string
  nc_body :: string

definition get_folder :: "conf \<Rightarrow> path \<Rightarrow> string io" where
  "get_folder C file_path =
     bind_io (resolve_io (c_vault C)) (\<lambda>vault_root.
     bind_io (resolve_io (path_parent file_path)) (\<lambda>parent.
     bind_io (lift_io (relative_to parent vault_root)) (\<lambda>rel. return_io (folder_str rel))))"

definition title_field :: "pylib \<Rightarrow> frontmatter \<Rightarrow> string \<Rightarrow> string result" where
  "title_field L frontmatter stem =
     (case dget frontmatter (PStr ''title'') of
        None \<Rightarrow> Inr stem
      | Some (PStr s) \<Rightarrow> Inr s
      | Some v \<Rightarrow> if truthy v then py_str L v else Inr stem)"

definition existing_note :: "conf \<Rightarrow> string \<Rightarrow> path io" where
  "existing_note C rel =
     bind_io (lift_io (validate_readable_text rel)) (\<lambda>_.
     bind_io (resolve_path C rel) (\<lambda>file_path.
     bind_io (exists_io file_path) (\<lambda>there.
     if there then return_io file_path else raise_io FileNotFoundError)))"

definition read_note :: "conf \<Rightarrow> read_conf \<Rightarrow> string \<Rightarrow> note_content io" where
  "read_note C R rel =
     bind_io (existing_note C rel) (\<lambda>file_path.
     bind_io (read_text_io file_path) (\<lambda>content.
     let (frontmatter, body) = parse_frontmatter (c_yaml_load C) content in
     bind_io (lift_io (extract_tags (c_lib C) frontmatter)) (\<lambda>tags.
     bind_io (stat_io file_path) (\<lambda>stat.
     bind_io (lift_io (title_field (c_lib C) frontmatter (path_stem file_path))) (\<lambda>title.
     bind_io (get_folder C file_path) (\<lambda>folder.
     return_io \<lparr>nm_path = rel, nm_frontmatter = frontmatter, nm_tags = tags, nm_title = title, nm_folder = folder,
       nm_modified_at = rd_stamp R (rv_mtime stat), nm_size = rv_size stat, nc_content = content, nc_body = body\<rparr>))))))"

text \<open>
  \<open>read_frontmatter_only\<close> on a file: when the reading fails, the front matter found before the
  failure, which is empty unless both delimiters had been read.
\<close>

definition frontmatter_io :: "conf \<Rightarrow> read_conf \<Rightarrow> path \<Rightarrow> frontmatter io" where
  "frontmatter_io C R file_path = catch_io
     (bind_io (read_text_io file_path) (\<lambda>content. return_io (fst (read_frontmatter_only (c_yaml_load C) content))))
     (\<lambda>e. if isinstance e C_OSError \<or> isinstance e C_UnicodeDecodeError
          then Some (return_io (rd_broken R file_path)) else None)"

definition get_note_metadata ::
  "conf \<Rightarrow> read_conf \<Rightarrow> (cache_key, note_metadata) lru \<Rightarrow> string \<Rightarrow> (note_metadata \<times> (cache_key, note_metadata) lru) io" where
  "get_note_metadata C R cache rel =
     bind_io (existing_note C rel) (\<lambda>file_path.
     bind_io (stat_io file_path) (\<lambda>stat.
     let cache_key = key_of_stat (path_str file_path) (rv_mtime stat) (rv_size stat); (cached, cache) = cache_get cache_key cache in
     case cached of
       Some m \<Rightarrow> return_io (m, cache)
     | None \<Rightarrow>
         bind_io (frontmatter_io C R file_path) (\<lambda>frontmatter.
         bind_io (lift_io (extract_tags (c_lib C) frontmatter)) (\<lambda>tags.
         bind_io (lift_io (title_field (c_lib C) frontmatter (path_stem file_path))) (\<lambda>title.
         bind_io (get_folder C file_path) (\<lambda>folder.
         let metadata = \<lparr>nm_path = rel, nm_frontmatter = frontmatter, nm_tags = tags, nm_title = title,
           nm_folder = folder, nm_modified_at = rd_stamp R (rv_mtime stat), nm_size = rv_size stat\<rparr> in
         bind_io (lift_io (cache_set cache_key metadata cache)) (\<lambda>cache. return_io (metadata, cache))))))))"

section \<open>Listing notes\<close>

record listing =
  ls_notes :: "list_item list"
  ls_total :: nat
  ls_limit :: int
  ls_offset :: int
  ls_has_more :: bool

text \<open>
  What a listing needs besides the catalogue: the configured limits and folders, the checks of
  the folder, and for the fallback the vault path with its resolution, the start of the scan
  (\<open>None\<close> for a folder that does not exist) and what the scan finds there.
\<close>

record list_conf =
  lc_default :: int
  lc_max :: int
  lc_ignored :: "string list"
  lc_indexable :: "string list"
  lc_valid_folder :: "string \<Rightarrow> bool"
  lc_vault :: path
  lc_real :: "path \<Rightarrow> path"
  lc_start :: "string \<Rightarrow> path option result"
  lc_entry :: "path \<Rightarrow> entry"
  lc_stamp :: "int \<Rightarrow> string"

definition item_row :: "list_conf \<Rightarrow> string option \<Rightarrow> path \<Rightarrow> string \<times> entry \<Rightarrow> list_item list result" where
  "item_row L extension dir e =
     (case suffix_of (set (lc_indexable L)) e of
        None \<Rightarrow> Inr []
      | Some (stem, ext, mtime, sz) \<Rightarrow>
          if (case extension of None \<Rightarrow> False | Some x \<Rightarrow> ext \<noteq> x) then Inr []
          else bind_result (relative_to (dir @ [fst e]) (lc_vault L)) (\<lambda>rel.
            bind_result (relative_to (lc_real L dir) (lc_real L (lc_vault L))) (\<lambda>folder.
            Inr [\<lparr>li_path = rel_str rel, li_title = stem, li_folder = folder_str folder, li_extension = ext,
                  li_modified_at = lc_stamp L mtime, li_size = sz\<rparr>])))"

definition scandir_recursive :: "list_conf \<Rightarrow> path \<Rightarrow> string option \<Rightarrow> list_item list result" where
  "scandir_recursive L start extension =
     scan_loop (\<lambda>name. name \<in> set (lc_ignored L)) (item_row L extension) [(start, lc_entry L start)] []"

definition checked_folder :: "list_conf \<Rightarrow> string option \<Rightarrow> unit result" where
  "checked_folder L folder =
     (case nonempty folder of
        None \<Rightarrow> Inr ()
      | Some f \<Rightarrow>
          if \<not> lc_valid_folder L f then Inl (ValueError (''Folder is invalid or outside the vault: '' @ f))
          else if \<exists>d \<in> set (lc_ignored L). d \<in> set (lexical_parts f) then Inl (ValueError (''Folder is ignored: '' @ f))
          else Inr ())"

definition checked_extension :: "list_conf \<Rightarrow> string option \<Rightarrow> string option result" where
  "checked_extension L extension =
     (case nonempty extension of
        None \<Rightarrow> Inr extension
      | Some x \<Rightarrow>
          if dotted_extension x \<notin> set (lc_indexable L)
          then Inl (ValueError (''Extension '' @ quoted (dotted_extension x) @ '' is not supported. Use: ''
            @ py_join '', '' (sort_key text_key (lc_indexable L))))
          else Inr (Some (dotted_extension x)))"

definition page_of :: "int \<Rightarrow> int \<Rightarrow> nat \<Rightarrow> list_item list \<Rightarrow> listing" where
  "page_of limit offset n notes = \<lparr>ls_notes = notes, ls_total = n, ls_limit = limit, ls_offset = offset,
     ls_has_more = (offset + limit < int n)\<rparr>"

definition list_fallback :: "list_conf \<Rightarrow> string option \<Rightarrow> string option \<Rightarrow> int \<Rightarrow> int \<Rightarrow> listing result" where
  "list_fallback L folder extension limit offset =
     bind_result (case nonempty folder of None \<Rightarrow> Inr (Some (lc_vault L)) | Some f \<Rightarrow> lc_start L f) (\<lambda>start.
     case start of
       None \<Rightarrow> Inr \<lparr>ls_notes = [], ls_total = 0, ls_limit = limit, ls_offset = offset, ls_has_more = False\<rparr>
     | Some p \<Rightarrow> bind_result (scandir_recursive L p (nonempty extension)) (\<lambda>notes.
         let notes = sort_reverse (\<lambda>n. text_key (li_modified_at n)) notes in
         Inr (page_of limit offset (length notes) (take (nat limit) (drop (nat offset) notes)))))"

definition list_notes ::
  "db_faults \<Rightarrow> cat_conf \<Rightarrow> list_conf \<Rightarrow> string option \<Rightarrow> string option \<Rightarrow> int option \<Rightarrow> int \<Rightarrow> listing cat" where
  "list_notes F C L folder extension limit offset s =
     (let limit = clamp 1 (lc_max L) (case limit of None \<Rightarrow> lc_default L | Some n \<Rightarrow> n); offset = max 0 offset in
      case checked_folder L folder of Inl e \<Rightarrow> (Inl e, s) | Inr _ \<Rightarrow>
      (case checked_extension L extension of Inl e \<Rightarrow> (Inl e, s) | Inr extension \<Rightarrow>
      (case list_rows F C folder extension limit offset s of
         (Inr (notes, n), s) \<Rightarrow> (Inr (page_of limit offset n notes), s)
       | (Inl _, s) \<Rightarrow> (list_fallback L folder extension limit offset, s))))"


section \<open>The scan finds every file once\<close>

text \<open>What a complete walk finds in an entry, by recursion over the tree.\<close>

fun walk :: "(string \<Rightarrow> bool) \<Rightarrow> (path \<Rightarrow> string \<times> entry \<Rightarrow> 'r list) \<Rightarrow> path \<Rightarrow> entry \<Rightarrow> 'r list" where
  "walk hide row dir (Directory es) = concat (map (\<lambda>e. if hide (fst e) then []
     else row dir e @ walk hide row (dir @ [fst e]) (snd e)) es)"
| "walk hide row dir (Failing e) = []"
| "walk hide row dir (Regular x) = []"
| "walk hide row dir Special = []"

lemma rows_in_Inr: "(\<And>e. row dir e = Inr (f dir e)) \<Longrightarrow> rows_in row dir es = Inr (concat (map (f dir) es))"
  by (induction es) simp_all

lemma walk_leaf: "\<not> is_subdir t \<Longrightarrow> walk hide row dir t = []"
  by (cases t) (simp_all add: is_subdir_def)

lemma walk_directory:
  "mset (walk hide row dir (Directory es)) =
     mset (concat (map (row dir) (filter (\<lambda>e. \<not> hide (fst e)) es))) +
     sum_list (map (\<lambda>e. mset (walk hide row (dir @ [fst e]) (snd e)))
       (filter (\<lambda>e. is_subdir (snd e)) (filter (\<lambda>e. \<not> hide (fst e)) es)))"
  by (induction es) (simp_all add: walk_leaf ac_simps)

lemma sum_list_rev_mset: "sum_list (rev xs) = (sum_list xs :: 'a multiset)"
  by (induction xs) (simp_all add: add.commute)

lemma scan_loop_walk:
  fixes f :: "path \<Rightarrow> string \<times> entry \<Rightarrow> 'r list"
  shows "(\<And>dir e. row dir e = Inr (f dir e)) \<Longrightarrow> scan_loop hide row stack found = Inr rows \<Longrightarrow>
    mset rows = mset found + sum_list (map (\<lambda>x. mset (walk hide f (fst x) (snd x))) stack)"
proof (induction hide row stack found rule: scan_loop.induct)
  case (2 hide row dir es stack found)
  let ?es = "filter (\<lambda>e. \<not> hide (fst e)) es"
  let ?subs = "filter (\<lambda>e. is_subdir (snd e)) ?es"
  have rows: "rows_in row dir ?es = Inr (concat (map (f dir) ?es))" using 2(2) by (rule rows_in_Inr)
  have "mset rows = mset (found @ concat (map (f dir) ?es)) +
      sum_list (map (\<lambda>x. mset (walk hide f (fst x) (snd x))) (rev (map (\<lambda>e. (dir @ [fst e], snd e)) ?subs) @ stack))"
    using 2(1) [OF refl rows 2(2)] 2(3) rows by simp
  then show ?case
    by (simp add: walk_directory rev_map [symmetric] sum_list_rev_mset comp_def ac_simps del: walk.simps(1))
qed (simp_all split: if_splits)

text \<open>The scan fails exactly when some directory it reaches cannot be read for another reason than missing permission.\<close>

fun readable :: "(string \<Rightarrow> bool) \<Rightarrow> entry \<Rightarrow> bool" where
  "readable hide (Directory es) = (\<forall>e \<in> set es. \<not> hide (fst e) \<longrightarrow> readable hide (snd e))"
| "readable hide (Failing e) = isinstance e C_PermissionError"
| "readable hide _ = True"

lemma readable_leaf: "\<not> is_subdir t \<Longrightarrow> readable hide t"
  by (cases t) (simp_all add: is_subdir_def)

lemma scan_loop_total:
  fixes f :: "path \<Rightarrow> string \<times> entry \<Rightarrow> 'r list"
  shows "(\<And>dir e. row dir e = Inr (f dir e)) \<Longrightarrow>
    (\<exists>rows. scan_loop hide row stack found = Inr rows) \<longleftrightarrow> (\<forall>x \<in> set stack. readable hide (snd x))"
proof (induction hide row stack found rule: scan_loop.induct)
  case (2 hide row dir es stack found)
  let ?es = "filter (\<lambda>e. \<not> hide (fst e)) es"
  have rows: "rows_in row dir ?es = Inr (concat (map (f dir) ?es))" using 2(2) by (rule rows_in_Inr)
  have step: "(\<exists>rows. scan_loop hide row ((dir, Directory es) # stack) found = Inr rows) \<longleftrightarrow>
      (\<forall>x \<in> set (rev (map (\<lambda>e. (dir @ [fst e], snd e)) (filter (\<lambda>e. is_subdir (snd e)) ?es)) @ stack). readable hide (snd x))"
    using 2(1) [OF refl rows 2(2)] rows by simp
  have "(\<forall>x \<in> set (rev (map (\<lambda>e. (dir @ [fst e], snd e)) (filter (\<lambda>e. is_subdir (snd e)) ?es))). readable hide (snd x)) \<longleftrightarrow>
      (\<forall>e \<in> set es. \<not> hide (fst e) \<longrightarrow> is_subdir (snd e) \<longrightarrow> readable hide (snd e))" by auto
  also have "\<dots> \<longleftrightarrow> readable hide (Directory es)" using readable_leaf by auto
  finally show ?case unfolding step set_append ball_Un by simp
qed (simp_all add: ex_disj_distrib)

text \<open>The rows the scan should find, as a list over the tree.\<close>

definition row_list :: "string set \<Rightarrow> path \<Rightarrow> string \<times> entry \<Rightarrow> cat_row list" where
  "row_list extensions dir e =
     (case suffix_of extensions e of None \<Rightarrow> [] | Some (stem, ext, mtime, sz) \<Rightarrow>
        [\<lparr>ct_path = rel_str (dir @ [fst e]), ct_folder = folder_str dir, ct_extension = ext,
          ct_title = stem, ct_mtime = mtime, ct_size = sz\<rparr>])"

lemma file_row_list: "file_row x dir e = Inr (row_list x dir e)"
  by (simp add: file_row_def row_list_def)

lemma scan_vault_rows_walk:
  "scan_vault_rows ignored extensions vault = Inr rows \<Longrightarrow>
   mset rows = mset (walk (hidden_entry ignored) (row_list extensions) [] vault)"
  using scan_loop_walk [OF file_row_list] by (fastforce simp: scan_vault_rows_def)

section \<open>The table as a map\<close>

definition row_at :: "cat_row list \<Rightarrow> string \<Rightarrow> cat_row option" where
  "row_at rows p = List.find (\<lambda>r. ct_path r = p) rows"

definition keyed :: "cat_row list \<Rightarrow> bool" where
  "keyed rows \<longleftrightarrow> distinct (map ct_path rows)"

lemma row_at_simps [simp]:
  "row_at [] p = None" "row_at (r # rows) p = (if ct_path r = p then Some r else row_at rows p)"
  by (simp_all add: row_at_def)

lemma row_at_append: "row_at (xs @ ys) p = (case row_at xs p of Some r \<Rightarrow> Some r | None \<Rightarrow> row_at ys p)"
  by (induction xs) simp_all

lemma row_at_path: "row_at rows p = Some r \<Longrightarrow> r \<in> set rows \<and> ct_path r = p"
  by (induction rows) (auto split: if_splits)

lemma row_at_None: "row_at rows p = None \<longleftrightarrow> p \<notin> ct_path ` set rows"
  by (induction rows) auto

lemma row_at_keyed: "keyed rows \<Longrightarrow> r \<in> set rows \<Longrightarrow> row_at rows (ct_path r) = Some r"
  by (induction rows) (auto simp: keyed_def)

lemma row_at_filter: "row_at (filter (\<lambda>r. ct_path r \<noteq> q) rows) p = (if p = q then None else row_at rows p)"
  by (induction rows) auto

lemma row_at_replace: "row_at (replace_row r rows) p = (if p = ct_path r then Some r else row_at rows p)"
  by (simp add: replace_row_def row_at_append row_at_filter split: option.split)

lemma row_at_delete: "row_at (delete_row q rows) p = (if p = q then None else row_at rows p)"
  by (simp add: delete_row_def row_at_filter)

lemma keyed_filter: "keyed rows \<Longrightarrow> keyed (filter P rows)"
  by (induction rows) (auto simp: keyed_def)

lemma keyed_replace: "keyed rows \<Longrightarrow> keyed (replace_row r rows)"
  using keyed_filter [of rows "\<lambda>q. ct_path q \<noteq> ct_path r"] by (auto simp: replace_row_def keyed_def)

lemma keyed_delete: "keyed rows \<Longrightarrow> keyed (delete_row p rows)"
  by (simp add: delete_row_def keyed_filter)

lemma row_at_batch:
  "keyed ds \<Longrightarrow> row_at (fold replace_row ds rows) p = (case row_at ds p of Some r \<Rightarrow> Some r | None \<Rightarrow> row_at rows p)"
proof (induction ds arbitrary: rows)
  case (Cons d ds)
  have "keyed ds" "ct_path d \<notin> ct_path ` set ds" using Cons.prems by (simp_all add: keyed_def)
  then show ?case using Cons.IH [of "replace_row d rows"] row_at_None [of ds "ct_path d"]
    by (auto simp: row_at_replace split: option.split)
qed simp

lemma keyed_batch: "keyed rows \<Longrightarrow> keyed (fold replace_row ds rows)"
  by (induction ds arbitrary: rows) (simp_all add: keyed_replace)


section \<open>Reconciliation\<close>

abbreviation stamp :: "cat_row \<Rightarrow> int \<times> nat" where
  "stamp r \<equiv> (ct_mtime r, ct_size r)"

definition stamp_at :: "cat_row list \<Rightarrow> string \<Rightarrow> (int \<times> nat) option" where
  "stamp_at rows p = map_option stamp (row_at rows p)"

lemma fold_dset_keyed:
  "keyed rows \<Longrightarrow> (\<forall>r \<in> set rows. \<not> dhas d (ct_path r)) \<Longrightarrow>
   fold (\<lambda>r. dset (ct_path r) (g r)) rows d = d @ map (\<lambda>r. (ct_path r, g r)) rows"
proof (induction rows arbitrary: d)
  case (Cons r rows)
  have k: "keyed rows" "ct_path r \<notin> ct_path ` set rows" using Cons.prems(1) by (simp_all add: keyed_def)
  have new: "dset (ct_path r) (g r) d = d @ [(ct_path r, g r)]" using Cons.prems(2) by (simp add: dset_new)
  have "\<forall>q \<in> set rows. \<not> dhas (d @ [(ct_path r, g r)]) (ct_path q)"
    using Cons.prems(2) k(2) by (auto simp: dhas_iff image_iff)
  then show ?case using Cons.IH [OF k(1)] new by simp
qed simp

lemma stamps_keyed: "keyed rows \<Longrightarrow> stamps rows = map (\<lambda>r. (ct_path r, stamp r)) rows"
  using fold_dset_keyed [of rows "[]" stamp] by (simp add: stamps_def dhas_iff)

lemma rows_by_path_keyed: "keyed rows \<Longrightarrow> rows_by_path rows = map (\<lambda>r. (ct_path r, r)) rows"
  using fold_dset_keyed [of rows "[]" "\<lambda>r. r"] by (simp add: rows_by_path_def dhas_iff)

lemma dget_keyed: "dget (map (\<lambda>r. (ct_path r, g r)) rows) p = map_option g (row_at rows p)"
  by (induction rows) simp_all

lemma to_upsert_eq:
  assumes "keyed scanned"
  shows "to_upsert d scanned = filter (\<lambda>r. dget d (ct_path r) \<noteq> Some (stamp r)) scanned"
proof -
  have "map (\<lambda>p. the (dget (map (\<lambda>r. (ct_path r, r)) scanned) (fst p)))
      (filter (\<lambda>p. dget d (fst p) \<noteq> Some (snd p)) (map (\<lambda>r. (ct_path r, stamp r)) xs)) =
      filter (\<lambda>r. dget d (ct_path r) \<noteq> Some (stamp r)) xs" if "set xs \<subseteq> set scanned" for xs
    using that by (induction xs) (simp_all add: dget_keyed row_at_keyed [OF assms])
  then show ?thesis using assms by (simp add: to_upsert_def stamps_keyed rows_by_path_keyed)
qed

lemma row_at_subset: "keyed rows \<Longrightarrow> row_at (filter P rows) p = (case row_at rows p of Some r \<Rightarrow> if P r then Some r else None | None \<Rightarrow> None)"
proof (induction rows)
  case (Cons r rows)
  have k: "keyed rows" "ct_path r \<notin> ct_path ` set rows" using Cons.prems by (simp_all add: keyed_def)
  show ?case
  proof (cases "ct_path r = p")
    case True
    then have "row_at rows p = None" using k(2) row_at_None by metis
    then show ?thesis using Cons.IH [OF k(1)] True by simp
  qed (use Cons.IH [OF k(1)] in simp)
qed simp

text \<open>The table after the batch of new and changed rows.\<close>

lemma stamp_after_batch:
  assumes "keyed scanned"
  shows "stamp_at (fold replace_row (to_upsert (stamps rows) scanned) rows') p =
    (case row_at scanned p of
       Some r \<Rightarrow> if dget (stamps rows) p = Some (stamp r) then stamp_at rows' p else Some (stamp r)
     | None \<Rightarrow> stamp_at rows' p)"
proof -
  have k: "keyed (to_upsert (stamps rows) scanned)" unfolding to_upsert_eq [OF assms] by (rule keyed_filter [OF assms])
  show ?thesis
    unfolding stamp_at_def row_at_batch [OF k] unfolding to_upsert_eq [OF assms] row_at_subset [OF assms]
    using row_at_path [of scanned p] by (auto split: option.split)
qed

lemma delete_all_rows:
  "case delete_all F ps s of
     (Inr _, s') \<Rightarrow> (\<forall>p. row_at (cat_rows s') p = (if p \<in> set ps then None else row_at (cat_rows s) p))
   | (Inl _, s') \<Rightarrow> (\<forall>p. row_at (cat_rows s') p = row_at (cat_rows s) p \<or> p \<in> set ps \<and> row_at (cat_rows s') p = None)"
proof (induction ps arbitrary: s)
  case Nil
  then show ?case by (simp add: return_cat_def)
next
  case (Cons p ps)
  show ?case
  proof (cases "F (cat_calls s)")
    case (Some e)
    then show ?thesis by (simp add: bind_cat_def delete_path_def with_connection_def Let_def)
  next
    case None
    let ?s = "s\<lparr>cat_calls := Suc (cat_calls s), cat_rows := delete_row p (cat_rows s)\<rparr>"
    have eq: "delete_all F (p # ps) s = delete_all F ps ?s"
      using None by (simp add: bind_cat_def delete_path_def with_connection_def Let_def)
    show ?thesis unfolding eq using Cons.IH [of ?s]
      by (auto simp: row_at_delete split: prod.splits sum.splits if_splits)
  qed
qed

lemma delete_all_keyed: "keyed (cat_rows s) \<Longrightarrow> keyed (cat_rows (snd (delete_all F ps s)))"
proof (induction ps arbitrary: s)
  case Nil
  then show ?case by (simp add: return_cat_def)
next
  case (Cons p ps)
  show ?case
  proof (cases "F (cat_calls s)")
    case (Some e)
    then show ?thesis using Cons.prems by (simp add: bind_cat_def delete_path_def with_connection_def Let_def)
  next
    case None
    then show ?thesis using Cons.IH [of "s\<lparr>cat_calls := Suc (cat_calls s), cat_rows := delete_row p (cat_rows s)\<rparr>"] Cons.prems
      by (simp add: bind_cat_def delete_path_def with_connection_def Let_def keyed_delete)
  qed
qed


lemma reconcile_rows:
  assumes scan: "scan_vault_rows (cc_ignored C) (cc_extensions C) vault = Inr scanned"
    and k: "keyed (cat_rows s)" "keyed scanned" and run: "reconcile F C vault s = (r, s')"
  shows "keyed (cat_rows s') \<and>
    (\<forall>p. stamp_at (cat_rows s') p \<in> (if r = Inr () then {stamp_at scanned p} else {stamp_at (cat_rows s) p, stamp_at scanned p}))"
proof -
  let ?s1 = "s\<lparr>cat_calls := Suc (cat_calls s)\<rparr>"
  let ?d = "stamps (cat_rows s)"
  have rec: "reconcile F C vault s = bind_cat (with_connection F (\<lambda>rows. (stamps rows, rows))) (\<lambda>catalog_files.
      bind_cat (upsert_batch F (to_upsert catalog_files scanned)) (\<lambda>_. delete_all F (to_delete catalog_files scanned))) s"
    by (simp add: reconcile_def bind_cat_def scan)
  show ?thesis
  proof (cases "F (cat_calls s)")
    case (Some e)
    then have "r = Inl e" "s' = ?s1" using run unfolding rec by (simp_all add: bind_cat_def with_connection_def Let_def)
    then show ?thesis using k by simp
  next
    case None
    then have run1: "bind_cat (upsert_batch F (to_upsert ?d scanned)) (\<lambda>_. delete_all F (to_delete ?d scanned)) ?s1 = (r, s')"
      using run unfolding rec by (simp add: bind_cat_def with_connection_def Let_def)
    obtain r2 s2 where 2: "upsert_batch F (to_upsert ?d scanned) ?s1 = (r2, s2)" by (cases "upsert_batch F (to_upsert ?d scanned) ?s1")
    show ?thesis
    proof (cases r2)
      case (Inl e)
      then have "cat_rows s2 = cat_rows s"
        using 2 by (auto simp: upsert_batch_def return_cat_def with_connection_def Let_def split: if_splits option.splits)
      moreover have "r = Inl e" "s' = s2" using run1 2 Inl by (simp_all add: bind_cat_def)
      ultimately show ?thesis using k by simp
    next
      case (Inr u)
      have rows2: "cat_rows s2 = fold replace_row (to_upsert ?d scanned) (cat_rows s)"
        using 2 Inr by (auto simp: upsert_batch_def return_cat_def with_connection_def Let_def split: if_splits option.splits)
      have k2: "keyed (cat_rows s2)" unfolding rows2 by (rule keyed_batch [OF k(1)])
      have run2: "delete_all F (to_delete ?d scanned) s2 = (r, s')" using run1 2 Inr by (simp add: bind_cat_def)
      have dget: "dget ?d p = stamp_at (cat_rows s) p" for p
        using k(1) by (simp add: stamps_keyed dget_keyed stamp_at_def)
      have at2: "stamp_at (cat_rows s2) p = (case row_at scanned p of Some q \<Rightarrow> Some (stamp q) | None \<Rightarrow> stamp_at (cat_rows s) p)" for p
        unfolding rows2 stamp_after_batch [OF k(2)] dget by (auto split: option.split)
      have del: "p \<in> set (to_delete ?d scanned) \<longleftrightarrow> stamp_at (cat_rows s) p \<noteq> None \<and> row_at scanned p = None" for p
      proof -
        have "p \<in> set (dkeys ?d) \<longleftrightarrow> row_at (cat_rows s) p \<noteq> None"
          using k(1) by (auto simp: stamps_keyed row_at_None image_image)
        moreover have "dhas (stamps scanned) p \<longleftrightarrow> row_at scanned p \<noteq> None"
          using k(2) by (auto simp: stamps_keyed row_at_None dhas_iff image_image)
        ultimately show ?thesis by (auto simp: to_delete_def stamp_at_def)
      qed
      have "keyed (cat_rows s')" using delete_all_keyed [OF k2, where F = F and ps = "to_delete ?d scanned"] run2 by simp
      moreover have "stamp_at (cat_rows s') p \<in> (if r = Inr () then {stamp_at scanned p} else {stamp_at (cat_rows s) p, stamp_at scanned p})" for p
      proof (cases "p \<in> set (to_delete ?d scanned)")
        case True
        then have gone: "stamp_at scanned p = None" "stamp_at (cat_rows s2) p = stamp_at (cat_rows s) p"
          using del [of p] at2 [of p] by (auto simp: stamp_at_def)
        note rows = delete_all_rows [where F = F and ps = "to_delete ?d scanned" and s = s2]
        show ?thesis
        proof (cases r)
          case (Inl e)
          then have "row_at (cat_rows s') p = row_at (cat_rows s2) p \<or> row_at (cat_rows s') p = None" using rows run2 by auto
          then have "stamp_at (cat_rows s') p = stamp_at (cat_rows s2) p \<or> stamp_at (cat_rows s') p = None"
            unfolding stamp_at_def by auto
          then show ?thesis using Inl gone by auto
        next
          case (Inr u)
          then have "row_at (cat_rows s') p = None" using rows run2 True by simp
          then show ?thesis using Inr gone by (simp add: stamp_at_def)
        qed
      next
        case False
        then have "row_at (cat_rows s') p = row_at (cat_rows s2) p"
          using delete_all_rows [where F = F and ps = "to_delete ?d scanned" and s = s2] run2 by (cases r) auto
        moreover have "stamp_at (cat_rows s2) p = stamp_at scanned p"
          using at2 [of p] del [of p] False by (auto simp: stamp_at_def split: option.splits)
        ultimately show ?thesis by (simp add: stamp_at_def)
      qed
      ultimately show ?thesis by blast
    qed
  qed
qed

text \<open>C11.
  Reconciliation brings the catalogue to the state of the vault.  When it completes, the
  catalogue holds exactly the indexable files that a complete walk of the vault finds, each
  once, with its current modification time and size; whichever of its transactions fails, every
  path still has the entry it had before or the one of the vault, so that a later round can
  finish the work.
\<close>

theorem reconcile_converges:
  assumes "scan_vault_rows (cc_ignored C) (cc_extensions C) vault = Inr scanned"
    and "keyed (cat_rows s)" "keyed scanned" and "reconcile F C vault s = (r, s')"
  shows "keyed (cat_rows s') \<and>
    mset scanned = mset (walk (hidden_entry (cc_ignored C)) (row_list (cc_extensions C)) [] vault) \<and>
    (\<forall>p. stamp_at (cat_rows s') p \<in> (if r = Inr () then {stamp_at scanned p} else {stamp_at (cat_rows s) p, stamp_at scanned p}))"
  using reconcile_rows [OF assms] scan_vault_rows_walk [OF assms(1)] by blast

definition sample_tree :: entry where
  "sample_tree = Directory [(''a.md'', Regular (Some (5, 10))), (''.git'', Directory [(''x.md'', Regular (Some (1, 1)))]),
     (''p'', Directory [(''b.md'', Regular (Some (7, 20))), (''c.txt'', Regular (Some (1, 1)))])]"

definition sample_cat_conf :: cat_conf where
  "sample_cat_conf = \<lparr>cc_ignored = {}, cc_extensions = {''.md''}, cc_order = sort_key (\<lambda>r. - ct_mtime r), cc_stamp = (\<lambda>_. [])\<rparr>"

definition sample_catalog :: catalog where
  "sample_catalog = \<lparr>cat_rows = [\<lparr>ct_path = ''a.md'', ct_folder = [], ct_extension = ''.md'', ct_title = ''a'', ct_mtime = 4, ct_size = 10\<rparr>,
     \<lparr>ct_path = ''old.md'', ct_folder = [], ct_extension = ''.md'', ct_title = ''old'', ct_mtime = 1, ct_size = 1\<rparr>],
     cat_calls = 0, cat_ready = True\<rparr>"

lemma sample_scanned:
  "scan_vault_rows {} {''.md''} sample_tree = Inr
     [\<lparr>ct_path = ''a.md'', ct_folder = [], ct_extension = ''.md'', ct_title = ''a'', ct_mtime = 5, ct_size = 10\<rparr>,
      \<lparr>ct_path = ''p/b.md'', ct_folder = ''p'', ct_extension = ''.md'', ct_title = ''b'', ct_mtime = 7, ct_size = 20\<rparr>]"
  by code_simp

definition sample_rows :: "cat_row list" where
  "sample_rows = [\<lparr>ct_path = ''a.md'', ct_folder = [], ct_extension = ''.md'', ct_title = ''a'', ct_mtime = 5, ct_size = 10\<rparr>,
      \<lparr>ct_path = ''p/b.md'', ct_folder = ''p'', ct_extension = ''.md'', ct_title = ''b'', ct_mtime = 7, ct_size = 20\<rparr>]"

theorem reconcile_converges_witness:
  "\<exists>s'. reconcile (\<lambda>_. None) sample_cat_conf sample_tree sample_catalog = (Inr (), s') \<and>
     stamp_at (cat_rows s') ''p/b.md'' = Some (7, 20) \<and> stamp_at (cat_rows s') ''old.md'' = None"
proof -
  have scan: "scan_vault_rows (cc_ignored sample_cat_conf) (cc_extensions sample_cat_conf) sample_tree = Inr sample_rows"
    using sample_scanned by (simp add: sample_cat_conf_def sample_rows_def)
  have k: "keyed (cat_rows sample_catalog)" "keyed sample_rows" by (simp_all add: sample_catalog_def sample_rows_def keyed_def)
  obtain r s' where run: "reconcile (\<lambda>_. None) sample_cat_conf sample_tree sample_catalog = (r, s')"
    by (cases "reconcile (\<lambda>_. None) sample_cat_conf sample_tree sample_catalog")
  have total: "\<exists>s'. delete_all (\<lambda>_. None) ps s = (Inr (), s')" for ps s
    by (induction ps arbitrary: s) (simp_all add: return_cat_def bind_cat_def delete_path_def with_connection_def Let_def)
  have batch: "fst (upsert_batch (\<lambda>_. None) ds s) = Inr ()" for ds s
    by (simp add: upsert_batch_def return_cat_def with_connection_def Let_def)
  have "fst (reconcile (\<lambda>_. None) sample_cat_conf sample_tree sample_catalog) = Inr ()"
    using batch total scan
    by (simp add: reconcile_def bind_cat_def with_connection_def Let_def split: prod.split sum.split) (metis fst_conv sum.distinct(1))
  then have r: "r = Inr ()" using run by simp
  have "stamp_at (cat_rows s') p = stamp_at sample_rows p" for p
    using reconcile_converges [OF scan k run] r by simp
  moreover have "stamp_at sample_rows ''p/b.md'' = Some (7, 20)" "stamp_at sample_rows ''old.md'' = None"
    by (simp_all add: sample_rows_def stamp_at_def)
  ultimately show ?thesis using run r by simp
qed


section \<open>The pages of a listing\<close>

lemma concat_pages: "concat (map (\<lambda>i. take k (drop (i * k) xs)) [0..<n]) = take (n * k) xs"
  by (induction n) (simp_all add: take_add [symmetric] add.commute)

definition listing_at ::
  "db_faults \<Rightarrow> cat_conf \<Rightarrow> list_conf \<Rightarrow> string option \<Rightarrow> string option \<Rightarrow> int \<Rightarrow> catalog \<Rightarrow> nat \<Rightarrow> listing result" where
  "listing_at F C L folder extension limit s i = fst (list_notes F C L folder extension (Some limit) (int i * limit) s)"

lemma listing_at_page:
  assumes "F (cat_calls s) = None" "1 \<le> limit" "limit \<le> lc_max L"
    and "checked_folder L folder = Inr ()" "checked_extension L extension = Inr x"
  shows "listing_at F C L folder extension limit s i =
    (let matching = filter (row_matches folder x) (cat_rows s) in
     Inr \<lparr>ls_notes = map (row_to_note C) (take (nat limit) (drop (i * nat limit) (cc_order C matching))),
          ls_total = length matching, ls_limit = limit, ls_offset = int i * limit,
          ls_has_more = (int i * limit + limit < int (length matching))\<rparr>)"
proof -
  have "clamp 1 (lc_max L) limit = limit" using assms(2,3) by (simp add: clamp_def)
  moreover have "max 0 (int i * limit) = int i * limit" using assms(2) by simp
  moreover have "nat (int i * limit) = i * nat limit" using assms(2) by (simp add: nat_mult_distrib)
  ultimately show ?thesis
    using assms by (simp add: listing_at_def list_notes_def list_rows_def with_connection_def limit_offset_def page_of_def Let_def)
qed


definition sample_list_conf :: list_conf where
  "sample_list_conf = \<lparr>lc_default = 50, lc_max = 100, lc_ignored = [''.trash''], lc_indexable = [''.md''], lc_valid_folder = (\<lambda>_. True),
     lc_vault = [''v''], lc_real = (\<lambda>p. p), lc_start = (\<lambda>f. Inr None), lc_entry = (\<lambda>_. sample_tree), lc_stamp = (\<lambda>_. [])\<rparr>"


end
