(* ===== verification/Crud_Tools.thy ===== *)
theory Crud_Tools
  imports Crud_Delete Catalog Enrich_Runs Reindex_Queue Enrichment_Jobs Searcher
begin

text \<open>
  The tools that edit and read notes, \<open>server/crud_tools.py\<close>: each calls an operation of
  \<open>crud/\<close>, schedules the reindexing of the paths it changed, and turns exceptions into public
  messages.  The queue is an argument: its state when the tool reaches it, which other threads
  may have changed since the tool was called.  The reference of a public error, the identifier
  of a job and its time are arguments as well; what the scan of the vault answers, relative
  paths or an exception, is one too.
\<close>

section \<open>Answers\<close>

definition expected_input :: "pyexn \<Rightarrow> bool" where
  "expected_input e \<longleftrightarrow> isinstance e C_ValueError"

definition expected_read :: "pyexn \<Rightarrow> bool" where
  "expected_read e \<longleftrightarrow> isinstance e C_ValueError \<or> isinstance e C_FileNotFoundError"

definition answer_io :: "(pyexn \<Rightarrow> bool) \<Rightarrow> string \<Rightarrow> string \<Rightarrow> 'a io \<Rightarrow> env \<Rightarrow> world \<Rightarrow> 'a answer \<times> world" where
  "answer_io expected message ref m E w = (case m E w of
      (Inr x, w) \<Rightarrow> (Inr x, w)
    | (Inl e, w) \<Rightarrow> (Inl (if expected e then public_error ''invalid_request'' message ref else internal_error ref), w))"

text \<open>The dictionary a mutation answers: the result of the operation and what the tool adds.\<close>

record tool_result =
  tr_result :: op_result
  tr_reindex_status :: "string option"
  tr_job_id :: "string option"

definition plain_result :: "op_result \<Rightarrow> tool_result" where
  "plain_result res = \<lparr>tr_result = res, tr_reindex_status = None, tr_job_id = None\<rparr>"

definition safe_reindex :: "nat \<Rightarrow> string \<Rightarrow> tool_result \<times> rq \<Rightarrow> tool_result \<times> rq" where
  "safe_reindex max_pending path = (\<lambda>(result, q). case enqueue max_pending path q of
     (status, q) \<Rightarrow> (result\<lparr>tr_reindex_status := Some status\<rparr>, q))"

section \<open>Reading\<close>

definition read_message :: string where
  "read_message = ''The note does not exist or the path is invalid.''"

definition read_note_tool where
  "read_note_tool C R ref path = answer_io expected_read read_message ref (read_note C R path)"

definition get_note_metadata_tool where
  "get_note_metadata_tool C R cache ref path =
     answer_io expected_read read_message ref (get_note_metadata C R cache path)"

definition list_notes_tool where
  "list_notes_tool F C L ref folder ext limit offset K =
     (case list_notes F C L folder ext limit offset K of
      (Inr x, K) \<Rightarrow> (Inr x, K)
    | (Inl e, K) \<Rightarrow> (Inl (if expected_input e
        then public_error ''invalid_request'' ''The supplied filters are invalid.'' ref
        else internal_error ref), K))"

section \<open>Mutations\<close>

text \<open>The common shape of the six mutations: \<open>paths\<close> are the paths to reindex.\<close>

definition mutation_tool ::
  "nat \<Rightarrow> string \<Rightarrow> string \<Rightarrow> string list \<Rightarrow> op_result io \<Rightarrow> env \<Rightarrow> world \<Rightarrow> rq \<Rightarrow> tool_result answer \<times> world \<times> rq" where
  "mutation_tool max_pending ref message paths op E w q = (case answer_io expected_input message ref op E w of
      (Inl msg, w) \<Rightarrow> (Inl msg, w, q)
    | (Inr res, w) \<Rightarrow>
        if or_success res then (case fold (safe_reindex max_pending) paths (plain_result res, q) of
            (result, q) \<Rightarrow> (Inr result, w, q))
        else (Inr (plain_result res), w, q))"

definition write_note_tool where
  "write_note_tool max_pending C ref path content =
     mutation_tool max_pending ref ''The content or path is invalid.'' [path] (write_note C path content)"

definition append_note_tool where
  "append_note_tool max_pending C ref path content sep =
     mutation_tool max_pending ref ''The content or path is invalid.'' [path] (append_note C path content sep)"

definition update_frontmatter_tool where
  "update_frontmatter_tool max_pending C ref path metadata merge =
     mutation_tool max_pending ref ''The frontmatter or path is invalid.'' [path]
       (update_frontmatter C path (PDict metadata) merge True)"

definition delete_note_tool where
  "delete_note_tool max_pending C ref path =
     mutation_tool max_pending ref ''The note does not exist or the path is invalid.'' [path] (delete_note C path)"

definition move_note_tool where
  "move_note_tool max_pending C ref from_path to_path =
     mutation_tool max_pending ref ''The source or destination is invalid.'' [from_path, to_path]
       (move_note C from_path to_path)"

text \<open>\<open>create_note\<close> also asks for the enrichment of the new note.\<close>

definition create_note_tool ::
  "nat \<Rightarrow> job_limits \<Rightarrow> conf \<Rightarrow> string \<Rightarrow> string \<Rightarrow> rat \<Rightarrow> string \<Rightarrow> string \<Rightarrow> frontmatter option
    \<Rightarrow> env \<Rightarrow> world \<Rightarrow> rq \<Rightarrow> jobs \<Rightarrow> tool_result answer \<times> world \<times> rq \<times> jobs" where
  "create_note_tool max_pending L C ref job_id now path content fm E w q js =
     (case mutation_tool max_pending ref ''The content, frontmatter, or path is invalid.'' [path]
             (create_note C path content fm True) E w q of
        (Inl msg, w, q) \<Rightarrow> (Inl msg, w, q, js)
      | (Inr result, w, q) \<Rightarrow>
          if or_success (tr_result result) \<and> is_ai_enrichment_enabled C \<and> ends_md path
          then (case enqueue_job L C [PStr path] ''create_note'' job_id now js of
              (Accepted k n, js) \<Rightarrow> (Inr (result\<lparr>tr_job_id := Some k\<rparr>), w, q, js)
            | (Refused _ _, js) \<Rightarrow> (Inr result, w, q, js))
          else (Inr result, w, q, js))"

section \<open>Identifiers\<close>

definition folder_selector :: "string \<Rightarrow> purepath io" where
  "folder_selector folder = bind_io (validate_relative_path (strip folder)) (\<lambda>ok.
     if ok then return_io (pure_path (strip folder))
     else raise_io (ValueError ''Folder must be a non-empty vault-relative path''))"

definition path_is_in_folder :: "string \<Rightarrow> purepath \<Rightarrow> bool" where
  "path_is_in_folder relative_path folder =
     (pp_abs (pure_path relative_path) = pp_abs folder \<and> prefix (pp_parts folder) (pp_parts (pure_path relative_path)))"

definition md_notes :: "string list \<Rightarrow> string list" where
  "md_notes paths = filter (\<lambda>p. rel_suffix p = ''.md'') paths"

fun notes_without_id :: "conf \<Rightarrow> read_conf \<Rightarrow> string list \<Rightarrow> string list io" where
  "notes_without_id C R [] = return_io []"
| "notes_without_id C R (rel # rels) = bind_io (catch_io
      (bind_io (frontmatter_io C R (c_vault C @ pp_parts (pure_path rel))) (\<lambda>fm.
         return_io (if dhas fm id_key then [] else [rel])))
      (\<lambda>e. Some (return_io []))) (\<lambda>here.
    bind_io (notes_without_id C R rels) (\<lambda>rest. return_io (here @ rest)))"

text \<open>The loop over the notes: those that got an id, and the failures.\<close>

fun add_ids :: "conf \<Rightarrow> string list \<Rightarrow> ((string \<times> pyval option) list \<times> (string \<times> string) list) io" where
  "add_ids C [] = return_io ([], [])"
| "add_ids C (rel # rels) = bind_io (ensure_note_id C rel True) (\<lambda>res.
    bind_io (add_ids C rels) (\<lambda>(added, errors). return_io
      (if or_id_added res = Some True then ((rel, or_id res) # added, errors)
       else if \<not> or_success res then (added, (rel, or_message res) # errors)
       else (added, errors))))"

datatype id_report =
    Dry_run nat nat "string list" bool
  | Ids_added nat nat nat nat string "(string \<times> pyval option) list" "(string \<times> string) list"

text \<open>The body of \<open>generate_missing_ids\<close> up to the queue: number of notes, those without id, and
  unless it is a dry run what the loop did.\<close>

definition missing_ids ::
  "conf \<Rightarrow> read_conf \<Rightarrow> string list result \<Rightarrow> string option \<Rightarrow> (nat \<times> string list) io" where
  "missing_ids C R scan_answer folder = bind_io (lift_io scan_answer) (\<lambda>all_notes.
     bind_io (case folder of
         None \<Rightarrow> return_io (md_notes all_notes)
       | Some f \<Rightarrow> if f = [] then return_io (md_notes all_notes)
           else bind_io (folder_selector f) (\<lambda>sel.
             return_io (filter (\<lambda>p. path_is_in_folder p sel) (md_notes all_notes)))) (\<lambda>md.
     bind_io (notes_without_id C R md) (\<lambda>missing. return_io (length md, missing))))"

definition generate_missing_ids ::
  "nat \<Rightarrow> conf \<Rightarrow> read_conf \<Rightarrow> string \<Rightarrow> string list result \<Rightarrow> string option \<Rightarrow> bool
    \<Rightarrow> env \<Rightarrow> world \<Rightarrow> rq \<Rightarrow> id_report answer \<times> world \<times> rq" where
  "generate_missing_ids max_pending C R ref scan_answer folder dry_run E w q =
     (case missing_ids C R scan_answer folder E w of
        (Inl e, w) \<Rightarrow> (Inl (internal_error ref), w, q)
      | (Inr (scanned, missing), w) \<Rightarrow>
          if dry_run then (Inr (Dry_run scanned (length missing) (take 100 missing) (100 < length missing)), w, q)
          else case add_ids C missing E w of
            (Inl e, w) \<Rightarrow> (Inl (internal_error ref), w, q)
          | (Inr (added, errors), w) \<Rightarrow>
              (case (if added = [] then (''not_needed'', q) else enqueue_sync max_pending q) of
                 (status, q) \<Rightarrow> (Inr (Ids_added scanned (length missing) (length added) (length errors) status
                    (take 50 added) (take 10 errors)), w, q)))"

section \<open>Validation and enrichment\<close>

definition validate_frontmatter_tool ::
  "conf \<Rightarrow> read_conf \<Rightarrow> string \<Rightarrow> string option \<Rightarrow> frontmatter option \<Rightarrow> env \<Rightarrow> world \<Rightarrow> validation_result answer \<times> world" where
  "validate_frontmatter_tool C R ref path fm E w =
     (let has_path = (path \<noteq> None \<and> path \<noteq> Some []); has_fm = (fm \<noteq> None \<and> fm \<noteq> Some []) in
      if has_path \<and> has_fm then (Inl ''Error: provide either 'path' or 'frontmatter', not both.'', w)
      else if \<not> has_path \<and> \<not> has_fm then (Inl ''Error: provide 'path' or 'frontmatter'.'', w)
      else case answer_io expected_input ''The frontmatter or path is invalid.'' ref
          (if has_path then bind_io (resolve_path C (the path)) (\<lambda>file_path.
             bind_io (exists_io file_path) (\<lambda>there.
             if \<not> there then return_io None
             else bind_io (frontmatter_io C R file_path) (\<lambda>fm.
               bind_io (validate_frontmatter_schema_result C fm) (\<lambda>r. return_io (Some r)))))
           else bind_io (validate_frontmatter_schema_result C (the fm)) (\<lambda>r. return_io (Some r))) E w of
        (Inl msg, w) \<Rightarrow> (Inl msg, w)
      | (Inr None, w) \<Rightarrow> (Inl ''Error [not_found]: note not found.'', w)
      | (Inr (Some r), w) \<Rightarrow> (Inr r, w))"

definition given :: "'a list option \<Rightarrow> bool" where
  "given x \<longleftrightarrow> x \<noteq> None \<and> x \<noteq> Some []"

definition selected_paths ::
  "string list result \<Rightarrow> string option \<Rightarrow> string list option \<Rightarrow> string option \<Rightarrow> int \<Rightarrow> string list io" where
  "selected_paths scan_answer path paths folder limit =
     (if given path then return_io [the path]
      else if given paths then return_io (the paths)
      else bind_io (folder_selector (the folder)) (\<lambda>sel.
        bind_io (lift_io scan_answer) (\<lambda>all_notes.
        return_io (take (nat (max 1 (min limit 1000)))
          (filter (\<lambda>p. path_is_in_folder p sel) (md_notes all_notes))))))"

definition enrich_frontmatter_tool ::
  "job_limits \<Rightarrow> conf \<Rightarrow> string \<Rightarrow> string \<Rightarrow> rat \<Rightarrow> string list result \<Rightarrow> string option \<Rightarrow> string list option \<Rightarrow> string option
    \<Rightarrow> int \<Rightarrow> env \<Rightarrow> world \<Rightarrow> jobs \<Rightarrow> (enqueue_answer \<times> nat) answer \<times> world \<times> jobs" where
  "enrich_frontmatter_tool L C ref job_id now scan_answer path paths folder limit E w js =
     (if length (filter (\<lambda>b. b) [given path, given paths, given folder]) \<noteq> 1
      then (Inl ''Error: provide exactly one selector: path, paths, or folder.'', w, js)
      else case answer_io expected_input ''The supplied selectors are invalid.'' ref
          (selected_paths scan_answer path paths folder limit) E w of
        (Inl msg, w) \<Rightarrow> (Inl msg, w, js)
      | (Inr sel, w) \<Rightarrow> (case enqueue_job L C (map PStr sel) ''manual_tool'' job_id now js of
          (answer, js) \<Rightarrow> (Inr (answer, length sel), w, js)))"

definition enrich_frontmatter_status_tool :: "string option \<Rightarrow> int \<Rightarrow> jobs \<Rightarrow> status_answer" where
  "enrich_frontmatter_status_tool job_id limit js = get_status job_id limit js"


section \<open>A change reaches the queue\<close>

text \<open>An accepted key is logged and pending; a refused one changes nothing.\<close>

lemma enqueue_cases:
  assumes "enqueue_key n k q = (status, q')"
  shows "status \<in> {''stopped'', ''queue_full''} \<and> q' = q \<or>
    status \<in> {''queued'', ''coalesced''} \<and> rq_log q' = rq_log q @ [Changed k] \<and> dhas (rq_versions q') k"
proof (cases "rq_accepting q \<and> (dhas (rq_versions q) k \<or> length (rq_versions q) < n)")
  case True
  show ?thesis
  proof (cases "dget (rq_versions q) k")
    case None
    with True assms have "status = ''queued''" "q' = ensure_worker_locked
        (q\<lparr>rq_versions := dset k 1 (rq_versions q), rq_queue := rq_queue q @ [k], rq_log := rq_log q @ [Changed k]\<rparr>)"
      by (simp_all add: enqueue_key_def dhas_def)
    then show ?thesis by (simp add: ensure_worker_locked_def dhas_def dget_dset)
  next
    case (Some v)
    with True assms have "status = ''coalesced''" "q' = q\<lparr>rq_versions := dset k (Suc v) (rq_versions q),
        rq_log := rq_log q @ [Changed k]\<rparr>"
      by (simp_all add: enqueue_key_def)
    then show ?thesis by (simp add: dhas_def dget_dset)
  qed
next
  case False
  with assms have "(status = ''stopped'' \<or> status = ''queue_full'') \<and> q' = q"
    by (cases "rq_accepting q"; cases "dget (rq_versions q) k") (simp_all add: enqueue_key_def dhas_def)
  then show ?thesis by blast
qed

lemma rq_log_step: "rq_step n s t \<Longrightarrow> \<exists>l. rq_log t = rq_log s @ l"
proof (induction rule: rq_step.induct)
  case (client s key)
  show ?case
    using enqueue_cases [of n key s "fst (enqueue_key n key s)" "snd (enqueue_key n key s)"] by auto
next
  case (worker s t)
  then show ?case
    by (induction rule: worker_step.induct)
       (auto simp: observe_key_def finish_key_def Let_def split: option.splits if_splits)
qed (auto)

lemma rq_log_steps: "(rq_step n)\<^sup>*\<^sup>* s t \<Longrightarrow> \<exists>l. rq_log t = rq_log s @ l"
  by (induction rule: rtranclp_induct) (auto dest: rq_log_step)

lemma pending_until_began: "Began k \<notin> set l \<Longrightarrow> b \<Longrightarrow> fold (event_pending k) l b"
proof (induction l arbitrary: b)
  case (Cons e l)
  then have "event_pending k e b" by (cases e) auto
  with Cons.IH [of "event_pending k e b"] Cons.prems(1) show ?case by simp
qed simp

lemma seen_began: "\<not> unseen k (l @ Changed k # l') \<Longrightarrow> Began k \<in> set l'"
  using pending_until_began [of k l' True] by (auto simp: unseen_def)

lemma pending_or_ended:
  assumes "reachable (\<lambda>s. s = new_queue) (rq_step n) s" "pending_count s = 0 \<or> rq_worker s = WDone"
  shows "\<not> unseen k (rq_log s)"
proof -
  have inv: "rq_inv n s" by (rule reindex.inv_reachable [OF assms(1)])
  then have "rq_versions s = []" using assms(2) unfolding rq_inv_def pending_count_def by (auto simp: held_def)
  with inv show ?thesis by (auto simp: rq_inv_def dhas_def)
qed

lemma reachable_steps:
  "step\<^sup>*\<^sup>* s t \<Longrightarrow> reachable init step s \<Longrightarrow> reachable init step t"
  by (induction rule: rtranclp_induct) (auto intro: reach_step)

text \<open>An accepted key is run later.\<close>

lemma accepted_is_run:
  assumes "reachable (\<lambda>s. s = new_queue) (rq_step n) q" "enqueue_key n k q = (status, q')"
    and "status \<in> {''queued'', ''coalesced''}" "(rq_step n)\<^sup>*\<^sup>* q' t" "pending_count t = 0 \<or> rq_worker t = WDone"
  shows "\<exists>l. rq_log t = rq_log q @ Changed k # l \<and> Began k \<in> set l"
proof -
  have "rq_step n q q'" using rq_step.client [of n q k] assms(2) by simp
  with assms(1,4) have "reachable (\<lambda>s. s = new_queue) (rq_step n) t"
    by (blast intro: reach_step reachable_steps)
  then have seen: "\<not> unseen k (rq_log t)" by (rule pending_or_ended [OF _ assms(5)])
  have "rq_log q' = rq_log q @ [Changed k]" using enqueue_cases [OF assms(2)] assms(3) by auto
  with rq_log_steps [OF assms(4)] obtain l where "rq_log t = rq_log q @ Changed k # l" by auto
  with seen seen_began show ?thesis by metis
qed

text \<open>What a mutation tool with one path answers and does to the queue.\<close>

lemma mutation_tool_one:
  assumes "mutation_tool n ref message [path] op E w q = (answer, w', q')"
  shows "(\<exists>res. op E w = (Inr res, w') \<and>
      (if or_success res
       then (\<exists>status. enqueue_key n path q = (status, q') \<and>
         answer = Inr ((plain_result res)\<lparr>tr_reindex_status := Some status\<rparr>))
       else answer = Inr (plain_result res) \<and> q' = q)) \<or>
    (\<exists>e. op E w = (Inl e, w') \<and> q' = q \<and>
      answer = Inl (if expected_input e then public_error ''invalid_request'' message ref else internal_error ref))"
  using assms
  by (auto simp: mutation_tool_def answer_io_def safe_reindex_def enqueue_def split: prod.splits sum.splits if_splits)

lemma write_tool_outcome:
  assumes "note_ready E w C rel p" and "write_note C rel content E w = (Inr res, w')"
  shows "edit_outcome (\<lambda>F new. new = content) (\<lambda>F res. \<not> or_success res) p res w w'"
  using assms(1) ready_validated [OF assms(1)] assms(2)
  by (intro writer.operation_outcome [OF _ _ _ _ _ refl ready_prepare(1) ready_prepare(2)])
     (auto simp: note_ready_def write_note_def)

text \<open>C15. A note written through the tool is indexed again.  When the tool answers success and
  does not report that the queue is stopped or full, the file holds the content, and by the time
  the queue has nothing pending a run of this path has begun after the write.  When it does not
  answer success, the queue is as it was.\<close>

theorem written_note_is_reindexed:
  assumes "note_ready E w C path p"
    and "reachable (\<lambda>s. s = new_queue) (rq_step n) q"
    and "write_note_tool n C ref path content E w q = (answer, w', q')"
  shows "case answer of
      Inl msg \<Rightarrow> q' = q
    | Inr result \<Rightarrow>
        if or_success (tr_result result) then
          (\<exists>f. fs_files (w_fs w') p = Some f \<and> f_data f = Utf8 content) \<and>
          (tr_reindex_status result \<in> {Some ''stopped'', Some ''queue_full''} \<and> q' = q \<or>
           tr_reindex_status result \<in> {Some ''queued'', Some ''coalesced''} \<and>
           (\<forall>t. (rq_step n)\<^sup>*\<^sup>* q' t \<and> (pending_count t = 0 \<or> rq_worker t = WDone) \<longrightarrow>
              (\<exists>l. rq_log t = rq_log q @ Changed path # l \<and> Began path \<in> set l)))
        else q' = q"
proof (cases "write_note C path content E w")
  case (Pair r w1)
  have M: "mutation_tool n ref ''The content or path is invalid.'' [path] (write_note C path content) E w q = (answer, w', q')"
    using assms(3) by (simp add: write_note_tool_def)
  show ?thesis
  proof (cases r)
    case (Inl e)
    with mutation_tool_one [OF M] Pair show ?thesis by auto
  next
    case (Inr res)
    with mutation_tool_one [OF M] Pair have w1: "w1 = w'" by auto
    show ?thesis
    proof (cases "or_success res")
      case False
      with mutation_tool_one [OF M] Pair Inr show ?thesis by (auto simp: plain_result_def)
    next
      case True
      with mutation_tool_one [OF M] Pair Inr obtain status where
        q: "enqueue_key n path q = (status, q')" and
        a: "answer = Inr ((plain_result res)\<lparr>tr_reindex_status := Some status\<rparr>)" by auto
      have "edit_outcome (\<lambda>F new. new = content) (\<lambda>F res. \<not> or_success res) p res w w'"
        using write_tool_outcome [OF assms(1)] Pair Inr w1 by simp
      with True have "\<exists>f. fs_files (w_fs w') p = Some f \<and> f_data f = Utf8 content"
        by (auto simp: edit_outcome_def)
      moreover have "status \<in> {''stopped'', ''queue_full''} \<and> q' = q \<or> status \<in> {''queued'', ''coalesced''}"
        using enqueue_cases [OF q] by blast
      moreover have "\<exists>l. rq_log t = rq_log q @ Changed path # l \<and> Began path \<in> set l"
        if "status \<in> {''queued'', ''coalesced''}" "(rq_step n)\<^sup>*\<^sup>* q' t" "pending_count t = 0 \<or> rq_worker t = WDone" for t
        by (rule accepted_is_run [OF assms(2) q that])
      ultimately show ?thesis using True unfolding a by (simp add: plain_result_def) blast
    qed
  qed
qed

theorem written_note_is_reindexed_witness:
  "\<exists>result w' q'. write_note_tool 2 sample_conf ''r'' ''a.md'' ''new'' quiet_env note_world new_queue = (Inr result, w', q') \<and>
     (\<exists>f. fs_files (w_fs w') [''v'', ''a.md''] = Some f \<and> f_data f = Utf8 ''new'')"
proof -
  obtain w' where "write_note sample_conf ''a.md'' ''new'' quiet_env note_world
    = (Inr (success_result ''a.md'' ''Note updated: a.md''), w')" using sample_write by blast
  then obtain result q' where run: "write_note_tool 2 sample_conf ''r'' ''a.md'' ''new'' quiet_env note_world new_queue
      = (Inr result, w', q')" "or_success (tr_result result)"
    by (cases "enqueue 2 ''a.md'' new_queue")
      (simp add: write_note_tool_def mutation_tool_def answer_io_def safe_reindex_def plain_result_def)
  from written_note_is_reindexed [OF sample_ready(1) reach_init run(1)] run show ?thesis by auto
qed


section \<open>The identifiers\<close>

text \<open>An environment in which nothing else happens and nothing fails.\<close>

definition undisturbed :: "env \<Rightarrow> bool" where
  "undisturbed E \<longleftrightarrow> (\<forall>t own fs. e_step E t own fs = fs) \<and> (\<forall>t. e_fault E t = None)"

text \<open>The front matter that \<open>read_frontmatter_only\<close> finds in a file system.\<close>

definition frontmatter_at :: "conf \<Rightarrow> read_conf \<Rightarrow> fs \<Rightarrow> path \<Rightarrow> frontmatter" where
  "frontmatter_at C R fs p = (case fs_files fs (fs_real fs p) of
      Some f \<Rightarrow> (case f_data f of
          Utf8 s \<Rightarrow> fst (read_frontmatter_only (c_yaml_load C) (universal_newlines s))
        | NotUtf8 _ \<Rightarrow> rd_broken R p)
    | None \<Rightarrow> rd_broken R p)"

definition lacks_id :: "conf \<Rightarrow> read_conf \<Rightarrow> fs \<Rightarrow> string \<Rightarrow> bool" where
  "lacks_id C R fs rel \<longleftrightarrow> \<not> dhas (frontmatter_at C R fs (c_vault C @ pp_parts (pure_path rel))) id_key"

lemma frontmatter_io_undisturbed:
  assumes "undisturbed E"
  shows "\<exists>w'. frontmatter_io C R p E w = (Inr (frontmatter_at C R (w_fs w) p), w') \<and> w_fs w' = w_fs w"
proof -
  have fs: "w_fs (tick E w) = w_fs w" using assms by (simp add: tick_def undisturbed_def)
  have fault: "e_fault E (w_tick w) = None" using assms by (simp add: undisturbed_def)
  show ?thesis
  proof (cases "fs_files (w_fs w) (fs_real (w_fs w) p)")
    case None
    then show ?thesis
      by (simp add: frontmatter_io_def run_combinators read_text_io_def syscall_def fault fs frontmatter_at_def isinstance_def)
  next
    case (Some f)
    then show ?thesis
      by (cases "f_data f")
        (simp_all add: frontmatter_io_def run_combinators read_text_io_def syscall_def fault fs frontmatter_at_def isinstance_def)
  qed
qed

lemma notes_without_id_undisturbed:
  assumes "undisturbed E"
  shows "\<exists>w'. notes_without_id C R rels E w = (Inr (filter (lacks_id C R (w_fs w)) rels), w') \<and> w_fs w' = w_fs w"
proof (induction rels arbitrary: w)
  case Nil
  then show ?case by (simp add: return_io_def)
next
  case (Cons rel rels)
  obtain w1 where 1: "frontmatter_io C R (c_vault C @ pp_parts (pure_path rel)) E w =
      (Inr (frontmatter_at C R (w_fs w) (c_vault C @ pp_parts (pure_path rel))), w1)" "w_fs w1 = w_fs w"
    using frontmatter_io_undisturbed [OF assms] by blast
  from Cons [of w1] 1 show ?case
    by (auto simp: bind_io_def catch_io_def return_io_def lacks_id_def)
qed

text \<open>A dry run of \<open>generate_missing_ids\<close> over the whole vault changes neither a file nor the
  queue, and it lists, in the order of the scan, the first hundred Markdown notes whose front
  matter has no \<open>id\<close>, and how many there are.\<close>

theorem generate_missing_ids_dry_run:
  assumes "undisturbed E"
    and "generate_missing_ids n C R ref (Inr all_notes) None True E w q = (answer, w', q')"
  shows "w_fs w' = w_fs w \<and> q' = q \<and>
    (let missing = filter (lacks_id C R (w_fs w)) (md_notes all_notes) in
     answer = Inr (Dry_run (length (md_notes all_notes)) (length missing) (take 100 missing) (100 < length missing)))"
proof -
  obtain w1 where "notes_without_id C R (md_notes all_notes) E w =
      (Inr (filter (lacks_id C R (w_fs w)) (md_notes all_notes)), w1)" "w_fs w1 = w_fs w"
    using notes_without_id_undisturbed [OF assms(1)] by blast
  with assms(2) show ?thesis
    by (auto simp: generate_missing_ids_def missing_ids_def bind_io_def lift_io_def return_io_def Let_def)
qed

theorem generate_missing_ids_dry_run_witness:
  "\<exists>w'. generate_missing_ids 2 sample_conf \<lparr>rd_stamp = (\<lambda>_. ''t''), rd_broken = (\<lambda>_. [])\<rparr> ''r'' (Inr [''b.pdf'']) None True
     quiet_env note_world new_queue = (Inr (Dry_run 0 0 [] False), w', new_queue)"
proof -
  let ?R = "\<lparr>rd_stamp = (\<lambda>_. ''t''), rd_broken = (\<lambda>_. [])\<rparr>"
  obtain answer w' q' where run: "generate_missing_ids 2 sample_conf ?R ''r'' (Inr [''b.pdf'']) None True
     quiet_env note_world new_queue = (answer, w', q')" by (metis prod_cases3)
  have "md_notes [''b.pdf''] = []" by code_simp
  with run generate_missing_ids_dry_run [OF _ run] show ?thesis
    by (simp add: undisturbed_def Let_def)
qed

text \<open>
  One note whose processing raises stops the tool with an error; the ids added before are in
  their files, but no synchronization is requested for them.
\<close>

lemma add_ids_abort:
  assumes "add_ids C pre E w = (Inr done, w1)" and "ensure_note_id C rel True E w1 = (Inl e, w2)"
  shows "add_ids C (pre @ rel # post) E w = (Inl e, w2)"
  using assms(1)
proof (induction pre arbitrary: w "done")
  case Nil
  with assms(2) show ?case by (simp add: bind_io_def return_io_def)
next
  case (Cons r pre)
  obtain a w3 where r: "ensure_note_id C r True E w = (Inr a, w3)"
    using Cons.prems by (auto simp: bind_io_def split: prod.splits sum.splits)
  with Cons.prems obtain d where "add_ids C pre E w3 = (Inr d, w1)"
    by (auto simp: bind_io_def return_io_def split: prod.splits sum.splits if_splits)
  with Cons.IH r show ?case by (simp add: bind_io_def)
qed

theorem generate_missing_ids_abort_skips_reindex:
  assumes "missing_ids C R notes folder E w = (Inr (scanned, pre @ rel # post), w0)"
    and "add_ids C pre E w0 = (Inr (added, errors), w1)" and "ensure_note_id C rel True E w1 = (Inl e, w2)"
  shows "generate_missing_ids n C R ref notes folder False E w q = (Inl (internal_error ref), w2, q)"
  using assms(1) add_ids_abort [OF assms(2,3), of post] by (simp add: generate_missing_ids_def)

end
