(* ===== verification/Settings.thy ===== *)
theory Settings
  imports Searcher
begin

text \<open>
  The configuration, \<open>config/settings.py\<close> with \<open>utils/network.py\<close>: the models of the sections of
  \<open>config.yaml\<close>, their constraints and validators.  The conversion of a YAML value to a Python
  type is pydantic's and a parameter, as is the parsing of IP addresses; a failed validation is
  one \<open>ValueError\<close> (\<open>ValidationError\<close>), whatever its messages.  As in pydantic, a default value is
  not validated, and a key that is not a field is an error (\<open>extra="forbid"\<close>).
\<close>

section \<open>Fields\<close>

record pydantic =
  pd_int :: "pyval \<Rightarrow> int option"
  pd_float :: "pyval \<Rightarrow> pyfloat option"
  pd_bool :: "pyval \<Rightarrow> bool option"
  pd_str :: "pyval \<Rightarrow> string option"
  pd_list :: "pyval \<Rightarrow> pyval list option"

type_synonym settings = "(pyval, pyval) dict"

definition invalid :: "'a result" where
  "invalid = Inl (ValueError ''validation error'')"

definition only_fields :: "string list \<Rightarrow> settings \<Rightarrow> bool" where
  "only_fields names d = list_all (\<lambda>k. case k of PStr s \<Rightarrow> s \<in> set names | _ \<Rightarrow> False) (dkeys d)"

text \<open>One field: its default when absent, else the parsed value, which must satisfy the bounds.\<close>

definition field :: "settings \<Rightarrow> string \<Rightarrow> 'a \<Rightarrow> (pyval \<Rightarrow> 'a option) \<Rightarrow> ('a \<Rightarrow> bool) \<Rightarrow> 'a result" where
  "field d name default_value parse ok = (case dget d (PStr name) of
      None \<Rightarrow> Inr default_value
    | Some v \<Rightarrow> (case parse v of Some x \<Rightarrow> if ok x then Inr x else invalid | None \<Rightarrow> invalid))"

definition any_value :: "'a \<Rightarrow> bool" where "any_value x = True"

definition ge_bound :: "int \<Rightarrow> int \<Rightarrow> bool" where "ge_bound lo n = (lo \<le> n)"

definition range_bound :: "int \<Rightarrow> int \<Rightarrow> int \<Rightarrow> bool" where "range_bound lo hi n = (lo \<le> n \<and> n \<le> hi)"

fun float_ge :: "rat \<Rightarrow> pyfloat \<Rightarrow> bool" where
  "float_ge lo (Fin x) = (lo \<le> x)"
| "float_ge lo FPosInf = True"
| "float_ge lo _ = False"

fun float_le :: "rat \<Rightarrow> pyfloat \<Rightarrow> bool" where
  "float_le hi (Fin x) = (x \<le> hi)"
| "float_le hi FNegInf = True"
| "float_le hi _ = False"

definition optional :: "(pyval \<Rightarrow> 'a option) \<Rightarrow> pyval \<Rightarrow> 'a option option" where
  "optional parse v = (if v = PNone then Some None else map_option Some (parse v))"

definition literal :: "string list \<Rightarrow> pyval \<Rightarrow> string option" where
  "literal allowed v = (case v of PStr s \<Rightarrow> if s \<in> set allowed then Some s else None | _ \<Rightarrow> None)"

definition str_list :: "pydantic \<Rightarrow> pyval \<Rightarrow> string list option" where
  "str_list P v = (case pd_list P v of None \<Rightarrow> None | Some xs \<Rightarrow> those (map (pd_str P) xs))"

text \<open>\<open>model_validator(mode="after")\<close>.\<close>

definition ensure :: "('a \<Rightarrow> bool) \<Rightarrow> 'a \<Rightarrow> 'a result" where
  "ensure ok x = (if ok x then Inr x else invalid)"

definition model :: "string list \<Rightarrow> settings \<Rightarrow> 'a result \<Rightarrow> 'a result" where
  "model names d r = (if only_fields names d then r else invalid)"

section \<open>Sections of the configuration\<close>

record paths_config =
  pc_vault_path :: string
  pc_data_dir :: string
  pc_lancedb_table :: string

definition build_paths_config :: "pydantic \<Rightarrow> settings \<Rightarrow> paths_config result" where
  "build_paths_config P d = model [''vault_path'', ''data_dir'', ''lancedb_table''] d
     (bind_result (field d ''vault_path'' ''vaults/obsidian_vault'' (pd_str P) any_value) (\<lambda>vault.
      bind_result (field d ''data_dir'' ''data'' (pd_str P) any_value) (\<lambda>data.
      bind_result (field d ''lancedb_table'' ''vault_chunks'' (pd_str P) any_value) (\<lambda>table.
      Inr \<lparr>pc_vault_path = vault, pc_data_dir = data, pc_lancedb_table = table\<rparr>))))"

record search_config =
  sr_candidates :: int
  sr_candidates_max :: int
  sr_candidates_multiplier :: int
  sr_top_k :: int
  sr_top_k_min :: int
  sr_top_k_max :: int
  sr_score_precision :: int
  sr_list_default :: int
  sr_list_max :: int

definition validate_ranges :: "search_config \<Rightarrow> bool" where
  "validate_ranges c \<longleftrightarrow> sr_candidates c \<le> sr_candidates_max c \<and> sr_top_k_min c \<le> sr_top_k_max c \<and>
     sr_top_k_min c \<le> sr_top_k c \<and> sr_top_k c \<le> sr_top_k_max c \<and> sr_list_default c \<le> sr_list_max c"

definition build_search_config :: "pydantic \<Rightarrow> settings \<Rightarrow> search_config result" where
  "build_search_config P d = model [''candidates'', ''candidates_max'', ''candidates_multiplier'', ''top_k'', ''top_k_min'',
       ''top_k_max'', ''score_precision'', ''list_notes_default_limit'', ''list_notes_max_limit''] d
     (bind_result (field d ''candidates'' 50 (pd_int P) (ge_bound 1)) (\<lambda>c.
      bind_result (field d ''candidates_max'' 500 (pd_int P) (ge_bound 1)) (\<lambda>cmax.
      bind_result (field d ''candidates_multiplier'' 2 (pd_int P) (ge_bound 1)) (\<lambda>cmul.
      bind_result (field d ''top_k'' 10 (pd_int P) (range_bound 1 100)) (\<lambda>k.
      bind_result (field d ''top_k_min'' 1 (pd_int P) (ge_bound 1)) (\<lambda>kmin.
      bind_result (field d ''top_k_max'' 100 (pd_int P) (ge_bound 1)) (\<lambda>kmax.
      bind_result (field d ''score_precision'' 4 (pd_int P) (range_bound 0 10)) (\<lambda>prec.
      bind_result (field d ''list_notes_default_limit'' 500 (pd_int P) (ge_bound 1)) (\<lambda>ldef.
      bind_result (field d ''list_notes_max_limit'' 5000 (pd_int P) (ge_bound 1)) (\<lambda>lmax.
      ensure validate_ranges \<lparr>sr_candidates = c, sr_candidates_max = cmax, sr_candidates_multiplier = cmul,
        sr_top_k = k, sr_top_k_min = kmin, sr_top_k_max = kmax, sr_score_precision = prec,
        sr_list_default = ldef, sr_list_max = lmax\<rparr>))))))))))"

record indexing_config =
  ic_batch_size :: int
  ic_workers :: "int option"
  ic_max_chunks :: int
  ic_extensions :: "string list"
  ic_ignored :: "string list"

definition supported_extensions :: "string list" where
  "supported_extensions = [''.md'', ''.mdx'', ''.txt'', ''.pdf'', ''.canvas'']"

definition validate_extensions :: "string list \<Rightarrow> bool" where
  "validate_extensions exts \<longleftrightarrow> exts \<noteq> [] \<and> distinct exts \<and> set exts \<subseteq> set supported_extensions"

definition validate_ignored_folders :: "string list \<Rightarrow> bool" where
  "validate_ignored_folders folders \<longleftrightarrow> distinct folders \<and>
     (\<forall>f \<in> set folders. f \<noteq> [] \<and> f \<noteq> ''.'' \<and> f \<noteq> ''..'' \<and> CHR ''/'' \<notin> set f \<and> backslash \<notin> set f)"

definition build_indexing_config :: "pydantic \<Rightarrow> settings \<Rightarrow> indexing_config result" where
  "build_indexing_config P d = model [''batch_size'', ''workers'', ''max_chunks_per_note'', ''extensions'', ''ignored_folders''] d
     (bind_result (field d ''batch_size'' 500 (pd_int P) (ge_bound 1)) (\<lambda>batch.
      bind_result (field d ''workers'' None (optional (pd_int P)) any_value) (\<lambda>workers.
      bind_result (field d ''max_chunks_per_note'' 1000 (pd_int P) (ge_bound 1)) (\<lambda>chunks.
      bind_result (field d ''extensions'' supported_extensions (str_list P) validate_extensions) (\<lambda>exts.
      bind_result (field d ''ignored_folders'' [''.obsidian'', ''.smart-env'', ''.trash'', ''.git''] (str_list P)
        validate_ignored_folders) (\<lambda>ignored.
      Inr \<lparr>ic_batch_size = batch, ic_workers = workers, ic_max_chunks = chunks, ic_extensions = exts,
        ic_ignored = ignored\<rparr>))))))"

definition build_fts_config :: "pydantic \<Rightarrow> settings \<Rightarrow> string option result" where
  "build_fts_config P d = model [''language''] d (field d ''language'' None (optional (pd_str P)) any_value)"

record prewarm_config =
  wc_enabled :: bool
  wc_max_ram_percent :: pyfloat
  wc_min_available_ram :: int
  wc_bytes_per_chunk :: int

definition build_prewarm_config :: "pydantic \<Rightarrow> settings \<Rightarrow> prewarm_config result" where
  "build_prewarm_config P d = model [''enabled'', ''max_ram_percent'', ''min_available_ram'', ''bytes_per_chunk''] d
     (bind_result (field d ''enabled'' True (pd_bool P) any_value) (\<lambda>enabled.
      bind_result (field d ''max_ram_percent'' (Fin (1 / 4)) (pd_float P) (\<lambda>x. float_ge 0 x \<and> float_le 1 x)) (\<lambda>percent.
      bind_result (field d ''min_available_ram'' (2 * 1024 * 1024 * 1024) (pd_int P) (ge_bound 0)) (\<lambda>ram.
      bind_result (field d ''bytes_per_chunk'' 5120 (pd_int P) (ge_bound 1)) (\<lambda>bytes.
      Inr \<lparr>wc_enabled = enabled, wc_max_ram_percent = percent, wc_min_available_ram = ram,
        wc_bytes_per_chunk = bytes\<rparr>)))))"

record embedding_config =
  ec_model :: string
  ec_reranker_model :: string
  ec_use_fp16 :: "bool option"
  ec_device :: string
  ec_batch_size :: int
  ec_query_max_length :: int
  ec_corpus_max_length :: int
  ec_dimension :: int
  ec_reranker_normalize :: bool
  ec_idle_timeout :: int

definition build_embedding_config :: "pydantic \<Rightarrow> settings \<Rightarrow> embedding_config result" where
  "build_embedding_config P d = model [''model'', ''reranker_model'', ''use_fp16'', ''device'', ''batch_size'', ''query_max_length'',
       ''corpus_max_length'', ''dimension'', ''reranker_normalize'', ''idle_timeout''] d
     (bind_result (field d ''model'' ''BAAI/bge-m3'' (pd_str P) any_value) (\<lambda>m.
      bind_result (field d ''reranker_model'' ''cross-encoder/ms-marco-MiniLM-L-6-v2'' (pd_str P) any_value) (\<lambda>rm.
      bind_result (field d ''use_fp16'' None (optional (pd_bool P)) any_value) (\<lambda>fp16.
      bind_result (field d ''device'' ''auto'' (literal [''auto'', ''cpu'', ''cuda'', ''mps'']) any_value) (\<lambda>dev.
      bind_result (field d ''batch_size'' 32 (pd_int P) (ge_bound 1)) (\<lambda>batch.
      bind_result (field d ''query_max_length'' 512 (pd_int P) (ge_bound 1)) (\<lambda>qlen.
      bind_result (field d ''corpus_max_length'' 1024 (pd_int P) (ge_bound 1)) (\<lambda>clen.
      bind_result (field d ''dimension'' 1024 (pd_int P) (ge_bound 1)) (\<lambda>dim.
      bind_result (field d ''reranker_normalize'' True (pd_bool P) any_value) (\<lambda>normalize.
      bind_result (field d ''idle_timeout'' 1800 (pd_int P) (ge_bound 0)) (\<lambda>idle.
      Inr \<lparr>ec_model = m, ec_reranker_model = rm, ec_use_fp16 = fp16, ec_device = dev, ec_batch_size = batch,
        ec_query_max_length = qlen, ec_corpus_max_length = clen, ec_dimension = dim,
        ec_reranker_normalize = normalize, ec_idle_timeout = idle\<rparr>)))))))))))"

record chunking_config =
  cc_size :: int
  cc_overlap :: int
  cc_header_levels :: int
  cc_separators :: "string list"

text \<open>The validator of \<open>overlap\<close> sees the size, and runs only when an overlap is given.\<close>

definition overlap_less_than_size :: "int \<Rightarrow> int \<Rightarrow> bool" where
  "overlap_less_than_size size_value v \<longleftrightarrow> v < size_value"

definition build_chunking_config :: "pydantic \<Rightarrow> settings \<Rightarrow> chunking_config result" where
  "build_chunking_config P d = model [''size'', ''overlap'', ''header_levels'', ''separators''] d
     (bind_result (field d ''size'' 2000 (pd_int P) (ge_bound 100)) (\<lambda>sz.
      bind_result (field d ''overlap'' 200 (pd_int P) (\<lambda>v. ge_bound 0 v \<and> overlap_less_than_size sz v)) (\<lambda>overlap.
      bind_result (field d ''header_levels'' 4 (pd_int P) (range_bound 1 6)) (\<lambda>levels.
      bind_result (field d ''separators'' [[CHR 0x0A, CHR 0x0A], [CHR 0x0A], ''. '', '' ''] (str_list P) any_value) (\<lambda>seps.
      Inr \<lparr>cc_size = sz, cc_overlap = overlap, cc_header_levels = levels, cc_separators = seps\<rparr>)))))"

record security_config =
  yc_max_query_length :: int
  yc_max_content_size :: int
  yc_max_path_length :: int
  yc_max_frontmatter_keys :: int

definition build_security_config :: "pydantic \<Rightarrow> settings \<Rightarrow> security_config result" where
  "build_security_config P d = model [''max_query_length'', ''max_content_size'', ''max_path_length'', ''max_frontmatter_keys''] d
     (bind_result (field d ''max_query_length'' 10000 (pd_int P) (ge_bound 1)) (\<lambda>q.
      bind_result (field d ''max_content_size'' 10485760 (pd_int P) (ge_bound 1)) (\<lambda>c.
      bind_result (field d ''max_path_length'' 500 (pd_int P) (ge_bound 1)) (\<lambda>p.
      bind_result (field d ''max_frontmatter_keys'' 100 (pd_int P) (ge_bound 1)) (\<lambda>k.
      Inr \<lparr>yc_max_query_length = q, yc_max_content_size = c, yc_max_path_length = p,
        yc_max_frontmatter_keys = k\<rparr>)))))"

record watcher_config =
  hc_debounce :: pyfloat
  hc_poll_factor :: int
  hc_join_timeout :: int

definition build_watcher_config :: "pydantic \<Rightarrow> settings \<Rightarrow> watcher_config result" where
  "build_watcher_config P d = model [''debounce'', ''poll_factor'', ''thread_join_timeout''] d
     (bind_result (field d ''debounce'' (Fin 2) (pd_float P) (float_ge 0)) (\<lambda>debounce.
      bind_result (field d ''poll_factor'' 2 (pd_int P) (ge_bound 1)) (\<lambda>poll.
      bind_result (field d ''thread_join_timeout'' 5 (pd_int P) (ge_bound 1)) (\<lambda>join.
      Inr \<lparr>hc_debounce = debounce, hc_poll_factor = poll, hc_join_timeout = join\<rparr>))))"


record pdf_config =
  fc_ocr_enabled :: bool
  fc_ocr_languages :: string
  fc_ocr_dpi :: int

definition build_pdf_config :: "pydantic \<Rightarrow> settings \<Rightarrow> pdf_config result" where
  "build_pdf_config P d = model [''ocr_enabled'', ''ocr_languages'', ''ocr_dpi''] d
     (bind_result (field d ''ocr_enabled'' True (pd_bool P) any_value) (\<lambda>ocr.
      bind_result (field d ''ocr_languages'' ''eng'' (pd_str P) any_value) (\<lambda>langs.
      bind_result (field d ''ocr_dpi'' 150 (pd_int P) (range_bound 72 600)) (\<lambda>dpi.
      Inr \<lparr>fc_ocr_enabled = ocr, fc_ocr_languages = langs, fc_ocr_dpi = dpi\<rparr>))))"

record vector_index_config =
  xc_min_chunks :: int
  xc_auto_create :: bool
  xc_index_type :: string
  xc_num_sub_vectors :: int
  xc_distance_type :: string

definition build_vector_index_config :: "pydantic \<Rightarrow> settings \<Rightarrow> vector_index_config result" where
  "build_vector_index_config P d = model [''min_chunks'', ''auto_create'', ''index_type'', ''num_sub_vectors'', ''distance_type''] d
     (bind_result (field d ''min_chunks'' 5000 (pd_int P) (ge_bound 1)) (\<lambda>min_chunks.
      bind_result (field d ''auto_create'' True (pd_bool P) any_value) (\<lambda>auto_create.
      bind_result (field d ''index_type'' ''IVF_PQ'' (literal [''IVF_PQ'', ''IVF_HNSW_SQ'']) any_value) (\<lambda>index_type.
      bind_result (field d ''num_sub_vectors'' 128 (pd_int P) (ge_bound 1)) (\<lambda>subs.
      bind_result (field d ''distance_type'' ''cosine'' (literal [''cosine'', ''l2'', ''dot'']) any_value) (\<lambda>metric.
      Inr \<lparr>xc_min_chunks = min_chunks, xc_auto_create = auto_create, xc_index_type = index_type,
        xc_num_sub_vectors = subs, xc_distance_type = metric\<rparr>))))))"

section \<open>The host of the daemon\<close>

text \<open>What \<open>ipaddress.ip_address\<close> answers: the version, whether it is a loopback address, and for a
  version 6 address the mapped version 4 one, if any, as its own loopback property.\<close>

datatype ip_address = IPv4 bool | IPv6 bool "bool option"

definition is_loopback_host :: "(string \<Rightarrow> ip_address option) \<Rightarrow> string \<Rightarrow> bool" where
  "is_loopback_host ip host = (let normalized = py_lower (strip host) in
     if normalized = ''localhost'' then True
     else case ip normalized of
       None \<Rightarrow> False
     | Some (IPv6 _ (Some mapped)) \<Rightarrow> mapped
     | Some (IPv6 loopback None) \<Rightarrow> loopback
     | Some (IPv4 loopback) \<Rightarrow> loopback)"

definition format_url_host :: "(string \<Rightarrow> ip_address option) \<Rightarrow> string \<Rightarrow> string" where
  "format_url_host ip host = (let normalized = strip host in
     case ip normalized of
       None \<Rightarrow> normalized
     | Some (IPv6 _ _) \<Rightarrow> ''['' @ normalized @ '']''
     | Some (IPv4 _) \<Rightarrow> normalized)"

record daemon_config =
  mc_host :: string
  mc_port :: int
  mc_timeout :: pyfloat
  mc_auto_use :: bool
  mc_max_request_bytes :: int
  mc_max_texts :: int
  mc_max_text_length :: int

definition validate_loopback_host :: "(string \<Rightarrow> ip_address option) \<Rightarrow> string \<Rightarrow> string result" where
  "validate_loopback_host ip v = (if is_loopback_host ip (strip v) then Inr (strip v) else invalid)"

definition build_daemon_config :: "pydantic \<Rightarrow> (string \<Rightarrow> ip_address option) \<Rightarrow> settings \<Rightarrow> daemon_config result" where
  "build_daemon_config P ip d = model [''host'', ''port'', ''timeout'', ''auto_use'', ''max_request_bytes'', ''max_texts'', ''max_text_length''] d
     (bind_result (case dget d (PStr ''host'') of None \<Rightarrow> Inr ''127.0.0.1''
        | Some v \<Rightarrow> (case pd_str P v of None \<Rightarrow> invalid | Some h \<Rightarrow> validate_loopback_host ip h)) (\<lambda>host.
      bind_result (field d ''port'' 9847 (pd_int P) (range_bound 1 65535)) (\<lambda>port.
      bind_result (field d ''timeout'' (Fin 120) (pd_float P) (float_ge 1)) (\<lambda>timeout.
      bind_result (field d ''auto_use'' True (pd_bool P) any_value) (\<lambda>auto_use.
      bind_result (field d ''max_request_bytes'' (2 * 1024 * 1024) (pd_int P) (ge_bound 1024)) (\<lambda>bytes.
      bind_result (field d ''max_texts'' 512 (pd_int P) (range_bound 1 10000)) (\<lambda>texts.
      bind_result (field d ''max_text_length'' 100000 (pd_int P) (ge_bound 1)) (\<lambda>len.
      Inr \<lparr>mc_host = host, mc_port = port, mc_timeout = timeout, mc_auto_use = auto_use,
        mc_max_request_bytes = bytes, mc_max_texts = texts, mc_max_text_length = len\<rparr>))))))))"

record navigation_config =
  nc_max_depth :: int
  nc_max_depth_limit :: int

definition validate_depth_range :: "navigation_config \<Rightarrow> bool" where
  "validate_depth_range c \<longleftrightarrow> nc_max_depth c \<le> nc_max_depth_limit c"

definition build_navigation_config :: "pydantic \<Rightarrow> settings \<Rightarrow> navigation_config result" where
  "build_navigation_config P d = model [''folder_tree_max_depth'', ''folder_tree_max_depth_limit''] d
     (bind_result (field d ''folder_tree_max_depth'' 10 (pd_int P) (ge_bound 1)) (\<lambda>depth.
      bind_result (field d ''folder_tree_max_depth_limit'' 50 (pd_int P) (ge_bound 1)) (\<lambda>limit.
      ensure validate_depth_range \<lparr>nc_max_depth = depth, nc_max_depth_limit = limit\<rparr>)))"

section \<open>Front matter\<close>

record frontmatter_ai_config =
  ac_enabled :: bool
  ac_allow_external :: bool
  ac_provider :: "string option"
  ac_allow_defer :: bool
  ac_command :: "string list"
  ac_primary_model :: "string option"
  ac_fallback_model :: "string option"
  ac_timeout :: pyfloat
  ac_max_attempts :: int
  ac_max_note_chars :: int

definition named :: "string option \<Rightarrow> bool" where
  "named s = (case s of None \<Rightarrow> False | Some t \<Rightarrow> strip t \<noteq> [])"

definition validate_external_processing :: "frontmatter_ai_config \<Rightarrow> bool" where
  "validate_external_processing c \<longleftrightarrow>
     \<not> list_ex (\<lambda>a. contains a ''{prompt}'') (ac_command c) \<and>
     \<not> (ac_enabled c \<and> \<not> ac_allow_external c) \<and>
     \<not> (ac_enabled c \<and> \<not> named (ac_provider c)) \<and>
     \<not> (ac_enabled c \<and> ac_command c = []) \<and>
     \<not> (ac_command c \<noteq> [] \<and> strip (hd (ac_command c)) = []) \<and>
     \<not> (ac_enabled c \<and> \<not> named (ac_primary_model c)) \<and>
     \<not> (ac_primary_model c \<noteq> None \<and> \<not> named (ac_primary_model c)) \<and>
     \<not> (ac_fallback_model c \<noteq> None \<and> \<not> named (ac_fallback_model c))"

definition build_frontmatter_ai_config :: "pydantic \<Rightarrow> settings \<Rightarrow> frontmatter_ai_config result" where
  "build_frontmatter_ai_config P d = model [''enabled'', ''allow_external_processing'', ''provider'',
       ''allow_defer_required_on_create'', ''command'', ''primary_model'', ''fallback_model'', ''timeout_seconds'',
       ''max_attempts'', ''max_note_chars''] d
     (bind_result (field d ''enabled'' False (pd_bool P) any_value) (\<lambda>enabled.
      bind_result (field d ''allow_external_processing'' False (pd_bool P) any_value) (\<lambda>ext.
      bind_result (field d ''provider'' None (optional (pd_str P)) any_value) (\<lambda>provider.
      bind_result (field d ''allow_defer_required_on_create'' True (pd_bool P) any_value) (\<lambda>defer_ok.
      bind_result (field d ''command'' [] (str_list P) any_value) (\<lambda>command.
      bind_result (field d ''primary_model'' None (optional (pd_str P)) any_value) (\<lambda>primary.
      bind_result (field d ''fallback_model'' None (optional (pd_str P)) any_value) (\<lambda>fallback.
      bind_result (field d ''timeout_seconds'' (Fin 8) (pd_float P) (float_ge 1)) (\<lambda>timeout.
      bind_result (field d ''max_attempts'' 2 (pd_int P) (range_bound 1 5)) (\<lambda>attempts.
      bind_result (field d ''max_note_chars'' 12000 (pd_int P) (ge_bound 500)) (\<lambda>chars.
      ensure validate_external_processing \<lparr>ac_enabled = enabled, ac_allow_external = ext, ac_provider = provider,
        ac_allow_defer = defer_ok, ac_command = command, ac_primary_model = primary, ac_fallback_model = fallback,
        ac_timeout = timeout, ac_max_attempts = attempts, ac_max_note_chars = chars\<rparr>)))))))))))"

text \<open>The schema stays a dictionary of dictionaries; only its shape is checked.\<close>

fun string_keys :: "(pyval \<times> 'a) list \<Rightarrow> (string \<times> 'a) list option" where
  "string_keys [] = Some []"
| "string_keys ((PStr k, v) # d) = map_option (\<lambda>r. (k, v) # r) (string_keys d)"
| "string_keys (_ # d) = None"

definition schema_fields :: "pyval \<Rightarrow> (string, (string, pyval) dict) dict option" where
  "schema_fields v = (case v of
      PDict d \<Rightarrow> (case string_keys d of
          None \<Rightarrow> None
        | Some e \<Rightarrow> those (map (\<lambda>(k, x). case x of
              PDict f \<Rightarrow> map_option (Pair k) (string_keys f)
            | _ \<Rightarrow> None) e))
    | _ \<Rightarrow> None)"

definition section_of :: "settings \<Rightarrow> string \<Rightarrow> (settings \<Rightarrow> 'a result) \<Rightarrow> 'a result" where
  "section_of d name build = (case dget d (PStr name) of
      None \<Rightarrow> build []
    | Some (PDict e) \<Rightarrow> build e
    | Some _ \<Rightarrow> invalid)"

record frontmatter_config =
  gc_enabled :: bool
  gc_mode :: string
  gc_allow_extra :: bool
  gc_schema :: "(string, (string, pyval) dict) dict"
  gc_ai :: frontmatter_ai_config

text \<open>The schema is named by its alias \<open>schema\<close>, or by the name of the field when the alias is absent.\<close>

definition build_frontmatter_config :: "pydantic \<Rightarrow> settings \<Rightarrow> frontmatter_config result" where
  "build_frontmatter_config P d = (let schema = (if dhas d (PStr ''schema'') then ''schema'' else ''schema_fields'') in
     model [''enabled'', ''mode'', ''allow_extra_fields'', schema, ''ai''] d
     (bind_result (field d ''enabled'' False (pd_bool P) any_value) (\<lambda>enabled.
      bind_result (field d ''mode'' ''lenient'' (literal [''strict'', ''lenient'', ''warn_only'']) any_value) (\<lambda>mode.
      bind_result (field d ''allow_extra_fields'' True (pd_bool P) any_value) (\<lambda>extra.
      bind_result (field d schema [] schema_fields any_value) (\<lambda>fields_schema.
      bind_result (section_of d ''ai'' (build_frontmatter_ai_config P)) (\<lambda>ai.
      Inr \<lparr>gc_enabled = enabled, gc_mode = mode, gc_allow_extra = extra, gc_schema = fields_schema, gc_ai = ai\<rparr>)))))))"

section \<open>The whole configuration\<close>

record vault_config =
  vc_paths :: paths_config
  vc_search :: search_config
  vc_indexing :: indexing_config
  vc_fts :: "string option"
  vc_prewarm :: prewarm_config
  vc_embedding :: embedding_config
  vc_chunking :: chunking_config
  vc_security :: security_config
  vc_watcher :: watcher_config
  vc_pdf :: pdf_config
  vc_vector_index :: vector_index_config
  vc_navigation :: navigation_config
  vc_daemon :: daemon_config
  vc_frontmatter :: frontmatter_config

definition validate_vector_index :: "vault_config \<Rightarrow> bool" where
  "validate_vector_index c \<longleftrightarrow> \<not> (xc_index_type (vc_vector_index c) = ''IVF_PQ'' \<and>
     ec_dimension (vc_embedding c) mod xc_num_sub_vectors (vc_vector_index c) \<noteq> 0)"

definition build_vault_config :: "pydantic \<Rightarrow> (string \<Rightarrow> ip_address option) \<Rightarrow> settings \<Rightarrow> vault_config result" where
  "build_vault_config P ip d = model [''paths'', ''search'', ''indexing'', ''fts'', ''prewarm'', ''embedding'', ''chunking'',
       ''security'', ''watcher'', ''pdf'', ''vector_index'', ''navigation'', ''daemon'', ''frontmatter''] d
     (bind_result (section_of d ''paths'' (build_paths_config P)) (\<lambda>paths.
      bind_result (section_of d ''search'' (build_search_config P)) (\<lambda>search.
      bind_result (section_of d ''indexing'' (build_indexing_config P)) (\<lambda>indexing.
      bind_result (section_of d ''fts'' (build_fts_config P)) (\<lambda>fts.
      bind_result (section_of d ''prewarm'' (build_prewarm_config P)) (\<lambda>prewarm.
      bind_result (section_of d ''embedding'' (build_embedding_config P)) (\<lambda>embedding.
      bind_result (section_of d ''chunking'' (build_chunking_config P)) (\<lambda>chunking.
      bind_result (section_of d ''security'' (build_security_config P)) (\<lambda>security.
      bind_result (section_of d ''watcher'' (build_watcher_config P)) (\<lambda>watcher.
      bind_result (section_of d ''pdf'' (build_pdf_config P)) (\<lambda>pdf.
      bind_result (section_of d ''vector_index'' (build_vector_index_config P)) (\<lambda>vector_index.
      bind_result (section_of d ''navigation'' (build_navigation_config P)) (\<lambda>navigation.
      bind_result (section_of d ''daemon'' (build_daemon_config P ip)) (\<lambda>daemon.
      bind_result (section_of d ''frontmatter'' (build_frontmatter_config P)) (\<lambda>frontmatter.
      ensure validate_vector_index \<lparr>vc_paths = paths, vc_search = search, vc_indexing = indexing, vc_fts = fts,
        vc_prewarm = prewarm, vc_embedding = embedding, vc_chunking = chunking, vc_security = security,
        vc_watcher = watcher, vc_pdf = pdf, vc_vector_index = vector_index, vc_navigation = navigation,
        vc_daemon = daemon, vc_frontmatter = frontmatter\<rparr>)))))))))))))))"

text \<open>\<open>resolve_paths\<close>: \<open>resolve\<close> is the resolution of a path against the base directory.\<close>

definition resolve_paths :: "(string \<Rightarrow> string) \<Rightarrow> vault_config \<Rightarrow> vault_config" where
  "resolve_paths resolve c = c\<lparr>vc_paths := \<lparr>pc_vault_path = resolve (pc_vault_path (vc_paths c)),
     pc_data_dir = resolve (pc_data_dir (vc_paths c)), pc_lancedb_table = pc_lancedb_table (vc_paths c)\<rparr>\<rparr>"

section \<open>Loading\<close>

text \<open>
  The files: the environment variable, the expansion of \<open>~\<close>, the candidates in their order of
  precedence, which exist, what \<open>yaml.safe_load\<close> makes of a file or what opening or parsing it
  raises, and the resolution of paths against the directory of a file or the current one.
\<close>

record config_files =
  cf_env :: "string option"
  cf_expand :: "string \<Rightarrow> string"
  cf_candidates :: "string list"
  cf_exists :: "string \<Rightarrow> bool"
  cf_load :: "string \<Rightarrow> pyval result"
  cf_resolve :: "string option \<Rightarrow> string \<Rightarrow> string"

definition default_config_paths :: "config_files \<Rightarrow> string list" where
  "default_config_paths F = rev (remdups (rev (cf_candidates F)))"

definition find_config_file :: "config_files \<Rightarrow> string option result" where
  "find_config_file F = (case cf_env F of
      Some (c # cs) \<Rightarrow> (let path = cf_expand F (c # cs) in
        if cf_exists F path then Inr (Some path) else Inl FileNotFoundError)
    | _ \<Rightarrow> Inr (List.find (cf_exists F) (default_config_paths F)))"

text \<open>\<open>_deep_merge\<close>, which nothing calls.\<close>

function deep_merge :: "settings \<Rightarrow> settings \<Rightarrow> settings" where
  "deep_merge base [] = base"
| "deep_merge base ((k, v) # override) = deep_merge (dset k
      (case (dget base k, v) of
         (Some (PDict b), PDict e) \<Rightarrow> PDict (deep_merge b e)
       | _ \<Rightarrow> v) base) override"
  by pat_completeness auto
termination by (relation "measure (\<lambda>(b, e). size_list (size_prod size size) e)") auto

definition model_validate :: "pydantic \<Rightarrow> (string \<Rightarrow> ip_address option) \<Rightarrow> pyval \<Rightarrow> vault_config result" where
  "model_validate P ip v = (if \<not> truthy v then build_vault_config P ip []
     else case v of PDict d \<Rightarrow> build_vault_config P ip d | _ \<Rightarrow> invalid)"

definition load_config_from_file ::
  "pydantic \<Rightarrow> (string \<Rightarrow> ip_address option) \<Rightarrow> config_files \<Rightarrow> string \<Rightarrow> vault_config result" where
  "load_config_from_file P ip F path = bind_result (cf_load F (cf_expand F path)) (\<lambda>data.
     bind_result (model_validate P ip data) (\<lambda>c. Inr (resolve_paths (cf_resolve F (Some (cf_expand F path))) c)))"

text \<open>\<open>get_config\<close>: the first configuration that loads is kept; an exception is not.\<close>

definition get_config ::
  "pydantic \<Rightarrow> (string \<Rightarrow> ip_address option) \<Rightarrow> config_files \<Rightarrow> vault_config option \<Rightarrow> vault_config result \<times> vault_config option" where
  "get_config P ip F cache = (case cache of
      Some c \<Rightarrow> (Inr c, cache)
    | None \<Rightarrow>
        (let r = bind_result (find_config_file F) (\<lambda>path. case path of
             Some p \<Rightarrow> load_config_from_file P ip F p
           | None \<Rightarrow> bind_result (build_vault_config P ip []) (\<lambda>c. Inr (resolve_paths (cf_resolve F None) c))) in
         (r, case r of Inr c \<Rightarrow> Some c | Inl _ \<Rightarrow> None)))"

definition reload_config where
  "reload_config P ip F (cache :: vault_config option) = get_config P ip F None"


section \<open>What an accepted configuration guarantees\<close>

lemma field_cases: "field d name v parse ok = Inr x \<Longrightarrow> x = v \<or> ok x"
  by (auto simp: field_def invalid_def split: option.splits if_splits)

lemma field_kept: "field d name v parse ok = Inr x \<Longrightarrow> ok v \<Longrightarrow> ok x"
  by (drule field_cases) auto

text \<open>In a form that does not split the goal.\<close>

lemma field_ge_bound: "field d name v parse (ge_bound lo) = Inr x \<Longrightarrow> min lo v \<le> x"
  using field_cases by (fastforce simp: ge_bound_def)

lemma field_range_bound: "field d name v parse (range_bound lo hi) = Inr x \<Longrightarrow> min lo v \<le> x \<and> x \<le> max hi v"
  using field_cases by (fastforce simp: range_bound_def)

lemma field_literal: "field d name v (literal ls) ok = Inr x \<Longrightarrow> x \<in> set (v # ls)"
  by (auto simp: field_def invalid_def literal_def split: option.splits if_splits pyval.splits)

lemma field_float_ge: "field d name v parse (float_ge lo) = Inr x \<Longrightarrow> float_ge lo v \<Longrightarrow> float_ge lo x"
  by (rule field_kept)

lemmas field_bounds = field_ge_bound field_range_bound field_literal

lemma model_Inr [simp]: "model names d r = Inr x \<longleftrightarrow> only_fields names d \<and> r = Inr x"
  by (simp add: model_def invalid_def)

lemma ensure_Inr [simp]: "ensure ok x = Inr y \<longleftrightarrow> ok x \<and> y = x"
  by (auto simp: ensure_def invalid_def)

lemma section_of_Inr: "section_of d name build = Inr c \<Longrightarrow> \<exists>e. build e = Inr c"
  by (auto simp: section_of_def invalid_def split: option.splits pyval.splits)

definition valid_search :: "search_config \<Rightarrow> bool" where
  "valid_search c \<longleftrightarrow> 1 \<le> sr_candidates c \<and> sr_candidates c \<le> sr_candidates_max c \<and> 1 \<le> sr_candidates_multiplier c \<and>
     1 \<le> sr_top_k_min c \<and> sr_top_k_min c \<le> sr_top_k c \<and> sr_top_k c \<le> sr_top_k_max c \<and> sr_top_k c \<le> 100 \<and>
     0 \<le> sr_score_precision c \<and> sr_score_precision c \<le> 10 \<and> 1 \<le> sr_list_default c \<and> sr_list_default c \<le> sr_list_max c"

lemma search_config_valid: "build_search_config P d = Inr c \<Longrightarrow> valid_search c"
  by (auto simp: build_search_config_def validate_ranges_def valid_search_def any_value_def
      dest!: field_bounds)

definition valid_indexing :: "indexing_config \<Rightarrow> bool" where
  "valid_indexing c \<longleftrightarrow> 1 \<le> ic_batch_size c \<and> 1 \<le> ic_max_chunks c \<and> validate_extensions (ic_extensions c) \<and>
     validate_ignored_folders (ic_ignored c)"

lemma default_folders: "validate_extensions supported_extensions"
  "validate_ignored_folders [''.obsidian'', ''.smart-env'', ''.trash'', ''.git'']"
  by (simp_all add: validate_extensions_def supported_extensions_def validate_ignored_folders_def)

lemma indexing_config_valid: "build_indexing_config P d = Inr c \<Longrightarrow> valid_indexing c"
  by (auto simp: build_indexing_config_def valid_indexing_def
      dest!: field_bounds field_kept [where ok = validate_extensions, OF _ default_folders(1)]
        field_kept [where ok = validate_ignored_folders, OF _ default_folders(2)])

definition valid_embedding :: "embedding_config \<Rightarrow> bool" where
  "valid_embedding c \<longleftrightarrow> ec_device c \<in> {''auto'', ''cpu'', ''cuda'', ''mps''} \<and> 1 \<le> ec_batch_size c \<and>
     1 \<le> ec_query_max_length c \<and> 1 \<le> ec_corpus_max_length c \<and> 1 \<le> ec_dimension c \<and> 0 \<le> ec_idle_timeout c"

lemma embedding_config_valid: "build_embedding_config P d = Inr c \<Longrightarrow> valid_embedding c"
  by (auto simp: build_embedding_config_def valid_embedding_def dest!: field_bounds)

text \<open>No bound relates the overlap to the size: see \<open>overlap_default_not_checked\<close>.\<close>

definition valid_chunking :: "settings \<Rightarrow> chunking_config \<Rightarrow> bool" where
  "valid_chunking d c \<longleftrightarrow> 100 \<le> cc_size c \<and> 0 \<le> cc_overlap c \<and> 1 \<le> cc_header_levels c \<and> cc_header_levels c \<le> 6 \<and>
     (dhas d (PStr ''overlap'') \<or> \<not> dhas d (PStr ''size'') \<longrightarrow> cc_overlap c < cc_size c)"

lemma field_absent: "field d name v parse ok = Inr x \<Longrightarrow> \<not> dhas d (PStr name) \<Longrightarrow> x = v"
  by (simp add: field_def dhas_def)

lemma field_present: "field d name v parse ok = Inr x \<Longrightarrow> dhas d (PStr name) \<Longrightarrow> ok x"
  by (auto simp: field_def dhas_def invalid_def split: option.splits if_splits)

lemma chunking_config_valid:
  assumes "build_chunking_config P d = Inr c"
  shows "valid_chunking d c"
proof -
  from assms obtain sz ov levels seps where
    f: "field d ''size'' 2000 (pd_int P) (ge_bound 100) = Inr sz"
      "field d ''overlap'' 200 (pd_int P) (\<lambda>v. ge_bound 0 v \<and> overlap_less_than_size sz v) = Inr ov"
      "field d ''header_levels'' 4 (pd_int P) (range_bound 1 6) = Inr levels"
    and c: "c = \<lparr>cc_size = sz, cc_overlap = ov, cc_header_levels = levels, cc_separators = seps\<rparr>"
    by (auto simp: build_chunking_config_def)
  have size_ok: "100 \<le> sz" using field_ge_bound [OF f(1)] by simp
  have "0 \<le> ov" using field_cases [OF f(2)] by (auto simp: ge_bound_def)
  moreover have "ov < sz" if "dhas d (PStr ''overlap'')"
    using field_present [OF f(2) that] by (simp add: overlap_less_than_size_def)
  moreover have "ov < sz" if "\<not> dhas d (PStr ''overlap'')" "\<not> dhas d (PStr ''size'')"
    using field_absent [OF f(2) that(1)] field_absent [OF f(1) that(2)] by simp
  ultimately show ?thesis
    using size_ok field_range_bound [OF f(3)] by (auto simp: valid_chunking_def c)
qed

definition valid_security :: "security_config \<Rightarrow> bool" where
  "valid_security c \<longleftrightarrow> 1 \<le> yc_max_query_length c \<and> 1 \<le> yc_max_content_size c \<and> 1 \<le> yc_max_path_length c \<and>
     1 \<le> yc_max_frontmatter_keys c"

lemma security_config_valid: "build_security_config P d = Inr c \<Longrightarrow> valid_security c"
  by (auto simp: build_security_config_def valid_security_def dest!: field_bounds)

definition valid_vector_index :: "vector_index_config \<Rightarrow> bool" where
  "valid_vector_index c \<longleftrightarrow> 1 \<le> xc_min_chunks c \<and> xc_index_type c \<in> {''IVF_PQ'', ''IVF_HNSW_SQ''} \<and>
     1 \<le> xc_num_sub_vectors c \<and> xc_distance_type c \<in> {''cosine'', ''l2'', ''dot''}"

lemma vector_index_config_valid: "build_vector_index_config P d = Inr c \<Longrightarrow> valid_vector_index c"
  by (auto simp: build_vector_index_config_def valid_vector_index_def dest!: field_bounds)

definition valid_daemon :: "(string \<Rightarrow> ip_address option) \<Rightarrow> daemon_config \<Rightarrow> bool" where
  "valid_daemon ip c \<longleftrightarrow> (mc_host c = ''127.0.0.1'' \<or> is_loopback_host ip (mc_host c)) \<and>
     1 \<le> mc_port c \<and> mc_port c \<le> 65535 \<and> float_ge 1 (mc_timeout c) \<and> 1024 \<le> mc_max_request_bytes c \<and>
     1 \<le> mc_max_texts c \<and> mc_max_texts c \<le> 10000 \<and> 1 \<le> mc_max_text_length c"

lemma daemon_config_valid: "build_daemon_config P ip d = Inr c \<Longrightarrow> valid_daemon ip c"
  by (auto simp: build_daemon_config_def valid_daemon_def validate_loopback_host_def invalid_def
      split: option.splits if_splits dest!: field_bounds field_kept [where ok = "float_ge 1"])

definition valid_navigation :: "navigation_config \<Rightarrow> bool" where
  "valid_navigation c \<longleftrightarrow> 1 \<le> nc_max_depth c \<and> nc_max_depth c \<le> nc_max_depth_limit c"

lemma navigation_config_valid: "build_navigation_config P d = Inr c \<Longrightarrow> valid_navigation c"
  by (auto simp: build_navigation_config_def valid_navigation_def validate_depth_range_def dest!: field_bounds)

definition valid_ai :: "frontmatter_ai_config \<Rightarrow> bool" where
  "valid_ai c \<longleftrightarrow> float_ge 1 (ac_timeout c) \<and> 1 \<le> ac_max_attempts c \<and> ac_max_attempts c \<le> 5 \<and> 500 \<le> ac_max_note_chars c \<and>
     (\<forall>a \<in> set (ac_command c). \<not> contains a ''{prompt}'') \<and>
     (ac_enabled c \<longrightarrow> ac_allow_external c \<and> named (ac_provider c) \<and> named (ac_primary_model c) \<and>
        ac_command c \<noteq> [] \<and> strip (hd (ac_command c)) \<noteq> [])"

lemma frontmatter_ai_config_valid:
  assumes "build_frontmatter_ai_config P d = Inr c"
  shows "valid_ai c"
proof -
  from assms have v: "validate_external_processing c" by (auto simp: build_frontmatter_ai_config_def)
  moreover have "float_ge 1 (ac_timeout c) \<and> 1 \<le> ac_max_attempts c \<and> ac_max_attempts c \<le> 5 \<and> 500 \<le> ac_max_note_chars c"
    using assms by (auto simp: build_frontmatter_ai_config_def dest!: field_bounds field_kept [where ok = "float_ge 1"])
  ultimately show ?thesis
    by (auto simp: valid_ai_def validate_external_processing_def list_ex_iff)
qed


text \<open>What the components of the server ask of the constants they take from the configuration.\<close>

definition valid_config :: "(string \<Rightarrow> ip_address option) \<Rightarrow> vault_config \<Rightarrow> bool" where
  "valid_config ip c \<longleftrightarrow> valid_search (vc_search c) \<and> valid_indexing (vc_indexing c) \<and> valid_embedding (vc_embedding c) \<and>
     100 \<le> cc_size (vc_chunking c) \<and> 0 \<le> cc_overlap (vc_chunking c) \<and> valid_security (vc_security c) \<and>
     valid_vector_index (vc_vector_index c) \<and> validate_vector_index c \<and> valid_navigation (vc_navigation c) \<and>
     valid_daemon ip (vc_daemon c) \<and> valid_ai (gc_ai (vc_frontmatter c))"

lemma frontmatter_config_ai: "build_frontmatter_config P d = Inr g \<Longrightarrow> \<exists>e. build_frontmatter_ai_config P e = Inr (gc_ai g)"
  by (auto simp: build_frontmatter_config_def Let_def dest!: section_of_Inr)

lemma vault_config_valid:
  assumes "build_vault_config P ip d = Inr c"
  shows "valid_config ip c"
proof -
  from assms have parts:
    "\<exists>e. build_search_config P e = Inr (vc_search c)" "\<exists>e. build_indexing_config P e = Inr (vc_indexing c)"
    "\<exists>e. build_embedding_config P e = Inr (vc_embedding c)" "\<exists>e. build_chunking_config P e = Inr (vc_chunking c)"
    "\<exists>e. build_security_config P e = Inr (vc_security c)" "\<exists>e. build_vector_index_config P e = Inr (vc_vector_index c)"
    "\<exists>e. build_navigation_config P e = Inr (vc_navigation c)" "\<exists>e. build_daemon_config P ip e = Inr (vc_daemon c)"
    "\<exists>e. build_frontmatter_config P e = Inr (vc_frontmatter c)" "validate_vector_index c"
    by (auto simp: build_vault_config_def dest: section_of_Inr)
  from parts(9) obtain e where "\<exists>f. build_frontmatter_ai_config P f = Inr (gc_ai (vc_frontmatter c))"
    using frontmatter_config_ai by blast
  with parts search_config_valid indexing_config_valid embedding_config_valid security_config_valid
    vector_index_config_valid navigation_config_valid daemon_config_valid frontmatter_ai_config_valid
    chunking_config_valid show ?thesis
    unfolding valid_config_def valid_chunking_def by metis
qed


lemma model_validate_loaded: "model_validate P ip v = Inr c \<Longrightarrow> \<exists>d. build_vault_config P ip d = Inr c"
  by (cases v) (auto simp: model_validate_def invalid_def split: if_splits)

lemma load_config_loaded:
  "load_config_from_file P ip F p = Inr c \<Longrightarrow> \<exists>c' r d. build_vault_config P ip d = Inr c' \<and> c = resolve_paths r c'"
  using model_validate_loaded by (fastforce simp: load_config_from_file_def)


definition no_files :: config_files where
  "no_files = \<lparr>cf_env = None, cf_expand = (\<lambda>p. p), cf_candidates = [''config.yaml''], cf_exists = (\<lambda>_. False),
     cf_load = (\<lambda>_. Inl FileNotFoundError), cf_resolve = (\<lambda>_ p. p)\<rparr>"

definition sample_pydantic :: pydantic where
  "sample_pydantic = \<lparr>pd_int = (\<lambda>v. case v of PInt n \<Rightarrow> Some n | _ \<Rightarrow> None), pd_float = (\<lambda>_. None),
     pd_bool = (\<lambda>v. case v of PBool b \<Rightarrow> Some b | _ \<Rightarrow> None),
     pd_str = (\<lambda>v. case v of PStr s \<Rightarrow> Some s | _ \<Rightarrow> None), pd_list = (\<lambda>v. case v of PList l \<Rightarrow> Some l | _ \<Rightarrow> None)\<rparr>"

lemmas config_defaults = build_vault_config_def section_of_def build_paths_config_def build_search_config_def build_indexing_config_def
  build_fts_config_def build_prewarm_config_def build_embedding_config_def build_chunking_config_def build_security_config_def build_watcher_config_def
  build_pdf_config_def build_vector_index_config_def build_navigation_config_def build_daemon_config_def build_frontmatter_config_def
  build_frontmatter_ai_config_def

lemma default_config: "\<exists>c. build_vault_config P ip [] = Inr c \<and> sr_top_k (vc_search c) = 10"
proof -
  have [simp]: "model names [] r = r" for names and r :: "'a result"
    by (simp add: model_def only_fields_def)
  have [simp]: "field [] name v parse ok = Inr v" for name and v :: 'a and parse ok
    by (simp add: field_def)
  show ?thesis
    by (simp add: config_defaults ensure_def validate_ranges_def validate_depth_range_def
      validate_external_processing_def validate_vector_index_def dhas_def Let_def)
qed


text \<open>The constants of \<open>config/search.py\<close> and \<open>config/security.py\<close> that the searches use.\<close>

definition search_conf_of :: "vault_config \<Rightarrow> search_conf" where
  "search_conf_of c = \<lparr>sc_candidates = sr_candidates (vc_search c), sc_candidates_max = sr_candidates_max (vc_search c),
     sc_candidates_multiplier = sr_candidates_multiplier (vc_search c), sc_precision = nat (sr_score_precision (vc_search c))\<rparr>"

definition tool_conf_of :: "vault_config \<Rightarrow> tool_conf" where
  "tool_conf_of c = \<lparr>tc_top_k_min = sr_top_k_min (vc_search c), tc_top_k_max = sr_top_k_max (vc_search c),
     tc_max_query = nat (yc_max_query_length (vc_security c)), tc_extensions = ic_extensions (vc_indexing c)\<rparr>"

text \<open>With an accepted configuration a search tool asks for at least one result and at most the
  configured maximum, whatever the client passes, and fetches at least that many candidates
  unless the configured maximum of candidates is smaller.\<close>

theorem configured_search_limits:
  assumes "build_vault_config P ip d = Inr c"
  shows "let k = clamp_top_k (tool_conf_of c) top_k in
    1 \<le> k \<and> k \<le> sr_top_k_max (vc_search c) \<and>
    (k \<le> sr_candidates_max (vc_search c) \<longrightarrow> k \<le> compute_candidates (search_conf_of c) k) \<and>
    compute_candidates (search_conf_of c) k \<le> sr_candidates_max (vc_search c)"
proof -
  define k where "k = clamp_top_k (tool_conf_of c) top_k"
  have v: "valid_search (vc_search c)" using vault_config_valid [OF assms] by (simp add: valid_config_def)
  then have k: "1 \<le> k" "k \<le> sr_top_k_max (vc_search c)"
    by (auto simp: k_def clamp_top_k_def tool_conf_of_def valid_search_def)
  have "1 \<le> sr_candidates_multiplier (vc_search c)" using v by (simp add: valid_search_def)
  then have "k \<le> k * sr_candidates_multiplier (vc_search c)"
    using k(1) mult_left_mono [of 1 "sr_candidates_multiplier (vc_search c)" k] by simp
  with k show ?thesis
    unfolding k_def [symmetric] Let_def by (auto simp: compute_candidates_def search_conf_of_def le_max_iff_disj)
qed

theorem configured_search_limits_witness:
  "\<exists>c. build_vault_config sample_pydantic (\<lambda>_. None) [] = Inr c \<and> 1 \<le> clamp_top_k (tool_conf_of c) (- 5)"
proof -
  obtain c where c: "build_vault_config sample_pydantic (\<lambda>_. None) [] = Inr c" using default_config by blast
  from configured_search_limits [OF c, of "- 5"] c show ?thesis unfolding Let_def by blast
qed

text \<open>The default overlap is not checked against a configured size.\<close>

theorem overlap_default_not_checked:
  assumes "pd_int P (PInt 150) = Some 150"
  shows "\<exists>c. build_chunking_config P [(PStr ''size'', PInt 150)] = Inr c \<and> cc_size c < cc_overlap c"
  using assms
  by (simp add: build_chunking_config_def model_def only_fields_def field_def ge_bound_def)

text \<open>A number of workers that no thread pool accepts passes.\<close>

theorem workers_not_checked:
  assumes "pd_int P (PInt (- 1)) = Some (- 1)"
  shows "\<exists>c. build_indexing_config P [(PStr ''workers'', PInt (- 1))] = Inr c \<and> ic_workers c = Some (- 1)"
  using assms
  by (simp add: build_indexing_config_def model_def only_fields_def field_def optional_def any_value_def)


section \<open>Effective paths and devices\<close>

text \<open>\<open>config/paths.py\<close>: the environment variables override the vault and the data directory; an
  empty one counts as absent.\<close>

definition env_or :: "string option \<Rightarrow> string \<Rightarrow> string" where
  "env_or x y = (case x of Some (c # cs) \<Rightarrow> c # cs | _ \<Rightarrow> y)"

definition load_paths ::
  "(string \<Rightarrow> string) \<Rightarrow> (string \<Rightarrow> string option) \<Rightarrow> vault_config \<Rightarrow> string \<times> string \<times> string" where
  "load_paths resolve env c =
     (let vault = env_or (env ''VAULT_SEARCH_VAULT_PATH'')
            (env_or (env ''VAULT_PATH'') (pc_vault_path (vc_paths c)));
          data_dir = env_or (env ''VAULT_SEARCH_DATA_DIR'') (pc_data_dir (vc_paths c)) in
      (resolve vault, resolve data_dir, pc_lancedb_table (vc_paths c)))"

text \<open>\<open>config/embedding.py\<close>: \<open>torch\<close> is absent, or answers which accelerators are available.\<close>

definition resolve_model_device :: "string option \<Rightarrow> string \<Rightarrow> (bool \<times> bool) option \<Rightarrow> string" where
  "resolve_model_device configured model_device torch =
     (let requested = env_or configured model_device in
      if requested \<noteq> ''auto'' then requested
      else case torch of
        None \<Rightarrow> ''cpu''
      | Some (cuda, mps) \<Rightarrow> if cuda then ''cuda'' else if mps then ''mps'' else ''cpu'')"

definition resolve_fp16 :: "string \<Rightarrow> bool option \<Rightarrow> bool option \<Rightarrow> bool" where
  "resolve_fp16 device model_fp16 configured =
     (case (case configured of None \<Rightarrow> model_fp16 | Some b \<Rightarrow> Some b) of
        None \<Rightarrow> device \<in> {''cuda'', ''mps''}
      | Some b \<Rightarrow> b \<and> device \<noteq> ''cpu'')"

end
