(* ===== verification/Shutdown.thy ===== *)
theory Shutdown
  imports Prelude "HOL-Library.Sublist"
begin

text \<open>
  Graceful shutdown, \<open>utils/shutdown.py\<close>.  The first half is the state of the manager and the
  threads that may call it: the callers of \<open>shutdown\<close>, the thread of the callbacks, the signal
  handler and the atexit handler, as a transition system whose steps are the critical sections
  of the code.  The second half is \<open>DelayedKeyboardInterrupt\<close>: dispositions of signals, the
  handlers that a protected section installs, and the delivery of signals to programs in which
  sections are nested.
\<close>

section \<open>Signals and their dispositions\<close>

datatype signal_no = SIGINT | SIGTERM

fun signum :: "signal_no \<Rightarrow> nat" where
  "signum SIGINT = 2"
| "signum SIGTERM = 15"

text \<open>Callables that can handle a signal: \<open>signal.default_int_handler\<close>, the manager's handler,
  the bound method \<open>_handler\<close> of the n-th delaying object, any other function of the program.\<close>

datatype callable = Default_int | Manager | Delayed nat | Function nat

datatype sig_handler = Callable callable | SIG_DFL | SIG_IGN | Not_Python

section \<open>The state of the manager\<close>

record 'cb shutdown_state =
  sd_requested :: bool
  sd_in_progress :: bool
  sd_callbacks :: "'cb list"
  sd_original_handlers :: "(signal_no, sig_handler) dict"
  sd_initialized :: bool

definition new_shutdown_state :: "'cb shutdown_state" where
  "new_shutdown_state = \<lparr>sd_requested = False, sd_in_progress = False, sd_callbacks = [],
     sd_original_handlers = [], sd_initialized = False\<rparr>"

definition request_shutdown :: "'cb shutdown_state \<Rightarrow> 'cb shutdown_state" where
  "request_shutdown s = s\<lparr>sd_requested := True\<rparr>"

definition try_start_shutdown :: "'cb shutdown_state \<Rightarrow> bool \<times> 'cb shutdown_state" where
  "try_start_shutdown s = (if sd_in_progress s then (False, s) else (True, s\<lparr>sd_in_progress := True\<rparr>))"

definition register_callback :: "'cb \<Rightarrow> 'cb shutdown_state \<Rightarrow> 'cb shutdown_state" where
  "register_callback c s =
     (if c \<in> set (sd_callbacks s) then s else s\<lparr>sd_callbacks := sd_callbacks s @ [c]\<rparr>)"

definition unregister_callback :: "'cb \<Rightarrow> 'cb shutdown_state \<Rightarrow> 'cb shutdown_state" where
  "unregister_callback c s =
     (if c \<in> set (sd_callbacks s) then s\<lparr>sd_callbacks := remove1 c (sd_callbacks s)\<rparr> else s)"

text \<open>A callback returns, raises an \<open>Exception\<close>, or raises another \<open>BaseException\<close>
  (\<open>SystemExit\<close>), which \<open>except Exception\<close> does not catch.\<close>

datatype callback_end = Returns | Raises | Exits

text \<open>The loop of \<open>run_callbacks\<close> over the reversed copy: the callbacks called, and whether it
  ended.\<close>

fun run_loop :: "('cb \<Rightarrow> callback_end) \<Rightarrow> 'cb list \<Rightarrow> 'cb list \<times> bool" where
  "run_loop out [] = ([], True)"
| "run_loop out (c # cs) = (case out c of
      Exits \<Rightarrow> ([c], False)
    | _ \<Rightarrow> (let (called, ended) = run_loop out cs in (c # called, ended)))"

definition run_callbacks :: "('cb \<Rightarrow> callback_end) \<Rightarrow> 'cb shutdown_state \<Rightarrow> 'cb list \<times> bool" where
  "run_callbacks out s = run_loop out (rev (sd_callbacks s))"

section \<open>The threads\<close>

text \<open>Where a caller of \<open>ShutdownManager.shutdown\<close> is.\<close>

datatype caller = Entered | Won | Requested | Joining | Completed | Timed_out | Lost

text \<open>Where the thread of the callbacks is; the first list is the copy of the callbacks it took,
  the last one those still to call.\<close>

datatype 'cb cb_thread =
    Unstarted
  | Started
  | Looping "'cb list" "'cb list"
  | In_call "'cb list" 'cb "'cb list"
  | Finished "'cb list"
  | Died "'cb list"

record 'cb process =
  pr_state :: "'cb shutdown_state"
  pr_callers :: "caller list"
  pr_thread :: "'cb cb_thread"
  pr_called :: "'cb list"
  pr_exits :: "nat list"

definition new_process :: "'cb process" where
  "new_process = \<lparr>pr_state = new_shutdown_state, pr_callers = [], pr_thread = Unstarted,
     pr_called = [], pr_exits = []\<rparr>"

text \<open>\<open>_signal_handler\<close>: \<open>sys.exit\<close> is recorded, a new thread starts to call \<open>shutdown\<close>.\<close>

definition signal_handler :: "signal_no \<Rightarrow> 'cb process \<Rightarrow> 'cb process" where
  "signal_handler sig p = (let p = p\<lparr>pr_state := request_shutdown (pr_state p)\<rparr> in
     if sd_in_progress (pr_state p) then p\<lparr>pr_exits := pr_exits p @ [128 + signum sig]\<rparr>
     else p\<lparr>pr_callers := pr_callers p @ [Entered]\<rparr>)"

definition atexit_handler :: "'cb process \<Rightarrow> 'cb process" where
  "atexit_handler p =
     (if sd_in_progress (pr_state p) then p else p\<lparr>pr_callers := pr_callers p @ [Entered]\<rparr>)"

inductive shutdown_step :: "'cb process \<Rightarrow> 'cb process \<Rightarrow> bool" where
  register: "shutdown_step p (p\<lparr>pr_state := register_callback c (pr_state p)\<rparr>)"
| unregister: "shutdown_step p (p\<lparr>pr_state := unregister_callback c (pr_state p)\<rparr>)"
| request: "shutdown_step p (p\<lparr>pr_state := request_shutdown (pr_state p)\<rparr>)"
| signal: "shutdown_step p (signal_handler sig p)"
| atexit: "shutdown_step p (atexit_handler p)"
| call: "shutdown_step p (p\<lparr>pr_callers := pr_callers p @ [Entered]\<rparr>)"
| try_start: "i < length (pr_callers p) \<Longrightarrow> pr_callers p ! i = Entered \<Longrightarrow>
    try_start_shutdown (pr_state p) = (ok, s) \<Longrightarrow>
    shutdown_step p (p\<lparr>pr_state := s, pr_callers := (pr_callers p)[i := if ok then Won else Lost]\<rparr>)"
| mark: "i < length (pr_callers p) \<Longrightarrow> pr_callers p ! i = Won \<Longrightarrow>
    shutdown_step p (p\<lparr>pr_state := request_shutdown (pr_state p), pr_callers := (pr_callers p)[i := Requested]\<rparr>)"
| start_thread: "i < length (pr_callers p) \<Longrightarrow> pr_callers p ! i = Requested \<Longrightarrow>
    shutdown_step p (p\<lparr>pr_thread := Started, pr_callers := (pr_callers p)[i := Joining]\<rparr>)"
| copy: "pr_thread p = Started \<Longrightarrow>
    shutdown_step p (p\<lparr>pr_thread := Looping (sd_callbacks (pr_state p)) (rev (sd_callbacks (pr_state p)))\<rparr>)"
| enter_call: "pr_thread p = Looping cs (c # rest) \<Longrightarrow>
    shutdown_step p (p\<lparr>pr_thread := In_call cs c rest, pr_called := pr_called p @ [c]\<rparr>)"
| leave_call: "pr_thread p = In_call cs c rest \<Longrightarrow>
    shutdown_step p (p\<lparr>pr_thread := (case out of Exits \<Rightarrow> Died cs | _ \<Rightarrow> Looping cs rest)\<rparr>)"
| end_loop: "pr_thread p = Looping cs [] \<Longrightarrow> shutdown_step p (p\<lparr>pr_thread := Finished cs\<rparr>)"
| joined: "i < length (pr_callers p) \<Longrightarrow> pr_callers p ! i = Joining \<Longrightarrow>
    (\<exists>cs. pr_thread p = Finished cs \<or> pr_thread p = Died cs) \<Longrightarrow>
    shutdown_step p (p\<lparr>pr_callers := (pr_callers p)[i := Completed]\<rparr>)"
| timed_out: "i < length (pr_callers p) \<Longrightarrow> pr_callers p ! i = Joining \<Longrightarrow>
    (\<nexists>cs. pr_thread p = Finished cs \<or> pr_thread p = Died cs) \<Longrightarrow>
    shutdown_step p (p\<lparr>pr_callers := (pr_callers p)[i := Timed_out]\<rparr>)"

text \<open>The callers that won the transition, and how far the callbacks are.\<close>

fun past_start :: "caller \<Rightarrow> bool" where
  "past_start c = (c \<in> {Won, Requested, Joining, Completed, Timed_out})"

definition winners :: "'cb process \<Rightarrow> caller list" where
  "winners p = filter past_start (pr_callers p)"

fun thread_ended :: "'cb cb_thread \<Rightarrow> bool" where
  "thread_ended (Finished cs) = True"
| "thread_ended (Died cs) = True"
| "thread_ended _ = False"

fun thread_ok :: "'cb list \<Rightarrow> 'cb cb_thread \<Rightarrow> bool" where
  "thread_ok called Unstarted = (called = [])"
| "thread_ok called Started = (called = [])"
| "thread_ok called (Looping cs rest) = (distinct cs \<and> called @ rest = rev cs)"
| "thread_ok called (In_call cs c rest) =
     (distinct cs \<and> called @ rest = rev cs \<and> called \<noteq> [] \<and> last called = c)"
| "thread_ok called (Finished cs) = (distinct cs \<and> called = rev cs)"
| "thread_ok called (Died cs) = (distinct cs \<and> called \<noteq> [] \<and> prefix called (rev cs))"

fun winner_ok :: "'cb process \<Rightarrow> caller list \<Rightarrow> bool" where
  "winner_ok p [] = (\<not> sd_in_progress (pr_state p) \<and> pr_thread p = Unstarted \<and> pr_exits p = [])"
| "winner_ok p [w] = (sd_in_progress (pr_state p) \<and>
     (pr_thread p = Unstarted \<longleftrightarrow> w \<in> {Won, Requested}) \<and>
     (w \<noteq> Won \<longrightarrow> sd_requested (pr_state p)) \<and> (w = Completed \<longrightarrow> thread_ended (pr_thread p)))"
| "winner_ok p (w # v # ws) = False"

definition shutdown_inv :: "'cb process \<Rightarrow> bool" where
  "shutdown_inv p \<longleftrightarrow> distinct (sd_callbacks (pr_state p)) \<and> winner_ok p (winners p) \<and>
     thread_ok (pr_called p) (pr_thread p)"

lemma filter_update_new:
  assumes "filter P xs = []" "i < length xs" "P y"
  shows "filter P (xs[i := y]) = [y]"
proof -
  from assms(1) have "\<And>x. x \<in> set xs \<Longrightarrow> \<not> P x" by (simp add: filter_empty_conv)
  then have "filter P (take i xs) = []" "filter P (drop (Suc i) xs) = []"
    by (auto simp: filter_empty_conv dest: in_set_takeD in_set_dropD)
  with assms show ?thesis by (simp add: upd_conv_take_nth_drop)
qed

lemma filter_update_same:
  assumes "\<not> P (xs ! i)" "\<not> P y"
  shows "filter P (xs[i := y]) = filter P xs"
proof (cases "i < length xs")
  case True
  then have "filter P xs = filter P (take i xs @ xs ! i # drop (Suc i) xs)"
    by (simp add: id_take_nth_drop [symmetric])
  with True assms show ?thesis by (simp add: upd_conv_take_nth_drop)
qed (simp add: list_update_beyond)

lemma filter_update_one:
  assumes one: "filter P xs = [w]" and i: "i < length xs" "P (xs ! i)"
  shows "xs ! i = w" and "filter P (xs[i := y]) = (if P y then [y] else [])"
proof -
  have "filter P (take i xs @ xs ! i # drop (Suc i) xs) = [w]"
    using one i(1) by (simp add: id_take_nth_drop [symmetric])
  then have e: "filter P (take i xs) = []" "filter P (drop (Suc i) xs) = []" "xs ! i = w"
    using i(2) by (auto simp: append_eq_Cons_conv)
  then show "xs ! i = w" "filter P (xs[i := y]) = (if P y then [y] else [])"
    using i(1) by (simp_all add: upd_conv_take_nth_drop)
qed

lemma winner_at:
  assumes ok: "winner_ok p (winners p)" and i: "i < length (pr_callers p)" "past_start (pr_callers p ! i)"
  shows "winners p = [pr_callers p ! i]"
proof -
  have "pr_callers p ! i \<in> set (winners p)" using i by (simp add: winners_def del: past_start.simps)
  then obtain w ws where w: "winners p = w # ws" by (cases "winners p") auto
  with ok have "ws = []" by (cases ws) simp_all
  with w filter_update_one(1) [of past_start "pr_callers p" w i] i show ?thesis
    by (simp add: winners_def)
qed

lemma winners_update:
  assumes "winner_ok p (winners p)" "i < length (pr_callers p)" "past_start (pr_callers p ! i)" "past_start y"
  shows "filter past_start ((pr_callers p)[i := y]) = [y]"
  using filter_update_one(2) [of past_start "pr_callers p" "pr_callers p ! i" i y] winner_at [OF assms(1-3)] assms
  by (simp add: winners_def del: past_start.simps)

lemma winner_shape: "winner_ok p ws \<Longrightarrow> ws = [] \<or> (\<exists>w. ws = [w])"
  by (induction p ws rule: winner_ok.induct) simp_all

lemma shutdown_inv_step:
  assumes inv: "shutdown_inv p" and step: "shutdown_step p q"
  shows "shutdown_inv q"
  using step
proof cases
  case (register c)
  with inv winner_shape [of p "winners p"] show ?thesis
    by (auto simp: shutdown_inv_def register_callback_def winners_def)
next
  case (unregister c)
  with inv winner_shape [of p "winners p"] show ?thesis
    by (auto simp: shutdown_inv_def unregister_callback_def winners_def)
next
  case request
  with inv winner_shape [of p "winners p"] show ?thesis
    by (auto simp: shutdown_inv_def request_shutdown_def winners_def)
next
  case (signal sig)
  with inv winner_shape [of p "winners p"] show ?thesis
    by (auto simp: shutdown_inv_def signal_handler_def request_shutdown_def winners_def Let_def)
next
  case atexit
  with inv winner_shape [of p "winners p"] show ?thesis
    by (auto simp: shutdown_inv_def atexit_handler_def winners_def)
next
  case call
  with inv winner_shape [of p "winners p"] show ?thesis
    by (auto simp: shutdown_inv_def winners_def)
next
  case copy
  with inv winner_shape [of p "winners p"] show ?thesis
    by (auto simp: shutdown_inv_def winners_def)
next
  case (enter_call cs c rest)
  with inv winner_shape [of p "winners p"] show ?thesis
    by (auto simp: shutdown_inv_def winners_def)
next
  case (leave_call cs c rest out)
  then have "prefix (pr_called p) (rev cs)" if "pr_called p @ rest = rev cs"
    using that by (metis prefixI)
  with leave_call inv winner_shape [of p "winners p"] show ?thesis
    by (auto simp: shutdown_inv_def winners_def split: callback_end.splits)
next
  case (end_loop cs)
  with inv winner_shape [of p "winners p"] show ?thesis
    by (auto simp: shutdown_inv_def winners_def)
next
  case (try_start i ok s)
  have P: "\<not> past_start (pr_callers p ! i)" by (simp add: try_start)
  show ?thesis
  proof (cases "sd_in_progress (pr_state p)")
    case True
    with try_start have "ok = False" "s = pr_state p" by (auto simp: try_start_shutdown_def)
    with inv try_start(1) filter_update_same [of past_start "pr_callers p" i, OF P, of Lost] show ?thesis
      by (cases "winners p" rule: list.exhaust; cases "tl (winners p)")
        (auto simp: shutdown_inv_def winners_def)
  next
    case False
    with try_start have s: "ok = True" "s = pr_state p\<lparr>sd_in_progress := True\<rparr>"
      by (auto simp: try_start_shutdown_def)
    have e: "winners p = []"
      using False inv by (cases "winners p"; cases "tl (winners p)") (auto simp: shutdown_inv_def)
    then have "filter past_start ((pr_callers p)[i := Won]) = [Won]"
      using filter_update_new [of past_start "pr_callers p" i Won] try_start by (simp add: winners_def)
    with inv e s try_start(1) show ?thesis by (auto simp: shutdown_inv_def winners_def)
  qed
next
  case (mark i)
  with inv winner_at [of p i] winners_update [of p i Requested] show ?thesis
    by (auto simp: shutdown_inv_def winners_def request_shutdown_def)
next
  case (start_thread i)
  with inv winner_at [of p i] winners_update [of p i Joining] show ?thesis
    by (auto simp: shutdown_inv_def winners_def)
next
  case (joined i)
  with inv winner_at [of p i] winners_update [of p i Completed] show ?thesis
    by (auto simp: shutdown_inv_def winners_def)
next
  case (timed_out i)
  with inv winner_at [of p i] winners_update [of p i Timed_out] show ?thesis
    by (auto simp: shutdown_inv_def winners_def)
qed

interpretation shutdown: invariant_system "\<lambda>p. p = new_process" shutdown_step shutdown_inv
proof
  show "shutdown_inv p" if "p = new_process" for p :: "'a process"
    using that by (simp add: shutdown_inv_def new_process_def new_shutdown_state_def winners_def)
qed (rule shutdown_inv_step)


section \<open>What the threads guarantee\<close>

lemma called_distinct: "thread_ok called t \<Longrightarrow> distinct called"
proof (cases t)
  case (Looping cs rest)
  moreover assume "thread_ok called t"
  ultimately have "distinct (called @ rest)" by (metis distinct_rev thread_ok.simps(3))
  then show ?thesis by simp
next
  case (In_call cs c rest)
  moreover assume "thread_ok called t"
  ultimately have "distinct (called @ rest)" by (metis distinct_rev thread_ok.simps(4))
  then show ?thesis by simp
next
  case (Died cs)
  moreover assume "thread_ok called t"
  ultimately obtain zs where "distinct (called @ zs)"
    by (metis distinct_rev prefixE thread_ok.simps(6))
  then show ?thesis by simp
qed simp_all

lemma called_finished: "thread_ok called (Finished cs) \<Longrightarrow> called = rev cs"
  by simp

text \<open>C17. However many signals, threads and exit handlers ask for it, one caller at most performs
  the shutdown; it calls no callback twice, none before the shutdown is requested, and when its
  loop ends it has called all of those registered at its start, the last one first.\<close>

theorem shutdown_runs_callbacks_once:
  assumes "reachable (\<lambda>p. p = new_process) shutdown_step p"
  shows "length (winners p) \<le> 1 \<and> distinct (pr_called p) \<and>
    (pr_called p \<noteq> [] \<longrightarrow> sd_requested (pr_state p) \<and> sd_in_progress (pr_state p)) \<and>
    (\<forall>cs. pr_thread p = Finished cs \<longrightarrow> pr_called p = rev cs)"
proof -
  have inv: "shutdown_inv p" by (rule shutdown.inv_reachable [OF assms])
  then have ok: "winner_ok p (winners p)" "thread_ok (pr_called p) (pr_thread p)"
    by (simp_all add: shutdown_inv_def)
  from ok(1) winner_shape have "winners p = [] \<or> (\<exists>w. winners p = [w])" by blast
  then have "length (winners p) \<le> 1" by auto
  moreover have "sd_requested (pr_state p) \<and> sd_in_progress (pr_state p)" if "pr_called p \<noteq> []"
    using \<open>winners p = [] \<or> (\<exists>w. winners p = [w])\<close> ok that by auto
  moreover have "distinct (pr_called p)" by (rule called_distinct [OF ok(2)])
  moreover have "pr_called p = rev cs" if "pr_thread p = Finished cs" for cs
    using ok(2) that by simp
  ultimately show ?thesis by blast
qed

text \<open>The thread of the callbacks follows \<open>run_loop\<close>.\<close>

lemma steps_run_loop:
  assumes "pr_thread p = Looping cs rest"
  shows "shutdown_step\<^sup>*\<^sup>* p (p\<lparr>pr_thread := (if snd (run_loop out rest) then Finished cs else Died cs),
    pr_called := pr_called p @ fst (run_loop out rest)\<rparr>)"
  using assms
proof (induction rest arbitrary: p)
  case Nil
  from end_loop [OF Nil] show ?case by simp
next
  case (Cons c rest)
  let ?p = "p\<lparr>pr_thread := In_call cs c rest, pr_called := pr_called p @ [c]\<rparr>"
  let ?t = "case out c of Exits \<Rightarrow> Died cs | _ \<Rightarrow> Looping cs rest"
  have a: "shutdown_step p ?p" by (rule enter_call [OF Cons.prems])
  have "shutdown_step ?p (?p\<lparr>pr_thread := ?t\<rparr>)" by (rule leave_call [where rest = rest and c = c]) simp
  with a have ab: "shutdown_step\<^sup>*\<^sup>* p (?p\<lparr>pr_thread := ?t\<rparr>)" by (meson converse_rtranclp_into_rtranclp rtranclp.rtrancl_refl)
  show ?case
  proof (cases "out c = Exits")
    case True
    with ab show ?thesis by (cases p) simp
  next
    case False
    then have t: "?t = Looping cs rest" by (cases "out c") simp_all
    have "shutdown_step\<^sup>*\<^sup>* (?p\<lparr>pr_thread := Looping cs rest\<rparr>)
      (p\<lparr>pr_thread := (if snd (run_loop out rest) then Finished cs else Died cs),
         pr_called := pr_called p @ c # fst (run_loop out rest)\<rparr>)"
      using Cons.IH [of "?p\<lparr>pr_thread := Looping cs rest\<rparr>"] by simp
    moreover have "run_loop out (c # rest) = (c # fst (run_loop out rest), snd (run_loop out rest))"
      using False by (cases "out c") (simp_all add: case_prod_unfold Let_def)
    ultimately show ?thesis using ab t by simp
  qed
qed

lemma run_loop_all: "\<forall>c\<in>set cs. out c \<noteq> Exits \<Longrightarrow> run_loop out cs = (cs, True)"
  by (induction cs) (auto split: callback_end.splits)

lemma shutdown_call_completes:
  assumes idle: "\<not> sd_in_progress (pr_state p)" and thread: "pr_called p = []"
    and safe: "\<forall>c\<in>set (sd_callbacks (pr_state p)). out c \<noteq> Exits"
  shows "\<exists>q. shutdown_step\<^sup>*\<^sup>* p q \<and> pr_callers q = pr_callers p @ [Completed] \<and>
    pr_called q = fst (run_callbacks out (pr_state p)) \<and> pr_called q = rev (sd_callbacks (pr_state p))"
proof -
  let ?n = "length (pr_callers p)" and ?s = "pr_state p" and ?cs = "sd_callbacks (pr_state p)"
  let ?s1 = "?s\<lparr>sd_in_progress := True\<rparr>" and ?s2 = "?s\<lparr>sd_in_progress := True, sd_requested := True\<rparr>"
  let ?p1 = "p\<lparr>pr_callers := pr_callers p @ [Entered]\<rparr>"
  let ?p2 = "p\<lparr>pr_state := ?s1, pr_callers := pr_callers p @ [Won]\<rparr>"
  let ?p3 = "p\<lparr>pr_state := ?s2, pr_callers := pr_callers p @ [Requested]\<rparr>"
  let ?p4 = "p\<lparr>pr_state := ?s2, pr_callers := pr_callers p @ [Joining], pr_thread := Started\<rparr>"
  let ?p5 = "?p4\<lparr>pr_thread := Looping ?cs (rev ?cs)\<rparr>"
  let ?p6 = "?p4\<lparr>pr_thread := Finished ?cs, pr_called := rev ?cs\<rparr>"
  let ?p7 = "?p6\<lparr>pr_callers := pr_callers p @ [Completed]\<rparr>"
  have "shutdown_step p ?p1" by (rule call)
  moreover have "shutdown_step ?p1 ?p2"
    using try_start [of ?n ?p1 True ?s1] idle by (simp add: try_start_shutdown_def)
  moreover have "shutdown_step ?p2 ?p3" using mark [of ?n ?p2] by (simp add: request_shutdown_def)
  moreover have "shutdown_step ?p3 ?p4" using start_thread [of ?n ?p3] by (cases p) simp
  moreover have "shutdown_step ?p4 ?p5" using copy [of ?p4] by simp
  moreover have "shutdown_step\<^sup>*\<^sup>* ?p5 ?p6"
    using steps_run_loop [of ?p5 ?cs "rev ?cs" out] run_loop_all [of "rev ?cs" out] safe thread by simp
  moreover have "shutdown_step ?p6 ?p7" using joined [of ?n ?p6] by simp
  ultimately have "shutdown_step\<^sup>*\<^sup>* p ?p7"
    by (meson converse_rtranclp_into_rtranclp rtranclp.rtrancl_into_rtrancl)
  moreover have "fst (run_callbacks out ?s) = rev ?cs"
    using run_loop_all [of "rev ?cs" out] safe by (simp add: run_callbacks_def)
  ultimately show ?thesis by (intro exI [of _ ?p7]) simp
qed

lemma idle_not_called:
  assumes "reachable (\<lambda>p. p = new_process) shutdown_step p" "\<not> sd_in_progress (pr_state p)"
  shows "pr_called p = []"
proof -
  have inv: "shutdown_inv p" by (rule shutdown.inv_reachable [OF assms(1)])
  with winner_shape [of p "winners p"] assms(2) show ?thesis by (auto simp: shutdown_inv_def)
qed

text \<open>C25. As long as no shutdown has started, a call of \<open>shutdown\<close> can run to completion from
  whatever state the program is in, and then every registered callback has run, also when
  callbacks raise exceptions, as long as none leaves with \<open>SystemExit\<close>.\<close>

theorem shutdown_can_complete:
  assumes "reachable (\<lambda>p. p = new_process) shutdown_step p"
    and "\<not> sd_in_progress (pr_state p)"
    and "\<forall>c\<in>set (sd_callbacks (pr_state p)). out c \<noteq> Exits"
  shows "\<exists>q. shutdown_step\<^sup>*\<^sup>* p q \<and> pr_callers q = pr_callers p @ [Completed] \<and>
    pr_called q = fst (run_callbacks out (pr_state p)) \<and> pr_called q = rev (sd_callbacks (pr_state p))"
  using shutdown_call_completes [OF assms(2) idle_not_called [OF assms(1,2)] assms(3)] .

definition sample_process :: "nat process" where
  "sample_process = new_process\<lparr>pr_state := new_shutdown_state\<lparr>sd_callbacks := [5, 7]\<rparr>\<rparr>"

lemma sample_reachable: "reachable (\<lambda>p. p = new_process) shutdown_step sample_process"
proof -
  let ?p = "new_process\<lparr>pr_state := register_callback 5 new_shutdown_state\<rparr> :: nat process"
  have "reachable (\<lambda>p. p = new_process) shutdown_step ?p"
    by (rule reach_step [of _ _ new_process, OF reach_init])
      (use register [of new_process 5] in \<open>simp_all add: new_process_def\<close>)
  then show ?thesis
    by (rule reach_step) (use register [of ?p 7] in \<open>simp add: sample_process_def new_process_def register_callback_def new_shutdown_state_def\<close>)
qed

theorem shutdown_runs_callbacks_once_witness:
  "length (winners sample_process) \<le> 1 \<and> distinct (pr_called sample_process)"
  using shutdown_runs_callbacks_once [OF sample_reachable] by blast

theorem shutdown_can_complete_witness:
  "\<exists>q. shutdown_step\<^sup>*\<^sup>* sample_process q \<and> pr_callers q = [Completed] \<and> pr_called q = [7, 5]"
  using shutdown_can_complete [OF sample_reachable, of "\<lambda>_. Raises"]
  by (auto simp: sample_process_def new_process_def new_shutdown_state_def)

end
