(* ===== verification/Delayed_Signals.thy ===== *)
theory Delayed_Signals
  imports Shutdown Complex_Main
begin

text \<open>
  \<open>DelayedKeyboardInterrupt\<close> and the installation of the manager's handlers,
  \<open>utils/shutdown.py\<close>: the dispositions of the two signals, the delaying objects, the delivery
  of signals to a program in which protected sections nest, the replay of the last signal.
\<close>

section \<open>Handlers\<close>

text \<open>\<open>DelayedKeyboardInterrupt\<close> objects; the frame is left out.\<close>

record delayed =
  dl_signal :: "signal_no option"
  dl_old_handlers :: "(signal_no, sig_handler) dict"

text \<open>The main thread: dispositions, objects in the order of their creation, the handlers called,
  the state of the shutdown manager.\<close>

record main_thread =
  mt_disposition :: "signal_no \<Rightarrow> sig_handler"
  mt_delayed :: "delayed list"
  mt_handled :: "(callable \<times> signal_no) list"

text \<open>How a piece of the program ends: normally, with \<open>KeyboardInterrupt\<close>, with another
  exception, or with the death of the process by the default action of a signal.\<close>

datatype ending = Normal | Keyboard_interrupt | Error pyexn | Killed

text \<open>\<open>signal.signal\<close>: outside the main thread of the interpreter it raises \<open>ValueError\<close>, \<open>None\<close> is
  not a handler (\<open>TypeError\<close>), the system call may fail (\<open>OSError\<close>).\<close>

definition set_signal ::
  "(signal_no \<Rightarrow> pyexn option) \<Rightarrow> signal_no \<Rightarrow> sig_handler \<Rightarrow> main_thread \<Rightarrow> sig_handler result \<times> main_thread" where
  "set_signal refused sig h m = (case refused sig of
      Some e \<Rightarrow> if h = Not_Python \<and> \<not> isinstance e C_ValueError then (Inl TypeError, m) else (Inl e, m)
    | None \<Rightarrow> if h = Not_Python then (Inl TypeError, m)
        else (Inr (mt_disposition m sig), m\<lparr>mt_disposition := (mt_disposition m)(sig := h)\<rparr>))"

text \<open>Calling a handler; \<open>result\<close> is what a function of the program does with a signal.  The
  method \<open>_handler\<close> keeps the signal, the last one wins.\<close>

definition call_handler ::
  "(callable \<Rightarrow> signal_no \<Rightarrow> ending) \<Rightarrow> callable \<Rightarrow> signal_no \<Rightarrow> main_thread \<Rightarrow> ending \<times> main_thread" where
  "call_handler result c sig m = (case c of
      Delayed n \<Rightarrow> (Normal, m\<lparr>mt_delayed := (mt_delayed m)[n := (mt_delayed m ! n)\<lparr>dl_signal := Some sig\<rparr>]\<rparr>)
    | Default_int \<Rightarrow> (Keyboard_interrupt, m\<lparr>mt_handled := mt_handled m @ [(c, sig)]\<rparr>)
    | _ \<Rightarrow> (result c sig, m\<lparr>mt_handled := mt_handled m @ [(c, sig)]\<rparr>))"

text \<open>Delivery by the interpreter and the operating system.\<close>

definition deliver ::
  "(callable \<Rightarrow> signal_no \<Rightarrow> ending) \<Rightarrow> signal_no \<Rightarrow> main_thread \<Rightarrow> ending \<times> main_thread" where
  "deliver result sig m = (case mt_disposition m sig of
      Callable c \<Rightarrow> call_handler result c sig m
    | SIG_DFL \<Rightarrow> (Killed, m)
    | _ \<Rightarrow> (Normal, m))"

section \<open>Entering and leaving a section\<close>

text \<open>\<open>__init__\<close> and \<open>__enter__\<close>: the first refusal ends the loop.\<close>

fun take_over ::
  "(signal_no \<Rightarrow> pyexn option) \<Rightarrow> nat \<Rightarrow> signal_no list \<Rightarrow> main_thread \<Rightarrow> main_thread" where
  "take_over refused n [] m = m"
| "take_over refused n (sig # sigs) m = (case set_signal refused sig (Callable (Delayed n)) m of
      (Inl e, m) \<Rightarrow> m
    | (Inr old, m) \<Rightarrow> take_over refused n sigs
        (m\<lparr>mt_delayed := (mt_delayed m)[n := (mt_delayed m ! n)
            \<lparr>dl_old_handlers := dset sig old (dl_old_handlers (mt_delayed m ! n))\<rparr>]\<rparr>))"

definition enter_section ::
  "bool \<Rightarrow> (signal_no \<Rightarrow> pyexn option) \<Rightarrow> main_thread \<Rightarrow> nat \<times> main_thread" where
  "enter_section is_main refused m = (let n = length (mt_delayed m);
       m = m\<lparr>mt_delayed := mt_delayed m @ [\<lparr>dl_signal = None, dl_old_handlers = []\<rparr>]\<rparr> in
     (n, if is_main then take_over refused n [SIGINT, SIGTERM] m else m))"

text \<open>The restoring loop of \<open>__exit__\<close>: \<open>except ValueError, OSError\<close> lets a \<open>TypeError\<close> escape.\<close>

fun restore_handlers ::
  "(signal_no \<Rightarrow> pyexn option) \<Rightarrow> (signal_no, sig_handler) dict \<Rightarrow> main_thread \<Rightarrow> unit result \<times> main_thread" where
  "restore_handlers refused [] m = (Inr (), m)"
| "restore_handlers refused ((sig, h) # hs) m = (case set_signal refused sig h m of
      (Inl e, m) \<Rightarrow> (if isinstance e C_ValueError \<or> isinstance e C_OSError
                    then restore_handlers refused hs m else (Inl e, m))
    | (Inr _, m) \<Rightarrow> restore_handlers refused hs m)"

definition replay ::
  "(callable \<Rightarrow> signal_no \<Rightarrow> ending) \<Rightarrow> delayed \<Rightarrow> main_thread \<Rightarrow> ending \<times> main_thread" where
  "replay result d m = (case dl_signal d of
      None \<Rightarrow> (Normal, m)
    | Some sig \<Rightarrow> (case dget (dl_old_handlers d) sig of
        Some (Callable c) \<Rightarrow> call_handler result c sig m
      | Some SIG_DFL \<Rightarrow> (if sig = SIGINT then Keyboard_interrupt else Normal, m)
      | _ \<Rightarrow> (Normal, m)))"

text \<open>\<open>__exit__\<close> after a body that ended with \<open>r\<close>.\<close>

definition exit_section ::
  "(signal_no \<Rightarrow> pyexn option) \<Rightarrow> (callable \<Rightarrow> signal_no \<Rightarrow> ending) \<Rightarrow> nat \<Rightarrow> ending \<Rightarrow> main_thread \<Rightarrow> ending \<times> main_thread" where
  "exit_section refused result n r m = (case restore_handlers refused (dl_old_handlers (mt_delayed m ! n)) m of
      (Inl e, m) \<Rightarrow> (Error e, m)
    | (Inr _, m) \<Rightarrow> (case replay result (mt_delayed m ! n) m of
        (Normal, m) \<Rightarrow> (r, m)
      | (r', m) \<Rightarrow> (r', m)))"

section \<open>Programs with protected sections\<close>

text \<open>A program: signals that arrive, sections, an exception.\<close>

datatype prog = Signal signal_no | Section "prog list" | Fail pyexn

fun run_prog ::
  "bool \<Rightarrow> (signal_no \<Rightarrow> pyexn option) \<Rightarrow> (callable \<Rightarrow> signal_no \<Rightarrow> ending) \<Rightarrow> prog \<Rightarrow> main_thread \<Rightarrow> ending \<times> main_thread"
  and run_progs ::
  "bool \<Rightarrow> (signal_no \<Rightarrow> pyexn option) \<Rightarrow> (callable \<Rightarrow> signal_no \<Rightarrow> ending) \<Rightarrow> prog list \<Rightarrow> main_thread \<Rightarrow> ending \<times> main_thread" where
  "run_prog is_main refused result (Signal sig) m = deliver result sig m"
| "run_prog is_main refused result (Fail e) m = (Error e, m)"
| "run_prog is_main refused result (Section ps) m = (case enter_section is_main refused m of
      (n, m) \<Rightarrow> (case run_progs is_main refused result ps m of
        (Killed, m) \<Rightarrow> (Killed, m)
      | (r, m) \<Rightarrow> exit_section refused result n r m))"
| "run_progs is_main refused result [] m = (Normal, m)"
| "run_progs is_main refused result (p # ps) m = (case run_prog is_main refused result p m of
      (Normal, m) \<Rightarrow> run_progs is_main refused result ps m
    | (r, m) \<Rightarrow> (r, m))"

section \<open>The manager's handlers\<close>

fun install_handlers ::
  "(signal_no \<Rightarrow> pyexn option) \<Rightarrow> signal_no list \<Rightarrow> 'cb shutdown_state \<times> main_thread \<Rightarrow> unit result \<times> 'cb shutdown_state \<times> main_thread" where
  "install_handlers refused [] (s, m) = (Inr (), s, m)"
| "install_handlers refused (sig # sigs) (s, m) = (case set_signal refused sig (Callable Manager) m of
      (Inl e, m) \<Rightarrow> (if isinstance e C_ValueError \<or> isinstance e C_OSError
                    then install_handlers refused sigs (s, m) else (Inl e, s, m))
    | (Inr old, m) \<Rightarrow> install_handlers refused sigs
        (s\<lparr>sd_original_handlers := dset sig old (sd_original_handlers s)\<rparr>, m))"

text \<open>\<open>ShutdownManager.initialize\<close>; the time-out is a rational number of seconds.\<close>

definition manager_initialize ::
  "(signal_no \<Rightarrow> pyexn option) \<Rightarrow> rat \<Rightarrow> 'cb shutdown_state \<times> main_thread \<Rightarrow> unit result \<times> 'cb shutdown_state \<times> main_thread" where
  "manager_initialize refused timeout sm = (if timeout \<le> 0 then (Inl (ValueError ''timeout must be greater than 0''), sm)
     else if sd_initialized (fst sm) then (Inr (), sm)
     else case install_handlers refused [SIGTERM, SIGINT] sm of
       (Inl e, sm) \<Rightarrow> (Inl e, sm)
     | (Inr _, s, m) \<Rightarrow> (Inr (), s\<lparr>sd_initialized := True\<rparr>, m))"

definition reset_manager ::
  "(signal_no \<Rightarrow> pyexn option) \<Rightarrow> 'cb shutdown_state \<times> main_thread \<Rightarrow> unit result \<times> 'cb shutdown_state \<times> main_thread" where
  "reset_manager refused sm = (case restore_handlers refused (sd_original_handlers (fst sm)) (snd sm) of
      (Inl e, m) \<Rightarrow> (Inl e, fst sm, m)
    | (Inr _, m) \<Rightarrow> (Inr (), new_shutdown_state, m))"


section \<open>What a protected section does\<close>

text \<open>The signals that arrive while a program runs, up to its exception.\<close>

fun trace_prog :: "prog \<Rightarrow> signal_no list \<times> pyexn option"
  and trace_progs :: "prog list \<Rightarrow> signal_no list \<times> pyexn option" where
  "trace_prog (Signal sig) = ([sig], None)"
| "trace_prog (Fail e) = ([], Some e)"
| "trace_prog (Section ps) = trace_progs ps"
| "trace_progs [] = ([], None)"
| "trace_progs (p # ps) = (case trace_prog p of
      (sigs, None) \<Rightarrow> (case trace_progs ps of (sigs', e) \<Rightarrow> (sigs @ sigs', e))
    | (sigs, Some e) \<Rightarrow> (sigs, Some e))"

definition body_ending :: "pyexn option \<Rightarrow> ending" where
  "body_ending e = (case e of None \<Rightarrow> Normal | Some e \<Rightarrow> Error e)"

definition latest :: "signal_no list \<Rightarrow> signal_no option \<Rightarrow> signal_no option" where
  "latest sigs old = (if sigs = [] then old else Some (last sigs))"

lemma latest_simps [simp]:
  "latest [] old = old" "latest [sig] old = Some sig" "latest (xs @ ys) old = latest ys (latest xs old)"
  by (simp_all add: latest_def)

abbreviation allowed :: "signal_no \<Rightarrow> pyexn option" where
  "allowed \<equiv> \<lambda>_. None"

text \<open>The object of a section entered in \<open>m\<close>, and the state of the thread inside it.\<close>

definition opened :: "main_thread \<Rightarrow> delayed" where
  "opened m = \<lparr>dl_signal = None,
     dl_old_handlers = [(SIGINT, mt_disposition m SIGINT), (SIGTERM, mt_disposition m SIGTERM)]\<rparr>"

definition inside :: "main_thread \<Rightarrow> main_thread" where
  "inside m = m\<lparr>mt_disposition := (\<lambda>_. Callable (Delayed (length (mt_delayed m)))),
     mt_delayed := mt_delayed m @ [opened m]\<rparr>"

lemma enter_section_main: "enter_section True allowed m = (length (mt_delayed m), inside m)"
proof -
  have "(mt_disposition m)(SIGINT := h, SIGTERM := h) = (\<lambda>_. h)" for h :: sig_handler
    by (rule ext) (metis (full_types) fun_upd_apply signal_no.exhaust)
  then show ?thesis
    by (simp add: enter_section_def set_signal_def inside_def opened_def Let_def dset_new)
qed

lemma exit_section_main:
  assumes "\<forall>sig. mt_disposition m sig \<noteq> Not_Python"
    and "mt_delayed k = mt_delayed m @ (opened m)\<lparr>dl_signal := s\<rparr> # extra"
  shows "exit_section allowed result (length (mt_delayed m)) r k =
    (case replay result ((opened m)\<lparr>dl_signal := s\<rparr>) (k\<lparr>mt_disposition := mt_disposition m\<rparr>) of
      (Normal, k) \<Rightarrow> (r, k) | (r', k) \<Rightarrow> (r', k))"
proof -
  have "(mt_disposition k)(SIGINT := mt_disposition m SIGINT, SIGTERM := mt_disposition m SIGTERM) = mt_disposition m"
    by (rule ext) (metis (full_types) fun_upd_apply signal_no.exhaust)
  with assms show ?thesis by (simp add: exit_section_def opened_def set_signal_def)
qed

lemma run_section:
  "enter_section is_main refused m = (n, m1) \<Longrightarrow> run_progs is_main refused result ps m1 = (r, k) \<Longrightarrow>
   r \<noteq> Killed \<Longrightarrow> run_prog is_main refused result (Section ps) m = exit_section refused result n r k"
  by (cases r) simp_all

lemma body_ending_simps [simp]:
  "body_ending None = Normal" "body_ending (Some e) = Error e" "body_ending b \<noteq> Killed"
  by (simp_all add: body_ending_def split: option.splits)

lemma section_from_body:
  assumes "\<forall>sig. mt_disposition m sig \<noteq> Not_Python"
    and "run_progs True allowed result ps (inside m) = (body_ending e,
      (inside m)\<lparr>mt_delayed := mt_delayed m @ (opened m)\<lparr>dl_signal := s\<rparr> # extra\<rparr>)"
  shows "run_prog True allowed result (Section ps) m =
    (case replay result ((opened m)\<lparr>dl_signal := s\<rparr>)
        (m\<lparr>mt_delayed := mt_delayed m @ (opened m)\<lparr>dl_signal := s\<rparr> # extra\<rparr>) of
      (Normal, k) \<Rightarrow> (body_ending e, k) | (r', k) \<Rightarrow> (r', k))"
proof -
  have "(inside m)\<lparr>mt_delayed := d, mt_disposition := mt_disposition m\<rparr> = m\<lparr>mt_delayed := d\<rparr>" for d
    by (cases m) (simp add: inside_def)
  moreover have "run_prog True allowed result (Section ps) m = exit_section allowed result (length (mt_delayed m))
      (body_ending e) ((inside m)\<lparr>mt_delayed := mt_delayed m @ (opened m)\<lparr>dl_signal := s\<rparr> # extra\<rparr>)"
    by (rule run_section [OF enter_section_main assms(2)]) simp
  moreover have "mt_delayed ((inside m)\<lparr>mt_delayed := d\<rparr>) = d" for d by simp
  ultimately show ?thesis by (simp only: exit_section_main [OF assms(1)])
qed

definition captured :: "nat \<Rightarrow> signal_no list \<Rightarrow> delayed list \<Rightarrow> main_thread \<Rightarrow> main_thread" where
  "captured n sigs extra m = m\<lparr>mt_delayed :=
     (mt_delayed m)[n := (mt_delayed m ! n)\<lparr>dl_signal := latest sigs (dl_signal (mt_delayed m ! n))\<rparr>] @ extra\<rparr>"

lemma captured_disposition [simp]: "mt_disposition (captured n sigs extra m) = mt_disposition m"
  by (simp add: captured_def)

lemma captured_length [simp]: "length (mt_delayed (captured n sigs extra m)) = length (mt_delayed m) + length extra"
  by (simp add: captured_def)

lemma captured_captured:
  "n < length (mt_delayed m) \<Longrightarrow>
   captured n sigs' extra' (captured n sigs extra m) = captured n (sigs @ sigs') (extra @ extra') m"
  by (cases m) (simp add: captured_def list_update_append nth_append)

lemma captured_none: "captured n [] [] m = m"
  by (cases m) (simp add: captured_def)

text \<open>Inside a section nothing but the capture happens.\<close>

lemma run_inside:
  "n < length (mt_delayed m) \<Longrightarrow> mt_disposition m = (\<lambda>_. Callable (Delayed n)) \<Longrightarrow>
   \<exists>extra. run_prog True allowed result p m =
     (body_ending (snd (trace_prog p)), captured n (fst (trace_prog p)) extra m)"
  "n < length (mt_delayed m) \<Longrightarrow> mt_disposition m = (\<lambda>_. Callable (Delayed n)) \<Longrightarrow>
   \<exists>extra. run_progs True allowed result ps m =
     (body_ending (snd (trace_progs ps)), captured n (fst (trace_progs ps)) extra m)"
proof (induction p and ps arbitrary: n m and n m rule: trace_prog_trace_progs.induct)
  case (1 sig)
  then show ?case
    by (intro exI [of _ "[]"]) (simp add: deliver_def call_handler_def captured_def)
next
  case (2 e)
  then show ?case by (intro exI [of _ "[]"]) (simp add: captured_none)
next
  case (3 ps)
  let ?N = "length (mt_delayed m)" and ?sigs = "fst (trace_progs ps)" and ?e = "snd (trace_progs ps)"
  from 3(1) [of ?N "inside m"] obtain extra where
    "run_progs True allowed result ps (inside m) = (body_ending ?e, captured ?N ?sigs extra (inside m))"
    by (auto simp: inside_def)
  then have body: "run_progs True allowed result ps (inside m) = (body_ending ?e, (inside m)
      \<lparr>mt_delayed := mt_delayed m @ (opened m)\<lparr>dl_signal := latest ?sigs None\<rparr> # extra\<rparr>)"
    by (simp add: captured_def inside_def opened_def)
  have "\<forall>sig. mt_disposition m sig \<noteq> Not_Python" using 3(3) by simp
  from section_from_body [OF this body] show ?case
  proof (cases "?sigs = []")
    case True
    with section_from_body [OF \<open>\<forall>sig. _\<close> body] show ?thesis
      by (intro exI [of _ "(opened m)\<lparr>dl_signal := None\<rparr> # extra"])
        (simp add: replay_def captured_def)
  next
    case False
    let ?d = "(opened m)\<lparr>dl_signal := Some (last ?sigs)\<rparr> # extra"
    have "dget (dl_old_handlers (opened m)) sig = Some (Callable (Delayed n))" for sig
      using 3(3) by (cases sig) (simp_all add: opened_def)
    with False section_from_body [OF \<open>\<forall>sig. _\<close> body] 3(2) show ?thesis
      by (intro exI [of _ ?d])
        (simp add: replay_def captured_def call_handler_def latest_def list_update_append nth_append)
  qed
next
  case 4
  then show ?case by (intro exI [of _ "[]"]) (simp add: captured_none)
next
  case (5 p ps)
  from 5(1) [OF 5(3,4)] obtain ex1 where p: "run_prog True allowed result p m =
      (body_ending (snd (trace_prog p)), captured n (fst (trace_prog p)) ex1 m)" by blast
  show ?case
  proof (cases "snd (trace_prog p)")
    case (Some e)
    with p show ?thesis
      by (intro exI [of _ ex1]) (simp add: case_prod_unfold)
  next
    case None
    then have t: "trace_prog p = (fst (trace_prog p), None)" by (metis prod.collapse)
    have "n < length (mt_delayed (captured n (fst (trace_prog p)) ex1 m))" using 5(3) by simp
    from 5(2) [OF t [symmetric] refl this] obtain ex2 where
      "run_progs True allowed result ps (captured n (fst (trace_prog p)) ex1 m) =
        (body_ending (snd (trace_progs ps)),
         captured n (fst (trace_progs ps)) ex2 (captured n (fst (trace_prog p)) ex1 m))"
      using 5(4) by auto
    moreover have "trace_progs (p # ps) = (fst (trace_prog p) @ fst (trace_progs ps), snd (trace_progs ps))"
      by (subst trace_progs.simps, subst t) (simp add: case_prod_unfold)
    ultimately show ?thesis
      using p None 5(3) by (intro exI [of _ "ex1 @ ex2"]) (simp add: captured_captured)
  qed
qed


text \<open>How the outermost section ends: the former handler of the last signal decides first.\<close>

definition replayed_ending ::
  "(callable \<Rightarrow> signal_no \<Rightarrow> ending) \<Rightarrow> sig_handler \<Rightarrow> signal_no \<Rightarrow> ending \<Rightarrow> ending" where
  "replayed_ending result h sig r = (case h of
      Callable Default_int \<Rightarrow> Keyboard_interrupt
    | Callable c \<Rightarrow> (if result c sig = Normal then r else result c sig)
    | SIG_DFL \<Rightarrow> (if sig = SIGINT then Keyboard_interrupt else r)
    | _ \<Rightarrow> r)"

fun replayed_calls :: "sig_handler \<Rightarrow> signal_no \<Rightarrow> (callable \<times> signal_no) list" where
  "replayed_calls (Callable c) sig = [(c, sig)]"
| "replayed_calls _ sig = []"

text \<open>C18. No handler of the program runs inside a protected section, however sections nest and
  even when the body raises.  Leaving the outermost one restores both handlers, and then calls
  the former handler of the last signal that arrived, once, with that signal.\<close>

theorem section_delays_signals:
  assumes outermost: "\<forall>sig n. mt_disposition m sig \<noteq> Callable (Delayed n)"
    and python: "\<forall>sig. mt_disposition m sig \<noteq> Not_Python"
    and "trace_progs ps = (sigs, e)" and "run_prog True allowed result (Section ps) m = (r, k)"
  shows "mt_disposition k = mt_disposition m \<and>
    mt_handled k = mt_handled m @
      (if sigs = [] then [] else replayed_calls (mt_disposition m (last sigs)) (last sigs)) \<and>
    r = (if sigs = [] then body_ending e
         else replayed_ending result (mt_disposition m (last sigs)) (last sigs) (body_ending e))"
proof -
  let ?N = "length (mt_delayed m)"
  obtain extra where "run_progs True allowed result ps (inside m) =
      (body_ending e, captured ?N sigs extra (inside m))"
    using run_inside(2) [of ?N "inside m" result ps] assms(3) by (auto simp: inside_def)
  then have body: "run_progs True allowed result ps (inside m) = (body_ending e, (inside m)
      \<lparr>mt_delayed := mt_delayed m @ (opened m)\<lparr>dl_signal := latest sigs None\<rparr> # extra\<rparr>)"
    by (simp add: captured_def inside_def opened_def)
  note run = section_from_body [OF python body]
  show ?thesis
  proof (cases "sigs = []")
    case True
    with run assms(4) show ?thesis by (auto simp: replay_def)
  next
    case False
    define sig where "sig = last sigs"
    have old: "dget (dl_old_handlers (opened m)) sig = Some (mt_disposition m sig)"
      by (cases sig) (simp_all add: opened_def)
    show ?thesis
    proof (cases "mt_disposition m sig")
      case (Callable c)
      with outermost have "\<forall>n. c \<noteq> Delayed n" by metis
      with False run assms(4) old Callable show ?thesis
        by (cases c) (auto simp: replay_def latest_def sig_def [symmetric] call_handler_def
          replayed_ending_def split: ending.splits)
    next
      case SIG_DFL
      with False run assms(4) old show ?thesis
        by (auto simp: replay_def latest_def sig_def [symmetric] replayed_ending_def split: if_splits)
    next
      case SIG_IGN
      with False run assms(4) old show ?thesis
        by (auto simp: replay_def latest_def sig_def [symmetric] replayed_ending_def)
    next
      case Not_Python
      with python show ?thesis by blast
    qed
  qed
qed

theorem section_delays_signals_witness:
  "(let m = \<lparr>mt_disposition = (\<lambda>_. Callable Manager), mt_delayed = [], mt_handled = []\<rparr>;
        ps = [Signal SIGINT, Section [Signal SIGTERM, Fail OSError], Signal SIGINT];
        (r, k) = run_prog True allowed (\<lambda>_ _. Normal) (Section ps) m in
    mt_handled k = [(Manager, SIGTERM)] \<and> r = Error OSError)"
proof -
  let ?m = "\<lparr>mt_disposition = (\<lambda>_. Callable Manager), mt_delayed = [], mt_handled = []\<rparr>"
  let ?ps = "[Signal SIGINT, Section [Signal SIGTERM, Fail OSError], Signal SIGINT]"
  let ?run = "run_prog True allowed (\<lambda>_ _. Normal) (Section ?ps) ?m"
  have "trace_progs ?ps = ([SIGINT, SIGTERM], Some OSError)" by simp
  from section_delays_signals [of ?m, OF _ _ this, of "\<lambda>_ _. Normal" "fst ?run" "snd ?run"]
  show ?thesis by (simp add: Let_def case_prod_unfold replayed_ending_def del: run_prog.simps)
qed

text \<open>A \<open>SIGTERM\<close> with the default disposition is lost in a section: without the section it ends
  the process.\<close>

theorem delayed_sigterm_is_lost:
  assumes "mt_disposition m = (\<lambda>_. SIG_DFL)"
  shows "fst (run_prog True allowed result (Section [Signal SIGTERM]) m) = Normal \<and>
    fst (run_prog True allowed result (Signal SIGTERM) m) = Killed"
proof -
  obtain extra where "run_progs True allowed result [Signal SIGTERM] (inside m) =
      (Normal, captured (length (mt_delayed m)) [SIGTERM] extra (inside m))"
    using run_inside(2) [of "length (mt_delayed m)" "inside m" result "[Signal SIGTERM]"]
    by (auto simp: inside_def)
  then have body: "run_progs True allowed result [Signal SIGTERM] (inside m) = (body_ending None, (inside m)
      \<lparr>mt_delayed := mt_delayed m @ (opened m)\<lparr>dl_signal := Some SIGTERM\<rparr> # extra\<rparr>)"
    by (simp add: captured_def inside_def opened_def)
  have "dget (dl_old_handlers (opened m)) SIGTERM = Some SIG_DFL"
    using assms by (simp add: opened_def)
  with section_from_body [OF _ body] assms show ?thesis by (simp add: replay_def deliver_def)
qed

text \<open>Resetting the manager after its initialization restores the handlers it replaced.\<close>

theorem reset_restores_handlers:
  assumes "0 < timeout" "\<forall>sig. mt_disposition m sig \<noteq> Not_Python"
  shows "\<exists>s k. manager_initialize allowed timeout (new_shutdown_state, m) = (Inr (), s, k) \<and>
    mt_disposition k = (\<lambda>_. Callable Manager) \<and> reset_manager allowed (s, k) = (Inr (), new_shutdown_state, m)"
proof -
  have f: "f(SIGTERM := a, SIGINT := b) = (\<lambda>sig. if sig = SIGINT then b else a)" for f :: "signal_no \<Rightarrow> sig_handler" and a b
    by (rule ext) (metis (full_types) fun_upd_apply signal_no.exhaust)
  have g: "(\<lambda>sig. if sig = SIGINT then d SIGINT else d SIGTERM) = d" for d :: "signal_no \<Rightarrow> sig_handler"
    by (rule ext) (metis (full_types) signal_no.exhaust)
  from assms show ?thesis
    by (cases m) (simp add: manager_initialize_def reset_manager_def set_signal_def new_shutdown_state_def f g dset_new)
qed

end
