(* ===== verification/Spec2Isabelle.thy ===== *)
theory Spec2Isabelle
  imports Prelude Py_Values Coercion Validator Security Crud_Validation Crud_Locking Note_Parser Crud_Write Sample_Runs Reindex_Queue Enrichment_Jobs Watcher Crud_Enrich Enrich_Runs Markdown_Parser Searcher Note_Tools Sync Rebuild Graph_Tools Crud_Delete Catalog Crud_Tools Settings Delayed_Signals
begin

text \<open>
  A model of \<open>vault-search-mcp\<close>, a server that indexes a vault of Markdown notes, searches
  it and edits its notes.  All source paths are relative to \<open>src/vault_search/\<close>.

  \<^bold>\<open>The parts and how they interact.\<close>  A tool call of a client edits a note through the CRUD
  layer (\<open>crud/\<close>).  Each edit validates the request, takes an advisory lock, reads the
  note, computes the new text and publishes it with an atomic rename.  Front matter written
  that way is first checked by the schema validator (\<open>frontmatter/\<close>), and missing fields can
  be asked of an external model.  Every change is announced to the watcher (\<open>watching/\<close>),
  which suppresses the events of the server's own writes and passes the others, debounced, to
  the reindex queue (\<open>server/reindex_queue.py\<close>).  Reindexing parses the note (\<open>parsers/\<close>),
  extracts its links (\<open>utils/links.py\<close>) and cuts it into chunks (\<open>core/chunker.py\<close>).
  Strings that enter a database filter are escaped by \<open>utils/security.py\<close>.

  \<^bold>\<open>Conventions.\<close>  A Python function is one definition of the same name; a method is a
  function of its object's record.  A \<open>dict\<close> is an association list in insertion order, an
  exception a value of \<open>pyexn\<close> with the class hierarchy that the \<open>except\<close> clauses need
  (\<open>isinstance\<close>), a fallible function returns \<open>pyexn + 'a\<close>.  Characters are Latin-1, so
  \<open>str.lower\<close> and white space are exact on that range only.  Floats are their exact rational
  values with NaN and the infinities apart.  A function that touches files, clocks, locks or
  processes is an \<open>'a io\<close>: it takes an environment and a world to a result and a world.

  \<^bold>\<open>Theories.\<close>
  \<^item> \<open>Prelude\<close>, \<open>Py_Values\<close>: strings, dictionaries, exceptions, Python values, the locale
    \<open>invariant_system\<close> of transition systems.
  \<^item> \<open>Frontmatter_Schema\<close> (\<open>frontmatter/schema.py\<close>), \<open>Coercion\<close>
    (\<open>frontmatter/coercion.py\<close>) and \<open>Validator\<close> (\<open>frontmatter/validator.py\<close>): field schemas,
    the coercion of one value, the validation of a note's front matter.  A coerced value
    conforms to its schema and is a fixed point of the coercion; so is the validated front
    matter of the validator; only certain exceptions escape.
  \<^item> \<open>Security\<close> (\<open>utils/security.py\<close>): the SQL escapes against a reader of SQL literals and a
    matcher of \<open>LIKE\<close> patterns; the check of relative paths.
  \<^item> \<open>Vault_World\<close>: the world.  A file system (regular files, directories, resolution of
    symbolic links), a monotonic clock, a log of calls.  Before each system call the
    environment may change the file system, and it may make the call fail or find a lock busy.
    \<open>cooperative\<close> environments leave the locked paths and the own temporary files alone.
  \<^item> \<open>Crud_Validation\<close> (\<open>crud/validation.py\<close>, \<open>crud/types.py\<close>): path resolution, limits, the
    guarded read and the durable write.
  \<^item> \<open>Crud_Locking\<close> (\<open>crud/locking.py\<close>): time-outs, the polling of \<open>flock\<close>, the context
    managers of one lock.  The locale \<open>locked_editor\<close> states what every edit
    under a lock has in common; its client lemma is that such an edit is atomic.
  \<^item> \<open>Crud_Write\<close>, \<open>Crud_Enrich\<close> (\<open>crud/write.py\<close>): the operations, each an interpretation of
    \<open>locked_editor\<close>.  \<open>Sample_Runs\<close> and \<open>Enrich_Runs\<close> hold their concrete runs.
  \<^item> \<open>Crud_Delete\<close> (\<open>crud/delete.py\<close>): deletion into the trash and the move under two locks,
    with \<open>shutil.move\<close> as a rename or a copy: no failure loses or overwrites a note.
  \<^item> \<open>Enrichment\<close> (\<open>frontmatter/enrichment.py\<close>): the calls of the external model, with
    retries and the allow-list of the fields it may fill.
  \<^item> \<open>Note_Parser\<close> (\<open>parsers/frontmatter.py\<close>), \<open>Markdown_Parser\<close> (\<open>parsers/markdown.py\<close>,
    \<open>parsers/canvas.py\<close>), \<open>Links\<close>, \<open>Chunker\<close>: from the text of a note to its front matter, its
    sections, links and chunks.
  \<^item> \<open>Reindex_Queue\<close>, \<open>Enrichment_Jobs\<close> (\<open>server/frontmatter_jobs.py\<close>), \<open>Watcher\<close>
    (\<open>watching/watcher.py\<close>, \<open>watching/event_handler.py\<close>): transition systems over the records
    of the Python objects.  A step is one critical section of the code, so every
    interleaving of the threads is a path; each interprets \<open>invariant_system\<close>.

  \<^item> \<open>Lru_Cache\<close> (\<open>crud/cache.py\<close>, the query cache of \<open>core/searcher.py\<close>): bounded, evicts
    the least recently used entry, transparent to the query.
  \<^item> \<open>Catalog\<close> (\<open>crud/catalog.py\<close>, \<open>crud/read.py\<close>): the table of the notes, its scan of the
    vault, given as a tree, and its reconciliation, whose transactions may fail; the listings,
    which the catalogue answers or a scan; reading a note and its cached metadata.
  \<^item> \<open>Ranking\<close>, \<open>Filters\<close>, \<open>Searcher\<close> (\<open>core/searcher.py\<close>, \<open>core/highlight.py\<close>,
    \<open>core/result_formatter.py\<close>): fusion, reranking and highlighting of rows; the text of the SQL
    filters, read back as prepared statements by \<open>sql_prepare\<close>; the searches, similar notes,
    duplicates, prewarming and the search tools of \<open>server/search_tools.py\<close>.  The table is a
    function of the filter, so a property states what it asks of the database.
  \<^item> \<open>Link_Tools\<close>, \<open>Note_Tools\<close> (\<open>server/search_tools.py\<close>): backlinks, outlinks, broken
    links, orphans, link statistics; recent notes, tags and the folder tree.
  \<^item> \<open>Graph_Tools\<close> (\<open>server/graph_tools.py\<close>): the graph of the links, its clusters, which are
    the connected components, and its articulation points by Tarjan's algorithm.
  \<^item> \<open>Index_Store\<close>, \<open>Circuit_Breaker\<close>, \<open>Indexer\<close>, \<open>Sync\<close> (\<open>core/indexer.py\<close>,
    \<open>core/fts_builder.py\<close>, \<open>parsers/__init__.py\<close>): the tables keep every version, by the
    locale \<open>versioned_table\<close>, and the \<open>n\<close>-th call of the database fails when the argument
    \<open>F\<close> says so.  The records of a note are replaced in three tables or not at all; the
    breaker limits how often; synchronization brings the index up to the vault.
  \<^item> \<open>Full_Reindex\<close>, \<open>Rebuild\<close> (\<open>core/indexer.py\<close>, \<open>core/scanner.py\<close>): the complete rebuild in
    staging tables, its publication and the restoration of the tables already replaced.  It
    replaces the index as a whole or not at all, it completes when nothing fails, and the
    tables keep the kinds of their rows.

  \<^item> \<open>Crud_Tools\<close> (\<open>server/crud_tools.py\<close>): the tools that edit and read notes, which join the
    operations, the reindex queue and the enrichment jobs: a note written is indexed again.
  \<^item> \<open>Settings\<close> (\<open>config/\<close>, \<open>utils/network.py\<close>): the configuration.  Whatever its file holds, what
    is accepted satisfies the bounds the components need; the exceptions are theorems too.
  \<^item> \<open>Shutdown\<close>, \<open>Delayed_Signals\<close> (\<open>utils/shutdown.py\<close>): the callers, callbacks and handlers of a
    shutdown as a transition system, which interprets \<open>invariant_system\<close>; protected sections
    with the signals that arrive in them.

  \<^bold>\<open>Bounds.\<close>  The recursion of \<open>acquire_flock\<close> carries the fuel 6002: each poll but the last
  sleeps at least 50 ms and the longest time-out is 300 s, and \<open>acquire_flock_terminates\<close> shows
  that the fuel is never used up.  All other functions are total by structural recursion or a
  measure.

  \<^bold>\<open>Parameters.\<close>  PyYAML, JSON, regular expressions of the user, UUIDs, hash digests, the
  external model and the date parsers are arguments (records \<open>pylib\<close>, \<open>valgen\<close>, \<open>ai_conf\<close> and
  \<open>conf\<close>); what a property needs of them is a named hypothesis, shown to be satisfiable in its
  witness.

  \<^bold>\<open>Not modelled.\<close>  The embedding models and the daemon that hosts them (machine learning
  libraries, sockets), the PDF parser (a library), the conversion of YAML values by pydantic,
  the registration of the tools with the MCP server, logging, metrics output and the release scripts.
\<close>

end
